(* ===== verification/Go_Prelude.thy ===== *)
theory Go_Prelude
  imports
    Main
    "HOL-Library.AList"
    "HOL-Library.Char_ord"
    "HOL-Library.List_Lexorder"
    "HOL-Library.Multiset"
begin

text \<open>
  The parts of the Go language and its standard library that every component
  uses. A Go map that is only looked up is a HOL function or a
  \<^verbatim>\<open>'k \<rightharpoonup> 'v\<close>; a Go map that is also ranged over is an association list with
  distinct keys, written with \<^const>\<open>AList.update\<close> (assignment) and read with
  \<^const>\<open>map_of\<close>. Go's \<^verbatim>\<open>range\<close> over a map visits the keys in an order it does
  not fix: an operation whose result depends on that order takes the order as an
  explicit argument \<open>ks\<close>, and the theorems hold for every \<open>ks\<close>. Strings are byte
  strings, ordered bytewise as \<^verbatim>\<open>slices.Sort\<close> orders them. Go's \<^verbatim>\<open>error\<close> results
  are values of a sum, \<^const>\<open>Inl\<close> the error.
\<close>

named_theorems amap_simps \<open>lookups in updated association lists\<close>
named_theorems graph_frame \<open>fields an operation leaves unchanged\<close>

section \<open>Association lists as Go maps\<close>

type_synonym ('k, 'v) gomap = "('k \<times> 'v) list"

abbreviation keys_of :: "('k, 'v) gomap \<Rightarrow> 'k list" where
  "keys_of m \<equiv> map fst m"

text \<open>\<open>m[k] = v\<close> on a map of pointers, written through the pointer: the entry
  of \<open>k\<close>, when there is one, is changed in place.\<close>

definition amodify :: "'k \<Rightarrow> ('v \<Rightarrow> 'v) \<Rightarrow> ('k, 'v) gomap \<Rightarrow> ('k, 'v) gomap" where
  "amodify k f m = map (\<lambda>(k', v). (k', if k' = k then f v else v)) m"

lemma keys_amodify [simp, amap_simps]: "keys_of (amodify k f m) = keys_of m"
  by (induction m) (auto simp: amodify_def)

lemma length_amodify [simp]: "length (amodify k f m) = length m"
  by (simp add: amodify_def)

lemma map_of_amodify [simp, amap_simps]:
  "map_of (amodify k f m) k' = (if k' = k then map_option f (map_of m k') else map_of m k')"
  by (induction m) (auto simp: amodify_def)

lemma map_of_amodify_Some:
  "map_of (amodify k f m) k' = Some v' \<longleftrightarrow>
     (\<exists>v. map_of m k' = Some v \<and> v' = (if k' = k then f v else v))"
  by (cases "map_of m k'") auto

lemma map_of_update [simp, amap_simps]:
  "map_of (AList.update k v m) k' = (if k' = k then Some v else map_of m k')"
  by (simp add: update_conv')

lemma keys_update: "set (keys_of (AList.update k v m)) = insert k (set (keys_of m))"
  by (induction m) auto

lemma distinct_keys_update:
  "distinct (keys_of m) \<Longrightarrow> distinct (keys_of (AList.update k v m))"
  by (rule distinct_update)

lemma map_of_None_iff: "map_of m k = None \<longleftrightarrow> k \<notin> set (keys_of m)"
  by (simp add: map_of_eq_None_iff)

section \<open>Counting and filtering lists\<close>

lemma length_filter_remove:
  "length (filter (\<lambda>x. f x \<notin> insert a D) xs) + length (filter (\<lambda>x. f x = a) xs)
     = length (filter (\<lambda>x. f x \<notin> D) xs)" if "a \<notin> D"
  using that by (induction xs) auto

lemma count_list_filter_length: "count_list (map f xs) a = length (filter (\<lambda>x. f x = a) xs)"
  by (induction xs) auto

lemma count_list_append [simp]: "count_list (xs @ ys) a = count_list xs a + count_list ys a"
  by (induction xs) auto

lemma count_list_notin: "a \<notin> set xs \<Longrightarrow> count_list xs a = 0"
  by (induction xs) auto

lemma distinct_index_unique:
  "distinct xs \<Longrightarrow> i < length xs \<Longrightarrow> j < length xs \<Longrightarrow> xs ! i = xs ! j \<Longrightarrow> i = j"
  by (simp add: nth_eq_iff_index_eq)

lemma distinct_subset_length:
  "distinct xs \<Longrightarrow> set xs \<subseteq> set ys \<Longrightarrow> length xs \<le> length ys"
  by (metis card_length card_mono distinct_card List.finite_set le_trans)

lemma member_le_sum_map: "x \<in> set xs \<Longrightarrow> (f x :: nat) \<le> (\<Sum>y\<leftarrow>xs. f y)"
  by (induction xs) auto

lemma sum_list_two:
  assumes "j < length xs" and "k < length xs" and "j \<noteq> k"
  shows "f (xs ! j) + f (xs ! k) \<le> (\<Sum>x\<leftarrow>xs. (f x :: nat))"
  using assms
proof (induction xs arbitrary: j k)
  case (Cons x xs)
  show ?case
  proof (cases "j = 0 \<or> k = 0")
    case True
    with Cons.prems member_le_sum_map [of "xs ! (j - 1)" xs f] member_le_sum_map [of "xs ! (k - 1)" xs f]
    show ?thesis by (cases j; cases k) auto
  next
    case False
    with Cons.prems Cons.IH [of "j - 1" "k - 1"] show ?thesis by (cases j; cases k) auto
  qed
qed simp

lemma in_set_take_nth: "x \<in> set (take k xs) \<Longrightarrow> \<exists>j < k. j < length xs \<and> xs ! j = x"
  by (auto simp: in_set_conv_nth)

section \<open>The newest elements of a list\<close>

definition newest :: "nat \<Rightarrow> 'a list \<Rightarrow> 'a list" where
  "newest n xs = drop (length xs - n) xs"

lemma newest_all: "length xs \<le> n \<Longrightarrow> newest n xs = xs"
  by (simp add: newest_def)

lemma length_newest: "length (newest n xs) = min n (length xs)"
  by (simp add: newest_def)

lemma newest_append: "newest n (xs @ ys) = newest (n - length ys) xs @ newest n ys"
proof (cases "n \<le> length ys")
  case False
  then show ?thesis by (simp add: newest_def)
qed (simp add: newest_def)

lemma newest_newest: "newest n (newest n xs @ ys) = newest n (xs @ ys)"
proof (cases "length xs \<le> n")
  case False
  then show ?thesis by (cases "n \<le> length ys") (simp_all add: newest_def add.commute)
qed (simp add: newest_all)

lemma newest_take_all: "newest n (xs @ ys) = (if n \<le> length ys then newest n ys else newest (n - length ys) xs @ ys)"
  by (simp add: newest_def)

section \<open>Results\<close>

text \<open>Running a validation over a slice and returning the first error.\<close>

fun first_err :: "('a \<Rightarrow> 'e + unit) \<Rightarrow> 'a list \<Rightarrow> 'e + unit" where
  "first_err f [] = Inr ()"
| "first_err f (x # xs) = (case f x of Inl e \<Rightarrow> Inl e | Inr _ \<Rightarrow> first_err f xs)"

lemma first_err_Inr: "first_err f xs = Inr () \<longleftrightarrow> (\<forall>x \<in> set xs. f x = Inr ())"
  by (induction xs) (auto split: sum.splits)

lemma first_err_Inl: "first_err f xs = Inl e \<Longrightarrow> \<exists>x \<in> set xs. f x = Inl e"
  by (induction xs) (auto split: sum.splits)

text \<open>Converting every element, stopping at the first error.\<close>

fun map_err :: "('a \<Rightarrow> 'e + 'b) \<Rightarrow> 'a list \<Rightarrow> 'e + 'b list" where
  "map_err f [] = Inr []"
| "map_err f (x # xs) =
     (case f x of Inl e \<Rightarrow> Inl e
      | Inr y \<Rightarrow> (case map_err f xs of Inl e \<Rightarrow> Inl e | Inr ys \<Rightarrow> Inr (y # ys)))"

lemma map_err_Inr: "map_err f xs = Inr ys \<longleftrightarrow> list_all2 (\<lambda>x y. f x = Inr y) xs ys"
proof (induction xs arbitrary: ys)
  case (Cons x xs)
  show ?case
  proof (cases ys)
    case (Cons z zs)
    have "map_err f (x # xs) = Inr (z # zs) \<longleftrightarrow> f x = Inr z \<and> map_err f xs = Inr zs"
      by (simp split: sum.splits)
    with Cons.IH Cons show ?thesis by simp
  qed (simp split: sum.splits)
qed auto

lemma map_err_length: "map_err f xs = Inr ys \<Longrightarrow> length ys = length xs"
  by (auto simp: map_err_Inr dest: list_all2_lengthD)

text \<open>Go's \<^verbatim>\<open>if err != nil { return err }\<close>, and wrapping an error with context.\<close>

definition bindE :: "'e + 'a \<Rightarrow> ('a \<Rightarrow> 'e + 'b) \<Rightarrow> 'e + 'b" where
  "bindE r f = (case r of Inl e \<Rightarrow> Inl e | Inr x \<Rightarrow> f x)"

definition wrapE :: "('e \<Rightarrow> 'f) \<Rightarrow> 'e + 'a \<Rightarrow> 'f + 'a" where
  "wrapE w r = (case r of Inl e \<Rightarrow> Inl (w e) | Inr x \<Rightarrow> Inr x)"

lemma bindE_simps [simp]: "bindE (Inl e) f = Inl e" "bindE (Inr x) f = f x"
  by (simp_all add: bindE_def)

lemma bindE_Inr: "bindE r f = Inr y \<longleftrightarrow> (\<exists>x. r = Inr x \<and> f x = Inr y)"
  by (cases r) simp_all

lemma wrapE_simps [simp]: "wrapE w (Inl e) = Inl (w e)" "wrapE w (Inr x) = Inr x"
  by (simp_all add: wrapE_def)

lemma wrapE_Inr: "wrapE w r = Inr y \<longleftrightarrow> r = Inr y"
  by (cases r) simp_all

text \<open>\<^verbatim>\<open>maps.Copy(dst, src)\<close>.\<close>

definition copyMap :: "('k, 'v) gomap \<Rightarrow> ('k, 'v) gomap \<Rightarrow> ('k, 'v) gomap" where
  "copyMap dst src = fold (\<lambda>(k, v). AList.update k v) src dst"

lemma map_of_copyMap: "map_of (copyMap dst src) = map_of dst ++ map_of (rev src)"
proof (induction src arbitrary: dst)
  case (Cons kv src)
  obtain k v where kv: "kv = (k, v)" by fastforce
  have "map_of (copyMap dst (kv # src)) = map_of (AList.update k v dst) ++ map_of (rev src)"
    using Cons.IH [of "AList.update k v dst"] unfolding copyMap_def kv by (simp only: fold.simps o_apply prod.case)
  then show ?case by (auto simp: fun_eq_iff map_add_def kv split: option.splits)
qed (simp add: copyMap_def)

lemma map_of_rev_distinct: "distinct (keys_of m) \<Longrightarrow> map_of (rev m) = map_of m"
proof (rule map_of_eqI)
  assume d: "distinct (keys_of m)"
  show "set (keys_of (rev m)) = set (keys_of m)" by simp
  have "distinct (keys_of (rev m))" using d by (simp only: rev_map [symmetric] distinct_rev)
  with d show "\<forall>k \<in> set (keys_of (rev m)). map_of (rev m) k = map_of m k"
    by (metis map_of_eq_Some_iff not_Some_eq set_rev)
qed

lemma distinct_copyMap: "distinct (keys_of dst) \<Longrightarrow> distinct (keys_of (copyMap dst src))"
  by (induction src arbitrary: dst) (auto simp: copyMap_def distinct_keys_update)

end
