(* ===== verification/Hook_Filter.thy ===== *)
theory Hook_Filter
  imports Go_Prelude "HOL-Library.Word" "HOL-Library.Sublist"
begin

text \<open>
  The filter that keeps blocked terminal sequences from an attached viewer
  (cmdman/monitor/hook_filter.go). Bytes are 8-bit words. A method of the Go filter
  appends to the output slice it is given; its model returns the bytes it appends.
\<close>

type_synonym byte = "8 word"

section \<open>State\<close>

record hookBlocks =
  hbBell :: bool
  hbTitle :: bool
  hbNotification :: bool

definition hookBlocks_any :: "hookBlocks \<Rightarrow> bool" where
  "hookBlocks_any b \<longleftrightarrow> hbBell b \<or> hbTitle b \<or> hbNotification b"

datatype filterState =
    hookFilterGround | hookFilterEsc | hookFilterUtf8 | hookFilterOscID | hookFilterOscPass
  | hookFilterOscDrop | hookFilterOscDropEsc

datatype oscByte = oscByteData | oscByteEnd | oscByteEsc | oscByteAbort

record hookFilter =
  hfBlocks :: hookBlocks
  hfState :: filterState
  hfPending :: "byte list"
  hfPrefixLen :: nat
  hfUtf8Rest :: int
  hfEscCarry :: nat

definition newHookFilter :: "hookBlocks \<Rightarrow> hookFilter option" where
  "newHookFilter blocks =
     (if \<not> hookBlocks_any blocks then None
      else Some \<lparr> hfBlocks = blocks, hfState = hookFilterGround, hfPending = [], hfPrefixLen = 0, hfUtf8Rest = 0, hfEscCarry = 0 \<rparr>)"

section \<open>Identifying a sequence\<close>

definition classifyOscByte :: "byte \<Rightarrow> oscByte" where
  "classifyOscByte b =
     (if b = 0x07 \<or> b = 0x9c then oscByteEnd
      else if b = 0x1b then oscByteEsc
      else if b = 0x18 \<or> b = 0x1a then oscByteAbort
      else oscByteData)"

definition oscDecideLimit :: nat where "oscDecideLimit = 32"

fun bytesCut :: "byte \<Rightarrow> byte list \<Rightarrow> byte list \<times> byte list \<times> bool" where
  "bytesCut sep [] = ([], [], False)"
| "bytesCut sep (c # s) = (if c = sep then ([], s, True)
     else case bytesCut sep s of (a, b, found) \<Rightarrow> (c # a, b, found))"

definition isDigits :: "byte list \<Rightarrow> bool" where
  "isDigits bs \<longleftrightarrow> list_all (\<lambda>c. \<not> (c < 0x30 \<or> c > 0x39)) bs"

text \<open>\<^verbatim>\<open>"notify"\<close>\<close>

definition notifyBytes :: "byte list" where
  "notifyBytes = [0x6e, 0x6f, 0x74, 0x69, 0x66, 0x79]"

definition decideOsc9 :: "hookBlocks \<Rightarrow> byte list \<Rightarrow> bool \<Rightarrow> bool \<times> bool" where
  "decideOsc9 blocks rest terminated =
     (case rest of
        [] \<Rightarrow> if terminated then (False, True) else (False, False)
      | r0 # rs \<Rightarrow>
          if r0 \<noteq> 0x34 then (hbNotification blocks, True)
          else (case rs of
                  [] \<Rightarrow> if terminated then (False, True) else (False, False)
                | r1 # _ \<Rightarrow> if r1 = 0x3b then (False, True) else (hbNotification blocks, True)))"

definition decideOsc777 :: "hookBlocks \<Rightarrow> byte list \<Rightarrow> bool \<Rightarrow> bool \<times> bool" where
  "decideOsc777 blocks rest terminated =
     (case bytesCut 0x3b rest of (sub, _, hasSep) \<Rightarrow>
        if \<not> hasSep then
          (if terminated \<or> length sub > length notifyBytes \<or> \<not> prefix sub notifyBytes then (False, True) else (False, False))
        else if sub \<noteq> notifyBytes then (False, True)
        else (hbNotification blocks, True))"

definition decideOsc :: "hookBlocks \<Rightarrow> byte list \<Rightarrow> bool \<Rightarrow> bool \<times> bool" where
  "decideOsc blocks body terminated =
     (case bytesCut 0x3b body of (num, rest, hasSep) \<Rightarrow>
        if num = [] \<or> \<not> isDigits num then (False, True)
        else if \<not> hasSep then
          (if terminated \<or> length num > 3 then (False, True) else (False, False))
        else if num = [0x30] \<or> num = [0x32] then (hbTitle blocks, True)
        else if num = [0x39] then decideOsc9 blocks rest terminated
        else if num = [0x37, 0x37, 0x37] then decideOsc777 blocks rest terminated
        else (False, True))"

section \<open>Steps\<close>

definition utf8RuneLen :: "byte \<Rightarrow> int" where
  "utf8RuneLen b =
     (if 0xc2 \<le> b \<and> b \<le> 0xdf then 2
      else if 0xe0 \<le> b \<and> b \<le> 0xef then 3
      else if 0xf0 \<le> b \<and> b \<le> 0xf4 then 4
      else 1)"

definition beginOsc :: "hookFilter \<Rightarrow> byte list \<Rightarrow> hookFilter" where
  "beginOsc f introducer =
     (let pending = replicate (hfEscCarry f) 0x1b @ introducer
      in f\<lparr> hfState := hookFilterOscID, hfPending := pending, hfEscCarry := 0, hfPrefixLen := length pending \<rparr>)"

definition stepGround :: "hookFilter \<Rightarrow> byte \<Rightarrow> hookFilter \<times> byte list" where
  "stepGround f b =
     (if b = 0x1b then (f\<lparr> hfState := hookFilterEsc \<rparr>, [])
      else if b = 0x9d then (beginOsc f [0x9d], [])
      else if b = 0x07 \<and> hbBell (hfBlocks f) then (f, [])
      else (if utf8RuneLen b > 1 then f\<lparr> hfState := hookFilterUtf8, hfUtf8Rest := utf8RuneLen b - 1 \<rparr> else f, [b]))"

definition stepUtf8 :: "hookFilter \<Rightarrow> byte \<Rightarrow> hookFilter \<times> byte list" where
  "stepUtf8 f b =
     (let f = f\<lparr> hfUtf8Rest := hfUtf8Rest f - 1 \<rparr>
      in (if hfUtf8Rest f \<le> 0 then f\<lparr> hfState := hookFilterGround \<rparr> else f, [b]))"

definition flushEscCarry :: "hookFilter \<Rightarrow> hookFilter \<times> byte list" where
  "flushEscCarry f = (f\<lparr> hfEscCarry := 0 \<rparr>, replicate (hfEscCarry f) 0x1b)"

definition stepEsc :: "hookFilter \<Rightarrow> byte \<Rightarrow> hookFilter \<times> byte list" where
  "stepEsc f b =
     (if b = 0x5d then (beginOsc f [0x1b, 0x5d], [])
      else if b = 0x9d then (beginOsc f [0x1b, 0x9d], [])
      else if b = 0x1b then (f\<lparr> hfEscCarry := hfEscCarry f + 1 \<rparr>, [])
      else (case flushEscCarry (f\<lparr> hfState := hookFilterGround \<rparr>) of (f, out) \<Rightarrow> (f, out @ [0x1b, b])))"

fun oscIDNext :: "oscByte \<Rightarrow> bool \<Rightarrow> filterState" where
  "oscIDNext oscByteEnd block = hookFilterGround"
| "oscIDNext oscByteAbort block = hookFilterGround"
| "oscIDNext oscByteEsc block = (if block then hookFilterOscDropEsc else hookFilterEsc)"
| "oscIDNext oscByteData block = (if block then hookFilterOscDrop else hookFilterOscPass)"

definition stepOscID :: "hookFilter \<Rightarrow> byte \<Rightarrow> hookFilter \<times> byte list" where
  "stepOscID f b =
     (let c = classifyOscByte b;
          pending = (if c \<noteq> oscByteEsc then hfPending f @ [b] else hfPending f);
          body0 = drop (hfPrefixLen f) pending;
          body = (if c = oscByteEnd \<or> c = oscByteAbort then butlast body0 else body0)
      in case decideOsc (hfBlocks f) body (c \<noteq> oscByteData) of (block, decided) \<Rightarrow>
           if \<not> decided \<and> c = oscByteData \<and> length body < oscDecideLimit then (f\<lparr> hfPending := pending \<rparr>, [])
           else (f\<lparr> hfPending := [], hfState := oscIDNext c block \<rparr>, if \<not> block then pending else []))"

definition stepOscPass :: "hookFilter \<Rightarrow> byte \<Rightarrow> hookFilter \<times> byte list" where
  "stepOscPass f b =
     (case classifyOscByte b of
        oscByteEsc \<Rightarrow> (f\<lparr> hfState := hookFilterEsc \<rparr>, [])
      | oscByteData \<Rightarrow> (f, [b])
      | _ \<Rightarrow> (f\<lparr> hfState := hookFilterGround \<rparr>, [b]))"

definition stepOscDrop :: "hookFilter \<Rightarrow> byte \<Rightarrow> hookFilter \<times> byte list" where
  "stepOscDrop f b =
     (case classifyOscByte b of
        oscByteEsc \<Rightarrow> (f\<lparr> hfState := hookFilterOscDropEsc \<rparr>, [])
      | oscByteData \<Rightarrow> (f, [])
      | _ \<Rightarrow> (f\<lparr> hfState := hookFilterGround \<rparr>, []))"

definition stepOscDropEsc :: "hookFilter \<Rightarrow> byte \<Rightarrow> hookFilter \<times> byte list" where
  "stepOscDropEsc f b =
     (if b = 0x5c then (f\<lparr> hfState := hookFilterGround \<rparr>, [])
      else stepEsc (f\<lparr> hfState := hookFilterEsc \<rparr>) b)"

definition filterStep :: "hookFilter \<Rightarrow> byte \<Rightarrow> hookFilter \<times> byte list" where
  "filterStep f b =
     (case hfState f of
        hookFilterGround \<Rightarrow> stepGround f b
      | hookFilterEsc \<Rightarrow> stepEsc f b
      | hookFilterUtf8 \<Rightarrow> stepUtf8 f b
      | hookFilterOscID \<Rightarrow> stepOscID f b
      | hookFilterOscPass \<Rightarrow> stepOscPass f b
      | hookFilterOscDrop \<Rightarrow> stepOscDrop f b
      | hookFilterOscDropEsc \<Rightarrow> stepOscDropEsc f b)"

fun filterBytes :: "hookFilter \<Rightarrow> byte list \<Rightarrow> hookFilter \<times> byte list" where
  "filterBytes f [] = (f, [])"
| "filterBytes f (b # bs) =
     (case filterStep f b of (f', out) \<Rightarrow> case filterBytes f' bs of (f'', out') \<Rightarrow> (f'', out @ out'))"

text \<open>A nil filter passes the data on.\<close>

definition hookFilter_filter :: "hookFilter option \<Rightarrow> byte list \<Rightarrow> hookFilter option \<times> byte list" where
  "hookFilter_filter fo data =
     (case fo of None \<Rightarrow> (None, data)
      | Some f \<Rightarrow> if data = [] then (Some f, data) else map_prod Some id (filterBytes f data))"

section \<open>The bytes a filter holds back\<close>

fun heldOf :: "hookFilter \<Rightarrow> byte list" where
  "heldOf f = (case hfState f of
      hookFilterEsc \<Rightarrow> replicate (Suc (hfEscCarry f)) 0x1b
    | hookFilterOscDropEsc \<Rightarrow> [0x1b]
    | hookFilterOscID \<Rightarrow> hfPending f
    | _ \<Rightarrow> [])"

text \<open>Superseded ESCs are carried only in the escape state, and the introducer of a held
  sequence is part of it.\<close>

definition filter_inv :: "hookFilter \<Rightarrow> bool" where
  "filter_inv f \<longleftrightarrow> (hfState f \<noteq> hookFilterEsc \<longrightarrow> hfEscCarry f = 0) \<and>
     (hfState f = hookFilterOscID \<longrightarrow> hfPrefixLen f \<le> length (hfPending f) \<and> length (hfPending f) < hfPrefixLen f + oscDecideLimit)"

lemma filterBytes_append:
  "filterBytes f (xs @ ys) = (case filterBytes f xs of (f', out) \<Rightarrow> case filterBytes f' ys of (f'', out') \<Rightarrow> (f'', out @ out'))"
  by (induction xs arbitrary: f) (auto split: prod.splits)

lemmas step_defs = stepGround_def stepUtf8_def stepEsc_def stepOscID_def stepOscPass_def stepOscDrop_def stepOscDropEsc_def
  beginOsc_def flushEscCarry_def Let_def

lemma decided_terminated: "snd (decideOsc bl body True)"
  by (auto simp: decideOsc_def decideOsc9_def decideOsc777_def split: prod.splits list.splits if_splits)

lemma classify_cases: "classifyOscByte b = oscByteEsc \<longleftrightarrow> b = 0x1b"
  by (auto simp: classifyOscByte_def)

lemma subseq_prefix_part: "subseq (xs @ ys) zs \<Longrightarrow> subseq xs zs"
  by (erule subseq_order.trans [rotated]) (rule prefix_imp_subseq, simp)

text \<open>Every step keeps the invariant and moves bytes only forward: what it emits and holds
  afterwards is a subsequence of what it held and read.\<close>

lemma step_other:
  assumes "filter_inv f" "filterStep f b = (f', out)" "hfState f \<noteq> hookFilterOscID"
  shows "filter_inv f' \<and> subseq (out @ heldOf f') (heldOf f @ [b])"
proof (cases "hfState f")
  case hookFilterEsc
  with assms show ?thesis
    by (auto simp: filterStep_def step_defs filter_inv_def oscDecideLimit_def replicate_app_Cons_same split: if_splits)
next
  case hookFilterOscDropEsc
  with assms show ?thesis
    by (auto simp: filterStep_def step_defs filter_inv_def oscDecideLimit_def split: if_splits)
qed (use assms in \<open>auto simp: filterStep_def step_defs filter_inv_def oscDecideLimit_def classify_cases split: if_splits oscByte.splits\<close>)

lemma step_oscID:
  assumes inv: "filter_inv f" and st: "filterStep f b = (f', out)" "hfState f = hookFilterOscID"
  shows "filter_inv f' \<and> subseq (out @ heldOf f') (heldOf f @ [b])"
proof -
  let ?c = "classifyOscByte b"
  let ?p = "if ?c \<noteq> oscByteEsc then hfPending f @ [b] else hfPending f"
  let ?body = "if ?c = oscByteEnd \<or> ?c = oscByteAbort then butlast (drop (hfPrefixLen f) ?p) else drop (hfPrefixLen f) ?p"
  obtain block decided where d: "decideOsc (hfBlocks f) ?body (?c \<noteq> oscByteData) = (block, decided)" by fastforce
  have n: "hfPrefixLen f \<le> length (hfPending f)" "hfEscCarry f = 0" using inv st(2) by (simp_all add: filter_inv_def)
  show ?thesis
  proof (cases "\<not> decided \<and> ?c = oscByteData \<and> length ?body < oscDecideLimit")
    case True
    with st d have "f' = f\<lparr> hfPending := hfPending f @ [b] \<rparr>" "out = []" by (auto simp: filterStep_def stepOscID_def Let_def)
    with True st(2) n show ?thesis by (auto simp: filter_inv_def)
  next
    case False
    with st d have f': "f' = f\<lparr> hfPending := [], hfState := oscIDNext ?c block \<rparr>" "out = (if \<not> block then ?p else [])"
      by (auto simp: filterStep_def stepOscID_def Let_def)
    show ?thesis
    proof (cases ?c)
      case oscByteEsc
      then have "b = 0x1b" by (simp only: classify_cases)
      with oscByteEsc st(2) n show ?thesis by (cases block) (simp_all add: f' filter_inv_def subseq_singleton_left)
    qed (use st(2) n in \<open>simp_all add: f' filter_inv_def\<close>)
  qed
qed

lemma step_conserve:
  assumes "filter_inv f" "filterStep f b = (f', out)"
  shows "filter_inv f'" "subseq (out @ heldOf f') (heldOf f @ [b])"
  using step_other [OF assms] step_oscID [OF assms] by blast+

lemma run_conserve:
  assumes "filter_inv f" "filterBytes f data = (f', out)"
  shows "filter_inv f' \<and> subseq (out @ heldOf f') (heldOf f @ data)"
  using assms
proof (induction data arbitrary: f out)
  case (Cons b data)
  obtain f1 o1 o2 where 1: "filterStep f b = (f1, o1)" "filterBytes f1 data = (f', o2)" "out = o1 @ o2"
    using Cons.prems(2) by (auto split: prod.splits)
  note c = step_conserve [OF Cons.prems(1) 1(1)]
  have "filter_inv f'" "subseq (o2 @ heldOf f') (heldOf f1 @ data)" using Cons.IH [OF c(1) 1(2)] by auto
  then have "subseq (o1 @ o2 @ heldOf f') (o1 @ heldOf f1 @ data)" by (simp only: subseq_append')
  moreover have "subseq ((o1 @ heldOf f1) @ data) ((heldOf f @ [b]) @ data)" by (rule list_emb_append_mono [OF c(2)]) simp
  ultimately have "subseq (o1 @ o2 @ heldOf f') (heldOf f @ b # data)"
    by (simp only: append_assoc append_Cons append_Nil subseq_order.trans)
  with \<open>filter_inv f'\<close> show ?case unfolding 1(3) append_assoc by (intro conjI)
qed simp

text \<open>Feeding a stream in chunks.\<close>

fun filterChunks :: "hookFilter option \<Rightarrow> byte list list \<Rightarrow> hookFilter option \<times> byte list" where
  "filterChunks fo [] = (fo, [])"
| "filterChunks fo (c # cs) =
     (case hookFilter_filter fo c of (fo', out) \<Rightarrow> case filterChunks fo' cs of (fo'', out') \<Rightarrow> (fo'', out @ out'))"

lemma filterChunks_concat: "filterChunks (Some f) cs = map_prod Some id (filterBytes f (concat cs))"
  by (induction cs arbitrary: f) (auto simp: hookFilter_filter_def filterBytes_append split: prod.splits)

lemma filterChunks_nil: "filterChunks None cs = (None, concat cs)"
  by (induction cs) (auto simp: hookFilter_filter_def)

text \<open>The filter of a viewer's stream does not depend on how the stream is cut into
  chunks, and it only removes bytes: what it has emitted, followed by what it still holds,
  is a subsequence of the input. While it holds a sequence it has not identified, it holds
  fewer than 32 bytes beyond the introducer.\<close>

lemma hook_filter_conservative:
  assumes "filterChunks (newHookFilter blocks) chunks = (fo, out)"
  shows "hookFilter_filter (newHookFilter blocks) (concat chunks) = (fo, out) \<and>
    (case fo of None \<Rightarrow> out = concat chunks
     | Some f \<Rightarrow> subseq (out @ heldOf f) (concat chunks) \<and>
         (hfState f = hookFilterOscID \<longrightarrow> length (hfPending f) < hfPrefixLen f + oscDecideLimit))"
proof (cases "newHookFilter blocks")
  case None
  with assms show ?thesis by (auto simp: filterChunks_nil hookFilter_filter_def)
next
  case (Some f)
  then have f: "filter_inv f" "heldOf f = []" by (auto simp: newHookFilter_def filter_inv_def split: if_splits)
  obtain f' o' where r: "filterBytes f (concat chunks) = (f', o')" by fastforce
  with assms Some have eq: "fo = Some f'" "out = o'" by (auto simp: filterChunks_concat)
  have "hookFilter_filter (Some f) (concat chunks) = (Some f', o')"
    using r by (cases "concat chunks") (simp_all only: hookFilter_filter_def, auto)
  with run_conserve [OF f(1) r] f(2) eq Some show ?thesis by (auto simp: filter_inv_def simp del: heldOf.simps)
qed

end
