(* ===== verification/Go_Strconv.thy ===== *)
theory Go_Strconv
  imports Go_Prelude
begin

text \<open>
  Decimal conversion as the sources use it from Go's \<^verbatim>\<open>strconv\<close>: \<^verbatim>\<open>Itoa\<close> and \<^verbatim>\<open>Atoi\<close>
  on 64-bit \<^verbatim>\<open>int\<close>, and the string helpers \<^verbatim>\<open>strings.TrimSuffix\<close> and
  \<^verbatim>\<open>strings.ReplaceAll\<close> of one character.
\<close>

section \<open>Digits\<close>

definition digitChar :: "nat \<Rightarrow> char" where
  "digitChar d = char_of (48 + d)"

definition isDigit :: "char \<Rightarrow> bool" where
  "isDigit c \<longleftrightarrow> 48 \<le> (of_char c :: nat) \<and> (of_char c :: nat) \<le> 57"

definition digitVal :: "char \<Rightarrow> nat" where
  "digitVal c = of_char c - 48"

lemma digitChar_simps [simp]:
  "d < 10 \<Longrightarrow> isDigit (digitChar d)" "d < 10 \<Longrightarrow> digitVal (digitChar d) = d"
  by (simp_all add: isDigit_def digitVal_def digitChar_def of_char_of)

fun digitsOf :: "nat \<Rightarrow> string" where
  "digitsOf n = (if n < 10 then [digitChar n] else digitsOf (n div 10) @ [digitChar (n mod 10)])"

declare digitsOf.simps [simp del]

definition readDigits :: "string \<Rightarrow> nat" where
  "readDigits s = foldl (\<lambda>acc c. acc * 10 + digitVal c) 0 s"

lemma readDigits_snoc [simp]: "readDigits (s @ [c]) = readDigits s * 10 + digitVal c"
  by (simp add: readDigits_def)

lemma readDigits_digitsOf [simp]: "readDigits (digitsOf n) = n"
proof (induction n rule: digitsOf.induct)
  case (1 n)
  then show ?case by (subst digitsOf.simps) (simp add: readDigits_def)
qed

lemma digitsOf_digits: "\<forall>c \<in> set (digitsOf n). isDigit c"
proof (induction n rule: digitsOf.induct)
  case (1 n)
  then show ?case by (subst digitsOf.simps) simp
qed

lemma digitsOf_ne [simp]: "digitsOf n \<noteq> []"
  by (subst digitsOf.simps) simp

section \<open>Itoa and Atoi\<close>

definition itoa :: "int \<Rightarrow> string" where
  "itoa n = (if n < 0 then CHR ''-'' # digitsOf (nat (- n)) else digitsOf (nat n))"

definition minInt64 :: int where "minInt64 = - (2 ^ 63)"
definition maxInt64 :: int where "maxInt64 = 2 ^ 63 - 1"

text \<open>\<open>None\<close> is the error, for a syntax error and for a value out of range alike.\<close>

definition atoi :: "string \<Rightarrow> int option" where
  "atoi s =
     (let (neg, ds) = (case s of
            c # cs \<Rightarrow> if c = CHR ''-'' then (True, cs) else if c = CHR ''+'' then (False, cs) else (False, s)
          | [] \<Rightarrow> (False, []))
      in if ds = [] \<or> \<not> list_all isDigit ds then None
         else let n = (if neg then - int (readDigits ds) else int (readDigits ds))
              in if minInt64 \<le> n \<and> n \<le> maxInt64 then Some n else None)"

lemma isDigit_not_sign: "isDigit c \<Longrightarrow> c \<noteq> CHR ''-'' \<and> c \<noteq> CHR ''+''"
  by (auto simp: isDigit_def)

lemma digitsOf_first: "digitsOf n = c # cs \<Longrightarrow> c \<noteq> CHR ''-'' \<and> c \<noteq> CHR ''+''"
  using digitsOf_digits [of n] isDigit_not_sign by simp

lemma atoi_itoa: "minInt64 \<le> n \<Longrightarrow> n \<le> maxInt64 \<Longrightarrow> atoi (itoa n) = Some n"
proof (cases "n < 0")
  case True
  assume "minInt64 \<le> n" "n \<le> maxInt64"
  with True show ?thesis using digitsOf_digits [of "nat (- n)"]
    by (simp add: atoi_def itoa_def list_all_iff)
next
  case False
  assume r: "minInt64 \<le> n" "n \<le> maxInt64"
  obtain c cs where c: "digitsOf (nat n) = c # cs" by (cases "digitsOf (nat n)") simp_all
  then have "readDigits (c # cs) = nat n" using readDigits_digitsOf [of "nat n"] by simp
  moreover have "list_all isDigit (c # cs)" using digitsOf_digits [of "nat n"] unfolding c list_all_iff .
  ultimately show ?thesis using False r digitsOf_first [OF c] c
    by (simp add: atoi_def itoa_def)
qed

lemma digitsOf_inj: "digitsOf m = digitsOf n \<Longrightarrow> m = n"
  by (metis readDigits_digitsOf)

lemma itoa_nat_digits: "0 \<le> n \<Longrightarrow> c \<in> set (itoa n) \<Longrightarrow> isDigit c"
  using digitsOf_digits by (simp add: itoa_def)

section \<open>String helpers\<close>

definition trimSuffix :: "string \<Rightarrow> string \<Rightarrow> string" where
  "trimSuffix s suf = (if length suf \<le> length s \<and> drop (length s - length suf) s = suf
     then take (length s - length suf) s else s)"

lemma trimSuffix_append [simp]: "trimSuffix (s @ t) t = s"
  by (simp add: trimSuffix_def)

definition replaceChar :: "char \<Rightarrow> string \<Rightarrow> string \<Rightarrow> string" where
  "replaceChar c r s = concat (map (\<lambda>x. if x = c then r else [x]) s)"

end
