(* ===== verification/Mux_Spec.thy ===== *)
theory Mux_Spec
  imports Go_Strconv
begin

text \<open>
  The layout specs of a dashboard: the cmdman-facing tree of panes (cmdman/mux/spec.go),
  whose leaves name commands, and the driver-facing tree with resolved argv
  (pkg/muxctl/spec.go), with its validation (pkg/muxctl/validate.go) and the size grammar
  \<^verbatim>\<open>ParseSize\<close>/\<^verbatim>\<open>Size.String\<close>. The \<^verbatim>\<open>Unknown\<close> maps that only feed warnings are left out.
\<close>

section \<open>Sizes (muxctl/spec.go)\<close>

record Size =
  szN :: int
  szAbsolute :: bool
  szPercent :: bool

datatype SizeErr = SizeEmpty | SizeNotNumber string | SizeNotPositive string | SizePercentRange string

definition Size_String :: "Size \<Rightarrow> string" where
  "Size_String s = (if szAbsolute s then itoa (szN s) @ ''c''
     else if szPercent s then itoa (szN s) @ ''%'' else itoa (szN s))"

definition hasSuffix :: "string \<Rightarrow> string \<Rightarrow> bool" where
  "hasSuffix s suf \<longleftrightarrow> length suf \<le> length s \<and> drop (length s - length suf) s = suf"

definition ParseSize :: "string \<Rightarrow> SizeErr + Size" where
  "ParseSize s =
     (if s = [] then Inl SizeEmpty
      else
        let absolute = hasSuffix s ''c'';
            percent = (\<not> absolute \<and> hasSuffix s ''%'');
            body = (if absolute then trimSuffix s ''c'' else if percent then trimSuffix s ''%'' else s)
        in case atoi body of
             None \<Rightarrow> Inl (SizeNotNumber s)
           | Some n \<Rightarrow>
               if n \<le> 0 then Inl (SizeNotPositive s)
               else if percent \<and> n > 100 then Inl (SizePercentRange s)
               else Inr \<lparr> szN = n, szAbsolute = absolute, szPercent = percent \<rparr>)"

text \<open>The sizes the grammar denotes.\<close>

definition size_ok :: "Size \<Rightarrow> bool" where
  "size_ok s \<longleftrightarrow> 0 < szN s \<and> szN s \<le> maxInt64 \<and> \<not> (szAbsolute s \<and> szPercent s) \<and>
     (szPercent s \<longrightarrow> szN s \<le> 100)"

lemma hasSuffix_single: "hasSuffix s [c] \<longleftrightarrow> s \<noteq> [] \<and> last s = c"
  by (cases s rule: rev_cases) (auto simp: hasSuffix_def)

lemma itoa_ne [simp]: "itoa n \<noteq> []"
  by (simp add: itoa_def)

lemma itoa_last_digit: "0 \<le> n \<Longrightarrow> isDigit (last (itoa n))"
  using itoa_nat_digits [of n "last (itoa n)"] by simp

lemma atoi_bounds: "atoi s = Some n \<Longrightarrow> minInt64 \<le> n \<and> n \<le> maxInt64"
  by (auto simp: atoi_def Let_def split: if_splits list.splits)

text \<open>The size grammar round-trips. Printing a size that the grammar denotes (positive,
  at most 100 when a percentage) and parsing it gives the same size, and everything
  \<^verbatim>\<open>ParseSize\<close> accepts is such a size.\<close>

lemma ParseSize_roundtrip:
  "(size_ok s \<longrightarrow> ParseSize (Size_String s) = Inr s) \<and> (ParseSize t = Inr s \<longrightarrow> size_ok s)"
proof (intro conjI impI)
  assume ok: "size_ok s"
  then have n: "0 < szN s" "atoi (itoa (szN s)) = Some (szN s)"
    by (auto simp: size_ok_def minInt64_def intro!: atoi_itoa)
  have nd: "last (itoa (szN s)) \<noteq> CHR ''c''" "last (itoa (szN s)) \<noteq> CHR ''%''"
    using itoa_last_digit [of "szN s"] n(1) by (auto simp: isDigit_def)
  show "ParseSize (Size_String s) = Inr s"
    using ok n nd by (cases s) (auto simp: ParseSize_def Size_String_def size_ok_def hasSuffix_single Let_def)
next
  assume "ParseSize t = Inr s"
  then show "size_ok s"
    using atoi_bounds by (auto simp: ParseSize_def size_ok_def Let_def split: if_splits option.splits)
qed

section \<open>Layouts of the cmdman layer (mux/spec.go)\<close>

text \<open>A Go struct whose fields are a container's (direction, splits, panes) and a leaf's
  (command, scale, mode, options, focus).\<close>

datatype PaneSpec =
  PaneSpec (pDir: string) (pSplits: "Size list") (pPanes: "PaneSpec list") (pCommand: string)
    (pScale: int) (pMode: string) (pCmdOpt: "(string, string) gomap") (pFocus: bool)

record Layout =
  lName :: string
  lRoot :: PaneSpec

record DriverSpec =
  dsName :: string
  dsPath :: string
  dsSocket :: string
  dsOpts :: "(string, string) gomap"

record Spec =
  msDriver :: DriverSpec
  msLayouts :: "Layout list"

definition IsLeaf :: "PaneSpec \<Rightarrow> bool" where
  "IsLeaf p \<longleftrightarrow> pCommand p \<noteq> [] \<and> pDir p = [] \<and> pSplits p = [] \<and> pPanes p = []"

definition IsContainer :: "PaneSpec \<Rightarrow> bool" where
  "IsContainer p \<longleftrightarrow> pCommand p = [] \<and> (pDir p \<noteq> [] \<or> pPanes p \<noteq> [] \<or> pSplits p \<noteq> [])"

text \<open>The leaves of a tree in document order, as every traversal of the sources visits them.\<close>

fun leavesOf :: "PaneSpec \<Rightarrow> PaneSpec list" where
  "leavesOf (PaneSpec d sp ps c sc m co f) =
     (if IsLeaf (PaneSpec d sp ps c sc m co f) then [PaneSpec d sp ps c sc m co f]
      else concat (map leavesOf ps))"

lemma leavesOf_leaf: "p \<in> set (leavesOf q) \<Longrightarrow> IsLeaf p"
  by (induction q rule: leavesOf.induct) (auto split: if_splits)

lemma pPanes_size [termination_simp]: "c \<in> set (pPanes p) \<Longrightarrow> size c < size p"
  by (cases p) (auto dest!: size_list_estimation' [where f = size, OF _ order_refl])

section \<open>Layouts of the driver layer (muxctl/spec.go, validate.go)\<close>

datatype MPane =
  MPane (mpDir: string) (mpSplits: "Size list") (mpPanes: "MPane list") (mpName: string)
    (mpCmd: "string list") (mpCmdOpt: "(string, string) gomap") (mpFocus: bool) (mpCycleKey: string)

record MLayout =
  mlName :: string
  mlRoot :: MPane

record MuxSpec =
  mxDriver :: DriverSpec
  mxLayouts :: "MLayout list"

definition M_IsLeaf :: "MPane \<Rightarrow> bool" where
  "M_IsLeaf p \<longleftrightarrow> mpCmd p \<noteq> [] \<and> mpDir p = [] \<and> mpSplits p = [] \<and> mpPanes p = []"

definition M_IsContainer :: "MPane \<Rightarrow> bool" where
  "M_IsContainer p \<longleftrightarrow> mpCmd p = [] \<and> (mpDir p \<noteq> [] \<or> mpPanes p \<noteq> [] \<or> mpSplits p \<noteq> [])"

datatype MuxErr =
    ErrLayoutNameRequired | ErrDuplicateLayoutName string | ErrLeafXorContainer | ErrLeafNameRequired
  | ErrInvalidDirection string | ErrEmptyContainer | ErrSplitsMismatch nat nat
  | ErrDuplicatePaneName string | ErrMultipleFocus

lemma mpPanes_size [termination_simp]: "c \<in> set (mpPanes p) \<Longrightarrow> size c < size p"
  by (cases p) (auto dest!: size_list_estimation' [where f = size, OF _ order_refl])

fun validateShape :: "MPane \<Rightarrow> MuxErr + unit" and validateShapes :: "MPane list \<Rightarrow> MuxErr + unit" where
  "validateShape (MPane d sp ps n cm co f ck) =
     (let p = MPane d sp ps n cm co f ck; leaf = M_IsLeaf p; cont = M_IsContainer p in
      if leaf = cont then Inl ErrLeafXorContainer
      else if leaf then (if n = [] then Inl ErrLeafNameRequired else Inr ())
      else if d \<noteq> ''h'' \<and> d \<noteq> ''v'' then Inl (ErrInvalidDirection d)
      else if ps = [] then Inl ErrEmptyContainer
      else if length sp \<noteq> length ps then Inl (ErrSplitsMismatch (length sp) (length ps))
      else validateShapes ps)"
| "validateShapes [] = Inr ()"
| "validateShapes (p # ps) = (case validateShape p of Inl e \<Rightarrow> Inl e | Inr _ \<Rightarrow> validateShapes ps)"

fun mLeaves :: "MPane \<Rightarrow> MPane list" where
  "mLeaves (MPane d sp ps n cm co f ck) =
     (if M_IsLeaf (MPane d sp ps n cm co f ck) then [MPane d sp ps n cm co f ck]
      else concat (map mLeaves ps))"

text \<open>The callback of \<^verbatim>\<open>Validate\<close> run by \<^verbatim>\<open>walkLeaves\<close> over the leaves in document order, with
  the names seen and the number of focused leaves as its state.\<close>

fun walkLeaves :: "MPane list \<Rightarrow> string list \<Rightarrow> nat \<Rightarrow> MuxErr + unit" where
  "walkLeaves [] names focus = Inr ()"
| "walkLeaves (p # ps) names focus =
     (if mpName p \<in> set names then Inl (ErrDuplicatePaneName (mpName p))
      else if mpFocus p \<and> focus + 1 > 1 then Inl ErrMultipleFocus
      else walkLeaves ps (mpName p # names) (if mpFocus p then focus + 1 else focus))"

fun validateLayouts :: "MLayout list \<Rightarrow> string list \<Rightarrow> MuxErr + unit" where
  "validateLayouts [] seen = Inr ()"
| "validateLayouts (l # ls) seen =
     (if mlName l = [] then Inl ErrLayoutNameRequired
      else if mlName l \<in> set seen then Inl (ErrDuplicateLayoutName (mlName l))
      else case validateShape (mlRoot l) of
        Inl e \<Rightarrow> Inl e
      | Inr _ \<Rightarrow> (case walkLeaves (mLeaves (mlRoot l)) [] 0 of
                    Inl e \<Rightarrow> Inl e
                  | Inr _ \<Rightarrow> validateLayouts ls (mlName l # seen)))"

definition MuxSpec_Validate :: "MuxSpec \<Rightarrow> MuxErr + unit" where
  "MuxSpec_Validate s = validateLayouts (mxLayouts s) []"

subsection \<open>What a validated spec looks like\<close>

inductive shaped :: "MPane \<Rightarrow> bool" where
  leaf: "n \<noteq> [] \<Longrightarrow> cm \<noteq> [] \<Longrightarrow> shaped (MPane [] [] [] n cm co f ck)"
| container: "d = ''h'' \<or> d = ''v'' \<Longrightarrow> ps \<noteq> [] \<Longrightarrow> length sp = length ps \<Longrightarrow> (\<And>p. p \<in> set ps \<Longrightarrow> shaped p)
    \<Longrightarrow> shaped (MPane d sp ps n [] co f ck)"

lemma validateShape_shaped:
  "validateShape p = Inr () \<longleftrightarrow> shaped p" "validateShapes ps = Inr () \<longleftrightarrow> (\<forall>p \<in> set ps. shaped p)"
proof (induction p and ps rule: validateShape_validateShapes.induct)
  case (1 d sp ps n cm co f ck)
  let ?p = "MPane d sp ps n cm co f ck"
  show ?case
  proof (cases "cm = []")
    case True
    have "shaped ?p \<longleftrightarrow> (d = ''h'' \<or> d = ''v'') \<and> ps \<noteq> [] \<and> length sp = length ps \<and> (\<forall>p \<in> set ps. shaped p)"
      using True by (subst shaped.simps) auto
    then show ?thesis using 1 True by (auto simp: M_IsLeaf_def M_IsContainer_def Let_def)
  next
    case False
    have "shaped ?p \<longleftrightarrow> n \<noteq> [] \<and> d = [] \<and> sp = [] \<and> ps = []"
      using False by (subst shaped.simps) auto
    then show ?thesis using False by (auto simp: M_IsLeaf_def M_IsContainer_def Let_def)
  qed
qed (auto split: sum.splits)

lemma walkLeaves_Inr:
  "walkLeaves ps names focus = Inr () \<longleftrightarrow>
     distinct (map mpName ps) \<and> set (map mpName ps) \<inter> set names = {} \<and>
     (length (filter mpFocus ps) = 0 \<or> length (filter mpFocus ps) + focus \<le> 1)"
  by (induction ps arbitrary: names focus) auto

lemma validateLayouts_Inr:
  "validateLayouts ls seen = Inr () \<longleftrightarrow>
     distinct (map mlName ls) \<and> set (map mlName ls) \<inter> set seen = {} \<and>
     (\<forall>l \<in> set ls. mlName l \<noteq> [] \<and> shaped (mlRoot l) \<and> walkLeaves (mLeaves (mlRoot l)) [] 0 = Inr ())"
proof (induction ls arbitrary: seen)
  case (Cons l ls)
  have "validateLayouts (l # ls) seen = Inr () \<longleftrightarrow> mlName l \<noteq> [] \<and> mlName l \<notin> set seen \<and> shaped (mlRoot l) \<and>
     walkLeaves (mLeaves (mlRoot l)) [] 0 = Inr () \<and> validateLayouts ls (mlName l # seen) = Inr ()"
    using validateShape_shaped(1) [of "mlRoot l"] by (auto split: sum.splits)
  then show ?case using Cons.IH [of "mlName l # seen"] by auto
qed simp

text \<open>C33: \<^verbatim>\<open>Validate\<close> accepts exactly the well-shaped specs: layouts are named and distinct,
  every pane is a leaf with a name and a command or a container of direction \<^verbatim>\<open>h\<close> or \<^verbatim>\<open>v\<close>
  with one size per child, pane names are unique within a layout and at most one leaf asks
  for the focus.\<close>

theorem MuxSpec_Validate_iff:
  "MuxSpec_Validate s = Inr () \<longleftrightarrow>
     distinct (map mlName (mxLayouts s)) \<and>
     (\<forall>l \<in> set (mxLayouts s). mlName l \<noteq> [] \<and> shaped (mlRoot l) \<and>
        distinct (map mpName (mLeaves (mlRoot l))) \<and> length (filter mpFocus (mLeaves (mlRoot l))) \<le> 1)"
  by (auto simp: MuxSpec_Validate_def validateLayouts_Inr walkLeaves_Inr)

definition twoPanes :: MuxSpec where
  "twoPanes = \<lparr> mxDriver = \<lparr> dsName = [], dsPath = [], dsSocket = [], dsOpts = [] \<rparr>,
     mxLayouts = [\<lparr> mlName = ''main'', mlRoot =
       MPane ''h'' [\<lparr> szN = 1, szAbsolute = False, szPercent = False \<rparr>, \<lparr> szN = 1, szAbsolute = False, szPercent = False \<rparr>]
         [MPane [] [] [] ''api-1'' [''cmdman'', ''attach'', ''1''] [] True ''api'',
          MPane [] [] [] ''db-1'' [''cmdman'', ''attach'', ''2''] [] False ''db''] [] [] [] False [] \<rparr>] \<rparr>"

theorem MuxSpec_Validate_iff_witness:
  "MuxSpec_Validate twoPanes = Inr () \<and> distinct (map mpName (mLeaves (mlRoot (hd (mxLayouts twoPanes)))))"
proof -
  have "MuxSpec_Validate twoPanes = Inr ()"
    by (simp add: MuxSpec_Validate_def twoPanes_def M_IsLeaf_def M_IsContainer_def Let_def)
  moreover have "hd (mxLayouts twoPanes) \<in> set (mxLayouts twoPanes)" by (simp add: twoPanes_def)
  ultimately show ?thesis using MuxSpec_Validate_iff [of twoPanes] by blast
qed

end
