(* ===== verification/Compose_Spec.thy ===== *)
theory Compose_Spec
  imports Mux_Spec
begin

text \<open>
  The data model of a compose project: command states (cmdman/model/state.go),
  dependency conditions, lifecycle hooks and the normalized command and project
  (cmdman/compose/spec.go, lifecycle.go).
\<close>

section \<open>Command states (model/state.go)\<close>

text \<open>A Go \<^verbatim>\<open>EventType\<close> is a string; \<open>EventTypeNone\<close> is its zero value.\<close>

datatype EventType =
    EventTypeNone
  | EventTypeCreated | EventTypeRemoved | EventTypeStarting | EventTypeRunning
  | EventTypeExited | EventTypeFailed | EventTypeStopped | EventTypeSignaled
  | EventTypeRotation
  | EventTypeOther string

fun IsEventType :: "EventType \<Rightarrow> bool" where
  "IsEventType EventTypeNone = False"
| "IsEventType EventTypeRotation = False"
| "IsEventType (EventTypeOther _) = False"
| "IsEventType _ = True"

section \<open>Dependency conditions (spec.go)\<close>

datatype AfterCondition =
    ConditionNone
  | ConditionCompleted | ConditionRunning | ConditionCompletedSuccessfully
  | ConditionOther string

record AfterSpec =
  asName :: string
  asCondition :: AfterCondition

datatype SpecErr = UnknownCondition string | DependencyNameEmpty | UnknownConditionEmpty

fun AfterCondition_Validate :: "AfterCondition \<Rightarrow> SpecErr + unit" where
  "AfterCondition_Validate ConditionNone = Inl UnknownConditionEmpty"
| "AfterCondition_Validate (ConditionOther s) = Inl (UnknownCondition s)"
| "AfterCondition_Validate _ = Inr ()"

definition AfterSpec_Validate :: "AfterSpec \<Rightarrow> SpecErr + unit" where
  "AfterSpec_Validate a =
     (if asName a = [] then Inl DependencyNameEmpty
      else AfterCondition_Validate (asCondition a))"

section \<open>Lifecycle hooks (lifecycle.go)\<close>

datatype LifecycleEvent =
    LifecycleCreatePre | LifecycleCreatePost | LifecycleStartPre | LifecycleStartPost
  | LifecycleStopPre | LifecycleStopPost | LifecycleRemovePre | LifecycleRemovePost
  | LifecycleOther string

datatype OnError = OnErrorNone | OnErrorFail | OnErrorContinue | OnErrorIgnore | OnErrorOther string

record LifecycleExec =
  leArgs :: "string list"
  leOnError :: OnError

record LifecycleHook =
  lhName :: string
  lhResource :: string
  lhEvents :: "(LifecycleEvent, LifecycleExec) gomap"

section \<open>Normalized commands and projects (spec.go)\<close>

datatype RestartPolicy =
  RestartPolicyNone | RestartPolicyNo | RestartPolicyOnFailure | RestartPolicyAlways

record Command =
  cName :: string
  cDir :: string
  cArgs :: "string list"
  cEnv :: "string list"
  cImportHostEnv :: bool
  cInjectEnv :: bool
  cLabels :: "(string, string) gomap"
  cRestartPolicy :: RestartPolicy
  cMaxRetries :: int
  cStopSignal :: string
  cStopGracePeriod :: int
  cStop :: "string list"
  cTty :: bool
  cScrollbackBytes :: int
  cLogDriver :: string
  cLogOpts :: "(string, string) gomap"
  cAfter :: "AfterSpec list"
  cHooks :: "LifecycleHook list"
  cScale :: int
  cGeneratedName :: string

record ComposeSpec =
  sComposeFile :: string
  sProject :: string
  sWorkDir :: string
  sWorkDirDeclared :: bool
  sCommands :: "Command list"
  sMux :: "Spec option"

text \<open>A command with every optional field at its zero value, as a Go composite
  literal that names only \<^verbatim>\<open>Name\<close> and \<^verbatim>\<open>After\<close> builds it.\<close>

definition bare_command :: "string \<Rightarrow> AfterSpec list \<Rightarrow> Command" where
  "bare_command n after = \<lparr> cName = n, cDir = [], cArgs = [], cEnv = [],
     cImportHostEnv = False, cInjectEnv = False, cLabels = [],
     cRestartPolicy = RestartPolicyNone, cMaxRetries = 0, cStopSignal = [],
     cStopGracePeriod = 0, cStop = [], cTty = False, cScrollbackBytes = 0,
     cLogDriver = [], cLogOpts = [], cAfter = after, cHooks = [], cScale = 0,
     cGeneratedName = [] \<rparr>"

lemma bare_command_sel [simp]:
  "cName (bare_command n a) = n" "cAfter (bare_command n a) = a"
  "cScale (bare_command n a) = 0" "cGeneratedName (bare_command n a) = []"
  by (simp_all add: bare_command_def)

text \<open>The dependency relation of a list of commands: \<open>(dep, c)\<close> when command
  \<open>c\<close> declares \<open>dep\<close> under \<^verbatim>\<open>after:\<close>.\<close>

definition dep_rel :: "Command list \<Rightarrow> (string \<times> string) set" where
  "dep_rel cs = {(asName a, cName c) | a c. c \<in> set cs \<and> a \<in> set (cAfter c)}"

lemma dep_relI: "c \<in> set cs \<Longrightarrow> a \<in> set (cAfter c) \<Longrightarrow> (asName a, cName c) \<in> dep_rel cs"
  by (auto simp: dep_rel_def)

lemma dep_relE:
  assumes "(d, n) \<in> dep_rel cs"
  obtains c a where "c \<in> set cs" "a \<in> set (cAfter c)" "d = asName a" "n = cName c"
  using assms by (auto simp: dep_rel_def)

lemma finite_dep_rel [simp]: "finite (dep_rel cs)"
proof -
  have "dep_rel cs \<subseteq> (\<Union>c \<in> set cs. (\<lambda>a. (asName a, cName c)) ` set (cAfter c))"
    by (auto simp: dep_rel_def)
  then show ?thesis by (rule finite_subset) auto
qed

section \<open>Stored commands (model/command_config.go, store/list.go)\<close>

text \<open>Hooks on captured output (model/hook.go): the event and the action are strings.\<close>

record Hook =
  hkAction :: string
  hkExec :: "string list"

record CommandConfig =
  ccArgv :: "string list"
  ccDir :: string
  ccEnv :: "string list"
  ccInjectEnv :: bool
  ccRestartPolicy :: RestartPolicy
  ccMaxRetries :: int
  ccStopSignal :: string
  ccStopTimeout :: "int option"
  ccStopCommand :: "string list option"
  ccTty :: bool
  ccScrollbackBytes :: int
  ccLogDriver :: string
  ccLogOpts :: "(string, string) gomap"
  ccLabels :: "(string, string) gomap"
  ccAnnotations :: "(string, string) gomap"
  ccHooks :: "(string, Hook) gomap"
  ccCommandDir :: string

record CommandState =
  csMonitorPID :: int
  csSocketPath :: string
  csStartedAt :: string
  csFinishedAt :: string
  csRestartCount :: int
  csError :: string
  csWarnings :: "string list"
  csForceKilled :: bool

record CommandEntry =
  enID :: string
  enName :: string
  enCreatedAt :: string
  enState :: EventType
  enExitCode :: "int option"
  enConfigJSON :: "CommandConfig option"
  enStateJSON :: "CommandState option"

definition zeroEntry :: CommandEntry where
  "zeroEntry = \<lparr> enID = [], enName = [], enCreatedAt = [], enState = EventTypeNone, enExitCode = None,
     enConfigJSON = None, enStateJSON = None \<rparr>"

text \<open>\<open>Labels[k]\<close> on a Go map: the empty string when the key is missing.\<close>

definition label_of :: "(string, string) gomap \<Rightarrow> string \<Rightarrow> string" where
  "label_of m k = (case map_of m k of None \<Rightarrow> [] | Some v \<Rightarrow> v)"

end
