(* ===== verification/Parse_Options.thy ===== *)
theory Parse_Options
  imports Compose_Spec Go_Strconv
begin

text \<open>
  Parsers of user-written values: restart policies (cmdman/model/restart_policy.go and
  \<^verbatim>\<open>canonicalRestartPolicy\<close> of compose/canonical.go), timeouts and signals (pkg/hrstr),
  and log driver options (cmdman/logdriver/options.go, k8sfile/options.go). The functions
  these call outside the repository are parameters: \<open>parseDuration\<close> is
  \<^verbatim>\<open>time.ParseDuration\<close>, \<open>signalName\<close> and \<open>signalNum\<close> are those of x/sys/unix, and
  \<open>parseBytes\<close> is \<^verbatim>\<open>humanize.ParseBytes\<close>; \<^const>\<open>None\<close> is an error.
\<close>

section \<open>strings.Cut, TrimSpace, ToUpper\<close>

fun cut :: "char \<Rightarrow> string \<Rightarrow> string \<times> string \<times> bool" where
  "cut sep [] = ([], [], False)"
| "cut sep (c # s) = (if c = sep then ([], s, True)
     else case cut sep s of (a, b, found) \<Rightarrow> (c # a, b, found))"

lemma cut_append: "sep \<notin> set a \<Longrightarrow> cut sep (a @ sep # b) = (a, b, True)"
  by (induction a) auto

lemma cut_none: "sep \<notin> set a \<Longrightarrow> cut sep a = (a, [], False)"
  by (induction a) auto

lemma cut_found: "cut sep s = (a, b, found) \<Longrightarrow> sep \<notin> set a \<and> (if found then s = a @ sep # b else s = a \<and> b = [])"
  by (induction s arbitrary: a b found) (auto split: if_splits prod.splits)

definition isSpace :: "char \<Rightarrow> bool" where
  "isSpace c \<longleftrightarrow> c \<in> {CHR '' '', CHR 0x09, CHR 0x0A, CHR 0x0B, CHR 0x0C, CHR 0x0D}"

definition trimSpace :: "string \<Rightarrow> string" where
  "trimSpace s = rev (dropWhile isSpace (rev (dropWhile isSpace s)))"

definition toUpper :: "string \<Rightarrow> string" where
  "toUpper s = map (\<lambda>c. if CHR ''a'' \<le> c \<and> c \<le> CHR ''z'' then char_of ((of_char c :: nat) - 32) else c) s"

definition hasPrefix :: "string \<Rightarrow> string \<Rightarrow> bool" where
  "hasPrefix s p \<longleftrightarrow> take (length p) s = p"

section \<open>Restart policies (model/restart_policy.go, compose/canonical.go)\<close>

fun restartPolicyString :: "RestartPolicy \<Rightarrow> string" where
  "restartPolicyString RestartPolicyNone = ''''"
| "restartPolicyString RestartPolicyNo = ''no''"
| "restartPolicyString RestartPolicyOnFailure = ''on-failure''"
| "restartPolicyString RestartPolicyAlways = ''always''"

definition restartPolicyOf :: "string \<Rightarrow> RestartPolicy option" where
  "restartPolicyOf s = (if s = ''no'' then Some RestartPolicyNo
     else if s = ''on-failure'' then Some RestartPolicyOnFailure
     else if s = ''always'' then Some RestartPolicyAlways else None)"

definition IsRestartPolicy :: "string \<Rightarrow> bool" where
  "IsRestartPolicy s \<longleftrightarrow> restartPolicyOf s \<noteq> None"

datatype OptErr =
    InvalidRestartPolicy string | RetryCountNotAllowed string | InvalidRetryCount string | NegativeRetryCount int
  | TimeoutTooLarge string | ParseTimeoutErr string | TimeoutNotPositive string
  | SignalEmpty | SignalNotPositive int | UnknownSignalNumber int | UnknownSignal string
  | LogOptNotValid string string | LogOptRelativePath string | InvalidSize string | SizeOverflow string
  | InvalidCount string | CountTooSmall string

definition ParseRestartPolicy :: "string \<Rightarrow> OptErr + RestartPolicy \<times> int" where
  "ParseRestartPolicy s =
     (case cut CHR '':'' s of (name, cnt, hasCount) \<Rightarrow>
        case restartPolicyOf name of
          None \<Rightarrow> Inl (InvalidRestartPolicy name)
        | Some policy \<Rightarrow>
            if \<not> hasCount then Inr (policy, 0)
            else if policy \<noteq> RestartPolicyOnFailure then Inl (RetryCountNotAllowed name)
            else case atoi cnt of
                   None \<Rightarrow> Inl (InvalidRetryCount cnt)
                 | Some n \<Rightarrow> if n < 0 then Inl (NegativeRetryCount n) else Inr (policy, n))"

definition canonicalRestartPolicy :: "RestartPolicy \<Rightarrow> int \<Rightarrow> string" where
  "canonicalRestartPolicy policy maxRetries =
     (if policy = RestartPolicyNone then ''''
      else if policy = RestartPolicyOnFailure \<and> maxRetries > 0
           then restartPolicyString policy @ '':'' @ itoa maxRetries
      else restartPolicyString policy)"

section \<open>Timeouts and signals (pkg/hrstr)\<close>

definition secondNs :: int where "secondNs = 1000000000"

text \<open>\<^verbatim>\<open>strconv.ParseInt(s, 10, 64)\<close> accepts what \<^verbatim>\<open>Atoi\<close> accepts.\<close>

definition ParseTimeout :: "(string \<Rightarrow> int option) \<Rightarrow> string \<Rightarrow> OptErr + int" where
  "ParseTimeout parseDuration s0 =
     (let s = trimSpace s0;
          d = (case atoi s of
                 Some n \<Rightarrow> if n > maxInt64 div secondNs then Inl (TimeoutTooLarge s)
                           else Inr (let p = (n * secondNs) mod 2 ^ 64 in if p > maxInt64 then p - 2 ^ 64 else p)
               | None \<Rightarrow> (case parseDuration s of None \<Rightarrow> Inl (ParseTimeoutErr s) | Some d \<Rightarrow> Inr d))
      in case d of Inl e \<Rightarrow> Inl e | Inr d \<Rightarrow> if d \<le> 0 then Inl (TimeoutNotPositive s) else Inr d)"

definition ParseSignal :: "(int \<Rightarrow> string) \<Rightarrow> (string \<Rightarrow> int) \<Rightarrow> string \<Rightarrow> OptErr + int \<times> string" where
  "ParseSignal signalName signalNum s0 =
     (let s = trimSpace s0 in
      if s = [] then Inl SignalEmpty
      else case atoi s of
        Some n \<Rightarrow>
          if n \<le> 0 then Inl (SignalNotPositive n)
          else if signalName n = [] then Inl (UnknownSignalNumber n)
          else Inr (let p = n mod 2 ^ 32 in if p \<ge> 2 ^ 31 then p - 2 ^ 32 else p, signalName n)
      | None \<Rightarrow>
          let up = toUpper s;
              normalized = (if hasPrefix up ''SIG'' then up else ''SIG'' @ up);
              sig = signalNum normalized
          in if sig \<le> 0 then Inl (UnknownSignal s)
             else if signalName sig = [] then Inl (UnknownSignal s)
             else Inr (sig, signalName sig))"

section \<open>Log driver options (logdriver/options.go)\<close>

definition IsDriver :: "string \<Rightarrow> bool" where
  "IsDriver s \<longleftrightarrow> s = ''k8s-file'' \<or> s = ''none''"

definition IsValidOpt :: "string \<Rightarrow> string \<Rightarrow> bool" where
  "IsValidOpt driver key \<longleftrightarrow> driver = ''k8s-file'' \<and> key \<in> {''path'', ''max-size'', ''max-file''}"

definition isAbs :: "string \<Rightarrow> bool" where
  "isAbs p \<longleftrightarrow> (case p of c # _ \<Rightarrow> c = CHR ''/'' | [] \<Rightarrow> False)"

definition ParseMaxSize :: "(string \<Rightarrow> int option) \<Rightarrow> string \<Rightarrow> OptErr + int" where
  "ParseMaxSize parseBytes value =
     (if value = [] then Inr 0
      else case parseBytes value of
        None \<Rightarrow> Inl (InvalidSize value)
      | Some n \<Rightarrow> if n > maxInt64 then Inl (SizeOverflow value) else Inr n)"

definition ParseMaxFile :: "string \<Rightarrow> OptErr + int" where
  "ParseMaxFile value =
     (if value = [] \<or> value = ''0'' then Inr 0
      else case atoi value of
        None \<Rightarrow> Inl (InvalidCount value)
      | Some n \<Rightarrow> if n < 1 then Inl (CountTooSmall value) else Inr n)"

definition ValidateOpt :: "(string \<Rightarrow> int option) \<Rightarrow> string \<Rightarrow> string \<Rightarrow> string \<Rightarrow> OptErr + unit" where
  "ValidateOpt parseBytes driver key value =
     (if \<not> IsValidOpt driver key then Inl (LogOptNotValid key driver)
      else if key = ''path'' then (if isAbs value then Inr () else Inl (LogOptRelativePath value))
      else if key = ''max-size'' then map_sum id (\<lambda>_. ()) (ParseMaxSize parseBytes value)
      else map_sum id (\<lambda>_. ()) (ParseMaxFile value))"

definition DefaultLogMaxSize :: int where "DefaultLogMaxSize = 5 * 1024 * 1024"
definition DefaultLogMaxFile :: int where "DefaultLogMaxFile = 3"

definition parseLogMaxSizeOption :: "(string \<Rightarrow> int option) \<Rightarrow> (string, string) gomap \<Rightarrow> OptErr + int" where
  "parseLogMaxSizeOption parseBytes opts =
     (case map_of opts ''max-size'' of None \<Rightarrow> Inr DefaultLogMaxSize | Some v \<Rightarrow> ParseMaxSize parseBytes v)"

definition parseLogMaxFileOption :: "(string, string) gomap \<Rightarrow> OptErr + int" where
  "parseLogMaxFileOption opts =
     (case map_of opts ''max-file'' of None \<Rightarrow> Inr DefaultLogMaxFile | Some v \<Rightarrow> ParseMaxFile v)"

section \<open>Properties\<close>

lemma restartPolicy_string:
  "p \<noteq> RestartPolicyNone \<Longrightarrow> restartPolicyOf (restartPolicyString p) = Some p"
  by (cases p) (simp_all add: restartPolicyOf_def)

lemma restartPolicy_no_colon: "CHR '':'' \<notin> set (restartPolicyString p)"
  by (cases p) simp_all

text \<open>Printing a parsed restart policy and parsing it again gives the same policy and
  retry count, and what \<^verbatim>\<open>ParseRestartPolicy\<close> accepts always has that form: a non-empty
  policy, and a non-zero count (in range of a 64-bit int) only with on-failure.\<close>

lemma ParseRestartPolicy_roundtrip:
  "(ParseRestartPolicy s = Inr (p, n) \<longrightarrow>
      p \<noteq> RestartPolicyNone \<and> 0 \<le> n \<and> n \<le> maxInt64 \<and> (n \<noteq> 0 \<longrightarrow> p = RestartPolicyOnFailure)) \<and>
   (p \<noteq> RestartPolicyNone \<and> 0 \<le> n \<and> n \<le> maxInt64 \<and> (n \<noteq> 0 \<longrightarrow> p = RestartPolicyOnFailure) \<longrightarrow>
      ParseRestartPolicy (canonicalRestartPolicy p n) = Inr (p, n))"
proof (intro conjI impI)
  assume "ParseRestartPolicy s = Inr (p, n)"
  then show "p \<noteq> RestartPolicyNone" "0 \<le> n" "n \<le> maxInt64" "n \<noteq> 0 \<Longrightarrow> p = RestartPolicyOnFailure"
    by (auto simp: ParseRestartPolicy_def restartPolicyOf_def atoi_def Let_def maxInt64_def
        split: prod.splits option.splits if_splits list.splits)
next
  assume a: "p \<noteq> RestartPolicyNone \<and> 0 \<le> n \<and> n \<le> maxInt64 \<and> (n \<noteq> 0 \<longrightarrow> p = RestartPolicyOnFailure)"
  show "ParseRestartPolicy (canonicalRestartPolicy p n) = Inr (p, n)"
  proof (cases "n = 0")
    case True
    with a show ?thesis
      by (simp add: ParseRestartPolicy_def canonicalRestartPolicy_def cut_none restartPolicy_no_colon restartPolicy_string)
  next
    case False
    with a have "p = RestartPolicyOnFailure" "0 < n" "atoi (itoa n) = Some n"
      by (auto intro!: atoi_itoa simp: minInt64_def)
    with cut_append [OF restartPolicy_no_colon, of p "itoa n"] restartPolicy_string [of p] show ?thesis
      by (simp add: ParseRestartPolicy_def canonicalRestartPolicy_def)
  qed
qed

lemma atoi_range: "atoi s = Some n \<Longrightarrow> minInt64 \<le> n \<and> n \<le> maxInt64"
  by (auto simp: atoi_def Let_def split: if_splits list.splits)

text \<open>A parsed timeout is positive and fits a 64-bit duration, and a non-negative number
  of seconds never wraps around: the accepted value is exactly that many seconds. (A
  duration string is only assumed to be parsed into the 64-bit range.)\<close>

lemma ParseTimeout_bounds:
  assumes "\<And>s d. parseDuration s = Some d \<Longrightarrow> d \<le> maxInt64"
    and "ParseTimeout parseDuration s = Inr d"
  shows "0 < d \<and> d \<le> maxInt64 \<and> (\<forall>n. atoi (trimSpace s) = Some n \<longrightarrow> 0 \<le> n \<longrightarrow> d = n * secondNs)"
proof (cases "atoi (trimSpace s)")
  case None
  with assms show ?thesis by (auto simp: ParseTimeout_def Let_def split: option.splits if_splits)
next
  case (Some n)
  let ?p = "(n * secondNs) mod 2 ^ 64"
  from Some assms(2) have le: "n \<le> maxInt64 div secondNs" and d: "d = (if ?p > maxInt64 then ?p - 2 ^ 64 else ?p)" "0 < d"
    by (auto simp: ParseTimeout_def Let_def split: if_splits)
  have "?p < 2 ^ 64" "0 \<le> ?p" by simp_all
  then have "d \<le> maxInt64" using d by (auto simp: maxInt64_def)
  moreover have "d = n * secondNs" if "0 \<le> n"
  proof -
    have "0 \<le> n * secondNs" "n * secondNs \<le> maxInt64" using le that by (auto simp: secondNs_def maxInt64_def)
    with d show ?thesis by (simp add: maxInt64_def)
  qed
  ultimately show ?thesis using d(2) Some by simp
qed


end
