(* ===== verification/Hook_Dispatch.thy ===== *)
theory Hook_Dispatch
  imports Hook_Filter Parse_Options
begin

text \<open>
  Which hook an event of a command runs, and when: the hook sets and their layers
  (cmdman/model/hook.go), the environment of a hook process (\<^verbatim>\<open>WithHookEventEnv\<close> and its
  siblings of cmdman/config/env.go) and the dispatcher (cmdman/monitor/hooks.go). The
  processes themselves are not modelled: a run is the argv, directory and environment the
  dispatcher would execute.
\<close>

section \<open>Hook sets and layers (model/hook.go)\<close>

definition HookEventBell :: string where "HookEventBell = ''bell''"
definition HookEventTitle :: string where "HookEventTitle = ''title''"
definition HookEventNotification :: string where "HookEventNotification = ''notification''"
definition HookActionPassthrough :: string where "HookActionPassthrough = ''passthrough''"
definition HookActionBlock :: string where "HookActionBlock = ''block''"

definition HookEvents :: "string list" where
  "HookEvents = [HookEventBell, HookEventTitle, HookEventNotification]"

definition HookActions :: "string list" where
  "HookActions = [HookActionPassthrough, HookActionBlock]"

definition IsHookEvent :: "string \<Rightarrow> bool" where
  "IsHookEvent s \<longleftrightarrow> s \<in> set HookEvents"

definition noHook :: Hook where
  "noHook = \<lparr> hkAction = [], hkExec = [] \<rparr>"

definition Hook_Blocks :: "Hook \<Rightarrow> bool" where
  "Hook_Blocks h \<longleftrightarrow> hkAction h = HookActionBlock"

type_synonym HookSet = "(string, Hook) gomap"

datatype HookSetErr = UnknownHookEvent string | UnknownHookAction string string | EmptyHookProgram string

definition validateHook :: "HookSet \<Rightarrow> string \<Rightarrow> HookSetErr + unit" where
  "validateHook s ev =
     (if \<not> IsHookEvent ev then Inl (UnknownHookEvent ev)
      else let h = (case map_of s ev of Some h \<Rightarrow> h | None \<Rightarrow> noHook)
           in if hkAction h \<noteq> [] \<and> hkAction h \<notin> set HookActions then Inl (UnknownHookAction ev (hkAction h))
              else if hkExec h \<noteq> [] \<and> hd (hkExec h) = [] then Inl (EmptyHookProgram ev)
              else Inr ())"

definition HookSet_Validate :: "HookSet \<Rightarrow> HookSetErr + unit" where
  "HookSet_Validate s = first_err (validateHook s) (sort (keys_of s))"

record HookLayers =
  hlFrame :: HookSet
  hlCommand :: HookSet
  hlGlobal :: HookSet

fun firstHook :: "HookSet list \<Rightarrow> string \<Rightarrow> Hook" where
  "firstHook [] ev = noHook"
| "firstHook (s # ss) ev = (case map_of s ev of Some h \<Rightarrow> h | None \<Rightarrow> firstHook ss ev)"

definition HookLayers_Resolve :: "HookLayers \<Rightarrow> string \<Rightarrow> Hook" where
  "HookLayers_Resolve l ev = firstHook [hlFrame l, hlCommand l, hlGlobal l] ev"

section \<open>Environment of a hook (config/env.go)\<close>

definition hasAnyPrefix :: "string \<Rightarrow> string list \<Rightarrow> bool" where
  "hasAnyPrefix s ps \<longleftrightarrow> list_ex (hasPrefix s) ps"

definition hookEnvPrefixes :: "string list" where
  "hookEnvPrefixes = [''CMDMAN_HOOK_EVENT='', ''CMDMAN_HOOK_TITLE='', ''CMDMAN_HOOK_BODY='']"

definition WithHookEventEnv :: "string list \<Rightarrow> string \<Rightarrow> string \<Rightarrow> string \<Rightarrow> string list" where
  "WithHookEventEnv env ev title body =
     filter (\<lambda>entry. \<not> hasAnyPrefix entry hookEnvPrefixes) env @
     [''CMDMAN_HOOK_EVENT='' @ ev, ''CMDMAN_HOOK_TITLE='' @ title, ''CMDMAN_HOOK_BODY='' @ body]"

section \<open>Dispatcher (monitor/hooks.go)\<close>

definition hookQueueDepth :: nat where "hookQueueDepth = 1"

record hookEvent =
  heKind :: string
  heTitle :: string
  heBody :: string

record hookInvocation =
  hiEvent :: hookEvent
  hiArgv :: "string list"
  hiDir :: string
  hiEnv :: "string list"

text \<open>The configuration of the run, the channel of waiting invocations and the number of
  events dropped.\<close>

record hookDispatcher =
  hdLayers :: HookLayers
  hdDir :: string
  hdEnv :: "string list"
  hdEvents :: "hookInvocation list"
  hdDropped :: "64 word"

definition newHookDispatcher :: hookDispatcher where
  "newHookDispatcher =
     \<lparr> hdLayers = \<lparr> hlFrame = [], hlCommand = [], hlGlobal = [] \<rparr>, hdDir = [], hdEnv = [], hdEvents = [], hdDropped = 0 \<rparr>"

definition configure :: "HookLayers \<Rightarrow> string \<Rightarrow> string list \<Rightarrow> hookDispatcher \<Rightarrow> hookDispatcher" where
  "configure layers dir env d = d\<lparr> hdLayers := layers, hdDir := dir, hdEnv := env \<rparr>"

definition blocks :: "hookDispatcher \<Rightarrow> hookBlocks" where
  "blocks d =
     \<lparr> hbBell = Hook_Blocks (HookLayers_Resolve (hdLayers d) HookEventBell),
       hbTitle = Hook_Blocks (HookLayers_Resolve (hdLayers d) HookEventTitle),
       hbNotification = Hook_Blocks (HookLayers_Resolve (hdLayers d) HookEventNotification) \<rparr>"

definition resolveHook :: "string \<Rightarrow> hookDispatcher \<Rightarrow> string list \<times> string \<times> string list" where
  "resolveHook kind d = (hkExec (HookLayers_Resolve (hdLayers d) kind), hdDir d, hdEnv d)"

definition dispatch :: "hookEvent \<Rightarrow> hookDispatcher \<Rightarrow> hookDispatcher" where
  "dispatch ev d =
     (case resolveHook (heKind ev) d of (argv, dir, env) \<Rightarrow>
        if argv = [] then d
        else if length (hdEvents d) < hookQueueDepth
        then d\<lparr> hdEvents := hdEvents d @ [\<lparr> hiEvent = ev, hiArgv = argv, hiDir = dir, hiEnv = env \<rparr>] \<rparr>
        else d\<lparr> hdDropped := hdDropped d + 1 \<rparr>)"

text \<open>The worker takes the oldest invocation; what it executes is the invocation's argv and
  directory, with the event added to the environment.\<close>

definition takeHook :: "hookDispatcher \<Rightarrow> hookDispatcher \<times> hookInvocation option" where
  "takeHook d = (case hdEvents d of [] \<Rightarrow> (d, None) | i # is \<Rightarrow> (d\<lparr> hdEvents := is \<rparr>, Some i))"

definition runHook :: "hookInvocation \<Rightarrow> string list \<times> string \<times> string list" where
  "runHook i = (hiArgv i, hiDir i, WithHookEventEnv (hiEnv i) (heKind (hiEvent i)) (heTitle (hiEvent i)) (heBody (hiEvent i)))"

section \<open>Properties\<close>

lemma HookSet_Validate_ok:
  assumes "HookSet_Validate s = Inr ()" "map_of s ev = Some h"
  shows "IsHookEvent ev \<and> (hkAction h = [] \<or> hkAction h \<in> set HookActions) \<and> (hkExec h \<noteq> [] \<longrightarrow> hd (hkExec h) \<noteq> [])"
proof -
  have "ev \<in> set (keys_of s)" using assms(2) by (force dest: map_of_SomeD)
  then have "validateHook s ev = Inr ()" using assms(1) by (auto simp: HookSet_Validate_def first_err_Inr)
  then show ?thesis using assms(2) by (auto simp: validateHook_def Let_def split: if_splits)
qed

text \<open>The first layer that names an event defines it; with no layer it passes and runs nothing.\<close>

lemma Resolve_first:
  "HookLayers_Resolve l ev =
     (case map_of (hlFrame l) ev of Some h \<Rightarrow> h | None \<Rightarrow>
      case map_of (hlCommand l) ev of Some h \<Rightarrow> h | None \<Rightarrow>
      case map_of (hlGlobal l) ev of Some h \<Rightarrow> h | None \<Rightarrow> noHook)"
  by (simp add: HookLayers_Resolve_def split: option.split)

lemma hasPrefix_append [simp]: "hasPrefix (p @ s) p"
  by (simp add: hasPrefix_def)

text \<open>A hook sees the event that triggered it once, whatever its environment held.\<close>

lemma hook_env_event:
  "filter (\<lambda>e. hasPrefix e ''CMDMAN_HOOK_EVENT='') (WithHookEventEnv env ev title body) = [''CMDMAN_HOOK_EVENT='' @ ev]"
  by (auto simp: WithHookEventEnv_def hookEnvPrefixes_def hasAnyPrefix_def hasPrefix_def filter_empty_conv)

subsection \<open>Runs of the dispatcher\<close>

datatype hookStep = HConfigure HookLayers string "string list" | HDispatch hookEvent | HTake

fun hookRun :: "hookStep list \<Rightarrow> hookDispatcher \<Rightarrow> hookDispatcher \<times> hookInvocation list" where
  "hookRun [] d = (d, [])"
| "hookRun (HConfigure l dir env # ss) d = hookRun ss (configure l dir env d)"
| "hookRun (HDispatch ev # ss) d = hookRun ss (dispatch ev d)"
| "hookRun (HTake # ss) d =
     (case takeHook d of (d', i) \<Rightarrow> case hookRun ss d' of (d'', is) \<Rightarrow>
        (d'', (case i of None \<Rightarrow> is | Some i \<Rightarrow> i # is)))"

text \<open>Every event that has a hook, bound to the configuration it was captured under.\<close>

fun captured :: "HookLayers \<Rightarrow> string \<Rightarrow> string list \<Rightarrow> hookStep list \<Rightarrow> hookInvocation list" where
  "captured l dir env [] = []"
| "captured l dir env (HConfigure l' dir' env' # ss) = captured l' dir' env' ss"
| "captured l dir env (HDispatch ev # ss) =
     (let argv = hkExec (HookLayers_Resolve l (heKind ev))
      in (if argv = [] then [] else [\<lparr> hiEvent = ev, hiArgv = argv, hiDir = dir, hiEnv = env \<rparr>]) @ captured l dir env ss)"
| "captured l dir env (HTake # ss) = captured l dir env ss"

lemma hook_run:
  assumes "hookRun ss d = (d', is)" "length (hdEvents d) \<le> hookQueueDepth"
  shows "subseq (is @ hdEvents d') (hdEvents d @ captured (hdLayers d) (hdDir d) (hdEnv d) ss) \<and>
    length (hdEvents d') \<le> hookQueueDepth \<and>
    hdDropped d' + of_nat (length is + length (hdEvents d')) =
      hdDropped d + of_nat (length (hdEvents d) + length (captured (hdLayers d) (hdDir d) (hdEnv d) ss))"
  using assms
proof (induction ss d arbitrary: d' "is" rule: hookRun.induct)
  case (3 ev ss d)
  consider (none) "hkExec (HookLayers_Resolve (hdLayers d) (heKind ev)) = []"
    | (room) "hkExec (HookLayers_Resolve (hdLayers d) (heKind ev)) \<noteq> []" "length (hdEvents d) < hookQueueDepth"
    | (full) "hkExec (HookLayers_Resolve (hdLayers d) (heKind ev)) \<noteq> []" "\<not> length (hdEvents d) < hookQueueDepth"
    by blast
  then show ?case
  proof cases
    case full
    let ?xs = "captured (hdLayers d) (hdDir d) (hdEnv d) ss"
    have drop: "subseq (hdEvents d @ ?xs) (hdEvents d @ y # ?xs)" for y by (intro list_emb_append_mono) auto
    show ?thesis using 3 full subseq_order.trans [OF _ drop]
      by (simp add: dispatch_def resolveHook_def algebra_simps)
  qed (use 3 in \<open>auto simp: dispatch_def resolveHook_def algebra_simps\<close>)
next
  case (4 ss d)
  show ?case
  proof (cases "hdEvents d")
    case Nil
    then show ?thesis using 4 by (auto simp: takeHook_def split: prod.splits)
  next
    case (Cons i qs)
    obtain js where js: "hookRun ss (d\<lparr> hdEvents := qs \<rparr>) = (d', js)" "is = i # js"
      using "4.prems"(1) Cons by (auto simp: takeHook_def split: prod.splits)
    then show ?thesis using "4.IH" [of "d\<lparr> hdEvents := qs \<rparr>" "Some i" d' js] "4.prems"(2) Cons
      by (simp add: takeHook_def algebra_simps)
  qed
qed (simp_all add: configure_def)

end
