(* ===== verification/Go_Path.thy ===== *)
theory Go_Path
  imports Parse_Options
begin

text \<open>
  Slash-separated paths as Go's \<^verbatim>\<open>path/filepath\<close> treats them on Unix: \<^verbatim>\<open>Clean\<close>, \<^verbatim>\<open>Join\<close> and
  \<^verbatim>\<open>Dir\<close>, and \<^verbatim>\<open>resolvePath\<close> of cmdman/compose/normalize.go.
\<close>

fun splitOn :: "char \<Rightarrow> string \<Rightarrow> string list" where
  "splitOn sep [] = [[]]"
| "splitOn sep (c # s) = (if c = sep then [] # splitOn sep s
     else case splitOn sep s of x # xs \<Rightarrow> (c # x) # xs | [] \<Rightarrow> [[c]])"

fun joinWith :: "char \<Rightarrow> string list \<Rightarrow> string" where
  "joinWith sep [] = []"
| "joinWith sep [x] = x"
| "joinWith sep (x # y # ys) = x @ sep # joinWith sep (y # ys)"

text \<open>One element of a path against the elements kept so far, last first.\<close>

definition cleanStep :: "bool \<Rightarrow> string list \<Rightarrow> string \<Rightarrow> string list" where
  "cleanStep rooted stack c =
     (if c = '''' \<or> c = ''.'' then stack
      else if c = ''..'' then
        (case stack of
           [] \<Rightarrow> if rooted then [] else [''..'']
         | t0 # rest \<Rightarrow> if t0 = ''..'' then ''..'' # stack else rest)
      else c # stack)"

definition cleanPath :: "string \<Rightarrow> string" where
  "cleanPath p =
     (let body = joinWith CHR ''/'' (rev (foldl (cleanStep (isAbs p)) [] (splitOn CHR ''/'' p)))
      in if isAbs p then CHR ''/'' # body else if body = [] then ''.'' else body)"

definition joinPath :: "string \<Rightarrow> string \<Rightarrow> string" where
  "joinPath a b = (if a = [] \<and> b = [] then [] else if a = [] then cleanPath b
     else if b = [] then cleanPath a else cleanPath (a @ ''/'' @ b))"

definition dirPath :: "string \<Rightarrow> string" where
  "dirPath p = cleanPath (rev (dropWhile (\<lambda>c. c \<noteq> CHR ''/'') (rev p)))"

definition resolvePath :: "string \<Rightarrow> string \<Rightarrow> string" where
  "resolvePath workDir p = (if p = [] then workDir else if isAbs p then cleanPath p else joinPath workDir p)"

section \<open>Cleaned paths\<close>

lemma splitOn_no_sep: "x \<in> set (splitOn sep s) \<Longrightarrow> sep \<notin> set x"
  by (induction s arbitrary: x) (auto split: if_splits list.splits)

lemma splitOn_ne [simp]: "splitOn sep s \<noteq> []"
  by (induction s) (auto split: list.splits)

lemma splitOn_append_sep: "sep \<notin> set x \<Longrightarrow> splitOn sep (x @ sep # s) = x # splitOn sep s"
  by (induction x) auto

lemma splitOn_plain: "sep \<notin> set x \<Longrightarrow> splitOn sep x = [x]"
  by (induction x) auto

lemma splitOn_joinWith: "xs \<noteq> [] \<Longrightarrow> \<forall>x \<in> set xs. sep \<notin> set x \<Longrightarrow> splitOn sep (joinWith sep xs) = xs"
  by (induction sep xs rule: joinWith.induct) (simp_all add: splitOn_plain splitOn_append_sep)

text \<open>What a cleaned list of elements looks like: no empty element and no dot, and \<^verbatim>\<open>..\<close>
  only at the front of a relative path (at the end of the reversed list).\<close>

fun clean_stack :: "bool \<Rightarrow> string list \<Rightarrow> bool" where
  "clean_stack rooted [] = True"
| "clean_stack rooted (c # cs) =
     (c \<noteq> '''' \<and> c \<noteq> ''.'' \<and> CHR ''/'' \<notin> set c \<and>
      (c = ''..'' \<longrightarrow> \<not> rooted \<and> list_all (\<lambda>d. d = ''..'') cs) \<and> clean_stack rooted cs)"

lemma cleanStep_clean:
  assumes "clean_stack r st" and "CHR ''/'' \<notin> set c"
  shows "clean_stack r (cleanStep r st c)"
  using assms by (cases st) (auto simp: cleanStep_def)

lemma fold_clean: "clean_stack r st \<Longrightarrow> \<forall>c \<in> set cs. CHR ''/'' \<notin> set c \<Longrightarrow> clean_stack r (foldl (cleanStep r) st cs)"
  by (induction cs arbitrary: st) (auto simp: cleanStep_clean)

lemma clean_stack_fold:
  "clean_stack r (rev cs @ st) \<Longrightarrow> foldl (cleanStep r) st cs = rev cs @ st"
proof (induction cs arbitrary: st)
  case (Cons c cs)
  have suffix: "clean_stack r (xs @ ys) \<Longrightarrow> clean_stack r ys" for xs ys by (induction xs) auto
  from Cons.prems have "clean_stack r (c # st)" using suffix [of "rev cs" "c # st"] by simp
  then have "cleanStep r st c = c # st" by (cases st) (auto simp: cleanStep_def)
  with Cons.IH [of "c # st"] Cons.prems show ?case by simp
qed simp

lemma clean_stack_no_sep: "clean_stack r cs \<Longrightarrow> \<forall>c \<in> set cs. CHR ''/'' \<notin> set c \<and> c \<noteq> []"
  by (induction cs) auto

lemma joinWith_hd: "xs \<noteq> [] \<Longrightarrow> \<forall>x \<in> set xs. x \<noteq> [] \<and> sep \<notin> set x \<Longrightarrow> joinWith sep xs \<noteq> [] \<and> hd (joinWith sep xs) \<noteq> sep"
  by (cases "(sep, xs)" rule: joinWith.cases) (auto simp: neq_Nil_conv)

text \<open>Cleaning a path is idempotent, keeps absolute paths absolute and relative paths
  relative.\<close>

lemma cleanPath_idem: "cleanPath (cleanPath p) = cleanPath p \<and> isAbs (cleanPath p) = isAbs p"
proof -
  let ?r = "isAbs p" and ?st = "foldl (cleanStep (isAbs p)) [] (splitOn CHR ''/'' p)"
  have cs: "clean_stack ?r ?st" using splitOn_no_sep by (intro fold_clean) auto
  let ?cs = "rev ?st"
  have plain: "\<forall>c \<in> set ?cs. c \<noteq> [] \<and> CHR ''/'' \<notin> set c" using clean_stack_no_sep [OF cs] by auto
  have again: "foldl (cleanStep ?r) [] ?cs = ?st" using clean_stack_fold [of ?r ?cs "[]"] cs by simp
  show ?thesis
  proof (cases "?cs = []")
    case True
    then show ?thesis by (simp add: cleanPath_def isAbs_def cleanStep_def Let_def)
  next
    case False
    have hd: "joinWith CHR ''/'' ?cs \<noteq> []" "hd (joinWith CHR ''/'' ?cs) \<noteq> CHR ''/''"
      using joinWith_hd [OF False] plain by auto
    have sp: "splitOn CHR ''/'' (joinWith CHR ''/'' ?cs) = ?cs" using splitOn_joinWith [OF False] plain by auto
    show ?thesis
    proof (cases ?r)
      case True
      have c: "cleanPath p = CHR ''/'' # joinWith CHR ''/'' ?cs" using True by (simp add: cleanPath_def Let_def)
      have "foldl (cleanStep True) [] (splitOn CHR ''/'' (CHR ''/'' # joinWith CHR ''/'' ?cs)) = ?st"
        using again True sp by (simp add: cleanStep_def)
      with c True show ?thesis by (simp add: cleanPath_def isAbs_def Let_def)
    next
      case r: False
      have c: "cleanPath p = joinWith CHR ''/'' ?cs" using r hd(1) by (simp add: cleanPath_def Let_def)
      have na: "\<not> isAbs (joinWith CHR ''/'' ?cs)" using hd by (auto simp: isAbs_def split: list.splits)
      have "foldl (cleanStep False) [] (splitOn CHR ''/'' (joinWith CHR ''/'' ?cs)) = ?st" using again r sp by simp
      with c na r hd(1) show ?thesis by (simp add: cleanPath_def Let_def)
    qed
  qed
qed

lemma cleanPath_abs: "isAbs (cleanPath p) = isAbs p"
proof (cases "isAbs p")
  case True
  then show ?thesis by (simp add: cleanPath_def isAbs_def Let_def)
next
  case False
  let ?st = "foldl (cleanStep False) [] (splitOn CHR ''/'' p)"
  have "clean_stack False ?st" using splitOn_no_sep by (intro fold_clean) auto
  from clean_stack_no_sep [OF this] have "\<forall>c \<in> set (rev ?st). c \<noteq> [] \<and> CHR ''/'' \<notin> set c" by auto
  with joinWith_hd [of "rev ?st" "CHR ''/''"] False show ?thesis
    by (cases "?st = []") (auto simp: cleanPath_def isAbs_def Let_def split: list.splits)
qed

lemma resolvePath_abs: "isAbs w \<Longrightarrow> isAbs (resolvePath w p)"
  by (auto simp: resolvePath_def joinPath_def cleanPath_abs) (auto simp: isAbs_def split: list.splits)

end
