(* ===== verification/Cmd_Store.thy ===== *)
theory Cmd_Store
  imports Hook_Dispatch Go_Path "HOL-Library.Sublist"
begin

text \<open>
  The store of commands (cmdman/store): the tables of its schema, the queries as the
  statements of schema/query define them, and the methods of \<^verbatim>\<open>Store\<close> on top. Rows keep the decoded
  configuration and state, encoding/json being the identity on them.

  A \<open>World\<close> is everything a client of cmdman reads and writes: the database, the directories of
  commands, the killed processes, the stop requests sent to monitors and the emitted events. A \<open>Host\<close> is what it cannot control, and
  is an argument of every operation: which of its calls fails, when its context is cancelled,
  what the monitors of running commands do to their rows in the meantime, the clock, the random
  ids. Every call to the outside is a tick; monitors act at every tick.
\<close>

section \<open>Errors\<close>

datatype SvcErr =
    ErrText string | ErrFault string | ErrNoRows | ErrConstraint | ErrCanceled | ErrDeadline | ErrUnavailable
  | ErrReplicaKept | ErrWrap string SvcErr | ErrJoin "SvcErr list"

text \<open>\<^verbatim>\<open>errors.Is\<close>, and \<^verbatim>\<open>errors.Join\<close>, which is nil when there is nothing to join.\<close>

fun errorsIs :: "SvcErr \<Rightarrow> SvcErr \<Rightarrow> bool" where
  "errorsIs (ErrWrap s e) t \<longleftrightarrow> ErrWrap s e = t \<or> errorsIs e t"
| "errorsIs (ErrJoin es) t \<longleftrightarrow> ErrJoin es = t \<or> list_ex (\<lambda>e. errorsIs e t) es"
| "errorsIs e t \<longleftrightarrow> e = t"

definition errorsJoin :: "SvcErr option list \<Rightarrow> SvcErr option" where
  "errorsJoin es = (let errs = List.map_filter id es in if errs = [] then None else Some (ErrJoin errs))"

section \<open>Tables (schema/schema.sql)\<close>

record ConfigRow =
  crID :: string
  crName :: "string option"
  crCreatedAt :: string
  crConfig :: CommandConfig

record StateRow =
  srState :: EventType
  srExitCode :: "int option"
  srJSON :: CommandState

record Store =
  dbConfig :: "ConfigRow list"
  dbState :: "(string, StateRow) gomap"
  dbExit :: "(string \<times> string \<times> int) list"

definition nullableString :: "string \<Rightarrow> string option" where
  "nullableString s = (if s = [] then None else Some s)"

definition configRow :: "Store \<Rightarrow> string \<Rightarrow> ConfigRow option" where
  "configRow st i = find (\<lambda>r. crID r = i) (dbConfig st)"

definition insertConfigRow :: "ConfigRow \<Rightarrow> Store \<Rightarrow> SvcErr + Store" where
  "insertConfigRow r st =
     (if crID r \<in> crID ` set (dbConfig st) \<or> crName r \<noteq> None \<and> crName r \<in> crName ` set (dbConfig st) then Inl ErrConstraint
      else Inr (st\<lparr> dbConfig := dbConfig st @ [r] \<rparr>))"

definition insertStateRow :: "string \<Rightarrow> StateRow \<Rightarrow> Store \<Rightarrow> SvcErr + Store" where
  "insertStateRow i r st =
     (if i \<in> set (keys_of (dbState st)) \<or> i \<notin> crID ` set (dbConfig st) then Inl ErrConstraint
      else Inr (st\<lparr> dbState := dbState st @ [(i, r)] \<rparr>))"

definition updateStateRow :: "string \<Rightarrow> StateRow \<Rightarrow> Store \<Rightarrow> SvcErr + Store" where
  "updateStateRow i r st =
     (if i \<in> set (keys_of (dbState st)) \<and> (\<exists>c \<in> set_option (srExitCode r). c < -1 \<or> 255 < c) then Inl ErrConstraint
      else Inr (st\<lparr> dbState := amodify i (\<lambda>_. r) (dbState st) \<rparr>))"

definition deleteCommandRows :: "string \<Rightarrow> Store \<Rightarrow> Store" where
  "deleteCommandRows i st = \<lparr> dbConfig = filter (\<lambda>r. crID r \<noteq> i) (dbConfig st),
     dbState = filter (\<lambda>(j, _). j \<noteq> i) (dbState st), dbExit = filter (\<lambda>(j, _). j \<noteq> i) (dbExit st) \<rparr>"

text \<open>\<^verbatim>\<open>LIKE\<close> of SQLite: \<^verbatim>\<open>%\<close> stands for any text, \<^verbatim>\<open>_\<close> for one character, letters match in either case.\<close>

primrec sqlLike :: "string \<Rightarrow> string \<Rightarrow> bool" where
  "sqlLike [] = (\<lambda>t. t = [])"
| "sqlLike (p # ps) = (\<lambda>t.
     if p = CHR ''%'' then list_ex (sqlLike ps) (suffixes t)
     else case t of [] \<Rightarrow> False | c # cs \<Rightarrow> (p = CHR ''_'' \<or> toUpper [p] = toUpper [c]) \<and> sqlLike ps cs)"

definition hasLabels :: "(string, string) gomap \<Rightarrow> CommandConfig \<Rightarrow> bool" where
  "hasLabels labels cfg \<longleftrightarrow> list_all (\<lambda>(k, v). map_of (ccLabels cfg) k = Some v) labels"

section \<open>The world of a client\<close>

record World =
  wStore :: Store
  wDirs :: "(string, CommandConfig) gomap"
  wKilled :: "int list"
  wStops :: "(string \<times> int \<times> int) list"
  wEmitted :: "(EventType \<times> string) list"
  wDone :: bool
  wTick :: nat

record Config =
  cfDataDir :: string
  cfRuntimeDir :: string
  cfConfigPath :: string
  cfDefaultWorkingDir :: string
  cfDefaultEnvironment :: "string list"
  cfDefaultScrollbackBytes :: int
  cfDefaultLogDriver :: string

datatype RPCErr = RPCUnavailable | RPCFailed string

text \<open>\<open>hoMonitor\<close> is the row a monitor leaves behind at a tick, or nothing when it removes its command;
  \<open>hoSpawned\<close> the first row of a monitor just spawned; \<open>hoStale\<close> the probe of a pid lock; \<open>hoPolls\<close>
  how often a wait of the given length polls before its time is up or its context is cancelled.\<close>

record Host =
  hoConfig :: Config
  hoFault :: "nat \<Rightarrow> string option"
  hoCancel :: "nat \<Rightarrow> bool"
  hoMonitor :: "nat \<Rightarrow> string \<Rightarrow> StateRow \<Rightarrow> StateRow option"
  hoSpawned :: "nat \<Rightarrow> string \<Rightarrow> StateRow \<Rightarrow> StateRow"
  hoStale :: "nat \<Rightarrow> string \<Rightarrow> string + bool"
  hoPolls :: "nat \<Rightarrow> int \<Rightarrow> nat"
  hoRPC :: "nat \<Rightarrow> RPCErr option"
  hoNow :: "nat \<Rightarrow> string"
  hoID :: "nat \<Rightarrow> string"
  hoSignalName :: "int \<Rightarrow> string"
  hoSignalNum :: "string \<Rightarrow> int"
  hoParseBytes :: "string \<Rightarrow> int option"

definition isLive :: "EventType \<Rightarrow> bool" where
  "isLive s \<longleftrightarrow> s = EventTypeRunning \<or> s = EventTypeStarting"

definition AnnotationAutoRemove :: string where "AnnotationAutoRemove = ''cmdman.auto-remove''"

definition autoRemoves :: "CommandConfig \<Rightarrow> bool" where
  "autoRemoves cfg \<longleftrightarrow> map_of (ccAnnotations cfg) AnnotationAutoRemove = Some ''true''"

text \<open>Monitors write the row of their own command, and remove it only when its configuration asks
  for that.\<close>

definition monitorAct :: "Host \<Rightarrow> nat \<Rightarrow> string \<times> StateRow \<Rightarrow> Store \<Rightarrow> Store" where
  "monitorAct h t = (\<lambda>(i, r) st.
     if \<not> isLive (srState r) then st
     else case hoMonitor h t i r of
       Some r' \<Rightarrow> st\<lparr> dbState := amodify i (\<lambda>_. r') (dbState st) \<rparr>
     | None \<Rightarrow> (case configRow st i of
          Some c \<Rightarrow> if autoRemoves (crConfig c) then deleteCommandRows i st else st
        | None \<Rightarrow> st))"

definition monitorsAct :: "Host \<Rightarrow> nat \<Rightarrow> Store \<Rightarrow> Store" where
  "monitorsAct h t st = fold (monitorAct h t) (dbState st) st"

definition outside :: "Host \<Rightarrow> World \<Rightarrow> (SvcErr + unit) \<times> World" where
  "outside h w =
     (case hoFault h (wTick w) of Some e \<Rightarrow> Inl (ErrFault e) | None \<Rightarrow> Inr (),
      w\<lparr> wStore := monitorsAct h (wTick w) (wStore w), wDone := (wDone w \<or> hoCancel h (wTick w)), wTick := Suc (wTick w) \<rparr>)"

section \<open>Effects\<close>

definition bindR :: "('w \<Rightarrow> ('e + 'a) \<times> 'w) \<Rightarrow> ('a \<Rightarrow> 'w \<Rightarrow> ('e + 'b) \<times> 'w) \<Rightarrow> 'w \<Rightarrow> ('e + 'b) \<times> 'w" where
  "bindR f g w = (case f w of (Inl e, w') \<Rightarrow> (Inl e, w') | (Inr x, w') \<Rightarrow> g x w')"

definition wrapR :: "('e \<Rightarrow> 'f) \<Rightarrow> ('w \<Rightarrow> ('e + 'a) \<times> 'w) \<Rightarrow> 'w \<Rightarrow> ('f + 'a) \<times> 'w" where
  "wrapR k f w = (case f w of (r, w') \<Rightarrow> (wrapE k r, w'))"

text \<open>The continuation takes the error too, where the source looks at it.\<close>

definition tryR :: "('w \<Rightarrow> 'r \<times> 'w) \<Rightarrow> ('r \<Rightarrow> 'w \<Rightarrow> 'b \<times> 'w) \<Rightarrow> 'w \<Rightarrow> 'b \<times> 'w" where
  "tryR f g w = (case f w of (r, w') \<Rightarrow> g r w')"

text \<open>A statement, or a transaction as a whole: one call to the database, which changes nothing
  when it fails.\<close>

definition query :: "Host \<Rightarrow> (Store \<Rightarrow> SvcErr + 'a \<times> Store) \<Rightarrow> World \<Rightarrow> (SvcErr + 'a) \<times> World" where
  "query h q = bindR (outside h) (\<lambda>_ w.
     case q (wStore w) of Inl e \<Rightarrow> (Inl e, w) | Inr (x, st) \<Rightarrow> (Inr x, w\<lparr> wStore := st \<rparr>))"

definition readRow :: "(Store \<Rightarrow> 'a option) \<Rightarrow> Store \<Rightarrow> SvcErr + 'a \<times> Store" where
  "readRow f st = (case f st of None \<Rightarrow> Inl ErrNoRows | Some x \<Rightarrow> Inr (x, st))"

definition writeRow :: "(Store \<Rightarrow> SvcErr + Store) \<Rightarrow> Store \<Rightarrow> SvcErr + unit \<times> Store" where
  "writeRow f st = (case f st of Inl e \<Rightarrow> Inl e | Inr st' \<Rightarrow> Inr ((), st'))"

section \<open>Methods of the store\<close>

definition InsertCommandConfig :: "Host \<Rightarrow> string \<Rightarrow> string \<Rightarrow> CommandConfig \<Rightarrow> World \<Rightarrow> (SvcErr + unit) \<times> World" where
  "InsertCommandConfig h i name cfg w =
     query h (writeRow (insertConfigRow
       \<lparr> crID = i, crName = nullableString name, crCreatedAt = hoNow h (wTick w), crConfig = cfg \<rparr>)) w"

definition InsertCommandState :: "Host \<Rightarrow> string \<Rightarrow> EventType \<Rightarrow> CommandState \<Rightarrow> World \<Rightarrow> (SvcErr + unit) \<times> World" where
  "InsertCommandState h i s js = query h (writeRow (insertStateRow i \<lparr> srState = s, srExitCode = None, srJSON = js \<rparr>))"

definition UpdateCommandState ::
    "Host \<Rightarrow> string \<Rightarrow> EventType \<Rightarrow> int option \<Rightarrow> CommandState \<Rightarrow> World \<Rightarrow> (SvcErr + unit) \<times> World" where
  "UpdateCommandState h i s ec js = query h (writeRow (updateStateRow i \<lparr> srState = s, srExitCode = ec, srJSON = js \<rparr>))"

definition GetCommandState :: "Host \<Rightarrow> string \<Rightarrow> World \<Rightarrow> (SvcErr + StateRow) \<times> World" where
  "GetCommandState h i = query h (readRow (\<lambda>st. map_of (dbState st) i))"

definition idNamed :: "string \<Rightarrow> Store \<Rightarrow> string option" where
  "idNamed name st = map_option crID (find (\<lambda>r. crName r = Some name) (dbConfig st))"

definition ResolveIDByName :: "Host \<Rightarrow> string \<Rightarrow> World \<Rightarrow> (SvcErr + string) \<times> World" where
  "ResolveIDByName h name = query h (readRow (idNamed name))"

definition ResolveIDByID :: "Host \<Rightarrow> string \<Rightarrow> World \<Rightarrow> (SvcErr + string) \<times> World" where
  "ResolveIDByID h i = query h (readRow (\<lambda>st. map_option crID (configRow st i)))"

definition ResolveIDByPrefix :: "Host \<Rightarrow> string \<Rightarrow> World \<Rightarrow> (SvcErr + string list) \<times> World" where
  "ResolveIDByPrefix h p = query h (\<lambda>st. Inr (filter (sqlLike (p @ ''%'')) (map crID (dbConfig st)), st))"

text \<open>Any error of the first two look-ups is skipped.\<close>

definition ResolveID :: "Host \<Rightarrow> string \<Rightarrow> World \<Rightarrow> (SvcErr + string) \<times> World" where
  "ResolveID h s =
     tryR (ResolveIDByName h s) (\<lambda>r. case r of Inr i \<Rightarrow> Pair (Inr i) | Inl _ \<Rightarrow>
     tryR (ResolveIDByID h s) (\<lambda>r. case r of Inr i \<Rightarrow> Pair (Inr i) | Inl _ \<Rightarrow>
     bindR (ResolveIDByPrefix h s) (\<lambda>ms.
       Pair (case ms of
         [] \<Rightarrow> Inl (ErrText ''no command found'')
       | [i] \<Rightarrow> Inr i
       | _ \<Rightarrow> Inl (ErrText ''ambiguous ID prefix'')))))"

definition BackfillDefaults :: "CommandConfig \<Rightarrow> CommandConfig" where
  "BackfillDefaults c = (if ccLogDriver c = [] then c\<lparr> ccLogDriver := ''k8s-file'' \<rparr> else c)"

definition CommandName :: "Host \<Rightarrow> string \<Rightarrow> World \<Rightarrow> (SvcErr + string) \<times> World" where
  "CommandName h i = query h (readRow (\<lambda>st. map_option (\<lambda>r. case crName r of Some n \<Rightarrow> n | None \<Rightarrow> []) (configRow st i)))"

definition GetCommandConfig :: "Host \<Rightarrow> string \<Rightarrow> World \<Rightarrow> (SvcErr + string \<times> string \<times> CommandConfig) \<times> World" where
  "GetCommandConfig h s =
     bindR (ResolveID h s) (\<lambda>i.
     bindR (query h (readRow (\<lambda>st. configRow st i))) (\<lambda>r.
       Pair (Inr (crID r, case crName r of Some n \<Rightarrow> n | None \<Rightarrow> [], BackfillDefaults (crConfig r)))))"

text \<open>\<^verbatim>\<open>SELECT ... JOIN ... ORDER BY CreatedAt\<close>: a command without a state row is not listed.\<close>

definition entryOf :: "ConfigRow \<Rightarrow> StateRow \<Rightarrow> CommandEntry" where
  "entryOf c s = \<lparr> enID = crID c, enName = (case crName c of Some n \<Rightarrow> n | None \<Rightarrow> []), enCreatedAt = crCreatedAt c,
     enState = srState s, enExitCode = srExitCode s, enConfigJSON = Some (BackfillDefaults (crConfig c)),
     enStateJSON = Some (srJSON s) \<rparr>"

definition listed :: "bool \<Rightarrow> (string, string) gomap \<Rightarrow> Store \<Rightarrow> CommandEntry list" where
  "listed allStates labels st =
     List.map_filter (\<lambda>c. case map_of (dbState st) (crID c) of
         None \<Rightarrow> None
       | Some s \<Rightarrow>
           if (allStates \<or> srState s \<in> {EventTypeCreated, EventTypeStarting, EventTypeRunning}) \<and> hasLabels labels (crConfig c)
           then Some (entryOf c s) else None)
       (sort_key crCreatedAt (dbConfig st))"

definition ListCommands :: "Host \<Rightarrow> bool \<Rightarrow> (string, string) gomap \<Rightarrow> World \<Rightarrow> (SvcErr + CommandEntry list) \<times> World" where
  "ListCommands h allStates labels = query h (\<lambda>st. Inr (listed allStates labels st, st))"

definition FindByLabels :: "Host \<Rightarrow> (string, string) gomap \<Rightarrow> World \<Rightarrow> (SvcErr + string list) \<times> World" where
  "FindByLabels h labels =
     query h (\<lambda>st. Inr (map crID (filter (\<lambda>c. hasLabels labels (crConfig c)) (dbConfig st)), st))"

definition DeleteCommand :: "Host \<Rightarrow> string \<Rightarrow> World \<Rightarrow> (SvcErr + unit) \<times> World" where
  "DeleteCommand h i = query h (\<lambda>st. Inr ((), deleteCommandRows i st))"

definition zeroState :: CommandState where
  "zeroState = \<lparr> csMonitorPID = 0, csSocketPath = [], csStartedAt = [], csFinishedAt = [], csRestartCount = 0, csError = [],
     csWarnings = [], csForceKilled = False \<rparr>"

definition ReplaceCommand :: "Host \<Rightarrow> string \<Rightarrow> string \<Rightarrow> string \<Rightarrow> CommandConfig \<Rightarrow> World \<Rightarrow> (SvcErr + unit) \<times> World" where
  "ReplaceCommand h oldID newID name cfg w =
     query h (writeRow (\<lambda>st.
       bindE (insertConfigRow \<lparr> crID = newID, crName = nullableString name, crCreatedAt = hoNow h (wTick w), crConfig = cfg \<rparr>
                (deleteCommandRows oldID st))
             (insertStateRow newID \<lparr> srState = EventTypeCreated, srExitCode = None, srJSON = zeroState \<rparr>))) w"

definition InsertCommandExitCode :: "Host \<Rightarrow> string \<Rightarrow> int \<Rightarrow> World \<Rightarrow> (SvcErr + unit) \<times> World" where
  "InsertCommandExitCode h i c w =
     query h (\<lambda>st. if c < -1 \<or> 255 < c \<or> i \<notin> crID ` set (dbConfig st) then Inl ErrConstraint
       else Inr ((), st\<lparr> dbExit := dbExit st @ [(i, hoNow h (wTick w), c)] \<rparr>)) w"

definition GetExitHistory :: "Host \<Rightarrow> string \<Rightarrow> World \<Rightarrow> (SvcErr + (string \<times> int) list) \<times> World" where
  "GetExitHistory h i = query h (\<lambda>st. Inr (sort_key fst (map snd (filter (\<lambda>(j, _). j = i) (dbExit st))), st))"

end
