(* ===== verification/Cmd_Service.thy ===== *)
theory Cmd_Service
  imports Cmd_Store
begin

text \<open>
  The operations of the cmdman service on commands (cmdman/cmdman_create.go, cmdman_replace.go,
  cmdman_remove.go, cmdman_list.go, cmdman_start.go, cmdman_stop.go, cmdman_wait.go,
  cmdman_restart.go) with the parts of the monitor package a client runs (mon_clean.go,
  \<^verbatim>\<open>WaitForState\<close> of mon_spawn.go). The RPC to a monitor and its process are the host's.
\<close>

section \<open>Configuration of a new command (model/command_config.go, cmdman_create.go)\<close>

definition IsRestartPolicy :: "RestartPolicy \<Rightarrow> bool" where
  "IsRestartPolicy p \<longleftrightarrow> p \<noteq> RestartPolicyNone"

definition ValidateCreate :: "Host \<Rightarrow> CommandConfig \<Rightarrow> SvcErr + unit" where
  "ValidateCreate h c =
     (if ccArgv c = [] then Inl (ErrText ''argv is empty'')
      else if ccDir c = [] then Inl (ErrText ''dir is empty'')
      else if ccEnv c = [] then Inl (ErrText ''env is empty'')
      else if \<not> IsRestartPolicy (ccRestartPolicy c) then Inl (ErrText ''invalid restart policy'')
      else if ccMaxRetries c < 0 then Inl (ErrText ''max_retries must be non-negative'')
      else if ccMaxRetries c > 0 \<and> ccRestartPolicy c \<noteq> RestartPolicyOnFailure then Inl (ErrText ''max_retries is only valid with on-failure'')
      else if ccStopSignal c \<noteq> [] \<and> isl (ParseSignal (hoSignalName h) (hoSignalNum h) (ccStopSignal c)) then Inl (ErrText ''invalid stop_signal'')
      else if (case ccStopTimeout c of Some t \<Rightarrow> t \<le> 0 | None \<Rightarrow> False) then Inl (ErrText ''stop_timeout must be positive'')
      else if (case ccStopCommand c of Some args \<Rightarrow> args = [] \<or> hd args = [] | None \<Rightarrow> False) then Inl (ErrText ''stop_command needs a program name'')
      else if ccScrollbackBytes c \<le> 0 then Inl (ErrText ''scrollback_bytes must be positive'')
      else if \<not> IsDriver (ccLogDriver c) then Inl (ErrText ''invalid log_driver'')
      else if list_ex (\<lambda>(k, v). isl (ValidateOpt (hoParseBytes h) (ccLogDriver c) k v)) (ccLogOpts c) then Inl (ErrText ''invalid log option'')
      else if isl (HookSet_Validate (ccHooks c)) then Inl (ErrText ''invalid hook'')
      else Inr ())"

definition CommandConfig_Validate :: "Host \<Rightarrow> CommandConfig \<Rightarrow> SvcErr + unit" where
  "CommandConfig_Validate h c =
     bindE (ValidateCreate h c) (\<lambda>_. if ccCommandDir c = [] then Inl (ErrText ''command_dir is empty'') else Inr ())"

record CreateRequest =
  rqName :: string
  rqDir :: string
  rqEnv :: "string list"
  rqImportHostEnv :: "bool option"
  rqInjectEnv :: "bool option"
  rqAppendEnv :: "string list"
  rqLabels :: "(string, string) gomap"
  rqRestartPolicy :: RestartPolicy
  rqMaxRetries :: int
  rqStopSignal :: string
  rqStopTimeout :: int
  rqStopCommand :: "string list"
  rqAutoRemove :: bool
  rqTty :: bool
  rqScrollbackBytes :: int
  rqLogDriver :: string
  rqLogOpts :: "(string, string) gomap"
  rqHooks :: "(string, Hook) gomap"
  rqArgv :: "string list"
  rqReplace :: bool

definition buildCommandConfig :: "Host \<Rightarrow> CreateRequest \<Rightarrow> CommandConfig" where
  "buildCommandConfig h req =
     (let cfg = hoConfig h;
          stopSignal = (if rqStopSignal req = [] then ''SIGTERM''
             else case ParseSignal (hoSignalName h) (hoSignalNum h) (rqStopSignal req) of
               Inr (_, canonical) \<Rightarrow> canonical | Inl _ \<Rightarrow> rqStopSignal req);
          importHostEnv = (case rqImportHostEnv req of None \<Rightarrow> True | Some b \<Rightarrow> b)
      in \<lparr> ccArgv = rqArgv req,
           ccDir = (if rqDir req = [] then cfDefaultWorkingDir cfg else rqDir req),
           ccEnv = (if importHostEnv then cfDefaultEnvironment cfg else []) @ rqEnv req @ rqAppendEnv req,
           ccInjectEnv = (case rqInjectEnv req of None \<Rightarrow> True | Some b \<Rightarrow> b),
           ccRestartPolicy = (if rqRestartPolicy req = RestartPolicyNone then RestartPolicyNo else rqRestartPolicy req),
           ccMaxRetries = rqMaxRetries req,
           ccStopSignal = stopSignal,
           ccStopTimeout = (if rqStopTimeout req \<noteq> 0 then Some (rqStopTimeout req) else None),
           ccStopCommand = (if rqStopCommand req \<noteq> [] then Some (rqStopCommand req) else None),
           ccTty = rqTty req,
           ccScrollbackBytes = (if rqScrollbackBytes req = 0 then cfDefaultScrollbackBytes cfg else rqScrollbackBytes req),
           ccLogDriver = (if rqLogDriver req = [] then cfDefaultLogDriver cfg else rqLogDriver req),
           ccLogOpts = rqLogOpts req, ccLabels = rqLabels req,
           ccAnnotations = (if rqAutoRemove req then [(AnnotationAutoRemove, ''true'')] else []),
           ccHooks = rqHooks req, ccCommandDir = [] \<rparr>)"

definition CommandDir :: "Config \<Rightarrow> string \<Rightarrow> SvcErr + string" where
  "CommandDir c i =
     (if cfDataDir c = [] then Inl (ErrText ''data dir is empty'')
      else if i = [] then Inl (ErrText ''command id is empty'')
      else Inr (joinPath (joinPath (cfDataDir c) ''commands'') i))"

definition MonitorRuntimeDir :: "Config \<Rightarrow> string \<Rightarrow> SvcErr + string" where
  "MonitorRuntimeDir c i =
     (if cfRuntimeDir c = [] then Inl (ErrText ''runtime dir is empty'')
      else if i = [] then Inl (ErrText ''command id is empty'')
      else Inr (joinPath (joinPath (cfRuntimeDir c) ''cmd'') i))"

definition commandContextEnvPrefixes :: "string list" where
  "commandContextEnvPrefixes = [''CMDMAN_DATA_DIR='', ''CMDMAN_RUNTIME_DIR='', ''CMDMAN_CMD_DATA_DIR='', ''CMDMAN_CMD_ID='', ''CMDMAN_CMD_NAME='']"

definition WithCommandContextEnv :: "string list \<Rightarrow> Config \<Rightarrow> string \<Rightarrow> string \<Rightarrow> string \<Rightarrow> string list" where
  "WithCommandContextEnv env cfg i name commandDir =
     filter (\<lambda>e. \<not> list_ex (hasPrefix e) commandContextEnvPrefixes) env @
     [''CMDMAN_DATA_DIR='' @ cfDataDir cfg, ''CMDMAN_RUNTIME_DIR='' @ cfRuntimeDir cfg,
      ''CMDMAN_CMD_DATA_DIR='' @ commandDir, ''CMDMAN_CMD_ID='' @ i, ''CMDMAN_CMD_NAME='' @ name]"

section \<open>Create and replace\<close>

text \<open>\<^verbatim>\<open>openStore\<close> and the best-effort \<^verbatim>\<open>emitEvent\<close>. A failing removal of a directory is ignored.\<close>

definition openStore :: "Host \<Rightarrow> World \<Rightarrow> (SvcErr + unit) \<times> World" where
  "openStore h = wrapR (ErrWrap ''open store'') (outside h)"

definition emitEvent :: "EventType \<Rightarrow> string \<Rightarrow> World \<Rightarrow> World" where
  "emitEvent ty i w = w\<lparr> wEmitted := wEmitted w @ [(ty, i)] \<rparr>"

definition WriteCommandConfig :: "Host \<Rightarrow> string \<Rightarrow> CommandConfig \<Rightarrow> World \<Rightarrow> (SvcErr + unit) \<times> World" where
  "WriteCommandConfig h dir cfg = bindR (outside h) (\<lambda>_ w. (Inr (), w\<lparr> wDirs := AList.update dir cfg (wDirs w) \<rparr>))"

definition removeDir :: "Host \<Rightarrow> string \<Rightarrow> World \<Rightarrow> World" where
  "removeDir h dir w =
     (case outside h w of
        (Inl _, w') \<Rightarrow> w'
      | (Inr _, w') \<Rightarrow> w'\<lparr> wDirs := AList.delete dir (wDirs w') \<rparr>)"

definition insertCommand :: "Host \<Rightarrow> string \<Rightarrow> string \<Rightarrow> CommandConfig \<Rightarrow> World \<Rightarrow> (SvcErr + unit) \<times> World" where
  "insertCommand h i name cfg =
     bindR (wrapR (ErrWrap ''insert config'') (InsertCommandConfig h i name cfg)) (\<lambda>_.
     bindR (wrapR (ErrWrap ''materialize config'') (WriteCommandConfig h (ccCommandDir cfg) cfg)) (\<lambda>_.
     wrapR (ErrWrap ''insert state'') (InsertCommandState h i EventTypeCreated zeroState)))"

definition swapCommand :: "Host \<Rightarrow> string \<Rightarrow> string \<Rightarrow> string \<Rightarrow> CommandConfig \<Rightarrow> CommandConfig \<Rightarrow> string \<Rightarrow> World \<Rightarrow> (SvcErr + unit) \<times> World" where
  "swapCommand h oldID i name cfg oldCfg oldRuntimeDir =
     bindR (wrapR (ErrWrap ''materialize config'') (WriteCommandConfig h (ccCommandDir cfg) cfg)) (\<lambda>_.
     tryR (ReplaceCommand h oldID i name cfg) (\<lambda>r w.
       case r of
         Inl e \<Rightarrow> (Inl (ErrWrap ''replace'' e), removeDir h (ccCommandDir cfg) w)
       | Inr _ \<Rightarrow>
           let w = (if ccCommandDir oldCfg \<noteq> [] then removeDir h (ccCommandDir oldCfg) w else w)
           in (Inr (), emitEvent EventTypeRemoved oldID (removeDir h oldRuntimeDir w))))"

definition replaceOrInsertCommand :: "Host \<Rightarrow> string \<Rightarrow> string \<Rightarrow> CommandConfig \<Rightarrow> World \<Rightarrow> (SvcErr + unit) \<times> World" where
  "replaceOrInsertCommand h i name cfg =
     tryR (ResolveIDByName h name) (\<lambda>r. case r of
       Inl e \<Rightarrow> if errorsIs e ErrNoRows then insertCommand h i name cfg else Pair (Inl (ErrWrap ''look up'' e))
     | Inr oldID \<Rightarrow>
         bindR (wrapR (ErrWrap ''get state'') (GetCommandState h oldID)) (\<lambda>s.
         if isLive (srState s) then Pair (Inl (ErrText ''stop it before replacing''))
         else bindR (wrapR (ErrWrap ''get config'') (GetCommandConfig h oldID)) (\<lambda>(_, _, oldCfg).
           case MonitorRuntimeDir (hoConfig h) oldID of
             Inl e \<Rightarrow> Pair (Inl e)
           | Inr rd \<Rightarrow> swapCommand h oldID i name cfg oldCfg rd)))"

definition storeCommand :: "Host \<Rightarrow> CreateRequest \<Rightarrow> string \<Rightarrow> CommandConfig \<Rightarrow> World \<Rightarrow> (SvcErr + string) \<times> World" where
  "storeCommand h req i cfg =
     bindR (openStore h) (\<lambda>_.
     bindR (if rqReplace req then replaceOrInsertCommand h i (rqName req) cfg else insertCommand h i (rqName req) cfg)
       (\<lambda>_ w. (Inr i, emitEvent EventTypeCreated i w)))"

text \<open>The configuration that is stored, or the error before anything is.\<close>

definition createConfig :: "Host \<Rightarrow> CreateRequest \<Rightarrow> string \<Rightarrow> SvcErr + CommandConfig" where
  "createConfig h req i =
     (if rqReplace req \<and> rqName req = [] then Inl (ErrText ''replace requires a name'')
      else let cfg = buildCommandConfig h req in
        bindE (ValidateCreate h cfg) (\<lambda>_.
        bindE (CommandDir (hoConfig h) i) (\<lambda>dir.
          let cfg = cfg\<lparr> ccCommandDir := dir \<rparr>;
              cfg = (if ccInjectEnv cfg then cfg\<lparr> ccEnv := WithCommandContextEnv (ccEnv cfg) (hoConfig h) i (rqName req) dir \<rparr> else cfg)
          in bindE (CommandConfig_Validate h cfg) (\<lambda>_. Inr cfg))))"

definition Create :: "Host \<Rightarrow> CreateRequest \<Rightarrow> World \<Rightarrow> (SvcErr + string) \<times> World" where
  "Create h req w =
     (let i = hoID h (wTick w)
      in case createConfig h req i of Inl e \<Rightarrow> (Inl e, w) | Inr cfg \<Rightarrow> storeCommand h req i cfg w)"

section \<open>Dead monitors and listing (mon_clean.go, cmdman_list.go)\<close>

definition monitorDiedError :: string where "monitorDiedError = ''monitor died unexpectedly''"

definition DiedUnexpectedly :: "CommandState \<Rightarrow> bool" where
  "DiedUnexpectedly js \<longleftrightarrow> csError js = monitorDiedError"

definition autoRemoveDirs :: "Host \<Rightarrow> string \<Rightarrow> CommandConfig \<Rightarrow> World \<Rightarrow> World" where
  "autoRemoveDirs h i cfg w =
     (let w = removeDir h (ccCommandDir cfg) w
      in case MonitorRuntimeDir (hoConfig h) i of Inl _ \<Rightarrow> w | Inr d \<Rightarrow> removeDir h d w)"

definition MarkMonitorDied :: "Host \<Rightarrow> string \<Rightarrow> CommandState \<Rightarrow> CommandConfig \<Rightarrow> World \<Rightarrow> (SvcErr + unit) \<times> World" where
  "MarkMonitorDied h i js cfg =
     bindR (UpdateCommandState h i EventTypeFailed None (js\<lparr> csError := monitorDiedError \<rparr>)) (\<lambda>_.
     if \<not> autoRemoves cfg then Pair (Inr ())
     else bindR (DeleteCommand h i) (\<lambda>_ w. (Inr (), autoRemoveDirs h i cfg w)))"

definition isStaleMonitor :: "Host \<Rightarrow> string \<Rightarrow> World \<Rightarrow> (string + bool) \<times> World" where
  "isStaleMonitor h i w = (hoStale h (wTick w) i, snd (outside h w))"

definition cleanStaleEntry :: "Host \<Rightarrow> string \<Rightarrow> EventType \<Rightarrow> CommandConfig \<Rightarrow> World \<Rightarrow> (SvcErr + unit) \<times> World" where
  "cleanStaleEntry h i s cfg =
     (if \<not> isLive s then Pair (Inr ())
      else tryR (isStaleMonitor h i) (\<lambda>stale.
        if stale \<noteq> Inr True then Pair (Inr ())
        else tryR (GetCommandState h i) (\<lambda>r. case r of
          Inl e \<Rightarrow> Pair (if errorsIs e ErrNoRows then Inr () else Inl (ErrWrap ''get command state'' e))
        | Inr row \<Rightarrow> if \<not> isLive (srState row) then Pair (Inr ()) else MarkMonitorDied h i (srJSON row) cfg)))"

fun cleanEntries :: "Host \<Rightarrow> CommandEntry list \<Rightarrow> World \<Rightarrow> (SvcErr + unit) \<times> World" where
  "cleanEntries h [] = Pair (Inr ())"
| "cleanEntries h (e # es) =
     bindR (cleanStaleEntry h (enID e) (enState e) (the (enConfigJSON e))) (\<lambda>_. cleanEntries h es)"

definition CleanStaleEntries :: "Host \<Rightarrow> World \<Rightarrow> (SvcErr + unit) \<times> World" where
  "CleanStaleEntries h = bindR (ListCommands h True []) (cleanEntries h)"

definition Service_List :: "Host \<Rightarrow> bool \<Rightarrow> (string, string) gomap \<Rightarrow> World \<Rightarrow> (SvcErr + CommandEntry list) \<times> World" where
  "Service_List h allStates labels =
     bindR (openStore h) (\<lambda>_.
     bindR (wrapR (ErrWrap ''clean stale entries'') (CleanStaleEntries h)) (\<lambda>_.
     wrapR (ErrWrap ''list commands'') (ListCommands h allStates labels)))"

section \<open>Stop (cmdman_stop.go)\<close>

definition wrapInt64 :: "int \<Rightarrow> int" where
  "wrapInt64 x = (let p = x mod 2 ^ 64 in if p > maxInt64 then p - 2 ^ 64 else p)"

definition defaultStopTimeout :: int where "defaultStopTimeout = 10 * secondNs"

definition checkStopTimeout :: "int option \<Rightarrow> SvcErr + unit" where
  "checkStopTimeout timeout =
     (case timeout of Some t \<Rightarrow> if t \<le> 0 then Inl (ErrText ''stop timeout must be positive'') else Inr () | None \<Rightarrow> Inr ())"

definition stopTimeout :: "int option \<Rightarrow> CommandConfig \<Rightarrow> int" where
  "stopTimeout override cfg =
     (case override of
        Some t \<Rightarrow> t
      | None \<Rightarrow> (case ccStopTimeout cfg of Some t \<Rightarrow> if t > 0 then t else defaultStopTimeout | None \<Rightarrow> defaultStopTimeout))"

definition stopWait :: "int \<Rightarrow> CommandConfig \<Rightarrow> int" where
  "stopWait timeout cfg = (if ccStopCommand cfg \<noteq> None then wrapInt64 (2 * timeout) else timeout)"

definition hasEnded :: "EventType \<Rightarrow> bool" where
  "hasEnded s \<longleftrightarrow> s = EventTypeExited \<or> s = EventTypeFailed"

text \<open>The loop of \<^verbatim>\<open>waitForStopped\<close>, which ends with its deadline or its context after the given
  number of polls.\<close>

primrec pollStopped :: "Host \<Rightarrow> string \<Rightarrow> nat \<Rightarrow> World \<Rightarrow> (SvcErr + unit) \<times> World" where
  "pollStopped h i 0 = tryR (GetCommandState h i) (\<lambda>r w. case r of
     Inl e \<Rightarrow> (if errorsIs e ErrNoRows then Inr () else Inl e, w)
   | Inr s \<Rightarrow> (if hasEnded (srState s) then Inr () else Inl (if wDone w then ErrCanceled else ErrDeadline), w))"
| "pollStopped h i (Suc n) = tryR (GetCommandState h i) (\<lambda>r. case r of
     Inl e \<Rightarrow> Pair (if errorsIs e ErrNoRows then Inr () else Inl e)
   | Inr s \<Rightarrow> if hasEnded (srState s) then Pair (Inr ()) else pollStopped h i n)"

definition waitForStopped :: "Host \<Rightarrow> string \<Rightarrow> int \<Rightarrow> World \<Rightarrow> (SvcErr + unit) \<times> World" where
  "waitForStopped h i timeout w = pollStopped h i (hoPolls h (wTick w) timeout) w"

definition recordedForceKill :: "Host \<Rightarrow> string \<Rightarrow> World \<Rightarrow> bool \<times> World" where
  "recordedForceKill h i = tryR (GetCommandState h i) (\<lambda>r. Pair (case r of Inl _ \<Rightarrow> False | Inr s \<Rightarrow> csForceKilled (srJSON s)))"

definition isMonitorUnavailable :: "SvcErr \<Rightarrow> bool" where
  "isMonitorUnavailable e \<longleftrightarrow> errorsIs e ErrUnavailable"

text \<open>The stop request of a monitor: its signal, and its timeout in nanoseconds, zero for none.\<close>

definition rpcStop :: "Host \<Rightarrow> string \<Rightarrow> int \<Rightarrow> int \<Rightarrow> World \<Rightarrow> (SvcErr + unit) \<times> World" where
  "rpcStop h i sig timeout w =
     (let w' = snd (outside h w)
      in case hoRPC h (wTick w) of
           Some RPCUnavailable \<Rightarrow> (Inl ErrUnavailable, w')
         | Some (RPCFailed e) \<Rightarrow> (Inl (ErrFault e), w')
         | None \<Rightarrow> (Inr (), w'\<lparr> wStops := wStops w' @ [(i, sig, if timeout > 0 then timeout else 0)] \<rparr>))"

definition sendStop :: "Host \<Rightarrow> string \<Rightarrow> int \<Rightarrow> int \<Rightarrow> World \<Rightarrow> (SvcErr + unit) \<times> World" where
  "sendStop h i sig timeout =
     bindR (GetCommandState h i) (\<lambda>s.
     if csSocketPath (srJSON s) = [] then Pair (Inl (ErrWrap i (ErrText ''no socket path for command'')))
     else rpcStop h i sig timeout)"

definition settleUnreachableMonitor ::
    "Host \<Rightarrow> string \<Rightarrow> CommandConfig \<Rightarrow> SvcErr option \<Rightarrow> World \<Rightarrow> (bool \<times> SvcErr option) \<times> World" where
  "settleUnreachableMonitor h i cfg retErr =
     tryR (GetCommandState h i) (\<lambda>r. case r of
       Inl e \<Rightarrow> Pair (False, if errorsIs e ErrNoRows then None else errorsJoin [retErr, Some (ErrWrap ''get command state'' e)])
     | Inr s \<Rightarrow>
         if DiedUnexpectedly (srJSON s) then Pair (True, retErr)
         else if hasEnded (srState s) then Pair (False, None)
         else tryR (MarkMonitorDied h i (srJSON s) cfg) (\<lambda>m.
           Pair (True, case m of Inl e \<Rightarrow> errorsJoin [retErr, Some e] | Inr _ \<Rightarrow> retErr)))"

definition killSignal :: "Host \<Rightarrow> int" where
  "killSignal h = (case ParseSignal (hoSignalName h) (hoSignalNum h) ''SIGKILL'' of Inr (sig, _) \<Rightarrow> sig | Inl _ \<Rightarrow> 0)"

text \<open>The second half: the stop signal went out and the first wait ran into its deadline.\<close>

definition escalateStop ::
    "Host \<Rightarrow> string \<Rightarrow> CommandConfig \<Rightarrow> int \<Rightarrow> World \<Rightarrow> (bool \<times> bool \<times> SvcErr option) \<times> World" where
  "escalateStop h i cfg wait =
     tryR (sendStop h i (killSignal h) 0) (\<lambda>r. case r of
       Inl e \<Rightarrow>
         if errorsIs e ErrNoRows then Pair (False, False, None)
         else let killErr = ErrWrap ''timeout waiting for stop, and SIGKILL failed'' e
         in if isMonitorUnavailable e then
              tryR (settleUnreachableMonitor h i cfg (Some killErr)) (\<lambda>(died, err).
                if died \<or> err \<noteq> None then Pair (died, False, err)
                else tryR (recordedForceKill h i) (\<lambda>k. Pair (False, k, None)))
            else Pair (False, False, Some killErr)
     | Inr _ \<Rightarrow>
         tryR (waitForStopped h i wait) (\<lambda>r. case r of
           Inl e \<Rightarrow> Pair (False, False, Some (ErrWrap ''timeout waiting for stop after SIGKILL'' e))
         | Inr _ \<Rightarrow> tryR (recordedForceKill h i) (\<lambda>k. Pair (False, k, None))))"

definition effectiveSignal :: "string \<Rightarrow> CommandConfig \<Rightarrow> string" where
  "effectiveSignal override cfg =
     (let s = (if override \<noteq> [] then override else ccStopSignal cfg) in if s = [] then ''SIGTERM'' else s)"

definition stopLive ::
    "Host \<Rightarrow> string \<Rightarrow> CommandConfig \<Rightarrow> int \<Rightarrow> int \<Rightarrow> World \<Rightarrow> (bool \<times> bool \<times> SvcErr option) \<times> World" where
  "stopLive h i cfg sig timeout =
     tryR (\<lambda>w. sendStop h i sig timeout (emitEvent EventTypeStopped i w)) (\<lambda>r. case r of
       Inl e \<Rightarrow>
         if isMonitorUnavailable e then
           tryR (settleUnreachableMonitor h i cfg None) (\<lambda>(died, err). Pair (died, False, err))
         else Pair (False, False, Some e)
     | Inr _ \<Rightarrow>
         tryR (waitForStopped h i (stopWait timeout cfg)) (\<lambda>r. case r of
           Inr _ \<Rightarrow> tryR (recordedForceKill h i) (\<lambda>k. Pair (False, k, None))
         | Inl e \<Rightarrow>
             if errorsIs e ErrDeadline then escalateStop h i cfg (stopWait timeout cfg)
             else Pair (False, False, Some e)))"

definition stopReportingUnreachable ::
    "Host \<Rightarrow> string \<Rightarrow> string \<Rightarrow> int option \<Rightarrow> World \<Rightarrow> (bool \<times> bool \<times> SvcErr option) \<times> World" where
  "stopReportingUnreachable h i signalOverride timeoutOverride =
     tryR (GetCommandState h i) (\<lambda>r. case r of
       Inl e \<Rightarrow> Pair (False, False, if errorsIs e ErrNoRows then None else Some (ErrWrap ''get command state'' e))
     | Inr s \<Rightarrow>
         if hasEnded (srState s) then Pair (False, False, None)
         else tryR (GetCommandConfig h i) (\<lambda>r. case r of
           Inl e \<Rightarrow> Pair (False, False, Some (ErrWrap ''get command config'' e))
         | Inr (_, _, cfg) \<Rightarrow>
             (case ParseSignal (hoSignalName h) (hoSignalNum h) (effectiveSignal signalOverride cfg) of
                Inl _ \<Rightarrow> Pair (False, False, Some (ErrText ''invalid signal''))
              | Inr (sig, _) \<Rightarrow> stopLive h i cfg sig (stopTimeout timeoutOverride cfg))))"

definition stop :: "Host \<Rightarrow> string \<Rightarrow> string \<Rightarrow> int option \<Rightarrow> World \<Rightarrow> (bool \<times> SvcErr option) \<times> World" where
  "stop h i sig timeout = tryR (stopReportingUnreachable h i sig timeout) (\<lambda>(_, k, err). Pair (k, err))"

fun resolveAll :: "Host \<Rightarrow> string list \<Rightarrow> World \<Rightarrow> (SvcErr + string list) \<times> World" where
  "resolveAll h [] = Pair (Inr [])"
| "resolveAll h (a # as) =
     bindR (wrapR (ErrWrap ''resolve'') (ResolveID h a)) (\<lambda>i. bindR (resolveAll h as) (\<lambda>is. Pair (Inr (i # is))))"

definition resolveTargetIDs :: "Host \<Rightarrow> string list \<Rightarrow> (string, string) gomap \<Rightarrow> World \<Rightarrow> (SvcErr + string list) \<times> World" where
  "resolveTargetIDs h args labels =
     bindR (resolveAll h args) (\<lambda>ids.
     bindR (if labels = [] then Pair (Inr []) else wrapR (ErrWrap ''find by labels'') (FindByLabels h labels)) (\<lambda>more.
     Pair (if ids @ more = [] then Inl (ErrText ''no commands specified'') else Inr (ids @ more))))"

fun stopEach :: "Host \<Rightarrow> string \<Rightarrow> int option \<Rightarrow> string list \<Rightarrow> World \<Rightarrow> (string \<times> bool \<times> SvcErr option) list \<times> World" where
  "stopEach h sig timeout [] = Pair []"
| "stopEach h sig timeout (i # is) =
     tryR (stop h i sig timeout) (\<lambda>r. tryR (stopEach h sig timeout is) (\<lambda>rs. Pair ((i, r) # rs)))"

definition Service_Stop ::
    "Host \<Rightarrow> string list \<Rightarrow> string \<Rightarrow> int option \<Rightarrow> World \<Rightarrow> (SvcErr + (string \<times> bool \<times> SvcErr option) list) \<times> World" where
  "Service_Stop h targets sig timeout =
     (case checkStopTimeout timeout of
        Inl e \<Rightarrow> Pair (Inl e)
      | Inr _ \<Rightarrow>
          bindR (openStore h) (\<lambda>_.
          bindR (resolveTargetIDs h targets []) (\<lambda>ids. tryR (stopEach h sig timeout ids) (\<lambda>rs. Pair (Inr rs)))))"

section \<open>Remove (cmdman_remove.go)\<close>

definition stopForRemoval :: "Host \<Rightarrow> string \<Rightarrow> int \<Rightarrow> World \<Rightarrow> (SvcErr + unit) \<times> World" where
  "stopForRemoval h i monitorPID =
     tryR (stopReportingUnreachable h i [] None) (\<lambda>(unreachable, _, err) w.
       if wDone w then (Inl (ErrWrap ''stop'' ErrCanceled), w)
       else if err = None \<and> \<not> unreachable then (Inr (), w)
       else if monitorPID > 0 then (Inr (), w\<lparr> wKilled := wKilled w @ [monitorPID] \<rparr>)
       else (Inr (), w))"

definition rmOne :: "Host \<Rightarrow> string \<Rightarrow> bool \<Rightarrow> World \<Rightarrow> (SvcErr + unit) \<times> World" where
  "rmOne h i force =
     bindR (tryR (GetCommandState h i) (\<lambda>r. Pair (case r of
         Inl e \<Rightarrow> if errorsIs e ErrNoRows then Inr (EventTypeCreated, zeroState) else Inl e
       | Inr s \<Rightarrow> Inr (srState s, srJSON s)))) (\<lambda>(state, js).
     bindR (GetCommandConfig h i) (\<lambda>(_, _, cfg).
     bindR (if isLive state then (if \<not> force then Pair (Inl (ErrText ''use --force to remove'')) else stopForRemoval h i (csMonitorPID js))
            else Pair (Inr ())) (\<lambda>_.
     bindR (wrapR (ErrWrap ''delete from db'') (DeleteCommand h i)) (\<lambda>_ w.
       let w = (if ccCommandDir cfg \<noteq> [] then removeDir h (ccCommandDir cfg) w else w)
       in case MonitorRuntimeDir (hoConfig h) i of Inl e \<Rightarrow> (Inl e, w) | Inr d \<Rightarrow> (Inr (), removeDir h d w)))))"

fun rmEach :: "Host \<Rightarrow> bool \<Rightarrow> string list \<Rightarrow> World \<Rightarrow> (string \<times> SvcErr option) list \<times> World" where
  "rmEach h force [] = Pair []"
| "rmEach h force (i # is) =
     tryR (rmOne h i force) (\<lambda>r w. case r of
         Inl e \<Rightarrow> tryR (rmEach h force is) (\<lambda>rs. Pair ((i, Some e) # rs)) w
       | Inr _ \<Rightarrow> tryR (rmEach h force is) (\<lambda>rs. Pair ((i, None) # rs)) (emitEvent EventTypeRemoved i w))"

definition Service_Remove ::
    "Host \<Rightarrow> string list \<Rightarrow> (string, string) gomap \<Rightarrow> bool \<Rightarrow> World \<Rightarrow> (SvcErr + (string \<times> SvcErr option) list) \<times> World" where
  "Service_Remove h targets labels force =
     bindR (openStore h) (\<lambda>_.
     bindR (resolveTargetIDs h targets labels) (\<lambda>ids. tryR (rmEach h force ids) (\<lambda>rs. Pair (Inr rs))))"

section \<open>Start and restart (cmdman_start.go, cmdman_restart.go, mon_spawn.go)\<close>

text \<open>A monitor that was spawned writes the row of its command.\<close>

definition SpawnMonitor :: "Host \<Rightarrow> string \<Rightarrow> World \<Rightarrow> (SvcErr + unit) \<times> World" where
  "SpawnMonitor h i w =
     bindR (outside h) (\<lambda>_ w'. (Inr (), w'\<lparr> wStore := (wStore w')\<lparr> dbState := amodify i (hoSpawned h (wTick w) i) (dbState (wStore w')) \<rparr> \<rparr>)) w"

primrec waitState ::
    "Host \<Rightarrow> string \<Rightarrow> EventType \<Rightarrow> EventType \<Rightarrow> int \<Rightarrow> bool \<Rightarrow> nat \<Rightarrow> World \<Rightarrow> (EventType \<times> SvcErr option) \<times> World" where
  "waitState h i desired since pid progressed 0 =
     tryR (GetCommandState h i) (\<lambda>r. Pair (case r of Inl _ \<Rightarrow> EventTypeNone | Inr s \<Rightarrow> srState s, Some (ErrText ''timeout waiting for state'')))"
| "waitState h i desired since pid progressed (Suc n) =
     tryR (GetCommandState h i) (\<lambda>r. case r of
       Inl e \<Rightarrow> Pair (EventTypeNone, Some e)
     | Inr s \<Rightarrow>
         let progressed = (progressed \<or> srState s \<noteq> since \<or> csMonitorPID (srJSON s) \<noteq> pid)
         in if srState s = desired then Pair (srState s, None)
            else if progressed \<and> srState s = EventTypeFailed then Pair (srState s, Some (ErrText ''monitor entered failed state''))
            else if progressed \<and> srState s = EventTypeExited then Pair (srState s, None)
            else waitState h i desired since pid progressed n)"

definition WaitForState ::
    "Host \<Rightarrow> string \<Rightarrow> EventType \<Rightarrow> EventType \<times> int \<Rightarrow> nat \<Rightarrow> World \<Rightarrow> (EventType \<times> SvcErr option) \<times> World" where
  "WaitForState h i desired since maxAttempts = waitState h i desired (fst since) (snd since) False maxAttempts"

definition startCommand :: "Host \<Rightarrow> string \<Rightarrow> CommandConfig \<Rightarrow> World \<Rightarrow> (SvcErr + unit) \<times> World" where
  "startCommand h i cfg =
     bindR (Pair (wrapE (ErrWrap ''get command config'') (CommandConfig_Validate h cfg))) (\<lambda>_.
     bindR (wrapR (ErrWrap ''get command state'') (GetCommandState h i)) (\<lambda>s.
     if srState s \<notin> {EventTypeCreated, EventTypeExited, EventTypeFailed} then Pair (Inl (ErrText ''wrong state''))
     else bindR (wrapR (ErrWrap ''spawn monitor'') (SpawnMonitor h i)) (\<lambda>_.
       tryR (WaitForState h i EventTypeRunning (srState s, csMonitorPID (srJSON s)) 100) (\<lambda>(final, err).
         Pair (case err of
           None \<Rightarrow> Inr ()
         | Some e \<Rightarrow> if errorsIs e ErrNoRows \<or> final = EventTypeExited then Inr () else Inl (ErrWrap ''start'' e))))))"

definition Start :: "Host \<Rightarrow> string \<Rightarrow> World \<Rightarrow> (SvcErr + unit) \<times> World" where
  "Start h idOrName =
     bindR (openStore h) (\<lambda>_.
     bindR (wrapR (ErrWrap ''get command config'') (GetCommandConfig h idOrName)) (\<lambda>(i, _, cfg). startCommand h i cfg))"

definition restartOne :: "Host \<Rightarrow> string \<Rightarrow> string \<Rightarrow> int option \<Rightarrow> World \<Rightarrow> (bool \<times> SvcErr option) \<times> World" where
  "restartOne h i sig timeout =
     tryR (GetCommandState h i) (\<lambda>r. case r of
       Inl e \<Rightarrow> Pair (False, Some (ErrWrap ''get command state'' e))
     | Inr s \<Rightarrow>
         tryR (if isLive (srState s) then stop h i sig timeout else Pair (False, None)) (\<lambda>(k, err). case err of
           Some e \<Rightarrow> Pair (k, Some (ErrWrap ''stop'' e))
         | None \<Rightarrow> tryR (Start h i) (\<lambda>r. Pair (k, case r of Inl e \<Rightarrow> Some (ErrWrap ''start'' e) | Inr _ \<Rightarrow> None))))"

fun restartEach :: "Host \<Rightarrow> string \<Rightarrow> int option \<Rightarrow> string list \<Rightarrow> World \<Rightarrow> (string \<times> bool \<times> SvcErr option) list \<times> World" where
  "restartEach h sig timeout [] = Pair []"
| "restartEach h sig timeout (i # is) =
     tryR (restartOne h i sig timeout) (\<lambda>r. tryR (restartEach h sig timeout is) (\<lambda>rs. Pair ((i, r) # rs)))"

definition Service_Restart ::
    "Host \<Rightarrow> string list \<Rightarrow> string \<Rightarrow> int option \<Rightarrow> World \<Rightarrow> (SvcErr + (string \<times> bool \<times> SvcErr option) list) \<times> World" where
  "Service_Restart h targets sig timeout =
     (case checkStopTimeout timeout of
        Inl e \<Rightarrow> Pair (Inl e)
      | Inr _ \<Rightarrow>
          bindR (openStore h) (\<lambda>_.
          bindR (resolveTargetIDs h targets []) (\<lambda>ids. tryR (restartEach h sig timeout ids) (\<lambda>rs. Pair (Inr rs)))))"

section \<open>Wait (cmdman_wait.go)\<close>

definition validWaitCondition :: "EventType \<Rightarrow> bool" where
  "validWaitCondition c \<longleftrightarrow> c \<in> {EventTypeStopped, EventTypeCreated, EventTypeStarting, EventTypeRunning, EventTypeExited, EventTypeFailed}"

definition matchesWaitCondition :: "EventType \<Rightarrow> EventType \<Rightarrow> bool" where
  "matchesWaitCondition state condition \<longleftrightarrow> (if condition = EventTypeStopped then hasEnded state else state = condition)"

text \<open>The loop ends with its context after the given number of polls at the latest.\<close>

primrec pollCondition :: "Host \<Rightarrow> string \<Rightarrow> EventType \<Rightarrow> nat \<Rightarrow> World \<Rightarrow> (int option \<times> SvcErr option) \<times> World" where
  "pollCondition h i c 0 = tryR (GetCommandState h i) (\<lambda>r w. case r of
     Inl e \<Rightarrow> ((None, if errorsIs e ErrNoRows then None else Some e), w)
   | Inr s \<Rightarrow> if matchesWaitCondition (srState s) c then ((srExitCode s, None), w)
              else ((srExitCode s, Some ErrCanceled), w\<lparr> wDone := True \<rparr>))"
| "pollCondition h i c (Suc n) = tryR (GetCommandState h i) (\<lambda>r. case r of
     Inl e \<Rightarrow> Pair (None, if errorsIs e ErrNoRows then None else Some e)
   | Inr s \<Rightarrow> if matchesWaitCondition (srState s) c then Pair (srExitCode s, None) else pollCondition h i c n)"

definition waitForCondition :: "Host \<Rightarrow> string \<Rightarrow> EventType \<Rightarrow> int \<Rightarrow> World \<Rightarrow> (int option \<times> SvcErr option) \<times> World" where
  "waitForCondition h i c interval w = pollCondition h i c (hoPolls h (wTick w) interval) w"

record WaitResult =
  wrID :: string
  wrExitCode :: "int option"
  wrErr :: "SvcErr option"

fun waitEach :: "Host \<Rightarrow> EventType \<Rightarrow> int \<Rightarrow> bool \<Rightarrow> string list \<Rightarrow> World \<Rightarrow> WaitResult list \<times> World" where
  "waitEach h c interval ignoring [] = Pair []"
| "waitEach h c interval ignoring (t # ts) =
     tryR (ResolveID h t) (\<lambda>r. case r of
       Inl e \<Rightarrow> tryR (waitEach h c interval ignoring ts) (\<lambda>rs.
         Pair (if ignoring then rs else \<lparr> wrID = t, wrExitCode = None, wrErr = Some (ErrWrap ''resolve'' e) \<rparr> # rs))
     | Inr i \<Rightarrow> tryR (waitForCondition h i c interval) (\<lambda>(ec, err).
         tryR (waitEach h c interval ignoring ts) (\<lambda>rs. Pair (\<lparr> wrID = i, wrExitCode = ec, wrErr = err \<rparr> # rs))))"

definition Wait ::
    "Host \<Rightarrow> string list \<Rightarrow> EventType \<Rightarrow> int \<Rightarrow> bool \<Rightarrow> World \<Rightarrow> (SvcErr + WaitResult list) \<times> World" where
  "Wait h targets condition interval ignoring =
     (let c = (if condition = EventTypeNone then EventTypeStopped else condition);
          interval = (if interval \<le> 0 then 250 * 1000000 else interval)
      in if \<not> validWaitCondition c then Pair (Inl (ErrText ''invalid wait condition''))
         else bindR (openStore h) (\<lambda>_. tryR (waitEach h c interval ignoring targets) (\<lambda>rs. Pair (Inr rs))))"

end
