(* ===== verification/Compose_Graph.thy ===== *)
theory Compose_Graph
  imports Compose_Spec
begin

text \<open>
  Dependency graph validation and topological layering
  (cmdman/compose/graph.go): \<^verbatim>\<open>ValidateDAG\<close>, Kahn's algorithm \<^verbatim>\<open>topoLayers\<close> and the
  cycle report \<^verbatim>\<open>detectCycle\<close>. The in-degree and dependents maps are functions
  with Go's zero value for a missing key. The theorems show that a layering puts
  every command once, after its dependencies, and that validation accepts exactly
  the closed acyclic graphs.
\<close>

section \<open>Definitions\<close>

datatype GraphErr =
    UnknownDependency string string  \<comment> \<open>command, dependency\<close>
  | DependencyCycle "string list"    \<comment> \<open>commands involved\<close>

text \<open>The first loop of \<^verbatim>\<open>topoLayers\<close> over the \<open>after\<close> entries of one command.\<close>

fun countDeps ::
  "string set \<Rightarrow> string \<Rightarrow> AfterSpec list \<Rightarrow> (string \<Rightarrow> int) \<Rightarrow> (string \<Rightarrow> string list)
     \<Rightarrow> GraphErr + (string \<Rightarrow> int) \<times> (string \<Rightarrow> string list)" where
  "countDeps names c [] inDegree dependents = Inr (inDegree, dependents)"
| "countDeps names c (dep # deps) inDegree dependents =
     (if asName dep \<notin> names then Inl (UnknownDependency c (asName dep))
      else countDeps names c deps
             (inDegree(c := inDegree c + 1))
             (dependents(asName dep := dependents (asName dep) @ [c])))"

fun countAllDeps ::
  "string set \<Rightarrow> Command list \<Rightarrow> (string \<Rightarrow> int) \<Rightarrow> (string \<Rightarrow> string list)
     \<Rightarrow> GraphErr + (string \<Rightarrow> int) \<times> (string \<Rightarrow> string list)" where
  "countAllDeps names [] inDegree dependents = Inr (inDegree, dependents)"
| "countAllDeps names (c # cs) inDegree dependents =
     (case countDeps names (cName c) (cAfter c) inDegree dependents of
        Inl e \<Rightarrow> Inl e
      | Inr (inDegree', dependents') \<Rightarrow> countAllDeps names cs inDegree' dependents')"

definition detectCycle :: "Command list \<Rightarrow> (string \<Rightarrow> int) \<Rightarrow> string list" where
  "detectCycle cs inDegree =
     sort (map cName (filter (\<lambda>c. inDegree (cName c) > 0) cs))"

text \<open>The last loop of a round: take one command of the layer out of the graph.\<close>

definition removeName ::
  "(string \<Rightarrow> string list) \<Rightarrow> string \<Rightarrow> (string \<Rightarrow> int) \<times> int \<Rightarrow> (string \<Rightarrow> int) \<times> int" where
  "removeName dependents name = (\<lambda>(inDegree, remaining).
     (fold (\<lambda>d f. f(d := f d - 1)) (dependents name) (inDegree(name := -1)), remaining - 1))"

definition freeNames :: "Command list \<Rightarrow> (string \<Rightarrow> int) \<Rightarrow> string list" where
  "freeNames cs inDegree = map cName (filter (\<lambda>c. inDegree (cName c) = 0) cs)"

lemma fold_removeName_remaining:
  "snd (fold (removeName dependents) layer (inDegree, remaining)) = remaining - int (length layer)"
  by (induction layer arbitrary: inDegree remaining) (simp_all add: removeName_def)

function topoLoop ::
  "Command list \<Rightarrow> (string \<Rightarrow> string list) \<Rightarrow> (string \<Rightarrow> int) \<Rightarrow> int \<Rightarrow> string list list
     \<Rightarrow> GraphErr + string list list" where
  "topoLoop cs dependents inDegree remaining layers =
     (if remaining > 0 then
        let layer = freeNames cs inDegree in
        if layer = [] then Inl (DependencyCycle (detectCycle cs inDegree))
        else
          let layer' = sort layer;
              r = fold (removeName dependents) layer' (inDegree, remaining)
          in topoLoop cs dependents (fst r) (snd r) (layers @ [layer'])
      else Inr layers)"
  by pat_completeness auto
termination
  by (relation "measure (\<lambda>(cs, dependents, inDegree, remaining, layers). nat remaining)")
    (auto simp: fold_removeName_remaining)

declare topoLoop.simps [simp del]

definition topoLayers :: "Command list \<Rightarrow> GraphErr + string list list" where
  "topoLayers cs =
     (if cs = [] then Inr []
      else
        case countAllDeps (set (map cName cs)) cs (\<lambda>_. 0) (\<lambda>_. []) of
          Inl e \<Rightarrow> Inl e
        | Inr (inDegree, dependents) \<Rightarrow>
            topoLoop cs dependents inDegree (int (length cs)) [])"

definition TopoLayers :: "Command list \<Rightarrow> GraphErr + string list list" where
  "TopoLayers cs = topoLayers cs"

definition checkKnown :: "string set \<Rightarrow> Command \<Rightarrow> GraphErr + unit" where
  "checkKnown names c =
     first_err (\<lambda>dep. if asName dep \<in> names then Inr ()
                       else Inl (UnknownDependency (cName c) (asName dep))) (cAfter c)"

definition ValidateDAG :: "Command list \<Rightarrow> GraphErr + unit" where
  "ValidateDAG cs =
     (case first_err (checkKnown (set (map cName cs))) cs of
        Inl e \<Rightarrow> Inl e
      | Inr _ \<Rightarrow> (case topoLayers cs of Inl e \<Rightarrow> Inl e | Inr _ \<Rightarrow> Inr ()))"

section \<open>The dependency counts\<close>

definition closed_deps :: "Command list \<Rightarrow> bool" where
  "closed_deps cs \<longleftrightarrow> (\<forall>c \<in> set cs. \<forall>a \<in> set (cAfter c). asName a \<in> set (map cName cs))"

lemma countDeps_ok:
  "(\<forall>a \<in> set deps. asName a \<in> names) \<Longrightarrow>
   countDeps names c deps f g =
     Inr (f(c := f c + int (length deps)),
          \<lambda>n. g n @ replicate (length (filter (\<lambda>a. asName a = n) deps)) c)"
proof (induction deps arbitrary: f g)
  case (Cons d deps)
  then show ?case
    by (auto simp: fun_eq_iff replicate_append_same[symmetric])
qed (simp add: fun_upd_idem)

lemma countDeps_unknown:
  "\<not> (\<forall>a \<in> set deps. asName a \<in> names) \<Longrightarrow> \<exists>d. countDeps names c deps f g = Inl (UnknownDependency c d)"
  by (induction deps arbitrary: f g) auto

definition dependents_of :: "Command list \<Rightarrow> string \<Rightarrow> string list" where
  "dependents_of cs n =
     concat (map (\<lambda>c. replicate (length (filter (\<lambda>a. asName a = n) (cAfter c))) (cName c)) cs)"

lemma countAllDeps_ok:
  assumes "\<forall>c \<in> set cs. \<forall>a \<in> set (cAfter c). asName a \<in> names" and "distinct (map cName cs)"
  shows "countAllDeps names cs f g =
     Inr (\<lambda>n. f n + (\<Sum>c\<leftarrow>cs. if cName c = n then int (length (cAfter c)) else 0),
          \<lambda>n. g n @ dependents_of cs n)"
  using assms
proof (induction cs arbitrary: f g)
  case Nil
  then show ?case by (simp add: dependents_of_def)
next
  case (Cons c cs)
  then show ?case
    by (simp add: countDeps_ok dependents_of_def) (auto simp: fun_eq_iff)
qed

lemma countAllDeps_unknown:
  assumes "\<not> (\<forall>c \<in> set cs. \<forall>a \<in> set (cAfter c). asName a \<in> names)"
  shows "\<exists>c d. countAllDeps names cs f g = Inl (UnknownDependency c d)"
  using assms
proof (induction cs arbitrary: f g)
  case (Cons c cs)
  show ?case
  proof (cases "\<forall>a \<in> set (cAfter c). asName a \<in> names")
    case True
    with Cons show ?thesis by (simp add: countDeps_ok)
  next
    case False
    then obtain d where "countDeps names (cName c) (cAfter c) f g = Inl (UnknownDependency (cName c) d)"
      using countDeps_unknown by blast
    then show ?thesis by simp
  qed
qed simp

lemma sum_single_name:
  assumes "distinct (map cName cs)" and "c \<in> set cs"
  shows "(\<Sum>x\<leftarrow>cs. if cName x = cName c then (h x :: int) else 0) = h c"
  using assms
proof (induction cs)
  case (Cons d cs)
  show ?case
  proof (cases "c = d")
    case True
    with Cons.prems have "\<forall>x \<in> set cs. cName x \<noteq> cName c" by (auto simp: image_iff)
    then have "(\<Sum>x\<leftarrow>cs. if cName x = cName c then h x else 0) = 0"
      by (induction cs) auto
    with True show ?thesis by simp
  next
    case False
    with Cons have "cName d \<noteq> cName c" by (auto simp: image_iff)
    with False Cons show ?thesis by auto
  qed
qed simp

lemma count_dependents_of:
  assumes "distinct (map cName cs)" and "c \<in> set cs"
  shows "count_list (dependents_of cs n) (cName c) = length (filter (\<lambda>a. asName a = n) (cAfter c))"
proof -
  have "int (count_list (dependents_of xs n) m) =
          (\<Sum>x\<leftarrow>xs. if cName x = m then int (length (filter (\<lambda>a. asName a = n) (cAfter x))) else 0)" for xs m
  proof (induction xs)
    case (Cons x xs)
    have "count_list (replicate k y) m = (if y = m then k else 0)" for k y
      by (induction k) auto
    with Cons show ?case by (simp add: dependents_of_def)
  qed (simp add: dependents_of_def)
  from this [of cs "cName c"] show ?thesis
    by (simp add: sum_single_name [OF assms])
qed

lemma fold_decrement: "fold (\<lambda>d f. f(d := f d - 1)) ds f n = f n - int (count_list ds n)"
  by (induction ds arbitrary: f) auto

section \<open>The invariant of the rounds\<close>

text \<open>\<open>D\<close> is the set of commands already put in a layer.\<close>

definition degree_inv :: "Command list \<Rightarrow> string set \<Rightarrow> (string \<Rightarrow> int) \<Rightarrow> bool" where
  "degree_inv cs D f \<longleftrightarrow>
     (\<forall>c \<in> set cs. f (cName c) =
        (if cName c \<in> D then -1 else int (length (filter (\<lambda>a. asName a \<notin> D) (cAfter c)))))
     \<and> (\<forall>c \<in> set cs. cName c \<in> D \<longrightarrow> asName ` set (cAfter c) \<subseteq> D)
     \<and> D \<subseteq> set (map cName cs)"

lemma degree_inv_init:
  assumes "distinct (map cName cs)"
  shows "degree_inv cs {} (\<lambda>n. \<Sum>c\<leftarrow>cs. if cName c = n then int (length (cAfter c)) else 0)"
  by (simp add: degree_inv_def sum_single_name [OF assms])

lemma degree_zero_iff:
  assumes "degree_inv cs D f" and "c \<in> set cs"
  shows "f (cName c) = 0 \<longleftrightarrow> cName c \<notin> D \<and> asName ` set (cAfter c) \<subseteq> D"
  using assms by (auto simp: degree_inv_def filter_empty_conv)

lemma degree_inv_step:
  assumes inv: "degree_inv cs D f" and dist: "distinct (map cName cs)"
    and c: "c \<in> set cs" and zero: "f (cName c) = 0"
  shows "degree_inv cs (insert (cName c) D)
           (fst (removeName (dependents_of cs) (cName c) (f, r)))"
proof -
  let ?n = "cName c"
  from degree_zero_iff [OF inv c] zero have nD: "?n \<notin> D" and deps: "asName ` set (cAfter c) \<subseteq> D"
    by auto
  have val: "fst (removeName (dependents_of cs) ?n (f, r)) (cName x) =
      (if cName x = ?n then -1 else f (cName x))
        - int (length (filter (\<lambda>a. asName a = ?n) (cAfter x)))" if "x \<in> set cs" for x
    by (simp add: removeName_def fold_decrement count_dependents_of [OF dist that])
  have "fst (removeName (dependents_of cs) ?n (f, r)) (cName x) =
     (if cName x \<in> insert ?n D then -1
      else int (length (filter (\<lambda>a. asName a \<notin> insert ?n D) (cAfter x))))"
    if x: "x \<in> set cs" for x
  proof -
    have none: "length (filter (\<lambda>a. asName a = ?n) (cAfter x)) = 0"
      if "asName ` set (cAfter x) \<subseteq> D"
      using that nD by (auto simp: filter_empty_conv)
    show ?thesis
    proof (cases "cName x = ?n")
      case True
      with dist c x have "x = c" by (metis distinct_map inj_on_contraD)
      with True val [OF x] none deps show ?thesis by simp
    next
      case False
      show ?thesis
      proof (cases "cName x \<in> D")
        case True
        with inv x have "asName ` set (cAfter x) \<subseteq> D" and "f (cName x) = -1"
          by (auto simp: degree_inv_def)
        with False True val [OF x] none show ?thesis by simp
      next
        case out: False
        with inv x have "f (cName x) = int (length (filter (\<lambda>a. asName a \<notin> D) (cAfter x)))"
          by (simp add: degree_inv_def)
        with False out val [OF x] length_filter_remove [OF nD, of asName "cAfter x"]
        show ?thesis by simp
      qed
    qed
  qed
  moreover have "cName x \<in> insert ?n D \<longrightarrow> asName ` set (cAfter x) \<subseteq> insert ?n D"
    if "x \<in> set cs" for x
  proof (cases "cName x = ?n")
    case True
    with dist c that have "x = c" by (metis distinct_map inj_on_contraD)
    with deps show ?thesis by auto
  next
    case False
    with inv that show ?thesis by (auto simp: degree_inv_def)
  qed
  moreover have "D \<subseteq> set (map cName cs)" using inv by (simp add: degree_inv_def)
  ultimately show ?thesis using c by (simp add: degree_inv_def)
qed

lemma degree_inv_layer:
  assumes "degree_inv cs D f" and "distinct (map cName cs)"
    and "distinct layer"
    and "\<forall>n \<in> set layer. \<exists>c \<in> set cs. cName c = n \<and> n \<notin> D \<and> asName ` set (cAfter c) \<subseteq> D"
  shows "degree_inv cs (D \<union> set layer) (fst (fold (removeName (dependents_of cs)) layer (f, r)))"
  using assms
proof (induction layer arbitrary: D f r)
  case (Cons n layer)
  then obtain c where c: "c \<in> set cs" "cName c = n" "n \<notin> D" "asName ` set (cAfter c) \<subseteq> D"
    by auto
  let ?r = "removeName (dependents_of cs) n (f, r)"
  have "f (cName c) = 0" using degree_zero_iff [OF Cons.prems(1) c(1)] c by simp
  from degree_inv_step [OF Cons.prems(1,2) c(1) this, of r]
  have inv: "degree_inv cs (insert n D) (fst ?r)" using c(2) by simp
  have "\<forall>m \<in> set layer. \<exists>c \<in> set cs. cName c = m \<and> m \<notin> insert n D \<and> asName ` set (cAfter c) \<subseteq> insert n D"
  proof
    fix m assume m: "m \<in> set layer"
    with Cons.prems(4) obtain c' where "c' \<in> set cs" "cName c' = m" "m \<notin> D"
      "asName ` set (cAfter c') \<subseteq> D" by auto
    moreover from Cons.prems(3) m have "m \<noteq> n" by auto
    ultimately show "\<exists>c \<in> set cs. cName c = m \<and> m \<notin> insert n D \<and> asName ` set (cAfter c) \<subseteq> insert n D"
      by (intro bexI [of _ c']) auto
  qed
  from Cons.IH [OF inv Cons.prems(2) _ this, of "snd ?r"] Cons.prems(3)
  show ?case by (simp add: Un_commute)
qed simp

section \<open>Layers\<close>

text \<open>What a list of layers promises: no command twice, and every dependency of a
  command in a strictly earlier layer.\<close>

definition layered :: "Command list \<Rightarrow> string list list \<Rightarrow> bool" where
  "layered cs layers \<longleftrightarrow>
     distinct (concat layers) \<and>
     (\<forall>i < length layers. \<forall>c \<in> set cs. cName c \<in> set (layers ! i) \<longrightarrow>
        asName ` set (cAfter c) \<subseteq> set (concat (take i layers)))"

lemma layered_Nil [simp]: "layered cs []"
  by (simp add: layered_def)

lemma layeredD:
  "layered cs layers \<Longrightarrow> i < length layers \<Longrightarrow> c \<in> set cs \<Longrightarrow> cName c \<in> set (layers ! i) \<Longrightarrow>
   a \<in> set (cAfter c) \<Longrightarrow> asName a \<in> set (concat (take i layers))"
  unfolding layered_def by (meson image_subset_iff)

lemma layered_snoc:
  assumes "layered cs layers" and "distinct layer" and "set layer \<inter> set (concat layers) = {}"
    and "\<forall>c \<in> set cs. cName c \<in> set layer \<longrightarrow> asName ` set (cAfter c) \<subseteq> set (concat layers)"
  shows "layered cs (layers @ [layer])"
  unfolding layered_def
proof (intro conjI allI impI)
  show "distinct (concat (layers @ [layer]))" using assms(1-3) by (auto simp: layered_def)
next
  fix i assume i: "i < length (layers @ [layer])"
  show "\<forall>c \<in> set cs. cName c \<in> set ((layers @ [layer]) ! i) \<longrightarrow>
        asName ` set (cAfter c) \<subseteq> set (concat (take i (layers @ [layer])))"
  proof (cases "i < length layers")
    case True
    with assms(1) show ?thesis by (simp add: layered_def nth_append)
  next
    case False
    with i have "i = length layers" by simp
    with assms(4) show ?thesis by (simp add: nth_append)
  qed
qed

lemma freeNames_spec:
  assumes inv: "degree_inv cs D f"
  shows "set (freeNames cs f) =
     {cName c | c. c \<in> set cs \<and> cName c \<notin> D \<and> asName ` set (cAfter c) \<subseteq> D}"
  using degree_zero_iff [OF inv] by (auto simp: freeNames_def)

lemma distinct_freeNames: "distinct (map cName cs) \<Longrightarrow> distinct (freeNames cs f)"
  by (simp add: freeNames_def distinct_map_filter)

lemma topoLoop_round:
  assumes inv: "degree_inv cs (set (concat layers)) f" and dist: "distinct (map cName cs)"
    and lay: "layered cs layers"
  defines "layer \<equiv> sort (freeNames cs f)"
  shows "degree_inv cs (set (concat (layers @ [layer])))
           (fst (fold (removeName (dependents_of cs)) layer (f, r)))" (is ?A)
    and "layered cs (layers @ [layer])" (is ?B)
proof -
  note free = freeNames_spec [OF inv]
  have "\<exists>c \<in> set cs. cName c = n \<and> n \<notin> set (concat layers) \<and> asName ` set (cAfter c) \<subseteq> set (concat layers)"
    if "n \<in> set layer" for n
    using that free by (auto simp: layer_def)
  moreover have dl: "distinct layer"
    by (simp add: layer_def distinct_freeNames [OF dist])
  ultimately have "degree_inv cs (set (concat layers) \<union> set layer)
      (fst (fold (removeName (dependents_of cs)) layer (f, r)))"
    using degree_inv_layer [OF inv dist] by blast
  then show ?A by (simp add: Un_ac)
  have "asName ` set (cAfter c) \<subseteq> set (concat layers)"
    if c: "c \<in> set cs" "cName c \<in> set layer" for c
  proof -
    from c(2) free obtain c' where "c' \<in> set cs" "cName c' = cName c"
      "asName ` set (cAfter c') \<subseteq> set (concat layers)"
      by (auto simp: layer_def)
    moreover with dist c(1) have "c' = c" by (metis distinct_map inj_on_contraD)
    ultimately show ?thesis by simp
  qed
  moreover have "set layer \<inter> set (concat layers) = {}"
    using free by (auto simp: layer_def)
  ultimately show ?B using layered_snoc [OF lay dl] by blast
qed

text \<open>When no command is free although some remain, the remaining commands contain
  a cycle: each of them waits for another one.\<close>

lemma stuck_cycle:
  assumes inv: "degree_inv cs D f" and closed: "closed_deps cs"
    and empty: "freeNames cs f = []" and rest: "c \<in> set cs" "cName c \<notin> D"
  shows "\<not> acyclic (dep_rel cs)"
proof
  assume "acyclic (dep_rel cs)"
  then have "wf (dep_rel cs)" by (simp add: finite_acyclic_wf)
  moreover have "cName c \<in> set (map cName cs) - D" using rest by simp
  ultimately obtain z where z: "z \<in> set (map cName cs) - D"
    and min: "\<And>y. (y, z) \<in> dep_rel cs \<Longrightarrow> y \<notin> set (map cName cs) - D"
    by (meson wfE_min)
  from z obtain x where x: "x \<in> set cs" "cName x = z" "z \<notin> D" by auto
  have "asName a \<in> D" if "a \<in> set (cAfter x)" for a
  proof -
    from dep_relI [OF x(1) that] x(2) have "(asName a, z) \<in> dep_rel cs" by simp
    then have "asName a \<notin> set (map cName cs) - D" by (rule min)
    with closed x(1) that show ?thesis by (auto simp: closed_deps_def)
  qed
  with x freeNames_spec [OF inv] have "z \<in> set (freeNames cs f)" by auto
  with empty show False by simp
qed

lemma layered_acyclic:
  assumes lay: "layered cs layers" and all: "set (map cName cs) \<subseteq> set (concat layers)"
  shows "acyclic (dep_rel cs)"
proof -
  let ?rank = "\<lambda>n. LEAST i. i < length layers \<and> n \<in> set (layers ! i)"
  have ex: "\<exists>i. i < length layers \<and> n \<in> set (layers ! i)" if "n \<in> set (concat layers)" for n
  proof -
    from that obtain l where "l \<in> set layers" "n \<in> set l" by auto
    then show ?thesis by (auto simp: in_set_conv_nth [of l])
  qed
  have "?rank d < ?rank n" if "(d, n) \<in> dep_rel cs" for d n
  proof -
    from that obtain c a where c: "c \<in> set cs" "a \<in> set (cAfter c)" "d = asName a" "n = cName c"
      by (rule dep_relE)
    with all have "n \<in> set (concat layers)" by auto
    from LeastI_ex [OF ex [OF this]]
    have r: "?rank n < length layers" "n \<in> set (layers ! ?rank n)" by auto
    with layeredD [OF lay _ c(1) _ c(2)] c(3,4)
    have "d \<in> set (concat (take (?rank n) layers))" by simp
    then obtain l where "l \<in> set (take (?rank n) layers)" "d \<in> set l" by auto
    with in_set_take_nth [OF this(1)] obtain j
      where "j < ?rank n" "j < length layers" "d \<in> set (layers ! j)" by auto
    then show ?thesis by (metis (mono_tags, lifting) Least_le order_le_less_trans)
  qed
  then have "dep_rel cs \<subseteq> measure ?rank" by auto
  then have "wf (dep_rel cs)" using wf_measure wf_subset by blast
  then show ?thesis by (rule wf_acyclic)
qed

section \<open>Correctness of the loop\<close>

lemma card_layered:
  assumes "degree_inv cs (set (concat layers)) f" and "layered cs layers"
    and "distinct (map cName cs)"
  shows "length (concat layers) \<le> length cs"
    and "length (concat layers) = length cs \<Longrightarrow> set (concat layers) = set (map cName cs)"
proof -
  have sub: "set (concat layers) \<subseteq> set (map cName cs)" using assms(1) by (simp add: degree_inv_def)
  have d: "distinct (concat layers)" using assms(2) by (simp add: layered_def)
  show "length (concat layers) \<le> length cs"
    using distinct_subset_length [OF d sub] by simp
  assume "length (concat layers) = length cs"
  with d assms(3) have "card (set (concat layers)) = card (set (map cName cs))"
    by (metis distinct_card length_map)
  with sub show "set (concat layers) = set (map cName cs)"
    by (simp add: card_subset_eq)
qed

lemma topoLoop_correct:
  assumes "degree_inv cs (set (concat layers)) f" and "layered cs layers"
    and "r = int (length cs) - int (length (concat layers))"
    and "\<forall>l \<in> set layers. sorted l" and "distinct (map cName cs)" and "closed_deps cs"
  shows "(case topoLoop cs (dependents_of cs) f r layers of
            Inr ls \<Rightarrow> layered cs ls \<and> set (concat ls) = set (map cName cs) \<and> (\<forall>l \<in> set ls. sorted l)
          | Inl e \<Rightarrow> \<not> acyclic (dep_rel cs) \<and> (\<exists>ns. e = DependencyCycle ns))"
  using assms
proof (induction cs "dependents_of cs" f r layers rule: topoLoop.induct)
  case (1 cs f r layers)
  show ?case
  proof (cases "r > 0")
    case False
    have stop: "topoLoop cs (dependents_of cs) f r layers = Inr layers"
      using False by (subst topoLoop.simps) simp
    from False 1(4) card_layered(1) [OF 1(2,3,6)] have "length (concat layers) = length cs"
      by linarith
    from card_layered(2) [OF 1(2,3,6) this] stop 1(3,5) show ?thesis by simp
  next
    case pos: True
    show ?thesis
    proof (cases "freeNames cs f = []")
      case True
      from pos 1(4) have "length (concat layers) < length cs" by linarith
      then have "\<not> set (map cName cs) \<subseteq> set (concat layers)"
        using distinct_subset_length [OF 1(6), of "concat layers"] by auto
      then obtain c where "c \<in> set cs" "cName c \<notin> set (concat layers)" by auto
      from stuck_cycle [OF 1(2,7) True this]
      have cyc: "\<not> acyclic (dep_rel cs)" .
      have "topoLoop cs (dependents_of cs) f r layers = Inl (DependencyCycle (detectCycle cs f))"
        using pos True by (subst topoLoop.simps) simp
      with cyc show ?thesis by simp
    next
      case free: False
      let ?layer = "sort (freeNames cs f)"
      let ?r = "fold (removeName (dependents_of cs)) ?layer (f, r)"
      note round = topoLoop_round(1) [OF 1(2,6,3), of r] topoLoop_round(2) [OF 1(2,6,3)]
      have "topoLoop cs (dependents_of cs) f r layers =
            topoLoop cs (dependents_of cs) (fst ?r) (snd ?r) (layers @ [?layer])"
        using pos free by (subst topoLoop.simps) (simp add: Let_def)
      moreover have "snd ?r = int (length cs) - int (length (concat (layers @ [?layer])))"
        using 1(4) by (simp add: fold_removeName_remaining)
      ultimately show ?thesis
        using 1(1) [OF pos refl free refl refl round(1) round(2)] 1(5-7) by simp
    qed
  qed
qed

lemma topoLayers_cases:
  assumes dist: "distinct (map cName cs)"
  shows "(case topoLayers cs of
            Inr ls \<Rightarrow> closed_deps cs \<and> layered cs ls \<and> set (concat ls) = set (map cName cs)
                      \<and> (\<forall>l \<in> set ls. sorted l)
          | Inl e \<Rightarrow> (if closed_deps cs then \<not> acyclic (dep_rel cs) \<and> (\<exists>ns. e = DependencyCycle ns)
                     else \<exists>c d. e = UnknownDependency c d))"
proof (cases "cs = []")
  case True
  then show ?thesis by (simp add: topoLayers_def closed_deps_def)
next
  case ne: False
  show ?thesis
  proof (cases "closed_deps cs")
    case True
    then have "countAllDeps (set (map cName cs)) cs (\<lambda>_. 0) (\<lambda>_. []) =
       Inr (\<lambda>n. \<Sum>c\<leftarrow>cs. if cName c = n then int (length (cAfter c)) else 0, dependents_of cs)"
      using countAllDeps_ok [OF _ dist, of "set (map cName cs)" "\<lambda>_. 0" "\<lambda>_. []"]
      by (simp add: closed_deps_def fun_eq_iff)
    then have "topoLayers cs = topoLoop cs (dependents_of cs)
        (\<lambda>n. \<Sum>c\<leftarrow>cs. if cName c = n then int (length (cAfter c)) else 0) (int (length cs)) []"
      using ne by (simp add: topoLayers_def)
    moreover have "case topoLoop cs (dependents_of cs)
        (\<lambda>n. \<Sum>c\<leftarrow>cs. if cName c = n then int (length (cAfter c)) else 0) (int (length cs)) [] of
            Inr ls \<Rightarrow> layered cs ls \<and> set (concat ls) = set (map cName cs) \<and> (\<forall>l \<in> set ls. sorted l)
          | Inl e \<Rightarrow> \<not> acyclic (dep_rel cs) \<and> (\<exists>ns. e = DependencyCycle ns)"
      by (rule topoLoop_correct) (simp_all add: degree_inv_init [OF dist] dist True)
    ultimately show ?thesis using True by (simp split: sum.splits)
  next
    case False
    then obtain c d where "countAllDeps (set (map cName cs)) cs (\<lambda>_. 0) (\<lambda>_. []) =
        Inl (UnknownDependency c d)"
      using countAllDeps_unknown unfolding closed_deps_def by blast
    with ne False show ?thesis by (simp add: topoLayers_def)
  qed
qed

lemma first_err_known: "first_err (checkKnown (set (map cName cs))) cs = Inr () \<longleftrightarrow> closed_deps cs"
  by (auto simp: first_err_Inr checkKnown_def closed_deps_def split: if_splits)

lemma ValidateDAG_closed:
  "closed_deps cs \<Longrightarrow> ValidateDAG cs = (case topoLayers cs of Inl e \<Rightarrow> Inl e | Inr _ \<Rightarrow> Inr ())"
  using first_err_known [of cs] by (simp add: ValidateDAG_def)

lemma ValidateDAG_ok_closed: "ValidateDAG cs = Inr () \<Longrightarrow> closed_deps cs"
  using first_err_known [of cs] by (auto simp: ValidateDAG_def split: sum.splits)

section \<open>Properties\<close>

text \<open>a successful layering lists every command exactly once, each layer in
  ascending order, and every dependency of a command stands in a strictly earlier
  layer, so the commands of one layer do not depend on each other.\<close>

lemma topoLayers_sound:
  assumes "distinct (map cName cs)" and "topoLayers cs = Inr ls"
  shows "mset (concat ls) = mset (map cName cs) \<and> list_all sorted ls \<and>
    (\<forall>i < length ls. \<forall>c \<in> set cs. cName c \<in> set (ls ! i) \<longrightarrow>
       (\<forall>a \<in> set (cAfter c). asName a \<in> set (concat (take i ls))))"
proof -
  from topoLayers_cases [OF assms(1)] assms(2)
  have ls: "layered cs ls" "set (concat ls) = set (map cName cs)" "\<forall>l \<in> set ls. sorted l" by auto
  then have "distinct (concat ls)" by (simp add: layered_def)
  with ls(2) assms(1) have "mset (concat ls) = mset (map cName cs)"
    by (metis set_eq_iff_mset_eq_distinct)
  moreover have "asName a \<in> set (concat (take i ls))"
    if "i < length ls" "c \<in> set cs" "cName c \<in> set (ls ! i)" "a \<in> set (cAfter c)" for i c a
    using layeredD [OF ls(1)] that by blast
  ultimately show ?thesis using ls(3) by (auto simp: list_all_iff)
qed

definition diamond :: "Command list" where
  "diamond = [bare_command ''api'' [\<lparr>asName = ''db'', asCondition = ConditionRunning\<rparr>,
                                    \<lparr>asName = ''migrate'', asCondition = ConditionCompletedSuccessfully\<rparr>],
              bare_command ''db'' [],
              bare_command ''migrate'' [\<lparr>asName = ''db'', asCondition = ConditionRunning\<rparr>]]"

lemma diamond_distinct: "distinct (map cName diamond)"
  by (simp add: diamond_def)

lemma diamond_layers: "topoLayers diamond = Inr [[''db''], [''migrate''], [''api'']]"
  by (simp add: topoLayers_def diamond_def topoLoop.simps freeNames_def removeName_def)

lemma ValidateDAG_facts:
  assumes "distinct (map cName cs)"
  shows "ValidateDAG cs = Inr () \<longleftrightarrow> closed_deps cs \<and> acyclic (dep_rel cs)"
    and "closed_deps cs \<Longrightarrow> ValidateDAG cs = Inl e \<Longrightarrow> \<exists>ns. e = DependencyCycle ns"
proof -
  note c = topoLayers_cases [OF assms]
  show "ValidateDAG cs = Inr () \<longleftrightarrow> closed_deps cs \<and> acyclic (dep_rel cs)"
  proof (cases "topoLayers cs")
    case (Inl e)
    with c have "closed_deps cs \<Longrightarrow> \<not> acyclic (dep_rel cs)" by simp
    with Inl show ?thesis using ValidateDAG_closed [of cs] ValidateDAG_ok_closed [of cs] by auto
  next
    case (Inr ls)
    with c have "closed_deps cs" "layered cs ls" "set (map cName cs) \<subseteq> set (concat ls)" by auto
    with layered_acyclic Inr show ?thesis by (simp add: ValidateDAG_closed)
  qed
  show "\<exists>ns. e = DependencyCycle ns" if "closed_deps cs" "ValidateDAG cs = Inl e"
    using that c by (simp add: ValidateDAG_closed split: sum.splits)
qed

text \<open>C27: validation accepts a project exactly when every dependency names a command
  of the project and the dependencies have no cycle; a rejected closed project is
  reported as a cycle and never as an unknown dependency.\<close>

theorem ValidateDAG_iff:
  assumes "distinct (map cName cs)"
  shows "(ValidateDAG cs = Inr () \<longleftrightarrow> closed_deps cs \<and> acyclic (dep_rel cs)) \<and>
    (closed_deps cs \<longrightarrow> (\<forall>e. ValidateDAG cs = Inl e \<longrightarrow> (\<exists>ns. e = DependencyCycle ns)))"
  using ValidateDAG_facts [OF assms] by blast

theorem ValidateDAG_iff_witness: "closed_deps diamond \<and> acyclic (dep_rel diamond)"
proof -
  have "closed_deps diamond" by (simp add: closed_deps_def diamond_def)
  then have "ValidateDAG diamond = Inr ()" by (simp add: ValidateDAG_closed diamond_layers)
  with ValidateDAG_iff [OF diamond_distinct] show ?thesis by simp
qed

end
