(* ===== verification/Compose_Naming.thy ===== *)
theory Compose_Naming
  imports Compose_Graph Go_Strconv
begin

text \<open>
  Names, labels and config hashes of compose commands (cmdman/compose/hash.go, the label
  half of plan.go, \<^verbatim>\<open>InstanceNames\<close> of spec.go, \<^verbatim>\<open>commandNameOf\<close> of selection.go).
  SHA-256 and JSON encoding are parameters: \<open>sha\<close> maps bytes to their hex digest,
  \<open>marshal\<close> functions encode a value, \<^const>\<open>None\<close> their error.
\<close>

section \<open>Generated names (hash.go)\<close>

definition workdirHash :: "(string \<Rightarrow> string) \<Rightarrow> string \<Rightarrow> string" where
  "workdirHash sha canonicalWorkDir = take 12 (sha canonicalWorkDir)"

definition escapeName :: "string \<Rightarrow> string" where
  "escapeName s = replaceChar CHR ''-'' ''--'' s"

definition GenerateName :: "string \<Rightarrow> string \<Rightarrow> string \<Rightarrow> string" where
  "GenerateName wdHash project command = wdHash @ ''-'' @ escapeName project @ ''-'' @ escapeName command"

definition GenerateProjectIdentity :: "string \<Rightarrow> string \<Rightarrow> string" where
  "GenerateProjectIdentity wdHash project = wdHash @ ''-'' @ escapeName project"

definition InstanceName :: "string \<Rightarrow> int \<Rightarrow> string" where
  "InstanceName base scaleIndex = base @ ''-'' @ itoa scaleIndex"

definition stripScaleIndexSuffix :: "string \<Rightarrow> int \<Rightarrow> string" where
  "stripScaleIndexSuffix instanceName scaleIndex =
     (if scaleIndex \<le> 0 then instanceName else trimSuffix instanceName (''-'' @ itoa scaleIndex))"

definition InstanceNames :: "Command \<Rightarrow> string list" where
  "InstanceNames c = map (\<lambda>i. InstanceName (cGeneratedName c) (int i + 1)) [0..<nat (max (cScale c) 1)]"

lemma escapeName_simps [simp]:
  "escapeName [] = []"
  "escapeName (c # s) = (if c = CHR ''-'' then CHR ''-'' # CHR ''-'' # escapeName s else c # escapeName s)"
  by (simp_all add: escapeName_def replaceChar_def)

lemma escapeName_hd: "(case escapeName s of [] \<Rightarrow> s = [] | c # _ \<Rightarrow> s \<noteq> [] \<and> c = hd s)"
  by (cases s) auto

text \<open>A single dash ends an escaped name: reading on, dashes come in pairs until the
  separator, provided what follows the separator does not start with a dash.\<close>

lemma escape_split:
  assumes "escapeName p @ CHR ''-'' # r = escapeName q @ CHR ''-'' # s"
    and "r = [] \<or> hd r \<noteq> CHR ''-''" and "s = [] \<or> hd s \<noteq> CHR ''-''"
  shows "p = q \<and> r = s"
  using assms(1)
proof (induction p arbitrary: q)
  case Nil
  then show ?case using assms(2,3) by (cases q) (auto split: if_splits)
next
  case (Cons c p)
  show ?case
  proof (cases q)
    case Nil
    with Cons.prems assms(2,3) show ?thesis by (auto split: if_splits)
  next
    case (Cons d q')
    with Cons.prems Cons.IH [of q'] show ?thesis by (auto split: if_splits)
  qed
qed

lemma escapeName_inj: "escapeName p = escapeName q \<Longrightarrow> p = q"
  using escape_split [of p "[]" q "[]"] by simp

definition no_dash :: "string \<Rightarrow> bool" where
  "no_dash s \<longleftrightarrow> CHR ''-'' \<notin> set s"

lemma no_dash_split:
  assumes "no_dash a" "no_dash b" and "a @ CHR ''-'' # r = b @ CHR ''-'' # s"
  shows "a = b \<and> r = s"
  using assms
proof (induction a arbitrary: b)
  case Nil
  then show ?case by (cases b) (auto simp: no_dash_def)
next
  case (Cons c a)
  show ?case
  proof (cases b)
    case Nil
    with Cons.prems show ?thesis by (auto simp: no_dash_def)
  next
    case (Cons d b')
    with Cons.prems Cons.IH [of b'] show ?thesis by (auto simp: no_dash_def)
  qed
qed

lemma escape_starts: "c = [] \<or> hd c \<noteq> CHR ''-'' \<Longrightarrow> escapeName c = [] \<or> hd (escapeName c) \<noteq> CHR ''-''"
  by (cases c) auto

lemma isDigit_no_dash: "(\<And>c. c \<in> set s \<Longrightarrow> isDigit c) \<Longrightarrow> no_dash s"
  using isDigit_not_sign by (auto simp: no_dash_def)

text \<open>The last dash of an instance name starts the scale index.\<close>

lemma last_dash_split:
  assumes "a @ CHR ''-'' # r = b @ CHR ''-'' # s" and "no_dash r" "no_dash s"
  shows "a = b \<and> r = s"
proof -
  have "rev (x @ CHR ''-'' # y) = rev y @ CHR ''-'' # rev x" for x y by simp
  then have "rev r @ CHR ''-'' # rev a = rev s @ CHR ''-'' # rev b"
    using arg_cong [OF assms(1), of rev] by metis
  with no_dash_split [of "rev r" "rev s" "rev a" "rev b"] assms(2,3) show ?thesis
    by (auto simp: no_dash_def)
qed

lemma instance_inj:
  assumes "no_dash h" "no_dash h'" and "c = [] \<or> hd c \<noteq> CHR ''-''" "c' = [] \<or> hd c' \<noteq> CHR ''-''"
    and "0 \<le> i" "0 \<le> i'"
  shows "InstanceName (GenerateName h p c) i = InstanceName (GenerateName h' p' c') i' \<longleftrightarrow>
    h = h' \<and> p = p' \<and> c = c' \<and> i = i'"
proof
  assume eq: "InstanceName (GenerateName h p c) i = InstanceName (GenerateName h' p' c') i'"
  have d: "no_dash (itoa n)" if "0 \<le> n" for n
    using isDigit_no_dash itoa_nat_digits [OF that] by blast
  from eq have "GenerateName h p c @ CHR ''-'' # itoa i = GenerateName h' p' c' @ CHR ''-'' # itoa i'"
    by (simp add: InstanceName_def)
  from last_dash_split [OF this d [OF assms(5)] d [OF assms(6)]]
  have g: "GenerateName h p c = GenerateName h' p' c'" and it: "itoa i = itoa i'" by simp_all
  from g no_dash_split [OF assms(1,2)]
  have "h = h'" and e: "escapeName p @ CHR ''-'' # escapeName c = escapeName p' @ CHR ''-'' # escapeName c'"
    by (auto simp: GenerateName_def)
  moreover from escape_split [OF e escape_starts [OF assms(3)] escape_starts [OF assms(4)]] escapeName_inj
  have "p = p'" "c = c'" by blast+
  moreover from it assms(5,6) digitsOf_inj [of "nat i" "nat i'"] have "i = i'" by (simp add: itoa_def)
  ultimately show "h = h' \<and> p = p' \<and> c = c' \<and> i = i'" by blast
qed simp

text \<open>Generated instance names identify a replica. For hex work-directory hashes,
  command names that do not start with a dash (as \<^verbatim>\<open>validateName\<close> demands) and scale
  indices that are not negative, two replicas with the same instance name have the same
  hash, project, command and scale index.\<close>

lemma InstanceName_unique:
  assumes "no_dash h" "no_dash h'" and "c = [] \<or> hd c \<noteq> CHR ''-''" "c' = [] \<or> hd c' \<noteq> CHR ''-''"
    and "0 \<le> i" "0 \<le> i'"
  shows "InstanceName (GenerateName h p c) i = InstanceName (GenerateName h' p' c') i' \<longleftrightarrow>
    h = h' \<and> p = p' \<and> c = c' \<and> i = i'"
  by (rule instance_inj [OF assms])

lemma strip_InstanceName:
  "0 < i \<Longrightarrow> stripScaleIndexSuffix (InstanceName base i) i = base"
  using trimSuffix_append [of base "''-'' @ itoa i"]
  by (simp add: stripScaleIndexSuffix_def InstanceName_def)

end
