(* ===== verification/Compose_Plan.thy ===== *)
theory Compose_Plan
  imports Compose_Naming
begin

text \<open>
  Config hashes, replica labels and the reconciliation plan (cmdman/compose/hash.go,
  plan.go). The plan compares the desired project with the stored commands of the same
  project; its properties say which replicas are created, recreated or kept, and that
  every stored command is accounted for.
\<close>

section \<open>Config hash (hash.go)\<close>

record hashLifecycleExec =
  hlArgs :: "string list"
  hlOnError :: OnError

record hashLifecycleHook =
  hhName :: string
  hhResource :: string
  hhEvents :: "LifecycleEvent \<rightharpoonup> hashLifecycleExec"

record hashCanonical =
  hcName :: string
  hcArgs :: "string list"
  hcDir :: string
  hcEnv :: "string list"
  hcImportHostEnv :: bool
  hcInjectEnv :: bool
  hcRestartPolicy :: RestartPolicy
  hcMaxRetries :: int
  hcStopSignal :: string
  hcStopGracePeriod :: int
  hcStop :: "string list"
  hcTty :: bool
  hcScrollbackBytes :: int
  hcLogDriver :: string
  hcLogOpts :: "(string \<rightharpoonup> string) option"
  hcUserLabels :: "(string \<rightharpoonup> string) option"
  hcAfter :: "(string \<times> AfterCondition) list"
  hcHooks :: "hashLifecycleHook list"

fun OnError_resolved :: "OnError \<Rightarrow> OnError" where
  "OnError_resolved OnErrorNone = OnErrorFail"
| "OnError_resolved o' = o'"

definition sortedMapCopy :: "(string, string) gomap \<Rightarrow> (string \<rightharpoonup> string) option" where
  "sortedMapCopy m = (if m = [] then None else Some (map_of m))"

definition hashHook :: "LifecycleHook \<Rightarrow> hashLifecycleHook" where
  "hashHook h = \<lparr> hhName = lhName h, hhResource = lhResource h,
     hhEvents = (\<lambda>ev. map_option (\<lambda>e. \<lparr>hlArgs = leArgs e, hlOnError = OnError_resolved (leOnError e)\<rparr>)
                      (map_of (lhEvents h) ev)) \<rparr>"

definition canonOf :: "Command \<Rightarrow> hashCanonical" where
  "canonOf cmd = \<lparr> hcName = cName cmd, hcArgs = cArgs cmd, hcDir = cDir cmd, hcEnv = sort (cEnv cmd),
     hcImportHostEnv = cImportHostEnv cmd, hcInjectEnv = cInjectEnv cmd,
     hcRestartPolicy = cRestartPolicy cmd, hcMaxRetries = cMaxRetries cmd,
     hcStopSignal = cStopSignal cmd, hcStopGracePeriod = cStopGracePeriod cmd, hcStop = cStop cmd,
     hcTty = cTty cmd, hcScrollbackBytes = cScrollbackBytes cmd, hcLogDriver = cLogDriver cmd,
     hcLogOpts = sortedMapCopy (cLogOpts cmd), hcUserLabels = sortedMapCopy (cLabels cmd),
     hcAfter = sort_key fst (map (\<lambda>a. (asName a, asCondition a)) (cAfter cmd)),
     hcHooks = map hashHook (cHooks cmd) \<rparr>"

definition Hash :: "(hashCanonical \<Rightarrow> string option) \<Rightarrow> (string \<Rightarrow> string) \<Rightarrow> Command \<Rightarrow> string option" where
  "Hash marshal sha cmd = (case marshal (canonOf cmd) of None \<Rightarrow> None | Some data \<Rightarrow> Some (''sha256:'' @ sha data))"

section \<open>Labels (plan.go, selection.go)\<close>

definition LabelPrefix :: string where "LabelPrefix = ''cmdman.compose.''"
definition LabelProject :: string where "LabelProject = ''cmdman.compose.project''"
definition LabelCommand :: string where "LabelCommand = ''cmdman.compose.command''"
definition LabelConfigHash :: string where "LabelConfigHash = ''cmdman.compose.config-hash''"
definition LabelVersion :: string where "LabelVersion = ''cmdman.compose.version''"
definition LabelWorkdir :: string where "LabelWorkdir = ''cmdman.compose.workdir''"
definition LabelFile :: string where "LabelFile = ''cmdman.compose.file''"
definition LabelAfter :: string where "LabelAfter = ''cmdman.compose.after''"
definition LabelScaleIndex :: string where "LabelScaleIndex = ''cmdman.compose.scale-index''"
definition LabelScale :: string where "LabelScale = ''cmdman.compose.scale''"
definition LabelHooks :: string where "LabelHooks = ''cmdman.compose.hooks''"
definition LabelVersionValue :: string where "LabelVersionValue = ''1''"

lemmas Label_defs = LabelPrefix_def LabelProject_def LabelCommand_def LabelConfigHash_def LabelVersion_def
  LabelWorkdir_def LabelFile_def LabelAfter_def LabelScaleIndex_def LabelScale_def LabelHooks_def

definition scaleLabelValue :: "string \<Rightarrow> int" where
  "scaleLabelValue v = (case atoi v of None \<Rightarrow> 0 | Some n \<Rightarrow> n)"

definition ScaleOf :: "(string, string) gomap \<Rightarrow> int \<times> int" where
  "ScaleOf labels = (scaleLabelValue (label_of labels LabelScaleIndex), scaleLabelValue (label_of labels LabelScale))"

definition scaleIndexOf :: "CommandEntry \<Rightarrow> int" where
  "scaleIndexOf e = (case enConfigJSON e of None \<Rightarrow> 0 | Some cfg \<Rightarrow> fst (ScaleOf (ccLabels cfg)))"

definition commandNameOf :: "CommandEntry \<Rightarrow> string" where
  "commandNameOf e = (case enConfigJSON e of None \<Rightarrow> [] | Some cfg \<Rightarrow> label_of (ccLabels cfg) LabelCommand)"

definition BuildLabels ::
  "(AfterSpec list \<Rightarrow> string) \<Rightarrow> (LifecycleHook list \<Rightarrow> string) \<Rightarrow> ComposeSpec \<Rightarrow> Command \<Rightarrow> string \<Rightarrow> int
     \<Rightarrow> (string, string) gomap" where
  "BuildLabels mAfter mHooks spec cmd configHash scaleIndex =
     (let l1 = fold (\<lambda>(k, v). AList.update k v)
                 [(LabelProject, sProject spec), (LabelCommand, cName cmd), (LabelConfigHash, configHash),
                  (LabelVersion, LabelVersionValue), (LabelWorkdir, sWorkDir spec), (LabelFile, sComposeFile spec),
                  (LabelScaleIndex, itoa scaleIndex), (LabelScale, itoa (max (cScale cmd) 1))] (cLabels cmd);
          l2 = (if cAfter cmd \<noteq> [] then AList.update LabelAfter (mAfter (cAfter cmd)) l1 else l1)
      in if cHooks cmd \<noteq> [] then AList.update LabelHooks (mHooks (cHooks cmd)) l2 else l2)"

section \<open>The plan (plan.go)\<close>

datatype ActionKind = ActionCreate | ActionRecreate | ActionUnchanged

record CommandAction =
  aKind :: ActionKind
  aDesired :: Command
  aScaleIndex :: int
  aInstanceName :: string
  aExisting :: "CommandEntry option"
  aDesiredHash :: string

record Plan =
  pActions :: "CommandAction list"
  pOrphans :: "CommandEntry list"
  pExcess :: "CommandEntry list"

datatype PlanErr = PlanDAG GraphErr | PlanCollision string string | PlanHash string

type_synonym instanceKey = "string \<times> int"

text \<open>The first loop: indexing the existing commands. The state is the index and the
  orphans so far.\<close>

fun indexExisting ::
  "ComposeSpec \<Rightarrow> CommandEntry list \<Rightarrow> (instanceKey, CommandEntry) gomap \<Rightarrow> CommandEntry list
     \<Rightarrow> PlanErr + (instanceKey, CommandEntry) gomap \<times> CommandEntry list" where
  "indexExisting spec [] m orphans = Inr (m, orphans)"
| "indexExisting spec (e # es) m orphans =
     (case enConfigJSON e of
        None \<Rightarrow> indexExisting spec es m orphans
      | Some cfg \<Rightarrow>
          let cmdName = label_of (ccLabels cfg) LabelCommand;
              existingFile = label_of (ccLabels cfg) LabelFile
          in if existingFile \<noteq> [] \<and> existingFile \<noteq> sComposeFile spec
             then Inl (PlanCollision existingFile (sComposeFile spec))
             else if cmdName \<in> set (map cName (sCommands spec))
             then indexExisting spec es (AList.update (cmdName, scaleIndexOf e) e m) orphans
             else indexExisting spec es m (orphans @ [e]))"

text \<open>One replica of the second loop.\<close>

definition planReplica ::
  "Command \<Rightarrow> string \<Rightarrow> int \<Rightarrow> (instanceKey, CommandEntry) gomap \<times> CommandAction list
     \<Rightarrow> (instanceKey, CommandEntry) gomap \<times> CommandAction list" where
  "planReplica desired desiredHash idx = (\<lambda>(m, actions).
     let key = (cName desired, idx);
         action = \<lparr> aKind = ActionCreate, aDesired = desired, aScaleIndex = idx,
                    aInstanceName = InstanceName (cGeneratedName desired) idx,
                    aExisting = None, aDesiredHash = desiredHash \<rparr>
     in case map_of m key of
          None \<Rightarrow> (m, actions @ [action])
        | Some ex \<Rightarrow>
            let storedHash = (case enConfigJSON ex of None \<Rightarrow> [] | Some cfg \<Rightarrow> label_of (ccLabels cfg) LabelConfigHash)
            in (AList.delete key m,
                actions @ [action\<lparr> aExisting := Some ex,
                  aKind := (if storedHash = desiredHash then ActionUnchanged else ActionRecreate) \<rparr>]))"

definition planCommand ::
  "Command \<Rightarrow> string \<Rightarrow> (instanceKey, CommandEntry) gomap \<times> CommandAction list
     \<Rightarrow> (instanceKey, CommandEntry) gomap \<times> CommandAction list" where
  "planCommand desired desiredHash st =
     fold (planReplica desired desiredHash) (map (\<lambda>i. int i + 1) [0..<nat (max (cScale desired) 1)]) st"

text \<open>\<^verbatim>\<open>cmdByName\<close>: the last command of a name wins.\<close>

definition commandByName :: "Command list \<Rightarrow> string \<Rightarrow> Command option" where
  "commandByName cs = map_of (rev (map (\<lambda>c. (cName c, c)) cs))"

fun planCommands ::
  "(Command \<Rightarrow> string option) \<Rightarrow> Command list \<Rightarrow> string list
     \<Rightarrow> (instanceKey, CommandEntry) gomap \<times> CommandAction list
     \<Rightarrow> PlanErr + (instanceKey, CommandEntry) gomap \<times> CommandAction list" where
  "planCommands hash cs [] st = Inr st"
| "planCommands hash cs (name # ns) st =
     (case commandByName cs name of
        None \<Rightarrow> planCommands hash cs ns st
      | Some desired \<Rightarrow>
          (case hash desired of
             None \<Rightarrow> Inl (PlanHash name)
           | Some h \<Rightarrow> planCommands hash cs ns (planCommand desired h st)))"

text \<open>The names of \<open>TopoLayers\<close> are names of the project, so the \<open>None\<close> case of the
  lookup (a zero \<^verbatim>\<open>Command\<close> in Go) does not arise. \<open>ks\<close> is the order in which the
  remaining index is ranged over.\<close>

definition ComputePlan ::
  "(Command \<Rightarrow> string option) \<Rightarrow> ComposeSpec \<Rightarrow> CommandEntry list
     \<Rightarrow> ((instanceKey, CommandEntry) gomap \<Rightarrow> instanceKey list) \<Rightarrow> PlanErr + Plan" where
  "ComputePlan hash spec existing ks =
     (case ValidateDAG (sCommands spec) of
        Inl e \<Rightarrow> Inl (PlanDAG e)
      | Inr _ \<Rightarrow>
        (case indexExisting spec existing [] [] of
           Inl e \<Rightarrow> Inl e
         | Inr (m, orphans) \<Rightarrow>
           (case TopoLayers (sCommands spec) of
              Inl e \<Rightarrow> Inl (PlanDAG e)
            | Inr layers \<Rightarrow>
              (case planCommands hash (sCommands spec) (concat layers) (m, []) of
                 Inl e \<Rightarrow> Inl e
               | Inr (m', actions) \<Rightarrow>
                   Inr \<lparr> pActions = actions, pOrphans = orphans,
                         pExcess = sort_key enName (List.map_filter (map_of m') (ks m')) \<rparr>))))"

section \<open>What the plan contains\<close>

definition instanceOf :: "CommandEntry \<Rightarrow> instanceKey" where
  "instanceOf e = (commandNameOf e, scaleIndexOf e)"

definition configured :: "CommandEntry \<Rightarrow> bool" where
  "configured e \<longleftrightarrow> enConfigJSON e \<noteq> None"

definition wanted :: "ComposeSpec \<Rightarrow> CommandEntry \<Rightarrow> bool" where
  "wanted spec e \<longleftrightarrow> configured e \<and> commandNameOf e \<in> set (map cName (sCommands spec))"

definition storedHash :: "CommandEntry \<Rightarrow> string" where
  "storedHash e = (case enConfigJSON e of None \<Rightarrow> [] | Some cfg \<Rightarrow> label_of (ccLabels cfg) LabelConfigHash)"

lemma indexExisting_Inr:
  "indexExisting spec es m os = Inr (m', os') \<Longrightarrow>
     os' = os @ filter (\<lambda>e. configured e \<and> \<not> wanted spec e) es \<and>
     m' = fold (\<lambda>e. AList.update (instanceOf e) e) (filter (wanted spec) es) m"
proof (induction es arbitrary: m os)
  case (Cons e es)
  show ?case
  proof (cases "enConfigJSON e")
    case None
    with Cons show ?thesis by (simp add: configured_def wanted_def)
  next
    case (Some cfg)
    then have "configured e" "commandNameOf e = label_of (ccLabels cfg) LabelCommand"
      "wanted spec e \<longleftrightarrow> label_of (ccLabels cfg) LabelCommand \<in> set (map cName (sCommands spec))"
      by (simp_all add: configured_def wanted_def commandNameOf_def)
    with Cons.IH [of m "os @ [e]"] Cons.IH [of "AList.update (instanceOf e) e m" os] Cons.prems Some
    show ?thesis by (cases "wanted spec e") (simp_all add: instanceOf_def Let_def split: if_splits)
  qed
qed simp

lemma update_new: "k \<notin> set (keys_of m) \<Longrightarrow> AList.update k v m = m @ [(k, v)]"
  by (induction m) auto

lemma fold_update_distinct:
  "distinct (map f es) \<Longrightarrow> (\<And>e. e \<in> set es \<Longrightarrow> f e \<notin> set (keys_of m)) \<Longrightarrow>
     fold (\<lambda>e. AList.update (f e) e) es m = m @ map (\<lambda>e. (f e, e)) es"
proof (induction es arbitrary: m)
  case (Cons e es)
  have "AList.update (f e) e m = m @ [(f e, e)]" using Cons.prems by (intro update_new) auto
  moreover have "f x \<notin> set (keys_of (m @ [(f e, e)]))" if "x \<in> set es" for x
  proof -
    have "f x \<in> f ` set es" using that by (rule imageI)
    with Cons.prems(1) have "f x \<noteq> f e" by auto
    with Cons.prems(2) [of x] that show ?thesis by simp
  qed
  ultimately show ?case using Cons.IH [of "m @ [(f e, e)]"] Cons.prems(1) by simp
qed simp

lemma update_entries: "set (AList.update k v m) \<subseteq> insert (k, v) (set m)"
  by (induction m) auto

lemma fold_update_entries:
  "set (fold (\<lambda>e. AList.update (f e) e) es m) \<subseteq> set m \<union> (\<lambda>e. (f e, e)) ` set es"
proof (induction es arbitrary: m)
  case (Cons e es)
  from Cons.IH [of "AList.update (f e) e m"] update_entries [of "f e" e m] show ?case by auto
qed simp

lemma fold_update_lookup:
  "case map_of (fold (\<lambda>e. AList.update (f e) e) es []) k of
     None \<Rightarrow> \<forall>e \<in> set es. f e \<noteq> k | Some e \<Rightarrow> e \<in> set es \<and> f e = k"
proof (induction es rule: rev_induct)
  case (snoc e es)
  then show ?case by (auto split: option.splits)
qed simp

text \<open>The action of one replica, read off the index.\<close>

definition actionFor :: "(instanceKey, CommandEntry) gomap \<Rightarrow> Command \<times> string \<times> int \<Rightarrow> CommandAction" where
  "actionFor m = (\<lambda>(d, h, i).
     let ex = map_of m (cName d, i) in
     \<lparr> aKind = (case ex of None \<Rightarrow> ActionCreate | Some e \<Rightarrow> if storedHash e = h then ActionUnchanged else ActionRecreate),
       aDesired = d, aScaleIndex = i, aInstanceName = InstanceName (cGeneratedName d) i,
       aExisting = ex, aDesiredHash = h \<rparr>)"

definition replicaKey :: "Command \<times> string \<times> int \<Rightarrow> instanceKey" where
  "replicaKey = (\<lambda>(d, h, i). (cName d, i))"

lemma planReplica_eq:
  "planReplica d h i (m, acts) = (AList.delete (cName d, i) m, acts @ [actionFor m (d, h, i)])"
proof (cases "map_of m (cName d, i)")
  case None
  then have "(cName d, i) \<notin> set (keys_of m)" by (metis map_of_None_iff)
  then have "AList.delete (cName d, i) m = m" by (simp add: delete_id)
  with None show ?thesis by (simp add: planReplica_def actionFor_def Let_def)
next
  case (Some e)
  then show ?thesis by (simp add: planReplica_def actionFor_def Let_def storedHash_def)
qed

lemma planReplica_fold:
  "distinct (map replicaKey ts) \<Longrightarrow>
     fold (\<lambda>(d, h, i). planReplica d h i) ts (m, acts) =
       (filter (\<lambda>p. fst p \<notin> replicaKey ` set ts) m, acts @ map (actionFor m) ts)"
proof (induction ts arbitrary: m acts)
  case (Cons t ts)
  obtain d h i where t: "t = (d, h, i)" by (cases t) auto
  have key: "(cName d, i) = replicaKey t" by (simp add: t replicaKey_def)
  have same: "actionFor (AList.delete (cName d, i) m) u = actionFor m u" if "u \<in> set ts" for u
  proof -
    have "replicaKey u \<in> replicaKey ` set ts" using that by (rule imageI)
    with Cons.prems have "replicaKey u \<noteq> (cName d, i)" unfolding key by auto
    then have "map_of (AList.delete (cName d, i) m) (replicaKey u) = map_of m (replicaKey u)"
      by (simp add: delete_conv')
    then show ?thesis by (cases u) (simp add: actionFor_def replicaKey_def)
  qed
  have "filter (\<lambda>p. fst p \<notin> replicaKey ` set ts) (AList.delete (cName d, i) m) =
        filter (\<lambda>p. fst p \<notin> replicaKey ` set (t # ts)) m"
    unfolding AList.delete_eq filter_filter by (rule filter_cong) (auto simp: key)
  with Cons.IH [of "AList.delete (cName d, i) m" "acts @ [actionFor m t]"] Cons.prems same
  show ?case by (simp add: t planReplica_eq cong: map_cong)
qed simp

text \<open>The replicas a plan visits, with the hash of their command.\<close>

definition replicasOf :: "(Command \<Rightarrow> string option) \<Rightarrow> Command list \<Rightarrow> string list \<Rightarrow> (Command \<times> string \<times> int) list" where
  "replicasOf hash cs ns = concat (map (\<lambda>n. case commandByName cs n of None \<Rightarrow> []
     | Some d \<Rightarrow> map (\<lambda>i. (d, the (hash d), int i + 1)) [0..<nat (max (cScale d) 1)]) ns)"

lemma planCommand_fold:
  "planCommand d h st = fold (\<lambda>(d, h, i). planReplica d h i)
     (map (\<lambda>i. (d, h, int i + 1)) [0..<nat (max (cScale d) 1)]) st"
  by (simp add: planCommand_def fold_map comp_def)

lemma planCommands_Inr:
  "planCommands hash cs ns st = Inr st' \<Longrightarrow>
     st' = fold (\<lambda>(d, h, i). planReplica d h i) (replicasOf hash cs ns) st \<and>
     (\<forall>n \<in> set ns. \<forall>d. commandByName cs n = Some d \<longrightarrow> hash d \<noteq> None)"
proof (induction ns arbitrary: st)
  case (Cons n ns)
  then show ?case
    by (auto simp: replicasOf_def planCommand_fold split: option.splits)
qed (simp add: replicasOf_def)

lemma commandByName_distinct:
  assumes "distinct (map cName cs)"
  shows "commandByName cs n = Some c \<longleftrightarrow> c \<in> set cs \<and> cName c = n"
proof -
  have "distinct (keys_of (rev (map (\<lambda>c. (cName c, c)) cs)))"
    using assms by (simp add: rev_map [symmetric] comp_def distinct_rev)
  then show ?thesis by (auto simp: commandByName_def)
qed

lemma replicasOf_keys:
  assumes "distinct (map cName cs)" and "set ns \<subseteq> set (map cName cs)"
  shows "map replicaKey (replicasOf hash cs ns) =
     concat (map (\<lambda>n. map (\<lambda>i. (n, int i + 1)) [0..<nat (max (case commandByName cs n of Some d \<Rightarrow> cScale d | None \<Rightarrow> 0) 1)]) ns)"
  using assms(2)
proof (induction ns)
  case (Cons n ns)
  then obtain c where "c \<in> set cs" "cName c = n" by auto
  with commandByName_distinct [OF assms(1)] have c: "commandByName cs n = Some c" "cName c = n" by blast+
  with Cons show ?case by (simp add: replicasOf_def replicaKey_def comp_def)
qed (simp add: replicasOf_def)

lemma distinct_replica_concat:
  "distinct ns \<Longrightarrow> distinct (concat (map (\<lambda>n. map (\<lambda>i. (n, int i + 1)) [0..<f n]) ns))"
  by (induction ns) (auto simp: distinct_map inj_on_def)

lemma ComputePlan_Inr:
  assumes "ComputePlan hash spec existing ks = Inr p"
  obtains m layers m' where "m = fold (\<lambda>e. AList.update (instanceOf e) e) (filter (wanted spec) existing) []"
    "TopoLayers (sCommands spec) = Inr layers"
    "pOrphans p = filter (\<lambda>e. configured e \<and> \<not> wanted spec e) existing"
    "fold (\<lambda>(d, h, i). planReplica d h i) (replicasOf hash (sCommands spec) (concat layers)) (m, []) = (m', pActions p)"
    "pExcess p = sort_key enName (List.map_filter (map_of m') (ks m'))"
    "\<forall>n \<in> set (concat layers). \<forall>d. commandByName (sCommands spec) n = Some d \<longrightarrow> hash d \<noteq> None"
proof -
  from assms obtain m os layers m' acts where
    i: "indexExisting spec existing [] [] = Inr (m, os)" and l: "TopoLayers (sCommands spec) = Inr layers"
    and c: "planCommands hash (sCommands spec) (concat layers) (m, []) = Inr (m', acts)"
    and p: "p = \<lparr> pActions = acts, pOrphans = os, pExcess = sort_key enName (List.map_filter (map_of m') (ks m')) \<rparr>"
    by (auto simp: ComputePlan_def split: sum.splits prod.splits)
  note idx = indexExisting_Inr [OF i] and pc = planCommands_Inr [OF c]
  show thesis
    by (rule that [of m layers m']) (use idx pc l p in auto)
qed

lemma map_filter_keys:
  "distinct (keys_of m) \<Longrightarrow> mset ks = mset (keys_of m) \<Longrightarrow> mset (List.map_filter (map_of m) ks) = mset (map snd m)"
proof -
  assume d: "distinct (keys_of m)" and k: "mset ks = mset (keys_of m)"
  have "List.map_filter (map_of m) ks = map (the \<circ> map_of m) ks"
  proof -
    have "\<forall>x \<in> set ks. map_of m x \<noteq> None" using k by (metis map_of_None_iff set_mset_mset)
    then show ?thesis by (induction ks) (auto simp: List.map_filter_simps)
  qed
  then have "mset (List.map_filter (map_of m) ks) = image_mset (the \<circ> map_of m) (mset (keys_of m))"
    by (metis k mset_map)
  also have "\<dots> = mset (map (\<lambda>p. the (map_of m (fst p))) m)" by (simp add: multiset.map_comp comp_def)
  also have "map (\<lambda>p. the (map_of m (fst p))) m = map snd m" using d by (intro map_cong refl) force
  finally show ?thesis .
qed

text \<open>The desired replicas of a project, in the order of \<open>names\<close>.\<close>

definition replicaList :: "Command list \<Rightarrow> string list \<Rightarrow> instanceKey list" where
  "replicaList cs names = concat (map (\<lambda>n. map (\<lambda>i. (n, int i + 1))
     [0..<nat (max (case commandByName cs n of Some d \<Rightarrow> cScale d | None \<Rightarrow> 0) 1)]) names)"

lemma replicaList_mem:
  assumes "distinct (map cName cs)" and "c \<in> set cs"
  shows "(cName c, i) \<in> set (replicaList cs ns) \<longleftrightarrow> cName c \<in> set ns \<and> 1 \<le> i \<and> i \<le> max (cScale c) 1"
proof -
  have c: "commandByName cs (cName c) = Some c" using commandByName_distinct [OF assms(1)] assms(2) by blast
  have "(cName c, i) \<in> set (replicaList cs ns) \<longleftrightarrow>
      cName c \<in> set ns \<and> (\<exists>k < nat (max (cScale c) 1). i = int k + 1)"
    using c by (auto simp: replicaList_def intro!: bexI [of _ "cName c"])
  moreover have "(\<exists>k < nat (max (cScale c) 1). i = int k + 1) \<longleftrightarrow> 1 \<le> i \<and> i \<le> max (cScale c) 1"
    by (auto intro!: exI [of _ "nat (i - 1)"])
  ultimately show ?thesis by blast
qed

lemma plan_facts:
  assumes dist: "distinct (map cName (sCommands spec))"
    and p: "ComputePlan hash spec existing ks = Inr p"
  obtains layers m where "TopoLayers (sCommands spec) = Inr layers"
    "set (concat layers) = set (map cName (sCommands spec))" "distinct (concat layers)"
    "m = fold (\<lambda>e. AList.update (instanceOf e) e) (filter (wanted spec) existing) []"
    "pActions p = map (actionFor m) (replicasOf hash (sCommands spec) (concat layers))"
    "pOrphans p = filter (\<lambda>e. configured e \<and> \<not> wanted spec e) existing"
    "pExcess p = (let m' = filter (\<lambda>q. fst q \<notin> set (replicaList (sCommands spec) (concat layers))) m
                  in sort_key enName (List.map_filter (map_of m') (ks m')))"
    "\<forall>d \<in> set (sCommands spec). hash d \<noteq> None"
proof -
  from ComputePlan_Inr [OF p] obtain m layers m' where c:
    "m = fold (\<lambda>e. AList.update (instanceOf e) e) (filter (wanted spec) existing) []"
    "TopoLayers (sCommands spec) = Inr layers"
    "pOrphans p = filter (\<lambda>e. configured e \<and> \<not> wanted spec e) existing"
    "fold (\<lambda>(d, h, i). planReplica d h i) (replicasOf hash (sCommands spec) (concat layers)) (m, []) = (m', pActions p)"
    "pExcess p = sort_key enName (List.map_filter (map_of m') (ks m'))"
    "\<forall>n \<in> set (concat layers). \<forall>d. commandByName (sCommands spec) n = Some d \<longrightarrow> hash d \<noteq> None" .
  from c(2) topoLayers_cases [OF dist] have l: "set (concat layers) = set (map cName (sCommands spec))"
    "distinct (concat layers)" by (auto simp: TopoLayers_def layered_def)
  note keys = replicasOf_keys [OF dist, of "concat layers" hash, folded replicaList_def]
  have k: "map replicaKey (replicasOf hash (sCommands spec) (concat layers)) = replicaList (sCommands spec) (concat layers)"
    using keys l(1) by simp
  have d: "distinct (map replicaKey (replicasOf hash (sCommands spec) (concat layers)))"
    unfolding k replicaList_def by (rule distinct_replica_concat [OF l(2)])
  have r: "replicaKey ` set (replicasOf hash (sCommands spec) (concat layers)) = set (replicaList (sCommands spec) (concat layers))"
    unfolding k [symmetric] by simp
  from planReplica_fold [OF d, of m "[]"] c(4)
  have e: "m' = filter (\<lambda>q. fst q \<notin> set (replicaList (sCommands spec) (concat layers))) m"
    "pActions p = map (actionFor m) (replicasOf hash (sCommands spec) (concat layers))" unfolding r by auto
  have h: "hash x \<noteq> None" if "x \<in> set (sCommands spec)" for x
  proof -
    have "cName x \<in> set (concat layers)" unfolding l(1) using that by simp
    moreover have "commandByName (sCommands spec) (cName x) = Some x"
      using commandByName_distinct [OF dist] that by simp
    ultimately show ?thesis using c(6) by blast
  qed
  show thesis
    by (rule that [of layers m]) (use c(1-3,5) l e h in \<open>simp_all add: Let_def\<close>)
qed

lemma actionFor_sel [simp]:
  "aDesired (actionFor m t) = fst t" "aScaleIndex (actionFor m t) = snd (snd t)"
  "aExisting (actionFor m t) = map_of m (replicaKey t)" "aDesiredHash (actionFor m t) = fst (snd t)"
  "aInstanceName (actionFor m t) = InstanceName (cGeneratedName (fst t)) (snd (snd t))"
  "aKind (actionFor m t) = (case map_of m (replicaKey t) of None \<Rightarrow> ActionCreate
     | Some e \<Rightarrow> if storedHash e = fst (snd t) then ActionUnchanged else ActionRecreate)"
  by (simp_all add: actionFor_def Let_def replicaKey_def case_prod_beta)

lemma plan_actions:
  assumes "distinct (map cName (sCommands spec))" and "ComputePlan hash spec existing ks = Inr p"
  shows "\<exists>layers. TopoLayers (sCommands spec) = Inr layers \<and>
     map (\<lambda>a. (cName (aDesired a), aScaleIndex a)) (pActions p) = replicaList (sCommands spec) (concat layers) \<and>
     (\<forall>a \<in> set (pActions p). aDesired a \<in> set (sCommands spec) \<and> Some (aDesiredHash a) = hash (aDesired a) \<and>
        aInstanceName a = InstanceName (cGeneratedName (aDesired a)) (aScaleIndex a) \<and>
        (case aExisting a of
           None \<Rightarrow> aKind a = ActionCreate \<and>
             (\<forall>e \<in> set existing. wanted spec e \<longrightarrow> instanceOf e \<noteq> (cName (aDesired a), aScaleIndex a))
         | Some e \<Rightarrow> e \<in> set existing \<and> instanceOf e = (cName (aDesired a), aScaleIndex a) \<and>
             aKind a = (if storedHash e = aDesiredHash a then ActionUnchanged else ActionRecreate)))"
proof -
  obtain layers m where f: "TopoLayers (sCommands spec) = Inr layers"
    "set (concat layers) = set (map cName (sCommands spec))"
    "m = fold (\<lambda>e. AList.update (instanceOf e) e) (filter (wanted spec) existing) []"
    "pActions p = map (actionFor m) (replicasOf hash (sCommands spec) (concat layers))"
    "\<forall>d \<in> set (sCommands spec). hash d \<noteq> None" by (rule plan_facts [OF assms]) (rule that)
  have keys: "map replicaKey (replicasOf hash (sCommands spec) (concat layers)) = replicaList (sCommands spec) (concat layers)"
    using replicasOf_keys [OF assms(1)] f(2) unfolding replicaList_def by blast
  have look: "case map_of m k of None \<Rightarrow> (\<forall>e \<in> set existing. wanted spec e \<longrightarrow> instanceOf e \<noteq> k)
      | Some e \<Rightarrow> e \<in> set existing \<and> instanceOf e = k" for k
    unfolding f(3) using fold_update_lookup [where f = instanceOf and es = "filter (wanted spec) existing" and k = k] by (auto split: option.splits)
  have mem: "fst t \<in> set (sCommands spec) \<and> Some (fst (snd t)) = hash (fst t)"
    if "t \<in> set (replicasOf hash (sCommands spec) (concat layers))" for t
  proof -
    from that obtain n d i where "commandByName (sCommands spec) n = Some d" "t = (d, the (hash d), i)"
      by (auto simp: replicasOf_def split: option.splits)
    with commandByName_distinct [OF assms(1)] f(5) [rule_format, of d] show ?thesis by auto
  qed
  have key: "replicaKey t = (cName (fst t), snd (snd t))" for t by (cases t) (simp add: replicaKey_def)
  have "map (\<lambda>a. (cName (aDesired a), aScaleIndex a)) (pActions p) = replicaList (sCommands spec) (concat layers)"
    unfolding keys [symmetric] f(4) by (simp add: key)
  moreover have "aDesired a \<in> set (sCommands spec) \<and> Some (aDesiredHash a) = hash (aDesired a) \<and>
        aInstanceName a = InstanceName (cGeneratedName (aDesired a)) (aScaleIndex a) \<and>
        (case aExisting a of
           None \<Rightarrow> aKind a = ActionCreate \<and>
             (\<forall>e \<in> set existing. wanted spec e \<longrightarrow> instanceOf e \<noteq> (cName (aDesired a), aScaleIndex a))
         | Some e \<Rightarrow> e \<in> set existing \<and> instanceOf e = (cName (aDesired a), aScaleIndex a) \<and>
             aKind a = (if storedHash e = aDesiredHash a then ActionUnchanged else ActionRecreate))"
    if "a \<in> set (pActions p)" for a
  proof -
    from that f(4) obtain t where t: "a = actionFor m t" "t \<in> set (replicasOf hash (sCommands spec) (concat layers))"
      by auto
    from mem [OF t(2)] look [of "replicaKey t"] show ?thesis
      unfolding t(1) by (cases "map_of m (replicaKey t)") (simp_all add: key)
  qed
  ultimately show ?thesis using f(1) by blast
qed

text \<open>C25: A plan has exactly one action for every desired replica, in dependency order
  (the layers of \<^verbatim>\<open>TopoLayers\<close>, replicas ascending), each for the command's own hash and
  instance name; the action creates the replica when no stored command carries its
  command name and scale index, keeps it when the stored hash equals the desired one,
  and recreates it otherwise.\<close>

theorem ComputePlan_actions:
  assumes "distinct (map cName (sCommands spec))" and "ComputePlan hash spec existing ks = Inr p"
  shows "\<exists>layers. TopoLayers (sCommands spec) = Inr layers \<and>
     map (\<lambda>a. (cName (aDesired a), aScaleIndex a)) (pActions p) = replicaList (sCommands spec) (concat layers) \<and>
     (\<forall>a \<in> set (pActions p). aDesired a \<in> set (sCommands spec) \<and> Some (aDesiredHash a) = hash (aDesired a) \<and>
        aInstanceName a = InstanceName (cGeneratedName (aDesired a)) (aScaleIndex a) \<and>
        (case aExisting a of
           None \<Rightarrow> aKind a = ActionCreate \<and>
             (\<forall>e \<in> set existing. wanted spec e \<longrightarrow> instanceOf e \<noteq> (cName (aDesired a), aScaleIndex a))
         | Some e \<Rightarrow> e \<in> set existing \<and> instanceOf e = (cName (aDesired a), aScaleIndex a) \<and>
             aKind a = (if storedHash e = aDesiredHash a then ActionUnchanged else ActionRecreate)))"
  by (rule plan_actions [OF assms])

lemma key_filter_split:
  assumes "distinct (keys_of m)" and "distinct ls"
  shows "mset (map snd m) = mset (List.map_filter (map_of m) ls) + mset (map snd (filter (\<lambda>q. fst q \<notin> set ls) m))"
proof -
  let ?in = "filter (\<lambda>q. fst q \<in> set ls) m"
  have d: "distinct (keys_of ?in)" using assms(1) by (rule distinct_map_filter)
  have look: "map_of m k = map_of ?in k" if "k \<in> set ls" for k
    using that by (induction m) auto
  let ?ks = "filter (\<lambda>k. k \<in> set (keys_of m)) ls"
  have "List.map_filter (map_of m) ls = List.map_filter (map_of ?in) ?ks"
  proof -
    have "List.map_filter (map_of m) ys = List.map_filter (map_of ?in) (filter (\<lambda>k. k \<in> set (keys_of m)) ys)"
      if "set ys \<subseteq> set ls" for ys
      using that
    proof (induction ys)
      case (Cons y ys)
      show ?case
      proof (cases "y \<in> set (keys_of m)")
        case True
        with Cons look [of y] show ?thesis by (auto simp: List.map_filter_simps split: option.splits)
      next
        case False
        then have "map_of m y = None" by (metis map_of_None_iff)
        with False Cons show ?thesis by (simp add: List.map_filter_simps)
      qed
    qed simp
    then show ?thesis by blast
  qed
  moreover have "mset ?ks = mset (keys_of ?in)"
    using assms(2) d by (intro set_eq_iff_mset_eq_distinct [THEN iffD1]) auto
  ultimately have "mset (List.map_filter (map_of m) ls) = mset (map snd ?in)"
    using map_filter_keys [OF d] by simp
  moreover have "mset (map snd m) = mset (map snd ?in) + mset (map snd (filter (\<lambda>q. fst q \<notin> set ls) m))"
    using arg_cong [OF multiset_partition [of "mset m" "\<lambda>q. fst q \<in> set ls"], of "image_mset snd"]
    by (simp flip: mset_filter mset_map)
  ultimately show ?thesis by simp
qed

text \<open>Orphans and excess replicas, with no assumption on the stored commands.\<close>

lemma plan_outside:
  assumes dist: "distinct (map cName (sCommands spec))"
    and ks: "\<And>m :: (instanceKey, CommandEntry) gomap. mset (ks m) = mset (keys_of m)"
    and p: "ComputePlan hash spec existing ks = Inr p"
  shows "set (pOrphans p) = {e \<in> set existing. configured e \<and> \<not> wanted spec e}"
    and "set (pExcess p) \<subseteq> {e \<in> set existing. wanted spec e \<and>
            instanceOf e \<notin> (\<lambda>a. (cName (aDesired a), aScaleIndex a)) ` set (pActions p)}"
proof -
  obtain layers m where f: "TopoLayers (sCommands spec) = Inr layers"
    "set (concat layers) = set (map cName (sCommands spec))" "distinct (concat layers)"
    "m = fold (\<lambda>e. AList.update (instanceOf e) e) (filter (wanted spec) existing) []"
    "pActions p = map (actionFor m) (replicasOf hash (sCommands spec) (concat layers))"
    "pOrphans p = filter (\<lambda>e. configured e \<and> \<not> wanted spec e) existing"
    "pExcess p = (let m' = filter (\<lambda>q. fst q \<notin> set (replicaList (sCommands spec) (concat layers))) m
                  in sort_key enName (List.map_filter (map_of m') (ks m')))"
    by (rule plan_facts [OF dist p]) (rule that)
  let ?ls = "replicaList (sCommands spec) (concat layers)"
  show "set (pOrphans p) = {e \<in> set existing. configured e \<and> \<not> wanted spec e}" by (simp add: f(6))
  have k: "map replicaKey (replicasOf hash (sCommands spec) (concat layers)) = ?ls"
    using replicasOf_keys [OF dist] f(2) unfolding replicaList_def by blast
  have keys: "(\<lambda>a. (cName (aDesired a), aScaleIndex a)) ` set (pActions p) = set ?ls"
    unfolding k [symmetric] f(5) by (force simp: replicaKey_def case_prod_beta)
  show "set (pExcess p) \<subseteq> {e \<in> set existing. wanted spec e \<and>
            instanceOf e \<notin> (\<lambda>a. (cName (aDesired a), aScaleIndex a)) ` set (pActions p)}"
  proof (rule subsetI)
    fix e assume "e \<in> set (pExcess p)"
    then obtain q where q: "map_of (filter (\<lambda>q. fst q \<notin> set ?ls) m) q = Some e"
      by (auto simp: f(7) Let_def map_filter_def)
    then have "(q, e) \<in> set m" "q \<notin> set ?ls" by (auto dest!: map_of_SomeD)
    moreover have "instanceOf e' = q' \<and> e' \<in> set existing \<and> wanted spec e'" if "(q', e') \<in> set m" for q' e'
      using that fold_update_entries [where f = instanceOf and es = "filter (wanted spec) existing" and m = "[]"]
      unfolding f(4) by auto
    ultimately show "e \<in> {e \<in> set existing. wanted spec e \<and>
            instanceOf e \<notin> (\<lambda>a. (cName (aDesired a), aScaleIndex a)) ` set (pActions p)}"
      unfolding keys by blast
  qed
qed

lemma plan_partition:
  assumes dist: "distinct (map cName (sCommands spec))"
    and keys: "distinct (map instanceOf (filter (wanted spec) existing))"
    and ks: "\<And>m :: (instanceKey, CommandEntry) gomap. mset (ks m) = mset (keys_of m)"
    and p: "ComputePlan hash spec existing ks = Inr p"
  shows "mset (filter configured existing) =
           mset (pOrphans p) + mset (List.map_filter aExisting (pActions p)) + mset (pExcess p) \<and>
         set (pOrphans p) = {e \<in> set existing. configured e \<and> \<not> wanted spec e} \<and>
         set (pExcess p) = {e \<in> set existing. wanted spec e \<and>
            instanceOf e \<notin> (\<lambda>a. (cName (aDesired a), aScaleIndex a)) ` set (pActions p)} \<and>
         sorted (map enName (pExcess p))"
proof -
  obtain layers m where f: "TopoLayers (sCommands spec) = Inr layers"
    "set (concat layers) = set (map cName (sCommands spec))" "distinct (concat layers)"
    "m = fold (\<lambda>e. AList.update (instanceOf e) e) (filter (wanted spec) existing) []"
    "pActions p = map (actionFor m) (replicasOf hash (sCommands spec) (concat layers))"
    "pOrphans p = filter (\<lambda>e. configured e \<and> \<not> wanted spec e) existing"
    "pExcess p = (let m' = filter (\<lambda>q. fst q \<notin> set (replicaList (sCommands spec) (concat layers))) m
                  in sort_key enName (List.map_filter (map_of m') (ks m')))"
    by (rule plan_facts [OF dist p]) (rule that)
  let ?ls = "replicaList (sCommands spec) (concat layers)" and ?w = "filter (wanted spec) existing"
  let ?m' = "filter (\<lambda>q. fst q \<notin> set ?ls) m"
  have m: "m = map (\<lambda>e. (instanceOf e, e)) ?w" using fold_update_distinct [OF keys, of "[]"] f(4) by simp
  have dm: "distinct (keys_of m)" using keys by (simp add: m comp_def)
  have dl: "distinct ?ls" unfolding replicaList_def by (rule distinct_replica_concat [OF f(3)])
  have k: "map replicaKey (replicasOf hash (sCommands spec) (concat layers)) = ?ls"
    using replicasOf_keys [OF dist] f(2) unfolding replicaList_def by blast
  have ex: "List.map_filter aExisting (pActions p) = List.map_filter (map_of m) ?ls"
  proof -
    have "List.map_filter aExisting (map (actionFor m) ts) = List.map_filter (map_of m) (map replicaKey ts)" for ts
      by (induction ts) (auto simp: List.map_filter_simps split: option.splits)
    then show ?thesis unfolding f(5) k [symmetric] .
  qed
  have exc: "mset (pExcess p) = mset (map snd ?m')"
    using map_filter_keys [OF distinct_map_filter [OF dm] ks] by (simp add: f(7) Let_def)
  have "mset (map snd m) = mset ?w" by (simp add: m comp_def)
  moreover have "mset (filter configured existing) = mset (pOrphans p) + mset ?w"
    unfolding f(6) by (induction existing) (auto simp: wanted_def)
  ultimately have "mset (filter configured existing) =
      mset (pOrphans p) + mset (List.map_filter aExisting (pActions p)) + mset (pExcess p)"
    using key_filter_split [OF dm dl] by (simp add: ex exc ac_simps)
  moreover have "set (pExcess p) = {e \<in> set existing. wanted spec e \<and> instanceOf e \<notin> set ?ls}"
  proof -
    have "set (pExcess p) = set (map snd ?m')" using arg_cong [OF exc, of set_mset] by simp
    also have "\<dots> = {e \<in> set existing. wanted spec e \<and> instanceOf e \<notin> set ?ls}"
      unfolding m filter_map by (simp add: comp_def image_image)
    finally show ?thesis .
  qed
  moreover have "(\<lambda>a. (cName (aDesired a), aScaleIndex a)) ` set (pActions p) = set ?ls"
    unfolding k [symmetric] f(5) by (force simp: replicaKey_def case_prod_beta)
  moreover have "sorted (map enName (pExcess p))" by (simp add: f(7) Let_def)
  ultimately show ?thesis by (simp add: f(6) conj_ac)
qed

text \<open>A plan accounts for every stored command of the project that has a config.
  When no two of them carry the same command name and scale index, each is exactly one
  of: an orphan (its command is not in the project), the existing command of exactly
  one action, or an excess replica; and the excess replicas are those of wanted
  commands whose scale index is not desired, in order of their names.\<close>

lemma ComputePlan_partition:
  assumes dist: "distinct (map cName (sCommands spec))"
    and keys: "distinct (map instanceOf (filter (wanted spec) existing))"
    and ks: "\<And>m :: (instanceKey, CommandEntry) gomap. mset (ks m) = mset (keys_of m)"
    and p: "ComputePlan hash spec existing ks = Inr p"
  shows "mset (filter configured existing) =
           mset (pOrphans p) + mset (List.map_filter aExisting (pActions p)) + mset (pExcess p) \<and>
         set (pOrphans p) = {e \<in> set existing. configured e \<and> \<not> wanted spec e} \<and>
         set (pExcess p) = {e \<in> set existing. wanted spec e \<and>
            instanceOf e \<notin> (\<lambda>a. (cName (aDesired a), aScaleIndex a)) ` set (pActions p)} \<and>
         sorted (map enName (pExcess p))"
  by (rule plan_partition [OF assms])

section \<open>Labels read back\<close>

lemma label_of_update [simp]: "label_of (AList.update k v m) k' = (if k' = k then v else label_of m k')"
  by (simp add: label_of_def)

lemma BuildLabels_read:
  "label_of (BuildLabels mA mH spec cmd h i) LabelProject = sProject spec" "label_of (BuildLabels mA mH spec cmd h i) LabelCommand = cName cmd"
  "label_of (BuildLabels mA mH spec cmd h i) LabelConfigHash = h" "label_of (BuildLabels mA mH spec cmd h i) LabelWorkdir = sWorkDir spec"
  "label_of (BuildLabels mA mH spec cmd h i) LabelFile = sComposeFile spec" "label_of (BuildLabels mA mH spec cmd h i) LabelScaleIndex = itoa i"
  "label_of (BuildLabels mA mH spec cmd h i) LabelScale = itoa (max (cScale cmd) 1)"
  unfolding BuildLabels_def by (simp_all add: Label_defs Let_def)

lemma BuildLabels_user:
  assumes "take (length LabelPrefix) k \<noteq> LabelPrefix"
  shows "label_of (BuildLabels mA mH spec cmd h i) k = label_of (cLabels cmd) k"
proof -
  from assms have "k \<notin> {LabelProject, LabelCommand, LabelConfigHash, LabelVersion, LabelWorkdir, LabelFile,
      LabelScaleIndex, LabelScale, LabelAfter, LabelHooks}"
    by (auto simp: Label_defs)
  then show ?thesis by (simp add: BuildLabels_def Let_def)
qed

text \<open>The labels of a replica record its identity. Reading back what \<^verbatim>\<open>BuildLabels\<close>
  wrote gives the command name, the scale index and replica count (for 64-bit values),
  the hash and the compose file; a user label, whose key does not start with the
  reserved prefix, is kept as written.\<close>

lemma BuildLabels_roundtrip:
  assumes "minInt64 \<le> i" "i \<le> maxInt64" "cScale cmd \<le> maxInt64"
    and "enConfigJSON e = Some cfg" and "ccLabels cfg = BuildLabels mA mH spec cmd h i"
  shows "commandNameOf e = cName cmd \<and> scaleIndexOf e = i \<and> ScaleOf (ccLabels cfg) = (i, max (cScale cmd) 1) \<and>
    storedHash e = h \<and> label_of (ccLabels cfg) LabelFile = sComposeFile spec \<and>
    (\<forall>k. take (length LabelPrefix) k \<noteq> LabelPrefix \<longrightarrow> label_of (ccLabels cfg) k = label_of (cLabels cmd) k)"
proof -
  have "minInt64 \<le> max (cScale cmd) 1" "max (cScale cmd) 1 \<le> maxInt64"
    using assms(3) by (simp_all add: minInt64_def maxInt64_def)
  then show ?thesis using assms atoi_itoa
    by (simp add: commandNameOf_def scaleIndexOf_def ScaleOf_def scaleLabelValue_def storedHash_def
        BuildLabels_read BuildLabels_user)
qed

text \<open>A stored command as a create of replica \<open>i\<close> of \<open>c\<close> leaves it.\<close>

definition recorded ::
  "(AfterSpec list \<Rightarrow> string) \<Rightarrow> (LifecycleHook list \<Rightarrow> string) \<Rightarrow> ComposeSpec \<Rightarrow> (Command \<Rightarrow> string option)
     \<Rightarrow> Command \<Rightarrow> int \<Rightarrow> CommandEntry \<Rightarrow> bool" where
  "recorded mA mH spec hash c i e \<longleftrightarrow>
     (\<exists>cfg. enConfigJSON e = Some cfg \<and> ccLabels cfg = BuildLabels mA mH spec c (the (hash c)) i)"

lemma recorded_read:
  assumes "recorded mA mH spec hash c i e" and "0 \<le> i" "i \<le> maxInt64"
  shows "instanceOf e = (cName c, i)" "storedHash e = the (hash c)" "configured e"
    "\<exists>cfg. enConfigJSON e = Some cfg \<and> label_of (ccLabels cfg) LabelFile = sComposeFile spec"
proof -
  from assms(1) obtain cfg where cfg: "enConfigJSON e = Some cfg"
    "ccLabels cfg = BuildLabels mA mH spec c (the (hash c)) i" by (auto simp: recorded_def)
  have "minInt64 \<le> i" using assms(2) by (simp add: minInt64_def)
  with cfg assms(3) atoi_itoa
  show "instanceOf e = (cName c, i)" "storedHash e = the (hash c)" "configured e"
    "\<exists>cfg. enConfigJSON e = Some cfg \<and> label_of (ccLabels cfg) LabelFile = sComposeFile spec"
    by (simp_all add: instanceOf_def commandNameOf_def scaleIndexOf_def ScaleOf_def scaleLabelValue_def
        storedHash_def configured_def BuildLabels_read)
qed

lemma indexExisting_total:
  assumes "\<And>e cfg. e \<in> set es \<Longrightarrow> enConfigJSON e = Some cfg \<Longrightarrow> label_of (ccLabels cfg) LabelFile = sComposeFile spec"
  shows "\<exists>r. indexExisting spec es m os = Inr r"
  using assms
proof (induction es arbitrary: m os)
  case (Cons e es)
  have ih: "\<exists>r. indexExisting spec es m os = Inr r" for m os
    by (rule Cons.IH) (use Cons.prems in auto)
  show ?case
  proof (cases "enConfigJSON e")
    case None
    with ih show ?thesis by simp
  next
    case (Some cfg)
    with Cons.prems [of e cfg] ih show ?thesis by (simp add: Let_def)
  qed
qed simp

lemma planCommands_total:
  "(\<And>d. d \<in> set cs \<Longrightarrow> hash d \<noteq> None) \<Longrightarrow> \<exists>r. planCommands hash cs ns st = Inr r"
proof (induction ns arbitrary: st)
  case (Cons n ns)
  show ?case
  proof (cases "commandByName cs n")
    case None
    with Cons show ?thesis by simp
  next
    case (Some d)
    then have "d \<in> set cs" by (auto simp: commandByName_def dest!: map_of_SomeD)
    with Cons Some show ?thesis by (auto split: option.splits)
  qed
qed simp

lemma ComputePlan_total:
  assumes "ValidateDAG (sCommands spec) = Inr ()" and "\<And>d. d \<in> set (sCommands spec) \<Longrightarrow> hash d \<noteq> None"
    and "\<And>e cfg. e \<in> set es \<Longrightarrow> enConfigJSON e = Some cfg \<Longrightarrow> label_of (ccLabels cfg) LabelFile = sComposeFile spec"
  shows "\<exists>p. ComputePlan hash spec es ks = Inr p"
proof -
  from assms(1) have "\<exists>ls. TopoLayers (sCommands spec) = Inr ls"
    by (auto simp: ValidateDAG_def TopoLayers_def split: sum.splits)
  then obtain ls where "TopoLayers (sCommands spec) = Inr ls" ..
  moreover obtain m os where "indexExisting spec es [] [] = Inr (m, os)"
    using indexExisting_total [of es spec "[]" "[]", OF assms(3)] by force
  moreover obtain r where "planCommands hash (sCommands spec) (concat ls) (m, []) = Inr r"
    using planCommands_total [of "sCommands spec" hash "concat ls" "(m, [])"] assms(2) by blast
  ultimately show ?thesis using assms(1) by (simp add: ComputePlan_def split: prod.splits)
qed

lemma in_concat_map: "c \<in> set cs \<Longrightarrow> x \<in> set (F c) \<Longrightarrow> x \<in> set (concat (map F cs))"
  by auto

text \<open>When every stored command is a desired replica with the desired hash and every desired
  replica is stored, an action of the plan keeps its replica.\<close>

lemma kept_kind:
  assumes dist: "distinct (map cName (sCommands spec))" and plan: "ComputePlan hash spec existing ks = Inr p"
    and sound: "\<And>e. e \<in> set existing \<Longrightarrow> \<exists>c i. c \<in> set (sCommands spec) \<and> 1 \<le> i \<and> i \<le> max (cScale c) 1 \<and>
        instanceOf e = (cName c, i) \<and> storedHash e = the (hash c)"
    and compl: "\<And>c i. c \<in> set (sCommands spec) \<Longrightarrow> 1 \<le> i \<Longrightarrow> i \<le> max (cScale c) 1 \<Longrightarrow>
        \<exists>e \<in> set existing. wanted spec e \<and> instanceOf e = (cName c, i)"
  shows "\<forall>x \<in> set (pActions p). aKind x = ActionUnchanged"
    and "\<forall>e \<in> set existing. instanceOf e \<in> (\<lambda>a. (cName (aDesired a), aScaleIndex a)) ` set (pActions p)"
proof -
  let ?key = "\<lambda>a. (cName (aDesired a), aScaleIndex a)"
  from plan_actions [OF dist plan] obtain layers where l: "TopoLayers (sCommands spec) = Inr layers"
    "map ?key (pActions p) = replicaList (sCommands spec) (concat layers)"
    and a: "\<forall>a \<in> set (pActions p). aDesired a \<in> set (sCommands spec) \<and> Some (aDesiredHash a) = hash (aDesired a) \<and>
        aInstanceName a = InstanceName (cGeneratedName (aDesired a)) (aScaleIndex a) \<and>
        (case aExisting a of
           None \<Rightarrow> aKind a = ActionCreate \<and>
             (\<forall>e \<in> set existing. wanted spec e \<longrightarrow> instanceOf e \<noteq> (cName (aDesired a), aScaleIndex a))
         | Some e \<Rightarrow> e \<in> set existing \<and> instanceOf e = (cName (aDesired a), aScaleIndex a) \<and>
             aKind a = (if storedHash e = aDesiredHash a then ActionUnchanged else ActionRecreate))" by blast
  have keys: "?key ` set (pActions p) = set (replicaList (sCommands spec) (concat layers))"
    using arg_cong [OF l(2), of set] by simp
  show "\<forall>x \<in> set (pActions p). aKind x = ActionUnchanged"
  proof
    fix x assume x: "x \<in> set (pActions p)"
    with a have d: "aDesired x \<in> set (sCommands spec)" by blast
    have "?key x \<in> set (replicaList (sCommands spec) (concat layers))" using x unfolding keys [symmetric] by (rule imageI)
    then have i: "1 \<le> aScaleIndex x" "aScaleIndex x \<le> max (cScale (aDesired x)) 1" using replicaList_mem [OF dist d] by auto
    show "aKind x = ActionUnchanged"
    proof (cases "aExisting x")
      case None
      with a x compl [OF d i] show ?thesis by auto
    next
      case (Some e)
      with a x have e: "e \<in> set existing" "instanceOf e = ?key x" "Some (aDesiredHash x) = hash (aDesired x)"
        "aKind x = (if storedHash e = aDesiredHash x then ActionUnchanged else ActionRecreate)" by auto
      from sound [OF e(1)] e(2) obtain c where "c \<in> set (sCommands spec)" "cName c = cName (aDesired x)" "storedHash e = the (hash c)" by auto
      with dist d have "storedHash e = the (hash (aDesired x))" by (metis distinct_map inj_onD)
      with e(3,4) show ?thesis by (metis option.sel)
    qed
  qed
  have "set (concat layers) = set (map cName (sCommands spec))"
    using l(1) topoLayers_cases [OF dist] by (auto simp: TopoLayers_def)
  then show "\<forall>e \<in> set existing. instanceOf e \<in> ?key ` set (pActions p)"
    unfolding keys using sound replicaList_mem [OF dist, of _ _ "concat layers"] by fastforce
qed

text \<open>The stored commands that creates of every desired replica leave behind.\<close>

lemma recorded_project:
  assumes hash: "\<And>c. c \<in> set (sCommands spec) \<Longrightarrow> hash c \<noteq> None \<and> cScale c \<le> maxInt64"
    and ex: "mset existing = mset (concat (map (\<lambda>c. map (\<lambda>i. f c (int i + 1)) [0..<nat (max (cScale c) 1)]) (sCommands spec)))"
    and rec: "\<And>c i. c \<in> set (sCommands spec) \<Longrightarrow> 1 \<le> i \<Longrightarrow> i \<le> max (cScale c) 1 \<Longrightarrow> recorded mA mH spec hash c i (f c i)"
  shows "e \<in> set existing \<Longrightarrow> wanted spec e \<and>
      (\<exists>cfg. enConfigJSON e = Some cfg \<and> label_of (ccLabels cfg) LabelFile = sComposeFile spec) \<and>
      (\<exists>c i. c \<in> set (sCommands spec) \<and> 1 \<le> i \<and> i \<le> max (cScale c) 1 \<and> instanceOf e = (cName c, i) \<and> storedHash e = the (hash c))"
    and "c \<in> set (sCommands spec) \<Longrightarrow> 1 \<le> i \<Longrightarrow> i \<le> max (cScale c) 1 \<Longrightarrow>
      \<exists>e \<in> set existing. wanted spec e \<and> instanceOf e = (cName c, i)"
proof -
  let ?F = "\<lambda>c. map (\<lambda>i. f c (int i + 1)) [0..<nat (max (cScale c) 1)]"
  have r: "instanceOf (f c i) = (cName c, i) \<and> storedHash (f c i) = the (hash c) \<and> wanted spec (f c i) \<and>
      (\<exists>cfg. enConfigJSON (f c i) = Some cfg \<and> label_of (ccLabels cfg) LabelFile = sComposeFile spec)"
    if "c \<in> set (sCommands spec)" "1 \<le> i" "i \<le> max (cScale c) 1" for c i
  proof -
    have "0 \<le> i" "i \<le> maxInt64" using that hash [OF that(1)] by (auto simp: maxInt64_def)
    from recorded_read [OF rec [OF that] this] that(1) show ?thesis by (auto simp: wanted_def instanceOf_def)
  qed
  {
    assume "e \<in> set existing"
    with arg_cong [OF ex, of set_mset] obtain c k where "c \<in> set (sCommands spec)" "k < nat (max (cScale c) 1)"
      "e = f c (int k + 1)" by auto
    with r [of c "int k + 1"] show "wanted spec e \<and>
      (\<exists>cfg. enConfigJSON e = Some cfg \<and> label_of (ccLabels cfg) LabelFile = sComposeFile spec) \<and>
      (\<exists>c i. c \<in> set (sCommands spec) \<and> 1 \<le> i \<and> i \<le> max (cScale c) 1 \<and> instanceOf e = (cName c, i) \<and> storedHash e = the (hash c))"
      by (auto intro!: exI [of _ c] exI [of _ "int k + 1"])
  }
  {
    assume c: "c \<in> set (sCommands spec)" "1 \<le> i" "i \<le> max (cScale c) 1"
    have "f c i \<in> set (?F c)" using c by (auto intro!: image_eqI [of _ _ "nat (i - 1)"])
    from in_concat_map [where F = ?F, OF c(1) this] have "f c i \<in># mset existing" unfolding ex by simp
    with r [OF c] show "\<exists>e \<in> set existing. wanted spec e \<and> instanceOf e = (cName c, i)" by auto
  }
qed

text \<open>C26: Reconciling twice is a no-op. When the stored commands are exactly what creates
  of every desired replica recorded, the plan keeps all of them: no create, no recreate,
  no orphan and no excess replica.\<close>

theorem plan_idempotent:
  assumes dist: "distinct (map cName (sCommands spec))" and dag: "ValidateDAG (sCommands spec) = Inr ()"
    and hash: "\<And>c. c \<in> set (sCommands spec) \<Longrightarrow> hash c \<noteq> None \<and> cScale c \<le> maxInt64"
    and ks: "\<And>m :: (instanceKey, CommandEntry) gomap. mset (ks m) = mset (keys_of m)"
    and ex: "mset existing = mset (concat (map (\<lambda>c. map (\<lambda>i. f c (int i + 1)) [0..<nat (max (cScale c) 1)]) (sCommands spec)))"
    and rec: "\<And>c i. c \<in> set (sCommands spec) \<Longrightarrow> 1 \<le> i \<Longrightarrow> i \<le> max (cScale c) 1 \<Longrightarrow> recorded mA mH spec hash c i (f c i)"
  shows "\<exists>p. ComputePlan hash spec existing ks = Inr p \<and> pOrphans p = [] \<and> pExcess p = [] \<and>
     (\<forall>a \<in> set (pActions p). aKind a = ActionUnchanged)"
proof -
  note facts = recorded_project [OF hash ex rec]
  obtain p where p: "ComputePlan hash spec existing ks = Inr p"
    using ComputePlan_total [OF dag, of hash existing ks] hash facts(1) by fastforce
  note kept = kept_kind [OF dist p conjunct2 [OF conjunct2 [OF facts(1)]] facts(2)]
  have "set (pOrphans p) = {}" using plan_outside(1) [OF dist ks p] facts(1) by auto
  moreover have "set (pExcess p) = {}"
  proof (rule ccontr)
    assume "set (pExcess p) \<noteq> {}"
    then have "hd (pExcess p) \<in> set (pExcess p)" by simp
    from subsetD [OF plan_outside(2) [OF dist ks p] this] kept(2) [THEN bspec, of "hd (pExcess p)"] show False by simp
  qed
  ultimately show ?thesis using p kept(1) by auto
qed

section \<open>A scaled project\<close>

definition planSpec :: ComposeSpec where
  "planSpec = \<lparr> sComposeFile = ''/p/compose.yaml'', sProject = ''p'', sWorkDir = ''/p'', sWorkDirDeclared = False,
     sCommands = [(bare_command ''web'' [\<lparr>asName = ''db'', asCondition = ConditionRunning\<rparr>])\<lparr>cScale := 2, cGeneratedName := ''h-p-web''\<rparr>,
                  (bare_command ''db'' [])\<lparr>cScale := 1, cGeneratedName := ''h-p-db''\<rparr>], sMux = None \<rparr>"

definition planHash :: "Command \<Rightarrow> string option" where
  "planHash c = Some (''sha256:'' @ cName c)"

definition planEntry :: "Command \<Rightarrow> string \<Rightarrow> int \<Rightarrow> CommandEntry" where
  "planEntry c h i = zeroEntry\<lparr> enName := InstanceName (cGeneratedName c) i,
     enConfigJSON := Some \<lparr> ccArgv = [], ccDir = [], ccEnv = [], ccInjectEnv = True, ccRestartPolicy = RestartPolicyNone, ccMaxRetries = 0,
       ccStopSignal = [], ccStopTimeout = None, ccStopCommand = None, ccTty = False, ccScrollbackBytes = 0, ccLogDriver = [],
       ccLogOpts = [], ccLabels = BuildLabels (\<lambda>_. ''[]'') (\<lambda>_. ''[]'') planSpec c h i, ccAnnotations = [], ccHooks = [],
       ccCommandDir = [] \<rparr> \<rparr>"

text \<open>The stored commands of the project: the database, one up to date and one outdated
  web replica, a third replica from a larger scale, and a command no longer declared.\<close>

definition planExisting :: "CommandEntry list" where
  "planExisting = (let web = hd (sCommands planSpec); db = hd (tl (sCommands planSpec)) in
     [planEntry web ''sha256:web'' 1, planEntry web ''sha256:old'' 2, planEntry web ''sha256:web'' 3,
      planEntry (db\<lparr>cName := ''gone''\<rparr>) ''x'' 1])"

lemma planSpec_distinct: "distinct (map cName (sCommands planSpec))"
  by (simp add: planSpec_def)

lemma planSpec_dag: "ValidateDAG (sCommands planSpec) = Inr ()"
  by (simp add: ValidateDAG_def checkKnown_def planSpec_def topoLayers_def topoLoop.simps freeNames_def removeName_def)

lemma plan_ok: "\<exists>p. ComputePlan planHash planSpec planExisting keys_of = Inr p"
proof (rule ComputePlan_total [OF planSpec_dag])
  show "planHash d \<noteq> None" for d by (simp add: planHash_def)
  show "label_of (ccLabels cfg) LabelFile = sComposeFile planSpec"
    if "e \<in> set planExisting" "enConfigJSON e = Some cfg" for e cfg
    using that by (auto simp: planExisting_def planEntry_def Let_def BuildLabels_read)
qed

lemma planEntry_instance: "0 \<le> i \<Longrightarrow> i \<le> maxInt64 \<Longrightarrow> instanceOf (planEntry c h i) = (cName c, i)"
  using atoi_itoa [of i]
  by (simp add: planEntry_def instanceOf_def commandNameOf_def scaleIndexOf_def ScaleOf_def scaleLabelValue_def
      BuildLabels_read minInt64_def)

lemma planExisting_wanted: "filter (wanted planSpec) planExisting = take 3 planExisting"
  by (simp add: planExisting_def Let_def wanted_def configured_def planEntry_def commandNameOf_def BuildLabels_read planSpec_def)

theorem ComputePlan_actions_witness:
  "\<exists>p. ComputePlan planHash planSpec planExisting keys_of = Inr p \<and>
     (\<forall>a \<in> set (pActions p). aDesired a \<in> set (sCommands planSpec))"
  using plan_ok ComputePlan_actions [OF planSpec_distinct] by blast

theorem plan_idempotent_witness:
  "\<exists>p. ComputePlan planHash planSpec
      (concat (map (\<lambda>c. map (\<lambda>i. planEntry c (the (planHash c)) (int i + 1)) [0..<nat (max (cScale c) 1)]) (sCommands planSpec)))
      keys_of = Inr p \<and> pOrphans p = [] \<and> pExcess p = [] \<and> (\<forall>a \<in> set (pActions p). aKind a = ActionUnchanged)"
  by (rule plan_idempotent [where f = "\<lambda>c. planEntry c (the (planHash c))" and mA = "\<lambda>_. ''[]''" and mH = "\<lambda>_. ''[]''",
        OF planSpec_distinct planSpec_dag _ refl refl])
    (auto simp: planHash_def recorded_def planEntry_def planSpec_def maxInt64_def)

end
