(* ===== verification/Compose_Lifecycle.thy ===== *)
theory Compose_Lifecycle
  imports Compose_Naming Parse_Options
begin

text \<open>
  Lifecycle hooks (cmdman/compose/lifecycle.go) and the naming rule they share with
  commands and projects (\<^verbatim>\<open>validateName\<close> and \<^verbatim>\<open>isNameChar\<close> of normalize.go): validation of
  a command's hooks, which events acquire and release a resource, and the names of the
  cmdman commands that hooks run as.
\<close>

section \<open>Names (normalize.go)\<close>

definition isNameChar :: "char \<Rightarrow> bool" where
  "isNameChar c \<longleftrightarrow> CHR ''A'' \<le> c \<and> c \<le> CHR ''Z'' \<or> CHR ''a'' \<le> c \<and> c \<le> CHR ''z'' \<or>
     CHR ''0'' \<le> c \<and> c \<le> CHR ''9'' \<or> c = CHR ''.'' \<or> c = CHR ''_'' \<or> c = CHR ''-''"

datatype NameErr =
  NameEmpty | NameTooLong | NameBadStart | NameWhitespace | NamePathSeparator | NameInvalidChar char

text \<open>The loop over the runes of a name. A byte outside ASCII belongs to a rune that is no
  name character, which the code rejects with one of two messages.\<close>

fun nameChars :: "string \<Rightarrow> NameErr + unit" where
  "nameChars [] = Inr ()"
| "nameChars (r # rs) =
     (if isSpace r then Inl NameWhitespace
      else if r = CHR ''/'' \<or> r = CHR 0x5C then Inl NamePathSeparator
      else if \<not> isNameChar r then Inl (NameInvalidChar r)
      else nameChars rs)"

definition validateName :: "string \<Rightarrow> NameErr + unit" where
  "validateName name =
     (if trimSpace name = [] then Inl NameEmpty
      else if length name > 63 then Inl NameTooLong
      else if hd name = CHR ''.'' \<or> hd name = CHR ''-'' then Inl NameBadStart
      else nameChars name)"

lemma nameChars_iff: "nameChars s = Inr () \<longleftrightarrow> list_all (\<lambda>c. isNameChar c \<and> \<not> isSpace c \<and> c \<noteq> CHR ''/'' \<and> c \<noteq> CHR 0x5C) s"
  by (induction s) auto

lemma nameChar_plain: "isNameChar c \<Longrightarrow> \<not> isSpace c \<and> c \<noteq> CHR ''/'' \<and> c \<noteq> CHR 0x5C \<and> c \<noteq> CHR 0x00"
  by (auto simp: isNameChar_def isSpace_def less_eq_char_def)

lemma validateName_iff:
  "validateName s = Inr () \<longleftrightarrow>
     s \<noteq> [] \<and> length s \<le> 63 \<and> hd s \<noteq> CHR ''.'' \<and> hd s \<noteq> CHR ''-'' \<and> list_all isNameChar s"
proof -
  have "trimSpace s = [] \<longleftrightarrow> list_all isSpace s"
    by (auto simp: trimSpace_def list_all_iff dropWhile_eq_Nil_conv dest: set_dropWhileD)
       (metis dropWhile_eq_Nil_conv hd_dropWhile hd_in_set list.set(1) empty_iff set_dropWhileD)+
  then show ?thesis
    using nameChar_plain by (cases s) (auto simp: validateName_def nameChars_iff list_all_iff)
qed

section \<open>Events (lifecycle.go)\<close>

definition lifecycleEvents :: "LifecycleEvent list" where
  "lifecycleEvents = [LifecycleCreatePre, LifecycleCreatePost, LifecycleStartPre, LifecycleStartPost,
     LifecycleStopPre, LifecycleStopPost, LifecycleRemovePre, LifecycleRemovePost]"

fun lifecycleEventString :: "LifecycleEvent \<Rightarrow> string" where
  "lifecycleEventString LifecycleCreatePre = ''create_pre''"
| "lifecycleEventString LifecycleCreatePost = ''create_post''"
| "lifecycleEventString LifecycleStartPre = ''start_pre''"
| "lifecycleEventString LifecycleStartPost = ''start_post''"
| "lifecycleEventString LifecycleStopPre = ''stop_pre''"
| "lifecycleEventString LifecycleStopPost = ''stop_post''"
| "lifecycleEventString LifecycleRemovePre = ''remove_pre''"
| "lifecycleEventString LifecycleRemovePost = ''remove_post''"
| "lifecycleEventString (LifecycleOther s) = s"

definition acquires :: "LifecycleEvent \<Rightarrow> bool" where
  "acquires e \<longleftrightarrow> e \<in> {LifecycleCreatePre, LifecycleCreatePost, LifecycleStartPre, LifecycleStartPost}"

fun releases :: "LifecycleEvent \<Rightarrow> LifecycleEvent list" where
  "releases LifecycleCreatePre = [LifecycleRemovePre, LifecycleRemovePost]"
| "releases LifecycleCreatePost = [LifecycleRemovePre, LifecycleRemovePost]"
| "releases LifecycleStartPre = [LifecycleStopPre, LifecycleStopPost]"
| "releases LifecycleStartPost = [LifecycleStopPre, LifecycleStopPost]"
| "releases _ = []"

datatype HookErr =
    HookNameErr NameErr | HookNoEvent string | HookUnknownEvent string LifecycleEvent
  | HookArgsEmpty string LifecycleEvent | HookOnError string LifecycleEvent | HookResourceName string NameErr
  | HookNoAcquire string | HookManyAcquires string "LifecycleEvent list"
  | HookReleaseMismatch string LifecycleEvent LifecycleEvent | HookManyReleases string "LifecycleEvent list"
  | HookNameRequired | HookNameDup string | HookResourceDup string string

definition LifecycleEvent_Validate :: "LifecycleEvent \<Rightarrow> bool" where
  "LifecycleEvent_Validate e \<longleftrightarrow> e \<in> set lifecycleEvents"

fun OnError_Validate :: "OnError \<Rightarrow> bool" where
  "OnError_Validate (OnErrorOther s) = False"
| "OnError_Validate _ = True"

definition validateResourceEvents :: "LifecycleHook \<Rightarrow> HookErr + unit" where
  "validateResourceEvents h =
     (let present = filter (\<lambda>ev. map_of (lhEvents h) ev \<noteq> None) lifecycleEvents;
          acqs = filter acquires present;
          rels = filter (\<lambda>ev. \<not> acquires ev) present
      in case acqs of
           [] \<Rightarrow> Inl (HookNoAcquire (lhName h))
         | [acquire] \<Rightarrow>
             (case List.find (\<lambda>ev. ev \<notin> set (releases acquire)) rels of
                Some ev \<Rightarrow> Inl (HookReleaseMismatch (lhName h) ev acquire)
              | None \<Rightarrow> if length rels > 1 then Inl (HookManyReleases (lhName h) rels) else Inr ())
         | _ \<Rightarrow> Inl (HookManyAcquires (lhName h) acqs))"

text \<open>The events are checked in the order of their strings.\<close>

definition validateEvent :: "LifecycleHook \<Rightarrow> LifecycleEvent \<times> LifecycleExec \<Rightarrow> HookErr + unit" where
  "validateEvent h = (\<lambda>(ev, exec).
     if \<not> LifecycleEvent_Validate ev then Inl (HookUnknownEvent (lhName h) ev)
     else if leArgs exec = [] then Inl (HookArgsEmpty (lhName h) ev)
     else if \<not> OnError_Validate (leOnError exec) then Inl (HookOnError (lhName h) ev)
     else Inr ())"

definition LifecycleHook_Validate :: "LifecycleHook \<Rightarrow> HookErr + unit" where
  "LifecycleHook_Validate h =
     (case validateName (lhName h) of
        Inl e \<Rightarrow> Inl (HookNameErr e)
      | Inr _ \<Rightarrow>
        if lhEvents h = [] then Inl (HookNoEvent (lhName h))
        else
          (case first_err (validateEvent h) (sort_key (lifecycleEventString \<circ> fst) (lhEvents h)) of
             Inl e \<Rightarrow> Inl e
           | Inr _ \<Rightarrow>
             if lhResource h = [] then Inr ()
             else (case validateName (lhResource h) of
                     Inl e \<Rightarrow> Inl (HookResourceName (lhName h) e)
                   | Inr _ \<Rightarrow> validateResourceEvents h)))"

fun validateHooksLoop :: "LifecycleHook list \<Rightarrow> string list \<Rightarrow> (string, string) gomap \<Rightarrow> HookErr + unit" where
  "validateHooksLoop [] names resources = Inr ()"
| "validateHooksLoop (h # hs) names resources =
     (if lhName h = [] then Inl HookNameRequired
      else case LifecycleHook_Validate h of
        Inl e \<Rightarrow> Inl e
      | Inr _ \<Rightarrow>
        if lhName h \<in> set names then Inl (HookNameDup (lhName h))
        else if lhResource h = [] then validateHooksLoop hs (lhName h # names) resources
        else case map_of resources (lhResource h) of
               Some other \<Rightarrow> Inl (HookResourceDup (lhResource h) other)
             | None \<Rightarrow> validateHooksLoop hs (lhName h # names) ((lhResource h, lhName h) # resources))"

definition validateLifecycleHooks :: "LifecycleHook list \<Rightarrow> HookErr + unit" where
  "validateLifecycleHooks hooks = validateHooksLoop hooks [] []"

definition ExecCommandName :: "string \<Rightarrow> string \<Rightarrow> LifecycleEvent \<Rightarrow> string" where
  "ExecCommandName replica hook ev = replica @ ''.hook.'' @ hook @ ''.'' @ lifecycleEventString ev"

definition HolderName :: "string \<Rightarrow> string \<Rightarrow> string" where
  "HolderName replica key = replica @ ''.res.'' @ key"

section \<open>What validation guarantees\<close>

text \<open>The acquire event of a resource hook, and the release it may declare.\<close>

definition eventsOf :: "LifecycleHook \<Rightarrow> LifecycleEvent list" where
  "eventsOf h = filter (\<lambda>ev. map_of (lhEvents h) ev \<noteq> None) lifecycleEvents"

lemma find_None_all: "List.find P xs = None \<longleftrightarrow> (\<forall>x \<in> set xs. \<not> P x)"
  by (auto simp: find_None_iff)

lemma find_Some_mem: "List.find P xs = Some x \<Longrightarrow> x \<in> set xs \<and> P x"
  by (auto simp: find_Some_iff)

lemma validateResourceEvents_Inr:
  "validateResourceEvents h = Inr () \<longleftrightarrow>
     (\<exists>acq. filter acquires (eventsOf h) = [acq] \<and>
        (filter (\<lambda>ev. \<not> acquires ev) (eventsOf h) = [] \<or>
         (\<exists>rel \<in> set (releases acq). filter (\<lambda>ev. \<not> acquires ev) (eventsOf h) = [rel])))"
proof -
  let ?a = "filter acquires (eventsOf h)" and ?r = "filter (\<lambda>ev. \<not> acquires ev) (eventsOf h)"
  have "validateResourceEvents h = Inr () \<longleftrightarrow> (\<exists>acq. ?a = [acq] \<and> (\<forall>ev \<in> set ?r. ev \<in> set (releases acq)) \<and> length ?r \<le> 1)"
    unfolding validateResourceEvents_def Let_def eventsOf_def [symmetric]
    by (auto simp: find_None_all split: list.splits option.splits if_splits dest!: find_Some_mem)
  also have "\<dots> \<longleftrightarrow> (\<exists>acq. ?a = [acq] \<and> (?r = [] \<or> (\<exists>rel \<in> set (releases acq). ?r = [rel])))"
    by (cases ?r; cases "tl ?r") auto
  finally show ?thesis .
qed

lemma LifecycleHook_Validate_Inr:
  assumes "LifecycleHook_Validate h = Inr ()"
  shows "validateName (lhName h) = Inr ()" "lhEvents h \<noteq> []"
    "\<forall>(ev, ex) \<in> set (lhEvents h). ev \<in> set lifecycleEvents \<and> leArgs ex \<noteq> []"
    "lhResource h \<noteq> [] \<Longrightarrow> validateName (lhResource h) = Inr () \<and> validateResourceEvents h = Inr ()"
  using assms
  by (auto simp: LifecycleHook_Validate_def first_err_Inr validateEvent_def LifecycleEvent_Validate_def
      split: sum.splits if_splits)

lemma validateHooksLoop_Inr:
  "validateHooksLoop hs names resources = Inr () \<Longrightarrow>
     (\<forall>h \<in> set hs. LifecycleHook_Validate h = Inr ()) \<and>
     distinct (map lhName hs) \<and> set (map lhName hs) \<inter> set names = {} \<and>
     distinct (filter (\<lambda>r. r \<noteq> []) (map lhResource hs)) \<and>
     (\<forall>h \<in> set hs. lhResource h \<noteq> [] \<longrightarrow> map_of resources (lhResource h) = None)"
proof (induction hs arbitrary: names resources)
  case (Cons h hs)
  from Cons.prems have v: "LifecycleHook_Validate h = Inr ()" and n: "lhName h \<notin> set names"
    by (auto split: sum.splits if_splits)
  show ?case
  proof (cases "lhResource h = []")
    case True
    with Cons.prems v n have "validateHooksLoop hs (lhName h # names) resources = Inr ()" by (auto split: if_splits)
    from Cons.IH [OF this] True v n show ?thesis by auto
  next
    case False
    with Cons.prems v n have r: "map_of resources (lhResource h) = None"
      and l: "validateHooksLoop hs (lhName h # names) ((lhResource h, lhName h) # resources) = Inr ()"
      by (auto split: if_splits option.splits)
    from Cons.IH [OF l] False v n r show ?thesis by (auto split: if_splits)
  qed
qed simp

text \<open>Hooks that pass validation are usable as the runner uses them: every event is a
  known one with a command to run, hook names and resource keys are unique within the
  command, and a hook that declares a resource sets exactly one acquire event and at most
  one release event, of the pair that undoes that acquire (remove for create, stop for
  start).\<close>

lemma validateLifecycleHooks_sound:
  assumes "validateLifecycleHooks hooks = Inr ()"
  shows "distinct (map lhName hooks) \<and> distinct (filter (\<lambda>r. r \<noteq> []) (map lhResource hooks)) \<and>
    (\<forall>h \<in> set hooks. validateName (lhName h) = Inr () \<and> lhEvents h \<noteq> [] \<and>
       (\<forall>(ev, ex) \<in> set (lhEvents h). ev \<in> set lifecycleEvents \<and> leArgs ex \<noteq> []) \<and>
       (lhResource h \<noteq> [] \<longrightarrow>
          (\<exists>acq. filter acquires (eventsOf h) = [acq] \<and>
             (filter (\<lambda>ev. \<not> acquires ev) (eventsOf h) = [] \<or>
              (\<exists>rel \<in> set (releases acq). filter (\<lambda>ev. \<not> acquires ev) (eventsOf h) = [rel])))))"
proof -
  from validateHooksLoop_Inr [OF assms [unfolded validateLifecycleHooks_def]]
  have v: "\<forall>h \<in> set hooks. LifecycleHook_Validate h = Inr ()" and d: "distinct (map lhName hooks)"
    "distinct (filter (\<lambda>r. r \<noteq> []) (map lhResource hooks))" by auto
  show ?thesis
  proof (intro conjI ballI d)
    fix h assume h: "h \<in> set hooks"
    note f = LifecycleHook_Validate_Inr [OF v [rule_format, OF h]]
    show "validateName (lhName h) = Inr ()" "lhEvents h \<noteq> []" by (rule f(1), rule f(2))
    show "case x of (ev, ex) \<Rightarrow> ev \<in> set lifecycleEvents \<and> leArgs ex \<noteq> []" if "x \<in> set (lhEvents h)" for x
      using f(3) that by blast
    show "lhResource h \<noteq> [] \<longrightarrow> (\<exists>acq. filter acquires (eventsOf h) = [acq] \<and>
             (filter (\<lambda>ev. \<not> acquires ev) (eventsOf h) = [] \<or>
              (\<exists>rel \<in> set (releases acq). filter (\<lambda>ev. \<not> acquires ev) (eventsOf h) = [rel])))"
      using f(4) validateResourceEvents_Inr by blast
  qed
qed

text \<open>Event strings contain no dot and end no scale index, so hook command names can be
  taken apart and never collide with replica names.\<close>

lemma event_no_dot: "ev \<in> set lifecycleEvents \<Longrightarrow> CHR ''.'' \<notin> set (lifecycleEventString ev)"
  by (auto simp: lifecycleEvents_def)

lemma event_inj: "ev \<in> set lifecycleEvents \<Longrightarrow> ev' \<in> set lifecycleEvents \<Longrightarrow>
    lifecycleEventString ev = lifecycleEventString ev' \<Longrightarrow> ev = ev'"
  by (auto simp: lifecycleEvents_def)

lemma last_sep_split:
  fixes sep :: char
  assumes "a @ sep # r = b @ sep # s" and "sep \<notin> set r" "sep \<notin> set s"
  shows "a = b \<and> r = s"
proof -
  have rv: "rev (x @ sep # y) = rev y @ sep # rev x" for x y by simp
  have "rev r @ sep # rev a = rev s @ sep # rev b" using arg_cong [OF assms(1), of rev] unfolding rv .
  from arg_cong [OF this, of "cut sep"] have "rev r = rev s \<and> rev a = rev b"
    using assms(2,3) by (simp only: cut_append set_rev not_False_eq_True prod.inject simp_thms)
  then show ?thesis by simp
qed

lemma event_last: "ev \<in> set lifecycleEvents \<Longrightarrow> \<not> isDigit (last (lifecycleEventString ev)) \<and> lifecycleEventString ev \<noteq> []"
  by (auto simp: lifecycleEvents_def isDigit_def)

text \<open>Every hook event of a replica runs under a name of its own: for one replica, two
  hook commands with the same name run the same event of the same hook, and no hook
  command has the name of a replica.\<close>

lemma ExecCommandName_unique:
  assumes "ev \<in> set lifecycleEvents" "ev' \<in> set lifecycleEvents" and "0 \<le> i"
  shows "(ExecCommandName replica hook ev = ExecCommandName replica hook' ev' \<longrightarrow> hook = hook' \<and> ev = ev') \<and>
    ExecCommandName replica hook ev \<noteq> InstanceName base i"
proof (intro conjI impI notI)
  assume "ExecCommandName replica hook ev = ExecCommandName replica hook' ev'"
  then have "hook @ CHR ''.'' # lifecycleEventString ev = hook' @ CHR ''.'' # lifecycleEventString ev'"
    by (simp add: ExecCommandName_def)
  from last_sep_split [OF this event_no_dot [OF assms(1)] event_no_dot [OF assms(2)]] event_inj [OF assms(1,2)]
  show "hook = hook'" "ev = ev'" by auto
next
  assume "ExecCommandName replica hook ev = InstanceName base i"
  from arg_cong [OF this, of last] event_last [OF assms(1)]
  have "last (itoa i) = last (lifecycleEventString ev)"
    by (simp add: ExecCommandName_def InstanceName_def itoa_def)
  moreover have "isDigit (last (itoa i))" using itoa_nat_digits [OF assms(3)] assms(3)
    by (metis digitsOf_ne itoa_def last_in_set not_less)
  ultimately show False using event_last [OF assms(1)] by simp
qed

end
