(* ===== verification/Go_Time.thy ===== *)
theory Go_Time
  imports Go_Strconv
begin

text \<open>
  Go's \<^verbatim>\<open>time.Time\<close> as the log driver uses it: a wall clock reading with the offset of its
  zone, \<^verbatim>\<open>Format\<close> and \<^verbatim>\<open>Parse\<close> with the one layout of the sources
  (\<^verbatim>\<open>2006-01-02T15:04:05.000000000Z07:00\<close>), and the comparison of instants.
\<close>

section \<open>Clock readings\<close>

record Time =
  tYear :: nat
  tMonth :: nat
  tDay :: nat
  tHour :: nat
  tMinute :: nat
  tSecond :: nat
  tNano :: nat
  tZone :: int        \<comment> \<open>seconds east of UTC\<close>

definition leapYear :: "nat \<Rightarrow> bool" where
  "leapYear y \<longleftrightarrow> y mod 4 = 0 \<and> (y mod 100 \<noteq> 0 \<or> y mod 400 = 0)"

definition daysIn :: "nat \<Rightarrow> nat \<Rightarrow> nat" where
  "daysIn m y = (if m = 2 then (if leapYear y then 29 else 28) else if m \<in> {4, 6, 9, 11} then 30 else 31)"

definition time_ok :: "Time \<Rightarrow> bool" where
  "time_ok t \<longleftrightarrow> tYear t \<le> 9999 \<and> 1 \<le> tMonth t \<and> tMonth t \<le> 12 \<and> 1 \<le> tDay t \<and> tDay t \<le> daysIn (tMonth t) (tYear t) \<and>
     tHour t < 24 \<and> tMinute t < 60 \<and> tSecond t < 60 \<and> tNano t < 1000000000 \<and>
     60 dvd tZone t \<and> - 90000 < tZone t \<and> tZone t < 90000"

text \<open>Days from 0000-03-01 to the date, counting years from March.\<close>

definition dayNumber :: "nat \<Rightarrow> nat \<Rightarrow> nat \<Rightarrow> int" where
  "dayNumber y m d =
     (let y' = (if m \<le> 2 then int y - 1 else int y); m' = (if m \<le> 2 then m + 9 else m - 3)
      in 365 * y' + y' div 4 - y' div 100 + y' div 400 + int ((153 * m' + 2) div 5) + int d - 1)"

definition instant :: "Time \<Rightarrow> int" where
  "instant t = ((dayNumber (tYear t) (tMonth t) (tDay t) * 86400 + int (tHour t * 3600 + tMinute t * 60 + tSecond t) - tZone t)
     * 1000000000) + int (tNano t)"

text \<open>The zero time, January 1, year 1, 00:00:00 UTC.\<close>

definition zeroTime :: Time where
  "zeroTime = \<lparr> tYear = 1, tMonth = 1, tDay = 1, tHour = 0, tMinute = 0, tSecond = 0, tNano = 0, tZone = 0 \<rparr>"

definition IsZero :: "Time \<Rightarrow> bool" where
  "IsZero t \<longleftrightarrow> instant t = instant zeroTime"

definition Before :: "Time \<Rightarrow> Time \<Rightarrow> bool" where
  "Before t u \<longleftrightarrow> instant t < instant u"

definition After :: "Time \<Rightarrow> Time \<Rightarrow> bool" where
  "After t u \<longleftrightarrow> instant t > instant u"

section \<open>Format\<close>

fun padded :: "nat \<Rightarrow> nat \<Rightarrow> string" where
  "padded 0 n = []"
| "padded (Suc w) n = padded w (n div 10) @ [digitChar (n mod 10)]"

definition appendInt :: "nat \<Rightarrow> nat \<Rightarrow> string" where
  "appendInt w n = (if n < 10 ^ w then padded w n else digitsOf n)"

definition formatZone :: "int \<Rightarrow> string" where
  "formatZone offset =
     (if offset = 0 then ''Z''
      else let zone = nat (\<bar>offset\<bar> div 60)
           in (if offset < 0 \<and> zone \<noteq> 0 then ''-'' else ''+'') @ appendInt 2 (zone div 60) @ '':'' @ appendInt 2 (zone mod 60))"

definition Format :: "Time \<Rightarrow> string" where
  "Format t = appendInt 4 (tYear t) @ ''-'' @ appendInt 2 (tMonth t) @ ''-'' @ appendInt 2 (tDay t) @ ''T'' @
     appendInt 2 (tHour t) @ '':'' @ appendInt 2 (tMinute t) @ '':'' @ appendInt 2 (tSecond t) @ ''.'' @
     padded 9 (tNano t) @ formatZone (tZone t)"

section \<open>Parse\<close>

fun getnum :: "bool \<Rightarrow> string \<Rightarrow> (nat \<times> string) option" where
  "getnum fixed [] = None"
| "getnum fixed [a] = (if isDigit a \<and> \<not> fixed then Some (digitVal a, []) else None)"
| "getnum fixed (a # b # s) =
     (if \<not> isDigit a then None
      else if \<not> isDigit b then (if fixed then None else Some (digitVal a, b # s))
      else Some (digitVal a * 10 + digitVal b, s))"

fun skipChar :: "char \<Rightarrow> string \<Rightarrow> string option" where
  "skipChar c [] = None"
| "skipChar c (a # s) = (if a = c then Some s else None)"

definition getYear :: "string \<Rightarrow> (nat \<times> string) option" where
  "getYear s = (if length s < 4 \<or> \<not> list_all isDigit (take 4 s) then None else Some (readDigits (take 4 s), drop 4 s))"

text \<open>A period or comma and nine characters that \<^verbatim>\<open>atoi\<close> reads, without a negative value.\<close>

definition getNanos :: "string \<Rightarrow> (nat \<times> string) option" where
  "getNanos s =
     (case s of
        [] \<Rightarrow> None
      | c # s \<Rightarrow>
          if (c \<noteq> CHR ''.'' \<and> c \<noteq> CHR '','') \<or> length s < 9 then None
          else (case atoi (take 9 s) of None \<Rightarrow> None | Some n \<Rightarrow> if n < 0 then None else Some (nat n, drop 9 s)))"

definition getZone :: "string \<Rightarrow> (int \<times> string) option" where
  "getZone s =
     (case s of
        [] \<Rightarrow> None
      | c # r \<Rightarrow>
          if c = CHR ''Z'' then Some (0, r)
          else if length s < 6 \<or> s ! 3 \<noteq> CHR '':'' then None
          else (case (getnum True (take 2 (drop 1 s)), getnum True (take 2 (drop 4 s))) of
                  (Some (hr, _), Some (mm, _)) \<Rightarrow>
                    if hr > 24 \<or> mm > 60 then None
                    else if c = CHR ''+'' then Some (int ((hr * 60 + mm) * 60), drop 6 s)
                    else if c = CHR ''-'' then Some (- int ((hr * 60 + mm) * 60), drop 6 s)
                    else None
                | _ \<Rightarrow> None))"

definition bindO :: "'a option \<Rightarrow> ('a \<Rightarrow> 'b option) \<Rightarrow> 'b option" where
  "bindO x f = (case x of None \<Rightarrow> None | Some y \<Rightarrow> f y)"

lemma bindO_Some [simp]: "bindO (Some x) f = f x" by (simp add: bindO_def)

definition parseDate :: "string \<Rightarrow> (nat \<times> nat \<times> nat \<times> string) option" where
  "parseDate s =
     bindO (getYear s) (\<lambda>(y, s). bindO (skipChar CHR ''-'' s) (\<lambda>s.
     bindO (getnum True s) (\<lambda>(mo, s). if mo = 0 \<or> 12 < mo then None else
     bindO (skipChar CHR ''-'' s) (\<lambda>s. bindO (getnum True s) (\<lambda>(d, s). Some (y, mo, d, s))))))"

definition parseClock :: "string \<Rightarrow> (nat \<times> nat \<times> nat \<times> string) option" where
  "parseClock s =
     bindO (getnum False s) (\<lambda>(h, s). if 24 \<le> h then None else bindO (skipChar CHR '':'' s) (\<lambda>s.
     bindO (getnum True s) (\<lambda>(mi, s). if 60 \<le> mi then None else bindO (skipChar CHR '':'' s) (\<lambda>s.
     bindO (getnum True s) (\<lambda>(sec, s). if 60 \<le> sec then None else Some (h, mi, sec, s))))))"

definition Parse :: "string \<Rightarrow> Time option" where
  "Parse s =
     bindO (parseDate s) (\<lambda>(y, mo, d, s). bindO (skipChar CHR ''T'' s) (\<lambda>s.
     bindO (parseClock s) (\<lambda>(h, mi, sec, s). bindO (getNanos s) (\<lambda>(ns, s). bindO (getZone s) (\<lambda>(z, s).
       if s \<noteq> [] then None
       else if d < 1 \<or> daysIn mo y < d then None
       else Some \<lparr> tYear = y, tMonth = mo, tDay = d, tHour = h, tMinute = mi, tSecond = sec, tNano = ns, tZone = z \<rparr>)))))"

section \<open>Round trip\<close>

lemma length_padded [simp]: "length (padded w n) = w"
  by (induction w arbitrary: n) simp_all

lemma readDigits_padded: "readDigits (padded w n) = n mod 10 ^ w"
proof (induction w arbitrary: n)
  case (Suc w)
  then show ?case by (simp add: mod_mult2_eq)
qed (simp add: readDigits_def)

lemma padded_digits: "list_all isDigit (padded w n)"
  by (induction w arbitrary: n) simp_all

lemma getnum_padded: "n < 100 \<Longrightarrow> getnum f (padded 2 n @ s) = Some (n, s)"
  by (simp add: numeral_2_eq_2)

lemma getYear_padded: "n < 10000 \<Longrightarrow> getYear (padded 4 n @ s) = Some (n, s)"
  by (simp add: getYear_def readDigits_padded padded_digits)

lemma getNanos_padded:
  assumes "n < 1000000000"
  shows "getNanos (CHR ''.'' # padded 9 n @ s) = Some (n, s)"
proof -
  have r: "readDigits (padded 9 n) = n" using assms by (simp add: readDigits_padded)
  obtain c cs where c: "padded 9 n = c # cs" by (cases "padded 9 n") (metis length_padded list.size(3) zero_neq_numeral, blast)
  have "isDigit c" "list_all isDigit (c # cs)" using padded_digits [of 9 n] c by simp_all
  then have "atoi (padded 9 n) = Some (int n)"
    using r assms isDigit_not_sign [of c] unfolding c by (simp add: atoi_def minInt64_def maxInt64_def)
  then show ?thesis by (simp add: getNanos_def)
qed

lemma zone_minutes:
  assumes "60 dvd z" "- 90000 < z" "z < (90000 :: int)"
  shows "nat (\<bar>z\<bar> div 60) div 60 \<le> 24" "nat (\<bar>z\<bar> div 60) mod 60 < 60" "int ((nat (\<bar>z\<bar> div 60) div 60 * 60 + nat (\<bar>z\<bar> div 60) mod 60) * 60) = \<bar>z\<bar>"
proof -
  have "\<bar>z\<bar> div 60 < 1500" using assms by linarith
  then show "nat (\<bar>z\<bar> div 60) div 60 \<le> 24" by linarith
  have "60 dvd \<bar>z\<bar>" using assms(1) by simp
  then show "int ((nat (\<bar>z\<bar> div 60) div 60 * 60 + nat (\<bar>z\<bar> div 60) mod 60) * 60) = \<bar>z\<bar>" by auto
qed simp

lemma appendInt_small: "n < 10 ^ w \<Longrightarrow> appendInt w n = padded w n"
  by (simp add: appendInt_def)

lemma getZone_format:
  assumes "60 dvd z" "- 90000 < z" "z < 90000"
  shows "getZone (formatZone z) = Some (z, [])"
proof (cases "z = 0")
  case False
  obtain m where m: "nat (\<bar>z\<bar> div 60) = m" by blast
  note zm = zone_minutes [OF assms, unfolded m]
  have "m \<noteq> 0" using False zm(3) by (cases m) auto
  moreover have "appendInt 2 (m div 60) = padded 2 (m div 60)" "appendInt 2 (m mod 60) = padded 2 (m mod 60)"
    by (rule appendInt_small, use zm in simp)+
  ultimately have f: "formatZone z = (if z < 0 then CHR ''-'' else CHR ''+'') # padded 2 (m div 60) @ CHR '':'' # padded 2 (m mod 60)"
    unfolding formatZone_def Let_def m using False by simp
  have g: "getnum True (padded 2 (m div 60)) = Some (m div 60, [])" "getnum True (padded 2 (m mod 60)) = Some (m mod 60, [])"
    using getnum_padded [of "m div 60" True "[]"] getnum_padded [of "m mod 60" True "[]"] zm(1) by auto
  have n: "(padded 2 a @ CHR '':'' # s) ! 2 = CHR '':''" for a s by (simp add: nth_append)
  have z: "(if z < 0 then - int ((m div 60 * 60 + m mod 60) * 60) else int ((m div 60 * 60 + m mod 60) * 60)) = z"
    unfolding zm(3) by simp
  show ?thesis unfolding f getZone_def using g zm(1,2) z
    by (cases "z < 0") (simp_all add: n)
qed (simp add: formatZone_def getZone_def)

lemma Parse_Format:
  assumes "time_ok t"
  shows "Parse (Format t) = Some t"
proof -
  have v: "tYear t < 10000" "tMonth t < 100" "tDay t < 100" "tHour t < 100" "tMinute t < 100" "tSecond t < 100"
    using assms by (auto simp: time_ok_def daysIn_def split: if_splits)
  have f: "Format t = padded 4 (tYear t) @ CHR ''-'' # padded 2 (tMonth t) @ CHR ''-'' # padded 2 (tDay t) @ CHR ''T'' #
     padded 2 (tHour t) @ CHR '':'' # padded 2 (tMinute t) @ CHR '':'' # padded 2 (tSecond t) @ CHR ''.'' # padded 9 (tNano t) @ formatZone (tZone t)"
    using v by (simp add: Format_def appendInt_small)
  show ?thesis unfolding f Parse_def parseDate_def parseClock_def
    using assms v by (simp add: getYear_padded getnum_padded getNanos_padded getZone_format time_ok_def)
qed

lemma Format_plain:
  assumes "c \<in> set (Format t)"
  shows "c \<noteq> CHR '' '' \<and> c \<noteq> CHR 0x0A"
proof -
  have d: "isDigit c \<Longrightarrow> c \<noteq> CHR '' '' \<and> c \<noteq> CHR 0x0A" for c by (auto simp: isDigit_def)
  have "c \<in> set (padded w n) \<Longrightarrow> isDigit c" for w n using padded_digits [of w n] by (simp add: list_all_iff)
  then have a: "c \<in> set (appendInt w n) \<Longrightarrow> isDigit c" for w n using digitsOf_digits [of n] by (auto simp: appendInt_def split: if_splits)
  have p: "c \<in> set (padded 9 n) \<Longrightarrow> isDigit c" for n using padded_digits [of 9 n] by (simp add: list_all_iff)
  have z: "c \<in> set (formatZone (tZone t)) \<Longrightarrow> isDigit c \<or> c \<in> set ''Z+-:''"
    using a by (auto simp: formatZone_def Let_def split: if_splits)
  show ?thesis using assms a p z d unfolding Format_def by (auto)
qed

end
