(* ===== verification/Log_Writer.thy ===== *)
theory Log_Writer
  imports Go_Time Go_Path Parse_Options
begin

text \<open>
  The writing side of the k8s-file log driver (cmdman/logdriver/logdriver.go and
  cmdman/logdriver/k8sfile/writer.go). The files of one log are numbered as the driver
  names them: 0 is the active file, \<open>i\<close> the archive \<^verbatim>\<open>path.i\<close>; the file system is the map
  from these numbers to contents. Bytes are characters. File operations succeed, except
  that a missing file is reported as missing. Every call of the clock is an argument.
\<close>

section \<open>Log lines\<close>

abbreviation NL :: char where "NL \<equiv> CHR 0x0A"
abbreviation SP :: char where "SP \<equiv> CHR '' ''"

definition StreamStdout :: string where "StreamStdout = ''stdout''"
definition StreamStderr :: string where "StreamStderr = ''stderr''"

record LogLine =
  lTime :: Time
  lStream :: string
  lPartial :: bool
  lLine :: string

text \<open>\<^verbatim>\<open>bytes.IndexByte\<close>, \<open>None\<close> for -1.\<close>

fun indexByte :: "char \<Rightarrow> string \<Rightarrow> nat option" where
  "indexByte c [] = None"
| "indexByte c (a # s) = (if a = c then Some 0 else map_option Suc (indexByte c s))"

lemma indexByte_None: "indexByte c s = None \<longleftrightarrow> c \<notin> set s"
  by (induction s) auto

lemma indexByte_Some:
  "indexByte c s = Some n \<longleftrightarrow> n < length s \<and> s ! n = c \<and> c \<notin> set (take n s)"
proof (induction s arbitrary: n)
  case (Cons a s)
  then show ?case by (cases n) auto
qed simp

lemma indexByte_append: "c \<notin> set s \<Longrightarrow> indexByte c (s @ c # t) = Some (length s)"
  by (induction s) auto

function SplitLogLines :: "Time \<Rightarrow> string \<Rightarrow> string \<Rightarrow> LogLine list" where
  "SplitLogLines ts stream p =
     (if p = [] then []
      else case indexByte NL p of
             None \<Rightarrow> [\<lparr> lTime = ts, lStream = stream, lPartial = True, lLine = p \<rparr>]
           | Some nl \<Rightarrow> \<lparr> lTime = ts, lStream = stream, lPartial = False, lLine = take (nl + 1) p \<rparr>
               # SplitLogLines ts stream (drop (nl + 1) p))"
  by pat_completeness auto
termination by (relation "measure (\<lambda>(ts, stream, p). length p)") auto

declare SplitLogLines.simps [simp del]

section \<open>Writer\<close>

type_synonym logFiles = "nat \<Rightarrow> string option"

record Writer =
  wFiles :: logFiles
  wMaxSize :: int
  wMaxFile :: int
  wWritten :: int

definition tagFull :: string where "tagFull = ''F''"
definition tagPartial :: string where "tagPartial = ''P''"
definition tagRotation :: string where "tagRotation = ''R''"

definition DefaultLogFileName :: string where "DefaultLogFileName = ''console.log''"

text \<open>\<^verbatim>\<open>resolvePath\<close> of the driver; \<open>None\<close> is its error.\<close>

definition resolveLogPath :: "string \<Rightarrow> (string, string) gomap \<Rightarrow> string option" where
  "resolveLogPath dir opts =
     (case map_of opts ''path'' of
        Some p \<Rightarrow> if p \<noteq> '''' then Some p else if dir \<noteq> '''' then Some (joinPath dir DefaultLogFileName) else None
      | None \<Rightarrow> if dir \<noteq> '''' then Some (joinPath dir DefaultLogFileName) else None)"

definition newWriter :: "logFiles \<Rightarrow> int \<Rightarrow> int \<Rightarrow> Writer" where
  "newWriter fs maxSize maxFile =
     (let c = (case fs 0 of None \<Rightarrow> [] | Some c \<Rightarrow> c)
      in \<lparr> wFiles = fs(0 := Some c), wMaxSize = maxSize, wMaxFile = maxFile, wWritten = int (length c) \<rparr>)"

text \<open>Appending to the open active file.\<close>

definition appendActive :: "string \<Rightarrow> logFiles \<Rightarrow> logFiles" where
  "appendActive s fs = fs(0 := Some ((case fs 0 of None \<Rightarrow> [] | Some c \<Rightarrow> c) @ s))"

definition markerText :: "Time \<Rightarrow> string" where
  "markerText now = Format now @ '' stdout '' @ tagRotation @ '' -'' @ [NL]"

definition writeRotationMarker :: "Time \<Rightarrow> Writer \<Rightarrow> Writer" where
  "writeRotationMarker now w =
     w\<lparr> wFiles := appendActive (markerText now) (wFiles w), wWritten := wWritten w + int (length (markerText now)) \<rparr>"

text \<open>\<^verbatim>\<open>os.Rename\<close>, which the driver lets fail on a missing source.\<close>

definition renameFile :: "nat \<Rightarrow> nat \<Rightarrow> logFiles \<Rightarrow> logFiles" where
  "renameFile i j fs = (case fs i of None \<Rightarrow> fs | Some c \<Rightarrow> fs(i := None, j := Some c))"

fun shiftFiles :: "nat \<Rightarrow> logFiles \<Rightarrow> logFiles" where
  "shiftFiles 0 fs = fs"
| "shiftFiles (Suc i) fs = shiftFiles i (renameFile i (Suc i) fs)"

definition openAppend :: "logFiles \<Rightarrow> logFiles" where
  "openAppend fs = (case fs 0 of None \<Rightarrow> fs(0 := Some []) | Some _ \<Rightarrow> fs)"

definition rotate :: "Time \<Rightarrow> Writer \<Rightarrow> Writer" where
  "rotate now w0 =
     (let w = writeRotationMarker now w0
      in if wMaxFile w \<le> 1 then w\<lparr> wFiles := openAppend ((wFiles w)(0 := None)), wWritten := 0 \<rparr>
         else w\<lparr> wFiles := openAppend (shiftFiles (nat (wMaxFile w - 1)) (wFiles w)), wWritten := 0 \<rparr>)"

text \<open>The line with the clock and the stream it is stored under.\<close>

definition stamped :: "Time \<Rightarrow> LogLine \<Rightarrow> LogLine" where
  "stamped now line =
     line\<lparr> lTime := (if IsZero (lTime line) then now else lTime line),
           lStream := (if lStream line = [] then StreamStdout else lStream line) \<rparr>"

definition entryText :: "LogLine \<Rightarrow> string" where
  "entryText l = Format (lTime l) @ SP # lStream l @ SP # (if lPartial l then tagPartial else tagFull) @ SP # lLine l
     @ (if lPartial l then [NL] else [])"

definition WriteLogLine :: "Time \<Rightarrow> Time \<Rightarrow> LogLine \<Rightarrow> Writer \<Rightarrow> Writer" where
  "WriteLogLine now mark line w0 =
     (if lLine line = [] then w0
      else let l = stamped now line;
               entrySize = int (length (entryText l));
               w = (if wMaxSize w0 > 0 \<and> wWritten w0 + entrySize \<ge> wMaxSize w0 then rotate mark w0 else w0)
           in w\<lparr> wFiles := appendActive (entryText l) (wFiles w), wWritten := wWritten w + entrySize \<rparr>)"

fun writeLines :: "Time \<Rightarrow> LogLine list \<Rightarrow> Writer \<Rightarrow> Writer" where
  "writeLines now [] w = w"
| "writeLines now (l # ls) w = writeLines now ls (WriteLogLine now now l w)"

text \<open>\<^verbatim>\<open>streamWriter.Write\<close>: the bytes of one write, split into lines that share a clock
  reading.\<close>

definition streamWrite :: "Time \<Rightarrow> string \<Rightarrow> string \<Rightarrow> Writer \<Rightarrow> Writer" where
  "streamWrite now stream p w = (if p = [] then w else writeLines now (SplitLogLines now stream p) w)"

definition CurrentOffset :: "Writer \<Rightarrow> nat \<times> int" where
  "CurrentOffset w = (0, wWritten w)"

section \<open>What the log retains\<close>

text \<open>The abstract log: the lines of the active file and those of the archives, newest
  first, each closed by a marker with its time.\<close>

record logStore =
  sActive :: "LogLine list"
  sArchives :: "(LogLine list \<times> Time) list"

definition emptyStore :: logStore where
  "emptyStore = \<lparr> sActive = [], sArchives = [] \<rparr>"

definition textOf :: "LogLine list \<Rightarrow> string" where
  "textOf ls = concat (map entryText ls)"

definition storeWrite :: "int \<Rightarrow> int \<Rightarrow> Time \<Rightarrow> LogLine \<Rightarrow> logStore \<Rightarrow> logStore" where
  "storeWrite maxSize maxFile mark l s =
     (if maxSize > 0 \<and> int (length (textOf (sActive s)) + length (entryText l)) \<ge> maxSize
      then \<lparr> sActive = [l], sArchives = take (nat (maxFile - 1)) ((sActive s, mark) # sArchives s) \<rparr>
      else s\<lparr> sActive := sActive s @ [l] \<rparr>)"

definition storeFiles :: "logStore \<Rightarrow> logFiles" where
  "storeFiles s i =
     (if i = 0 then Some (textOf (sActive s))
      else if i \<le> length (sArchives s)
        then Some (textOf (fst (sArchives s ! (i - 1))) @ markerText (snd (sArchives s ! (i - 1))))
      else None)"

text \<open>The lines of a log, oldest first.\<close>

definition storeLines :: "logStore \<Rightarrow> LogLine list" where
  "storeLines s = concat (rev (map fst (sArchives s))) @ sActive s"

definition represents :: "Writer \<Rightarrow> logStore \<Rightarrow> bool" where
  "represents w s \<longleftrightarrow> wFiles w = storeFiles s \<and> wWritten w = int (length (textOf (sActive s))) \<and>
     int (length (sArchives s)) \<le> max 0 (wMaxFile w - 1)"

lemma shiftFiles_spec:
  assumes "\<forall>j < n. fs j = None \<longrightarrow> fs (Suc j) = None"
  shows "shiftFiles n fs = (\<lambda>j. if n = 0 then fs j else if j = 0 then None else if j \<le> n then fs (j - 1) else fs j)"
  using assms
proof (induction n arbitrary: fs)
  case (Suc n)
  define g where "g = renameFile n (Suc n) fs"
  have g: "g j = (if j = n then None else if j = Suc n then fs n else fs j)" for j
    using Suc.prems by (cases "fs n") (auto simp: g_def renameFile_def)
  have "shiftFiles n g = (\<lambda>j. if n = 0 then g j else if j = 0 then None else if j \<le> n then g (j - 1) else g j)"
    using Suc.prems by (intro Suc.IH) (auto simp: g)
  then have "shiftFiles (Suc n) fs = (\<lambda>j. if n = 0 then g j else if j = 0 then None else if j \<le> n then g (j - 1) else g j)"
    by (simp add: g_def)
  then show ?case by (auto simp: fun_eq_iff g le_Suc_eq)
qed (simp add: fun_eq_iff)

lemma textOf_snoc: "textOf (ls @ [l]) = textOf ls @ entryText l"
  by (simp add: textOf_def)

lemma rotate_represents:
  assumes "represents w s"
  shows "represents (rotate mark w) \<lparr> sActive = [], sArchives = take (nat (wMaxFile w - 1)) ((sActive s, mark) # sArchives s) \<rparr>"
    (is "represents _ ?s")
proof (cases "wMaxFile w \<le> 1")
  case True
  then have "sArchives s = []" using assms by (simp add: represents_def)
  with True assms show ?thesis
    by (auto simp: represents_def rotate_def writeRotationMarker_def openAppend_def appendActive_def storeFiles_def textOf_def fun_eq_iff Let_def)
next
  case False
  let ?n = "nat (wMaxFile w - 1)" and ?fs = "appendActive (markerText mark) (storeFiles s)"
  have len: "length (sArchives s) \<le> ?n" using assms False unfolding represents_def by linarith
  have f: "?fs j = (if j = 0 then Some (textOf (sActive s) @ markerText mark) else storeFiles s j)" for j
    by (simp add: appendActive_def storeFiles_def)
  have sh: "shiftFiles ?n ?fs = (\<lambda>j. if ?n = 0 then ?fs j else if j = 0 then None else if j \<le> ?n then ?fs (j - 1) else ?fs j)"
    by (rule shiftFiles_spec) (auto simp: f storeFiles_def)
  have n: "?n \<noteq> 0" using False by simp
  have "openAppend (shiftFiles ?n ?fs) = storeFiles ?s"
    unfolding sh using n len
    by (auto simp: openAppend_def fun_eq_iff f storeFiles_def textOf_def nth_Cons' numeral_2_eq_2)
  then show ?thesis using assms False n
    by (simp add: represents_def rotate_def writeRotationMarker_def textOf_def Let_def)
qed

text \<open>A write on the files implements a write on the abstract log.\<close>

lemma write_represents:
  assumes "represents w s" "lLine line \<noteq> []"
  shows "represents (WriteLogLine now mark line w) (storeWrite (wMaxSize w) (wMaxFile w) mark (stamped now line) s)"
proof -
  let ?l = "stamped now line"
  have app: "represents (v\<lparr> wFiles := appendActive (entryText ?l) (wFiles v), wWritten := wWritten v + int (length (entryText ?l)) \<rparr>)
      (t\<lparr> sActive := sActive t @ [?l] \<rparr>)" if "represents v t" for v t
    using that by (auto simp: represents_def appendActive_def storeFiles_def textOf_snoc fun_eq_iff)
  have wr: "wWritten w = int (length (textOf (sActive s)))" using assms(1) by (simp add: represents_def)
  show ?thesis
  proof (cases "wMaxSize w > 0 \<and> wWritten w + int (length (entryText ?l)) \<ge> wMaxSize w")
    case True
    then show ?thesis using app [OF rotate_represents [OF assms(1), of mark]] assms(2) wr
      by (simp add: WriteLogLine_def storeWrite_def Let_def)
  next
    case False
    then show ?thesis using app [OF assms(1)] assms(2) wr by (auto simp: WriteLogLine_def storeWrite_def Let_def)
  qed
qed

lemma write_config [simp]:
  "wMaxSize (WriteLogLine now mark line w) = wMaxSize w" "wMaxFile (WriteLogLine now mark line w) = wMaxFile w"
  by (simp_all add: WriteLogLine_def rotate_def writeRotationMarker_def Let_def)

text \<open>A sequence of writes, each with its clock readings.\<close>

type_synonym logWrite = "Time \<times> Time \<times> LogLine"

fun writeAll :: "logWrite list \<Rightarrow> Writer \<Rightarrow> Writer" where
  "writeAll [] w = w"
| "writeAll ((now, mark, l) # ws) w = writeAll ws (WriteLogLine now mark l w)"

fun storeAll :: "int \<Rightarrow> int \<Rightarrow> logWrite list \<Rightarrow> logStore \<Rightarrow> logStore" where
  "storeAll maxSize maxFile [] s = s"
| "storeAll maxSize maxFile ((now, mark, l) # ws) s =
     storeAll maxSize maxFile ws (if lLine l = [] then s else storeWrite maxSize maxFile mark (stamped now l) s)"

lemma writeAll_represents:
  assumes "represents w s"
  shows "represents (writeAll ws w) (storeAll (wMaxSize w) (wMaxFile w) ws s)"
  using assms
proof (induction ws arbitrary: w s)
  case (Cons x ws)
  obtain now mark l where x: "x = (now, mark, l)" by (cases x) auto
  show ?case
  proof (cases "lLine l = []")
    case True
    then show ?thesis using Cons.IH [OF Cons.prems] by (simp add: x WriteLogLine_def)
  next
    case False
    then show ?thesis using Cons.IH [OF write_represents [OF Cons.prems False, of now mark]] by (simp add: x)
  qed
qed simp

lemma newWriter_represents: "represents (newWriter Map.empty maxSize maxFile) emptyStore"
  by (auto simp: represents_def newWriter_def emptyStore_def storeFiles_def textOf_def fun_eq_iff)

end
