(* ===== verification/Hook_Holder.thy ===== *)
theory Hook_Holder
  imports Cmd_Service Compose_Plan Compose_Lifecycle Log_Writer
begin

text \<open>
  The commands that lifecycle hooks create besides a replica (cmdman/compose/intermediate.go): the
  exec command a hook runs as, and the holder that keeps the value of a resource; and the replica
  as its hooks see it (lifecycle_replica.go). The state is the world of the command service with the
  progress events reported and the failed releases recorded.
\<close>

section \<open>Compose host and world\<close>

datatype Phase =
    PhaseCreating | PhaseRecreating | PhaseCreated | PhaseRecreated | PhaseUnchanged
  | PhaseStarting | PhaseWaiting | PhaseRunning | PhaseExited
  | PhaseStopping | PhaseStopped | PhaseRemoving | PhaseRemoved | PhaseSkipped | PhaseFailed | PhaseError
  | PhaseHookRunning | PhaseHookSucceeded | PhaseHookFailed | PhaseHookWarning | PhaseHookIgnored | PhaseHookOutput
  | PhaseUnreleased

definition Phase_Terminal :: "Phase \<Rightarrow> bool" where
  "Phase_Terminal p \<longleftrightarrow> p \<notin> {PhaseCreating, PhaseRecreating, PhaseStarting, PhaseWaiting, PhaseStopping, PhaseRemoving,
     PhaseHookRunning, PhaseHookOutput}"

definition Phase_Failed :: "Phase \<Rightarrow> bool" where
  "Phase_Failed p \<longleftrightarrow> p \<in> {PhaseFailed, PhaseError, PhaseHookFailed}"

record Event =
  evCommand :: string
  evPhase :: Phase
  evErr :: "SvcErr option"
  evExitCode :: "int option"
  evForceKilled :: bool
  evScaleIndex :: int
  evHook :: string
  evLifecycle :: "LifecycleEvent option"
  evExec :: string
  evStream :: string
  evLine :: string
  evResource :: string
  evValue :: string
  evRetried :: bool

definition plainEvent :: "string \<Rightarrow> Phase \<Rightarrow> SvcErr option \<Rightarrow> Event" where
  "plainEvent cmd phase err = \<lparr> evCommand = cmd, evPhase = phase, evErr = err, evExitCode = None, evForceKilled = False, evScaleIndex = 0,
     evHook = [], evLifecycle = None, evExec = [], evStream = [], evLine = [], evResource = [], evValue = [], evRetried = False \<rparr>"

record hookReplica =
  hrProject :: string
  hrWorkDir :: string
  hrCommand :: string
  hrScaleIndex :: int
  hrScale :: int
  hrName :: string
  hrDisplay :: string
  hrDir :: string
  hrEnv :: "string list"

record resourceRef =
  rrProject :: string
  rrWorkDir :: string
  rrCommand :: string
  rrScaleIndex :: int
  rrKey :: string

record resourceRelease =
  rlEvent :: LifecycleEvent
  rlArgs :: "string list"
  rlOnError :: OnError

record resourceHolder =
  rhRef :: resourceRef
  rhOwner :: string
  rhValue :: string
  rhRelease :: "resourceRelease option"
  rhDir :: string
  rhEnv :: "string list"

record failedRelease =
  frHolder :: resourceHolder
  frDisplay :: string
  frErr :: SvcErr
  frOnError :: OnError
  frRetried :: bool
  frReportOnly :: bool

text \<open>Encoding and decoding of the JSON labels, the hash of a directory, \<^verbatim>\<open>filepath.Abs\<close>, the records of
  the log of a command, what following its output yields, the limit on stops that run at once, whether
  a semaphore still gives a permit to a context that is done, and the order in which goroutines that
  were started together run.\<close>

record ComposeHost =
  chHost :: Host
  chReporter :: bool
  chSha :: "string \<Rightarrow> string"
  chAbs :: "string \<Rightarrow> string option"
  chEncodeRelease :: "resourceRelease \<Rightarrow> string option"
  chDecodeRelease :: "string \<Rightarrow> resourceRelease option"
  chDecodeHooks :: "string \<Rightarrow> LifecycleHook list option"
  chLogs :: "nat \<Rightarrow> string \<Rightarrow> SvcErr + (SvcErr + LogLine) list"
  chFollow :: "nat \<Rightarrow> string \<Rightarrow> SvcErr + (SvcErr + LogLine) list"
  chParallelLimit :: int
  chPermit :: "nat \<Rightarrow> bool"
  chOrder :: "nat \<Rightarrow> nat \<Rightarrow> nat list"

text \<open>\<open>cwFailed\<close> is the release recorder of the context, \<open>None\<close> when it carries none.\<close>

record CWorld =
  cwWorld :: World
  cwEvents :: "Event list"
  cwFailed :: "failedRelease list option"

type_synonym 'a effect = "CWorld \<Rightarrow> 'a \<times> CWorld"

definition svc :: "(World \<Rightarrow> 'a \<times> World) \<Rightarrow> 'a effect" where
  "svc f cw = (case f (cwWorld cw) of (r, w) \<Rightarrow> (r, cw\<lparr> cwWorld := w \<rparr>))"

definition report :: "ComposeHost \<Rightarrow> Event \<Rightarrow> CWorld \<Rightarrow> CWorld" where
  "report ch ev cw = (if chReporter ch then cw\<lparr> cwEvents := cwEvents cw @ [ev] \<rparr> else cw)"

definition ctxDone :: "CWorld \<Rightarrow> bool" where
  "ctxDone cw = wDone (cwWorld cw)"

section \<open>Labels and names\<close>

definition LabelIntermediate :: string where "LabelIntermediate = ''cmdman.compose.intermediate''"
definition LabelOwner :: string where "LabelOwner = ''cmdman.compose.owner''"
definition LabelHooksProject :: string where "LabelHooksProject = ''cmdman.compose.hooks.project''"
definition LabelHooksWorkdir :: string where "LabelHooksWorkdir = ''cmdman.compose.hooks.workdir''"
definition LabelHook :: string where "LabelHook = ''cmdman.compose.hook''"
definition LabelHookEvent :: string where "LabelHookEvent = ''cmdman.compose.hook-event''"
definition LabelResourceKey :: string where "LabelResourceKey = ''cmdman.compose.resource.key''"
definition LabelResourceValue :: string where "LabelResourceValue = ''cmdman.compose.resource.value''"
definition LabelResourceCommand :: string where "LabelResourceCommand = ''cmdman.compose.resource.command''"
definition LabelResourceScaleIndex :: string where "LabelResourceScaleIndex = ''cmdman.compose.resource.scale-index''"
definition LabelResourceRelease :: string where "LabelResourceRelease = ''cmdman.compose.resource.release''"
definition IntermediateExec :: string where "IntermediateExec = ''exec''"
definition IntermediateHolder :: string where "IntermediateHolder = ''holder''"

lemmas HookLabel_defs = LabelIntermediate_def LabelOwner_def LabelHooksProject_def LabelHooksWorkdir_def LabelHook_def
  LabelHookEvent_def LabelResourceKey_def LabelResourceValue_def LabelResourceCommand_def LabelResourceScaleIndex_def
  LabelResourceRelease_def IntermediateExec_def IntermediateHolder_def

definition execLabels :: "hookReplica \<Rightarrow> string \<Rightarrow> LifecycleEvent \<Rightarrow> (string, string) gomap" where
  "execLabels r hook ev =
     [(LabelIntermediate, IntermediateExec), (LabelOwner, hrName r), (LabelHooksProject, hrProject r),
      (LabelHooksWorkdir, hrWorkDir r), (LabelHook, hook), (LabelHookEvent, lifecycleEventString ev)]"

definition selector :: "resourceRef \<Rightarrow> (string, string) gomap" where
  "selector r =
     [(LabelIntermediate, IntermediateHolder), (LabelHooksProject, rrProject r), (LabelHooksWorkdir, rrWorkDir r),
      (LabelResourceCommand, rrCommand r), (LabelResourceScaleIndex, itoa (rrScaleIndex r)), (LabelResourceKey, rrKey r)]"

definition ref_replicaName :: "ComposeHost \<Rightarrow> resourceRef \<Rightarrow> string" where
  "ref_replicaName ch r = InstanceName (GenerateName (workdirHash (chSha ch) (rrWorkDir r)) (rrProject r) (rrCommand r)) (rrScaleIndex r)"

definition holder_name :: "resourceHolder \<Rightarrow> string" where
  "holder_name h = HolderName (rhOwner h) (rrKey (rhRef h))"

definition envValue :: "string list \<Rightarrow> string \<Rightarrow> string option" where
  "envValue env key =
     (case find (\<lambda>kv. case cut CHR ''='' kv of (k, _, ok) \<Rightarrow> ok \<and> k = key) (rev env) of
        None \<Rightarrow> None | Some kv \<Rightarrow> Some (fst (snd (cut CHR ''='' kv))))"

definition holder_hookName :: "resourceHolder \<Rightarrow> string" where
  "holder_hookName h =
     (case envValue (rhEnv h) ''CMDMAN_COMPOSE_HOOK_NAME'' of
        Some n \<Rightarrow> if n \<noteq> [] then n else rrKey (rhRef h) | None \<Rightarrow> rrKey (rhRef h))"

definition releasedAtStop :: "resourceHolder \<Rightarrow> bool" where
  "releasedAtStop h \<longleftrightarrow> (case rhRelease h of None \<Rightarrow> False | Some rel \<Rightarrow> rlEvent rel = LifecycleStopPre \<or> rlEvent rel = LifecycleStopPost)"

definition holder_replica :: "resourceHolder \<Rightarrow> hookReplica" where
  "holder_replica h =
     (let ref = rhRef h;
          scale = (case envValue (rhEnv h) ''CMDMAN_COMPOSE_SCALE'' of
             Some raw \<Rightarrow> (case atoi raw of Some n \<Rightarrow> if n > 1 then n else 1 | None \<Rightarrow> 1) | None \<Rightarrow> 1)
      in \<lparr> hrProject = rrProject ref, hrWorkDir = rrWorkDir ref, hrCommand = rrCommand ref, hrScaleIndex = rrScaleIndex ref,
           hrScale = scale, hrName = rhOwner h,
           hrDisplay = (if scale > 1 then rrCommand ref @ ''-'' @ itoa (rrScaleIndex ref) else rrCommand ref),
           hrDir = rhDir h, hrEnv = rhEnv h \<rparr>)"

definition holder_labels :: "ComposeHost \<Rightarrow> resourceHolder \<Rightarrow> SvcErr + (string, string) gomap" where
  "holder_labels ch h =
     (let labels = selector (rhRef h) @ [(LabelOwner, rhOwner h), (LabelResourceValue, rhValue h)]
      in case rhRelease h of
           None \<Rightarrow> Inr labels
         | Some rel \<Rightarrow> (case chEncodeRelease ch rel of
               None \<Rightarrow> Inl (ErrText ''encode release'') | Some s \<Rightarrow> Inr (labels @ [(LabelResourceRelease, s)])))"

definition intermediateRequest :: "string \<Rightarrow> string \<Rightarrow> string list \<Rightarrow> string list \<Rightarrow> string \<Rightarrow> (string, string) gomap \<Rightarrow> CreateRequest" where
  "intermediateRequest name dir env argv driver labels =
     \<lparr> rqName = name, rqDir = dir, rqEnv = env, rqImportHostEnv = Some False, rqInjectEnv = None, rqAppendEnv = [],
       rqLabels = labels, rqRestartPolicy = RestartPolicyNo, rqMaxRetries = 0, rqStopSignal = [], rqStopTimeout = 0,
       rqStopCommand = [], rqAutoRemove = False, rqTty = False, rqScrollbackBytes = 0, rqLogDriver = driver, rqLogOpts = [],
       rqHooks = [], rqArgv = argv, rqReplace = False \<rparr>"

definition holder_createRequest :: "ComposeHost \<Rightarrow> resourceHolder \<Rightarrow> SvcErr + CreateRequest" where
  "holder_createRequest ch h =
     bindE (holder_labels ch h) (\<lambda>labels.
       Inr ((intermediateRequest (holder_name h) (rhDir h) (rhEnv h) [''true''] ''none'' labels)\<lparr> rqInjectEnv := Some False, rqReplace := True \<rparr>))"

definition decodeHolder :: "ComposeHost \<Rightarrow> CommandEntry \<Rightarrow> SvcErr + resourceHolder" where
  "decodeHolder ch e =
     (case enConfigJSON e of
        None \<Rightarrow> Inl (ErrText ''no stored config'')
      | Some cfg \<Rightarrow>
          let l = label_of (ccLabels cfg)
          in case atoi (l LabelResourceScaleIndex) of
               None \<Rightarrow> Inl (ErrText ''scale index'')
             | Some index \<Rightarrow>
                 let h = \<lparr> rhRef = \<lparr> rrProject = l LabelHooksProject, rrWorkDir = l LabelHooksWorkdir, rrCommand = l LabelResourceCommand,
                           rrScaleIndex = index, rrKey = l LabelResourceKey \<rparr>,
                         rhOwner = l LabelOwner, rhValue = l LabelResourceValue, rhRelease = None, rhDir = ccDir cfg, rhEnv = ccEnv cfg \<rparr>
                 in if l LabelResourceRelease = [] then Inr h
                    else case chDecodeRelease ch (l LabelResourceRelease) of
                           None \<Rightarrow> Inl (ErrText ''decode release'') | Some rel \<Rightarrow> Inr (h\<lparr> rhRelease := Some rel \<rparr>))"

section \<open>Operations on intermediates\<close>

definition findHolder :: "ComposeHost \<Rightarrow> resourceRef \<Rightarrow> (SvcErr + CommandEntry option) effect" where
  "findHolder ch ref =
     bindR (wrapR (ErrWrap ''look up holder'') (svc (Service_List (chHost ch) True (selector ref)))) (\<lambda>es.
       Pair (case es of [] \<Rightarrow> Inr None | [e] \<Rightarrow> Inr (Some e) | _ \<Rightarrow> Inl (ErrText ''several holders'')))"

definition putHolder :: "ComposeHost \<Rightarrow> resourceHolder \<Rightarrow> (SvcErr + unit) effect" where
  "putHolder ch h =
     (case holder_createRequest ch h of
        Inl e \<Rightarrow> Pair (Inl e)
      | Inr req \<Rightarrow> bindR (wrapR (ErrWrap ''store resource'') (svc (Create (chHost ch) req))) (\<lambda>_. Pair (Inr ())))"

definition firstErr :: "SvcErr option list \<Rightarrow> SvcErr + unit" where
  "firstErr es = (case find (\<lambda>e. e \<noteq> None) es of Some (Some e) \<Rightarrow> Inl e | _ \<Rightarrow> Inr ())"

definition removeIntermediate :: "ComposeHost \<Rightarrow> string \<Rightarrow> (SvcErr + unit) effect" where
  "removeIntermediate ch i =
     bindR (svc (Service_Remove (chHost ch) [i] [] False)) (\<lambda>rs. Pair (firstErr (map snd rs)))"

definition dropHolder :: "ComposeHost \<Rightarrow> resourceRef \<Rightarrow> (SvcErr + unit) effect" where
  "dropHolder ch ref =
     bindR (findHolder ch ref) (\<lambda>holder. case holder of
       None \<Rightarrow> Pair (Inr ())
     | Some e \<Rightarrow> wrapR (ErrWrap ''remove holder'') (removeIntermediate ch (enID e)))"

text \<open>\<^verbatim>\<open>stopForRecreate\<close> of service_create.go.\<close>

definition stopForRecreate :: "ComposeHost \<Rightarrow> string \<Rightarrow> int option \<Rightarrow> (bool \<times> SvcErr option) effect" where
  "stopForRecreate ch i timeout =
     tryR (svc (Service_Stop (chHost ch) [i] [] timeout)) (\<lambda>r. Pair (case r of
       Inl e \<Rightarrow> (False, Some e)
     | Inr rs \<Rightarrow> (list_ex (\<lambda>(_, k, _). k) rs, case firstErr (map (\<lambda>(_, _, e). e) rs) of Inl e \<Rightarrow> Some e | Inr _ \<Rightarrow> None)))"

definition stopLiveIntermediate :: "ComposeHost \<Rightarrow> CommandEntry \<Rightarrow> (SvcErr + unit) effect" where
  "stopLiveIntermediate ch e =
     (if \<not> isLive (enState e) then Pair (Inr ())
      else tryR (stopForRecreate ch (enID e) None) (\<lambda>(_, err). Pair (case err of None \<Rightarrow> Inr () | Some e \<Rightarrow> Inl e)))"

fun clearExecs :: "ComposeHost \<Rightarrow> CommandEntry list \<Rightarrow> (SvcErr + unit) effect" where
  "clearExecs ch [] = Pair (Inr ())"
| "clearExecs ch (e # es) =
     bindR (wrapR (ErrWrap ''stop earlier hook command'') (stopLiveIntermediate ch e)) (\<lambda>_.
     bindR (wrapR (ErrWrap ''remove earlier hook command'') (removeIntermediate ch (enID e))) (\<lambda>_. clearExecs ch es))"

definition clearStaleExecs :: "ComposeHost \<Rightarrow> (string, string) gomap \<Rightarrow> (SvcErr + unit) effect" where
  "clearStaleExecs ch labels =
     bindR (wrapR (ErrWrap ''look up earlier hook commands'') (svc (Service_List (chHost ch) True labels))) (clearExecs ch)"

section \<open>Replicas as their hooks see them (lifecycle_replica.go)\<close>

definition resourceRefOf :: "hookReplica \<Rightarrow> string \<Rightarrow> resourceRef" where
  "resourceRefOf r key = \<lparr> rrProject = hrProject r, rrWorkDir = hrWorkDir r, rrCommand = hrCommand r, rrScaleIndex = hrScaleIndex r, rrKey = key \<rparr>"

definition composeContextEnv :: "ComposeHost \<Rightarrow> string \<Rightarrow> string \<Rightarrow> string \<Rightarrow> int \<Rightarrow> int \<Rightarrow> string list" where
  "composeContextEnv ch project workDir command scaleIndex scale =
     [''CMDMAN_COMPOSE_SCALE_INDEX='' @ itoa scaleIndex, ''CMDMAN_COMPOSE_SCALE='' @ itoa (max scale 1),
      ''CMDMAN_COMPOSE_WORK_DIR='' @ workDir, ''CMDMAN_COMPOSE_WORK_DIR_HASH='' @ workdirHash (chSha ch) workDir,
      ''CMDMAN_COMPOSE_PROJECT='' @ project, ''CMDMAN_COMPOSE_COMMAND='' @ command]"

definition instanceDisplayName :: "Command \<Rightarrow> int \<Rightarrow> string" where
  "instanceDisplayName cmd idx = (if cScale cmd \<le> 1 then cName cmd else cName cmd @ ''-'' @ itoa idx)"

definition entryDisplayName :: "CommandEntry \<Rightarrow> string" where
  "entryDisplayName e =
     (case enConfigJSON e of
        None \<Rightarrow> []
      | Some cfg \<Rightarrow>
          let name = label_of (ccLabels cfg) LabelCommand; (idx, scale) = ScaleOf (ccLabels cfg)
          in if scale \<le> 1 \<or> idx \<le> 0 then name else name @ ''-'' @ itoa idx)"

definition specHookReplica :: "ComposeHost \<Rightarrow> ComposeSpec \<Rightarrow> Command \<Rightarrow> int \<Rightarrow> hookReplica" where
  "specHookReplica ch spec nc idx =
     (let cfg = hoConfig (chHost ch)
      in \<lparr> hrProject = sProject spec, hrWorkDir = sWorkDir spec, hrCommand = cName nc, hrScaleIndex = idx, hrScale = max (cScale nc) 1,
           hrName = InstanceName (cGeneratedName nc) idx, hrDisplay = instanceDisplayName nc idx,
           hrDir = (if cDir nc = [] then cfDefaultWorkingDir cfg else cDir nc),
           hrEnv = (if cImportHostEnv nc then cfDefaultEnvironment cfg else []) @ cEnv nc @
             composeContextEnv ch (sProject spec) (sWorkDir spec) (cName nc) idx (cScale nc) \<rparr>)"

definition storedReplica :: "CommandEntry \<Rightarrow> SvcErr + hookReplica" where
  "storedReplica e =
     (case enConfigJSON e of
        None \<Rightarrow> Inl (ErrText ''no stored config'')
      | Some cfg \<Rightarrow>
          let l = label_of (ccLabels cfg); (index, scale) = ScaleOf (ccLabels cfg)
          in Inr \<lparr> hrProject = l LabelProject, hrWorkDir = l LabelWorkdir, hrCommand = l LabelCommand, hrScaleIndex = index,
                   hrScale = max scale 1, hrName = enName e, hrDisplay = entryDisplayName e, hrDir = ccDir cfg, hrEnv = ccEnv cfg \<rparr>)"

definition decodeHooksLabel :: "ComposeHost \<Rightarrow> string \<Rightarrow> SvcErr + LifecycleHook list" where
  "decodeHooksLabel ch raw =
     (if raw = [] then Inr []
      else case chDecodeHooks ch raw of
        None \<Rightarrow> Inl (ErrText ''decode hooks'')
      | Some hooks \<Rightarrow> (case validateLifecycleHooks hooks of Inl _ \<Rightarrow> Inl (ErrText ''invalid hooks'') | Inr _ \<Rightarrow> Inr hooks))"

text \<open>Only called on an entry that \<open>storedReplica\<close> has described, so its configuration is there.\<close>

definition storedHooks :: "ComposeHost \<Rightarrow> CommandEntry \<Rightarrow> SvcErr + LifecycleHook list" where
  "storedHooks ch e =
     (case enConfigJSON e of None \<Rightarrow> Inr [] | Some cfg \<Rightarrow> wrapE (ErrWrap ''stored hooks'') (decodeHooksLabel ch (label_of (ccLabels cfg) LabelHooks)))"

definition storedHookReplica :: "ComposeHost \<Rightarrow> CommandEntry \<Rightarrow> SvcErr + hookReplica \<times> LifecycleHook list" where
  "storedHookReplica ch e = bindE (storedReplica e) (\<lambda>r. bindE (storedHooks ch e) (\<lambda>hooks. Inr (r, hooks)))"

end
