(* ===== verification/Hook_Runner.thy ===== *)
theory Hook_Runner
  imports Hook_Holder
begin

text \<open>
  Lifecycle hooks as compose runs them (cmdman/compose/lifecycle_runner.go, lifecycle_output.go): the
  exec command of one event, what it acquired or released, and the handling of its failure.
\<close>

section \<open>Output of a hook (lifecycle_output.go)\<close>

type_synonym lineAssembler = "(string, string) gomap"

definition pendingOf :: "lineAssembler \<Rightarrow> string \<Rightarrow> string" where
  "pendingOf a s = (case map_of a s of None \<Rightarrow> [] | Some p \<Rightarrow> p)"

definition trimRightCRLF :: "string \<Rightarrow> string" where
  "trimRightCRLF s = rev (dropWhile (\<lambda>c. c = CHR 0x0D \<or> c = CHR 0x0A) (rev s))"

definition assembler_add :: "LogLine \<Rightarrow> lineAssembler \<Rightarrow> string option \<times> lineAssembler" where
  "assembler_add l a =
     (if lPartial l then (None, AList.update (lStream l) (pendingOf a (lStream l) @ lLine l) a)
      else (Some (trimRightCRLF (pendingOf a (lStream l) @ lLine l)), AList.delete (lStream l) a))"

definition assembler_rest :: "lineAssembler \<Rightarrow> (string \<times> string) list" where
  "assembler_rest a = sort_key fst (filter (\<lambda>(_, line). line \<noteq> []) a)"

definition resourceValue :: "string list \<Rightarrow> string" where
  "resourceValue stdout = (case find (\<lambda>l. trimSpace l \<noteq> []) (rev stdout) of Some l \<Rightarrow> trimSpace l | None \<Rightarrow> [])"

fun stdoutLines :: "(SvcErr + LogLine) list \<Rightarrow> lineAssembler \<Rightarrow> SvcErr + string list" where
  "stdoutLines [] a = Inr (map snd (assembler_rest a))"
| "stdoutLines (Inl e # rs) a = Inl e"
| "stdoutLines (Inr l # rs) a =
     (if lStream l \<noteq> StreamStdout then stdoutLines rs a
      else case assembler_add l a of (line, a') \<Rightarrow>
        bindE (stdoutLines rs a') (\<lambda>ls. Inr (case line of None \<Rightarrow> ls | Some x \<Rightarrow> x # ls)))"

definition readResourceValue :: "ComposeHost \<Rightarrow> string \<Rightarrow> (SvcErr + string) effect" where
  "readResourceValue ch i cw =
     (let t = wTick (cwWorld cw); cw' = snd (svc (outside (chHost ch)) cw)
      in (bindE (chLogs ch t i) (\<lambda>rs. bindE (stdoutLines rs []) (\<lambda>ls. Inr (resourceValue ls))), cw'))"

section \<open>Events\<close>

record hookRun =
  ruReplica :: hookReplica
  ruHook :: string
  ruEvent :: LifecycleEvent
  ruExec :: string
  ruEnv :: "string list"
  ruHeld :: "resourceHolder option"

definition hookEvent :: "hookRun \<Rightarrow> Phase \<Rightarrow> SvcErr option \<Rightarrow> int option \<Rightarrow> Event" where
  "hookEvent run phase err exit =
     (plainEvent (hrDisplay (ruReplica run)) phase err)\<lparr> evExitCode := exit, evScaleIndex := hrScaleIndex (ruReplica run),
        evHook := ruHook run, evLifecycle := Some (ruEvent run), evExec := ruExec run \<rparr>"

definition reportHook :: "ComposeHost \<Rightarrow> hookRun \<Rightarrow> Phase \<Rightarrow> SvcErr option \<Rightarrow> int option \<Rightarrow> CWorld \<Rightarrow> CWorld" where
  "reportHook ch run phase err exit = report ch (hookEvent run phase err exit)"

definition reportHookOutput :: "ComposeHost \<Rightarrow> hookRun \<Rightarrow> string \<Rightarrow> string \<Rightarrow> CWorld \<Rightarrow> CWorld" where
  "reportHookOutput ch run stream line =
     report ch ((hookEvent run PhaseHookOutput None None)\<lparr> evStream := stream, evLine := line \<rparr>)"

fun forwardRecords :: "ComposeHost \<Rightarrow> hookRun \<Rightarrow> (SvcErr + LogLine) list \<Rightarrow> lineAssembler \<Rightarrow> CWorld \<Rightarrow> CWorld" where
  "forwardRecords ch run [] a cw = fold (\<lambda>(s, l). reportHookOutput ch run s l) (assembler_rest a) cw"
| "forwardRecords ch run (Inl e # rs) a cw = forwardRecords ch run rs a cw"
| "forwardRecords ch run (Inr l # rs) a cw =
     (case assembler_add l a of (line, a') \<Rightarrow>
        forwardRecords ch run rs a' (case line of None \<Rightarrow> cw | Some x \<Rightarrow> reportHookOutput ch run (lStream l) x cw))"

definition forwardHookOutput :: "ComposeHost \<Rightarrow> hookRun \<Rightarrow> string \<Rightarrow> CWorld \<Rightarrow> CWorld" where
  "forwardHookOutput ch run i cw =
     (let t = wTick (cwWorld cw); cw' = snd (svc (outside (chHost ch)) cw)
      in case chFollow ch t i of Inl _ \<Rightarrow> cw' | Inr rs \<Rightarrow> forwardRecords ch run rs [] cw')"

section \<open>One exec command\<close>

definition hookExit :: "WaitResult list \<Rightarrow> int option \<times> SvcErr option" where
  "hookExit results =
     (case results of
        [res] \<Rightarrow>
          (case wrErr res of
             Some e \<Rightarrow> (wrExitCode res, Some (ErrWrap ''wait for hook command'' e))
           | None \<Rightarrow> (case wrExitCode res of
                None \<Rightarrow> (None, Some (ErrText ''ended without an exit code''))
              | Some c \<Rightarrow> (Some c, if c \<noteq> 0 then Some (ErrText ''exited with a code'') else None)))
      | _ \<Rightarrow> (None, Some (ErrText ''wait for hook command'')))"

text \<open>A context of its own that is not done: \<^verbatim>\<open>context.WithoutCancel\<close> with a timeout.\<close>

definition detached :: "'a effect \<Rightarrow> 'a effect" where
  "detached f cw =
     (case f (cw\<lparr> cwWorld := (cwWorld cw)\<lparr> wDone := False \<rparr> \<rparr>) of
        (r, cw') \<Rightarrow> (r, cw'\<lparr> cwWorld := (cwWorld cw')\<lparr> wDone := wDone (cwWorld cw) \<rparr> \<rparr>))"

fun stopMatching :: "ComposeHost \<Rightarrow> string \<Rightarrow> CommandEntry list \<Rightarrow> unit effect" where
  "stopMatching ch i [] = Pair ()"
| "stopMatching ch i (e # es) =
     (if enID e \<noteq> i then stopMatching ch i es
      else tryR (stopLiveIntermediate ch e) (\<lambda>_. stopMatching ch i es))"

definition stopCancelledExec :: "ComposeHost \<Rightarrow> hookRun \<Rightarrow> string \<Rightarrow> unit effect" where
  "stopCancelledExec ch run i =
     detached (tryR (svc (Service_List (chHost ch) True (execLabels (ruReplica run) (ruHook run) (ruEvent run)))) (\<lambda>r. case r of
       Inl _ \<Rightarrow> Pair () | Inr es \<Rightarrow> stopMatching ch i es))"

definition runExec :: "ComposeHost \<Rightarrow> hookRun \<Rightarrow> string \<Rightarrow> (int option \<times> SvcErr option) effect" where
  "runExec ch run i =
     tryR (svc (Start (chHost ch) i)) (\<lambda>r cw. case r of
       Inl e \<Rightarrow>
         if ctxDone cw then tryR (stopCancelledExec ch run i) (\<lambda>_. Pair (None, Some ErrCanceled)) cw
         else ((None, Some (ErrWrap ''start hook command'' e)), cw)
     | Inr _ \<Rightarrow>
         tryR (svc (Wait (chHost ch) [i] EventTypeNone 0 False)) (\<lambda>results cw.
           if ctxDone cw then tryR (stopCancelledExec ch run i) (\<lambda>_. Pair (None, Some ErrCanceled)) cw
           else case results of
             Inl e \<Rightarrow> ((None, Some (ErrWrap ''wait for hook command'' e)), cw)
           | Inr rs \<Rightarrow> (hookExit rs, cw))
         (if chReporter ch then forwardHookOutput ch run i cw else cw))"

definition hookEnv :: "ComposeHost \<Rightarrow> hookReplica \<Rightarrow> LifecycleHook \<Rightarrow> LifecycleEvent \<Rightarrow> string list" where
  "hookEnv ch r h ev =
     (let cfg = hoConfig (chHost ch)
      in composeContextEnv ch (hrProject r) (hrWorkDir r) (hrCommand r) (hrScaleIndex r) (hrScale r) @
         [''CMDMAN_COMPOSE_HOOK_NAME='' @ lhName h, ''CMDMAN_COMPOSE_HOOK_EVENT='' @ lifecycleEventString ev] @
         (if lhResource h \<noteq> [] then [''CMDMAN_COMPOSE_RESOURCE_KEY='' @ lhResource h] else []) @
         [''CMDMAN_DATA_DIR='' @ cfDataDir cfg, ''CMDMAN_RUNTIME_DIR='' @ cfRuntimeDir cfg] @
         (if cfConfigPath cfg \<noteq> [] then
            [''CMDMAN_CONF='' @ (case chAbs ch (cfConfigPath cfg) of Some p \<Rightarrow> p | None \<Rightarrow> cfConfigPath cfg)] else []))"

definition hookRelease :: "LifecycleHook \<Rightarrow> LifecycleEvent \<Rightarrow> resourceRelease option" where
  "hookRelease h acquire =
     (case find (\<lambda>ev. map_of (lhEvents h) ev \<noteq> None) (releases acquire) of
        None \<Rightarrow> None
      | Some ev \<Rightarrow> (case map_of (lhEvents h) ev of
            None \<Rightarrow> None | Some x \<Rightarrow> Some \<lparr> rlEvent = ev, rlArgs = leArgs x, rlOnError = OnError_resolved (leOnError x) \<rparr>))"

definition acquiredHolder :: "ComposeHost \<Rightarrow> hookRun \<Rightarrow> LifecycleHook \<Rightarrow> string \<Rightarrow> resourceHolder" where
  "acquiredHolder ch run h value =
     (let r = ruReplica run; release = hookRelease h (ruEvent run)
      in \<lparr> rhRef = resourceRefOf r (lhResource h), rhOwner = hrName r, rhValue = value, rhRelease = release, rhDir = hrDir r,
           rhEnv = hrEnv r @ hookEnv ch r h (case release of Some rel \<Rightarrow> rlEvent rel | None \<Rightarrow> ruEvent run) \<rparr>)"

definition recordResource :: "ComposeHost \<Rightarrow> hookRun \<Rightarrow> LifecycleHook \<Rightarrow> string \<Rightarrow> (SvcErr + unit) effect" where
  "recordResource ch run h i =
     (if \<not> acquires (ruEvent run) then dropHolder ch (resourceRefOf (ruReplica run) (lhResource h))
      else bindR (wrapR (ErrWrap ''read resource'') (readResourceValue ch i)) (\<lambda>value. putHolder ch (acquiredHolder ch run h value)))"

definition execRequest :: "hookRun \<Rightarrow> LifecycleHook \<Rightarrow> LifecycleExec \<Rightarrow> string \<Rightarrow> CreateRequest" where
  "execRequest run h exec value =
     (let r = ruReplica run
      in intermediateRequest (ruExec run) (hrDir r)
           (ruEnv run @ (if lhResource h \<noteq> [] then [''CMDMAN_COMPOSE_RESOURCE_VALUE='' @ value] else []))
           (leArgs exec) ''k8s-file'' (execLabels r (lhName h) (ruEvent run)))"

text \<open>The tail of \<^verbatim>\<open>execHookValue\<close>: the record of what the command did, and its run.\<close>

definition execDone :: "ComposeHost \<Rightarrow> hookRun \<Rightarrow> LifecycleHook \<Rightarrow> string \<Rightarrow> int option \<Rightarrow> (int option \<times> SvcErr option) effect" where
  "execDone ch run h j exit =
     tryR (if lhResource h \<noteq> [] then recordResource ch run h j else Pair (Inr ())) (\<lambda>r. case r of
       Inl e \<Rightarrow> Pair (exit, Some e)
     | Inr _ \<Rightarrow> tryR (removeIntermediate ch j) (\<lambda>_. Pair (exit, None)))"

definition execRun :: "ComposeHost \<Rightarrow> hookRun \<Rightarrow> LifecycleHook \<Rightarrow> string \<Rightarrow> (int option \<times> SvcErr option) effect" where
  "execRun ch run h j = tryR (runExec ch run j) (\<lambda>(exit, err). case err of
     Some e \<Rightarrow> Pair (exit, Some e) | None \<Rightarrow> execDone ch run h j exit)"

text \<open>The exit code goes with the error, as in the source.\<close>

definition execHookValue :: "ComposeHost \<Rightarrow> hookRun \<Rightarrow> LifecycleHook \<Rightarrow> LifecycleExec \<Rightarrow> string \<Rightarrow> (int option \<times> SvcErr option) effect" where
  "execHookValue ch run h exec value =
     tryR (clearStaleExecs ch (execLabels (ruReplica run) (lhName h) (ruEvent run))) (\<lambda>r. case r of
       Inl e \<Rightarrow> Pair (None, Some e)
     | Inr _ \<Rightarrow>
         tryR (svc (Create (chHost ch) (execRequest run h exec value))) (\<lambda>r. case r of
           Inl e \<Rightarrow> Pair (None, Some (ErrWrap ''create hook command'' e))
         | Inr i \<Rightarrow>
             (\<lambda>cw. execRun ch run h i (reportHook ch run PhaseHookRunning None None cw))))"

definition execHook ::
    "ComposeHost \<Rightarrow> hookRun \<Rightarrow> LifecycleHook \<Rightarrow> LifecycleExec \<Rightarrow>
     (int option \<times> resourceHolder option \<times> string \<times> SvcErr option) effect" where
  "execHook ch run h exec =
     (let go = (\<lambda>held value. tryR (execHookValue ch run h exec value) (\<lambda>(exit, err).
            Pair (exit, held, value,
              case err of None \<Rightarrow> None | Some e \<Rightarrow> Some (if lhResource h \<noteq> [] \<and> \<not> acquires (ruEvent run) then ErrWrap ''release resource'' e else e))))
      in if lhResource h = [] then go None []
         else case ruHeld run of
           Some held \<Rightarrow> go (Some held) (rhValue held)
         | None \<Rightarrow>
             tryR (findHolder ch (resourceRefOf (ruReplica run) (lhResource h))) (\<lambda>r. case r of
               Inl e \<Rightarrow> Pair (None, None, [], Some e)
             | Inr None \<Rightarrow> go None []
             | Inr (Some e) \<Rightarrow>
                 (case enConfigJSON e of
                    None \<Rightarrow> go None []
                  | Some cfg \<Rightarrow> go (case decodeHolder ch e of Inl _ \<Rightarrow> None | Inr held \<Rightarrow> Some held) (label_of (ccLabels cfg) LabelResourceValue))))"

section \<open>Failures\<close>

definition recordFailure :: "failedRelease \<Rightarrow> CWorld \<Rightarrow> CWorld" where
  "recordFailure f cw = cw\<lparr> cwFailed := map_option (\<lambda>fs. fs @ [f]) (cwFailed cw) \<rparr>"

definition failureRecord ::
    "hookRun \<Rightarrow> LifecycleHook \<Rightarrow> LifecycleExec \<Rightarrow> resourceHolder option \<Rightarrow> string \<Rightarrow> SvcErr \<Rightarrow> bool \<Rightarrow> failedRelease" where
  "failureRecord run h exec held value err cancelled =
     (let r = ruReplica run;
          rec = (case held of Some x \<Rightarrow> x
            | None \<Rightarrow> \<lparr> rhRef = resourceRefOf r (lhResource h), rhOwner = hrName r, rhValue = value, rhRelease = None, rhDir = [], rhEnv = [] \<rparr>);
          rec = (if rhRelease rec \<noteq> None then rec
            else rec\<lparr> rhRelease := Some \<lparr> rlEvent = ruEvent run, rlArgs = leArgs exec, rlOnError = OnError_resolved (leOnError exec) \<rparr>,
                      rhDir := hrDir r, rhEnv := ruEnv run \<rparr>)
      in \<lparr> frHolder = rec, frDisplay = hrDisplay r, frErr = err,
           frOnError = (if cancelled then OnErrorFail else OnError_resolved (leOnError exec)),
           frRetried = False, frReportOnly = (held = None) \<rparr>)"

text \<open>What a failed run does next.\<close>

definition onFailure ::
    "ComposeHost \<Rightarrow> hookRun \<Rightarrow> LifecycleHook \<Rightarrow> LifecycleExec \<Rightarrow> int option \<Rightarrow> resourceHolder option \<Rightarrow> string \<Rightarrow> SvcErr \<Rightarrow>
     (SvcErr option \<times> SvcErr option) effect" where
  "onFailure ch run h exec exit held value e cw =
     (let err = ErrWrap ''hook'' e;
          releasing = (lhResource h \<noteq> [] \<and> \<not> acquires (ruEvent run));
          cw = (if releasing then recordFailure (failureRecord run h exec held value err (ctxDone cw)) cw else cw)
      in if ctxDone cw then ((None, Some err), reportHook ch run PhaseHookFailed (Some err) exit cw)
         else case OnError_resolved (leOnError exec) of
           OnErrorContinue \<Rightarrow> ((Some err, None), reportHook ch run PhaseHookWarning (Some err) exit cw)
         | OnErrorIgnore \<Rightarrow>
             (let cw = reportHook ch run PhaseHookIgnored (Some err) exit cw
              in if releasing then tryR (dropHolder ch (resourceRefOf (ruReplica run) (lhResource h))) (\<lambda>_. Pair (None, None)) cw
                 else ((None, None), cw))
         | _ \<Rightarrow> ((None, Some err), reportHook ch run PhaseHookFailed (Some err) exit cw))"

definition runHookAs ::
    "ComposeHost \<Rightarrow> hookRun \<Rightarrow> LifecycleHook \<Rightarrow> LifecycleExec \<Rightarrow> (SvcErr option \<times> SvcErr option) effect" where
  "runHookAs ch run h exec =
     tryR (execHook ch run h exec) (\<lambda>(exit, held, value, err). case err of
       None \<Rightarrow> (\<lambda>cw. ((None, None), reportHook ch run PhaseHookSucceeded None exit cw))
     | Some e \<Rightarrow> onFailure ch run h exec exit held value e)"

definition runHook ::
    "ComposeHost \<Rightarrow> hookReplica \<Rightarrow> LifecycleHook \<Rightarrow> LifecycleEvent \<Rightarrow> LifecycleExec \<Rightarrow> (SvcErr option \<times> SvcErr option) effect" where
  "runHook ch r h ev exec =
     runHookAs ch \<lparr> ruReplica = r, ruHook = lhName h, ruEvent = ev, ruExec = ExecCommandName (hrName r) (lhName h) ev,
       ruEnv = hrEnv r @ hookEnv ch r h ev, ruHeld = None \<rparr> h exec"

fun runLifecycleEvent ::
    "ComposeHost \<Rightarrow> hookReplica \<Rightarrow> LifecycleHook list \<Rightarrow> LifecycleEvent \<Rightarrow> (SvcErr list \<times> SvcErr option) effect" where
  "runLifecycleEvent ch r [] ev = Pair ([], None)"
| "runLifecycleEvent ch r (h # hs) ev =
     (case map_of (lhEvents h) ev of
        None \<Rightarrow> runLifecycleEvent ch r hs ev
      | Some exec \<Rightarrow>
          tryR (runHook ch r h ev exec) (\<lambda>(warning, err). case err of
            Some e \<Rightarrow> Pair ([], Some e)
          | None \<Rightarrow> tryR (runLifecycleEvent ch r hs ev) (\<lambda>(ws, err).
              Pair ((case warning of None \<Rightarrow> ws | Some x \<Rightarrow> x # ws), err))))"

definition forcedHook :: "LifecycleHook \<Rightarrow> LifecycleHook" where
  "forcedHook h = h\<lparr> lhEvents := map (\<lambda>(ev, x). (ev, if OnError_resolved (leOnError x) = OnErrorFail then x\<lparr> leOnError := OnErrorContinue \<rparr> else x))
     (lhEvents h) \<rparr>"

definition forcedHooks :: "LifecycleHook list \<Rightarrow> LifecycleHook list" where
  "forcedHooks hooks = map forcedHook hooks"

definition runRelease :: "ComposeHost \<Rightarrow> resourceHolder \<Rightarrow> bool \<Rightarrow> (SvcErr option \<times> SvcErr option) effect" where
  "runRelease ch h force =
     (case rhRelease h of
        None \<Rightarrow> Pair (None, Some (ErrText ''stores no release''))
      | Some rel \<Rightarrow>
          let hook0 = \<lparr> lhName = holder_hookName h, lhResource = rrKey (rhRef h),
                        lhEvents = [(rlEvent rel, \<lparr> leArgs = rlArgs rel, leOnError = rlOnError rel \<rparr>)] \<rparr>;
              hook = (if force then forcedHook hook0 else hook0);
              r = holder_replica h
          in runHookAs ch \<lparr> ruReplica = r, ruHook = lhName hook, ruEvent = rlEvent rel, ruExec = ExecCommandName (hrName r) (lhName hook) (rlEvent rel),
               ruEnv = rhEnv h @ [''CMDMAN_COMPOSE_RESOURCE_KEY='' @ rrKey (rhRef h)], ruHeld = Some h \<rparr> hook
               (the (map_of (lhEvents hook) (rlEvent rel))))"

end
