(* ===== verification/Hook_Steps.thy ===== *)
theory Hook_Steps
  imports Hook_Runner
begin

text \<open>
  The operations on one replica inside their hooks (cmdman/compose/lifecycle_steps.go), what the
  replicas torn down by one compose stop, down or restart share, and the recorder of failed releases
  (release_recorder.go).
\<close>

section \<open>Operations inside their hooks\<close>

datatype hookSource = hooksFromSpec | hooksFromStored

definition replicaHooks ::
    "ComposeHost \<Rightarrow> hookSource \<Rightarrow> ComposeSpec \<Rightarrow> Command \<Rightarrow> CommandEntry \<Rightarrow> SvcErr + hookReplica \<times> LifecycleHook list" where
  "replicaHooks ch src spec cmd e =
     (if src = hooksFromStored then storedHookReplica ch e
      else Inr (specHookReplica ch spec cmd (scaleIndexOf e), cHooks cmd))"

text \<open>An event before an operation, which a failure of the event skips. Warnings are dropped.\<close>

definition beforeStep ::
    "ComposeHost \<Rightarrow> hookReplica \<Rightarrow> LifecycleHook list \<Rightarrow> LifecycleEvent \<Rightarrow> (SvcErr \<Rightarrow> 'b) \<Rightarrow> 'b effect \<Rightarrow> 'b effect" where
  "beforeStep ch r hooks ev failed step =
     tryR (runLifecycleEvent ch r hooks ev) (\<lambda>(_, err). case err of Some e \<Rightarrow> Pair (failed e) | None \<Rightarrow> step)"

definition createWithHooks :: "ComposeHost \<Rightarrow> hookReplica \<Rightarrow> LifecycleHook list \<Rightarrow> CreateRequest \<Rightarrow> (SvcErr option) effect" where
  "createWithHooks ch r hooks req =
     beforeStep ch r hooks LifecycleCreatePre Some
       (tryR (svc (Create (chHost ch) req)) (\<lambda>c. case c of
          Inl e \<Rightarrow> Pair (Some e)
        | Inr _ \<Rightarrow> tryR (runLifecycleEvent ch r hooks LifecycleCreatePost) (\<lambda>(_, err). Pair err)))"

definition startWithHooks :: "ComposeHost \<Rightarrow> hookReplica \<Rightarrow> LifecycleHook list \<Rightarrow> string \<Rightarrow> (SvcErr option) effect" where
  "startWithHooks ch r hooks idOrName =
     beforeStep ch r hooks LifecycleStartPre Some
       (tryR (svc (Start (chHost ch) idOrName)) (\<lambda>s. case s of
          Inl e \<Rightarrow> Pair (Some e)
        | Inr _ \<Rightarrow> tryR (runLifecycleEvent ch r hooks LifecycleStartPost) (\<lambda>(_, err). Pair err)))"

definition startReplica ::
    "ComposeHost \<Rightarrow> ComposeSpec \<Rightarrow> hookSource \<Rightarrow> Command \<Rightarrow> CommandEntry \<Rightarrow> (SvcErr option) effect" where
  "startReplica ch spec src cmd e =
     (case replicaHooks ch src spec cmd e of
        Inl err \<Rightarrow> Pair (Some err)
      | Inr (r, hooks) \<Rightarrow> startWithHooks ch r hooks (enName e))"

text \<open>Whether a hook failed, whether the replica was killed by force, and the error.\<close>

definition stopWithHooks ::
    "ComposeHost \<Rightarrow> hookReplica \<Rightarrow> LifecycleHook list \<Rightarrow> string \<Rightarrow> int option \<Rightarrow> (bool \<times> bool \<times> SvcErr option) effect" where
  "stopWithHooks ch r hooks i timeout =
     beforeStep ch r hooks LifecycleStopPre (\<lambda>e. (True, False, Some e))
       (tryR (stopForRecreate ch i timeout) (\<lambda>(forceKilled, err). case err of
          Some e \<Rightarrow> Pair (False, forceKilled, Some e)
        | None \<Rightarrow> tryR (runLifecycleEvent ch r hooks LifecycleStopPost) (\<lambda>(_, err).
            Pair (err \<noteq> None, forceKilled, err))))"

fun removeExecs :: "ComposeHost \<Rightarrow> CommandEntry list \<Rightarrow> unit effect" where
  "removeExecs ch [] = Pair ()"
| "removeExecs ch (e # es) =
     (if isLive (enState e) then removeExecs ch es else tryR (removeIntermediate ch (enID e)) (\<lambda>_. removeExecs ch es))"

definition removeLeftExecs :: "ComposeHost \<Rightarrow> hookReplica \<Rightarrow> unit effect" where
  "removeLeftExecs ch r =
     tryR (svc (Service_List (chHost ch) True
       [(LabelIntermediate, IntermediateExec), (LabelOwner, hrName r), (LabelHooksProject, hrProject r), (LabelHooksWorkdir, hrWorkDir r)]))
       (\<lambda>l. case l of Inl _ \<Rightarrow> Pair () | Inr es \<Rightarrow> removeExecs ch es)"

definition removeWithHooks ::
    "ComposeHost \<Rightarrow> hookReplica \<Rightarrow> LifecycleHook list \<Rightarrow> string list \<Rightarrow> bool \<Rightarrow> (bool \<times> SvcErr option) effect" where
  "removeWithHooks ch r hooks targets force =
     beforeStep ch r hooks LifecycleRemovePre (\<lambda>e. (False, Some e))
       (tryR (bindR (svc (Service_Remove (chHost ch) targets [] force)) (\<lambda>rs. Pair (firstErr (map snd rs)))) (\<lambda>res. case res of
          Inl e \<Rightarrow> Pair (False, Some e)
        | Inr _ \<Rightarrow> tryR (runLifecycleEvent ch r hooks LifecycleRemovePost) (\<lambda>(_, err).
            tryR (removeLeftExecs ch r) (\<lambda>_. Pair (True, err)))))"

fun releaseEach :: "ComposeHost \<Rightarrow> CommandEntry list \<Rightarrow> (SvcErr list) effect" where
  "releaseEach ch [] = Pair []"
| "releaseEach ch (e # es) =
     (case decodeHolder ch e of
        Inl _ \<Rightarrow> releaseEach ch es
      | Inr h \<Rightarrow>
          if \<not> releasedAtStop h then releaseEach ch es
          else tryR (runRelease ch h False) (\<lambda>(_, err). tryR (releaseEach ch es) (\<lambda>errs.
            Pair (case err of None \<Rightarrow> errs | Some x \<Rightarrow> x # errs))))"

definition releaseStopResources :: "ComposeHost \<Rightarrow> hookReplica \<Rightarrow> (SvcErr option) effect" where
  "releaseStopResources ch r =
     tryR (svc (Service_List (chHost ch) True
       [(LabelIntermediate, IntermediateHolder), (LabelOwner, hrName r), (LabelHooksProject, hrProject r), (LabelHooksWorkdir, hrWorkDir r)]))
       (\<lambda>l. case l of
          Inl e \<Rightarrow> Pair (Some (ErrWrap ''look up resource holders'' e))
        | Inr es \<Rightarrow> tryR (releaseEach ch es) (\<lambda>errs. Pair (errorsJoin (map Some errs))))"

definition removeReplica ::
    "ComposeHost \<Rightarrow> hookReplica \<Rightarrow> LifecycleHook list \<Rightarrow> string list \<Rightarrow> bool \<Rightarrow> bool \<Rightarrow> (SvcErr option) effect" where
  "removeReplica ch r hooks targets force stopped =
     tryR (removeWithHooks ch r hooks targets force) (\<lambda>(removed, err).
       if removed \<and> \<not> stopped then tryR (releaseStopResources ch r) (\<lambda>e. Pair (errorsJoin [err, e])) else Pair err)"

section \<open>Teardown\<close>

record teardown =
  tdForce :: bool
  tdTimeout :: "int option"
  tdKept :: "(string, SvcErr) gomap"
  tdStopped :: "string list"
  tdRemoved :: "string list"

definition newTeardown :: "bool \<Rightarrow> int option \<Rightarrow> teardown" where
  "newTeardown force timeout = \<lparr> tdForce = force, tdTimeout = timeout, tdKept = [], tdStopped = [], tdRemoved = [] \<rparr>"

definition teardownHooks ::
    "ComposeHost \<Rightarrow> CommandEntry \<Rightarrow> bool \<Rightarrow> string \<Rightarrow> (SvcErr + hookReplica \<times> LifecycleHook list) effect" where
  "teardownHooks ch e force step =
     (case storedReplica e of
        Inl err \<Rightarrow> Pair (Inl err)
      | Inr r \<Rightarrow> (case storedHooks ch e of
            Inl err \<Rightarrow>
              if \<not> force then Pair (Inl err)
              else (\<lambda>cw. (Inr (r, []), report ch (plainEvent (hrDisplay r) PhaseHookWarning (Some (ErrWrap (step @ '' without the stored hooks'') err))) cw))
          | Inr hooks \<Rightarrow> Pair (Inr (r, if force then forcedHooks hooks else hooks))))"

definition stopReplica :: "ComposeHost \<Rightarrow> CommandEntry \<Rightarrow> bool \<Rightarrow> int option \<Rightarrow> (bool \<times> bool \<times> SvcErr option) effect" where
  "stopReplica ch e force timeout =
     tryR (teardownHooks ch e force ''stop'') (\<lambda>t. case t of
       Inl err \<Rightarrow> Pair (True, False, Some err)
     | Inr (r, hooks) \<Rightarrow> stopWithHooks ch r hooks (enID e) timeout)"

definition releaseLeft :: "teardown \<Rightarrow> resourceHolder \<Rightarrow> bool" where
  "releaseLeft td h \<longleftrightarrow> releasedAtStop h \<and> rhOwner h \<in> set (tdRemoved td) \<and> rhOwner h \<notin> set (tdStopped td)"

text \<open>The permits of stops that run one after another are never all taken; a wait still fails with a
  context that is done.\<close>

definition acquireStop :: "ComposeHost \<Rightarrow> (SvcErr + unit) effect" where
  "acquireStop ch cw =
     (if chParallelLimit ch > 0 \<and> ctxDone cw \<and> \<not> chPermit ch (wTick (cwWorld cw)) then Inl (ErrWrap ''wait for a stop slot'' ErrCanceled) else Inr (), cw)"

definition teardownStop :: "ComposeHost \<Rightarrow> teardown \<Rightarrow> CommandEntry \<Rightarrow> (teardown \<times> bool \<times> SvcErr option) effect" where
  "teardownStop ch td e =
     tryR (acquireStop ch) (\<lambda>p. case p of
       Inl err \<Rightarrow> Pair (td, False, Some err)
     | Inr _ \<Rightarrow>
         let td = td\<lparr> tdStopped := enName e # tdStopped td \<rparr>
         in tryR (stopReplica ch e (tdForce td) (tdTimeout td)) (\<lambda>(hookFailed, forceKilled, err).
              Pair (case err of
                  Some x \<Rightarrow> if hookFailed then td\<lparr> tdKept := AList.update (enID e) x (tdKept td) \<rparr> else td
                | None \<Rightarrow> td, forceKilled, err)))"

definition teardownRemove :: "ComposeHost \<Rightarrow> teardown \<Rightarrow> CommandEntry \<Rightarrow> (teardown \<times> SvcErr option) effect" where
  "teardownRemove ch td e =
     tryR (teardownHooks ch e (tdForce td) ''remove'') (\<lambda>t. case t of
       Inl err \<Rightarrow> Pair (td, Some err)
     | Inr (r, hooks) \<Rightarrow> tryR (removeWithHooks ch r hooks [enID e] True) (\<lambda>(removed, err).
         Pair (if removed then td\<lparr> tdRemoved := enName e # tdRemoved td \<rparr> else td, err)))"

section \<open>Failed releases (release_recorder.go)\<close>

definition failsDown :: "failedRelease \<Rightarrow> bool" where
  "failsDown f \<longleftrightarrow> frOnError f = OnErrorFail"

definition sortFailures :: "failedRelease list \<Rightarrow> failedRelease list" where
  "sortFailures = sort_key (\<lambda>f. holder_name (frHolder f))"

definition recorded :: "CWorld \<Rightarrow> failedRelease list" where
  "recorded cw = (case cwFailed cw of None \<Rightarrow> [] | Some fs \<Rightarrow> sortFailures fs)"

definition takeRecorded :: "failedRelease list effect" where
  "takeRecorded cw = (recorded cw, cw\<lparr> cwFailed := map_option (\<lambda>_. []) (cwFailed cw) \<rparr>)"

text \<open>A context with a recorder of its own.\<close>

definition withRecorder :: "'a effect \<Rightarrow> ('a \<times> failedRelease list) effect" where
  "withRecorder f cw =
     (case f (cw\<lparr> cwFailed := Some [] \<rparr>) of (x, cw') \<Rightarrow> ((x, recorded cw'), cw'\<lparr> cwFailed := cwFailed cw \<rparr>))"

end
