(* ===== verification/Reconcile_Graph.thy ===== *)
theory Reconcile_Graph
  imports Compose_Graph
begin

text \<open>
  The in-process reconcile graph of cmdman/compose/reconcile.go: replica
  aggregation, the graph and its construction, and the operations a walk performs
  on it under the graph lock (\<^verbatim>\<open>seed\<close>, \<^verbatim>\<open>claim\<close>, \<^verbatim>\<open>complete\<close>, \<^verbatim>\<open>done\<close>, \<^verbatim>\<open>finalize\<close>).
  Each definition here is one locked section of the code; the interleaving of the
  workers is the subject of \<^verbatim>\<open>Reconcile_Walk\<close>. Operations that range over a Go map
  take the visiting order \<open>ks\<close> as an argument. An error is a value of
  \<open>GoErr\<close>, one constructor per message of the code.
\<close>

section \<open>Replica snapshots\<close>

record instanceSnapshot =
  inID :: string
  inGenName :: string
  inScaleIndex :: int
  inState :: EventType
  inExitCode :: "int option"
  inEntry :: CommandEntry

record commandSnapshot =
  csInstances :: "instanceSnapshot list"
  csState :: EventType
  csExitCode :: "int option"

definition isTerminalState :: "EventType \<Rightarrow> bool" where
  "isTerminalState s \<longleftrightarrow> s = EventTypeExited \<or> s = EventTypeFailed"

definition isActiveState :: "EventType \<Rightarrow> bool" where
  "isActiveState s \<longleftrightarrow> s = EventTypeRunning \<or> s = EventTypeStarting"

record aggFlags =
  anyFailed :: bool
  allExited :: bool
  allActive :: bool
  aggExit :: "int option"

definition aggStep :: "instanceSnapshot \<Rightarrow> aggFlags \<Rightarrow> aggFlags" where
  "aggStep ins a = (case inState ins of
       EventTypeFailed \<Rightarrow> a\<lparr>anyFailed := True, allExited := False, allActive := False\<rparr>
     | EventTypeExited \<Rightarrow>
         (let a' = a\<lparr>allActive := False\<rparr> in
          case inExitCode ins of
            None \<Rightarrow> a'
          | Some x \<Rightarrow>
              (case aggExit a of
                 None \<Rightarrow> a'\<lparr>aggExit := Some x\<rparr>
               | Some e \<Rightarrow> if e = 0 \<and> x \<noteq> 0 then a'\<lparr>aggExit := Some x\<rparr> else a'))
     | EventTypeRunning \<Rightarrow> a\<lparr>allExited := False\<rparr>
     | EventTypeStarting \<Rightarrow> a\<lparr>allExited := False\<rparr>
     | _ \<Rightarrow> a\<lparr>allExited := False, allActive := False\<rparr>)"

definition aggregateInstances :: "instanceSnapshot list \<Rightarrow> EventType \<times> int option" where
  "aggregateInstances insts =
     (if insts = [] then (EventTypeNone, None)
      else
        let a = fold aggStep insts
                  \<lparr>anyFailed = False, allExited = True, allActive = True, aggExit = None\<rparr> in
        if anyFailed a then (EventTypeFailed, aggExit a)
        else if allExited a then (EventTypeExited, aggExit a)
        else if allActive a then (EventTypeRunning, None)
        else (EventTypeStarting, None))"

definition only :: "commandSnapshot \<Rightarrow> int list \<Rightarrow> commandSnapshot" where
  "only s scaleIndices =
     (let insts = filter (\<lambda>i. inScaleIndex i \<in> set scaleIndices) (csInstances s);
          (state, exit) = aggregateInstances insts
      in \<lparr>csInstances = insts, csState = state, csExitCode = exit\<rparr>)"

definition activeInstances :: "commandSnapshot \<Rightarrow> instanceSnapshot list" where
  "activeInstances s = filter (\<lambda>i. isActiveState (inState i)) (csInstances s)"

definition zeroSnapshot :: commandSnapshot where
  "zeroSnapshot = \<lparr>csInstances = [], csState = EventTypeNone, csExitCode = None\<rparr>"

section \<open>The graph\<close>

type_synonym vertexID = string

definition beginVertex :: vertexID where "beginVertex = CHR 0x00 # ''begin''"
definition endVertex :: vertexID where "endVertex = CHR 0x00 # ''end''"

lemma begin_neq_end [simp]: "beginVertex \<noteq> endVertex" "endVertex \<noteq> beginVertex"
  by (simp_all add: beginVertex_def endVertex_def)

datatype walkDirection = walkFromBegin | walkFromEnd

datatype GoErr =
    ActionError string
  | WaitingToStop vertexID
  | DependencyMissing
  | DependencyBlocked vertexID
  | WaitingFor vertexID AfterCondition
  | DependencyFailed vertexID GoErr
  | WaitingToComplete vertexID
  | DidNotCompleteSuccessfully vertexID EventType "int option"
  | WaitingToCompleteSuccessfully vertexID
  | NotRunningOutside vertexID
  | NotCompletedOutside vertexID
  | UnsatisfiedConditions

record graphEdge =
  geFrom :: vertexID
  geTo :: vertexID
  geCondition :: AfterCondition

record graphVertex =
  vID :: vertexID
  vCommand :: "Command option"
  vSnapshot :: commandSnapshot
  vParents :: "(vertexID, graphEdge) gomap"
  vChildren :: "(vertexID, graphEdge) gomap"
  vInClosure :: bool
  vReplicas :: "int list option"
  vQueued :: bool
  vInProgress :: bool
  vConsumed :: bool
  vBlocked :: bool
  vWaitReason :: "GoErr option"
  vState :: EventType
  vExitCode :: "int option"
  vErr :: "GoErr option"
  vForceKilled :: bool
  vOrder :: int

record reconcileGraph =
  Vertices :: "(vertexID, graphVertex) gomap"
  seq :: int

record actionResult =
  arState :: EventType
  arExitCode :: "int option"
  arErr :: "GoErr option"
  arForceKilled :: bool

text \<open>A new vertex with the fields a composite literal leaves out at zero.\<close>

definition newVertex :: "vertexID \<Rightarrow> graphVertex" where
  "newVertex i = \<lparr> vID = i, vCommand = None, vSnapshot = zeroSnapshot, vParents = [],
     vChildren = [], vInClosure = False, vReplicas = None, vQueued = False,
     vInProgress = False, vConsumed = False, vBlocked = False, vWaitReason = None,
     vState = EventTypeNone, vExitCode = None, vErr = None, vForceKilled = False,
     vOrder = 0 \<rparr>"

abbreviation vertex :: "reconcileGraph \<Rightarrow> vertexID \<Rightarrow> graphVertex option" where
  "vertex g i \<equiv> map_of (Vertices g) i"

definition allReplicaIndices :: "Command \<Rightarrow> int list" where
  "allReplicaIndices cmd = map (\<lambda>i. int i + 1) [0..<nat (max (cScale cmd) 1)]"

definition replicaIndices :: "graphVertex \<Rightarrow> int list" where
  "replicaIndices v = (case vReplicas v of
       Some r \<Rightarrow> r
     | None \<Rightarrow> (case vCommand v of Some c \<Rightarrow> allReplicaIndices c | None \<Rightarrow> []))"

definition modifyVertex ::
  "vertexID \<Rightarrow> (graphVertex \<Rightarrow> graphVertex) \<Rightarrow> reconcileGraph \<Rightarrow> reconcileGraph" where
  "modifyVertex i f g = g\<lparr>Vertices := amodify i f (Vertices g)\<rparr>"

definition markConsumedLocked :: "vertexID \<Rightarrow> reconcileGraph \<Rightarrow> reconcileGraph" where
  "markConsumedLocked i g =
     modifyVertex i (\<lambda>v. v\<lparr>vOrder := seq g + 1\<rparr>) (g\<lparr>seq := seq g + 1\<rparr>)"

section \<open>Construction\<close>

text \<open>A \<^verbatim>\<open>targetSet\<close> maps a command to its selected scale indices, \<open>None\<close> (a nil
  slice) selecting every replica.\<close>

type_synonym targetSet = "(string, int list option) gomap"

definition buildVertex ::
  "(string, commandSnapshot) gomap \<Rightarrow> string set \<Rightarrow> targetSet \<Rightarrow> Command \<Rightarrow> graphVertex" where
  "buildVertex snaps closure targets c =
     (let snap = (case map_of snaps (cName c) of Some s \<Rightarrow> s | None \<Rightarrow> zeroSnapshot);
          inC = (cName c \<in> closure);
          replicas = (if inC then (case map_of targets (cName c) of Some r \<Rightarrow> r | None \<Rightarrow> None)
                      else None);
          snap' = (case replicas of Some r \<Rightarrow> only snap r | None \<Rightarrow> snap)
      in (newVertex (cName c))\<lparr> vCommand := Some c, vSnapshot := snap', vState := csState snap',
            vExitCode := csExitCode snap', vInClosure := inC, vReplicas := replicas \<rparr>)"

definition addVirtualEdges :: "Command \<Rightarrow> (vertexID, graphVertex) gomap \<Rightarrow> (vertexID, graphVertex) gomap" where
  "addVirtualEdges c vs =
     (let i = cName c;
          be = \<lparr>geFrom = beginVertex, geTo = i, geCondition = ConditionNone\<rparr>;
          ee = \<lparr>geFrom = i, geTo = endVertex, geCondition = ConditionNone\<rparr>
      in amodify i (\<lambda>v. v\<lparr>vChildren := AList.update endVertex ee (vChildren v)\<rparr>)
           (amodify endVertex (\<lambda>v. v\<lparr>vParents := AList.update i ee (vParents v)\<rparr>)
             (amodify i (\<lambda>v. v\<lparr>vParents := AList.update beginVertex be (vParents v)\<rparr>)
               (amodify beginVertex (\<lambda>v. v\<lparr>vChildren := AList.update i be (vChildren v)\<rparr>) vs))))"

definition addAfterEdge ::
  "vertexID \<Rightarrow> AfterSpec \<Rightarrow> (vertexID, graphVertex) gomap \<Rightarrow> (vertexID, graphVertex) gomap" where
  "addAfterEdge depID after vs =
     (let parentID = asName after;
          edge = \<lparr>geFrom = parentID, geTo = depID, geCondition = asCondition after\<rparr>
      in amodify depID (\<lambda>v. v\<lparr>vParents := AList.update parentID edge (vParents v)\<rparr>)
           (amodify parentID (\<lambda>v. v\<lparr>vChildren := AList.update depID edge (vChildren v)\<rparr>) vs))"

definition buildReconcileGraph ::
  "ComposeSpec \<Rightarrow> (string, commandSnapshot) gomap \<Rightarrow> string set \<Rightarrow> targetSet \<Rightarrow> reconcileGraph" where
  "buildReconcileGraph spec snaps closure targets =
     (let vs0 = AList.update endVertex (newVertex endVertex)
                  (AList.update beginVertex (newVertex beginVertex) []);
          vs1 = fold (\<lambda>c. AList.update (cName c) (buildVertex snaps closure targets c))
                  (sCommands spec) vs0;
          vs2 = fold addVirtualEdges (sCommands spec) vs1;
          vs3 = fold (\<lambda>c. fold (addAfterEdge (cName c)) (cAfter c)) (sCommands spec) vs2
      in \<lparr>Vertices = vs3, seq = 0\<rparr>)"

definition commandCount :: "reconcileGraph \<Rightarrow> nat" where
  "commandCount g = length (filter (\<lambda>(i, v). vCommand v \<noteq> None) (Vertices g))"

section \<open>Edge evaluation\<close>

datatype edgeStatus = edgeSatisfied | edgePending | edgeBlocked

definition evalDownEdgeLocked ::
  "graphVertex option \<Rightarrow> AfterCondition \<Rightarrow> edgeStatus \<times> GoErr option" where
  "evalDownEdgeLocked po cond0 =
     (let cond = (if cond0 = ConditionNone then ConditionCompleted else cond0) in
      case po of
        None \<Rightarrow> (edgeBlocked, Some DependencyMissing)
      | Some p \<Rightarrow>
          if vInClosure p then
            (if vBlocked p then (edgeBlocked, Some (DependencyBlocked (vID p)))
             else if \<not> vConsumed p then (edgePending, Some (WaitingFor (vID p) cond))
             else case vErr p of
               Some e \<Rightarrow> (edgeBlocked, Some (DependencyFailed (vID p) e))
             | None \<Rightarrow>
                 (case cond of
                    ConditionRunning \<Rightarrow> (edgeSatisfied, None)
                  | ConditionCompleted \<Rightarrow>
                      (if isTerminalState (vState p) then (edgeSatisfied, None)
                       else (edgePending, Some (WaitingToComplete (vID p))))
                  | _ \<Rightarrow>
                      (if vState p = EventTypeExited \<and> vExitCode p = Some 0 then (edgeSatisfied, None)
                       else if isTerminalState (vState p) then
                         (edgeBlocked, Some (DidNotCompleteSuccessfully (vID p) (vState p) (vExitCode p)))
                       else (edgePending, Some (WaitingToCompleteSuccessfully (vID p))))))
          else
            let snap = vSnapshot p in
            (case cond of
               ConditionRunning \<Rightarrow>
                 (if isActiveState (csState snap) then (edgeSatisfied, None)
                  else (edgeBlocked, Some (NotRunningOutside (vID p))))
             | ConditionCompleted \<Rightarrow>
                 (if isTerminalState (csState snap) then (edgeSatisfied, None)
                  else (edgeBlocked, Some (NotCompletedOutside (vID p))))
             | _ \<Rightarrow>
                 (if csState snap = EventTypeExited \<and> csExitCode snap = Some 0 then (edgeSatisfied, None)
                  else (edgeBlocked,
                        Some (DidNotCompleteSuccessfully (vID p) (csState snap) (csExitCode snap))))))"

fun readinessUp :: "reconcileGraph \<Rightarrow> vertexID list \<Rightarrow> edgeStatus \<times> GoErr option" where
  "readinessUp g [] = (edgeSatisfied, None)"
| "readinessUp g (cid # ks) =
     (if cid = endVertex then readinessUp g ks
      else case vertex g cid of
             Some c \<Rightarrow> (if vInClosure c \<and> \<not> vConsumed c then (edgePending, Some (WaitingToStop cid))
                        else readinessUp g ks)
           | None \<Rightarrow> readinessUp g ks)"

fun readinessDown ::
  "reconcileGraph \<Rightarrow> (vertexID, graphEdge) gomap \<Rightarrow> edgeStatus \<times> GoErr option \<Rightarrow> vertexID list
     \<Rightarrow> edgeStatus \<times> GoErr option" where
  "readinessDown g ps worst [] = worst"
| "readinessDown g ps worst (pid # ks) =
     (if pid = beginVertex then readinessDown g ps worst ks
      else
        let cond = (case map_of ps pid of Some e \<Rightarrow> geCondition e | None \<Rightarrow> ConditionNone) in
        case evalDownEdgeLocked (vertex g pid) cond of
          (edgeBlocked, r) \<Rightarrow> (edgeBlocked, r)
        | (edgePending, r) \<Rightarrow>
            readinessDown g ps (if fst worst = edgeSatisfied then (edgePending, r) else worst) ks
        | (edgeSatisfied, r) \<Rightarrow> readinessDown g ps worst ks)"

definition readinessLocked ::
  "reconcileGraph \<Rightarrow> graphVertex \<Rightarrow> walkDirection \<Rightarrow> vertexID list \<Rightarrow> edgeStatus \<times> GoErr option" where
  "readinessLocked g v dir ks =
     (case dir of walkFromEnd \<Rightarrow> readinessUp g ks
      | walkFromBegin \<Rightarrow> readinessDown g (vParents v) (edgeSatisfied, None) ks)"

text \<open>The map \<open>readinessLocked\<close> ranges over, whose keys \<open>ks\<close> enumerates.\<close>

definition readinessKeys :: "graphVertex \<Rightarrow> walkDirection \<Rightarrow> vertexID list" where
  "readinessKeys v dir = keys_of (case dir of walkFromEnd \<Rightarrow> vChildren v | walkFromBegin \<Rightarrow> vParents v)"

definition anyDependentNeedsCompletion :: "reconcileGraph \<Rightarrow> vertexID \<Rightarrow> bool" where
  "anyDependentNeedsCompletion g i =
     (case vertex g i of
        None \<Rightarrow> False
      | Some v \<Rightarrow>
          list_ex (\<lambda>(cid, edge).
            cid \<noteq> endVertex \<and>
            (case vertex g cid of None \<Rightarrow> False | Some c \<Rightarrow> vInClosure c) \<and>
            (geCondition edge = ConditionCompleted \<or>
             geCondition edge = ConditionCompletedSuccessfully)) (vChildren v))"

section \<open>Locked sections of a walk\<close>

datatype stepStatus = stepReady | stepPending | stepBlocked | stepSkip

definition claim ::
  "reconcileGraph \<Rightarrow> vertexID \<Rightarrow> walkDirection \<Rightarrow> vertexID list \<Rightarrow> reconcileGraph \<times> stepStatus" where
  "claim g i dir ks =
     (case vertex g i of
        None \<Rightarrow> (g, stepSkip)
      | Some v \<Rightarrow>
          if vCommand v = None \<or> \<not> vInClosure v \<or> vConsumed v \<or> vInProgress v then (g, stepSkip)
          else
            case readinessLocked g v dir ks of
              (edgeSatisfied, _) \<Rightarrow>
                (modifyVertex i (\<lambda>v. v\<lparr>vQueued := False, vInProgress := True\<rparr>) g, stepReady)
            | (edgePending, reason) \<Rightarrow>
                (modifyVertex i (\<lambda>v. v\<lparr>vQueued := False, vWaitReason := reason\<rparr>) g, stepPending)
            | (edgeBlocked, reason) \<Rightarrow>
                (modifyVertex i (\<lambda>v. v\<lparr>vQueued := False, vConsumed := True, vBlocked := True,
                    vWaitReason := reason,
                    vErr := (case vErr v of None \<Rightarrow> reason | Some e \<Rightarrow> Some e)\<rparr>) g, stepBlocked))"

text \<open>The frontier loop of \<^verbatim>\<open>complete\<close> over the keys \<open>ks\<close> of the children (parents
  when walking from end).\<close>

fun enqueueFrontier ::
  "vertexID \<Rightarrow> vertexID list \<Rightarrow> reconcileGraph \<Rightarrow> reconcileGraph \<times> vertexID list" where
  "enqueueFrontier skip [] g = (g, [])"
| "enqueueFrontier skip (nid # ks) g =
     (if nid = skip then enqueueFrontier skip ks g
      else case vertex g nid of
        None \<Rightarrow> enqueueFrontier skip ks g
      | Some n \<Rightarrow>
          if \<not> vInClosure n \<or> vConsumed n \<or> vInProgress n \<or> vQueued n then enqueueFrontier skip ks g
          else
            let (g', next) = enqueueFrontier skip ks (modifyVertex nid (\<lambda>n. n\<lparr>vQueued := True\<rparr>) g)
            in (g', nid # next))"

definition frontierKeys :: "graphVertex \<Rightarrow> walkDirection \<Rightarrow> vertexID list" where
  "frontierKeys v dir = keys_of (case dir of walkFromBegin \<Rightarrow> vChildren v | walkFromEnd \<Rightarrow> vParents v)"

definition skipVertex :: "walkDirection \<Rightarrow> vertexID" where
  "skipVertex dir = (case dir of walkFromBegin \<Rightarrow> endVertex | walkFromEnd \<Rightarrow> beginVertex)"

definition recordResult :: "vertexID \<Rightarrow> actionResult \<Rightarrow> reconcileGraph \<Rightarrow> reconcileGraph" where
  "recordResult i res g =
     modifyVertex i (\<lambda>v. v\<lparr>vState := arState res, vExitCode := arExitCode res, vErr := arErr res,
                        vForceKilled := arForceKilled res\<rparr>)
       (markConsumedLocked i
         (modifyVertex i (\<lambda>v. v\<lparr>vInProgress := False, vConsumed := True\<rparr>) g))"

definition complete ::
  "reconcileGraph \<Rightarrow> vertexID \<Rightarrow> actionResult \<Rightarrow> walkDirection \<Rightarrow> vertexID list
     \<Rightarrow> reconcileGraph \<times> vertexID list" where
  "complete g i res dir ks = enqueueFrontier (skipVertex dir) ks (recordResult i res g)"

definition hasInClosureRealNeighborLocked :: "reconcileGraph \<Rightarrow> graphVertex \<Rightarrow> walkDirection \<Rightarrow> bool" where
  "hasInClosureRealNeighborLocked g v dir =
     (let neighbors = (case dir of walkFromBegin \<Rightarrow> vParents v | walkFromEnd \<Rightarrow> vChildren v);
          skip = (case dir of walkFromBegin \<Rightarrow> beginVertex | walkFromEnd \<Rightarrow> endVertex)
      in list_ex (\<lambda>nid. nid \<noteq> skip \<and>
            (case vertex g nid of None \<Rightarrow> False | Some n \<Rightarrow> vInClosure n)) (keys_of neighbors))"

definition isSeed :: "reconcileGraph \<Rightarrow> walkDirection \<Rightarrow> graphVertex \<Rightarrow> bool" where
  "isSeed g dir v \<longleftrightarrow> vCommand v \<noteq> None \<and> vInClosure v \<and> \<not> hasInClosureRealNeighborLocked g v dir"

definition seed :: "reconcileGraph \<Rightarrow> walkDirection \<Rightarrow> reconcileGraph \<times> vertexID list" where
  "seed g dir =
     (g\<lparr>Vertices := map (\<lambda>(i, v). (i, if isSeed g dir v then v\<lparr>vQueued := True\<rparr> else v)) (Vertices g)\<rparr>,
      sort (keys_of (filter (\<lambda>(i, v). isSeed g dir v) (Vertices g))))"

definition allDone :: "reconcileGraph \<Rightarrow> bool" where
  "allDone g \<longleftrightarrow> list_all (\<lambda>(i, v). vCommand v = None \<or> \<not> vInClosure v \<or> (\<not> vQueued v \<and> \<not> vInProgress v)) (Vertices g)"

text \<open>One turn of the loop of \<^verbatim>\<open>finalize\<close>, and the loop over all vertices in the
  order \<open>ks\<close>.\<close>

definition finalizeVertex :: "vertexID \<Rightarrow> reconcileGraph \<Rightarrow> reconcileGraph" where
  "finalizeVertex i g =
     (case vertex g i of
        None \<Rightarrow> g
      | Some v \<Rightarrow>
          if vCommand v = None \<or> \<not> vInClosure v \<or> vConsumed v then g
          else
            modifyVertex i (\<lambda>v. v\<lparr>vBlocked := True,
                vErr := (case vErr v of
                           None \<Rightarrow> Some (case vWaitReason v of None \<Rightarrow> UnsatisfiedConditions | Some r \<Rightarrow> r)
                         | Some e \<Rightarrow> Some e)\<rparr>)
              (markConsumedLocked i (modifyVertex i (\<lambda>v. v\<lparr>vConsumed := True\<rparr>) g)))"

definition finalize :: "reconcileGraph \<Rightarrow> vertexID list \<Rightarrow> reconcileGraph" where
  "finalize g ks = fold finalizeVertex ks g"

section \<open>Outcomes\<close>

record StartOutcome =
  soCommand :: string
  soErr :: "GoErr option"

record StopOutcome =
  stCommand :: string
  stErr :: "GoErr option"
  stForceKilled :: bool

definition inClosureVertex :: "reconcileGraph \<Rightarrow> string \<Rightarrow> graphVertex option" where
  "inClosureVertex g name =
     (case vertex g name of Some v \<Rightarrow> (if vInClosure v then Some v else None) | None \<Rightarrow> None)"

definition startOutcomes :: "reconcileGraph \<Rightarrow> ComposeSpec \<Rightarrow> StartOutcome list" where
  "startOutcomes g spec =
     List.map_filter (\<lambda>c. map_option (\<lambda>v. \<lparr>soCommand = cName c, soErr = vErr v\<rparr>)
                            (inClosureVertex g (cName c))) (sCommands spec)"

definition stopItems :: "reconcileGraph \<Rightarrow> ComposeSpec \<Rightarrow> (string \<times> graphVertex) list" where
  "stopItems g spec =
     List.map_filter (\<lambda>c. map_option (Pair (cName c)) (inClosureVertex g (cName c))) (sCommands spec)"

definition stopOutcomes :: "reconcileGraph \<Rightarrow> ComposeSpec \<Rightarrow> StopOutcome list" where
  "stopOutcomes g spec =
     map (\<lambda>(n, v). \<lparr>stCommand = n, stErr = vErr v, stForceKilled = vForceKilled v\<rparr>)
       (sort_key (\<lambda>(n, v). vOrder v) (stopItems g spec))"

end
