(* ===== verification/Compose_Target.thy ===== *)
theory Compose_Target
  imports Compose_Plan Reconcile_Graph
begin

text \<open>
  Which commands and replicas an operation addresses: targets and target sets
  (cmdman/compose/target.go) and the two closures of \<^verbatim>\<open>reconcile.go\<close>, dependencies for a
  start and dependents for a stop.
\<close>

section \<open>Targets (target.go)\<close>

record Target =
  tCommand :: string
  tScaleIndex :: int

definition TargetsOf :: "string list \<Rightarrow> Target list" where
  "TargetsOf names = map (\<lambda>n. \<lparr>tCommand = n, tScaleIndex = 0\<rparr>) names"

datatype TargetErr = UnknownCommands "string list" | ReplicaRange Target int

definition unknownTargets :: "(string, int) gomap \<Rightarrow> Target list \<Rightarrow> string list" where
  "unknownTargets replicas targets =
     fold (\<lambda>t unknown. if map_of replicas (tCommand t) = None \<and> tCommand t \<notin> set unknown
                       then unknown @ [tCommand t] else unknown) targets []"

text \<open>The second loop of \<^verbatim>\<open>resolveTargets\<close>: the commands selected whole and the indices
  picked of the others.\<close>

fun pickTargets ::
  "(string, int) gomap \<Rightarrow> Target list \<Rightarrow> string list \<Rightarrow> (string, int list) gomap
     \<Rightarrow> TargetErr + string list \<times> (string, int list) gomap" where
  "pickTargets replicas [] every picked = Inr (every, picked)"
| "pickTargets replicas (t # ts) every picked =
     (if tScaleIndex t = 0 then pickTargets replicas ts (List.insert (tCommand t) every) picked
      else
        let count = (case map_of replicas (tCommand t) of Some n \<Rightarrow> n | None \<Rightarrow> 0) in
        if tScaleIndex t < 1 \<or> tScaleIndex t > count then Inl (ReplicaRange t count)
        else
          let cur = (case map_of picked (tCommand t) of Some xs \<Rightarrow> xs | None \<Rightarrow> [])
          in pickTargets replicas ts every (AList.update (tCommand t) (List.insert (tScaleIndex t) cur) picked))"

definition resolveTargets :: "Target list \<Rightarrow> (string, int) gomap \<Rightarrow> TargetErr + targetSet" where
  "resolveTargets targets replicas =
     (if targets = [] then Inr []
      else if unknownTargets replicas targets \<noteq> [] then Inl (UnknownCommands (sort (unknownTargets replicas targets)))
      else case pickTargets replicas targets [] [] of
             Inl e \<Rightarrow> Inl e
           | Inr (every, picked) \<Rightarrow>
               Inr (map (\<lambda>n. (n, None)) every @
                    map (\<lambda>(n, is). (n, Some (sort is))) (filter (\<lambda>(n, is). n \<notin> set every) picked)))"

definition declaredReplicas :: "ComposeSpec \<Rightarrow> (string, int) gomap" where
  "declaredReplicas spec = fold (\<lambda>c. AList.update (cName c) (max (cScale c) 1)) (sCommands spec) []"

definition storedReplicas :: "ComposeSpec option \<Rightarrow> CommandEntry list \<Rightarrow> (string, int) gomap" where
  "storedReplicas spec entries =
     fold (\<lambda>e out.
       let name = commandNameOf e in
       if name = [] then out
       else if spec \<noteq> None \<and> map_of out name = None then out
       else AList.update name (max (case map_of out name of Some n \<Rightarrow> n | None \<Rightarrow> 0) (scaleIndexOf e)) out)
     entries
     (case spec of Some s \<Rightarrow> fold (\<lambda>c. AList.update (cName c) 0) (sCommands s) [] | None \<Rightarrow> [])"

definition targetNames :: "targetSet \<Rightarrow> string list" where
  "targetNames ts = sort (keys_of ts)"

definition replicaScoped :: "targetSet \<Rightarrow> bool" where
  "replicaScoped ts \<longleftrightarrow> list_ex (\<lambda>(n, is). is \<noteq> None) ts"

definition covers :: "targetSet \<Rightarrow> string \<Rightarrow> int \<Rightarrow> bool" where
  "covers ts command scaleIndex =
     (case map_of ts command of Some (Some is) \<Rightarrow> scaleIndex \<in> set is | _ \<Rightarrow> True)"

definition filterEntries :: "targetSet \<Rightarrow> CommandEntry list \<Rightarrow> CommandEntry list" where
  "filterEntries ts entries =
     (if ts = [] then entries
      else filter (\<lambda>e. map_of ts (commandNameOf e) \<noteq> None \<and> covers ts (commandNameOf e) (scaleIndexOf e)) entries)"

section \<open>Closures (reconcile.go)\<close>

text \<open>The recursive \<^verbatim>\<open>walk\<close> closures of both functions: \<open>ns\<close> is the stack of names still
  to be visited, the argument of the current call first.\<close>

function visitAll :: "string list \<Rightarrow> (string \<Rightarrow> string list) \<Rightarrow> string list \<Rightarrow> string list \<Rightarrow> string list" where
  "visitAll known succs seen [] = seen"
| "visitAll known succs seen (n # ns) =
     (if n \<in> set seen \<or> n \<notin> set known then visitAll known succs seen ns
      else visitAll known succs (seen @ [n]) (succs n @ ns))"
  by pat_completeness auto
termination
proof (relation "measures [\<lambda>(known, succs, seen, ns). card (set known - set seen), \<lambda>(known, succs, seen, ns). length ns]")
  fix known :: "string list" and succs :: "string \<Rightarrow> string list" and seen n ns
  assume "\<not> (n \<in> set seen \<or> n \<notin> set known)"
  then have "set known - set (seen @ [n]) \<subset> set known - set seen" "finite (set known - set seen)" by auto
  then have "card (set known - set (seen @ [n])) < card (set known - set seen)" by (intro psubset_card_mono)
  then show "((known, succs, seen @ [n], succs n @ ns), known, succs, seen, n # ns)
      \<in> measures [\<lambda>(known, succs, seen, ns). card (set known - set seen), \<lambda>(known, succs, seen, ns). length ns]"
    by simp
qed simp_all

definition resolveTargetCommands :: "ComposeSpec \<Rightarrow> string list \<Rightarrow> string list" where
  "resolveTargetCommands spec names =
     (let all = map cName (sCommands spec) in
      if names = [] then remdups (map cName (sCommands spec))
      else visitAll all (\<lambda>n. case commandByName (sCommands spec) n of
                             Some c \<Rightarrow> map asName (cAfter c) | None \<Rightarrow> []) [] names)"

definition dependentsOf :: "ComposeSpec \<Rightarrow> string \<Rightarrow> string list" where
  "dependentsOf spec n =
     concat (map (\<lambda>c. map (\<lambda>a. cName c) (filter (\<lambda>a. asName a = n) (cAfter c))) (sCommands spec))"

definition resolveStopTargetCommands :: "ComposeSpec \<Rightarrow> string list \<Rightarrow> string list" where
  "resolveStopTargetCommands spec names =
     (let all = map cName (sCommands spec) in
      if names = [] then remdups (map cName (sCommands spec))
      else visitAll all (dependentsOf spec) [] names)"

section \<open>The closure computed\<close>

definition succ_rel :: "string list \<Rightarrow> (string \<Rightarrow> string list) \<Rightarrow> (string \<times> string) set" where
  "succ_rel known succs = {(n, m). n \<in> set known \<and> m \<in> set known \<and> m \<in> set (succs n)}"

lemma visitAll_mono: "set seen \<subseteq> set (visitAll known succs seen ns)"
  by (induction known succs seen ns rule: visitAll.induct) auto

lemma visitAll_distinct: "distinct seen \<Longrightarrow> distinct (visitAll known succs seen ns)"
  by (induction known succs seen ns rule: visitAll.induct) auto

lemma visitAll_sound:
  "set seen \<subseteq> S \<Longrightarrow> set ns \<inter> set known \<subseteq> S \<Longrightarrow>
     (\<And>n m. n \<in> S \<Longrightarrow> n \<in> set known \<Longrightarrow> m \<in> set (succs n) \<Longrightarrow> m \<in> set known \<Longrightarrow> m \<in> S)
     \<Longrightarrow> set (visitAll known succs seen ns) \<subseteq> S"
proof (induction known succs seen ns rule: visitAll.induct)
  case (2 known succs seen n ns)
  show ?case
  proof (cases "n \<in> set seen \<or> n \<notin> set known")
    case True
    have "set (visitAll known succs seen ns) \<subseteq> S" by (rule "2.IH"(1) [OF True]) (use "2.prems" in auto)
    with True show ?thesis by simp
  next
    case False
    have "set (visitAll known succs (seen @ [n]) (succs n @ ns)) \<subseteq> S"
      by (rule "2.IH"(2) [OF False]) (use "2.prems" False in auto)
    with False show ?thesis by simp
  qed
qed simp

lemma visitAll_complete:
  "set ns \<inter> set known \<subseteq> set (visitAll known succs seen ns) \<and>
     (\<forall>n \<in> set (visitAll known succs seen ns) - set seen. set (succs n) \<inter> set known \<subseteq> set (visitAll known succs seen ns))"
proof (induction known succs seen ns rule: visitAll.induct)
  case (2 known succs seen n ns)
  show ?case
  proof (cases "n \<in> set seen \<or> n \<notin> set known")
    case True
    with "2.IH"(1) [OF True] visitAll_mono [of seen known succs ns] show ?thesis by auto
  next
    case False
    with "2.IH"(2) [OF False] visitAll_mono [of "seen @ [n]" known succs "succs n @ ns"]
    show ?thesis by auto
  qed
qed simp

lemma visitAll_closure:
  "set (visitAll known succs [] names) = (succ_rel known succs)\<^sup>* `` (set names \<inter> set known)"
proof
  let ?V = "set (visitAll known succs [] names)"
  have seeds: "set names \<inter> set known \<subseteq> ?V"
    and closed: "\<And>n m. n \<in> ?V \<Longrightarrow> m \<in> set (succs n) \<Longrightarrow> m \<in> set known \<Longrightarrow> m \<in> ?V"
    using visitAll_complete [of names known succs "[]"] by auto
  show "(succ_rel known succs)\<^sup>* `` (set names \<inter> set known) \<subseteq> ?V"
  proof
    fix m assume "m \<in> (succ_rel known succs)\<^sup>* `` (set names \<inter> set known)"
    then obtain n where "(n, m) \<in> (succ_rel known succs)\<^sup>*" "n \<in> set names \<inter> set known" by blast
    then show "m \<in> ?V"
    proof (induction rule: rtrancl_induct)
      case base
      with seeds show ?case by blast
    next
      case (step y z)
      then show ?case using closed [of y z] by (auto simp: succ_rel_def)
    qed
  qed
  show "?V \<subseteq> (succ_rel known succs)\<^sup>* `` (set names \<inter> set known)"
    by (rule visitAll_sound) (auto simp: succ_rel_def intro: rtrancl_into_rtrancl)
qed

section \<open>The contract of a closure\<close>

text \<open>What the reconcile walks rely on: the closure of a set of names is the least set of
  commands that contains them and is closed under the edges of the walk.\<close>

locale target_closure =
  fixes resolve :: "ComposeSpec \<Rightarrow> string list \<Rightarrow> string list"
    and edge :: "ComposeSpec \<Rightarrow> (string \<times> string) set"
  assumes resolve_all: "set (resolve spec []) = set (map cName (sCommands spec))"
    and resolve_some: "names \<noteq> [] \<Longrightarrow>
      set (resolve spec names) = (edge spec)\<^sup>* `` (set names \<inter> set (map cName (sCommands spec)))"
    and edge_known: "edge spec \<subseteq> set (map cName (sCommands spec)) \<times> set (map cName (sCommands spec))"
begin

lemma resolve_known: "set (resolve spec names) \<subseteq> set (map cName (sCommands spec))"
proof (cases "names = []")
  case True
  then show ?thesis by (simp only: resolve_all)
next
  case False
  have "m \<in> set (map cName (sCommands spec))"
    if "(n, m) \<in> (edge spec)\<^sup>*" "n \<in> set (map cName (sCommands spec))" for n m
    using that edge_known [of spec] by (induction rule: rtrancl_induct) auto
  then show ?thesis unfolding resolve_some [OF False] by blast
qed

lemma resolve_contains: "set names \<inter> set (map cName (sCommands spec)) \<subseteq> set (resolve spec names)"
proof (cases "names = []")
  case False
  then show ?thesis unfolding resolve_some [OF False] by blast
qed simp

lemma resolve_closed:
  assumes "n \<in> set (resolve spec names)" and "(n, m) \<in> edge spec"
  shows "m \<in> set (resolve spec names)"
proof (cases "names = []")
  case True
  have "m \<in> set (map cName (sCommands spec))" using subsetD [OF edge_known assms(2)] by simp
  then show ?thesis unfolding True resolve_all .
next
  case False
  from assms show ?thesis unfolding resolve_some [OF False] by (blast intro: rtrancl_into_rtrancl)
qed

lemma resolve_least:
  assumes "names \<noteq> []" and "set names \<inter> set (map cName (sCommands spec)) \<subseteq> S"
    and closed: "\<And>n m. n \<in> S \<Longrightarrow> (n, m) \<in> edge spec \<Longrightarrow> m \<in> S"
  shows "set (resolve spec names) \<subseteq> S"
proof -
  have "m \<in> S" if "(n, m) \<in> (edge spec)\<^sup>*" "n \<in> S" for n m
    using that closed by (induction rule: rtrancl_induct) auto
  with assms(2) show ?thesis unfolding resolve_some [OF assms(1)] by blast
qed

lemma resolve_twice:
  assumes "resolve spec names \<noteq> []"
  shows "set (resolve spec (resolve spec names)) = set (resolve spec names)"
proof
  show "set (resolve spec names) \<subseteq> set (resolve spec (resolve spec names))"
    using resolve_contains [of "resolve spec names" spec] resolve_known [of spec names] by blast
  show "set (resolve spec (resolve spec names)) \<subseteq> set (resolve spec names)"
    by (rule resolve_least [OF assms]) (use resolve_closed in blast)+
qed

end

definition startEdges :: "ComposeSpec \<Rightarrow> (string \<times> string) set" where
  "startEdges spec = succ_rel (map cName (sCommands spec)) (\<lambda>n. case commandByName (sCommands spec) n of
     Some c \<Rightarrow> map asName (cAfter c) | None \<Rightarrow> [])"

definition stopEdges :: "ComposeSpec \<Rightarrow> (string \<times> string) set" where
  "stopEdges spec = succ_rel (map cName (sCommands spec)) (dependentsOf spec)"

interpretation start_closure: target_closure resolveTargetCommands startEdges
proof
  show "set (resolveTargetCommands spec []) = set (map cName (sCommands spec))" for spec
    by (simp add: resolveTargetCommands_def)
  show "set (resolveTargetCommands spec names) = (startEdges spec)\<^sup>* `` (set names \<inter> set (map cName (sCommands spec)))"
    if "names \<noteq> []" for spec names
    using that visitAll_closure [of "map cName (sCommands spec)"]
    by (simp add: resolveTargetCommands_def startEdges_def Let_def)
  show "startEdges spec \<subseteq> set (map cName (sCommands spec)) \<times> set (map cName (sCommands spec))" for spec
    by (auto simp: startEdges_def succ_rel_def)
qed

interpretation stop_closure: target_closure resolveStopTargetCommands stopEdges
proof
  show "set (resolveStopTargetCommands spec []) = set (map cName (sCommands spec))" for spec
    by (simp add: resolveStopTargetCommands_def)
  show "set (resolveStopTargetCommands spec names) = (stopEdges spec)\<^sup>* `` (set names \<inter> set (map cName (sCommands spec)))"
    if "names \<noteq> []" for spec names
    using that visitAll_closure [of "map cName (sCommands spec)"]
    by (simp add: resolveStopTargetCommands_def stopEdges_def Let_def)
  show "stopEdges spec \<subseteq> set (map cName (sCommands spec)) \<times> set (map cName (sCommands spec))" for spec
    by (auto simp: stopEdges_def succ_rel_def)
qed

text \<open>The edges are the \<^verbatim>\<open>after:\<close> declarations, read in either direction.\<close>

lemma startEdges_dep:
  assumes "distinct (map cName (sCommands spec))"
  shows "(n, m) \<in> startEdges spec \<longleftrightarrow> (m, n) \<in> dep_rel (sCommands spec) \<and> m \<in> set (map cName (sCommands spec))"
proof (cases "commandByName (sCommands spec) n")
  case None
  with commandByName_distinct [OF assms, of n] have "n \<notin> set (map cName (sCommands spec))" by auto
  then show ?thesis by (auto simp: startEdges_def succ_rel_def dep_rel_def)
next
  case (Some c)
  with commandByName_distinct [OF assms, of n] have c: "c \<in> set (sCommands spec)" "cName c = n"
    "\<And>d. d \<in> set (sCommands spec) \<Longrightarrow> cName d = n \<Longrightarrow> d = c" by (metis option.inject)+
  have "(n, m) \<in> startEdges spec \<longleftrightarrow> m \<in> set (map cName (sCommands spec)) \<and> m \<in> asName ` set (cAfter c)"
    using Some c(1,2) by (auto simp: startEdges_def succ_rel_def)
  moreover have "(m, n) \<in> dep_rel (sCommands spec) \<longleftrightarrow> m \<in> asName ` set (cAfter c)"
  proof
    assume "(m, n) \<in> dep_rel (sCommands spec)"
    then obtain d a where "d \<in> set (sCommands spec)" "a \<in> set (cAfter d)" "m = asName a" "n = cName d" by (rule dep_relE)
    with c(3) [of d] show "m \<in> asName ` set (cAfter c)" by simp
  next
    assume "m \<in> asName ` set (cAfter c)"
    then show "(m, n) \<in> dep_rel (sCommands spec)" using dep_relI [OF c(1)] c(2) by auto
  qed
  ultimately show ?thesis by blast
qed

lemma dependentsOf_iff: "m \<in> set (dependentsOf spec n) \<longleftrightarrow> (n, m) \<in> dep_rel (sCommands spec)"
proof -
  have "m \<in> set (dependentsOf spec n) \<longleftrightarrow> (\<exists>c \<in> set (sCommands spec). \<exists>a \<in> set (cAfter c). asName a = n \<and> m = cName c)"
    unfolding dependentsOf_def set_concat by auto
  then show ?thesis unfolding dep_rel_def by blast
qed

lemma stopEdges_dep:
  "(n, m) \<in> stopEdges spec \<longleftrightarrow> (n, m) \<in> dep_rel (sCommands spec) \<and> n \<in> set (map cName (sCommands spec))"
proof -
  have "m \<in> set (map cName (sCommands spec))" if "(n, m) \<in> dep_rel (sCommands spec)"
    using that by (auto elim: dep_relE)
  then show ?thesis unfolding stopEdges_def succ_rel_def dependentsOf_iff by blast
qed

lemma stop_closed:
  assumes "(d, c) \<in> dep_rel (sCommands spec)" "d \<in> set (resolveStopTargetCommands spec names)"
  shows "c \<in> set (resolveStopTargetCommands spec names)"
  using stop_closure.resolve_closed [OF assms(2)] stopEdges_dep [of d c spec] stop_closure.resolve_known [of spec names] assms by blast

lemma start_closed:
  assumes "distinct (map cName (sCommands spec))"
    and "c \<in> set (sCommands spec)" "cName c \<in> set (resolveTargetCommands spec names)"
    and "a \<in> set (cAfter c)" "asName a \<in> set (map cName (sCommands spec))"
  shows "asName a \<in> set (resolveTargetCommands spec names)"
  using start_closure.resolve_closed [OF assms(3)] startEdges_dep [OF assms(1)] dep_relI [OF assms(2,4)] assms(5) by blast

text \<open>The commands a start operates on are the least set that contains the targeted
  commands of the project (all of them when none is named) and, with a command, every
  dependency of it that the project declares.\<close>

lemma start_closure_least:
  assumes "distinct (map cName (sCommands spec))" and "R = set (resolveTargetCommands spec names)"
    and "C = set (map cName (sCommands spec))"
  shows "R \<subseteq> C \<and> (names = [] \<longrightarrow> R = C) \<and> set names \<inter> C \<subseteq> R \<and>
    (\<forall>d c. (d, c) \<in> dep_rel (sCommands spec) \<longrightarrow> c \<in> R \<longrightarrow> d \<in> C \<longrightarrow> d \<in> R) \<and>
    (\<forall>S. names \<noteq> [] \<longrightarrow> set names \<inter> C \<subseteq> S \<longrightarrow>
       (\<forall>d c. (d, c) \<in> dep_rel (sCommands spec) \<longrightarrow> c \<in> S \<longrightarrow> d \<in> C \<longrightarrow> d \<in> S) \<longrightarrow> R \<subseteq> S)"
proof (intro conjI allI impI)
  note e = startEdges_dep [OF assms(1)]
  show "R \<subseteq> C" unfolding assms(2,3) by (rule start_closure.resolve_known)
  show "names = [] \<Longrightarrow> R = C" unfolding assms(2,3) by (simp only: start_closure.resolve_all)
  show "set names \<inter> C \<subseteq> R" unfolding assms(2,3) by (rule start_closure.resolve_contains)
  show "d \<in> R" if "(d, c) \<in> dep_rel (sCommands spec)" "c \<in> R" "d \<in> C" for d c
    using start_closure.resolve_closed [of c spec names d] e that unfolding assms(2,3) by blast
  show "R \<subseteq> S" if "names \<noteq> []" "set names \<inter> C \<subseteq> S"
    "\<forall>d c. (d, c) \<in> dep_rel (sCommands spec) \<longrightarrow> c \<in> S \<longrightarrow> d \<in> C \<longrightarrow> d \<in> S" for S
    unfolding assms(2) by (rule start_closure.resolve_least [OF that(1)]) (use that e assms(3) in blast)+
qed

text \<open>The commands a stop operates on are the least set that contains the targeted
  commands and, with a command, every command that runs after it, so that no dependency
  is stopped under a running dependent.\<close>

lemma stop_closure_least:
  assumes "R = set (resolveStopTargetCommands spec names)" and "C = set (map cName (sCommands spec))"
  shows "R \<subseteq> C \<and> (names = [] \<longrightarrow> R = C) \<and> set names \<inter> C \<subseteq> R \<and>
    (\<forall>d c. (d, c) \<in> dep_rel (sCommands spec) \<longrightarrow> d \<in> R \<longrightarrow> c \<in> R) \<and>
    (\<forall>S. names \<noteq> [] \<longrightarrow> set names \<inter> C \<subseteq> S \<longrightarrow>
       (\<forall>d c. (d, c) \<in> dep_rel (sCommands spec) \<longrightarrow> d \<in> S \<longrightarrow> c \<in> S) \<longrightarrow> R \<subseteq> S)"
proof (intro conjI allI impI)
  note e = stopEdges_dep [of _ _ spec] and k = stop_closure.resolve_known [of spec names]
  show "R \<subseteq> C" unfolding assms by (rule k)
  show "names = [] \<Longrightarrow> R = C" unfolding assms by (simp only: stop_closure.resolve_all)
  show "set names \<inter> C \<subseteq> R" unfolding assms by (rule stop_closure.resolve_contains)
  show "c \<in> R" if "(d, c) \<in> dep_rel (sCommands spec)" "d \<in> R" for d c
    using stop_closed that unfolding assms by blast
  show "R \<subseteq> S" if "names \<noteq> []" "set names \<inter> C \<subseteq> S"
    "\<forall>d c. (d, c) \<in> dep_rel (sCommands spec) \<longrightarrow> d \<in> S \<longrightarrow> c \<in> S" for S
    unfolding assms(1) by (rule stop_closure.resolve_least [OF that(1)]) (use that e assms(2) in blast)+
qed

lemma planSpec_dep: "(''db'', ''web'') \<in> dep_rel (sCommands planSpec)"
  using dep_relI [of "hd (sCommands planSpec)" "sCommands planSpec" "\<lparr>asName = ''db'', asCondition = ConditionRunning\<rparr>"]
  by (simp add: planSpec_def)

section \<open>What a target set selects\<close>

lemma unknownTargets_empty:
  "unknownTargets replicas targets = [] \<longleftrightarrow> (\<forall>t \<in> set targets. map_of replicas (tCommand t) \<noteq> None)"
proof -
  have "fold (\<lambda>t unknown. if map_of replicas (tCommand t) = None \<and> tCommand t \<notin> set unknown
                       then unknown @ [tCommand t] else unknown) ts u = [] \<longleftrightarrow>
      u = [] \<and> (\<forall>t \<in> set ts. map_of replicas (tCommand t) \<noteq> None)" for ts u
    by (induction ts arbitrary: u) auto
  from this [of targets "[]"] show ?thesis unfolding unknownTargets_def by simp
qed

definition pickedOf :: "(string, int list) gomap \<Rightarrow> string \<Rightarrow> int list" where
  "pickedOf m c = (case map_of m c of Some xs \<Rightarrow> xs | None \<Rightarrow> [])"

definition inRange :: "(string, int) gomap \<Rightarrow> Target \<Rightarrow> bool" where
  "inRange replicas t \<longleftrightarrow> tScaleIndex t = 0 \<or>
     1 \<le> tScaleIndex t \<and> tScaleIndex t \<le> (case map_of replicas (tCommand t) of Some n \<Rightarrow> n | None \<Rightarrow> 0)"

lemma pickTargets_Inr:
  "pickTargets replicas ts every picked = Inr (every', picked') \<Longrightarrow>
     set every' = set every \<union> {tCommand t |t. t \<in> set ts \<and> tScaleIndex t = 0} \<and>
     (\<forall>c. set (pickedOf picked' c) = set (pickedOf picked c) \<union> {tScaleIndex t |t. t \<in> set ts \<and> tScaleIndex t \<noteq> 0 \<and> tCommand t = c}) \<and>
     set (keys_of picked') = set (keys_of picked) \<union> {tCommand t |t. t \<in> set ts \<and> tScaleIndex t \<noteq> 0} \<and>
     (\<forall>t \<in> set ts. inRange replicas t)"
proof (induction ts arbitrary: every picked)
  case (Cons t ts)
  show ?case
  proof (cases "tScaleIndex t = 0")
    case True
    with Cons.IH [of "List.insert (tCommand t) every" picked] Cons.prems show ?thesis
      by (auto simp: inRange_def)
  next
    case False
    let ?p = "AList.update (tCommand t) (List.insert (tScaleIndex t) (pickedOf picked (tCommand t))) picked"
    from Cons.prems False have r: "inRange replicas t" and step: "pickTargets replicas ts every ?p = Inr (every', picked')"
      by (auto simp: inRange_def pickedOf_def Let_def split: if_splits)
    have k: "set (keys_of ?p) = insert (tCommand t) (set (keys_of picked))" by (rule keys_update)
    have v: "set (pickedOf ?p c) = set (pickedOf picked c) \<union> (if c = tCommand t then {tScaleIndex t} else {})" for c
      by (auto simp: pickedOf_def)
    from Cons.IH [OF step] show ?thesis unfolding k v using r False by (auto split: if_splits)
  qed
qed simp

lemma resolved_lookup:
  fixes picked :: "(string, int list) gomap"
  assumes "distinct every" and "distinct (keys_of picked)"
    and "ts = map (\<lambda>n. (n, None)) every @
              map (\<lambda>(n, is). (n, Some (sort is))) (filter (\<lambda>(n, is). n \<notin> set every) picked)"
  shows "map_of ts c = (if c \<in> set every then Some None
     else map_option (\<lambda>is. Some (sort is)) (map_of picked c))"
proof -
  have "map_of (map (\<lambda>n. (n, None :: int list option)) every) c = (if c \<in> set every then Some None else None)"
    by (induction every) auto
  moreover have "map_of (map (\<lambda>(n, is). (n, Some (sort is))) (filter (\<lambda>(n, is). n \<notin> set every) picked)) c =
      (if c \<in> set every then None else map_option (\<lambda>is. Some (sort is)) (map_of picked c))"
    by (induction picked) auto
  ultimately show ?thesis by (simp add: assms(3) map_add_def split: option.splits)
qed

lemma pickTargets_distinct:
  "pickTargets replicas ts every picked = Inr (every', picked') \<Longrightarrow> distinct every \<Longrightarrow> distinct (keys_of picked) \<Longrightarrow>
     distinct every' \<and> distinct (keys_of picked')"
proof (induction ts arbitrary: every picked)
  case (Cons t ts)
  then show ?case
    by (auto simp: Let_def distinct_keys_update split: if_splits)
qed simp

lemma pickTargets_Inl:
  "pickTargets replicas ts every picked = Inl e \<Longrightarrow> \<exists>t \<in> set ts. \<not> inRange replicas t \<and> (\<exists>n. e = ReplicaRange t n)"
proof (induction ts arbitrary: every picked)
  case (Cons t ts)
  then show ?case by (fastforce simp: inRange_def Let_def split: if_splits)
qed simp

text \<open>\<^verbatim>\<open>resolveTargets\<close> accepts exactly the target lists that name known commands and
  replicas in range, and the set it returns selects exactly what the targets say: replica
  \<open>k\<close> of command \<open>c\<close> is selected when a target names \<open>c\<close> with index 0 or \<open>k\<close>. Targets on the
  same command merge, whatever their order.\<close>

lemma resolveTargets_selects:
  assumes "targets \<noteq> []"
  shows "(case resolveTargets targets replicas of
     Inr ts \<Rightarrow> (\<forall>t \<in> set targets. map_of replicas (tCommand t) \<noteq> None \<and> inRange replicas t) \<and>
        (\<forall>c k. map_of ts c \<noteq> None \<and> covers ts c k \<longleftrightarrow>
           (\<exists>t \<in> set targets. tCommand t = c \<and> (tScaleIndex t = 0 \<or> tScaleIndex t = k)))
   | Inl (UnknownCommands us) \<Rightarrow> \<exists>t \<in> set targets. map_of replicas (tCommand t) = None
   | Inl (ReplicaRange t n) \<Rightarrow> t \<in> set targets \<and> \<not> inRange replicas t)"
proof (cases "unknownTargets replicas targets = []")
  case False
  with assms unknownTargets_empty [of replicas targets] show ?thesis by (auto simp: resolveTargets_def)
next
  case True
  with unknownTargets_empty have known: "\<forall>t \<in> set targets. map_of replicas (tCommand t) \<noteq> None" by blast
  show ?thesis
  proof (cases "pickTargets replicas targets [] []")
    case (Inl e)
    from pickTargets_Inl [OF Inl] True assms Inl show ?thesis by (auto simp: resolveTargets_def)
  next
    case (Inr r)
    obtain every picked where r: "r = (every, picked)" by fastforce
    note f = pickTargets_Inr [OF Inr [unfolded r]]
    define ts where "ts = map (\<lambda>n. (n, None :: int list option)) every @
        map (\<lambda>(n, is). (n, Some (sort is))) (filter (\<lambda>(n, is). n \<notin> set every) picked)"
    have look: "map_of ts c = (if c \<in> set every then Some None else map_option (\<lambda>is. Some (sort is)) (map_of picked c))" for c
      by (rule resolved_lookup [OF _ _ ts_def]) (use pickTargets_distinct [OF Inr [unfolded r]] in auto)
    have p: "map_of picked c \<noteq> None \<longleftrightarrow> (\<exists>t \<in> set targets. tScaleIndex t \<noteq> 0 \<and> tCommand t = c)" for c
      using f map_of_None_iff [of picked c] by (auto simp: pickedOf_def)
    have q: "set (pickedOf picked c) = {tScaleIndex t |t. t \<in> set targets \<and> tScaleIndex t \<noteq> 0 \<and> tCommand t = c}" for c
      using f by (simp add: pickedOf_def)
    have e: "c \<in> set every \<longleftrightarrow> (\<exists>t \<in> set targets. tScaleIndex t = 0 \<and> tCommand t = c)" for c using f by auto
    have "map_of ts c \<noteq> None \<and> covers ts c k \<longleftrightarrow>
        (\<exists>t \<in> set targets. tCommand t = c \<and> (tScaleIndex t = 0 \<or> tScaleIndex t = k))" for c k
    proof (cases "c \<in> set every")
      case True
      with look [of c] e [of c] show ?thesis by (auto simp: covers_def)
    next
      case False
      show ?thesis
      proof (cases "map_of picked c")
        case None
        with False look [of c] e [of c] p [of c] show ?thesis by auto
      next
        case (Some xs)
        with False look [of c] q [of c] e [of c] show ?thesis by (auto simp: covers_def pickedOf_def)
      qed
    qed
    moreover have "resolveTargets targets replicas = Inr ts"
      using True assms Inr r by (simp add: resolveTargets_def ts_def)
    ultimately show ?thesis using known f by simp
  qed
qed

end
