(* ===== verification/Compose_Teardown.thy ===== *)
theory Compose_Teardown
  imports Hook_Steps Compose_Target
begin

text \<open>
  The teardown of compose replicas: the action of a stop walk (service_reconcile.go), the concurrent
  stop of entries (service_stop.go), and the parts of compose down (service_down.go): removal, retry and
  report of the releases that failed, and the releases left by replicas that are gone. Goroutines started
  together run one after another, in an order that the host chooses.
\<close>

section \<open>Reports (event.go)\<close>

definition reportPlain :: "ComposeHost \<Rightarrow> string \<Rightarrow> Phase \<Rightarrow> SvcErr option \<Rightarrow> int option \<Rightarrow> CWorld \<Rightarrow> CWorld" where
  "reportPlain ch cmd phase err exit = report ch ((plainEvent cmd phase err)\<lparr> evExitCode := exit \<rparr>)"

definition reportStopped :: "ComposeHost \<Rightarrow> string \<Rightarrow> int option \<Rightarrow> bool \<Rightarrow> CWorld \<Rightarrow> CWorld" where
  "reportStopped ch cmd exit forceKilled =
     report ch ((plainEvent cmd PhaseStopped None)\<lparr> evExitCode := exit, evForceKilled := forceKilled \<rparr>)"

definition reportReplicas :: "ComposeHost \<Rightarrow> Command \<Rightarrow> int list \<Rightarrow> Phase \<Rightarrow> SvcErr option \<Rightarrow> int option \<Rightarrow> CWorld \<Rightarrow> CWorld" where
  "reportReplicas ch cmd idxs phase err exit = fold (\<lambda>idx. reportPlain ch (instanceDisplayName cmd idx) phase err exit) idxs"

section \<open>Goroutines\<close>

definition runOrder :: "ComposeHost \<Rightarrow> CWorld \<Rightarrow> nat \<Rightarrow> nat list" where
  "runOrder ch cw n = (let p = chOrder ch (wTick (cwWorld cw)) n in if sort_key (\<lambda>i. i) p = [0..<n] then p else [0..<n])"

lemma runOrder_perm: "mset (runOrder ch cw n) = mset [0..<n]"
proof (cases "sort_key (\<lambda>i. i) (chOrder ch (wTick (cwWorld cw)) n) = [0..<n]")
  case True
  then have "mset (chOrder ch (wTick (cwWorld cw)) n) = mset [0..<n]" by (metis mset_sort)
  with True show ?thesis by (simp add: runOrder_def)
qed (simp add: runOrder_def)

text \<open>The results come in the order in which the goroutines ended.\<close>

fun runTasks :: "(nat \<Rightarrow> 's \<Rightarrow> ('s \<times> 'a) effect) \<Rightarrow> nat list \<Rightarrow> 's \<Rightarrow> ('s \<times> (nat \<times> 'a) list) effect" where
  "runTasks task [] s = Pair (s, [])"
| "runTasks task (i # is) s =
     tryR (task i s) (\<lambda>(s, x). tryR (runTasks task is s) (\<lambda>(s, xs). Pair (s, (i, x) # xs)))"

definition concurrently :: "ComposeHost \<Rightarrow> nat \<Rightarrow> (nat \<Rightarrow> 's \<Rightarrow> ('s \<times> 'a) effect) \<Rightarrow> 's \<Rightarrow> ('s \<times> (nat \<times> 'a) list) effect" where
  "concurrently ch n task s cw = runTasks task (runOrder ch cw n) s cw"

definition byIndex :: "nat \<Rightarrow> (nat \<times> 'a) list \<Rightarrow> 'a list" where
  "byIndex n xs = List.map_filter (map_of xs) [0..<n]"

section \<open>Stops (service_stop.go, service_reconcile.go)\<close>

record StopResultOf =
  soCommand' :: string
  soErr' :: "SvcErr option"
  soForceKilled' :: bool

definition stopTask :: "ComposeHost \<Rightarrow> string \<Rightarrow> int option \<Rightarrow> CommandEntry \<Rightarrow> teardown \<Rightarrow> (teardown \<times> bool \<times> SvcErr option) effect" where
  "stopTask ch disp exit e td =
     tryR (teardownStop ch td e) (\<lambda>(td, forceKilled, err) cw. case err of
       Some x \<Rightarrow>
         let w = ErrWrap ''stop command'' x in ((td, forceKilled, Some w), reportPlain ch disp PhaseError (Some w) None cw)
     | None \<Rightarrow> ((td, forceKilled, None), reportStopped ch disp exit forceKilled cw))"

definition stopAllConcurrent :: "ComposeHost \<Rightarrow> CommandEntry list \<Rightarrow> teardown \<Rightarrow> (teardown \<times> StopResultOf list) effect" where
  "stopAllConcurrent ch entries td =
     tryR (concurrently ch (length entries) (\<lambda>i td cw.
         let e = entries ! i; name = entryDisplayName e
         in stopTask ch name None e td (reportPlain ch name PhaseStopping None None cw)) td)
       (\<lambda>(td, xs). Pair (td, map (\<lambda>(i, forceKilled, err).
          \<lparr> soCommand' = entryDisplayName (entries ! i), soErr' = err, soForceKilled' = forceKilled \<rparr>) xs))"

text \<open>The result of an action: state, exit code, error, and whether a replica was killed by force.\<close>

definition stopAction :: "ComposeHost \<Rightarrow> graphVertex \<Rightarrow> Command \<Rightarrow> teardown \<Rightarrow> (teardown \<times> EventType \<times> int option \<times> SvcErr option \<times> bool) effect" where
  "stopAction ch v cmd td cw =
     (let snap = vSnapshot v; live = activeInstances snap; disp = (\<lambda>i. instanceDisplayName cmd (inScaleIndex (live ! i)))
      in if live = [] then
           ((td, csState snap, csExitCode snap, None, False), reportReplicas ch cmd (replicaIndices v) PhaseSkipped None (csExitCode snap) cw)
         else tryR (concurrently ch (length live) (\<lambda>i. stopTask ch (disp i) (csExitCode snap) (inEntry (live ! i))) td)
           (\<lambda>(td, xs).
             let forceKilled = list_ex (\<lambda>(_, k, _). k) xs;
                 errs = map (\<lambda>(_, err). err) (byIndex (length live) xs)
             in case firstErr errs of
                  Inl e \<Rightarrow> Pair (td, csState snap, None, Some e, forceKilled)
                | Inr _ \<Rightarrow> Pair (td, EventTypeExited, csExitCode snap, None, forceKilled))
           (fold (\<lambda>i. reportPlain ch (disp i) PhaseStopping None None) [0..<length live] cw))"

section \<open>Removals (service_down.go)\<close>

record RemoveOutcome =
  roCommand :: string
  roErr :: "SvcErr option"

text \<open>\<^verbatim>\<open>%w: %w\<close> wraps both errors.\<close>

definition removeTask :: "ComposeHost \<Rightarrow> CommandEntry \<Rightarrow> teardown \<Rightarrow> (teardown \<times> RemoveOutcome) effect" where
  "removeTask ch e td cw =
     (let name = entryDisplayName e
      in case map_of (tdKept td) (enID e) of
           Some kept \<Rightarrow>
             let err = ErrJoin [ErrReplicaKept, kept]
             in ((td, \<lparr> roCommand = name, roErr = Some err \<rparr>), reportPlain ch name PhaseSkipped (Some err) None cw)
         | None \<Rightarrow>
             tryR (teardownRemove ch td e) (\<lambda>(td, err) cw. case err of
               Some x \<Rightarrow>
                 let w = ErrWrap ''remove command'' x in ((td, \<lparr> roCommand = name, roErr = Some w \<rparr>), reportPlain ch name PhaseError (Some w) None cw)
             | None \<Rightarrow> ((td, \<lparr> roCommand = name, roErr = None \<rparr>), reportPlain ch name PhaseRemoved None None cw))
             (reportPlain ch name PhaseRemoving None None cw))"

definition removeAllConcurrent :: "ComposeHost \<Rightarrow> CommandEntry list \<Rightarrow> teardown \<Rightarrow> (teardown \<times> RemoveOutcome list) effect" where
  "removeAllConcurrent ch entries td =
     tryR (concurrently ch (length entries) (\<lambda>i. removeTask ch (entries ! i)) td) (\<lambda>(td, xs). Pair (td, map snd xs))"

definition spansMultipleProjects :: "CommandEntry list \<Rightarrow> bool" where
  "spansMultipleProjects entries =
     (case List.map_filter (\<lambda>e. map_option (\<lambda>cfg. label_of (ccLabels cfg) LabelProject) (enConfigJSON e)) entries of
        [] \<Rightarrow> False | p # ps \<Rightarrow> list_ex (\<lambda>q. q \<noteq> p) ps)"

definition runningEntries :: "CommandEntry list \<Rightarrow> CommandEntry list" where
  "runningEntries entries = filter (\<lambda>e. isLive (enState e)) entries"

definition orphansOf :: "ComposeSpec \<Rightarrow> CommandEntry list \<Rightarrow> CommandEntry list" where
  "orphansOf spec entries = filter (\<lambda>e. case enConfigJSON e of None \<Rightarrow> False
     | Some cfg \<Rightarrow> label_of (ccLabels cfg) LabelCommand \<notin> cName ` set (sCommands spec)) (runningEntries entries)"

definition stopOrphans :: "ComposeHost \<Rightarrow> CommandEntry list \<Rightarrow> ComposeSpec \<Rightarrow> teardown \<Rightarrow> (teardown \<times> StopResultOf list) effect" where
  "stopOrphans ch entries spec td =
     (if orphansOf spec entries = [] then Pair (td, []) else stopAllConcurrent ch (orphansOf spec entries) td)"

definition filterEntriesInClosure :: "CommandEntry list \<Rightarrow> string list \<Rightarrow> CommandEntry list" where
  "filterEntriesInClosure entries closure = filter (\<lambda>e. case enConfigJSON e of None \<Rightarrow> False
     | Some cfg \<Rightarrow> label_of (ccLabels cfg) LabelCommand \<in> set closure) entries"

section \<open>Releases (service_down.go)\<close>

record ReleaseOutcome =
  reHolder :: string
  reCommand :: string
  reResource :: string
  reValue :: string
  reErr :: "SvcErr option"
  reWarning :: "SvcErr option"
  reRetried :: bool

definition projectLabels :: "string \<Rightarrow> string \<Rightarrow> (string, string) gomap" where
  "projectLabels workDir project = (LabelWorkdir, workDir) # (if project \<noteq> [] then [(LabelProject, project)] else [])"

definition hooksProjectLabels :: "string \<Rightarrow> string \<Rightarrow> (string, string) gomap" where
  "hooksProjectLabels workDir project = (LabelHooksWorkdir, workDir) # (if project \<noteq> [] then [(LabelHooksProject, project)] else [])"

text \<open>The holders whose release is to run now.\<close>

definition strandedHolders :: "ComposeHost \<Rightarrow> CommandEntry list \<Rightarrow> CommandEntry list \<Rightarrow> teardown \<Rightarrow> resourceHolder list" where
  "strandedHolders ch entries replicas td =
     List.map_filter (\<lambda>e. case decodeHolder ch e of
         Inl _ \<Rightarrow> None
       | Inr h \<Rightarrow> if rhRelease h = None \<or> rhOwner h \<in> enName ` set replicas \<and> \<not> releaseLeft td h then None else Some h) entries"

definition releaseTask :: "ComposeHost \<Rightarrow> bool \<Rightarrow> resourceHolder \<Rightarrow> ReleaseOutcome effect" where
  "releaseTask ch force h =
     tryR (runRelease ch h force) (\<lambda>(warning, err). Pair \<lparr> reHolder = holder_name h, reCommand = hrDisplay (holder_replica h),
       reResource = rrKey (rhRef h), reValue = rhValue h, reErr = err, reWarning = warning, reRetried = False \<rparr>)"

definition releaseStranded ::
    "ComposeHost \<Rightarrow> string \<Rightarrow> string \<Rightarrow> CommandEntry list \<Rightarrow> teardown \<Rightarrow> (ReleaseOutcome list) effect" where
  "releaseStranded ch workDir project replicas td =
     tryR (svc (Service_List (chHost ch) True ((LabelIntermediate, IntermediateHolder) # hooksProjectLabels workDir project))) (\<lambda>l. case l of
       Inl e \<Rightarrow> (\<lambda>cw.
         let err = ErrWrap ''compose down: list resource holders'' e
         in ([\<lparr> reHolder = [], reCommand = [], reResource = [], reValue = [], reErr = Some err, reWarning = None, reRetried = False \<rparr>],
             reportPlain ch (if project \<noteq> [] then project else workDir) PhaseError (Some err) None cw))
     | Inr entries \<Rightarrow>
         let hs = strandedHolders ch entries replicas td
         in tryR (concurrently ch (length hs) (\<lambda>i _. tryR (releaseTask ch (tdForce td) (hs ! i)) (\<lambda>o'. Pair ((), o'))) ()) (\<lambda>(_, xs).
              Pair (byIndex (length hs) xs)))"

definition verifiedStopped :: "CommandEntry \<Rightarrow> bool" where
  "verifiedStopped e \<longleftrightarrow> enState e = EventTypeExited \<or>
     enState e = EventTypeFailed \<and> \<not> (case enStateJSON e of None \<Rightarrow> False | Some js \<Rightarrow> DiedUnexpectedly js)"

text \<open>Of neighbours with one name the last stays.\<close>

fun lastOfEach :: "failedRelease list \<Rightarrow> failedRelease list" where
  "lastOfEach (f # g # fs) =
     (if holder_name (frHolder f) = holder_name (frHolder g) then lastOfEach (g # fs) else f # lastOfEach (g # fs))"
| "lastOfEach fs = fs"

text \<open>One release run again: what is left of its failure, or nothing.\<close>

definition retryOne :: "ComposeHost \<Rightarrow> bool \<Rightarrow> failedRelease \<Rightarrow> (failedRelease option) effect" where
  "retryOne ch force f =
     tryR (withRecorder (runRelease ch (frHolder f) force)) (\<lambda>((_, err), again). Pair (
       if again \<noteq> [] then Some (f\<lparr> frErr := frErr (last again), frOnError := frOnError (last again), frRetried := True \<rparr>)
       else if err = None then None else Some f))"

definition mayRetry :: "CommandEntry list \<Rightarrow> failedRelease \<Rightarrow> bool" where
  "mayRetry entries f \<longleftrightarrow> \<not> frReportOnly f \<and>
     (case find (\<lambda>e. enName e = rhOwner (frHolder f)) (rev entries) of None \<Rightarrow> False | Some e \<Rightarrow> verifiedStopped e)"

definition retryFailures :: "ComposeHost \<Rightarrow> failedRelease list \<Rightarrow> string \<Rightarrow> string \<Rightarrow> bool \<Rightarrow> (failedRelease list) effect" where
  "retryFailures ch failed workDir project force cw =
     (if failed = [] \<or> ctxDone cw then (failed, cw)
      else tryR (svc (Service_List (chHost ch) True (projectLabels workDir project))) (\<lambda>l. case l of
        Inl _ \<Rightarrow> Pair failed
      | Inr entries \<Rightarrow>
          tryR (concurrently ch (length failed) (\<lambda>i _.
              if mayRetry entries (failed ! i) then tryR (retryOne ch force (failed ! i)) (\<lambda>f. Pair ((), f))
              else Pair ((), Some (failed ! i))) ()) (\<lambda>(_, xs).
            Pair (List.map_filter id (byIndex (length failed) xs)))) cw)"

definition retryReleases :: "ComposeHost \<Rightarrow> string \<Rightarrow> string \<Rightarrow> bool \<Rightarrow> unit effect" where
  "retryReleases ch workDir project force =
     tryR takeRecorded (\<lambda>failed.
     tryR (retryFailures ch (lastOfEach failed) workDir project force) (\<lambda>left cw. ((), fold recordFailure left cw)))"

text \<open>The outcome of a holder is found by its name; the first one, or a new one at the end.\<close>

definition setOutcome :: "failedRelease \<Rightarrow> ReleaseOutcome \<Rightarrow> ReleaseOutcome" where
  "setOutcome f o' = o'\<lparr> reCommand := frDisplay f, reResource := rrKey (rhRef (frHolder f)), reValue := rhValue (frHolder f),
     reRetried := frRetried f, reErr := (if failsDown f then Some (frErr f) else None),
     reWarning := (if failsDown f then None else Some (frErr f)) \<rparr>"

definition emptyOutcome :: "string \<Rightarrow> ReleaseOutcome" where
  "emptyOutcome name = \<lparr> reHolder = name, reCommand = [], reResource = [], reValue = [], reErr = None, reWarning = None, reRetried = False \<rparr>"

text \<open>The index of the last outcome of a holder that has a name: the map \<^verbatim>\<open>at\<close>.\<close>

fun lastAt :: "string \<Rightarrow> ReleaseOutcome list \<Rightarrow> nat \<Rightarrow> nat option" where
  "lastAt name [] i = None"
| "lastAt name (o' # os) i =
     (case lastAt name os (Suc i) of Some k \<Rightarrow> Some k
      | None \<Rightarrow> if reHolder o' = name then Some i else None)"

definition addFailure :: "failedRelease \<Rightarrow> ReleaseOutcome list \<times> string list \<Rightarrow> ReleaseOutcome list \<times> string list" where
  "addFailure f = (\<lambda>(os, order).
     let name = holder_name (frHolder f)
     in (case lastAt name os 0 of
           Some i \<Rightarrow> os[i := setOutcome f (os ! i)]
         | None \<Rightarrow> os @ [setOutcome f (emptyOutcome name)],
         if name \<in> set order then order else order @ [name]))"

definition unreleasedEvent :: "ReleaseOutcome \<Rightarrow> Event" where
  "unreleasedEvent o' = (plainEvent (reCommand o') PhaseUnreleased (case reErr o' of Some e \<Rightarrow> Some e | None \<Rightarrow> reWarning o'))
     \<lparr> evResource := reResource o', evValue := reValue o', evRetried := reRetried o' \<rparr>"

definition outcomeOf :: "ReleaseOutcome list \<Rightarrow> string \<Rightarrow> ReleaseOutcome" where
  "outcomeOf os name = (case lastAt name os 0 of Some i \<Rightarrow> os ! i | None \<Rightarrow> emptyOutcome name)"

definition addUnreleased :: "ComposeHost \<Rightarrow> ReleaseOutcome list \<Rightarrow> failedRelease list \<Rightarrow> (ReleaseOutcome list) effect" where
  "addUnreleased ch outcomes failed cw =
     (case fold addFailure failed (outcomes, []) of (os, order) \<Rightarrow>
        (os, fold (\<lambda>name. report ch (unreleasedEvent (outcomeOf os name))) order cw))"

text \<open>Compose down once every stop has returned: \<open>entries\<close> are the replicas as down found them, \<open>whole\<close> says
  that no target narrowed it down.\<close>

definition Down_finish ::
    "ComposeHost \<Rightarrow> string \<Rightarrow> string \<Rightarrow> bool \<Rightarrow> bool \<Rightarrow> CommandEntry list \<Rightarrow> CommandEntry list \<Rightarrow> teardown \<Rightarrow>
     (RemoveOutcome list \<times> ReleaseOutcome list) effect" where
  "Down_finish ch workDir project whole anySelected entries removeTargets td =
     tryR (if anySelected then tryR (retryReleases ch workDir project (tdForce td)) (\<lambda>_. removeAllConcurrent ch removeTargets td)
           else Pair (td, [])) (\<lambda>(td, removes).
     tryR (if whole then releaseStranded ch workDir project entries td else Pair []) (\<lambda>outcomes cw.
       tryR (addUnreleased ch outcomes (recorded cw)) (\<lambda>releases. Pair (removes, releases)) cw))"

end
