(* ===== verification/Reconcile_Ops.thy ===== *)
theory Reconcile_Ops
  imports Reconcile_Graph
begin

text \<open>
  What the locked sections of the reconcile graph do, one operation at a time:
  which fields they change, that a consumed vertex is never changed again
  (\<open>freezes\<close>), and how the readiness test relates to the order-independent
  condition \<open>edge_ok\<close> that every edge of the vertex is satisfied. The walk proofs
  use only these lemmas.
\<close>

section \<open>Views of a vertex\<close>

text \<open>The part of a vertex no operation of a walk writes.\<close>

definition vshape :: "graphVertex \<Rightarrow> vertexID \<times> Command option \<times> commandSnapshot \<times>
    (vertexID, graphEdge) gomap \<times> (vertexID, graphEdge) gomap \<times> bool \<times> int list option" where
  "vshape v = (vID v, vCommand v, vSnapshot v, vParents v, vChildren v, vInClosure v, vReplicas v)"

text \<open>The part of a vertex that its neighbours' readiness reads.\<close>

definition evalview :: "graphVertex \<Rightarrow> vertexID \<times> bool \<times> bool \<times> bool \<times> GoErr option \<times>
    EventType \<times> int option \<times> commandSnapshot" where
  "evalview v = (vID v, vInClosure v, vBlocked v, vConsumed v, vErr v, vState v, vExitCode v, vSnapshot v)"

text \<open>The part of a vertex that is its result.\<close>

definition resultview :: "graphVertex \<Rightarrow> bool \<times> bool \<times> GoErr option \<times> EventType \<times> int option \<times> bool \<times> int" where
  "resultview v = (vConsumed v, vBlocked v, vErr v, vState v, vExitCode v, vForceKilled v, vOrder v)"

definition has :: "(graphVertex \<Rightarrow> bool) \<Rightarrow> reconcileGraph \<Rightarrow> vertexID \<Rightarrow> bool" where
  "has P g i \<longleftrightarrow> (\<exists>v. vertex g i = Some v \<and> P v)"

definition target :: "reconcileGraph \<Rightarrow> vertexID \<Rightarrow> bool" where
  "target g i \<longleftrightarrow> has (\<lambda>v. vCommand v \<noteq> None \<and> vInClosure v) g i"

definition acted :: "reconcileGraph \<Rightarrow> vertexID \<Rightarrow> bool" where
  "acted g i \<longleftrightarrow> has (\<lambda>v. vConsumed v \<and> \<not> vBlocked v) g i"

definition idle :: "reconcileGraph \<Rightarrow> vertexID \<Rightarrow> bool" where
  "idle g i \<longleftrightarrow> has (\<lambda>v. \<not> vConsumed v \<and> \<not> vQueued v \<and> \<not> vInProgress v) g i"

definition neighbours :: "graphVertex \<Rightarrow> walkDirection \<Rightarrow> vertexID set" where
  "neighbours v dir = set (readinessKeys v dir) -
     {case dir of walkFromBegin \<Rightarrow> beginVertex | walkFromEnd \<Rightarrow> endVertex}"

section \<open>Every edge satisfied\<close>

definition edge_sat :: "reconcileGraph \<Rightarrow> walkDirection \<Rightarrow> graphVertex \<Rightarrow> vertexID \<Rightarrow> bool" where
  "edge_sat g dir v j \<longleftrightarrow>
     (case dir of
        walkFromEnd \<Rightarrow> (\<forall>c. vertex g j = Some c \<longrightarrow> vInClosure c \<longrightarrow> vConsumed c)
      | walkFromBegin \<Rightarrow>
          fst (evalDownEdgeLocked (vertex g j)
                 (case map_of (vParents v) j of Some e \<Rightarrow> geCondition e | None \<Rightarrow> ConditionNone))
            = edgeSatisfied)"

definition edge_ok :: "reconcileGraph \<Rightarrow> walkDirection \<Rightarrow> graphVertex \<Rightarrow> bool" where
  "edge_ok g dir v \<longleftrightarrow> (\<forall>j \<in> neighbours v dir. edge_sat g dir v j)"

lemma readinessUp_iff:
  "fst (readinessUp g ks) = edgeSatisfied \<longleftrightarrow>
     (\<forall>j \<in> set ks - {endVertex}. edge_sat g walkFromEnd v j)"
  by (induction ks) (auto simp: edge_sat_def split: option.splits)

lemma readinessUp_not_blocked: "fst (readinessUp g ks) \<noteq> edgeBlocked"
  by (induction ks) (auto split: option.splits)

lemma readinessDown_iff:
  "fst (readinessDown g (vParents v) w ks) = edgeSatisfied \<longleftrightarrow>
     fst w = edgeSatisfied \<and> (\<forall>j \<in> set ks - {beginVertex}. edge_sat g walkFromBegin v j)"
proof (induction ks arbitrary: w)
  case (Cons k ks)
  show ?case
  proof (cases "k = beginVertex")
    case True
    with Cons.IH show ?thesis by (simp add: insert_Diff_if)
  next
    case False
    let ?c = "case map_of (vParents v) k of Some e \<Rightarrow> geCondition e | None \<Rightarrow> ConditionNone"
    obtain t u where e: "evalDownEdgeLocked (vertex g k) ?c = (t, u)" by fastforce
    then have "edge_sat g walkFromBegin v k \<longleftrightarrow> t = edgeSatisfied" by (simp add: edge_sat_def)
    with False e Cons.IH show ?thesis by (cases t) (simp_all add: insert_Diff_if)
  qed
qed simp

lemma readinessLocked_iff:
  assumes "set ks = set (readinessKeys v dir)"
  shows "fst (readinessLocked g v dir ks) = edgeSatisfied \<longleftrightarrow> edge_ok g dir v"
  using assms readinessUp_iff [of g ks v] readinessDown_iff [of g v "(edgeSatisfied, None)" ks]
  by (simp add: readinessLocked_def edge_ok_def neighbours_def split: walkDirection.splits)

lemma readinessLocked_up: "fst (readinessLocked g v walkFromEnd ks) \<noteq> edgeBlocked"
  by (simp add: readinessLocked_def readinessUp_not_blocked)

lemma evalDownEdge_reason:
  "evalDownEdgeLocked p c = (s, r) \<Longrightarrow> s \<noteq> edgeSatisfied \<Longrightarrow> r \<noteq> None"
  by (auto simp: evalDownEdgeLocked_def Let_def split: option.splits if_splits AfterCondition.splits)

lemma readinessDown_reason:
  "readinessDown g ps w ks = (s, r) \<Longrightarrow> s \<noteq> edgeSatisfied \<Longrightarrow>
     (fst w \<noteq> edgeSatisfied \<longrightarrow> snd w \<noteq> None) \<Longrightarrow> r \<noteq> None"
proof (induction ks arbitrary: w)
  case (Cons k ks)
  let ?c = "case map_of ps k of Some e \<Rightarrow> geCondition e | None \<Rightarrow> ConditionNone"
  obtain t u where e: "evalDownEdgeLocked (vertex g k) ?c = (t, u)" by fastforce
  note reason = evalDownEdge_reason [OF e]
  show ?case
  proof (cases "k = beginVertex")
    case True
    with Cons show ?thesis by simp
  next
    case False
    show ?thesis
      using Cons.prems Cons.IH [of "if fst w = edgeSatisfied then (edgePending, u) else w"]
        Cons.IH [of w] reason False
      by (cases t) (auto simp: e Let_def split: if_splits)
  qed
qed auto

lemma readinessLocked_reason:
  assumes "readinessLocked g v dir ks = (s, r)" and "s \<noteq> edgeSatisfied"
  shows "r \<noteq> None"
proof (cases dir)
  case walkFromBegin
  with assms readinessDown_reason [of g "vParents v" "(edgeSatisfied, None)" ks s r] show ?thesis
    by (simp add: readinessLocked_def)
next
  case walkFromEnd
  have "readinessUp g xs = (s, r) \<Longrightarrow> r \<noteq> None" for xs
    using assms(2) by (induction xs) (auto split: option.splits if_splits)
  with walkFromEnd assms show ?thesis by (simp add: readinessLocked_def)
qed

section \<open>Frozen results\<close>

definition fz :: "graphVertex \<Rightarrow> graphVertex \<Rightarrow> bool" where
  "fz v v' \<longleftrightarrow> vshape v' = vshape v \<and> (vConsumed v \<longrightarrow> resultview v' = resultview v)"

definition freezes :: "reconcileGraph \<Rightarrow> reconcileGraph \<Rightarrow> bool" where
  "freezes g g' \<longleftrightarrow>
     keys_of (Vertices g') = keys_of (Vertices g) \<and> (\<forall>i. rel_option fz (vertex g i) (vertex g' i))"

lemma shape_sel:
  assumes "vshape v' = vshape v"
  shows "vCommand v' = vCommand v" "vInClosure v' = vInClosure v" "vSnapshot v' = vSnapshot v"
    "vParents v' = vParents v" "vChildren v' = vChildren v" "vID v' = vID v"
  using assms by (simp_all add: vshape_def)

lemma result_sel:
  assumes "resultview v' = resultview v"
  shows "vConsumed v' = vConsumed v" "vBlocked v' = vBlocked v" "vErr v' = vErr v"
    "vState v' = vState v" "vExitCode v' = vExitCode v" "vOrder v' = vOrder v"
  using assms by (simp_all add: resultview_def)

lemma fz_refl [simp]: "fz v v"
  by (simp add: fz_def)

lemma fz_shape: "fz v v' \<Longrightarrow> vshape v' = vshape v"
  by (simp add: fz_def)

lemma fz_result: "fz v v' \<Longrightarrow> vConsumed v \<Longrightarrow> resultview v' = resultview v"
  by (simp add: fz_def)

lemma fz_trans: "fz a b \<Longrightarrow> fz b c \<Longrightarrow> fz a c"
  unfolding fz_def using result_sel(1) by metis

lemma freezes_refl [simp]: "freezes g g"
  by (simp add: freezes_def option.rel_refl)

lemma freezes_trans [trans]:
  assumes "freezes a b" and "freezes b c" shows "freezes a c"
  unfolding freezes_def
proof (intro conjI allI)
  show "keys_of (Vertices c) = keys_of (Vertices a)" using assms by (simp add: freezes_def)
  fix i
  from assms have "rel_option fz (vertex a i) (vertex b i)" "rel_option fz (vertex b i) (vertex c i)"
    by (simp_all add: freezes_def)
  then show "rel_option fz (vertex a i) (vertex c i)"
    by (cases "vertex a i"; cases "vertex b i"; cases "vertex c i") (auto intro: fz_trans)
qed

lemma freezes_keys: "freezes g g' \<Longrightarrow> keys_of (Vertices g') = keys_of (Vertices g)"
  by (simp add: freezes_def)

lemma freezes_vertex: "freezes g g' \<Longrightarrow> rel_option fz (vertex g i) (vertex g' i)"
  by (simp add: freezes_def)

lemma freezes_Some:
  assumes "freezes g g'" and "vertex g' i = Some v'"
  obtains v where "vertex g i = Some v" "fz v v'"
  using freezes_vertex [OF assms(1), of i] assms(2) by (cases "vertex g i") auto

lemma freezes_Some':
  assumes "freezes g g'" and "vertex g i = Some v"
  obtains v' where "vertex g' i = Some v'" "fz v v'"
  using freezes_vertex [OF assms(1), of i] assms(2) by (cases "vertex g' i") auto

lemma freezes_None: "freezes g g' \<Longrightarrow> vertex g' i = None \<longleftrightarrow> vertex g i = None"
  using freezes_vertex [of g g' i] by (cases "vertex g i"; cases "vertex g' i") auto

lemma has_Some [simp]: "vertex g i = Some v \<Longrightarrow> has P g i = P v"
  by (simp add: has_def)

lemma has_None [simp]: "vertex g i = None \<Longrightarrow> \<not> has P g i"
  by (simp add: has_def)

lemma hasE: "has P g i \<Longrightarrow> (\<And>v. vertex g i = Some v \<Longrightarrow> P v \<Longrightarrow> thesis) \<Longrightarrow> thesis"
  by (auto simp: has_def)

lemma freezes_target: "freezes g g' \<Longrightarrow> target g' i = target g i"
  using freezes_vertex [of g g' i]
  by (cases "vertex g i"; cases "vertex g' i") (auto simp: target_def fz_def vshape_def)

lemma freezes_consumed: "freezes g g' \<Longrightarrow> has vConsumed g i \<Longrightarrow> has vConsumed g' i"
  using freezes_vertex [of g g' i]
  by (cases "vertex g i"; cases "vertex g' i") (auto simp: fz_def resultview_def)

lemma freezes_acted: "freezes g g' \<Longrightarrow> acted g i \<Longrightarrow> acted g' i"
  using freezes_vertex [of g g' i]
  by (cases "vertex g i"; cases "vertex g' i") (auto simp: acted_def fz_def resultview_def)

lemma neighbours_shape: "vshape v' = vshape v \<Longrightarrow> neighbours v' dir = neighbours v dir"
  by (cases dir) (simp_all add: neighbours_def readinessKeys_def vshape_def)

lemma evalDown_cong:
  assumes "evalview p' = evalview p"
  shows "evalDownEdgeLocked (Some p') c = evalDownEdgeLocked (Some p) c"
proof -
  from assms have "vID p' = vID p" "vInClosure p' = vInClosure p" "vBlocked p' = vBlocked p"
    "vConsumed p' = vConsumed p" "vErr p' = vErr p" "vState p' = vState p"
    "vExitCode p' = vExitCode p" "vSnapshot p' = vSnapshot p"
    by (simp_all add: evalview_def)
  then show ?thesis by (simp only: evalDownEdgeLocked_def option.case)
qed

lemma evalDown_outside:
  assumes "vshape p' = vshape p" and "\<not> vInClosure p"
  shows "evalDownEdgeLocked (Some p') c = evalDownEdgeLocked (Some p) c"
  using shape_sel [OF assms(1)] assms(2)
  by (simp only: evalDownEdgeLocked_def option.case if_False)

lemma evalDown_consumed:
  "fst (evalDownEdgeLocked (Some p) c) = edgeSatisfied \<Longrightarrow> vInClosure p \<Longrightarrow>
     vConsumed p \<and> \<not> vBlocked p \<and> vErr p = None"
  by (simp add: evalDownEdgeLocked_def Let_def split: if_splits option.splits)

lemma edge_sat_cong:
  assumes "vshape v' = vshape v"
    and "map_option evalview (vertex g' j) = map_option evalview (vertex g j)"
  shows "edge_sat g' dir v' j = edge_sat g dir v j"
proof (cases "vertex g j")
  case None
  with assms(2) have "vertex g' j = None" by simp
  with None shape_sel(4) [OF assms(1)] show ?thesis by (simp only: edge_sat_def)
next
  case (Some c)
  with assms(2) obtain c' where c': "vertex g' j = Some c'" "evalview c' = evalview c" by auto
  then have "vInClosure c' = vInClosure c" "vConsumed c' = vConsumed c" by (simp_all add: evalview_def)
  with Some c'(1) show ?thesis
    by (cases dir) (simp_all add: edge_sat_def shape_sel(4) [OF assms(1)] evalDown_cong [OF c'(2)])
qed

text \<open>A satisfied edge into an in-closure vertex needs that vertex consumed.\<close>

lemma edge_sat_consumed:
  "edge_sat g dir v j \<Longrightarrow> vertex g j = Some c \<Longrightarrow> vInClosure c \<Longrightarrow> vConsumed c"
  using evalDown_consumed by (cases dir) (simp_all add: edge_sat_def)

lemma edge_sat_freezes:
  assumes fr: "freezes g g'" and sat: "edge_sat g dir v j" and sh: "vshape v' = vshape v"
  shows "edge_sat g' dir v' j"
proof (cases "vertex g j")
  case None
  with fr have "vertex g' j = None" by (simp add: freezes_None)
  with None sat sh show ?thesis using edge_sat_cong [of v' v g' j g dir] by simp
next
  case (Some c)
  from freezes_Some' [OF fr Some] obtain c' where c': "vertex g' j = Some c'" "fz c c'" .
  show ?thesis
  proof (cases "vInClosure c")
    case True
    with sat Some have "vConsumed c" by (blast dest: edge_sat_consumed)
    with c' have "evalview c' = evalview c"
      by (simp add: evalview_def fz_def vshape_def resultview_def)
    with Some c' sat sh edge_sat_cong [of v' v g' j g dir] show ?thesis by simp
  next
    case False
    have "vInClosure c' = vInClosure c" using shape_sel(2) [OF fz_shape [OF c'(2)]] .
    with Some c'(1) sat False show ?thesis
      by (cases dir) (simp_all add: edge_sat_def shape_sel(4) [OF sh]
          evalDown_outside [OF fz_shape [OF c'(2)] False])
  qed
qed

lemma edge_ok_freezes:
  "freezes g g' \<Longrightarrow> edge_ok g dir v \<Longrightarrow> vshape v' = vshape v \<Longrightarrow> edge_ok g' dir v'"
  unfolding edge_ok_def by (metis edge_sat_freezes neighbours_shape)

lemma edge_ok_cong:
  assumes "vshape v' = vshape v"
    and "\<And>j. j \<in> neighbours v dir \<Longrightarrow> map_option evalview (vertex g' j) = map_option evalview (vertex g j)"
  shows "edge_ok g' dir v' = edge_ok g dir v"
  unfolding edge_ok_def neighbours_shape [OF assms(1)]
  using assms(2) edge_sat_cong [OF assms(1)] by metis

section \<open>Operations\<close>

lemma vertex_modify [simp]:
  "vertex (modifyVertex i f g) j = (if j = i then map_option f (vertex g j) else vertex g j)"
  by (simp add: modifyVertex_def)

lemma keys_modify [simp]: "keys_of (Vertices (modifyVertex i f g)) = keys_of (Vertices g)"
  by (simp add: modifyVertex_def)

lemma seq_modify [simp]: "seq (modifyVertex i f g) = seq g"
  by (simp add: modifyVertex_def)

lemma vertex_markConsumed [simp]:
  "vertex (markConsumedLocked i g) j =
     (if j = i then map_option (\<lambda>v. v\<lparr>vOrder := seq g + 1\<rparr>) (vertex g j) else vertex g j)"
  by (simp add: markConsumedLocked_def modifyVertex_def)

lemma keys_markConsumed [simp]: "keys_of (Vertices (markConsumedLocked i g)) = keys_of (Vertices g)"
  by (simp add: markConsumedLocked_def modifyVertex_def)

lemma seq_markConsumed [simp]: "seq (markConsumedLocked i g) = seq g + 1"
  by (simp add: markConsumedLocked_def)

lemma freezesI:
  assumes "keys_of (Vertices g') = keys_of (Vertices g)"
    and "\<And>i v. vertex g i = Some v \<Longrightarrow> \<exists>v'. vertex g' i = Some v' \<and> fz v v'"
  shows "freezes g g'"
  unfolding freezes_def
proof (intro conjI allI)
  show "keys_of (Vertices g') = keys_of (Vertices g)" by fact
  fix i
  show "rel_option fz (vertex g i) (vertex g' i)"
  proof (cases "vertex g i")
    case None
    then have "vertex g' i = None" using assms(1) by (metis map_of_None_iff)
    with None show ?thesis by simp
  next
    case (Some v)
    with assms(2) [OF Some] show ?thesis by auto
  qed
qed

lemma freezes_modify:
  "(\<And>v. vertex g i = Some v \<Longrightarrow> fz v (f v)) \<Longrightarrow> freezes g (modifyVertex i f g)"
  by (rule freezesI) auto

text \<open>\<open>claim\<close>: for a target that waits in the queue, the three outcomes of the
  readiness test.\<close>

lemma claim_skip:
  assumes "vertex g i = Some v" and "vCommand v \<noteq> None" and "vInClosure v"
    and "\<not> vConsumed v" and "\<not> vInProgress v"
  shows "snd (claim g i dir ks) \<noteq> stepSkip"
  using assms by (simp add: claim_def split: prod.splits edgeStatus.splits)

lemma claim_skip_same: "snd (claim g i dir ks) = stepSkip \<Longrightarrow> fst (claim g i dir ks) = g"
  by (auto simp: claim_def split: option.splits if_splits prod.splits edgeStatus.splits)

lemma claim_cases:
  assumes "claim g i dir ks = (g', st)" and "st \<noteq> stepSkip"
  obtains v where "vertex g i = Some v" "vCommand v \<noteq> None" "vInClosure v" "\<not> vConsumed v"
      "\<not> vInProgress v" "st = stepReady"
      "fst (readinessLocked g v dir ks) = edgeSatisfied"
      "g' = modifyVertex i (\<lambda>v. v\<lparr>vQueued := False, vInProgress := True\<rparr>) g"
  | v r where "vertex g i = Some v" "vCommand v \<noteq> None" "vInClosure v" "\<not> vConsumed v"
      "\<not> vInProgress v" "st = stepPending"
      "readinessLocked g v dir ks = (edgePending, Some r)"
      "g' = modifyVertex i (\<lambda>v. v\<lparr>vQueued := False, vWaitReason := Some r\<rparr>) g"
  | v r where "vertex g i = Some v" "vCommand v \<noteq> None" "vInClosure v" "\<not> vConsumed v"
      "\<not> vInProgress v" "st = stepBlocked"
      "readinessLocked g v dir ks = (edgeBlocked, Some r)"
      "g' = modifyVertex i (\<lambda>v. v\<lparr>vQueued := False, vConsumed := True, vBlocked := True,
               vWaitReason := Some r, vErr := (case vErr v of None \<Rightarrow> Some r | Some e \<Rightarrow> Some e)\<rparr>) g"
proof -
  from assms obtain v where v: "vertex g i = Some v" "vCommand v \<noteq> None" "vInClosure v"
      "\<not> vConsumed v" "\<not> vInProgress v"
    by (auto simp: claim_def split: option.splits if_splits)
  then obtain cm where cm: "vCommand v = Some cm" by auto
  obtain es r where r: "readinessLocked g v dir ks = (es, r)" by fastforce
  note reason = readinessLocked_reason [OF r]
  show thesis
  proof (cases es)
    case edgeSatisfied
    with v cm r assms that(1) show ?thesis by (simp add: claim_def)
  next
    case edgePending
    with reason obtain r' where "r = Some r'" by auto
    with edgePending v cm r assms that(2) show ?thesis by (simp add: claim_def)
  next
    case edgeBlocked
    with reason obtain r' where "r = Some r'" by auto
    with edgeBlocked v cm r assms that(3) show ?thesis by (simp add: claim_def)
  qed
qed

lemma claim_freezes: "claim g i dir ks = (g', st) \<Longrightarrow> freezes g g'"
proof (cases "st = stepSkip")
  case True
  then show "claim g i dir ks = (g', st) \<Longrightarrow> ?thesis"
    using claim_skip_same [of g i dir ks] by simp
next
  case False
  assume "claim g i dir ks = (g', st)"
  from this False show ?thesis
  proof (cases rule: claim_cases)
    case (1 v)
    then show ?thesis by (auto intro!: freezes_modify simp: fz_def vshape_def resultview_def)
  next
    case (2 v r)
    then show ?thesis by (auto intro!: freezes_modify simp: fz_def vshape_def resultview_def)
  next
    case (3 v r)
    then show ?thesis by (auto intro!: freezes_modify simp: fz_def vshape_def resultview_def)
  qed
qed

text \<open>\<open>complete\<close>: the result of the vertex, and the neighbours it queues.\<close>

definition eligible :: "reconcileGraph \<Rightarrow> vertexID \<Rightarrow> vertexID \<Rightarrow> bool" where
  "eligible g skip n \<longleftrightarrow>
     n \<noteq> skip \<and> has (\<lambda>v. vInClosure v \<and> \<not> vConsumed v \<and> \<not> vInProgress v \<and> \<not> vQueued v) g n"

lemma eligible_other:
  "n \<notin> set ks \<Longrightarrow> filter (eligible (modifyVertex n f g) skip) ks = filter (eligible g skip) ks"
  by (intro filter_cong refl) (auto simp: eligible_def has_def)

lemma enqueueFrontier_Cons:
  "enqueueFrontier skip (n # ks) g =
     (if eligible g skip n
      then let r = enqueueFrontier skip ks (modifyVertex n (\<lambda>v. v\<lparr>vQueued := True\<rparr>) g)
           in (fst r, n # snd r)
      else enqueueFrontier skip ks g)"
  by (auto simp: eligible_def has_def Let_def split: option.splits prod.splits)

declare enqueueFrontier.simps(2) [simp del]

lemma enqueueFrontier_next:
  "distinct ks \<Longrightarrow> snd (enqueueFrontier skip ks g) = filter (eligible g skip) ks"
  by (induction ks arbitrary: g) (simp_all add: enqueueFrontier_Cons eligible_other Let_def)

lemma enqueueFrontier_keys [simp]:
  "keys_of (Vertices (fst (enqueueFrontier skip ks g))) = keys_of (Vertices g)"
  by (induction ks arbitrary: g) (simp_all add: enqueueFrontier_Cons Let_def)

lemma enqueueFrontier_seq [simp]: "seq (fst (enqueueFrontier skip ks g)) = seq g"
  by (induction ks arbitrary: g) (simp_all add: enqueueFrontier_Cons Let_def)

lemma enqueueFrontier_vertex:
  "distinct ks \<Longrightarrow> vertex (fst (enqueueFrontier skip ks g)) j =
      (if j \<in> set ks \<and> eligible g skip j
       then map_option (\<lambda>v. v\<lparr>vQueued := True\<rparr>) (vertex g j) else vertex g j)"
proof (induction ks arbitrary: g)
  case (Cons n ks)
  have "eligible (modifyVertex n f g) skip j = eligible g skip j" if "j \<in> set ks" for f
    using that Cons.prems by (auto simp: eligible_def has_def)
  with Cons show ?case by (auto simp: enqueueFrontier_Cons Let_def)
qed simp

lemma enqueueFrontier_freezes: "freezes g (fst (enqueueFrontier skip ks g))"
proof (induction ks arbitrary: g)
  case (Cons n ks)
  have "freezes g (modifyVertex n (\<lambda>v. v\<lparr>vQueued := True\<rparr>) g)"
    by (rule freezes_modify) (simp add: fz_def vshape_def resultview_def)
  also note Cons.IH
  finally show ?case using Cons.IH by (simp add: enqueueFrontier_Cons Let_def)
qed simp

definition withResult :: "actionResult \<Rightarrow> int \<Rightarrow> graphVertex \<Rightarrow> graphVertex" where
  "withResult res n v = v\<lparr>vInProgress := False, vConsumed := True, vOrder := n, vState := arState res,
     vExitCode := arExitCode res, vErr := arErr res, vForceKilled := arForceKilled res\<rparr>"

lemma recordResult_eq:
  "vertex (recordResult i res g) j =
     (if j = i then map_option (withResult res (seq g + 1)) (vertex g j) else vertex g j)"
  by (cases "vertex g i") (simp_all add: recordResult_def withResult_def)

lemma recordResult_keys [simp]: "keys_of (Vertices (recordResult i res g)) = keys_of (Vertices g)"
  by (simp add: recordResult_def)

lemma recordResult_seq [simp]: "seq (recordResult i res g) = seq g + 1"
  by (simp add: recordResult_def)

lemma recordResult_freezes:
  "vertex g i = Some v \<Longrightarrow> \<not> vConsumed v \<Longrightarrow> freezes g (recordResult i res g)"
  by (rule freezesI) (auto simp: recordResult_eq fz_def vshape_def withResult_def)

lemma complete_freezes:
  "vertex g i = Some v \<Longrightarrow> \<not> vConsumed v \<Longrightarrow> freezes g (fst (complete g i res dir ks))"
  unfolding complete_def using recordResult_freezes enqueueFrontier_freezes freezes_trans by blast

text \<open>\<open>finalize\<close>: every target the walk did not consume becomes blocked.\<close>

lemma finalizeVertex_keys [simp]:
  "keys_of (Vertices (finalizeVertex i g)) = keys_of (Vertices g)"
  by (simp add: finalizeVertex_def split: option.splits)

definition finalized :: "int \<Rightarrow> graphVertex \<Rightarrow> graphVertex" where
  "finalized n v = v\<lparr>vConsumed := True, vOrder := n, vBlocked := True,
     vErr := (case vErr v of
                None \<Rightarrow> Some (case vWaitReason v of None \<Rightarrow> UnsatisfiedConditions | Some r \<Rightarrow> r)
              | Some e \<Rightarrow> Some e)\<rparr>"

lemma finalizeVertex_vertex:
  "vertex (finalizeVertex i g) j =
     (if j = i \<and> target g i \<and> \<not> has vConsumed g i
      then map_option (finalized (seq g + 1)) (vertex g j) else vertex g j)"
  by (auto simp: finalizeVertex_def target_def has_def option.map_comp comp_def finalized_def
      split: option.splits)

lemma finalizeVertex_freezes: "freezes g (finalizeVertex i g)"
  by (rule freezesI)
    (auto simp: finalizeVertex_vertex fz_def vshape_def finalized_def has_def resultview_def)

lemma finalize_freezes: "freezes g (finalize g ks)"
  unfolding finalize_def
proof (induction ks arbitrary: g)
  case (Cons i ks)
  from finalizeVertex_freezes have "freezes g (finalizeVertex i g)" .
  also note Cons.IH
  finally show ?case by simp
qed simp

lemma finalizeVertex_target:
  assumes "target g i"
  shows "has (\<lambda>v. vConsumed v \<and> (vBlocked v \<longrightarrow> \<not> has vConsumed g i \<or> has vBlocked g i)) (finalizeVertex i g) i"
proof -
  from assms obtain v where v: "vertex g i = Some v" by (auto simp: target_def has_def)
  with assms show ?thesis
    by (cases "vConsumed v") (auto simp: finalizeVertex_vertex has_def finalized_def)
qed

lemma finalize_consumes:
  assumes "i \<in> set ks" and "target g i"
  shows "has vConsumed (finalize g ks) i"
  using assms
proof (induction ks arbitrary: g)
  case (Cons k ks)
  show ?case
  proof (cases "k = i")
    case True
    with finalizeVertex_target [OF Cons.prems(2)] have "has vConsumed (finalizeVertex k g) i"
      by (auto simp: has_def)
    with finalize_freezes [of "finalizeVertex k g" ks] show ?thesis
      by (auto simp: finalize_def intro: freezes_consumed)
  next
    case False
    with Cons freezes_target [OF finalizeVertex_freezes, of k g i] show ?thesis
      by (simp add: finalize_def)
  qed
qed simp

text \<open>A vertex \<open>finalize\<close> leaves with another view than before became blocked, with
  an error.\<close>

lemma finalize_vertex:
  assumes "vertex (finalize g ks) i = Some v'" and "vertex g i = Some v"
  shows "v' = v \<or> (target g i \<and> \<not> vConsumed v \<and> (\<exists>n. v' = finalized n v))"
  using assms
proof (induction ks arbitrary: g v)
  case (Cons k ks)
  let ?g = "finalizeVertex k g"
  have fin: "vertex (finalize ?g ks) i = Some v'" using Cons.prems by (simp add: finalize_def)
  show ?case
  proof (cases "k = i \<and> target g i \<and> \<not> has vConsumed g i")
    case True
    with Cons.prems(2) have "vertex ?g i = Some (finalized (seq g + 1) v)"
      by (simp add: finalizeVertex_vertex)
    from Cons.IH [OF fin this] True Cons.prems(2) show ?thesis by (auto simp: finalized_def)
  next
    case False
    with Cons.prems(2) have "vertex ?g i = Some v" by (auto simp: finalizeVertex_vertex)
    from Cons.IH [OF fin this] freezes_target [OF finalizeVertex_freezes] show ?thesis by auto
  qed
qed (simp add: finalize_def)

end
