(* ===== verification/Reconcile_Walk.thy ===== *)
theory Reconcile_Walk
  imports Reconcile_Ops
begin

text \<open>
  The concurrent walk of the reconcile graph (\<^verbatim>\<open>walk\<close> and \<^verbatim>\<open>step\<close> of
  cmdman/compose/reconcile.go) as a step relation. A state holds the graph, the
  buffered work channel, and the program point of each worker goroutine; one step is
  one locked section, one channel operation or one context check of one worker, so
  every interleaving of the goroutines is a run. What an action reports is chosen by
  the relation \<open>act\<close>, a parameter.
\<close>

section \<open>Workers and steps\<close>

text \<open>Program points of the loop of a worker.\<close>

datatype worker =
    Waiting                      \<comment> \<open>in the outer \<^verbatim>\<open>select\<close>\<close>
  | Received vertexID            \<comment> \<open>took a vertex off the channel, before \<^verbatim>\<open>claim\<close>\<close>
  | Acting vertexID              \<comment> \<open>claimed it, running the action\<close>
  | Sending "vertexID list"      \<comment> \<open>sending the rest of the frontier\<close>
  | Finishing                    \<comment> \<open>saw \<^verbatim>\<open>done()\<close>, before \<^verbatim>\<open>finalize\<close>\<close>
  | Cancelling                   \<comment> \<open>after \<^verbatim>\<open>finalize\<close>, before \<^verbatim>\<open>cancel\<close>\<close>
  | Exited

record walkState =
  wGraph :: reconcileGraph
  wChan :: "vertexID list"
  wCap :: nat
  wWorkers :: "worker list"
  wCancelled :: bool             \<comment> \<open>\<^verbatim>\<open>workCtx\<close> is done\<close>
  wOutside :: bool               \<comment> \<open>the caller's context ended it\<close>

definition setWorker :: "nat \<Rightarrow> worker \<Rightarrow> walkState \<Rightarrow> walkState" where
  "setWorker k w s = s\<lparr>wWorkers := (wWorkers s)[k := w]\<rparr>"

abbreviation workerAt :: "walkState \<Rightarrow> nat \<Rightarrow> worker \<Rightarrow> bool" where
  "workerAt s k w \<equiv> k < length (wWorkers s) \<and> wWorkers s ! k = w"

text \<open>\<open>ks\<close> is a visiting order of the map with keys \<open>xs\<close>.\<close>

definition visits :: "'a list \<Rightarrow> 'a list \<Rightarrow> bool" where
  "visits ks xs \<longleftrightarrow> distinct ks \<and> set ks = set xs"

definition readyOrder :: "reconcileGraph \<Rightarrow> vertexID \<Rightarrow> walkDirection \<Rightarrow> vertexID list \<Rightarrow> bool" where
  "readyOrder g i dir ks \<longleftrightarrow> (\<forall>v. vertex g i = Some v \<longrightarrow> visits ks (readinessKeys v dir))"

definition frontierOrder :: "reconcileGraph \<Rightarrow> vertexID \<Rightarrow> walkDirection \<Rightarrow> vertexID list \<Rightarrow> bool" where
  "frontierOrder g i dir ks \<longleftrightarrow> (\<forall>v. vertex g i = Some v \<longrightarrow> visits ks (frontierKeys v dir))"

inductive walk_step ::
  "(vertexID \<Rightarrow> actionResult \<Rightarrow> bool) \<Rightarrow> walkDirection \<Rightarrow> walkState \<Rightarrow> walkState \<Rightarrow> bool"
  for act dir where
  receive: "workerAt s k Waiting \<Longrightarrow> wChan s = i # rest \<Longrightarrow>
     walk_step act dir s ((setWorker k (Received i) s)\<lparr>wChan := rest\<rparr>)"
| leave: "workerAt s k Waiting \<Longrightarrow> wCancelled s \<Longrightarrow> walk_step act dir s (setWorker k Exited s)"
| claim_ready: "workerAt s k (Received i) \<Longrightarrow> readyOrder (wGraph s) i dir ks \<Longrightarrow>
     claim (wGraph s) i dir ks = (g', stepReady) \<Longrightarrow>
     walk_step act dir s ((setWorker k (Acting i) s)\<lparr>wGraph := g'\<rparr>)"
| claim_other: "workerAt s k (Received i) \<Longrightarrow> readyOrder (wGraph s) i dir ks \<Longrightarrow>
     claim (wGraph s) i dir ks = (g', st) \<Longrightarrow> st \<noteq> stepReady \<Longrightarrow>
     walk_step act dir s ((setWorker k (Sending []) s)\<lparr>wGraph := g'\<rparr>)"
| completed: "workerAt s k (Acting i) \<Longrightarrow> act i res \<Longrightarrow> frontierOrder (wGraph s) i dir ks \<Longrightarrow>
     complete (wGraph s) i res dir ks = (g', nxt) \<Longrightarrow>
     walk_step act dir s ((setWorker k (Sending nxt) s)\<lparr>wGraph := g'\<rparr>)"
| send: "workerAt s k (Sending (n # ns)) \<Longrightarrow> length (wChan s) < wCap s \<Longrightarrow>
     walk_step act dir s ((setWorker k (Sending ns) s)\<lparr>wChan := wChan s @ [n]\<rparr>)"
| send_cancelled: "workerAt s k (Sending (n # ns)) \<Longrightarrow> wCancelled s \<Longrightarrow>
     walk_step act dir s (setWorker k Exited s)"
| not_done: "workerAt s k (Sending []) \<Longrightarrow> \<not> allDone (wGraph s) \<Longrightarrow>
     walk_step act dir s (setWorker k Waiting s)"
| see_done: "workerAt s k (Sending []) \<Longrightarrow> allDone (wGraph s) \<Longrightarrow>
     walk_step act dir s (setWorker k Finishing s)"
| finalizing: "workerAt s k Finishing \<Longrightarrow> visits ks (keys_of (Vertices (wGraph s))) \<Longrightarrow>
     walk_step act dir s ((setWorker k Cancelling s)\<lparr>wGraph := finalize (wGraph s) ks\<rparr>)"
| cancelling: "workerAt s k Cancelling \<Longrightarrow>
     walk_step act dir s ((setWorker k Exited s)\<lparr>wCancelled := True\<rparr>)"
| cancelled_outside: "\<not> wOutside s \<Longrightarrow>
     walk_step act dir s (s\<lparr>wCancelled := True, wOutside := True\<rparr>)"

text \<open>The state in which the workers start: the seeds are queued and in the channel,
  and \<open>limit\<close> workers (at least one) wait. \<^verbatim>\<open>walk\<close> starts workers only when the
  seeded graph is not done.\<close>

definition walkInit :: "reconcileGraph \<Rightarrow> walkDirection \<Rightarrow> int \<Rightarrow> walkState" where
  "walkInit g dir limit =
     \<lparr> wGraph = fst (seed g dir), wChan = snd (seed g dir), wCap = max (commandCount g) 1,
       wWorkers = replicate (nat (if limit < 1 then 1 else limit)) Waiting,
       wCancelled = False, wOutside = False \<rparr>"

inductive walk_reach ::
  "(vertexID \<Rightarrow> actionResult \<Rightarrow> bool) \<Rightarrow> walkDirection \<Rightarrow> walkState \<Rightarrow> walkState \<Rightarrow> bool"
  for act dir s0 where
  start: "walk_reach act dir s0 s0"
| step: "walk_reach act dir s0 s \<Longrightarrow> walk_step act dir s t \<Longrightarrow> walk_reach act dir s0 t"

text \<open>Graphs as \<^verbatim>\<open>buildReconcileGraph\<close> makes them, before any walk.\<close>

definition graph_wf :: "reconcileGraph \<Rightarrow> bool" where
  "graph_wf g \<longleftrightarrow>
     distinct (keys_of (Vertices g)) \<and>
     (\<forall>i v. vertex g i = Some v \<longrightarrow>
        vID v = i \<and> distinct (keys_of (vParents v)) \<and> distinct (keys_of (vChildren v)) \<and>
        (vInClosure v \<longrightarrow> vCommand v \<noteq> None) \<and>
        (vInClosure v \<longrightarrow> i \<noteq> beginVertex \<and> i \<noteq> endVertex)) \<and>
     (\<forall>i v j w. vertex g i = Some v \<longrightarrow> vertex g j = Some w \<longrightarrow> vInClosure v \<longrightarrow> vInClosure w \<longrightarrow>
        (j \<in> set (keys_of (vChildren v)) \<longleftrightarrow> i \<in> set (keys_of (vParents w))))"

definition graph_fresh :: "reconcileGraph \<Rightarrow> bool" where
  "graph_fresh g \<longleftrightarrow> seq g = 0 \<and>
     (\<forall>i v. vertex g i = Some v \<longrightarrow> \<not> vQueued v \<and> \<not> vInProgress v \<and> \<not> vConsumed v \<and> \<not> vBlocked v \<and>
        vErr v = None \<and> vOrder v = 0)"

section \<open>Counting work\<close>

fun wPend :: "worker \<Rightarrow> vertexID list" where
  "wPend (Received i) = [i]"
| "wPend (Sending ns) = ns"
| "wPend _ = []"

fun wAct :: "worker \<Rightarrow> vertexID list" where
  "wAct (Acting i) = [i]"
| "wAct _ = []"

definition pcount :: "walkState \<Rightarrow> vertexID \<Rightarrow> nat" where
  "pcount s i = count_list (wChan s) i + (\<Sum>w\<leftarrow>wWorkers s. count_list (wPend w) i)"

definition acount :: "walkState \<Rightarrow> vertexID \<Rightarrow> nat" where
  "acount s i = (\<Sum>w\<leftarrow>wWorkers s. count_list (wAct w) i)"

lemma sum_list_map_update:
  "k < length ws \<Longrightarrow> (\<Sum>w\<leftarrow>ws[k := w']. (f w :: nat)) + f (ws ! k) = (\<Sum>w\<leftarrow>ws. f w) + f w'"
proof (induction ws arbitrary: k)
  case (Cons x ws)
  then show ?case by (cases k) auto
qed simp

lemma setWorker_simps [simp]:
  "wGraph (setWorker k w s) = wGraph s" "wChan (setWorker k w s) = wChan s"
  "wCap (setWorker k w s) = wCap s" "wCancelled (setWorker k w s) = wCancelled s"
  "wOutside (setWorker k w s) = wOutside s"
  "wWorkers (setWorker k w s) = (wWorkers s)[k := w]"
  by (simp_all add: setWorker_def)

section \<open>The invariant of the graph\<close>

text \<open>Facts every vertex keeps: a queued or in-progress vertex is an unconsumed target,
  a blocked one is consumed with an error, an action runs or ran only on a vertex
  whose edges are all satisfied, and an idle target has an unsatisfied edge (so no
  wake-up was lost).\<close>

definition vertex_inv :: "walkDirection \<Rightarrow> reconcileGraph \<Rightarrow> graphVertex \<Rightarrow> bool" where
  "vertex_inv dir g v \<longleftrightarrow>
     (vQueued v \<longrightarrow> vInClosure v \<and> \<not> vConsumed v \<and> \<not> vInProgress v) \<and>
     (vInProgress v \<longrightarrow> vInClosure v \<and> \<not> vConsumed v) \<and>
     (vBlocked v \<longrightarrow> vConsumed v \<and> vErr v \<noteq> None) \<and>
     (vInProgress v \<or> vConsumed v \<and> \<not> vBlocked v \<longrightarrow> edge_ok g dir v) \<and>
     (vInClosure v \<and> \<not> vConsumed v \<and> \<not> vQueued v \<and> \<not> vInProgress v \<longrightarrow> \<not> edge_ok g dir v)"

definition allConsumed :: "reconcileGraph \<Rightarrow> bool" where
  "allConsumed g \<longleftrightarrow> (\<forall>i. target g i \<longrightarrow> has vConsumed g i)"

text \<open>How consumption orders vertices: the in-closure neighbours of a vertex that was
  acted on were acted on before it.\<close>

definition order_inv :: "walkDirection \<Rightarrow> reconcileGraph \<Rightarrow> graphVertex \<Rightarrow> bool" where
  "order_inv dir g v \<longleftrightarrow>
     (vConsumed v \<and> \<not> vBlocked v \<longrightarrow> 0 < vOrder v \<and> vOrder v \<le> seq g) \<and>
     (\<forall>j \<in> neighbours v dir. \<forall>c. vertex g j = Some c \<longrightarrow> vInClosure c \<longrightarrow>
        (vInProgress v \<longrightarrow> vConsumed c \<and> \<not> vBlocked c) \<and>
        (vConsumed v \<and> \<not> vBlocked v \<longrightarrow> vConsumed c \<and> \<not> vBlocked c \<and> vOrder c < vOrder v))"

definition ginv :: "walkDirection \<Rightarrow> reconcileGraph \<Rightarrow> bool" where
  "ginv dir g \<longleftrightarrow> graph_wf g \<and> 0 \<le> seq g \<and>
     (\<forall>i v. vertex g i = Some v \<longrightarrow> vertex_inv dir g v \<and> order_inv dir g v) \<and>
     (dir = walkFromEnd \<longrightarrow> (\<exists>i. has vBlocked g i) \<longrightarrow> allConsumed g)"

lemma graph_wf_vertex:
  assumes "graph_wf g" and "vertex g i = Some v"
  shows "vID v = i" "distinct (keys_of (vParents v))" "distinct (keys_of (vChildren v))"
    "vInClosure v \<Longrightarrow> vCommand v \<noteq> None" "vInClosure v \<Longrightarrow> i \<noteq> beginVertex"
    "vInClosure v \<Longrightarrow> i \<noteq> endVertex"
  using assms unfolding graph_wf_def by blast+

lemma graph_wf_target: "graph_wf g \<Longrightarrow> target g i \<longleftrightarrow> has vInClosure g i"
  by (auto simp: target_def has_def dest: graph_wf_vertex(4))

lemma graph_wf_freezes:
  assumes "graph_wf g" and fr: "freezes g g'"
  shows "graph_wf g'"
  unfolding graph_wf_def
proof (intro conjI allI impI)
  show "distinct (keys_of (Vertices g'))" using assms by (simp add: graph_wf_def freezes_keys [OF fr])
next
  fix i v assume v: "vertex g' i = Some v"
  from freezes_Some [OF fr v] obtain u where u: "vertex g i = Some u" "fz u v" .
  note sel = shape_sel [OF fz_shape [OF u(2)]] and wf = graph_wf_vertex [OF assms(1) u(1)]
  show "vID v = i" "distinct (keys_of (vParents v))" "distinct (keys_of (vChildren v))"
    using sel wf by simp_all
  show "vCommand v \<noteq> None" "i \<noteq> beginVertex" "i \<noteq> endVertex" if "vInClosure v"
    using that sel wf by simp_all
next
  fix i v j w
  assume v: "vertex g' i = Some v" and w: "vertex g' j = Some w" and c: "vInClosure v" "vInClosure w"
  from freezes_Some [OF fr v] obtain u where u: "vertex g i = Some u" "fz u v" .
  from freezes_Some [OF fr w] obtain x where x: "vertex g j = Some x" "fz x w" .
  from assms(1) u(1) x(1) c shape_sel [OF fz_shape [OF u(2)]] shape_sel [OF fz_shape [OF x(2)]]
  show "(j \<in> set (keys_of (vChildren v))) = (i \<in> set (keys_of (vParents w)))"
    unfolding graph_wf_def by (metis (no_types, lifting))
qed

lemma ginvD:
  assumes "ginv dir g" and "vertex g i = Some v"
  shows "vertex_inv dir g v" and "order_inv dir g v"
  using assms by (auto simp: ginv_def)

text \<open>A neighbour seen from its other end: the vertices whose readiness reads \<open>i\<close> are in
  the frontier of \<open>i\<close>.\<close>

lemma neighbour_frontier:
  assumes wf: "graph_wf g" and i: "vertex g i = Some v" "vInClosure v"
    and j: "vertex g j = Some w" "vInClosure w" and nb: "i \<in> neighbours w dir"
  shows "j \<in> set (frontierKeys v dir) \<and> j \<noteq> skipVertex dir"
proof -
  have "j \<noteq> beginVertex" "j \<noteq> endVertex" using graph_wf_vertex(5,6) [OF wf j(1)] j(2) by auto
  moreover have "j \<in> set (frontierKeys v dir)"
    using wf i j nb unfolding graph_wf_def
    by (cases dir) (auto simp: neighbours_def readinessKeys_def frontierKeys_def)
  ultimately show ?thesis by (cases dir) (simp_all add: skipVertex_def)
qed

text \<open>A satisfied in-closure neighbour was acted on, unless the walk was finalized.\<close>

lemma edge_sat_acted:
  assumes "ginv dir g" and "edge_sat g dir v j" and "vertex g j = Some c" "vInClosure c"
    and "\<not> allConsumed g"
  shows "vConsumed c \<and> \<not> vBlocked c"
proof (cases dir)
  case walkFromBegin
  with assms(2-4) evalDown_consumed show ?thesis by (auto simp: edge_sat_def)
next
  case walkFromEnd
  with assms(1,3,5) have "\<not> vBlocked c" by (auto simp: ginv_def has_def)
  with edge_sat_consumed [OF assms(2-4)] show ?thesis by simp
qed

lemma edge_ok_same_eval:
  assumes "\<And>j. map_option evalview (vertex g' j) = map_option evalview (vertex g j)"
    and "vshape v' = vshape v"
  shows "edge_ok g' dir v' = edge_ok g dir v"
  using edge_ok_cong [OF assms(2)] assms(1) by blast

lemma order_inv_freezes:
  assumes fr: "freezes g g'" and sq: "seq g \<le> seq g'" and o: "order_inv dir g v"
    and v': "fz v v'" "vInProgress v' \<Longrightarrow> vInProgress v"
      "vConsumed v' \<and> \<not> vBlocked v' \<Longrightarrow> vConsumed v"
  shows "order_inv dir g' v'"
  unfolding order_inv_def
proof (intro conjI ballI allI impI)
  have act: "vConsumed v \<and> \<not> vBlocked v \<and> vOrder v' = vOrder v" if "vConsumed v' \<and> \<not> vBlocked v'"
    using result_sel [OF fz_result [OF v'(1)]] v'(3) that by simp
  show "0 < vOrder v'" "vOrder v' \<le> seq g'" if "vConsumed v' \<and> \<not> vBlocked v'"
    using act [OF that] o sq by (auto simp: order_inv_def)
  fix j c
  assume j: "j \<in> neighbours v' dir" and c: "vertex g' j = Some c" "vInClosure c"
  from freezes_Some [OF fr c(1)] obtain d where d: "vertex g j = Some d" "fz d c" .
  with c(2) shape_sel [OF fz_shape [OF d(2)]] have dC: "vInClosure d" by simp
  have jn: "j \<in> neighbours v dir" using j neighbours_shape [OF fz_shape [OF v'(1)]] by simp
  note res = result_sel [OF fz_result [OF d(2)]]
  show "vConsumed c" "\<not> vBlocked c" if "vInProgress v'"
    using v'(2) [OF that] o d(1) dC jn res by (auto simp: order_inv_def)
  show "vConsumed c" "\<not> vBlocked c" "vOrder c < vOrder v'" if "vConsumed v' \<and> \<not> vBlocked v'"
    using act [OF that] o d(1) dC jn res by (auto simp: order_inv_def)
qed

lemma vertex_inv_other:
  assumes "vertex_inv dir g w" and "freezes g g'"
    and "edge_ok g' dir w \<Longrightarrow> \<not> vConsumed w \<Longrightarrow> \<not> vQueued w \<Longrightarrow> \<not> vInProgress w \<Longrightarrow> vInClosure w \<Longrightarrow>
           edge_ok g dir w"
  shows "vertex_inv dir g' w"
  using assms edge_ok_freezes [OF assms(2), of dir w w] unfolding vertex_inv_def by blast

lemma allConsumed_freezes: "freezes g g' \<Longrightarrow> allConsumed g \<Longrightarrow> allConsumed g'"
  by (auto simp: allConsumed_def freezes_target intro: freezes_consumed)

lemma ginv_frame:
  assumes inv: "ginv dir g" and fr: "freezes g g'" and sq: "seq g \<le> seq g'"
    and blk: "dir = walkFromEnd \<Longrightarrow> \<exists>i. has vBlocked g' i \<Longrightarrow> allConsumed g'"
    and one: "\<And>v'. vertex g' i = Some v' \<Longrightarrow> vertex_inv dir g' v' \<and> order_inv dir g' v'"
    and others: "\<And>j w w'. j \<noteq> i \<Longrightarrow> vertex g j = Some w \<Longrightarrow> vertex g' j = Some w' \<Longrightarrow>
       vertex_inv dir g' w' \<and> (vInProgress w' \<longrightarrow> vInProgress w) \<and>
       (vConsumed w' \<and> \<not> vBlocked w' \<longrightarrow> vConsumed w)"
  shows "ginv dir g'"
  unfolding ginv_def
proof (intro conjI allI impI)
  show "graph_wf g'" using inv fr graph_wf_freezes by (auto simp: ginv_def)
  show "0 \<le> seq g'" using inv sq by (simp add: ginv_def)
  show "allConsumed g'" if "dir = walkFromEnd" "\<exists>i. has vBlocked g' i" using blk that by blast
  fix j w' assume w': "vertex g' j = Some w'"
  from freezes_Some [OF fr w'] obtain w where w: "vertex g j = Some w" "fz w w'" .
  show "vertex_inv dir g' w'" using one others w w' by (cases "j = i") blast+
  show "order_inv dir g' w'"
  proof (cases "j = i")
    case True
    with one w' show ?thesis by blast
  next
    case False
    from others [OF False w(1) w'] have "vInProgress w' \<longrightarrow> vInProgress w"
      "vConsumed w' \<and> \<not> vBlocked w' \<longrightarrow> vConsumed w" by auto
    with order_inv_freezes [OF fr sq ginvD(2) [OF inv w(1)] w(2)] show ?thesis by blast
  qed
qed

text \<open>A change of one unconsumed vertex that its neighbours cannot see.\<close>

lemma ginv_local:
  assumes inv: "ginv dir g" and v: "vertex g i = Some v" and nall: "\<not> allConsumed g"
    and sh: "vshape (f v) = vshape v" and rs: "resultview (f v) = resultview v"
    and vi: "\<And>g'. edge_ok g' dir (f v) = edge_ok g dir v \<Longrightarrow> vertex_inv dir g' (f v)"
    and oi: "order_inv dir g (f v)"
  shows "ginv dir (modifyVertex i f g)" (is "ginv dir ?g")
proof -
  have fr: "freezes g ?g" using v sh rs by (intro freezes_modify) (simp add: fz_def)
  have ev: "map_option evalview (vertex ?g j) = map_option evalview (vertex g j)" for j
    using v shape_sel [OF sh] result_sel [OF rs] by (simp add: evalview_def)
  have same: "edge_ok ?g dir w' = edge_ok g dir w" if "vshape w' = vshape w" for w w'
    by (rule edge_ok_same_eval [OF ev that])
  show ?thesis
  proof (rule ginv_frame [OF inv fr, of i])
    show "seq g \<le> seq ?g" by simp
    show "allConsumed ?g" if "dir = walkFromEnd" "\<exists>i. has vBlocked ?g i"
      using that inv nall v result_sel(2) [OF rs] by (auto simp: ginv_def has_def split: if_splits)
    fix v' assume "vertex ?g i = Some v'"
    with v have [simp]: "v' = f v" by simp
    have "order_inv dir ?g (f v)"
      by (rule order_inv_freezes [OF fr _ oi]) simp_all
    with vi [OF same [OF sh]] show "vertex_inv dir ?g v' \<and> order_inv dir ?g v'" by simp
  next
    fix j w w' assume "j \<noteq> i" "vertex g j = Some w" "vertex ?g j = Some w'"
    moreover from this have "w' = w" by simp
    ultimately show "vertex_inv dir ?g w' \<and> (vInProgress w' \<longrightarrow> vInProgress w) \<and>
        (vConsumed w' \<and> \<not> vBlocked w' \<longrightarrow> vConsumed w)"
      using vertex_inv_other [OF ginvD(1) [OF inv] fr] same by blast
  qed
qed

lemma ginv_claim_ready:
  assumes inv: "ginv dir g" and v: "vertex g i = Some v" and nall: "\<not> allConsumed g"
    and vC: "vInClosure v" "\<not> vConsumed v" "\<not> vBlocked v" and ok: "edge_ok g dir v"
  shows "ginv dir (modifyVertex i (\<lambda>v. v\<lparr>vQueued := False, vInProgress := True\<rparr>) g)"
proof (rule ginv_local [OF inv v nall])
  let ?v = "v\<lparr>vQueued := False, vInProgress := True\<rparr>"
  show sh: "vshape ?v = vshape v" by (simp add: vshape_def)
  show "resultview ?v = resultview v" by (simp add: resultview_def)
  show "vertex_inv dir g' ?v" if "edge_ok g' dir ?v = edge_ok g dir v" for g'
    using that vC ok by (simp add: vertex_inv_def)
  have "vConsumed c \<and> \<not> vBlocked c" if "j \<in> neighbours v dir" "vertex g j = Some c" "vInClosure c" for j c
    using edge_sat_acted [OF inv _ that(2,3) nall, of v] ok that(1) by (simp add: edge_ok_def)
  then show "order_inv dir g ?v" using vC neighbours_shape [OF sh] by (simp add: order_inv_def)
qed

lemma ginv_claim_pending:
  assumes inv: "ginv dir g" and v: "vertex g i = Some v" and nall: "\<not> allConsumed g"
    and vC: "vInClosure v" "\<not> vConsumed v" "\<not> vInProgress v" "\<not> vBlocked v" and nok: "\<not> edge_ok g dir v"
  shows "ginv dir (modifyVertex i (\<lambda>v. v\<lparr>vQueued := False, vWaitReason := r\<rparr>) g)"
proof (rule ginv_local [OF inv v nall])
  let ?v = "v\<lparr>vQueued := False, vWaitReason := r\<rparr>"
  show "vshape ?v = vshape v" by (simp add: vshape_def)
  show "resultview ?v = resultview v" by (simp add: resultview_def)
  show "vertex_inv dir g' ?v" if "edge_ok g' dir ?v = edge_ok g dir v" for g'
    using that vC nok by (simp add: vertex_inv_def)
  show "order_inv dir g ?v" using vC by (simp add: order_inv_def)
qed

lemma ginv_claim_blocked:
  assumes inv: "ginv walkFromBegin g" and v: "vertex g i = Some v"
    and vC: "vInClosure v" "\<not> vConsumed v" "\<not> vInProgress v"
    and f: "f v = v\<lparr>vQueued := False, vConsumed := True, vBlocked := True, vWaitReason := Some r, vErr := Some e\<rparr>"
  shows "ginv walkFromBegin (modifyVertex i f g)" (is "ginv _ ?g")
proof -
  have fr: "freezes g ?g" using v vC f by (intro freezes_modify) (simp add: fz_def vshape_def)
  have unsat: "\<not> edge_sat ?g walkFromBegin w i" for w
    using v vC f by (simp add: edge_sat_def evalDownEdgeLocked_def)
  show ?thesis
  proof (rule ginv_frame [OF inv fr, of i])
    show "vertex_inv walkFromBegin ?g u \<and> order_inv walkFromBegin ?g u" if "vertex ?g i = Some u" for u
      using that v f vC by (auto simp: vertex_inv_def order_inv_def)
  next
    fix j w w' assume j: "j \<noteq> i" "vertex g j = Some w" "vertex ?g j = Some w'"
    then have [simp]: "w' = w" by simp
    have "edge_ok g walkFromBegin w" if "edge_ok ?g walkFromBegin w"
    proof -
      from that unsat have "i \<notin> neighbours w walkFromBegin" by (auto simp: edge_ok_def)
      then have "edge_ok ?g walkFromBegin w = edge_ok g walkFromBegin w"
        by (intro edge_ok_cong refl) auto
      with that show ?thesis by simp
    qed
    then show "vertex_inv walkFromBegin ?g w' \<and> (vInProgress w' \<longrightarrow> vInProgress w) \<and>
        (vConsumed w' \<and> \<not> vBlocked w' \<longrightarrow> vConsumed w)"
      using vertex_inv_other [OF ginvD(1) [OF inv j(2)] fr] by simp
  qed simp_all
qed

lemma queued_target:
  assumes inv: "ginv dir g" and v: "vertex g i = Some v"
    and "vQueued v \<or> vInProgress v"
  shows "vInClosure v" "\<not> vConsumed v" "\<not> vBlocked v" "\<not> allConsumed g" "vCommand v \<noteq> None"
proof -
  from ginvD(1) [OF inv v] assms(3) show vC: "vInClosure v" "\<not> vConsumed v" "\<not> vBlocked v"
    by (auto simp: vertex_inv_def)
  have wf: "graph_wf g" using inv by (simp add: ginv_def)
  show "vCommand v \<noteq> None" using graph_wf_vertex(4) [OF wf v] vC by simp
  have "target g i" "\<not> has vConsumed g i" using v vC wf by (simp_all add: graph_wf_target)
  then show "\<not> allConsumed g" by (auto simp: allConsumed_def)
qed

lemma ginv_claim:
  assumes inv: "ginv dir g" and q: "has vQueued g i" and ord: "readyOrder g i dir ks"
    and cl: "claim g i dir ks = (g', st)"
  shows "ginv dir g'" and "st \<noteq> stepSkip"
proof -
  from q obtain v where v: "vertex g i = Some v" "vQueued v" by (auto elim: hasE)
  note vC = queued_target [OF inv v(1) disjI1, OF v(2)]
  have np: "\<not> vInProgress v" using ginvD(1) [OF inv v(1)] v(2) by (simp add: vertex_inv_def)
  have keys: "set ks = set (readinessKeys v dir)" using ord v(1) by (simp add: readyOrder_def visits_def)
  note ready = readinessLocked_iff [OF keys, of g]
  show ns: "st \<noteq> stepSkip" using claim_skip [OF v(1) vC(5) vC(1,2) np, of dir ks] cl by simp
  from cl ns show "ginv dir g'"
  proof (cases rule: claim_cases)
    case (1 v1)
    with ginv_claim_ready [OF inv v(1) vC(4,1,2,3)] v ready show ?thesis by simp
  next
    case (2 v1 r)
    with ginv_claim_pending [OF inv v(1) vC(4,1,2) np vC(3)] v ready show ?thesis by simp
  next
    case (3 v1 r)
    with v readinessLocked_up [of g v ks] have dir: "dir = walkFromBegin" by (cases dir) auto
    obtain e where "(case vErr v of None \<Rightarrow> Some r | Some e \<Rightarrow> Some e) = Some e"
      by (cases "vErr v") auto
    with 3 v ginv_claim_blocked [OF inv [unfolded dir] v(1) vC(1,2) np] show ?thesis
      unfolding dir by simp
  qed
qed

text \<open>Completing an action: the vertex gets its result, and every idle vertex whose
  readiness reads it is queued.\<close>

lemma complete_vertex:
  assumes "complete g i res dir ks = (g', nxt)" and "distinct ks"
  shows "nxt = filter (eligible (recordResult i res g) (skipVertex dir)) ks"
    and "vertex g' j =
      (let g1 = recordResult i res g in
       if j \<in> set ks \<and> eligible g1 (skipVertex dir) j
       then map_option (\<lambda>v. v\<lparr>vQueued := True\<rparr>) (vertex g1 j) else vertex g1 j)"
    and "seq g' = seq g + 1" and "keys_of (Vertices g') = keys_of (Vertices g)"
  using assms enqueueFrontier_next [of ks "skipVertex dir" "recordResult i res g"]
    enqueueFrontier_vertex [of ks "skipVertex dir" "recordResult i res g" j]
    enqueueFrontier_seq [of "skipVertex dir" ks "recordResult i res g"]
    enqueueFrontier_keys [of "skipVertex dir" ks "recordResult i res g"]
  by (auto simp: complete_def Let_def)

lemma complete_self:
  assumes "complete g i res dir ks = (g', nxt)" and "distinct ks" and "vertex g i = Some v"
  shows "vertex g' i = Some (withResult res (seq g + 1) v)"
  using complete_vertex(2) [OF assms(1,2), of i] assms(3)
  by (simp add: recordResult_eq eligible_def withResult_def)

lemma eligible_record: "j \<noteq> i \<Longrightarrow> eligible (recordResult i res g) sk j = eligible g sk j"
  by (simp add: eligible_def has_def recordResult_eq)

lemma complete_other:
  assumes "complete g i res dir ks = (g', nxt)" and "distinct ks" and "j \<noteq> i"
  shows "vertex g' j = (if j \<in> set ks \<and> eligible g (skipVertex dir) j
       then map_option (\<lambda>v. v\<lparr>vQueued := True\<rparr>) (vertex g j) else vertex g j)"
  using complete_vertex(2) [OF assms(1,2), of j] assms(3)
  by (simp add: Let_def recordResult_eq eligible_record)

lemma complete_other_Some:
  assumes "complete g i res dir ks = (g', nxt)" and "distinct ks" and "j \<noteq> i"
    and "vertex g j = Some w" and "vertex g' j = Some w'"
  shows "w' = w \<and> \<not> (j \<in> set ks \<and> eligible g (skipVertex dir) j) \<or>
         w' = w\<lparr>vQueued := True\<rparr> \<and> vInClosure w \<and> \<not> vConsumed w \<and> \<not> vInProgress w"
  using complete_other [OF assms(1-3)] assms(4,5) by (auto simp: eligible_def split: if_splits)

lemma complete_self_inv:
  assumes inv: "ginv dir g" and p: "vertex g i = Some v" "vInProgress v" and fr: "freezes g g'"
    and sq: "seq g' = seq g + 1"
  shows "vertex_inv dir g' (withResult res (seq g + 1) v) \<and> order_inv dir g' (withResult res (seq g + 1) v)"
    (is "vertex_inv dir g' ?v \<and> _")
proof
  note vC = queued_target [OF inv p(1) disjI2, OF p(2)]
  have ok: "edge_ok g dir v" and nb: "\<And>j c. j \<in> neighbours v dir \<Longrightarrow> vertex g j = Some c \<Longrightarrow>
      vInClosure c \<Longrightarrow> vConsumed c \<and> \<not> vBlocked c"
    and nq: "\<not> vQueued v"
    using ginvD [OF inv p(1)] p(2) by (auto simp: vertex_inv_def order_inv_def)
  have sh: "vshape ?v = vshape v" by (simp add: vshape_def withResult_def)
  show "vertex_inv dir g' ?v"
    using edge_ok_freezes [OF fr ok sh] vC nq by (simp add: vertex_inv_def withResult_def)
  show "order_inv dir g' ?v"
    unfolding order_inv_def
  proof (intro conjI ballI allI impI)
    have "0 \<le> seq g" using inv by (simp add: ginv_def)
    then show "0 < vOrder ?v" "vOrder ?v \<le> seq g'" using sq by (simp_all add: withResult_def)
    fix j c assume j: "j \<in> neighbours ?v dir" and c: "vertex g' j = Some c" "vInClosure c"
    from freezes_Some [OF fr c(1)] obtain d where d: "vertex g j = Some d" "fz d c" .
    then have dC: "vConsumed d" "\<not> vBlocked d" "vInClosure d"
      using nb [of j d] j c(2) neighbours_shape [OF sh] shape_sel [OF fz_shape [OF d(2)]] by auto
    note r = result_sel [OF fz_result [OF d(2) dC(1)]]
    show "vConsumed c" "\<not> vBlocked c" "vConsumed c" "\<not> vBlocked c" using r dC by simp_all
    have "vOrder d \<le> seq g" using ginvD(2) [OF inv d(1)] dC by (simp add: order_inv_def)
    then show "vOrder c < vOrder ?v" using r by (simp add: withResult_def)
  qed
qed

lemma complete_other_inv:
  assumes inv: "ginv dir g" and p: "vertex g i = Some v" "vInProgress v" and fr: "freezes g g'"
    and ks: "distinct ks" "set ks = set (frontierKeys v dir)"
    and co: "complete g i res dir ks = (g', nxt)"
    and j: "j \<noteq> i" "vertex g j = Some w" "vertex g' j = Some w'"
  shows "vertex_inv dir g' w'"
  using complete_other_Some [OF co ks(1) j]
proof
  have wf: "graph_wf g" using inv by (simp add: ginv_def)
  assume w: "w' = w \<and> \<not> (j \<in> set ks \<and> eligible g (skipVertex dir) j)"
  have "edge_ok g dir w" if e: "edge_ok g' dir w" and
    idle: "\<not> vConsumed w" "\<not> vQueued w" "\<not> vInProgress w" "vInClosure w"
  proof -
    have "i \<notin> neighbours w dir"
      using w neighbour_frontier [OF wf p(1) queued_target(1) [OF inv p(1) disjI2, OF p(2)] j(2) idle(4)]
        idle j(2) ks(2) by (auto simp: eligible_def)
    moreover have "map_option evalview (vertex g' k) = map_option evalview (vertex g k)" if "k \<noteq> i" for k
      using complete_other [OF co ks(1) that] by (cases "vertex g k") (simp_all add: evalview_def)
    ultimately have "edge_ok g' dir w = edge_ok g dir w"
      by (intro edge_ok_cong refl) metis
    with e show ?thesis by simp
  qed
  with w show ?thesis using vertex_inv_other [OF ginvD(1) [OF inv j(2)] fr] by simp
next
  assume "w' = w\<lparr>vQueued := True\<rparr> \<and> vInClosure w \<and> \<not> vConsumed w \<and> \<not> vInProgress w"
  with ginvD(1) [OF inv j(2)] show ?thesis by (auto simp: vertex_inv_def)
qed

lemma ginv_complete:
  assumes inv: "ginv dir g" and p: "vertex g i = Some v" "vInProgress v"
    and ord: "frontierOrder g i dir ks" and co: "complete g i res dir ks = (g', nxt)"
  shows "ginv dir g'"
proof -
  note vC = queued_target [OF inv p(1) disjI2, OF p(2)]
  have ks: "distinct ks" "set ks = set (frontierKeys v dir)"
    using ord p(1) by (simp_all add: frontierOrder_def visits_def)
  have fr: "freezes g g'" using complete_freezes [OF p(1) vC(2), of res dir ks] co by simp
  note self = complete_self [OF co ks(1) p(1)] and sq = complete_vertex(3) [OF co ks(1)]
  show ?thesis
  proof (rule ginv_frame [OF inv fr, of i])
    show "seq g \<le> seq g'" using sq by simp
    show "allConsumed g'" if "dir = walkFromEnd" "\<exists>j. has vBlocked g' j"
    proof -
      from that(2) obtain j u where u: "vertex g' j = Some u" "vBlocked u" by (auto elim: hasE)
      from freezes_Some [OF fr u(1)] obtain w where w: "vertex g j = Some w" .
      have "has vBlocked g j"
      proof (cases "j = i")
        case True
        with u self have "vBlocked (withResult res (seq g + 1) v)" by simp
        with vC(3) show ?thesis by (simp add: withResult_def)
      next
        case False
        from complete_other_Some [OF co ks(1) False w u(1)] w u(2) show ?thesis by auto
      qed
      with inv that(1) vC(4) show ?thesis by (auto simp: ginv_def)
    qed
    show "vertex_inv dir g' v' \<and> order_inv dir g' v'" if "vertex g' i = Some v'" for v'
      using that self complete_self_inv [OF inv p fr sq, of res] by simp
  next
    fix j w w' assume j: "j \<noteq> i" "vertex g j = Some w" "vertex g' j = Some w'"
    from complete_other_inv [OF inv p fr ks co j] complete_other_Some [OF co ks(1) j]
    show "vertex_inv dir g' w' \<and> (vInProgress w' \<longrightarrow> vInProgress w) \<and>
        (vConsumed w' \<and> \<not> vBlocked w' \<longrightarrow> vConsumed w)" by auto
  qed
qed

text \<open>Finalizing a graph that is done blocks exactly the targets left unconsumed.\<close>

lemma allDone_iff:
  assumes "distinct (keys_of (Vertices g))"
  shows "allDone g \<longleftrightarrow> (\<forall>i. target g i \<longrightarrow> \<not> has vQueued g i \<and> \<not> has vInProgress g i)"
proof -
  have "allDone g \<longleftrightarrow> (\<forall>i v. vertex g i = Some v \<longrightarrow>
      vCommand v = None \<or> \<not> vInClosure v \<or> (\<not> vQueued v \<and> \<not> vInProgress v))"
    unfolding allDone_def list_all_iff using map_of_eq_Some_iff [OF assms] by fastforce
  then show ?thesis unfolding target_def has_def by fastforce
qed

lemma finalized_simps [simp]:
  "vConsumed (finalized n v)" "vBlocked (finalized n v)" "\<exists>e. vErr (finalized n v) = Some e"
  "vQueued (finalized n v) = vQueued v" "vInProgress (finalized n v) = vInProgress v"
  by (simp_all add: finalized_def split: option.splits)

lemma finalizeVertex_seq: "seq g \<le> seq (finalizeVertex i g)"
  by (simp add: finalizeVertex_def split: option.splits)

lemma finalize_seq: "seq g \<le> seq (finalize g ks)"
proof (induction ks arbitrary: g)
  case (Cons k ks)
  from finalizeVertex_seq [of g k] Cons.IH [of "finalizeVertex k g"] show ?case
    by (simp add: finalize_def)
qed (simp add: finalize_def)

lemma ginv_finalize:
  assumes inv: "ginv dir g" and dn: "allDone g" and ks: "visits ks (keys_of (Vertices g))"
  shows "ginv dir (finalize g ks)" and "allConsumed (finalize g ks)" and "allDone (finalize g ks)"
proof -
  let ?g = "finalize g ks"
  have wf: "graph_wf g" using inv by (simp add: ginv_def)
  have fr: "freezes g ?g" by (rule finalize_freezes)
  have "i \<in> set ks" if "target g i" for i
    using that ks by (force simp: target_def has_def visits_def dest: map_of_SomeD)
  then show all: "allConsumed ?g"
    using finalize_consumes freezes_target [OF fr] by (auto simp: allConsumed_def)
  have quiet: "\<not> has vQueued g i \<and> \<not> has vInProgress g i" if "target g i" for i
    using dn allDone_iff [OF wf [unfolded graph_wf_def, THEN conjunct1]] that by blast
  have same: "v' = v \<or> (vInClosure v \<and> \<not> vConsumed v \<and> (\<exists>n. v' = finalized n v) \<and> \<not> vQueued v \<and> \<not> vInProgress v)"
    if "vertex ?g i = Some v'" "vertex g i = Some v" for i v v'
  proof -
    have "target g i \<longleftrightarrow> vInClosure v" using wf that(2) by (simp add: graph_wf_target)
    moreover have "\<not> vQueued v \<and> \<not> vInProgress v" if "target g i"
      using quiet [OF that] \<open>vertex g i = Some v\<close> by simp
    ultimately show ?thesis using finalize_vertex [OF that] by blast
  qed
  show "ginv dir ?g"
    unfolding ginv_def
  proof (intro conjI allI impI)
    show "graph_wf ?g" by (rule graph_wf_freezes [OF wf fr])
    show "0 \<le> seq ?g" using finalize_seq [of g ks] inv by (simp add: ginv_def)
    show "allConsumed ?g" by (rule all)
    fix i v' assume v': "vertex ?g i = Some v'"
    from freezes_Some [OF fr v'] obtain v where v: "vertex g i = Some v" "fz v v'" .
    have "vConsumed v'" if "vInClosure v'"
    proof -
      have "target ?g i" using graph_wf_target [OF graph_wf_freezes [OF wf fr]] v' that by simp
      with all v' show ?thesis by (auto simp: allConsumed_def)
    qed
    with same [OF v' v(1)] ginvD(1) [OF inv v(1)] edge_ok_freezes [OF fr _ fz_shape [OF v(2)]]
    show "vertex_inv dir ?g v'" by (auto simp: vertex_inv_def)
    show "order_inv dir ?g v'"
      using same [OF v' v(1)]
      by (intro order_inv_freezes [OF fr finalize_seq ginvD(2) [OF inv v(1)] v(2)]) auto
  qed
  show "allDone ?g"
    unfolding allDone_iff [OF graph_wf_freezes [OF wf fr, unfolded graph_wf_def, THEN conjunct1]]
  proof (intro allI impI)
    fix i assume "target ?g i"
    then obtain v' where v': "vertex ?g i = Some v'" by (auto simp: target_def has_def)
    from freezes_Some [OF fr v'] obtain v where v: "vertex g i = Some v" .
    from \<open>target ?g i\<close> have "target g i" using freezes_target [OF fr] by simp
    with quiet [OF this] v have "\<not> vQueued v" "\<not> vInProgress v" by simp_all
    with same [OF v' v] v' show "\<not> has vQueued ?g i \<and> \<not> has vInProgress ?g i" by auto
  qed
qed

text \<open>Seeding: the seeds are the targets whose in-closure neighbour set is empty, and
  every other target has an unconsumed neighbour.\<close>

lemma seed_vertex:
  "vertex (fst (seed g dir)) i =
     map_option (\<lambda>v. if isSeed g dir v then v\<lparr>vQueued := True\<rparr> else v) (vertex g i)"
  by (simp add: seed_def map_of_map)

lemma seed_keys [simp]: "keys_of (Vertices (fst (seed g dir))) = keys_of (Vertices g)"
  by (simp add: seed_def comp_def case_prod_beta)

lemma seed_seq [simp]: "seq (fst (seed g dir)) = seq g"
  by (simp add: seed_def)

lemma seed_freezes: "freezes g (fst (seed g dir))"
  by (rule freezesI) (auto simp: seed_vertex fz_def vshape_def resultview_def)

lemma hasInClosure_iff:
  "hasInClosureRealNeighborLocked g v dir \<longleftrightarrow> (\<exists>j \<in> neighbours v dir. has vInClosure g j)"
  by (cases dir) (auto simp: hasInClosureRealNeighborLocked_def neighbours_def readinessKeys_def
      list_ex_iff has_def split: option.splits)

lemma ginv_seed:
  assumes wf: "graph_wf g" and fresh: "graph_fresh g"
  shows "ginv dir (fst (seed g dir))"
proof -
  let ?g = "fst (seed g dir)"
  have fr: "freezes g ?g" by (rule seed_freezes)
  have old: "\<exists>v. vertex g i = Some v \<and> v' = (if isSeed g dir v then v\<lparr>vQueued := True\<rparr> else v) \<and>
      \<not> vQueued v \<and> \<not> vInProgress v \<and> \<not> vConsumed v \<and> \<not> vBlocked v" if "vertex ?g i = Some v'" for i v'
    using that fresh by (auto simp: seed_vertex graph_fresh_def)
  show ?thesis
    unfolding ginv_def
  proof (intro conjI allI impI)
    show "graph_wf ?g" by (rule graph_wf_freezes [OF wf fr])
    show "0 \<le> seq ?g" using fresh by (simp add: graph_fresh_def)
    show "allConsumed ?g" if "\<exists>i. has vBlocked ?g i"
    proof -
      from that obtain i v' where "vertex ?g i = Some v'" "vBlocked v'" by (auto elim: hasE)
      with old [of i v'] show ?thesis by (auto split: if_splits)
    qed
    fix i v' assume v': "vertex ?g i = Some v'"
    from old [OF v'] obtain v where v: "vertex g i = Some v"
      "v' = (if isSeed g dir v then v\<lparr>vQueued := True\<rparr> else v)"
      "\<not> vQueued v" "\<not> vInProgress v" "\<not> vConsumed v" "\<not> vBlocked v" by blast
    show "order_inv dir ?g v'" using v by (simp add: order_inv_def)
    have "\<not> edge_ok ?g dir v'" if "vInClosure v'" "\<not> isSeed g dir v"
    proof -
      from v that graph_wf_vertex(4) [OF wf v(1)] have "hasInClosureRealNeighborLocked g v dir"
        by (auto simp: isSeed_def)
      then obtain j where j: "j \<in> neighbours v dir" "has vInClosure g j" by (auto simp: hasInClosure_iff)
      then obtain c where c: "vertex g j = Some c" "vInClosure c" by (auto elim: hasE)
      from freezes_Some' [OF fr c(1)] obtain c' where c': "vertex ?g j = Some c'" "fz c c'" .
      have "\<not> vConsumed c'" using old [OF c'(1)] by (auto split: if_splits)
      with edge_sat_consumed [of ?g dir v' j] c' c shape_sel [OF fz_shape [OF c'(2)]]
      have "\<not> edge_sat ?g dir v' j" by auto
      moreover have "j \<in> neighbours v' dir" using j(1) v(2) that(2) by simp
      ultimately show ?thesis by (auto simp: edge_ok_def)
    qed
    moreover have "vInClosure v" if "isSeed g dir v" using that by (simp add: isSeed_def)
    ultimately show "vertex_inv dir ?g v'" using v by (auto simp: vertex_inv_def)
  qed
qed

section \<open>The invariant of the walk\<close>

text \<open>Every queued vertex is in the channel or in one worker's hands, exactly once, and
  every in-progress vertex has exactly one worker acting on it. After the caller's
  context ended, a worker may drop what it was sending.\<close>

definition count_inv :: "walkState \<Rightarrow> bool" where
  "count_inv s \<longleftrightarrow>
     (\<forall>i. pcount s i \<le> of_bool (has vQueued (wGraph s) i)) \<and>
     (\<not> wOutside s \<longrightarrow> (\<forall>i. pcount s i = of_bool (has vQueued (wGraph s) i))) \<and>
     (\<forall>i. acount s i = of_bool (has vInProgress (wGraph s) i))"

definition ctl_inv :: "walkState \<Rightarrow> bool" where
  "ctl_inv s \<longleftrightarrow>
     (Finishing \<in> set (wWorkers s) \<or> Cancelling \<in> set (wWorkers s) \<longrightarrow> allDone (wGraph s)) \<and>
     (Cancelling \<in> set (wWorkers s) \<longrightarrow> allConsumed (wGraph s)) \<and>
     (wCancelled s \<and> \<not> wOutside s \<longrightarrow> allDone (wGraph s) \<and> allConsumed (wGraph s)) \<and>
     (wOutside s \<longrightarrow> wCancelled s) \<and>
     (Exited \<in> set (wWorkers s) \<longrightarrow> wCancelled s) \<and>
     (\<not> wCancelled s \<and> allDone (wGraph s) \<longrightarrow>
        (\<exists>w \<in> {Sending [], Finishing, Cancelling}. w \<in> set (wWorkers s)))"

definition winv :: "walkDirection \<Rightarrow> walkState \<Rightarrow> bool" where
  "winv dir s \<longleftrightarrow> ginv dir (wGraph s) \<and> count_inv s \<and> ctl_inv s \<and>
     card (Collect (target (wGraph s))) \<le> wCap s"

lemma pcount_set:
  assumes "wWorkers t = (wWorkers s)[k := w]" and "k < length (wWorkers s)"
  shows "pcount t i + count_list (wPend (wWorkers s ! k)) i + count_list (wChan s) i =
         pcount s i + count_list (wPend w) i + count_list (wChan t) i"
  using sum_list_map_update [OF assms(2), of "\<lambda>w. count_list (wPend w) i" w]
  by (simp add: pcount_def assms(1))

lemma acount_set:
  assumes "wWorkers t = (wWorkers s)[k := w]" and "k < length (wWorkers s)"
  shows "acount t i + count_list (wAct (wWorkers s ! k)) i = acount s i + count_list (wAct w) i"
  using sum_list_map_update [OF assms(2), of "\<lambda>w. count_list (wAct w) i" w]
  by (simp add: acount_def assms(1))

lemma count_invD:
  assumes "count_inv s"
  shows "0 < pcount s i \<Longrightarrow> has vQueued (wGraph s) i"
    and "0 < acount s i \<Longrightarrow> has vInProgress (wGraph s) i"
proof -
  from assms have "pcount s i \<le> of_bool (has vQueued (wGraph s) i)"
    "acount s i = of_bool (has vInProgress (wGraph s) i)" by (simp_all add: count_inv_def)
  then show "0 < pcount s i \<Longrightarrow> has vQueued (wGraph s) i"
    and "0 < acount s i \<Longrightarrow> has vInProgress (wGraph s) i"
    by (auto simp: of_bool_def split: if_splits)
qed

lemma count_list_pos: "0 < count_list xs x \<longleftrightarrow> x \<in> set xs"
  by (induction xs) auto

lemma count_inv_at:
  assumes "count_inv s"
  shows "pcount s i \<le> of_bool (has vQueued (wGraph s) i)"
    and "acount s i = of_bool (has vInProgress (wGraph s) i)"
    and "\<not> wOutside s \<Longrightarrow> pcount s i = of_bool (has vQueued (wGraph s) i)"
  using assms by (simp_all add: count_inv_def)

lemma distinct_count_list: "distinct xs \<Longrightarrow> count_list xs x = of_bool (x \<in> set xs)"
  by (induction xs) auto

lemma pending_queued:
  assumes "count_inv s" and "workerAt s k w" and "i \<in> set (wPend w)"
  shows "has vQueued (wGraph s) i"
proof -
  from assms(2) have "w \<in> set (wWorkers s)" by auto
  from member_le_sum_map [OF this, of "\<lambda>w. count_list (wPend w) i"] assms(3)
  have "0 < pcount s i" by (simp add: pcount_def flip: count_list_pos)
  then show ?thesis by (rule count_invD [OF assms(1)])
qed

lemma acting_inProgress:
  assumes "count_inv s" and "workerAt s k (Acting i)"
  shows "has vInProgress (wGraph s) i"
proof -
  from assms(2) have "Acting i \<in> set (wWorkers s)" by (metis nth_mem)
  from member_le_sum_map [OF this, of "\<lambda>w. count_list (wAct w) i"]
  have "0 < acount s i" by (simp add: acount_def)
  then show ?thesis by (rule count_invD [OF assms(1)])
qed

lemma channel_queued: "count_inv s \<Longrightarrow> i \<in> set (wChan s) \<Longrightarrow> has vQueued (wGraph s) i"
  by (rule count_invD(1)) (simp_all add: pcount_def count_list_pos)

lemma busy_not_done:
  assumes "ginv dir g" and "has vQueued g i \<or> has vInProgress g i"
  shows "\<not> allDone g"
proof -
  have wf: "graph_wf g" using assms(1) by (simp add: ginv_def)
  from assms(2) obtain v where v: "vertex g i = Some v" "vQueued v \<or> vInProgress v"
    by (auto elim: hasE)
  then have "target g i" using queued_target(1) [OF assms(1) v] wf by (simp add: graph_wf_target)
  with assms(2) allDone_iff [OF wf [unfolded graph_wf_def, THEN conjunct1]] show ?thesis by blast
qed

text \<open>What the locked sections do to the queued and in-progress flags.\<close>

lemma claim_flags:
  assumes "claim g i dir ks = (g', st)" and "st \<noteq> stepSkip"
  shows "has vQueued g' j \<longleftrightarrow> has vQueued g j \<and> j \<noteq> i"
    and "has vInProgress g' j \<longleftrightarrow> has vInProgress g j \<or> j = i \<and> st = stepReady"
  using assms by (cases rule: claim_cases; auto simp: has_def split: if_splits)+

lemma complete_flags:
  assumes co: "complete g i res dir ks = (g', nxt)" and ks: "distinct ks"
    and v: "vertex g i = Some v" "\<not> vQueued v"
  shows "has vQueued g' j \<longleftrightarrow> has vQueued g j \<or> j \<in> set nxt"
    and "has vInProgress g' j \<longleftrightarrow> has vInProgress g j \<and> j \<noteq> i"
    and "j \<in> set nxt \<Longrightarrow> \<not> has vQueued g j" and "distinct nxt"
proof -
  note nxt = complete_vertex(1) [OF co ks]
  note self = complete_self [OF co ks v(1)] and oth = complete_other [OF co ks, of j]
  have i: "i \<notin> set nxt" using v by (simp add: nxt eligible_def recordResult_eq withResult_def has_def)
  have el: "j \<in> set nxt \<longleftrightarrow> j \<in> set ks \<and> eligible g (skipVertex dir) j" if "j \<noteq> i"
    using that by (simp add: nxt eligible_record)
  show "has vQueued g' j \<longleftrightarrow> has vQueued g j \<or> j \<in> set nxt"
  proof (cases "j = i")
    case True
    with self v i show ?thesis by (simp add: withResult_def)
  next
    case False
    from False oth el have "vertex g' j =
        (if j \<in> set nxt then map_option (\<lambda>v. v\<lparr>vQueued := True\<rparr>) (vertex g j) else vertex g j)"
      by simp
    moreover have "\<exists>w. vertex g j = Some w" if "j \<in> set nxt"
      using that el [OF False] by (auto simp: eligible_def elim: hasE)
    ultimately show ?thesis by (cases "j \<in> set nxt") (auto simp: has_def)
  qed
  show "has vInProgress g' j \<longleftrightarrow> has vInProgress g j \<and> j \<noteq> i"
  proof (cases "j = i")
    case True
    with self v i show ?thesis by (simp add: withResult_def)
  next
    case False
    with oth show ?thesis by (cases "vertex g j") (auto simp: has_def split: if_splits)
  qed
  show "\<not> has vQueued g j" if "j \<in> set nxt"
  proof -
    from that i have "j \<noteq> i" by auto
    with el that have "eligible g (skipVertex dir) j" by simp
    then show ?thesis by (auto simp: eligible_def has_def)
  qed
  show "distinct nxt" using ks by (simp add: nxt)
qed

lemma count_inv_unchanged:
  assumes inv: "count_inv s" and k: "k < length (wWorkers s)"
    and t: "wWorkers t = (wWorkers s)[k := w]" "wGraph t = wGraph s" "wOutside t = wOutside s"
    and eq: "\<And>i. count_list (wPend w) i + count_list (wChan t) i =
                 count_list (wPend (wWorkers s ! k)) i + count_list (wChan s) i"
      "\<And>i. count_list (wAct w) i = count_list (wAct (wWorkers s ! k)) i"
  shows "count_inv t"
proof -
  have "pcount t i = pcount s i" "acount t i = acount s i" for i
    using pcount_set [OF t(1) k, of i] acount_set [OF t(1) k, of i] eq [of i] by linarith+
  with inv t(2,3) show ?thesis by (simp add: count_inv_def)
qed

lemma count_inv_drop:
  assumes inv: "count_inv s" and k: "k < length (wWorkers s)" and out: "wOutside s"
    and act: "wAct (wWorkers s ! k) = []"
  shows "count_inv (setWorker k Exited s)"
proof -
  let ?t = "setWorker k Exited s"
  have "pcount ?t i \<le> pcount s i" "acount ?t i = acount s i" for i
    using pcount_set [of ?t s k Exited i, OF _ k] acount_set [of ?t s k Exited i, OF _ k] act by simp_all
  with inv out show ?thesis unfolding count_inv_def
    by (metis le_trans setWorker_simps(1,5))
qed

lemma count_inv_claim:
  assumes g: "ginv dir (wGraph s)" and inv: "count_inv s" and k: "workerAt s k (Received i)"
    and ord: "readyOrder (wGraph s) i dir ks" and cl: "claim (wGraph s) i dir ks = (g', st)"
    and w: "w = (if st = stepReady then Acting i else Sending [])"
  shows "count_inv ((setWorker k w s)\<lparr>wGraph := g'\<rparr>)" (is "count_inv ?t")
proof -
  have q: "has vQueued (wGraph s) i" by (rule pending_queued [OF inv k]) simp
  note flags = claim_flags [OF cl ginv_claim(2) [OF g q ord cl]]
  have np: "\<not> has vInProgress (wGraph s) i"
    using q g ginvD(1) [OF g] by (auto simp: vertex_inv_def elim!: hasE)
  have p: "pcount ?t j + of_bool (j = i) = pcount s j"
    and a: "acount ?t j = acount s j + of_bool (j = i \<and> st = stepReady)" for j
    using pcount_set [of ?t s k w j] acount_set [of ?t s k w j] k w by auto
  have "pcount ?t j \<le> of_bool (has vQueued g' j)" for j
    using p [of j] count_inv_at(1) [OF inv, of j] flags(1) [of j] q
    by (cases "has vQueued (wGraph s) j"; cases "j = i"; simp)
  moreover have "acount ?t j = of_bool (has vInProgress g' j)" for j
    using a [of j] count_inv_at(2) [OF inv, of j] flags(2) [of j] np
    by (cases "has vInProgress (wGraph s) j"; cases "j = i"; simp)
  moreover have "pcount ?t j = of_bool (has vQueued g' j)" if "\<not> wOutside s" for j
    using p [of j] count_inv_at(3) [OF inv that, of j] flags(1) [of j] q
    by (cases "has vQueued (wGraph s) j"; cases "j = i"; simp)
  ultimately show ?thesis by (simp add: count_inv_def)
qed

lemma count_inv_complete:
  assumes g: "ginv dir (wGraph s)" and inv: "count_inv s" and k: "workerAt s k (Acting i)"
    and ord: "frontierOrder (wGraph s) i dir ks" and co: "complete (wGraph s) i res dir ks = (g', nxt)"
  shows "count_inv ((setWorker k (Sending nxt) s)\<lparr>wGraph := g'\<rparr>)" (is "count_inv ?t")
proof -
  have pr: "has vInProgress (wGraph s) i" by (rule acting_inProgress [OF inv k])
  then obtain v where v: "vertex (wGraph s) i = Some v" "vInProgress v" by (auto elim: hasE)
  have nq: "\<not> vQueued v" using ginvD(1) [OF g v(1)] v(2) by (auto simp: vertex_inv_def)
  have "distinct ks" using ord v(1) by (simp add: frontierOrder_def visits_def)
  note flags = complete_flags [OF co this v(1) nq]
  have p: "pcount ?t j = pcount s j + of_bool (j \<in> set nxt)"
    and a: "acount ?t j + of_bool (j = i) = acount s j" for j
    using pcount_set [of ?t s k "Sending nxt" j] acount_set [of ?t s k "Sending nxt" j] k flags(4)
      distinct_count_list [of nxt j] by auto
  have "pcount ?t j \<le> of_bool (has vQueued g' j)" for j
    using p [of j] count_inv_at(1) [OF inv, of j] flags(1,3) [of j]
    by (cases "has vQueued (wGraph s) j"; cases "j \<in> set nxt"; simp)
  moreover have "acount ?t j = of_bool (has vInProgress g' j)" for j
    using a [of j] count_inv_at(2) [OF inv, of j] flags(2) [of j] pr
    by (cases "has vInProgress (wGraph s) j"; cases "j = i"; simp)
  moreover have "pcount ?t j = of_bool (has vQueued g' j)" if "\<not> wOutside s" for j
    using p [of j] count_inv_at(3) [OF inv that, of j] flags(1,3) [of j]
    by (cases "has vQueued (wGraph s) j"; cases "j \<in> set nxt"; simp)
  ultimately show ?thesis by (simp add: count_inv_def)
qed

end
