(* ===== verification/Reconcile_Outcome.thy ===== *)
theory Reconcile_Outcome
  imports Reconcile_Run
begin

text \<open>
  What a walk achieves: \<^verbatim>\<open>walk\<close> of cmdman/compose/reconcile.go as a relation between the
  graph it starts on and the graph it leaves, and the properties of that relation.
  Absence of deadlock and termination are stated for every interleaving; the
  outcome theorems say which vertices were acted on, in which order, with which
  results, and which carry an error.
\<close>

section \<open>The walk as a whole\<close>

text \<open>\<open>walk act dir limit g out g'\<close>: a call of \<^verbatim>\<open>walk\<close> on \<open>g\<close> returned and left \<open>g'\<close>;
  \<open>out\<close> records that the caller's context ended meanwhile.\<close>

inductive walk ::
  "(vertexID \<Rightarrow> actionResult \<Rightarrow> bool) \<Rightarrow> walkDirection \<Rightarrow> int \<Rightarrow> reconcileGraph \<Rightarrow> bool \<Rightarrow> reconcileGraph \<Rightarrow> bool"
  for act dir limit g where
  drained: "allDone (fst (seed g dir)) \<Longrightarrow> visits ks (keys_of (Vertices g)) \<Longrightarrow>
     walk act dir limit g False (finalize (fst (seed g dir)) ks)"
| ran: "\<not> allDone (fst (seed g dir)) \<Longrightarrow> walk_reach act dir (walkInit g dir limit) s \<Longrightarrow>
     set (wWorkers s) = {Exited} \<Longrightarrow> walk act dir limit g (wOutside s) (wGraph s)"

lemma workers_init: "wWorkers (walkInit g dir limit) \<noteq> []"
  by (simp add: walkInit_def)

text \<open>From any state of a walk whose actions return, the workers can all return.\<close>

lemma reach_trans: "walk_reach act dir b c \<Longrightarrow> walk_reach act dir a b \<Longrightarrow> walk_reach act dir a c"
  by (induction rule: walk_reach.induct) (auto intro: walk_reach.step)

lemma wf_winv_step: "wf {(t, s). winv dir s \<and> walk_step act dir s t}"
proof (rule wf_subset)
  let ?m = "\<lambda>s. (card (unconsumed (wGraph s)), work s)"
  show "wf (inv_image (less_than <*lex*> less_than) ?m)" by (intro wf_inv_image wf_lex_prod wf_less_than)
  show "{(t, s). winv dir s \<and> walk_step act dir s t} \<subseteq> inv_image (less_than <*lex*> less_than) ?m"
    using walk_step_decreases by (fastforce simp: le_less)
qed

lemma can_return:
  assumes "winv dir s" and act: "\<And>i. \<exists>res. act i res"
  shows "\<exists>t. walk_reach act dir s t \<and> (\<forall>w \<in> set (wWorkers t). w = Exited) \<and> wOutside t = wOutside s \<and>
     length (wWorkers t) = length (wWorkers s)"
  using wf_winv_step [of dir act] assms(1)
proof (induction s rule: wf_induct_rule)
  case (less s)
  show ?case
  proof (cases "\<exists>w \<in> set (wWorkers s). w \<noteq> Exited")
    case True
    from progress [OF less.prems True, of act] act obtain u where
      u: "walk_step act dir s u" "wOutside u = wOutside s" by blast
    have "winv dir u" by (rule winv_step [OF u(1) less.prems])
    with less.IH [of u] u(1) less.prems obtain t where
      t: "walk_reach act dir u t" "\<forall>w \<in> set (wWorkers t). w = Exited" "wOutside t = wOutside u"
      "length (wWorkers t) = length (wWorkers u)"
      by blast
    have "walk_reach act dir s t" by (rule reach_trans [OF t(1)]) (blast intro: start walk_reach.step u(1))
    with t u(2) walk_step_const(2) [OF u(1)] show ?thesis by auto
  next
    case False
    then show ?thesis by (auto intro: start)
  qed
qed

lemma all_exited:
  assumes "\<forall>w \<in> set ws. w = Exited" and "ws \<noteq> []" shows "set ws = {Exited}"
  using assms by (cases ws) auto

lemma walk_ends:
  assumes inv: "winv dir s" and ex: "set (wWorkers s) = {Exited}" and nout: "\<not> wOutside s"
  shows "allDone (wGraph s)" and "allConsumed (wGraph s)"
  using winvD(3) [OF inv] ex nout by (simp_all add: ctl_inv_def)

section \<open>Where results come from\<close>

text \<open>What one step may do to one vertex: nothing that readers see, record the result of
  an action, block it on a blocked dependency, or finalize it.\<close>

lemma readinessDown_blocked:
  "fst (readinessDown g (vParents v) w ks) = edgeBlocked \<Longrightarrow> fst w \<noteq> edgeBlocked \<Longrightarrow>
     \<exists>j \<in> set ks - {beginVertex}. fst (evalDownEdgeLocked (vertex g j)
       (case map_of (vParents v) j of Some e \<Rightarrow> geCondition e | None \<Rightarrow> ConditionNone)) = edgeBlocked"
proof (induction ks arbitrary: w)
  case (Cons k ks)
  let ?e = "evalDownEdgeLocked (vertex g k)
       (case map_of (vParents v) k of Some e \<Rightarrow> geCondition e | None \<Rightarrow> ConditionNone)"
  obtain s r where e: "?e = (s, r)" by fastforce
  show ?case
  proof (cases "k = beginVertex")
    case True
    with Cons show ?thesis by auto
  next
    case False
    show ?thesis
    proof (cases s)
      case edgeBlocked
      with e have "fst ?e = edgeBlocked" by simp
      with False show ?thesis by (intro bexI [of _ k]) auto
    next
      case edgePending
      with e Cons.prems False Cons.IH [of "if fst w = edgeSatisfied then (edgePending, r) else w"]
      show ?thesis by (auto split: if_splits)
    next
      case edgeSatisfied
      with e Cons.prems False Cons.IH [of w] show ?thesis by auto
    qed
  qed
qed simp

definition edge_blocked :: "reconcileGraph \<Rightarrow> graphVertex \<Rightarrow> vertexID \<Rightarrow> bool" where
  "edge_blocked g v j \<longleftrightarrow> fst (evalDownEdgeLocked (vertex g j)
     (case map_of (vParents v) j of Some e \<Rightarrow> geCondition e | None \<Rightarrow> ConditionNone)) = edgeBlocked"

definition step_effect ::
  "(vertexID \<Rightarrow> actionResult \<Rightarrow> bool) \<Rightarrow> walkDirection \<Rightarrow> reconcileGraph \<Rightarrow> vertexID \<Rightarrow> graphVertex \<Rightarrow> graphVertex \<Rightarrow> bool" where
  "step_effect act dir g i v v' \<longleftrightarrow>
     resultview v' = resultview v \<or>
     (\<exists>res n. act i res \<and> v' = withResult res n v \<and> \<not> vBlocked v) \<or>
     (dir = walkFromBegin \<and> vInClosure v \<and> (\<exists>j \<in> neighbours v dir. edge_blocked g v j) \<and> vBlocked v' \<and> vErr v' \<noteq> None) \<or>
     (allDone g \<and> target g i \<and> \<not> vConsumed v \<and> vBlocked v' \<and> vErr v' \<noteq> None)"

lemma claim_effect:
  assumes cl: "claim g i dir ks = (g', st)" and ord: "readyOrder g i dir ks"
    and v: "vertex g j = Some v" "vertex g' j = Some v'"
  shows "step_effect act dir g j v v'"
proof (cases "st = stepSkip")
  case True
  with cl claim_skip_same [of g i dir ks] v show ?thesis by (simp add: step_effect_def)
next
  case False
  from cl False show ?thesis
  proof (cases rule: claim_cases)
    case (1 u)
    with v show ?thesis by (auto simp: step_effect_def resultview_def split: if_splits)
  next
    case (2 u r)
    with v show ?thesis by (auto simp: step_effect_def resultview_def split: if_splits)
  next
    case (3 u r)
    show ?thesis
    proof (cases "j = i")
      case False
      with 3 v show ?thesis by (simp add: step_effect_def)
    next
      case True
      with 3 v have u: "u = v" by simp
      from 3 u readinessLocked_up [of g v ks] have dir: "dir = walkFromBegin" by (cases dir) auto
      have keys: "set ks = set (readinessKeys v dir)"
        using ord v True by (simp add: readyOrder_def visits_def)
      from 3 u dir readinessDown_blocked [of g v "(edgeSatisfied, None)" ks]
      have "\<exists>j \<in> set ks - {beginVertex}. edge_blocked g v j"
        by (auto simp: readinessLocked_def edge_blocked_def)
      then have "\<exists>j \<in> neighbours v dir. edge_blocked g v j" using keys dir by (simp add: neighbours_def)
      moreover have "vBlocked v'" "vErr v' \<noteq> None" using 3 v True by (auto split: option.splits)
      moreover have "vInClosure v" using 3 u by simp
      ultimately show ?thesis using dir by (auto simp: step_effect_def)
    qed
  qed
qed

lemma walk_step_effect:
  assumes st: "walk_step act dir s t" and inv: "winv dir s"
    and v: "vertex (wGraph s) i = Some v" "vertex (wGraph t) i = Some v'"
  shows "step_effect act dir (wGraph s) i v v'"
  using st
proof (cases)
  case (claim_ready k j ks g')
  with v claim_effect [of "wGraph s" j dir ks g' stepReady i v v'] show ?thesis by simp
next
  case (claim_other k j ks g' c)
  with v claim_effect [of "wGraph s" j dir ks g' c i v v'] show ?thesis by simp
next
  case (completed k j res ks g' nxt)
  have "has vInProgress (wGraph s) j" using acting_inProgress [OF winvD(2) [OF inv]] completed by blast
  then obtain u where u: "vertex (wGraph s) j = Some u" "vInProgress u" by (auto elim: hasE)
  have ks: "distinct ks" using completed u(1) by (simp add: frontierOrder_def visits_def)
  show ?thesis
  proof (cases "i = j")
    case True
    then have "v' = withResult res (seq (wGraph s) + 1) v"
      using complete_self [OF _ ks u(1), of res dir g' nxt] completed v u(1) by simp
    with True u v completed queued_target(3) [OF winvD(1) [OF inv] v(1)] show ?thesis
      by (auto simp: step_effect_def)
  next
    case False
    with complete_other_Some [OF _ ks False v(1), of res dir g' nxt v'] completed v
    show ?thesis by (auto simp: step_effect_def resultview_def)
  qed
next
  case (finalizing k ks)
  then have "Finishing \<in> set (wWorkers s)" by (metis nth_mem)
  then have "allDone (wGraph s)" using winvD(3) [OF inv] by (auto simp: ctl_inv_def)
  with finalize_vertex [of "wGraph s" ks i v' v] finalizing v show ?thesis
    by (auto simp: step_effect_def)
qed (use v in \<open>auto simp: step_effect_def\<close>)

text \<open>The recorded result of a vertex that was acted on is one the action reported.\<close>

definition reported :: "(vertexID \<Rightarrow> actionResult \<Rightarrow> bool) \<Rightarrow> vertexID \<Rightarrow> graphVertex \<Rightarrow> bool" where
  "reported act i v \<longleftrightarrow> (\<exists>res. act i res \<and> vState v = arState res \<and> vExitCode v = arExitCode res \<and>
     vErr v = arErr res \<and> vForceKilled v = arForceKilled res)"

definition results_inv :: "(vertexID \<Rightarrow> actionResult \<Rightarrow> bool) \<Rightarrow> reconcileGraph \<Rightarrow> bool" where
  "results_inv act g \<longleftrightarrow>
     (\<forall>i v. vertex g i = Some v \<longrightarrow> vConsumed v \<longrightarrow> \<not> vBlocked v \<longrightarrow> reported act i v)"

lemma step_effect_reported:
  assumes "step_effect act dir g i v v'" and "vConsumed v \<Longrightarrow> \<not> vBlocked v \<Longrightarrow> reported act i v"
    and "vConsumed v'" "\<not> vBlocked v'"
  shows "reported act i v'"
  using assms(1) unfolding step_effect_def
proof (elim disjE)
  assume "resultview v' = resultview v"
  with assms(2-4) show ?thesis by (auto simp: reported_def resultview_def)
next
  assume "\<exists>res n. act i res \<and> v' = withResult res n v \<and> \<not> vBlocked v"
  then show ?thesis by (auto simp: reported_def withResult_def)
qed (use assms(4) in simp_all)

lemma results_inv_reach:
  assumes "walk_reach act dir s0 s" and "winv dir s0" and "results_inv act (wGraph s0)"
  shows "results_inv act (wGraph s)"
  using assms
proof (induction rule: walk_reach.induct)
  case (step s t)
  have inv: "winv dir s" by (rule winv_reach [OF step.hyps(1) step.prems(1)])
  show ?case unfolding results_inv_def
  proof (intro allI impI)
    fix i v' assume v': "vertex (wGraph t) i = Some v'" "vConsumed v'" "\<not> vBlocked v'"
    from freezes_Some [OF walk_step_freezes [OF step.hyps(2) inv] v'(1)]
    obtain v where v: "vertex (wGraph s) i = Some v" .
    show "reported act i v'"
      using step_effect_reported [OF walk_step_effect [OF step.hyps(2) inv v v'(1)] _ v'(2,3)]
        step v by (auto simp: results_inv_def)
  qed
qed simp

lemma seed_flags:
  assumes "graph_fresh g" and "vertex (fst (seed g dir)) i = Some v"
  shows "\<not> vConsumed v" "\<not> vBlocked v" "\<not> vInProgress v" "vErr v = None" "vOrder v = 0"
  using assms by (auto simp: seed_vertex graph_fresh_def split: if_splits)

lemma results_inv_seed: "graph_fresh g \<Longrightarrow> results_inv act (fst (seed g dir))"
  using seed_flags by (auto simp: results_inv_def)

lemma results_inv_finalize: "results_inv act g \<Longrightarrow> results_inv act (finalize g ks)"
  unfolding results_inv_def
proof (intro allI impI)
  fix i v'
  assume inv: "\<forall>i v. vertex g i = Some v \<longrightarrow> vConsumed v \<longrightarrow> \<not> vBlocked v \<longrightarrow> reported act i v"
    and v': "vertex (finalize g ks) i = Some v'" "vConsumed v'" "\<not> vBlocked v'"
  from freezes_Some [OF finalize_freezes v'(1)] obtain v where "vertex g i = Some v" .
  with finalize_vertex [OF v'(1) this] inv v' show "reported act i v'" by auto
qed

section \<open>Walks that act on everything\<close>

text \<open>The order a walk follows: \<open>(j, i)\<close> when the readiness of the target \<open>i\<close> reads the target \<open>j\<close>.\<close>

definition nb_rel :: "walkDirection \<Rightarrow> reconcileGraph \<Rightarrow> (vertexID \<times> vertexID) set" where
  "nb_rel dir g = {(j, i). has (\<lambda>v. vInClosure v \<and> j \<in> neighbours v dir) g i \<and> has vInClosure g j}"

text \<open>The actions of a down walk satisfy their dependents: each dependency edge of a
  target is satisfied by whatever the action of its in-closure parent reports, and by
  the snapshot of a parent outside the closure.\<close>

definition acts_satisfy :: "(vertexID \<Rightarrow> actionResult \<Rightarrow> bool) \<Rightarrow> reconcileGraph \<Rightarrow> bool" where
  "acts_satisfy act g \<longleftrightarrow>
     (\<forall>i v j. vertex g i = Some v \<longrightarrow> vInClosure v \<longrightarrow> j \<in> neighbours v walkFromBegin \<longrightarrow>
        (\<exists>p. vertex g j = Some p \<and>
          (let c = (case map_of (vParents v) j of Some e \<Rightarrow> geCondition e | None \<Rightarrow> ConditionNone) in
           if vInClosure p then (\<forall>res n. act j res \<longrightarrow> fst (evalDownEdgeLocked (Some (withResult res n (p\<lparr>vBlocked := False\<rparr>))) c) = edgeSatisfied)
           else fst (evalDownEdgeLocked (Some p) c) = edgeSatisfied)))"

definition no_blocked :: "reconcileGraph \<Rightarrow> bool" where
  "no_blocked g \<longleftrightarrow> (\<forall>i. \<not> has vBlocked g i)"

lemma nb_rel_freezes:
  assumes fr: "freezes g g'" shows "nb_rel dir g' = nb_rel dir g"
proof -
  have "has vInClosure g' j = has vInClosure g j" for j
    using freezes_vertex [OF fr, of j]
    by (cases "vertex g j"; cases "vertex g' j") (auto simp: fz_def vshape_def)
  moreover have "has (\<lambda>v. vInClosure v \<and> j \<in> neighbours v dir) g' i =
      has (\<lambda>v. vInClosure v \<and> j \<in> neighbours v dir) g i" for i j
    using freezes_vertex [OF fr, of i]
    by (cases "vertex g i"; cases "vertex g' i")
      (auto dest: fz_shape shape_sel(2) neighbours_shape)
  ultimately show ?thesis by (simp add: nb_rel_def)
qed

text \<open>In a clean graph an edge to a consumed target is satisfied and no edge is blocked.\<close>

lemma clean_edges:
  assumes ok: "dir = walkFromBegin \<longrightarrow> acts_satisfy act g0" and fr: "freezes g0 g"
    and res: "results_inv act g" and nb: "no_blocked g"
    and v: "vertex g i = Some v" "vInClosure v" and j: "j \<in> neighbours v dir"
  shows "(\<exists>c. vertex g j = Some c \<and> vInClosure c \<and> \<not> vConsumed c) \<or> edge_sat g dir v j"
    and "dir = walkFromBegin \<Longrightarrow> \<not> edge_blocked g v j"
proof -
  let ?c = "case map_of (vParents v) j of Some e \<Rightarrow> geCondition e | None \<Rightarrow> ConditionNone"
  have down: "(\<exists>c. vertex g j = Some c \<and> vInClosure c \<and> \<not> vConsumed c) \<or>
      fst (evalDownEdgeLocked (vertex g j) ?c) = edgeSatisfied" if dir: "dir = walkFromBegin"
  proof -
    from freezes_Some [OF fr v(1)] obtain v0 where v0: "vertex g0 i = Some v0" "fz v0 v" .
    note sh = shape_sel [OF fz_shape [OF v0(2)]]
    have "j \<in> neighbours v0 walkFromBegin" using j dir neighbours_shape [OF fz_shape [OF v0(2)]] by simp
    with ok dir v0(1) v(2) sh obtain p0 where p0: "vertex g0 j = Some p0"
      "if vInClosure p0 then (\<forall>res n. act j res \<longrightarrow> fst (evalDownEdgeLocked (Some (withResult res n (p0\<lparr>vBlocked := False\<rparr>))) ?c) = edgeSatisfied)
       else fst (evalDownEdgeLocked (Some p0) ?c) = edgeSatisfied"
      unfolding acts_satisfy_def Let_def by metis
    from freezes_Some' [OF fr p0(1)] obtain p where p: "vertex g j = Some p" "fz p0 p" .
    note psh = shape_sel [OF fz_shape [OF p(2)]]
    show ?thesis
    proof (cases "vInClosure p \<and> vConsumed p")
      case True
      have "\<not> vBlocked p" using nb p(1) by (auto simp: no_blocked_def has_def)
      with True res p(1) obtain r where r: "act j r" "vState p = arState r" "vExitCode p = arExitCode r"
        "vErr p = arErr r" by (auto simp: results_inv_def reported_def)
      have "evalview (withResult r 0 (p0\<lparr>vBlocked := False\<rparr>)) = evalview p"
        using r True psh \<open>\<not> vBlocked p\<close> by (simp add: evalview_def withResult_def)
      note same = evalDown_cong [OF this]
      have "fst (evalDownEdgeLocked (Some (withResult r 0 (p0\<lparr>vBlocked := False\<rparr>))) ?c) = edgeSatisfied"
        using p0(2) r(1) True psh(2) by simp
      then show ?thesis unfolding same p(1) by blast
    next
      case False
      then show ?thesis using p evalDown_outside [OF fz_shape [OF p(2)]] p0(2) psh by auto
    qed
  qed
  then show "(\<exists>c. vertex g j = Some c \<and> vInClosure c \<and> \<not> vConsumed c) \<or> edge_sat g dir v j"
    by (cases dir) (auto simp: edge_sat_def)
  show "\<not> edge_blocked g v j" if "dir = walkFromBegin"
    using down [OF that]
  proof
    assume "\<exists>c. vertex g j = Some c \<and> vInClosure c \<and> \<not> vConsumed c"
    then obtain c where c: "vertex g j = Some c" "vInClosure c" "\<not> vConsumed c" by blast
    moreover have "\<not> vBlocked c" using nb c(1) by (auto simp: no_blocked_def has_def)
    ultimately show ?thesis by (simp add: edge_blocked_def evalDownEdgeLocked_def Let_def)
  qed (simp add: edge_blocked_def)
qed

lemma clean_done_consumed:
  assumes inv: "ginv dir g" and dn: "allDone g" and wf: "wf (nb_rel dir g)"
    and ok: "dir = walkFromBegin \<longrightarrow> acts_satisfy act g0" and fr: "freezes g0 g"
    and res: "results_inv act g" and nb: "no_blocked g"
  shows "allConsumed g"
  unfolding allConsumed_def
proof (intro allI impI)
  fix i show "target g i \<Longrightarrow> has vConsumed g i"
    using wf
  proof (induction i rule: wf_induct_rule)
    case (less i)
    have gwf: "graph_wf g" using inv by (simp add: ginv_def)
    from less.prems obtain v where v: "vertex g i = Some v" "vInClosure v" by (auto simp: target_def has_def)
    have idle: "\<not> vQueued v" "\<not> vInProgress v"
      using dn allDone_iff [OF gwf [unfolded graph_wf_def, THEN conjunct1]] less.prems v(1) by auto
    have "edge_ok g dir v" unfolding edge_ok_def
    proof
      fix j assume j: "j \<in> neighbours v dir"
      show "edge_sat g dir v j"
      proof (rule ccontr)
        assume "\<not> edge_sat g dir v j"
        with clean_edges(1) [OF ok fr res nb v j] obtain c where
          c: "vertex g j = Some c" "vInClosure c" "\<not> vConsumed c" by blast
        then have "target g j" "(j, i) \<in> nb_rel dir g" using v j gwf by (auto simp: graph_wf_target nb_rel_def)
        with less.IH [of j] c show False by simp
      qed
    qed
    with ginvD(1) [OF inv v(1)] v idle show "has vConsumed g i" by (auto simp: vertex_inv_def)
  qed
qed

lemma no_blocked_step:
  assumes st: "walk_step act dir s t" and inv: "winv dir s" and wf: "wf (nb_rel dir (wGraph s))"
    and ok: "dir = walkFromBegin \<longrightarrow> acts_satisfy act g0" and fr: "freezes g0 (wGraph s)"
    and res: "results_inv act (wGraph s)" and nb: "no_blocked (wGraph s)"
  shows "no_blocked (wGraph t)"
  unfolding no_blocked_def
proof (intro allI notI)
  fix i assume "has vBlocked (wGraph t) i"
  then obtain v' where v': "vertex (wGraph t) i = Some v'" "vBlocked v'" by (auto elim: hasE)
  from freezes_Some [OF walk_step_freezes [OF st inv] v'(1)]
  obtain v where v: "vertex (wGraph s) i = Some v" .
  have nv: "\<not> vBlocked v" using nb v by (auto simp: no_blocked_def has_def)
  from walk_step_effect [OF st inv v v'(1)] show False
    unfolding step_effect_def
  proof (elim disjE)
    assume "allDone (wGraph s) \<and> target (wGraph s) i \<and> \<not> vConsumed v \<and> vBlocked v' \<and> vErr v' \<noteq> None"
    with clean_done_consumed [OF winvD(1) [OF inv] _ wf ok fr res nb] v show False
      by (auto simp: allConsumed_def)
  next
    assume "dir = walkFromBegin \<and> vInClosure v \<and> (\<exists>j\<in>neighbours v dir. edge_blocked (wGraph s) v j) \<and>
      vBlocked v' \<and> vErr v' \<noteq> None"
    with clean_edges(2) [OF ok fr res nb v] show False by blast
  qed (use nv v'(2) in \<open>auto simp: withResult_def resultview_def\<close>)
qed

end
