(* ===== verification/Reconcile_Build.thy ===== *)
theory Reconcile_Build
  imports Reconcile_Outcome
begin

text \<open>
  The graphs \<^verbatim>\<open>buildReconcileGraph\<close> makes: which vertices and edges they have, that
  they are well formed and fresh, and that on an acyclic project every walk order is
  well founded. With the walk theorems this gives the properties of starting and
  stopping a validated project.
\<close>

section \<open>Adding edges\<close>

type_synonym vertexMap = "(vertexID, graphVertex) gomap"

definition addParent :: "vertexID \<Rightarrow> vertexID \<Rightarrow> graphEdge \<Rightarrow> vertexMap \<Rightarrow> vertexMap" where
  "addParent i p e = amodify i (\<lambda>v. v\<lparr>vParents := AList.update p e (vParents v)\<rparr>)"

definition addChild :: "vertexID \<Rightarrow> vertexID \<Rightarrow> graphEdge \<Rightarrow> vertexMap \<Rightarrow> vertexMap" where
  "addChild i c e = amodify i (\<lambda>v. v\<lparr>vChildren := AList.update c e (vChildren v)\<rparr>)"

text \<open>The parents and the children of a vertex, and the rest of it.\<close>

definition parentKeys :: "vertexMap \<Rightarrow> vertexID \<Rightarrow> vertexID set" where
  "parentKeys vs i = (case map_of vs i of None \<Rightarrow> {} | Some v \<Rightarrow> set (keys_of (vParents v)))"

definition childKeys :: "vertexMap \<Rightarrow> vertexID \<Rightarrow> vertexID set" where
  "childKeys vs i = (case map_of vs i of None \<Rightarrow> {} | Some v \<Rightarrow> set (keys_of (vChildren v)))"

definition bare :: "vertexMap \<Rightarrow> vertexID \<Rightarrow> graphVertex option" where
  "bare vs i = map_option (\<lambda>v. v\<lparr>vParents := [], vChildren := []\<rparr>) (map_of vs i)"

definition edges_distinct :: "vertexMap \<Rightarrow> bool" where
  "edges_distinct vs \<longleftrightarrow> (\<forall>i v. map_of vs i = Some v \<longrightarrow>
     distinct (keys_of (vParents v)) \<and> distinct (keys_of (vChildren v)))"

lemma addParent_simps [simp]:
  "keys_of (addParent i p e vs) = keys_of vs"
  "bare (addParent i p e vs) = bare vs"
  "parentKeys (addParent i p e vs) k =
     (if k = i \<and> k \<in> set (keys_of vs) then insert p (parentKeys vs k) else parentKeys vs k)"
  "childKeys (addParent i p e vs) = childKeys vs"
proof -
  show "bare (addParent i p e vs) = bare vs" "childKeys (addParent i p e vs) = childKeys vs"
    by (auto simp: fun_eq_iff addParent_def bare_def childKeys_def option.map_comp comp_def split: option.splits)
  show "parentKeys (addParent i p e vs) k =
      (if k = i \<and> k \<in> set (keys_of vs) then insert p (parentKeys vs k) else parentKeys vs k)"
    using map_of_None_iff [of vs k]
    by (cases "map_of vs k"; cases "k = i") (simp_all add: addParent_def parentKeys_def keys_update [simplified])
qed (simp add: addParent_def)

lemma addChild_simps [simp]:
  "keys_of (addChild i c e vs) = keys_of vs"
  "bare (addChild i c e vs) = bare vs"
  "childKeys (addChild i c e vs) k =
     (if k = i \<and> k \<in> set (keys_of vs) then insert c (childKeys vs k) else childKeys vs k)"
  "parentKeys (addChild i c e vs) = parentKeys vs"
proof -
  show "bare (addChild i c e vs) = bare vs" "parentKeys (addChild i c e vs) = parentKeys vs"
    by (auto simp: fun_eq_iff addChild_def bare_def parentKeys_def option.map_comp comp_def split: option.splits)
  show "childKeys (addChild i c e vs) k =
      (if k = i \<and> k \<in> set (keys_of vs) then insert c (childKeys vs k) else childKeys vs k)"
    using map_of_None_iff [of vs k]
    by (cases "map_of vs k"; cases "k = i") (simp_all add: addChild_def childKeys_def keys_update [simplified])
qed (simp add: addChild_def)

lemma edges_distinct_add:
  "edges_distinct vs \<Longrightarrow> edges_distinct (addParent i p e vs)"
  "edges_distinct vs \<Longrightarrow> edges_distinct (addChild i p e vs)"
  unfolding edges_distinct_def addParent_def addChild_def
  by (auto simp: map_of_amodify_Some distinct_keys_update)

lemma addVirtualEdges_eq:
  "addVirtualEdges c vs =
     (let i = cName c;
          be = \<lparr>geFrom = beginVertex, geTo = i, geCondition = ConditionNone\<rparr>;
          ee = \<lparr>geFrom = i, geTo = endVertex, geCondition = ConditionNone\<rparr>
      in addChild i endVertex ee (addParent endVertex i ee
           (addParent i beginVertex be (addChild beginVertex i be vs))))"
  by (simp add: addVirtualEdges_def addChild_def addParent_def)

lemma addAfterEdge_eq:
  "addAfterEdge d a vs =
     (let e = \<lparr>geFrom = asName a, geTo = d, geCondition = asCondition a\<rparr>
      in addParent d (asName a) e (addChild (asName a) d e vs))"
  by (simp add: addAfterEdge_def addChild_def addParent_def Let_def)

text \<open>The edges of a project, in the order they are added.\<close>

definition afterEdges :: "Command list \<Rightarrow> (string \<times> AfterSpec) list" where
  "afterEdges cs = concat (map (\<lambda>c. map (Pair (cName c)) (cAfter c)) cs)"

lemma fold_afterEdges:
  "fold (\<lambda>c. fold (addAfterEdge (cName c)) (cAfter c)) cs vs = fold (\<lambda>(d, a). addAfterEdge d a) (afterEdges cs) vs"
proof (induction cs arbitrary: vs)
  case (Cons c cs)
  have "fold (\<lambda>(d, a). addAfterEdge d a) (map (Pair (cName c)) as) vs = fold (addAfterEdge (cName c)) as vs"
    for as by (induction as arbitrary: vs) auto
  with Cons show ?case by (simp add: afterEdges_def)
qed (simp add: afterEdges_def)

lemma fold_virtual:
  fixes cs :: "Command list"
  shows "keys_of (fold addVirtualEdges cs vs) = keys_of vs"
    and "bare (fold addVirtualEdges cs vs) = bare vs"
    and "edges_distinct vs \<Longrightarrow> edges_distinct (fold addVirtualEdges cs vs)"
    and "k \<noteq> beginVertex \<Longrightarrow> childKeys (fold addVirtualEdges cs vs) k \<subseteq> insert endVertex (childKeys vs k)"
    and "k \<noteq> endVertex \<Longrightarrow> parentKeys (fold addVirtualEdges cs vs) k \<subseteq> insert beginVertex (parentKeys vs k)"
proof (induction cs arbitrary: vs)
  case (Cons c cs)
  {
    case 1 then show ?case using Cons(1) by (simp add: addVirtualEdges_eq Let_def)
  next
    case 2 then show ?case using Cons(2) by (simp add: addVirtualEdges_eq Let_def)
  next
    case 3 then show ?case using Cons(3) by (simp add: addVirtualEdges_eq Let_def edges_distinct_add)
  next
    case 4
    with Cons(4) [of "addVirtualEdges c vs"] show ?case
      by (auto simp: addVirtualEdges_eq Let_def split: if_splits)
  next
    case 5
    with Cons(5) [of "addVirtualEdges c vs"] show ?case
      by (auto simp: addVirtualEdges_eq Let_def split: if_splits)
  }
qed auto

lemma fold_after:
  shows "keys_of (fold (\<lambda>(d, a). addAfterEdge d a) es vs) = keys_of vs"
    and "bare (fold (\<lambda>(d, a). addAfterEdge d a) es vs) = bare vs"
    and "edges_distinct vs \<Longrightarrow> edges_distinct (fold (\<lambda>(d, a). addAfterEdge d a) es vs)"
    and "k \<in> set (keys_of vs) \<Longrightarrow> childKeys (fold (\<lambda>(d, a). addAfterEdge d a) es vs) k =
           childKeys vs k \<union> {d. \<exists>a. (d, a) \<in> set es \<and> asName a = k}"
    and "k \<in> set (keys_of vs) \<Longrightarrow> parentKeys (fold (\<lambda>(d, a). addAfterEdge d a) es vs) k =
           parentKeys vs k \<union> {asName a |a. (k, a) \<in> set es}"
proof (induction es arbitrary: vs)
  case (Cons e es)
  obtain d a where e: "e = (d, a)" by fastforce
  {
    case 1 then show ?case using Cons(1) by (simp add: addAfterEdge_eq Let_def e)
  next
    case 2 then show ?case using Cons(2) by (simp add: addAfterEdge_eq Let_def e)
  next
    case 3 then show ?case using Cons(3) by (simp add: addAfterEdge_eq Let_def edges_distinct_add e)
  next
    case 4
    with Cons(4) [of "addAfterEdge d a vs"] show ?case
      by (auto simp: addAfterEdge_eq Let_def e split: if_splits)
  next
    case 5
    with Cons(5) [of "addAfterEdge d a vs"] show ?case
      by (auto simp: addAfterEdge_eq Let_def e split: if_splits)
  }
qed simp_all

section \<open>The graph of a project\<close>

text \<open>Projects as \<^verbatim>\<open>Normalize\<close> returns them: distinct names, none of them a sentinel.\<close>

definition names_ok :: "ComposeSpec \<Rightarrow> bool" where
  "names_ok spec \<longleftrightarrow> distinct (map cName (sCommands spec)) \<and>
     (\<forall>c \<in> set (sCommands spec). cName c \<noteq> beginVertex \<and> cName c \<noteq> endVertex)"

definition commandVertices ::
  "(string, commandSnapshot) gomap \<Rightarrow> string set \<Rightarrow> targetSet \<Rightarrow> Command list \<Rightarrow> vertexMap \<Rightarrow> vertexMap" where
  "commandVertices snaps closure targets cs vs =
     fold (\<lambda>c. AList.update (cName c) (buildVertex snaps closure targets c)) cs vs"

lemma commandVertices_lookup:
  "distinct (map cName cs) \<Longrightarrow> map_of (commandVertices snaps closure targets cs vs) i =
     (case List.find (\<lambda>c. cName c = i) cs of
        Some c \<Rightarrow> Some (buildVertex snaps closure targets c) | None \<Rightarrow> map_of vs i)"
proof (induction cs arbitrary: vs)
  case (Cons c cs)
  have "List.find (\<lambda>d. cName d = i) cs = None" if "cName c = i"
    using Cons.prems that unfolding find_None_iff by (metis distinct.simps(2) imageI list.map(2) list.set_map)
  with Cons show ?case by (auto simp: commandVertices_def split: option.splits)
qed (simp add: commandVertices_def)

lemma commandVertices_distinct:
  "distinct (keys_of vs) \<Longrightarrow> distinct (keys_of (commandVertices snaps closure targets cs vs))"
  by (induction cs arbitrary: vs) (simp_all add: commandVertices_def distinct_keys_update)

lemma buildVertex_simps [simp]:
  "vID (buildVertex snaps closure targets c) = cName c"
  "vCommand (buildVertex snaps closure targets c) = Some c"
  "vInClosure (buildVertex snaps closure targets c) = (cName c \<in> closure)"
  "vParents (buildVertex snaps closure targets c) = []"
  "vChildren (buildVertex snaps closure targets c) = []"
  "\<not> vQueued (buildVertex snaps closure targets c)" "\<not> vInProgress (buildVertex snaps closure targets c)"
  "\<not> vConsumed (buildVertex snaps closure targets c)" "\<not> vBlocked (buildVertex snaps closure targets c)"
  "vErr (buildVertex snaps closure targets c) = None" "vOrder (buildVertex snaps closure targets c) = 0"
  by (simp_all add: buildVertex_def newVertex_def Let_def)

lemma newVertex_simps [simp]:
  "vID (newVertex i) = i" "vCommand (newVertex i) = None" "\<not> vInClosure (newVertex i)"
  "vParents (newVertex i) = []" "vChildren (newVertex i) = []"
  "\<not> vQueued (newVertex i)" "\<not> vInProgress (newVertex i)" "\<not> vConsumed (newVertex i)"
  "\<not> vBlocked (newVertex i)" "vErr (newVertex i) = None" "vOrder (newVertex i) = 0"
  by (simp_all add: newVertex_def)

definition baseVertices :: "ComposeSpec \<Rightarrow> (string, commandSnapshot) gomap \<Rightarrow> string set \<Rightarrow> targetSet \<Rightarrow> vertexMap" where
  "baseVertices spec snaps closure targets = commandVertices snaps closure targets (sCommands spec)
     (AList.update endVertex (newVertex endVertex) (AList.update beginVertex (newVertex beginVertex) []))"

lemma build_Vertices:
  "Vertices (buildReconcileGraph spec snaps closure targets) =
     fold (\<lambda>(d, a). addAfterEdge d a) (afterEdges (sCommands spec))
       (fold addVirtualEdges (sCommands spec) (baseVertices spec snaps closure targets))"
  by (simp add: buildReconcileGraph_def baseVertices_def commandVertices_def fold_afterEdges Let_def)

lemma base_lookup:
  assumes "names_ok spec" and "map_of (baseVertices spec snaps closure targets) i = Some v"
  shows "(\<exists>c \<in> set (sCommands spec). cName c = i \<and> v = buildVertex snaps closure targets c) \<or>
         i \<in> {beginVertex, endVertex} \<and> v = newVertex i"
  using assms
  by (auto simp: baseVertices_def commandVertices_lookup names_ok_def find_None_iff
      find_Some_iff split: option.splits if_splits) (metis nth_mem)?

lemma bare_sel:
  assumes "bare vs i = bare ws i" and "map_of vs i = Some v"
  obtains w where "map_of ws i = Some w" "vID v = vID w" "vCommand v = vCommand w" "vInClosure v = vInClosure w"
    "vQueued v = vQueued w" "vInProgress v = vInProgress w" "vConsumed v = vConsumed w" "vBlocked v = vBlocked w"
    "vErr v = vErr w" "vOrder v = vOrder w" "vSnapshot v = vSnapshot w" "vReplicas v = vReplicas w"
    "vState v = vState w" "vExitCode v = vExitCode w"
proof (cases "map_of ws i")
  case (Some w)
  with assms have "v\<lparr>vParents := [], vChildren := []\<rparr> = w\<lparr>vParents := [], vChildren := []\<rparr>"
    by (simp add: bare_def)
  from arg_cong [OF this, of vID] arg_cong [OF this, of vCommand] arg_cong [OF this, of vInClosure]
    arg_cong [OF this, of vQueued] arg_cong [OF this, of vInProgress] arg_cong [OF this, of vConsumed]
    arg_cong [OF this, of vBlocked] arg_cong [OF this, of vErr] arg_cong [OF this, of vOrder]
    arg_cong [OF this, of vSnapshot] arg_cong [OF this, of vReplicas] arg_cong [OF this, of vState]
    arg_cong [OF this, of vExitCode]
  show ?thesis by (intro that [OF Some]) simp_all
qed (use assms in \<open>simp add: bare_def\<close>)

lemma build_lookup:
  assumes ok: "names_ok spec" and v: "vertex (buildReconcileGraph spec snaps closure targets) i = Some v"
  obtains w where "map_of (baseVertices spec snaps closure targets) i = Some w"
    "vID v = vID w" "vCommand v = vCommand w" "vInClosure v = vInClosure w"
    "vQueued v = vQueued w" "vInProgress v = vInProgress w" "vConsumed v = vConsumed w" "vBlocked v = vBlocked w"
    "vErr v = vErr w" "vOrder v = vOrder w" "vSnapshot v = vSnapshot w" "vReplicas v = vReplicas w"
    "vState v = vState w" "vExitCode v = vExitCode w"
proof -
  have "bare (Vertices (buildReconcileGraph spec snaps closure targets)) i =
        bare (baseVertices spec snaps closure targets) i"
    by (simp add: build_Vertices fold_after(2) fold_virtual(2))
  from bare_sel [OF this v] that show thesis by blast
qed

lemma build_fresh:
  assumes ok: "names_ok spec"
  shows "graph_fresh (buildReconcileGraph spec snaps closure targets)"
  unfolding graph_fresh_def
proof (intro conjI allI impI)
  show "seq (buildReconcileGraph spec snaps closure targets) = 0"
    by (simp add: buildReconcileGraph_def Let_def)
  fix i v assume v: "vertex (buildReconcileGraph spec snaps closure targets) i = Some v"
  from build_lookup [OF ok v] obtain w where
    w: "map_of (baseVertices spec snaps closure targets) i = Some w" "vQueued v = vQueued w"
    "vInProgress v = vInProgress w" "vConsumed v = vConsumed w" "vBlocked v = vBlocked w"
    "vErr v = vErr w" "vOrder v = vOrder w" by metis
  from base_lookup [OF ok w(1)] w(2-)
  show "\<not> vQueued v" "\<not> vInProgress v" "\<not> vConsumed v" "\<not> vBlocked v" "vErr v = None" "vOrder v = 0"
    by auto
qed

lemma base_empty_edges:
  assumes "names_ok spec"
  shows "parentKeys (baseVertices spec snaps closure targets) i = {}"
    and "childKeys (baseVertices spec snaps closure targets) i = {}"
    and "edges_distinct (baseVertices spec snaps closure targets)"
proof -
  have "vParents v = []" "vChildren v = []"
    if "map_of (baseVertices spec snaps closure targets) j = Some v" for j v
    using base_lookup [OF assms that] by auto
  then show "parentKeys (baseVertices spec snaps closure targets) i = {}"
    "childKeys (baseVertices spec snaps closure targets) i = {}"
    "edges_distinct (baseVertices spec snaps closure targets)"
    by (auto simp: parentKeys_def childKeys_def edges_distinct_def split: option.splits)
qed

lemma afterEdges_in: "(d, a) \<in> set (afterEdges cs) \<longleftrightarrow> (\<exists>c \<in> set cs. cName c = d \<and> a \<in> set (cAfter c))"
  by (auto simp: afterEdges_def)

text \<open>Between real vertices, the edges are the \<^verbatim>\<open>after:\<close> declarations.\<close>

lemma build_children:
  assumes ok: "names_ok spec" and v: "vertex (buildReconcileGraph spec snaps closure targets) i = Some v"
    and "i \<noteq> beginVertex" "j \<noteq> endVertex"
  shows "j \<in> set (keys_of (vChildren v)) \<longleftrightarrow> (i, j) \<in> dep_rel (sCommands spec)"
proof -
  let ?b = "fold addVirtualEdges (sCommands spec) (baseVertices spec snaps closure targets)"
  have mem: "i \<in> set (keys_of (Vertices (buildReconcileGraph spec snaps closure targets)))"
    using v by (metis map_of_None_iff option.distinct(1))
  have "i \<in> set (keys_of ?b)" using mem unfolding build_Vertices fold_after(1) .
  note k = fold_after(4) [OF this, of "afterEdges (sCommands spec)"]
  have "childKeys ?b i \<subseteq> {endVertex}"
    using fold_virtual(4) [OF assms(3), of "sCommands spec" "baseVertices spec snaps closure targets"]
      base_empty_edges(2) [OF ok] by simp
  with k assms(4) have "j \<in> childKeys (Vertices (buildReconcileGraph spec snaps closure targets)) i \<longleftrightarrow>
      (\<exists>a. (j, a) \<in> set (afterEdges (sCommands spec)) \<and> asName a = i)"
    unfolding build_Vertices by auto
  also have "\<dots> \<longleftrightarrow> (i, j) \<in> dep_rel (sCommands spec)" unfolding afterEdges_in dep_rel_def by blast
  finally show ?thesis using v by (simp add: childKeys_def)
qed

lemma build_parents:
  assumes ok: "names_ok spec" and v: "vertex (buildReconcileGraph spec snaps closure targets) i = Some v"
    and "i \<noteq> endVertex" "j \<noteq> beginVertex"
  shows "j \<in> set (keys_of (vParents v)) \<longleftrightarrow> (j, i) \<in> dep_rel (sCommands spec)"
proof -
  let ?b = "fold addVirtualEdges (sCommands spec) (baseVertices spec snaps closure targets)"
  have mem: "i \<in> set (keys_of (Vertices (buildReconcileGraph spec snaps closure targets)))"
    using v by (metis map_of_None_iff option.distinct(1))
  have "i \<in> set (keys_of ?b)" using mem unfolding build_Vertices fold_after(1) .
  note k = fold_after(5) [OF this, of "afterEdges (sCommands spec)"]
  have "parentKeys ?b i \<subseteq> {beginVertex}"
    using fold_virtual(5) [OF assms(3), of "sCommands spec" "baseVertices spec snaps closure targets"]
      base_empty_edges(1) [OF ok] by simp
  with k assms(4) have "j \<in> parentKeys (Vertices (buildReconcileGraph spec snaps closure targets)) i \<longleftrightarrow>
      (\<exists>a. (i, a) \<in> set (afterEdges (sCommands spec)) \<and> asName a = j)"
    unfolding build_Vertices by auto
  also have "\<dots> \<longleftrightarrow> (j, i) \<in> dep_rel (sCommands spec)" unfolding afterEdges_in dep_rel_def by blast
  finally show ?thesis using v by (simp add: parentKeys_def)
qed

lemma build_real:
  assumes ok: "names_ok spec" and v: "vertex (buildReconcileGraph spec snaps closure targets) i = Some v"
  shows "vID v = i" and "vInClosure v \<Longrightarrow> vCommand v \<noteq> None \<and> i \<noteq> beginVertex \<and> i \<noteq> endVertex"
proof -
  from build_lookup [OF ok v] obtain w where
    w: "map_of (baseVertices spec snaps closure targets) i = Some w" "vID v = vID w"
    "vCommand v = vCommand w" "vInClosure v = vInClosure w" by metis
  from base_lookup [OF ok w(1)] w(2-) ok
  show "vID v = i" "vInClosure v \<Longrightarrow> vCommand v \<noteq> None \<and> i \<noteq> beginVertex \<and> i \<noteq> endVertex"
    by (auto simp: names_ok_def)
qed

lemma build_wf:
  assumes ok: "names_ok spec"
  shows "graph_wf (buildReconcileGraph spec snaps closure targets)" (is "graph_wf ?g")
  unfolding graph_wf_def
proof (intro conjI allI impI)
  have "distinct (keys_of (baseVertices spec snaps closure targets))"
    unfolding baseVertices_def by (rule commandVertices_distinct) (simp add: begin_neq_end)
  then show "distinct (keys_of (Vertices ?g))"
    by (simp only: build_Vertices fold_after(1) fold_virtual(1))
  have ed: "edges_distinct (Vertices ?g)"
    unfolding build_Vertices by (intro fold_after(3) fold_virtual(3) base_empty_edges(3) ok)
  fix i v assume v: "vertex ?g i = Some v"
  show "vID v = i" by (rule build_real(1) [OF ok v])
  show "distinct (keys_of (vParents v))" "distinct (keys_of (vChildren v))"
    using ed v by (auto simp: edges_distinct_def)
  show "vCommand v \<noteq> None" "i \<noteq> beginVertex" "i \<noteq> endVertex" if "vInClosure v"
    using build_real(2) [OF ok v that] by simp_all
next
  fix i v j w
  assume v: "vertex ?g i = Some v" and w: "vertex ?g j = Some w" and c: "vInClosure v" "vInClosure w"
  from build_real(2) [OF ok v c(1)] build_real(2) [OF ok w c(2)]
    build_children [OF ok v] build_parents [OF ok w]
  show "(j \<in> set (keys_of (vChildren v))) = (i \<in> set (keys_of (vParents w)))" by simp
qed

text \<open>On an acyclic project both walk orders are well founded.\<close>

lemma build_nb_wf:
  assumes ok: "names_ok spec" and ac: "acyclic (dep_rel (sCommands spec))"
  shows "wf (nb_rel dir (buildReconcileGraph spec snaps closure targets))" (is "wf (nb_rel dir ?g)")
proof (rule wf_subset)
  show "wf (case dir of walkFromBegin \<Rightarrow> dep_rel (sCommands spec) | walkFromEnd \<Rightarrow> (dep_rel (sCommands spec))\<inverse>)"
    using ac by (auto intro!: finite_acyclic_wf finite_acyclic_wf_converse split: walkDirection.splits)
  show "nb_rel dir ?g \<subseteq> (case dir of walkFromBegin \<Rightarrow> dep_rel (sCommands spec) | walkFromEnd \<Rightarrow> (dep_rel (sCommands spec))\<inverse>)"
  proof (rule subrelI)
    fix j i assume "(j, i) \<in> nb_rel dir ?g"
    then obtain v where v: "vertex ?g i = Some v" "vInClosure v" "j \<in> neighbours v dir"
      by (auto simp: nb_rel_def has_def)
    with build_real(2) [OF ok v(1,2)] build_children [OF ok v(1)] build_parents [OF ok v(1)]
    show "(j, i) \<in> (case dir of walkFromBegin \<Rightarrow> dep_rel (sCommands spec) | walkFromEnd \<Rightarrow> (dep_rel (sCommands spec))\<inverse>)"
      by (cases dir) (auto simp: neighbours_def readinessKeys_def)
  qed
qed

lemma build_targets:
  assumes ok: "names_ok spec"
  shows "target (buildReconcileGraph spec snaps closure targets) i \<longleftrightarrow>
         i \<in> closure \<and> i \<in> set (map cName (sCommands spec))"
proof -
  let ?b = "baseVertices spec snaps closure targets"
  have keys: "keys_of (Vertices (buildReconcileGraph spec snaps closure targets)) = keys_of ?b"
    by (simp only: build_Vertices fold_after(1) fold_virtual(1))
  show ?thesis
  proof (cases "map_of ?b i")
    case None
    then have n: "vertex (buildReconcileGraph spec snaps closure targets) i = None"
      using keys by (simp add: map_of_None_iff)
    from None ok have "i \<notin> set (map cName (sCommands spec))"
      by (force simp: baseVertices_def commandVertices_lookup names_ok_def find_None_iff split: option.splits)
    with n show ?thesis by (simp add: target_def)
  next
    case (Some w)
    then have "i \<in> set (keys_of (Vertices (buildReconcileGraph spec snaps closure targets)))"
      unfolding keys by (metis map_of_None_iff option.distinct(1))
    then obtain v where v: "vertex (buildReconcileGraph spec snaps closure targets) i = Some v"
      by (metis map_of_None_iff not_None_eq)
    from build_lookup [OF ok v] Some have "vCommand v = vCommand w" "vInClosure v = vInClosure w"
      by (metis option.inject)+
    with base_lookup [OF ok Some] v ok show ?thesis
      by (auto simp: target_def names_ok_def)
  qed
qed

end
