(* ===== verification/Reconcile_Theorems.thy ===== *)
theory Reconcile_Theorems
  imports Reconcile_Build
begin

text \<open>
  The properties of walks of a project's graph, for every interleaving of the workers
  and every behaviour of the actions: no deadlock, termination, exclusive and
  dependency-ordered actions, complete outcomes, and the order in which a stop
  reports its commands.
\<close>

section \<open>Facts about whole walks\<close>

lemma reach_freezes:
  assumes "walk_reach act dir s0 s" and "winv dir s0"
  shows "freezes (wGraph s0) (wGraph s)"
  using assms
proof (induction rule: walk_reach.induct)
  case (step s t)
  then show ?case using walk_step_freezes [OF step.hyps(2) winv_reach [OF step.hyps(1)]] freezes_trans by blast
qed simp

lemma walk_facts:
  assumes w: "walk act dir limit g out g'" and wf: "graph_wf g" and fresh: "graph_fresh g"
  shows "ginv dir g'" and "results_inv act g'" and "freezes g g'" and "\<not> out \<Longrightarrow> allConsumed g'"
proof -
  let ?g = "fst (seed g dir)"
  have "ginv dir g' \<and> results_inv act g' \<and> freezes g g' \<and> (\<not> out \<longrightarrow> allConsumed g')"
    using w
  proof cases
    case (drained ks)
    have "visits ks (keys_of (Vertices ?g))" using drained by simp
    note fin = ginv_finalize [OF ginv_seed [OF wf fresh] drained(3) this]
    from fin drained results_inv_finalize [OF results_inv_seed [OF fresh]] finalize_freezes seed_freezes freezes_trans
    show ?thesis by (metis (no_types))
  next
    case (ran s)
    have inv0: "winv dir (walkInit g dir limit)" by (rule winv_init [OF wf fresh ran(3)])
    have inv: "winv dir s" by (rule winv_reach [OF ran(4) inv0])
    have g0: "wGraph (walkInit g dir limit) = ?g" by (simp add: walkInit_def)
    have "results_inv act (wGraph s)"
      by (rule results_inv_reach [OF ran(4) inv0]) (simp add: g0 results_inv_seed [OF fresh])
    moreover have "freezes g (wGraph s)"
      using seed_freezes reach_freezes [OF ran(4) inv0] freezes_trans unfolding g0 by blast
    ultimately show ?thesis using winvD(1) [OF inv] walk_ends(2) [OF inv ran(5)] ran by simp
  qed
  then show "ginv dir g'" "results_inv act g'" "freezes g g'" "\<not> out \<Longrightarrow> allConsumed g'" by blast+
qed

lemma walk_exists:
  assumes wf: "graph_wf g" and fresh: "graph_fresh g" and act: "\<And>i. \<exists>res. act i res"
  shows "\<exists>g'. walk act dir limit g False g'"
proof (cases "allDone (fst (seed g dir))")
  case True
  have "visits (keys_of (Vertices g)) (keys_of (Vertices g))"
    using wf by (simp add: visits_self graph_wf_def)
  from walk.drained [OF True this] show ?thesis by blast
next
  case False
  let ?s = "walkInit g dir limit"
  from can_return [OF winv_init [OF wf fresh False, of limit], of act] act obtain t where
    t: "walk_reach act dir ?s t" "\<forall>w \<in> set (wWorkers t). w = Exited" "wOutside t = wOutside ?s"
    "length (wWorkers t) = length (wWorkers ?s)" by blast
  have "wWorkers t \<noteq> []" using t(4) workers_init [of g dir limit] by (metis length_0_conv)
  with all_exited t(2) have "set (wWorkers t) = {Exited}" by blast
  from walk.ran [OF False t(1) this] t(3) show ?thesis by (auto simp: walkInit_def)
qed

lemma no_blocked_reach:
  assumes "walk_reach act dir s0 s" and inv0: "winv dir s0" and wf: "wf (nb_rel dir (wGraph s0))"
    and ok: "dir = walkFromBegin \<longrightarrow> acts_satisfy act g0" and fr: "freezes g0 (wGraph s0)"
    and res: "results_inv act (wGraph s0)" and nb: "no_blocked (wGraph s0)"
  shows "no_blocked (wGraph s)"
  using assms(1)
proof (induction rule: walk_reach.induct)
  case (step s t)
  note fz = reach_freezes [OF step.hyps(1) inv0]
  have "wf (nb_rel dir (wGraph s))" using wf nb_rel_freezes [OF fz] by simp
  from no_blocked_step [OF step.hyps(2) winv_reach [OF step.hyps(1) inv0] this ok freezes_trans [OF fr fz]
      results_inv_reach [OF step.hyps(1) inv0 res] step.IH]
  show ?case .
qed (rule nb)

text \<open>On a well-founded graph whose actions satisfy their dependents, nothing is left out.\<close>

lemma walk_clean:
  assumes w: "walk act dir limit g out g'" and wf: "graph_wf g" and fresh: "graph_fresh g"
    and nbw: "wf (nb_rel dir g)" and ok: "dir = walkFromBegin \<longrightarrow> acts_satisfy act g"
  shows "no_blocked g'"
proof -
  let ?g = "fst (seed g dir)"
  have fz: "freezes g ?g" by (rule seed_freezes)
  have nb: "no_blocked ?g" using seed_flags(2) [OF fresh] by (auto simp: no_blocked_def has_def)
  have wf': "wf (nb_rel dir ?g)" using nbw nb_rel_freezes [OF fz] by simp
  from w show ?thesis
  proof cases
    case (drained ks)
    note all = clean_done_consumed [OF ginv_seed [OF wf fresh] drained(3) wf' ok fz results_inv_seed [OF fresh] nb]
    show ?thesis unfolding no_blocked_def
    proof (intro allI notI)
      fix i assume "has vBlocked g' i"
      then obtain v' where v': "vertex (finalize ?g ks) i = Some v'" "vBlocked v'"
        using drained by (auto elim: hasE)
      from freezes_Some [OF finalize_freezes v'(1)] obtain v where v: "vertex ?g i = Some v" .
      from finalize_vertex [OF v'(1) v] all v v'(2) nb show False
        by (auto simp: allConsumed_def no_blocked_def has_def)
    qed
  next
    case (ran s)
    have "wGraph (walkInit g dir limit) = ?g" by (simp add: walkInit_def)
    with no_blocked_reach [OF ran(4) winv_init [OF wf fresh ran(3)] _ ok] wf' fz results_inv_seed [OF fresh] nb ran
    show ?thesis by simp
  qed
qed

section \<open>Scheduling\<close>

text \<open>C1: The walk of a project's graph never deadlocks. In every state any interleaving
  of the workers can reach, as long as a worker has not returned and running actions can
  return, some worker can take a step without help from the caller's context, and a
  worker about to send a vertex finds room in the work channel, whose buffer has the
  size \<^verbatim>\<open>max(commandCount, 1)\<close>.\<close>

theorem walk_deadlock_free:
  assumes "names_ok spec" and "g = buildReconcileGraph spec snaps closure targets"
    and "\<not> allDone (fst (seed g dir))"
    and "walk_reach act dir (walkInit g dir limit) s"
    and "\<exists>w \<in> set (wWorkers s). w \<noteq> Exited"
    and "\<And>i. Acting i \<in> set (wWorkers s) \<Longrightarrow> \<exists>res. act i res"
  shows "(\<exists>t. walk_step act dir s t \<and> wOutside t = wOutside s) \<and>
         length (wChan s) \<le> wCap s \<and>
         (\<forall>k n ns. workerAt s k (Sending (n # ns)) \<longrightarrow> length (wChan s) < wCap s)"
proof -
  have "winv dir s"
    using winv_reach [OF assms(4)] winv_init [OF build_wf build_fresh, OF assms(1,1)] assms(2,3) by blast
  moreover from this assms(6) have "\<exists>t. walk_step act dir s t \<and> wOutside t = wOutside s"
    by (intro progress [OF _ assms(5)]) auto
  ultimately show ?thesis using channel_le_cap send_room by blast
qed

text \<open>C2: Every run of the walk ends: the steps from states it can reach are well
  founded, whatever the actions report and whenever the caller's context ends, so no
  interleaving keeps the workers busy forever. And a walk whose actions return does
  return.\<close>

theorem walk_terminates:
  assumes "names_ok spec" and "g = buildReconcileGraph spec snaps closure targets"
    and "\<And>i. \<exists>res. act i res"
  shows "(\<not> allDone (fst (seed g dir)) \<longrightarrow>
            wf {(t, s). walk_reach act dir (walkInit g dir limit) s \<and> walk_step act dir s t}) \<and>
         (\<exists>g'. walk act dir limit g False g')"
proof (intro conjI impI)
  have wf: "graph_wf g" and fresh: "graph_fresh g" using assms(1,2) by (simp_all add: build_wf build_fresh)
  show "\<exists>g'. walk act dir limit g False g'" by (rule walk_exists [OF wf fresh assms(3)])
  assume "\<not> allDone (fst (seed g dir))"
  from winv_reach [OF _ winv_init [OF wf fresh this]]
  show "wf {(t, s). walk_reach act dir (walkInit g dir limit) s \<and> walk_step act dir s t}"
    by (intro wf_subset [OF wf_winv_step]) auto
qed

text \<open>C3: Actions run one at a time per command and only when their dependencies allow
  it. Whenever a worker runs the action of a command, every dependency edge of that
  command is satisfied in the graph (for a stop: every dependent in the closure has
  been acted on), the command has not been acted on before, and no other worker is
  running its action.\<close>

theorem action_exclusive:
  assumes "names_ok spec" and "g = buildReconcileGraph spec snaps closure targets"
    and "\<not> allDone (fst (seed g dir))"
    and "walk_reach act dir (walkInit g dir limit) s" and "workerAt s k (Acting i)"
  shows "\<exists>v. vertex (wGraph s) i = Some v \<and> i \<in> closure \<and> edge_ok (wGraph s) dir v \<and> \<not> vConsumed v \<and>
         (\<forall>k'. workerAt s k' (Acting i) \<longrightarrow> k' = k)"
proof -
  have wf: "graph_wf g" and fresh: "graph_fresh g" using assms(1,2) by (simp_all add: build_wf build_fresh)
  have inv0: "winv dir (walkInit g dir limit)" by (rule winv_init [OF wf fresh assms(3)])
  have inv: "winv dir s" by (rule winv_reach [OF assms(4) inv0])
  from acting_inProgress [OF winvD(2) [OF inv] assms(5)] obtain v where
    v: "vertex (wGraph s) i = Some v" "vInProgress v" by (auto elim: hasE)
  note vC = queued_target [OF winvD(1) [OF inv] v(1) disjI2, OF v(2)]
  have "freezes g (wGraph s)" using seed_freezes reach_freezes [OF assms(4) inv0] freezes_trans
    by (fastforce simp: walkInit_def)
  moreover have "target (wGraph s) i" using v(1) vC by (simp add: target_def)
  ultimately have "target g i" using freezes_target by blast
  then have "i \<in> closure" using build_targets [OF assms(1)] assms(2) by simp
  moreover have "edge_ok (wGraph s) dir v" using ginvD(1) [OF winvD(1) [OF inv] v(1)] v(2) by (simp add: vertex_inv_def)
  moreover have "k' = k" if "workerAt s k' (Acting i)" for k'
  proof (rule ccontr)
    assume "k' \<noteq> k"
    with sum_list_two [of k "wWorkers s" k' "\<lambda>w. count_list (wAct w) i"] assms(5) that
    have "2 \<le> acount s i" by (simp add: acount_def)
    then show False using count_inv_at(2) [OF winvD(2) [OF inv], of i]
      by (cases "has vInProgress (wGraph s) i") simp_all
  qed
  ultimately show ?thesis using v(1) vC(2) by blast
qed

text \<open>C4: A walk that returns without the caller's context having ended accounts for
  every command of its closure. Each is consumed: either its action ran, its recorded
  state, exit code, error and force-kill flag are what the action reported, and all of
  its edges are satisfied; or it is blocked and carries an error.\<close>

theorem walk_settles:
  assumes "names_ok spec" and "g = buildReconcileGraph spec snaps closure targets"
    and "walk act dir limit g False g'"
    and "i \<in> closure" and "i \<in> set (map cName (sCommands spec))"
  shows "\<exists>v. vertex g' i = Some v \<and> vConsumed v \<and>
     (if vBlocked v then vErr v \<noteq> None else edge_ok g' dir v \<and>
        (\<exists>res. act i res \<and> vState v = arState res \<and> vExitCode v = arExitCode res \<and>
           vErr v = arErr res \<and> vForceKilled v = arForceKilled res))"
proof -
  have wf: "graph_wf g" and fresh: "graph_fresh g" using assms(1,2) by (simp_all add: build_wf build_fresh)
  note f = walk_facts [OF assms(3) wf fresh]
  have "target g' i" using build_targets [OF assms(1)] assms(2,4,5) freezes_target [OF f(3)] by simp
  with f(4) obtain v where v: "vertex g' i = Some v" "vConsumed v"
    by (auto simp: allConsumed_def has_def)
  with f(2) ginvD(1) [OF f(1) v(1)] show ?thesis
    by (auto simp: results_inv_def reported_def vertex_inv_def)
qed

section \<open>Starting and stopping a whole project\<close>

lemma sorted_before:
  assumes "sorted (map f xs)" and "x \<in> set xs" "y \<in> set xs" and "f x < (f y :: 'a :: linorder)"
  shows "\<exists>a b. a < b \<and> b < length xs \<and> xs ! a = x \<and> xs ! b = y"
proof -
  from assms(2,3) obtain a b where ab: "a < length xs" "xs ! a = x" "b < length xs" "xs ! b = y"
    by (auto simp: in_set_conv_nth)
  have "\<not> b \<le> a"
  proof
    assume "b \<le> a"
    with sorted_nth_mono [OF assms(1), of b a] ab have "f y \<le> f x" by simp
    with assms(4) show False by simp
  qed
  with ab show ?thesis by (intro exI [of _ a] exI [of _ b]) simp
qed

lemma set_map_filter_iff: "y \<in> set (List.map_filter f xs) \<longleftrightarrow> (\<exists>x \<in> set xs. f x = Some y)"
  by (induction xs) (auto simp: List.map_filter_simps split: option.splits)

lemma inClosureVertex_Some: "inClosureVertex g n = Some v \<longleftrightarrow> vertex g n = Some v \<and> vInClosure v"
  by (auto simp: inClosureVertex_def split: option.splits)

lemma map_filter_map_fst:
  "map fst (List.map_filter (\<lambda>c. map_option (Pair (f c)) (h (f c))) cs) = filter (\<lambda>n. h n \<noteq> None) (map f cs)"
  by (induction cs) (auto simp: List.map_filter_simps split: option.splits)

lemma stopItems_names: "map fst (stopItems g spec) = filter (\<lambda>n. inClosureVertex g n \<noteq> None) (map cName (sCommands spec))"
  unfolding stopItems_def by (rule map_filter_map_fst)

lemma stopItems_mem:
  "(n, v) \<in> set (stopItems g spec) \<longleftrightarrow> n \<in> set (map cName (sCommands spec)) \<and> vertex g n = Some v \<and> vInClosure v"
  by (auto simp: stopItems_def set_map_filter_iff inClosureVertex_Some)

lemma walk_target_vertex:
  assumes ok: "names_ok spec" and fr: "freezes (buildReconcileGraph spec snaps closure targets) g'"
    and "i \<in> closure" and "i \<in> set (map cName (sCommands spec))"
  obtains v where "vertex g' i = Some v" "vInClosure v"
  using build_targets [OF ok, of snaps closure targets i] freezes_target [OF fr, of i] assms(3,4)
  by (auto simp: target_def has_def)

lemma inClosureVertex_iff:
  assumes ok: "names_ok spec" and fr: "freezes (buildReconcileGraph spec snaps closure targets) g'"
    and n: "n \<in> set (map cName (sCommands spec))"
  shows "inClosureVertex g' n \<noteq> None \<longleftrightarrow> n \<in> closure"
proof -
  have "graph_wf g'" by (rule graph_wf_freezes [OF build_wf [OF ok] fr])
  then have "inClosureVertex g' n \<noteq> None \<longleftrightarrow> target g' n"
    by (auto simp: inClosureVertex_def graph_wf_target has_def split: option.splits)
  then show ?thesis using build_targets [OF ok] freezes_target [OF fr] n by simp
qed

lemma stop_facts:
  assumes ok: "names_ok spec" and ac: "acyclic (dep_rel (sCommands spec))"
    and g: "g = buildReconcileGraph spec snaps closure targets"
    and w: "walk act walkFromEnd limit g False g'"
  shows "mset (map stCommand (stopOutcomes g' spec)) =
           mset (filter (\<lambda>n. n \<in> closure) (map cName (sCommands spec)))"
    and "i \<in> closure \<Longrightarrow> i \<in> set (map cName (sCommands spec)) \<Longrightarrow> acted g' i"
    and "(i, j) \<in> dep_rel (sCommands spec) \<Longrightarrow> {i, j} \<subseteq> closure \<inter> set (map cName (sCommands spec)) \<Longrightarrow>
         \<exists>a b. a < b \<and> b < length (stopOutcomes g' spec) \<and>
           stCommand (stopOutcomes g' spec ! a) = j \<and> stCommand (stopOutcomes g' spec ! b) = i"
proof -
  have wf: "graph_wf g" and fresh: "graph_fresh g" using ok g by (simp_all add: build_wf build_fresh)
  note f = walk_facts [OF w wf fresh]
  have nb: "no_blocked g'"
    by (rule walk_clean [OF w wf fresh]) (use build_nb_wf [OF ok ac] g in simp_all)
  note fr = f(3) [unfolded g]
  let ?xs = "sort_key (\<lambda>(n, v). vOrder v) (stopItems g' spec)"
  have names: "map stCommand (stopOutcomes g' spec) = map fst ?xs"
    by (simp add: stopOutcomes_def case_prod_beta comp_def)
  have "mset (map fst ?xs) = mset (map fst (stopItems g' spec))" by simp
  also have "map fst (stopItems g' spec) = filter (\<lambda>n. n \<in> closure) (map cName (sCommands spec))"
    unfolding stopItems_names by (rule filter_cong [OF refl inClosureVertex_iff [OF ok fr]])
  finally show "mset (map stCommand (stopOutcomes g' spec)) =
      mset (filter (\<lambda>n. n \<in> closure) (map cName (sCommands spec)))" by (simp only: names)
  have done_all: "vConsumed v \<and> \<not> vBlocked v" if "vertex g' n = Some v" "vInClosure v" for n v
    using f(4) nb that graph_wf_target [OF graph_wf_freezes [OF wf f(3)], of n]
    by (simp add: allConsumed_def no_blocked_def) (metis has_Some)
  show "acted g' i" if "i \<in> closure" "i \<in> set (map cName (sCommands spec))"
    using walk_target_vertex [OF ok fr that] done_all by (metis acted_def has_def)
  assume d: "(i, j) \<in> dep_rel (sCommands spec)" and ij: "{i, j} \<subseteq> closure \<inter> set (map cName (sCommands spec))"
  obtain v where v: "vertex g' i = Some v" "vInClosure v" using walk_target_vertex [OF ok fr, of i] ij by blast
  obtain u where u: "vertex g' j = Some u" "vInClosure u" using walk_target_vertex [OF ok fr, of j] ij by blast
  from freezes_Some [OF fr v(1)] obtain v0 where v0: "vertex g i = Some v0" "fz v0 v" unfolding g .
  have "i \<noteq> beginVertex" "j \<noteq> endVertex" using ij ok by (auto simp: names_ok_def)
  with build_children [OF ok v0(1) [unfolded g]] d have "j \<in> neighbours v walkFromEnd"
    using shape_sel(5) [OF fz_shape [OF v0(2)]] by (simp add: neighbours_def readinessKeys_def)
  with ginvD(2) [OF f(1) v(1)] u done_all [OF v] have "vOrder u < vOrder v" by (auto simp: order_inv_def)
  moreover have "(j, u) \<in> set ?xs" "(i, v) \<in> set ?xs" using v u ij by (simp_all add: stopItems_mem)
  ultimately obtain a b where ab: "a < b" "b < length ?xs" "?xs ! a = (j, u)" "?xs ! b = (i, v)"
    using sorted_before [of "\<lambda>(n, v). vOrder v" ?xs "(j, u)" "(i, v)"] by auto
  then show "\<exists>a b. a < b \<and> b < length (stopOutcomes g' spec) \<and>
      stCommand (stopOutcomes g' spec ! a) = j \<and> stCommand (stopOutcomes g' spec ! b) = i"
    by (intro exI [of _ a] exI [of _ b]) (simp add: stopOutcomes_def)
qed

text \<open>C5: Stopping an acyclic project acts on every command of the closure, and
  \<^verbatim>\<open>stopOutcomes\<close> reports exactly those commands, in teardown order: when both a command
  and one that runs after it are stopped, the dependent is reported (and was acted on)
  before its dependency.\<close>

theorem stop_teardown_order:
  assumes "names_ok spec" and "acyclic (dep_rel (sCommands spec))"
    and "walk act walkFromEnd limit (buildReconcileGraph spec snaps closure targets) False g'"
    and "outs = stopOutcomes g' spec"
  shows "mset (map stCommand outs) = mset (filter (\<lambda>n. n \<in> closure) (map cName (sCommands spec))) \<and>
    (\<forall>i. i \<in> closure \<longrightarrow> i \<in> set (map cName (sCommands spec)) \<longrightarrow> acted g' i) \<and>
    (\<forall>i j. (i, j) \<in> dep_rel (sCommands spec) \<longrightarrow> {i, j} \<subseteq> closure \<inter> set (map cName (sCommands spec)) \<longrightarrow>
       (\<exists>a b. a < b \<and> b < length outs \<and> stCommand (outs ! a) = j \<and> stCommand (outs ! b) = i))"
  using stop_facts [OF assms(1,2) refl assms(3)] assms(4) by blast

text \<open>When does the action of a dependency let its dependents start? It reported no error
  and its state meets the condition declared under \<^verbatim>\<open>after:\<close>.\<close>

definition condition_met :: "AfterCondition \<Rightarrow> EventType \<Rightarrow> int option \<Rightarrow> bool" where
  "condition_met c st ex = (case c of
       ConditionRunning \<Rightarrow> True
     | ConditionCompletedSuccessfully \<Rightarrow> st = EventTypeExited \<and> ex = Some 0
     | ConditionNone \<Rightarrow> isTerminalState st
     | ConditionCompleted \<Rightarrow> isTerminalState st
     | _ \<Rightarrow> st = EventTypeExited \<and> ex = Some 0)"

lemma evalDown_condition_met:
  assumes "vInClosure p" and "vConsumed p" "\<not> vBlocked p" "vErr p = None"
    and "condition_met c (vState p) (vExitCode p)"
  shows "fst (evalDownEdgeLocked (Some p) c) = edgeSatisfied"
  using assms by (cases c) (simp_all add: evalDownEdgeLocked_def condition_met_def)

text \<open>The edge a command keeps for a dependency.\<close>

definition parentEdge :: "vertexMap \<Rightarrow> vertexID \<Rightarrow> vertexID \<Rightarrow> graphEdge option" where
  "parentEdge vs d p = (case map_of vs d of None \<Rightarrow> None | Some v \<Rightarrow> map_of (vParents v) p)"

lemma parentEdge_add:
  "d \<in> set (keys_of vs) \<Longrightarrow> parentEdge (addAfterEdge d' a vs) d p =
     (if d = d' \<and> p = asName a then Some \<lparr>geFrom = asName a, geTo = d', geCondition = asCondition a\<rparr>
      else parentEdge vs d p)"
  using map_of_None_iff [of vs d]
  by (cases "map_of vs d") (auto simp: parentEdge_def addAfterEdge_def Let_def split: option.splits)

lemma parentEdge_fold:
  assumes "d \<in> set (keys_of vs)"
    and "(d, a) \<in> set es" and "distinct (map (\<lambda>(d, a). (d, asName a)) es)"
  shows "parentEdge (fold (\<lambda>(d, a). addAfterEdge d a) es vs) d (asName a) =
     Some \<lparr>geFrom = asName a, geTo = d, geCondition = asCondition a\<rparr>"
proof -
  have skip: "(d, p) \<notin> set (map (\<lambda>(d, a). (d, asName a)) fs) \<Longrightarrow> d \<in> set (keys_of ws) \<Longrightarrow>
      parentEdge (fold (\<lambda>(d, a). addAfterEdge d a) fs ws) d p = parentEdge ws d p" for fs ws p
  proof (induction fs arbitrary: ws)
    case (Cons f fs)
    obtain d' b where f: "f = (d', b)" by fastforce
    have "d \<in> set (keys_of (addAfterEdge d' b ws))" using Cons.prems fold_after(1) [of "[(d', b)]" ws] by simp
    with Cons f parentEdge_add [OF Cons.prems(2), of d' b p] show ?case by auto
  qed simp
  from assms(2) obtain pre post where es: "es = pre @ (d, a) # post" by (meson split_list)
  let ?w = "fold (\<lambda>(d, a). addAfterEdge d a) pre vs"
  have dk: "d \<in> set (keys_of ?w)" using assms(1) unfolding fold_after(1) .
  then have "d \<in> set (keys_of (addAfterEdge d a ?w))" using fold_after(1) [of "[(d, a)]" ?w] by simp
  with skip [of "asName a" post] assms(3) parentEdge_add [OF dk, of d a "asName a"] show ?thesis
    by (auto simp: es)
qed

definition after_distinct :: "ComposeSpec \<Rightarrow> bool" where
  "after_distinct spec \<longleftrightarrow> (\<forall>c \<in> set (sCommands spec). distinct (map asName (cAfter c)))"

lemma pair_disjoint: "(\<And>x. (n, x) \<notin> S) \<Longrightarrow> set (map (Pair n) xs) \<inter> S = {}"
  by auto

lemma afterEdges_distinct:
  "distinct (map cName cs) \<Longrightarrow> (\<forall>c \<in> set cs. distinct (map asName (cAfter c))) \<Longrightarrow>
     distinct (map (\<lambda>(d, a). (d, asName a)) (afterEdges cs))"
proof (induction cs)
  case (Cons c cs)
  let ?Y = "map (\<lambda>(d, a). (d, asName a)) (afterEdges cs)"
  let ?X = "map (Pair (cName c)) (map asName (cAfter c))"
  have split: "map (\<lambda>(d, a). (d, asName a)) (afterEdges (c # cs)) = ?X @ ?Y"
    by (simp add: afterEdges_def)
  have "(cName c, x) \<notin> set ?Y" for x
  proof
    assume "(cName c, x) \<in> set ?Y"
    then obtain d where "d \<in> set cs" "cName c = cName d" by (auto simp: afterEdges_in)
    then have "cName c \<in> set (map cName cs)" by simp
    with Cons.prems(1) show False by simp
  qed
  then have "set ?X \<inter> set ?Y = {}" by (rule pair_disjoint)
  moreover have "distinct ?X"
    using Cons.prems(2) unfolding distinct_map [of "Pair (cName c)"] by (simp add: inj_on_def)
  moreover have "distinct ?Y" using Cons by simp
  ultimately show ?case unfolding split distinct_append by blast
qed (simp add: afterEdges_def)

lemma build_parent_edge:
  assumes ok: "names_ok spec" and ad: "after_distinct spec"
    and c: "c \<in> set (sCommands spec)" "a \<in> set (cAfter c)"
    and v: "vertex (buildReconcileGraph spec snaps closure targets) (cName c) = Some v"
  shows "map_of (vParents v) (asName a) = Some \<lparr>geFrom = asName a, geTo = cName c, geCondition = asCondition a\<rparr>"
proof -
  let ?b = "fold addVirtualEdges (sCommands spec) (baseVertices spec snaps closure targets)"
  have "cName c \<in> set (keys_of (Vertices (buildReconcileGraph spec snaps closure targets)))"
    using v by (metis map_of_None_iff option.distinct(1))
  then have k: "cName c \<in> set (keys_of ?b)" unfolding build_Vertices fold_after(1) .
  have e: "(cName c, a) \<in> set (afterEdges (sCommands spec))" using c by (auto simp: afterEdges_in)
  have d: "distinct (map (\<lambda>(d, a). (d, asName a)) (afterEdges (sCommands spec)))"
    by (rule afterEdges_distinct) (use ok ad in \<open>auto simp: names_ok_def after_distinct_def\<close>)
  from parentEdge_fold [OF k e d] v show ?thesis
    by (simp add: parentEdge_def build_Vertices)
qed

lemma build_acts_satisfy:
  assumes ok: "names_ok spec" and ad: "after_distinct spec" and cd: "closed_deps (sCommands spec)"
    and cl: "\<And>c a. c \<in> set (sCommands spec) \<Longrightarrow> cName c \<in> closure \<Longrightarrow> a \<in> set (cAfter c) \<Longrightarrow> asName a \<in> closure"
    and act: "\<And>c a res. c \<in> set (sCommands spec) \<Longrightarrow> cName c \<in> closure \<Longrightarrow> a \<in> set (cAfter c) \<Longrightarrow>
        act (asName a) res \<Longrightarrow> arErr res = None \<and> condition_met (asCondition a) (arState res) (arExitCode res)"
  shows "acts_satisfy act (buildReconcileGraph spec snaps closure targets)" (is "acts_satisfy act ?g")
  unfolding acts_satisfy_def
proof (intro allI impI)
  fix i v j assume v: "vertex ?g i = Some v" "vInClosure v" and j: "j \<in> neighbours v walkFromBegin"
  have "i \<noteq> endVertex" using build_real(2) [OF ok v] by simp
  with build_parents [OF ok v(1), of j] j have "(j, i) \<in> dep_rel (sCommands spec)"
    by (simp add: neighbours_def readinessKeys_def)
  then obtain c a where ca: "c \<in> set (sCommands spec)" "a \<in> set (cAfter c)" "j = asName a" "i = cName c"
    by (rule dep_relE)
  have "target ?g i" using v build_real(2) [OF ok v] by (simp add: target_def)
  then have ic: "cName c \<in> closure" using build_targets [OF ok] ca(4) by simp
  then have "target ?g j" using build_targets [OF ok] cl [OF ca(1) ic ca(2)] cd ca by (auto simp: closed_deps_def)
  then obtain p where p: "vertex ?g j = Some p" "vInClosure p" by (auto simp: target_def has_def)
  have "map_of (vParents v) j = Some \<lparr>geFrom = asName a, geTo = cName c, geCondition = asCondition a\<rparr>"
    using build_parent_edge [OF ok ad ca(1,2)] v(1) ca(3,4) by simp
  moreover have "fst (evalDownEdgeLocked (Some (withResult res n (p\<lparr>vBlocked := False\<rparr>))) (asCondition a)) = edgeSatisfied"
    if "act j res" for res n
    using act [OF ca(1) ic ca(2)] that ca(3) p(2)
    by (intro evalDown_condition_met) (simp_all add: withResult_def)
  ultimately show "\<exists>p. vertex ?g j = Some p \<and> (let c = case map_of (vParents v) j of None \<Rightarrow> ConditionNone | Some e \<Rightarrow> geCondition e
      in if vInClosure p then \<forall>res n. act j res \<longrightarrow> fst (evalDownEdgeLocked (Some (withResult res n (p\<lparr>vBlocked := False\<rparr>))) c) = edgeSatisfied
         else fst (evalDownEdgeLocked (Some p) c) = edgeSatisfied)"
    using p by simp
qed

lemma start_facts:
  assumes ok: "names_ok spec" and ac: "acyclic (dep_rel (sCommands spec))"
    and w: "walk act walkFromBegin limit (buildReconcileGraph spec snaps closure targets) False g'"
    and sat: "acts_satisfy act (buildReconcileGraph spec snaps closure targets)"
    and c: "c \<in> set (sCommands spec)" "cName c \<in> closure"
  shows "\<exists>v res. vertex g' (cName c) = Some v \<and> vInClosure v \<and> vConsumed v \<and> \<not> vBlocked v \<and>
     act (cName c) res \<and> vErr v = arErr res"
proof -
  note wf = build_wf [OF ok, of snaps closure targets] and fresh = build_fresh [OF ok, of snaps closure targets]
  note f = walk_facts [OF w wf fresh]
  have nb: "no_blocked g'" by (rule walk_clean [OF w wf fresh build_nb_wf [OF ok ac]]) (simp add: sat)
  from walk_target_vertex [OF ok f(3) c(2)] c(1) obtain v where v: "vertex g' (cName c) = Some v" "vInClosure v"
    by auto
  have "target g' (cName c)" using v graph_wf_target [OF graph_wf_freezes [OF wf f(3)]] by simp
  with f(4) nb v(1) have "vConsumed v \<and> \<not> vBlocked v"
    unfolding allConsumed_def no_blocked_def by (metis has_Some)
  with f(2) v show ?thesis by (fastforce simp: results_inv_def reported_def)
qed

lemma start_all:
  assumes "names_ok spec" and "after_distinct spec" and "ValidateDAG (sCommands spec) = Inr ()"
    and "\<And>c a. c \<in> set (sCommands spec) \<Longrightarrow> cName c \<in> closure \<Longrightarrow> a \<in> set (cAfter c) \<Longrightarrow> asName a \<in> closure"
    and "\<And>c a res. c \<in> set (sCommands spec) \<Longrightarrow> cName c \<in> closure \<Longrightarrow> a \<in> set (cAfter c) \<Longrightarrow>
        act (asName a) res \<Longrightarrow> arErr res = None \<and> condition_met (asCondition a) (arState res) (arExitCode res)"
    and "walk act walkFromBegin limit (buildReconcileGraph spec snaps closure targets) False g'"
  shows "list_all2 (\<lambda>c out. soCommand out = cName c \<and> (\<exists>res. act (cName c) res \<and> soErr out = arErr res))
           (filter (\<lambda>c. cName c \<in> closure) (sCommands spec)) (startOutcomes g' spec)"
proof -
  have dag: "closed_deps (sCommands spec)" "acyclic (dep_rel (sCommands spec))"
    using ValidateDAG_facts(1) [of "sCommands spec"] assms(1,3) by (auto simp: names_ok_def)
  have sat: "acts_satisfy act (buildReconcileGraph spec snaps closure targets)"
    by (rule build_acts_satisfy [OF assms(1,2) dag(1)]) (use assms(4,5) in blast)+
  note fr = walk_facts(3) [OF assms(6) build_wf [OF assms(1)] build_fresh [OF assms(1)]]
  have hit: "\<exists>v res. inClosureVertex g' (cName c) = Some v \<and> act (cName c) res \<and> vErr v = arErr res"
    if "c \<in> set (sCommands spec)" "cName c \<in> closure" for c
    using start_facts [OF assms(1) dag(2) assms(6) sat that] by (auto simp: inClosureVertex_Some)
  have miss: "inClosureVertex g' (cName c) = None" if "c \<in> set (sCommands spec)" "cName c \<notin> closure" for c
    using inClosureVertex_iff [OF assms(1) fr, of "cName c"] that by auto
  have "list_all2 (\<lambda>c out. soCommand out = cName c \<and> (\<exists>res. act (cName c) res \<and> soErr out = arErr res))
      (filter (\<lambda>c. cName c \<in> closure) cs)
      (List.map_filter (\<lambda>c. map_option (\<lambda>v. \<lparr>soCommand = cName c, soErr = vErr v\<rparr>) (inClosureVertex g' (cName c))) cs)"
    if "set cs \<subseteq> set (sCommands spec)" for cs
    using that
  proof (induction cs)
    case (Cons c cs)
    show ?case
    proof (cases "cName c \<in> closure")
      case True
      with hit [of c] Cons show ?thesis by (auto simp: List.map_filter_simps)
    next
      case False
      with miss [of c] Cons show ?thesis by (simp add: List.map_filter_simps)
    qed
  qed (simp add: List.map_filter_simps)
  then show ?thesis by (simp add: startOutcomes_def)
qed

text \<open>C6: Starting an acyclic project succeeds. When the closure contains the
  dependencies of its commands and every action of a dependency reports no error and a
  state that meets the declared condition, no command is left blocked: \<^verbatim>\<open>startOutcomes\<close>
  lists every command of the closure in spec order, each with the error its own action
  reported.\<close>

theorem start_reaches_all:
  assumes "names_ok spec" and "after_distinct spec" and "ValidateDAG (sCommands spec) = Inr ()"
    and "\<And>c a. c \<in> set (sCommands spec) \<Longrightarrow> cName c \<in> closure \<Longrightarrow> a \<in> set (cAfter c) \<Longrightarrow> asName a \<in> closure"
    and "\<And>c a res. c \<in> set (sCommands spec) \<Longrightarrow> cName c \<in> closure \<Longrightarrow> a \<in> set (cAfter c) \<Longrightarrow>
        act (asName a) res \<Longrightarrow> arErr res = None \<and> condition_met (asCondition a) (arState res) (arExitCode res)"
    and "walk act walkFromBegin limit (buildReconcileGraph spec snaps closure targets) False g'"
  shows "list_all2 (\<lambda>c out. soCommand out = cName c \<and> (\<exists>res. act (cName c) res \<and> soErr out = arErr res))
           (filter (\<lambda>c. cName c \<in> closure) (sCommands spec)) (startOutcomes g' spec)"
  by (rule start_all [OF assms])

section \<open>A small project\<close>

definition pairSpec :: ComposeSpec where
  "pairSpec = \<lparr> sComposeFile = ''/p/compose.yaml'', sProject = ''p'', sWorkDir = ''/p'', sWorkDirDeclared = False,
     sCommands = [bare_command ''api'' [\<lparr>asName = ''db'', asCondition = ConditionRunning\<rparr>],
                  bare_command ''db'' []], sMux = None \<rparr>"

definition pairGraph :: reconcileGraph where
  "pairGraph = buildReconcileGraph pairSpec [] {''api'', ''db''} []"

definition okResult :: actionResult where
  "okResult = \<lparr>arState = EventTypeRunning, arExitCode = None, arErr = None, arForceKilled = False\<rparr>"

lemma pair_names_ok: "names_ok pairSpec"
  by (simp add: names_ok_def pairSpec_def beginVertex_def endVertex_def)

lemma dep_rel_Cons:
  "dep_rel [] = {}" "dep_rel (c # cs) = (\<lambda>a. (asName a, cName c)) ` set (cAfter c) \<union> dep_rel cs"
  by (auto simp: dep_rel_def)

lemma pair_dep_rel: "dep_rel (sCommands pairSpec) = {(''db'', ''api'')}"
  by (simp add: pairSpec_def dep_rel_Cons)

lemma pair_acyclic: "acyclic (dep_rel (sCommands pairSpec))"
proof -
  from pair_dep_rel show ?thesis by (auto simp: acyclic_def trancl_insert)
qed

lemma pair_seeded: "\<not> allDone (fst (seed pairGraph walkFromBegin))"
  by code_simp

lemma pair_walk: "\<exists>g'. walk (\<lambda>i res. res = okResult) dir 4 pairGraph False g'"
  unfolding pairGraph_def
  by (rule walk_exists [OF build_wf build_fresh, OF pair_names_ok pair_names_ok]) blast

theorem walk_deadlock_free_witness:
  "\<exists>t. walk_step (\<lambda>i res. res = okResult) walkFromBegin (walkInit pairGraph walkFromBegin 2) t"
proof -
  let ?s = "walkInit pairGraph walkFromBegin 2"
  have "\<exists>w \<in> set (wWorkers ?s). w \<noteq> Exited" by (simp add: walkInit_def)
  from walk_deadlock_free [OF pair_names_ok pairGraph_def pair_seeded walk_reach.start this,
      of "\<lambda>i res. res = okResult"]
  show ?thesis by blast
qed

theorem walk_terminates_witness:
  "\<exists>g'. walk (\<lambda>i res. res = okResult) walkFromEnd 3 pairGraph False g'"
  using walk_terminates [OF pair_names_ok pairGraph_def, of "\<lambda>i res. res = okResult" walkFromEnd 3] by blast

theorem walk_settles_witness:
  "\<exists>g' v. walk (\<lambda>i res. res = okResult) walkFromEnd 4 pairGraph False g' \<and> vertex g' ''db'' = Some v \<and> vConsumed v"
proof -
  from pair_walk obtain g' where w: "walk (\<lambda>i res. res = okResult) walkFromEnd 4 pairGraph False g'" by blast
  have m: "''db'' \<in> {''api'', ''db''}" "''db'' \<in> set (map cName (sCommands pairSpec))" by (simp_all add: pairSpec_def)
  from walk_settles [OF pair_names_ok pairGraph_def w m] w show ?thesis by blast
qed

theorem stop_teardown_order_witness:
  "\<exists>g'. walk (\<lambda>i res. res = okResult) walkFromEnd 4 pairGraph False g' \<and>
     map stCommand (stopOutcomes g' pairSpec) = [''api'', ''db'']"
proof -
  from pair_walk obtain g' where w: "walk (\<lambda>i res. res = okResult) walkFromEnd 4 pairGraph False g'" by blast
  let ?o = "stopOutcomes g' pairSpec"
  note t = stop_teardown_order [OF pair_names_ok pair_acyclic w [unfolded pairGraph_def] refl]
  have d: "(''db'', ''api'') \<in> dep_rel (sCommands pairSpec)" "map cName (sCommands pairSpec) = [''api'', ''db'']"
    using pair_dep_rel by (simp_all add: pairSpec_def)
  from arg_cong [OF t [THEN conjunct1], of size] have len: "length ?o = 2" unfolding d(2) by simp
  have "{''db'', ''api''} \<subseteq> {''api'', ''db''} \<inter> set (map cName (sCommands pairSpec))" unfolding d(2) by auto
  from t [THEN conjunct2, THEN conjunct2, rule_format, OF d(1) this]
  obtain a b where ab: "a < b" "b < length ?o" "stCommand (?o ! a) = ''api''" "stCommand (?o ! b) = ''db''" by blast
  with len have "a = 0" "b = 1" by linarith+
  moreover from len obtain x y where "?o = [x, y]"
    by (metis (no_types) One_nat_def Suc_1 length_0_conv length_Suc_conv)
  ultimately have "map stCommand ?o = [''api'', ''db'']" using ab(3,4) by simp
  with w show ?thesis by (intro exI [of _ g'] conjI)
qed

theorem start_reaches_all_witness:
  "\<exists>g'. walk (\<lambda>i res. res = okResult) walkFromBegin 4 pairGraph False g' \<and>
     startOutcomes g' pairSpec = [\<lparr>soCommand = ''api'', soErr = None\<rparr>, \<lparr>soCommand = ''db'', soErr = None\<rparr>]"
proof -
  from pair_walk obtain g' where w: "walk (\<lambda>i res. res = okResult) walkFromBegin 4 pairGraph False g'" by blast
  have ad: "after_distinct pairSpec" by (simp add: after_distinct_def pairSpec_def)
  have dag: "ValidateDAG (sCommands pairSpec) = Inr ()"
    using ValidateDAG_facts(1) [of "sCommands pairSpec"] pair_acyclic pair_names_ok
    by (simp add: names_ok_def) (simp add: closed_deps_def pairSpec_def)
  have "list_all2 (\<lambda>c out. soCommand out = cName c \<and> (\<exists>res. res = okResult \<and> soErr out = arErr res))
     (filter (\<lambda>c. cName c \<in> {''api'', ''db''}) (sCommands pairSpec)) (startOutcomes g' pairSpec)"
    by (rule start_reaches_all [OF pair_names_ok ad dag _ _ w [unfolded pairGraph_def]])
      (auto simp: pairSpec_def condition_met_def okResult_def)
  with w show ?thesis
    by (auto simp: pairSpec_def list_all2_Cons1 okResult_def)
qed

theorem action_exclusive_witness:
  "\<exists>s v. workerAt s 0 (Acting ''db'') \<and> vertex (wGraph s) ''db'' = Some v \<and> edge_ok (wGraph s) walkFromBegin v"
proof -
  let ?act = "\<lambda>i res. res = okResult"
  let ?s0 = "walkInit pairGraph walkFromBegin 1"
  let ?s1 = "(setWorker 0 (Received ''db'') ?s0)\<lparr>wChan := []\<rparr>"
  let ?g = "fst (seed pairGraph walkFromBegin)"
  have g0: "wGraph ?s0 = ?g" "wGraph ?s1 = ?g" by (simp_all add: walkInit_def)
  have "wChan ?s0 = [''db'']" by code_simp
  moreover have w0: "workerAt ?s0 0 Waiting" by (simp add: walkInit_def)
  ultimately have 1: "walk_step ?act walkFromBegin ?s0 ?s1" by (intro receive) auto
  have w1: "workerAt ?s1 0 (Received ''db'')" using w0 by simp
  have "vertex ?g ''db'' = Some (the (vertex ?g ''db''))" by code_simp
  moreover have "readinessKeys (the (vertex ?g ''db'')) walkFromBegin = [beginVertex]" by code_simp
  ultimately have o: "readyOrder (wGraph ?s1) ''db'' walkFromBegin [beginVertex]"
    unfolding g0 readyOrder_def visits_def by (metis distinct_singleton option.inject)
  have "snd (claim ?g ''db'' walkFromBegin [beginVertex]) = stepReady" by code_simp
  then obtain h where c: "claim (wGraph ?s1) ''db'' walkFromBegin [beginVertex] = (h, stepReady)"
    unfolding g0 by (metis prod.collapse)
  let ?s2 = "(setWorker 0 (Acting ''db'') ?s1)\<lparr>wGraph := h\<rparr>"
  have 2: "walk_step ?act walkFromBegin ?s1 ?s2" by (rule claim_ready [OF w1 o c])
  have r: "walk_reach ?act walkFromBegin ?s0 ?s2" by (blast intro: start walk_reach.step 1 2)
  have w2: "workerAt ?s2 0 (Acting ''db'')" using w0 by simp
  from action_exclusive [OF pair_names_ok pairGraph_def pair_seeded r w2] w2 show ?thesis by blast
qed


end
