(* ===== verification/Compose_Walk.thy ===== *)
theory Compose_Walk
  imports Compose_Teardown Reconcile_Theorems
begin

text \<open>
  The walk of reconcile.go with the actions that compose runs in it: a scheduler that the host drives
  picks one worker at a time, and the action of a vertex is an effect on the world. Every run of it is a
  run of the step relation of \<^verbatim>\<open>Reconcile_Walk\<close>, and it ends within the turns that \<open>walkFuel\<close> grants.
\<close>

section \<open>One turn\<close>

text \<open>The order in which a Go map is visited, and the choice of a ready \<^verbatim>\<open>select\<close> case or goroutine.\<close>

definition visitOrder :: "ComposeHost \<Rightarrow> CWorld \<Rightarrow> 'a list \<Rightarrow> 'a list" where
  "visitOrder ch cw xs = map ((!) xs) (runOrder ch cw (length xs))"

definition pick :: "ComposeHost \<Rightarrow> CWorld \<Rightarrow> 'a list \<Rightarrow> 'a" where
  "pick ch cw xs = xs ! hd (runOrder ch cw (length xs))"

text \<open>What a worker can do next: receive, leave on cancellation, or go on.\<close>

datatype walkMove = MoveReceive nat | MoveLeave nat | MoveGo nat

definition workerMoves :: "walkState \<Rightarrow> nat \<Rightarrow> walkMove list" where
  "workerMoves s k =
     (case wWorkers s ! k of
        Waiting \<Rightarrow> (if wChan s \<noteq> [] then [MoveReceive k] else []) @ (if wCancelled s then [MoveLeave k] else [])
      | Sending (n # ns) \<Rightarrow> (if length (wChan s) < wCap s then [MoveGo k] else []) @ (if wCancelled s then [MoveLeave k] else [])
      | Exited \<Rightarrow> []
      | _ \<Rightarrow> [MoveGo k])"

definition walkMoves :: "walkState \<Rightarrow> walkMove list" where
  "walkMoves s = concat (map (workerMoves s) [0..<length (wWorkers s)])"

type_synonym 's graphAction = "reconcileGraph \<Rightarrow> graphVertex \<Rightarrow> 's \<Rightarrow> ('s \<times> actionResult) effect"

definition readyKeys :: "reconcileGraph \<Rightarrow> vertexID \<Rightarrow> walkDirection \<Rightarrow> vertexID list" where
  "readyKeys g i dir = (case vertex g i of None \<Rightarrow> [] | Some v \<Rightarrow> readinessKeys v dir)"

text \<open>\<^verbatim>\<open>claim\<close>, and the rest of \<^verbatim>\<open>step\<close> once the action has returned.\<close>

definition turnClaim :: "ComposeHost \<Rightarrow> walkDirection \<Rightarrow> nat \<Rightarrow> vertexID \<Rightarrow> walkState \<Rightarrow> CWorld \<Rightarrow> walkState" where
  "turnClaim ch dir k i s cw =
     (case claim (wGraph s) i dir (visitOrder ch cw (readyKeys (wGraph s) i dir)) of
        (g, st) \<Rightarrow> (setWorker k (if st = stepReady then Acting i else Sending []) s)\<lparr> wGraph := g \<rparr>)"

definition turnComplete ::
    "ComposeHost \<Rightarrow> walkDirection \<Rightarrow> nat \<Rightarrow> graphVertex \<Rightarrow> actionResult \<Rightarrow> walkState \<Rightarrow> CWorld \<Rightarrow> walkState" where
  "turnComplete ch dir k v res s cw =
     (case complete (wGraph s) (vID v) res dir (visitOrder ch cw (frontierKeys v dir)) of
        (g, nxt) \<Rightarrow> (setWorker k (Sending nxt) s)\<lparr> wGraph := g \<rparr>)"

definition turnGo :: "ComposeHost \<Rightarrow> 's graphAction \<Rightarrow> walkDirection \<Rightarrow> nat \<Rightarrow> walkState \<Rightarrow> 's \<Rightarrow> (walkState \<times> 's) effect" where
  "turnGo ch act dir k s st =
     (case wWorkers s ! k of
        Received i \<Rightarrow> (\<lambda>cw. ((turnClaim ch dir k i s cw, st), cw))
      | Acting i \<Rightarrow>
          (case vertex (wGraph s) i of
             None \<Rightarrow> Pair (s, st)
           | Some v \<Rightarrow> tryR (act (wGraph s) v st) (\<lambda>(st, res) cw. ((turnComplete ch dir k v res s cw, st), cw)))
      | Sending (n # ns) \<Rightarrow> Pair ((setWorker k (Sending ns) s)\<lparr> wChan := wChan s @ [n] \<rparr>, st)
      | Sending [] \<Rightarrow> Pair (setWorker k (if allDone (wGraph s) then Finishing else Waiting) s, st)
      | Finishing \<Rightarrow> (\<lambda>cw. (((setWorker k Cancelling s)
          \<lparr> wGraph := finalize (wGraph s) (visitOrder ch cw (keys_of (Vertices (wGraph s)))) \<rparr>, st), cw))
      | Cancelling \<Rightarrow> Pair ((setWorker k Exited s)\<lparr> wCancelled := True \<rparr>, st)
      | _ \<Rightarrow> Pair (s, st))"

definition turn :: "ComposeHost \<Rightarrow> 's graphAction \<Rightarrow> walkDirection \<Rightarrow> walkMove \<Rightarrow> walkState \<Rightarrow> 's \<Rightarrow> (walkState \<times> 's) effect" where
  "turn ch act dir m s st =
     (case m of
        MoveReceive k \<Rightarrow> Pair ((setWorker k (Received (hd (wChan s))) s)\<lparr> wChan := tl (wChan s) \<rparr>, st)
      | MoveLeave k \<Rightarrow> Pair (setWorker k Exited s, st)
      | MoveGo k \<Rightarrow> turnGo ch act dir k s st)"

section \<open>The walk\<close>

text \<open>Time passes between turns, in which the caller's context may end.\<close>

definition cancelWalk :: "bool \<Rightarrow> walkState \<Rightarrow> walkState" where
  "cancelWalk d s = (if d then s\<lparr> wCancelled := True, wOutside := True \<rparr> else s)"

fun walkLoop :: "ComposeHost \<Rightarrow> 's graphAction \<Rightarrow> walkDirection \<Rightarrow> nat \<Rightarrow> walkState \<times> 's \<Rightarrow> (walkState \<times> 's) effect" where
  "walkLoop ch act dir 0 x = Pair x"
| "walkLoop ch act dir (Suc n) (s, st) = (\<lambda>cw.
     if walkMoves s = [] then ((s, st), cw)
     else
       let cw = snd (svc (outside (chHost ch)) cw);
           s = cancelWalk (ctxDone cw) s
       in tryR (turn ch act dir (pick ch cw (walkMoves s)) s st) (walkLoop ch act dir n) cw)"

definition walkFuel :: "walkState \<Rightarrow> nat" where
  "walkFuel s = (11 * wCap s + 4 * length (wWorkers s) + 2) * (wCap s + 1)"

definition walkGraph ::
    "ComposeHost \<Rightarrow> 's graphAction \<Rightarrow> walkDirection \<Rightarrow> int \<Rightarrow> reconcileGraph \<Rightarrow> 's \<Rightarrow> (reconcileGraph \<times> 's) effect" where
  "walkGraph ch act dir limit g st cw =
     (let s = walkInit g dir limit
      in if allDone (wGraph s) then ((finalize (wGraph s) (visitOrder ch cw (keys_of (Vertices (wGraph s)))), st), cw)
         else tryR (walkLoop ch act dir (walkFuel s) (s, st)) (\<lambda>(s, st). Pair (wGraph s, st)) cw)"

section \<open>Turns are steps\<close>

lemma visitOrder_visits: "distinct xs \<Longrightarrow> visits (visitOrder ch cw xs) xs"
proof -
  assume d: "distinct xs"
  have p: "mset (runOrder ch cw (length xs)) = mset [0..<length xs]" by (rule runOrder_perm)
  then have "set (runOrder ch cw (length xs)) = {..<length xs}" "distinct (runOrder ch cw (length xs))"
    by (metis atLeast_upt set_mset_mset, metis distinct_upt mset_eq_imp_distinct_iff)
  moreover have "(!) xs ` {..<length xs} = set xs" by (auto simp: set_conv_nth)
  ultimately show ?thesis using d by (auto simp: visits_def visitOrder_def distinct_map inj_on_def nth_eq_iff_index_eq)
qed

lemma pick_in: "xs \<noteq> [] \<Longrightarrow> pick ch cw xs \<in> set xs"
proof -
  assume "xs \<noteq> []"
  moreover have "mset (runOrder ch cw (length xs)) = mset [0..<length xs]" by (rule runOrder_perm)
  moreover from this have "set (runOrder ch cw (length xs)) = set [0..<length xs]" by (rule mset_eq_setD)
  ultimately have "hd (runOrder ch cw (length xs)) < length xs"
    by (metis atLeastLessThan_iff atLeastLessThan_upt hd_in_set length_greater_0_conv list.size(3) mset_zero_iff mset.simps(1) set_empty upt_rec neq0_conv size_mset length_upt minus_nat.diff_0)
  then show ?thesis by (simp add: pick_def)
qed

text \<open>A result that the action of \<open>i\<close> returned on a graph the walk has come to.\<close>

definition returned :: "'s graphAction \<Rightarrow> reconcileGraph \<Rightarrow> vertexID \<Rightarrow> actionResult \<Rightarrow> bool" where
  "returned act g i res \<longleftrightarrow> (\<exists>h v st cw st' cw'. freezes g h \<and> vertex h i = Some v \<and> act h v st cw = ((st', res), cw'))"

lemma move_step:
  assumes m: "m \<in> set (walkMoves s)" and inv: "winv dir s" and fr: "freezes g (wGraph s)"
    and t: "turn ch act dir m s st cw = ((s', st'), cw')"
  shows "walk_step (returned act g) dir s s'"
proof -
  obtain k where k: "k < length (wWorkers s)" "m \<in> set (workerMoves s k)" using m by (auto simp: walkMoves_def)
  note wf = winvD(5) [OF inv]
  show ?thesis
  proof (cases "wWorkers s ! k")
    case Waiting
    then show ?thesis using k t by (cases "wChan s") (auto simp: workerMoves_def turn_def intro: walk_step.intros split: if_splits)
  next
    case (Received i)
    let ?ks = "visitOrder ch cw (readyKeys (wGraph s) i dir)"
    have ks: "readyOrder (wGraph s) i dir ?ks" unfolding readyOrder_def
    proof (intro allI impI)
      fix v assume v: "vertex (wGraph s) i = Some v"
      have "distinct (readinessKeys v dir)"
        using graph_wf_vertex(2,3) [OF wf v] by (simp add: readinessKeys_def split: walkDirection.split)
      then show "visits ?ks (readinessKeys v dir)" using visitOrder_visits v by (simp add: readyKeys_def)
    qed
    obtain g' c where c: "claim (wGraph s) i dir ?ks = (g', c)" by (metis surj_pair)
    have s': "s' = (setWorker k (if c = stepReady then Acting i else Sending []) s)\<lparr> wGraph := g' \<rparr>"
      using k t Received c by (simp add: workerMoves_def turn_def turnGo_def turnClaim_def)
    from walk_step.claim_ready [of k s i dir ?ks g' "returned act g"] walk_step.claim_other [of k s i dir ?ks g' c "returned act g"] k Received ks c
    show ?thesis unfolding s' by (cases "c = stepReady") auto
  next
    case (Acting i)
    have "has vInProgress (wGraph s) i" using acting_inProgress [OF winvD(2) [OF inv], of k i] k(1) Acting by blast
    then obtain v where v: "vertex (wGraph s) i = Some v" by (auto elim: hasE)
    obtain st1 res cw1 where a: "act (wGraph s) v st cw = ((st1, res), cw1)" by (metis surj_pair)
    let ?ks = "visitOrder ch cw1 (frontierKeys v dir)"
    have "distinct (frontierKeys v dir)"
      using graph_wf_vertex(2,3) [OF wf v] by (simp add: frontierKeys_def split: walkDirection.split)
    then have ks: "frontierOrder (wGraph s) i dir ?ks" using visitOrder_visits v by (simp add: frontierOrder_def)
    obtain g' nxt where c: "complete (wGraph s) i res dir ?ks = (g', nxt)" by (metis surj_pair)
    have "s' = (setWorker k (Sending nxt) s)\<lparr> wGraph := g' \<rparr>"
      using k t Acting v a c graph_wf_vertex(1) [OF wf v] by (simp add: workerMoves_def turn_def turnGo_def turnComplete_def tryR_def)
    moreover have "returned act g i res" unfolding returned_def using fr v a by (intro exI conjI)
    ultimately show ?thesis using walk_step.completed [of k s i "returned act g" res dir ?ks g' nxt] k(1) Acting ks c by simp
  next
    case (Sending ns)
    then show ?thesis using k t
      by (cases ns) (auto simp: workerMoves_def turn_def turnGo_def intro: walk_step.intros split: if_splits)
  next
    case Finishing
    have "distinct (keys_of (Vertices (wGraph s)))" using wf by (simp add: graph_wf_def)
    then show ?thesis using k t Finishing walk_step.finalizing [of k s _ "returned act g" dir] visitOrder_visits
      by (auto simp: workerMoves_def turn_def turnGo_def)
  next
    case Cancelling
    then show ?thesis using k t by (auto simp: workerMoves_def turn_def turnGo_def intro: walk_step.intros)
  qed (use k in \<open>simp add: workerMoves_def\<close>)
qed

section \<open>The fuel is enough\<close>

definition walkWork :: "walkState \<Rightarrow> nat" where
  "walkWork s = card (unconsumed (wGraph s)) * (11 * wCap s + 4 * length (wWorkers s) + 2) + work s"

lemma count_concat: "count_list (concat xss) i = (\<Sum>xs\<leftarrow>xss. count_list xs i)"
  by (induction xss) (simp_all add: count_list_append)

lemma weight_bound: "(\<Sum>w\<leftarrow>ws. wWeight w) \<le> 4 * length ws + 6 * length (concat (map wPend ws))"
proof (induction ws)
  case (Cons w ws)
  have "wWeight w \<le> 4 + 6 * length (wPend w)" by (cases w) simp_all
  with Cons show ?case by simp
qed simp

lemma work_bound:
  assumes "winv dir s"
  shows "work s \<le> 11 * wCap s + 4 * length (wWorkers s) + 1"
proof -
  have "count_list (wChan s @ concat (map wPend (wWorkers s))) i \<le> pcount s i" for i
    by (simp add: pcount_def count_list_append count_concat comp_def)
  from pending_bound(2) [OF assms this] have "length (wChan s) + length (concat (map wPend (wWorkers s))) \<le> wCap s" by simp
  moreover have "work s \<le> 5 * length (wChan s) + (4 * length (wWorkers s) + 6 * length (concat (map wPend (wWorkers s)))) + 1"
    using weight_bound [of "wWorkers s"] by (simp add: work_def of_bool_def)
  ultimately show ?thesis by linarith
qed

lemma step_shape: "walk_step act dir s t \<Longrightarrow> wCap t = wCap s \<and> length (wWorkers t) = length (wWorkers s)"
  by (induction rule: walk_step.induct) simp_all

lemma walkWork_less:
  assumes st: "walk_step act dir s t" and inv: "winv dir s"
  shows "walkWork t < walkWork s"
proof -
  define B where "B = 11 * wCap s + 4 * length (wWorkers s) + 2"
  have b: "work t < B" using work_bound [OF winv_step [OF st inv]] step_shape [OF st] by (simp add: B_def)
  have m: "walkWork t = card (unconsumed (wGraph t)) * B + work t" "walkWork s = card (unconsumed (wGraph s)) * B + work s"
    by (simp_all add: walkWork_def B_def step_shape [OF st])
  from walk_step_decreases [OF st inv] show ?thesis
  proof
    assume "card (unconsumed (wGraph t)) < card (unconsumed (wGraph s))"
    then have "Suc (card (unconsumed (wGraph t))) * B \<le> card (unconsumed (wGraph s)) * B" by (intro mult_le_mono1) simp
    with b m show ?thesis by simp
  next
    assume "card (unconsumed (wGraph t)) \<le> card (unconsumed (wGraph s)) \<and> work t < work s"
    then have "card (unconsumed (wGraph t)) * B \<le> card (unconsumed (wGraph s)) * B" "work t < work s" by auto
    with m show ?thesis by linarith
  qed
qed

lemma fuel_enough: "winv dir s \<Longrightarrow> walkWork s < walkFuel s"
proof -
  assume inv: "winv dir s"
  let ?B = "11 * wCap s + 4 * length (wWorkers s) + 2"
  have "card (unconsumed (wGraph s)) \<le> card (Collect (target (wGraph s)))"
    by (rule card_mono [OF targets_finite]) (auto simp: unconsumed_def)
  also have "\<dots> \<le> wCap s" using winvD(4) [OF inv] .
  finally have "card (unconsumed (wGraph s)) * ?B \<le> wCap s * ?B" by (rule mult_le_mono1)
  moreover have "walkFuel s = wCap s * ?B + ?B" by (simp add: walkFuel_def)
  ultimately show ?thesis using work_bound [OF inv] unfolding walkWork_def by linarith
qed

section \<open>The loop is a run\<close>

text \<open>Unless every worker has left, one of them can move.\<close>

lemma moves_left:
  assumes inv: "winv dir s" and none: "walkMoves s = []"
  shows "\<forall>w \<in> set (wWorkers s). w = Exited"
proof (rule ccontr)
  assume "\<not> ?thesis"
  then have "\<exists>w \<in> set (wWorkers s). w \<noteq> Exited" by blast
  from progress [OF inv this, of "\<lambda>_ _. True"] obtain t where t: "walk_step (\<lambda>_ _. True) dir s t" "wOutside t = wOutside s" by blast
  have no: "workerMoves s k = []" if "k < length (wWorkers s)" for k using none that by (auto simp: walkMoves_def)
  from t show False
    by (cases rule: walk_step.cases) (auto simp: workerMoves_def dest!: no split: if_splits)
qed

lemma cancelWalk_step: "\<not> wOutside s \<Longrightarrow> walk_step act dir s (cancelWalk True s)"
  by (simp add: cancelWalk_def walk_step.cancelled_outside)

lemma walkMoves_iff: "walkMoves s \<noteq> [] \<longleftrightarrow> (\<exists>k < length (wWorkers s). workerMoves s k \<noteq> [])"
  by (auto simp: walkMoves_def)

lemma walkMoves_cancel: "walkMoves s \<noteq> [] \<Longrightarrow> walkMoves (cancelWalk d s) \<noteq> []"
proof -
  assume "walkMoves s \<noteq> []"
  then obtain k where k: "k < length (wWorkers s)" "workerMoves s k \<noteq> []" by (auto simp: walkMoves_iff)
  have "workerMoves (cancelWalk d s) k \<noteq> []"
  proof (cases "wWorkers s ! k")
    case (Sending ns)
    with k show ?thesis by (cases ns) (auto simp: workerMoves_def cancelWalk_def split: if_splits)
  qed (use k in \<open>auto simp: workerMoves_def cancelWalk_def split: if_splits\<close>)
  moreover have "length (wWorkers (cancelWalk d s)) = length (wWorkers s)" by (simp add: cancelWalk_def)
  ultimately show ?thesis using k(1) by (auto simp: walkMoves_iff)
qed

lemma cancelWalk_reach:
  assumes "walk_reach act dir s0 s" "winv dir s"
  shows "walk_reach act dir s0 (cancelWalk d s) \<and> walkWork (cancelWalk d s) \<le> walkWork s \<and> wOutside (cancelWalk d s) = (wOutside s \<or> d)"
proof (cases "d \<and> \<not> wOutside s")
  case True
  then have "walk_step act dir s (cancelWalk d s)" using cancelWalk_step by metis
  from walk_reach.step [OF assms(1) this] walkWork_less [OF this assms(2)] show ?thesis using True by (simp add: cancelWalk_def)
next
  case False
  have "wOutside s \<longrightarrow> wCancelled s" using winvD(3) [OF assms(2)] by (simp add: ctl_inv_def)
  with False have "cancelWalk d s = s" by (auto simp: cancelWalk_def)
  with assms False show ?thesis by auto
qed

lemma loop_reach:
  assumes "walkLoop ch act dir n (s, st) cw = ((s', st'), cw')"
    and "walk_reach (returned act g) dir s0 s" "winv dir s0" "freezes g (wGraph s0)" "walkWork s < n"
  shows "walk_reach (returned act g) dir s0 s' \<and> (\<forall>w \<in> set (wWorkers s'). w = Exited)"
  using assms
proof (induction n arbitrary: s st cw)
  case (Suc n)
  have inv: "winv dir s" by (rule winv_reach [OF Suc.prems(2,3)])
  show ?case
  proof (cases "walkMoves s = []")
    case True
    with Suc.prems(1,2) moves_left [OF inv] show ?thesis by simp
  next
    case False
    define cw1 where "cw1 = snd (svc (outside (chHost ch)) cw)"
    define s1 where "s1 = cancelWalk (ctxDone cw1) s"
    define m where "m = pick ch cw1 (walkMoves s1)"
    have r1: "walk_reach (returned act g) dir s0 s1" "walkWork s1 \<le> walkWork s"
      using cancelWalk_reach [OF Suc.prems(2) inv] by (simp_all add: s1_def)
    have inv1: "winv dir s1" by (rule winv_reach [OF r1(1) Suc.prems(3)])
    have fr: "freezes g (wGraph s1)" using reach_freezes [OF r1(1) Suc.prems(3)] Suc.prems(4) freezes_trans by blast
    have m: "m \<in> set (walkMoves s1)" unfolding m_def by (rule pick_in) (simp add: s1_def walkMoves_cancel False)
    obtain s2 st2 cw2 where t: "turn ch act dir m s1 st cw1 = ((s2, st2), cw2)" by (metis surj_pair)
    have step: "walk_step (returned act g) dir s1 s2" by (rule move_step [OF m inv1 fr t])
    have "walkLoop ch act dir n (s2, st2) cw2 = ((s', st'), cw')"
      using Suc.prems(1) False t by (simp add: Let_def tryR_def cw1_def s1_def m_def)
    moreover have "walkWork s2 < n" using walkWork_less [OF step inv1] r1(2) Suc.prems(5) by simp
    ultimately show ?thesis by (intro Suc.IH [OF _ walk_reach.step [OF r1(1) step] Suc.prems(3,4)])
  qed
qed simp

end
