(* ===== verification/Cmd_Effects.thy ===== *)
theory Cmd_Effects
  imports Cmd_Service
begin

text \<open>
  What the operations of the service leave alone. A relation between stores that is reflexive,
  transitive and kept by the monitors is kept by every operation that only reads
  (locale \<open>store_frame\<close>); one that also allows the updates of the state of one command is kept by
  its start (\<open>update_frame\<close>), one that allows its removal too by every operation on that command
  (\<open>command_frame\<close>), one that allows both for every command by every operation but a create
  (\<open>service_frame\<close>), and one that also allows the insertion of acceptable ids and names by a
  create (\<open>create_frame\<close>). The invariant of the tables is the
  first instance; what happens to the holders of resources, in a later theory, is another.
\<close>

section \<open>Effects that keep a relation\<close>

definition keeps :: "(Store \<Rightarrow> Store \<Rightarrow> bool) \<Rightarrow> (World \<Rightarrow> 'r \<times> World) \<Rightarrow> bool" where
  "keeps S f \<longleftrightarrow> (\<forall>w. S (wStore w) (wStore (snd (f w))))"

lemma keepsI: "(\<And>w. S (wStore w) (wStore (snd (f w)))) \<Longrightarrow> keeps S f"
  by (simp add: keeps_def)

lemma keepsD: "keeps S f \<Longrightarrow> f w = (r, w') \<Longrightarrow> S (wStore w) (wStore w')"
  by (metis keeps_def snd_conv)

lemma keeps_if: "(c \<Longrightarrow> keeps S f) \<Longrightarrow> (\<not> c \<Longrightarrow> keeps S g) \<Longrightarrow> keeps S (if c then f else g)"
  by simp

lemma keeps_sum: "(\<And>e. r = Inl e \<Longrightarrow> keeps S (f e)) \<Longrightarrow> (\<And>x. r = Inr x \<Longrightarrow> keeps S (g x)) \<Longrightarrow>
    keeps S (case r of Inl e \<Rightarrow> f e | Inr x \<Rightarrow> g x)"
  by (cases r) simp_all

lemma keeps_option: "(r = None \<Longrightarrow> keeps S f) \<Longrightarrow> (\<And>x. r = Some x \<Longrightarrow> keeps S (g x)) \<Longrightarrow>
    keeps S (case r of None \<Rightarrow> f | Some x \<Rightarrow> g x)"
  by (cases r) simp_all

lemma keeps_prod: "(\<And>a b. p = (a, b) \<Longrightarrow> keeps S (f a b)) \<Longrightarrow> keeps S (case p of (a, b) \<Rightarrow> f a b)"
  by (cases p) simp

lemma keeps_let: "(\<And>x. x = t \<Longrightarrow> keeps S (f x)) \<Longrightarrow> keeps S (let x = t in f x)"
  by simp

text \<open>What holds of every result, whatever came before.\<close>

definition ensures :: "('w \<Rightarrow> 'r \<times> 'w) \<Rightarrow> ('r \<Rightarrow> 'w \<Rightarrow> bool) \<Rightarrow> bool" where
  "ensures f Q \<longleftrightarrow> (\<forall>w. Q (fst (f w)) (snd (f w)))"

lemma ensuresD: "ensures f Q \<Longrightarrow> f w = (r, w') \<Longrightarrow> Q r w'"
  by (metis ensures_def fst_conv snd_conv)

lemma ensures_tryR: "(\<And>x. ensures (g x) Q) \<Longrightarrow> ensures (tryR f g) Q"
  by (simp add: ensures_def tryR_def split: prod.split)

lemma ensures_if: "(c \<Longrightarrow> ensures f Q) \<Longrightarrow> (\<not> c \<Longrightarrow> ensures g Q) \<Longrightarrow> ensures (if c then f else g) Q"
  by simp

lemma ensures_sum: "(\<And>e. r = Inl e \<Longrightarrow> ensures (f e) Q) \<Longrightarrow> (\<And>x. r = Inr x \<Longrightarrow> ensures (g x) Q) \<Longrightarrow>
    ensures (case r of Inl e \<Rightarrow> f e | Inr x \<Rightarrow> g x) Q"
  by (cases r) simp_all

lemma ensures_option: "(r = None \<Longrightarrow> ensures f Q) \<Longrightarrow> (\<And>x. r = Some x \<Longrightarrow> ensures (g x) Q) \<Longrightarrow>
    ensures (case r of None \<Rightarrow> f | Some x \<Rightarrow> g x) Q"
  by (cases r) simp_all

lemma ensures_prod: "(\<And>a b. p = (a, b) \<Longrightarrow> ensures (f a b) Q) \<Longrightarrow> ensures (case p of (a, b) \<Rightarrow> f a b) Q"
  by (cases p) simp

lemma ensures_let: "(\<And>x. x = t \<Longrightarrow> ensures (f x) Q) \<Longrightarrow> ensures (let x = t in f x) Q"
  by simp

lemma ensures_Pair: "(\<And>w. Q r w) \<Longrightarrow> ensures (Pair r) Q"
  by (simp add: ensures_def)

lemmas ensures_steps = ensures_if ensures_sum ensures_option ensures_prod ensures_let

text \<open>Reads of the store, and the fields of a world that are not the store.\<close>

lemma readRow_store: "readRow f st = Inr (x, st') \<Longrightarrow> st' = st \<and> f st = Some x"
  by (auto simp: readRow_def split: option.splits)

lemma emitEvent_store [simp]: "wStore (emitEvent ty i w) = wStore w" "wDone (emitEvent ty i w) = wDone w"
  "wTick (emitEvent ty i w) = wTick w"
  by (simp_all add: emitEvent_def)

lemma outside_fields [simp]: "wStore (snd (outside h w)) = monitorsAct h (wTick w) (wStore w)"
  "wTick (snd (outside h w)) = Suc (wTick w)"
  by (simp_all add: outside_def)

locale store_frame =
  fixes h :: Host and S :: "Store \<Rightarrow> Store \<Rightarrow> bool"
  assumes S_refl: "S st st"
    and S_trans: "S a b \<Longrightarrow> S b c \<Longrightarrow> S a c"
    and S_monitors: "S st (monitorsAct h t st)"
begin

lemma keeps_Pair: "keeps S (Pair x)"
  by (simp add: keeps_def S_refl)

lemma keeps_bindR: "keeps S f \<Longrightarrow> (\<And>x. keeps S (g x)) \<Longrightarrow> keeps S (bindR f g)"
  unfolding keeps_def bindR_def by (auto split: prod.split sum.split intro: S_trans dest: spec) (metis S_trans snd_conv)

lemma keeps_tryR: "keeps S f \<Longrightarrow> (\<And>x. keeps S (g x)) \<Longrightarrow> keeps S (tryR f g)"
  unfolding keeps_def tryR_def by (auto split: prod.split) (metis S_trans snd_conv)

lemma keeps_wrapR: "keeps S f \<Longrightarrow> keeps S (wrapR k f)"
  unfolding keeps_def wrapR_def by (auto split: prod.split) (metis snd_conv)

lemma keeps_outside: "keeps S (outside h)"
  by (simp add: keeps_def S_monitors)

lemma keeps_query:
  assumes "\<And>st x st'. q st = Inr (x, st') \<Longrightarrow> S st st'"
  shows "keeps S (query h q)"
  unfolding query_def
proof (rule keeps_bindR [OF keeps_outside])
  show "keeps S (\<lambda>w. case q (wStore w) of Inl e \<Rightarrow> (Inl e, w) | Inr (x, st) \<Rightarrow> (Inr x, w\<lparr> wStore := st \<rparr>))" for y :: unit
    using assms by (auto simp: keeps_def S_refl split: sum.split)
qed

lemma keeps_read: "keeps S (query h (readRow f))"
  by (rule keeps_query) (auto dest: readRow_store simp: S_refl)

lemma keeps_select: "keeps S (query h (\<lambda>st. Inr (f st, st)))"
  by (rule keeps_query) (auto simp: S_refl)

lemma keeps_removeDir: "S (wStore w) (wStore (removeDir h d w))"
  using S_monitors by (auto simp: removeDir_def outside_def split: sum.split option.split)

lemma keeps_autoRemoveDirs: "keeps S (\<lambda>w. (r, autoRemoveDirs h i cfg w))"
  using keeps_removeDir S_trans [OF keeps_removeDir keeps_removeDir]
  by (simp add: keeps_def autoRemoveDirs_def Let_def split: sum.split)

lemma keeps_same: "(\<And>w. wStore (snd (f w)) = wStore w) \<Longrightarrow> keeps S f"
  by (simp add: keeps_def S_refl)

lemma keeps_WriteCommandConfig: "keeps S (WriteCommandConfig h d cfg)"
  unfolding WriteCommandConfig_def by (intro keeps_bindR keeps_outside) (simp add: keeps_same)

lemma keeps_openStore: "keeps S (openStore h)"
  unfolding openStore_def by (intro keeps_wrapR keeps_outside)

lemmas keeps_steps = keeps_bindR keeps_tryR keeps_wrapR keeps_if keeps_sum keeps_option keeps_prod keeps_let keeps_Pair
  keeps_read keeps_select keeps_outside keeps_openStore keeps_WriteCommandConfig

lemma keeps_GetCommandState: "keeps S (GetCommandState h i)"
  unfolding GetCommandState_def by (rule keeps_read)

lemma keeps_ResolveIDByName: "keeps S (ResolveIDByName h i)"
  unfolding ResolveIDByName_def by (rule keeps_read)

lemma keeps_ResolveID: "keeps S (ResolveID h s)"
  unfolding ResolveID_def ResolveIDByName_def ResolveIDByID_def ResolveIDByPrefix_def
  by (intro keeps_steps)

lemma keeps_GetCommandConfig: "keeps S (GetCommandConfig h s)"
  unfolding GetCommandConfig_def by (intro keeps_steps keeps_ResolveID)

lemma keeps_ListCommands: "keeps S (ListCommands h a l)"
  unfolding ListCommands_def by (rule keeps_select)

lemma keeps_isStaleMonitor: "keeps S (isStaleMonitor h i)"
  by (simp add: isStaleMonitor_def keeps_def S_monitors)

lemma keeps_pollStopped: "keeps S (pollStopped h i n)"
proof (induction n)
  case 0
  have "keeps S (\<lambda>w. case r of Inl e \<Rightarrow> (if errorsIs e ErrNoRows then Inr () else Inl e, w)
      | Inr s \<Rightarrow> (if hasEnded (srState s) then Inr () else Inl (if wDone w then ErrCanceled else ErrDeadline), w))" for r
    by (rule keeps_same) (simp split: sum.split)
  then show ?case by (simp only: pollStopped.simps) (rule keeps_tryR [OF keeps_GetCommandState])
next
  case (Suc n)
  then show ?case by (simp only: pollStopped.simps) (intro keeps_steps keeps_GetCommandState)
qed

lemma keeps_waitForStopped: "keeps S (waitForStopped h i t)"
  using keeps_pollStopped by (simp add: keeps_def waitForStopped_def)

lemma keeps_recordedForceKill: "keeps S (recordedForceKill h i)"
  unfolding recordedForceKill_def by (intro keeps_steps keeps_GetCommandState)

lemma keeps_rpcStop: "keeps S (rpcStop h i sig t)"
  by (rule keepsI) (simp add: rpcStop_def Let_def S_monitors split: option.split RPCErr.split)

lemma keeps_sendStop: "keeps S (sendStop h i sig t)"
  unfolding sendStop_def by (intro keeps_steps keeps_GetCommandState keeps_rpcStop)

lemma keeps_resolveAll: "keeps S (resolveAll h as)"
  by (induction as) (simp_all only: resolveAll.simps, intro keeps_steps, intro keeps_steps keeps_ResolveID)

lemma keeps_resolveTargetIDs: "keeps S (resolveTargetIDs h as ls)"
  unfolding resolveTargetIDs_def FindByLabels_def by (intro keeps_steps keeps_resolveAll)

lemma keeps_waitState: "keeps S (waitState h i d s pid p n)"
  by (induction n arbitrary: p) (simp_all only: waitState.simps, (intro keeps_steps keeps_GetCommandState | assumption)+)

lemma keeps_WaitForState: "keeps S (WaitForState h i d since n)"
  unfolding WaitForState_def by (rule keeps_waitState)

lemma keeps_pollCondition: "keeps S (pollCondition h i c n)"
proof (induction n)
  case 0
  have "keeps S (\<lambda>w. case r of Inl e \<Rightarrow> ((None, if errorsIs e ErrNoRows then None else Some e), w)
      | Inr s \<Rightarrow> if matchesWaitCondition (srState s) c then ((srExitCode s, None), w)
          else ((srExitCode s, Some ErrCanceled), w\<lparr> wDone := True \<rparr>))" for r
    by (rule keeps_same) (simp split: sum.split)
  then show ?case by (simp only: pollCondition.simps) (rule keeps_tryR [OF keeps_GetCommandState])
next
  case (Suc n)
  then show ?case by (simp only: pollCondition.simps) (intro keeps_steps keeps_GetCommandState)
qed

lemma keeps_waitForCondition: "keeps S (waitForCondition h i c t)"
  using keeps_pollCondition by (simp add: keeps_def waitForCondition_def)

lemma keeps_waitEach: "keeps S (waitEach h c t ig ts)"
  by (induction ts) (simp_all only: waitEach.simps, (intro keeps_steps keeps_ResolveID keeps_waitForCondition | assumption)+)

lemma keeps_Wait: "keeps S (Wait h ts c t ig)"
  unfolding Wait_def by (intro keeps_steps keeps_waitEach)

text \<open>Loops over commands.\<close>

lemma keeps_stopEach: "(\<And>j. j \<in> set is \<Longrightarrow> keeps S (stop h j sig t)) \<Longrightarrow> keeps S (stopEach h sig t is)"
  by (induction "is") (simp_all only: stopEach.simps, rule keeps_Pair, (intro keeps_steps | simp)+)

lemma keeps_cleanEntries:
  "(\<And>e. e \<in> set es \<Longrightarrow> keeps S (cleanStaleEntry h (enID e) (enState e) (the (enConfigJSON e)))) \<Longrightarrow> keeps S (cleanEntries h es)"
  by (induction es) (simp_all only: cleanEntries.simps, rule keeps_Pair, (intro keeps_steps | simp)+)

lemma keeps_rmEach: "(\<And>j. j \<in> set is \<Longrightarrow> keeps S (rmOne h j force)) \<Longrightarrow> keeps S (rmEach h force is)"
proof (induction "is")
  case (Cons i "is")
  then have rest: "keeps S (tryR (rmEach h force is) (\<lambda>rs. Pair (x # rs)))" for x by (intro keeps_steps) simp
  have "keeps S (\<lambda>w. case r of Inl e \<Rightarrow> tryR (rmEach h force is) (\<lambda>rs. Pair ((i, Some e) # rs)) w
      | Inr _ \<Rightarrow> tryR (rmEach h force is) (\<lambda>rs. Pair ((i, None) # rs)) (emitEvent EventTypeRemoved i w))" for r :: "SvcErr + unit"
  proof (cases r)
    case (Inr x)
    then show ?thesis using spec [OF rest [of "(i, None)", unfolded keeps_def], of "emitEvent EventTypeRemoved i _"] by (simp add: keeps_def)
  qed (simp add: rest)
  with Cons.prems show ?case by (simp only: rmEach.simps) (intro keeps_tryR, simp_all)
qed (simp only: rmEach.simps, rule keeps_Pair)

end

section \<open>Operations on one command\<close>

locale update_frame = store_frame +
  fixes i :: string
  assumes S_update: "S st (st\<lparr> dbState := amodify i f (dbState st) \<rparr>)"
begin

lemma keeps_UpdateCommandState: "keeps S (UpdateCommandState h i s ec js)"
  unfolding UpdateCommandState_def
  by (rule keeps_query) (auto simp: writeRow_def updateStateRow_def S_update split: sum.splits if_splits)

lemma keeps_SpawnMonitor: "keeps S (SpawnMonitor h i)"
proof (rule keepsI)
  fix w
  show "S (wStore w) (wStore (snd (SpawnMonitor h i w)))"
    using S_monitors S_trans [OF S_monitors S_update] by (simp add: SpawnMonitor_def bindR_def outside_def split: sum.split option.split)
qed

lemma keeps_startCommand: "keeps S (startCommand h i cfg)"
  unfolding startCommand_def by (intro keeps_steps keeps_GetCommandState keeps_SpawnMonitor keeps_WaitForState)

end

locale command_frame = update_frame +
  assumes S_delete: "S st (deleteCommandRows i st)"
begin

lemma keeps_DeleteCommand: "keeps S (DeleteCommand h i)"
  unfolding DeleteCommand_def by (rule keeps_query) (auto simp: S_delete)

lemma keeps_MarkMonitorDied: "keeps S (MarkMonitorDied h i js cfg)"
  unfolding MarkMonitorDied_def by (intro keeps_steps keeps_UpdateCommandState keeps_DeleteCommand keeps_autoRemoveDirs)

lemma keeps_cleanStaleEntry: "keeps S (cleanStaleEntry h i s cfg)"
  unfolding cleanStaleEntry_def by (intro keeps_steps keeps_isStaleMonitor keeps_GetCommandState keeps_MarkMonitorDied)

lemma keeps_settle: "keeps S (settleUnreachableMonitor h i cfg e)"
  unfolding settleUnreachableMonitor_def by (intro keeps_steps keeps_GetCommandState keeps_MarkMonitorDied)

lemma keeps_escalateStop: "keeps S (escalateStop h i cfg t)"
  unfolding escalateStop_def by (intro keeps_steps keeps_sendStop keeps_settle keeps_recordedForceKill keeps_waitForStopped)

lemma keeps_stopLive: "keeps S (stopLive h i cfg sig t)"
proof -
  have "keeps S (\<lambda>w. sendStop h i sig t (emitEvent EventTypeStopped i w))"
  proof (rule keepsI)
    show "S (wStore w) (wStore (snd (sendStop h i sig t (emitEvent EventTypeStopped i w))))" for w
      using spec [OF keeps_sendStop [of i sig t, unfolded keeps_def], of "emitEvent EventTypeStopped i w"] by simp
  qed
  then show ?thesis
    unfolding stopLive_def by (intro keeps_steps keeps_settle keeps_recordedForceKill keeps_waitForStopped keeps_escalateStop)
qed

lemma keeps_stopReportingUnreachable: "keeps S (stopReportingUnreachable h i sig t)"
  unfolding stopReportingUnreachable_def by (intro keeps_steps keeps_GetCommandState keeps_GetCommandConfig keeps_stopLive)

lemma keeps_stop: "keeps S (stop h i sig t)"
  unfolding stop_def by (intro keeps_steps keeps_stopReportingUnreachable)

lemma keeps_stopForRemoval: "keeps S (stopForRemoval h i pid)"
proof -
  have "keeps S (\<lambda>w. if wDone w then (Inl (ErrWrap ''stop'' ErrCanceled), w) else if e = None \<and> \<not> u then (Inr (), w)
      else if pid > 0 then (Inr (), w\<lparr> wKilled := wKilled w @ [pid] \<rparr>) else (Inr (), w))" for e u
    by (rule keeps_same) simp
  then show ?thesis unfolding stopForRemoval_def by (intro keeps_tryR keeps_prod keeps_stopReportingUnreachable)
qed

lemma keeps_rmOne: "keeps S (rmOne h i force)"
proof -
  have "keeps S (\<lambda>w. let w = (if c then removeDir h d w else w)
      in case MonitorRuntimeDir (hoConfig h) i of Inl e \<Rightarrow> (Inl e, w) | Inr d \<Rightarrow> (Inr (), removeDir h d w))" for c d
    using keeps_removeDir S_refl by (auto simp: keeps_def Let_def intro: S_trans split: sum.split)
  then show ?thesis
    unfolding rmOne_def by (intro keeps_steps keeps_GetCommandState keeps_GetCommandConfig keeps_stopForRemoval keeps_DeleteCommand)
qed

end

section \<open>Operations on any commands\<close>

locale service_frame = store_frame +
  assumes S_any_update: "S st (st\<lparr> dbState := amodify j f (dbState st) \<rparr>)"
    and S_any_delete: "S st (deleteCommandRows j st)"

sublocale service_frame \<subseteq> command_frame h S i for i
  by unfold_locales (rule S_any_update S_any_delete)+

context service_frame
begin

lemma keeps_Start: "keeps S (Start h s)"
  unfolding Start_def by (intro keeps_steps keeps_GetCommandConfig keeps_startCommand)

lemma keeps_Stop: "keeps S (Service_Stop h ts sig t)"
  unfolding Service_Stop_def by (intro keeps_steps keeps_resolveTargetIDs keeps_stopEach keeps_stop)

lemma keeps_restartOne: "keeps S (restartOne h i sig t)"
  unfolding restartOne_def by (intro keeps_steps keeps_GetCommandState keeps_stop keeps_Start)

lemma keeps_restartEach: "keeps S (restartEach h sig t is)"
  by (induction "is") (simp_all only: restartEach.simps, (intro keeps_steps keeps_restartOne | assumption)+)

lemma keeps_Restart: "keeps S (Service_Restart h ts sig t)"
  unfolding Service_Restart_def by (intro keeps_steps keeps_resolveTargetIDs keeps_restartEach)

lemma keeps_Remove: "keeps S (Service_Remove h ts ls force)"
  unfolding Service_Remove_def by (intro keeps_steps keeps_resolveTargetIDs keeps_rmEach keeps_rmOne)

lemma keeps_List: "keeps S (Service_List h a ls)"
  unfolding Service_List_def CleanStaleEntries_def by (intro keeps_steps keeps_ListCommands keeps_cleanEntries keeps_cleanStaleEntry)

end

section \<open>Creation\<close>

locale create_frame = service_frame +
  fixes good :: "string \<Rightarrow> string \<Rightarrow> bool"
  assumes S_insert: "insertConfigRow r st = Inr st' \<Longrightarrow> crName r = nullableString name \<Longrightarrow> good (crID r) name \<Longrightarrow> S st st'"
    and S_insertState: "insertStateRow j s st = Inr st' \<Longrightarrow> S st st'"
begin

lemma keeps_insertConfig: "good j name \<Longrightarrow> keeps S (InsertCommandConfig h j name cfg)"
proof (rule keepsI)
  assume g: "good j name"
  have "keeps S (query h (writeRow (insertConfigRow r)))" if "crName r = nullableString name" "crID r = j" for r
    using that g by (intro keeps_query) (auto simp: writeRow_def split: sum.splits intro: S_insert)
  then show "S (wStore w) (wStore (snd (InsertCommandConfig h j name cfg w)))" for w
    by (simp add: InsertCommandConfig_def keeps_def)
qed

lemma keeps_insertState: "keeps S (InsertCommandState h j s js)"
  unfolding InsertCommandState_def by (rule keeps_query) (auto simp: writeRow_def split: sum.splits intro: S_insertState)

lemma keeps_replace: "good j name \<Longrightarrow> keeps S (ReplaceCommand h old j name cfg)"
proof (rule keepsI)
  assume g: "good j name"
  have "keeps S (query h (writeRow (\<lambda>st. bindE (insertConfigRow r (deleteCommandRows old st)) (insertStateRow j s))))"
    if "crName r = nullableString name" "crID r = j" for r s
    using that g
    by (intro keeps_query) (auto simp: writeRow_def bindE_def split: sum.splits intro: S_trans [OF S_any_delete S_trans [OF S_insert S_insertState]])
  then show "S (wStore w) (wStore (snd (ReplaceCommand h old j name cfg w)))" for w
    by (simp add: ReplaceCommand_def keeps_def)
qed

lemma keeps_insertCommand: "good j name \<Longrightarrow> keeps S (insertCommand h j name cfg)"
  unfolding insertCommand_def by (intro keeps_steps keeps_insertConfig keeps_insertState)

lemma keeps_swapCommand: "good j name \<Longrightarrow> keeps S (swapCommand h old j name cfg oldCfg rd)"
proof -
  have "keeps S (\<lambda>w. case r of
         Inl e \<Rightarrow> (Inl (ErrWrap ''replace'' e), removeDir h (ccCommandDir cfg) w)
       | Inr _ \<Rightarrow> let w = (if ccCommandDir oldCfg \<noteq> [] then removeDir h (ccCommandDir oldCfg) w else w)
           in (Inr (), emitEvent EventTypeRemoved old (removeDir h rd w)))" for r :: "SvcErr + unit"
    using keeps_removeDir S_trans by (auto simp: keeps_def Let_def split: sum.split) blast
  then show "good j name \<Longrightarrow> ?thesis" unfolding swapCommand_def by (intro keeps_steps keeps_replace)
qed

lemma keeps_replaceOrInsert: "good j name \<Longrightarrow> keeps S (replaceOrInsertCommand h j name cfg)"
  unfolding replaceOrInsertCommand_def
  by (intro keeps_steps keeps_ResolveIDByName keeps_GetCommandState keeps_GetCommandConfig keeps_insertCommand keeps_swapCommand)

lemma keeps_Create: "(\<And>t. good (hoID h t) (rqName req)) \<Longrightarrow> keeps S (Create h req)"
proof -
  assume g: "\<And>t. good (hoID h t) (rqName req)"
  have "keeps S (\<lambda>w. (Inr j, emitEvent EventTypeCreated j w))" for j by (rule keeps_same) simp
  then have "keeps S (storeCommand h req (hoID h t) cfg)" for t cfg
    unfolding storeCommand_def by (intro keeps_steps keeps_replaceOrInsert keeps_insertCommand g)
  then show "keeps S (Create h req)" by (simp add: keeps_def Create_def Let_def S_refl split: sum.split)
qed

end

section \<open>The tables stay well formed\<close>

text \<open>Ids and names are unique, and states and exit codes belong to a command.\<close>

definition namesOf :: "Store \<Rightarrow> string option list" where
  "namesOf st = map crName (filter (\<lambda>r. crName r \<noteq> None) (dbConfig st))"

definition store_ok :: "Store \<Rightarrow> bool" where
  "store_ok st \<longleftrightarrow> distinct (map crID (dbConfig st)) \<and> distinct (namesOf st) \<and> distinct (keys_of (dbState st)) \<and>
     set (keys_of (dbState st)) \<subseteq> crID ` set (dbConfig st) \<and> fst ` set (dbExit st) \<subseteq> crID ` set (dbConfig st)"

lemma store_ok_update: "store_ok (st\<lparr> dbState := amodify i f (dbState st) \<rparr>) = store_ok st"
  by (simp add: store_ok_def namesOf_def)

lemma store_ok_delete: "store_ok st \<Longrightarrow> store_ok (deleteCommandRows i st)"
proof -
  assume ok: "store_ok st"
  have names: "distinct (map crName (filter P xs)) \<Longrightarrow> distinct (map crName (filter P (filter Q xs)))" for P Q :: "ConfigRow \<Rightarrow> bool" and xs
    using distinct_map_filter [of crName "filter P xs" Q] by (simp add: conj_commute)
  have sub: "j \<in> crID ` {r \<in> set (dbConfig st). crID r \<noteq> i}" if "j \<in> crID ` set (dbConfig st)" "j \<noteq> i" for j
    using that by auto
  from ok sub show ?thesis
    by (auto simp: store_ok_def deleteCommandRows_def namesOf_def names distinct_map_filter simp del: filter_filter)
qed

lemma store_ok_insert:
  assumes "store_ok st" "insertConfigRow r st = Inr st'"
  shows "store_ok st'"
proof -
  from assms(2) have "crID r \<notin> crID ` set (dbConfig st)" "crName r \<noteq> None \<Longrightarrow> crName r \<notin> crName ` set (dbConfig st)"
    "st' = st\<lparr> dbConfig := dbConfig st @ [r] \<rparr>"
    by (auto simp: insertConfigRow_def split: if_splits)
  with assms(1) show ?thesis by (auto simp: store_ok_def namesOf_def)
qed

lemma store_ok_insertState:
  assumes "store_ok st" "insertStateRow i r st = Inr st'"
  shows "store_ok st'"
proof -
  from assms(2) have "i \<notin> set (keys_of (dbState st))" "i \<in> crID ` set (dbConfig st)" "st' = st\<lparr> dbState := dbState st @ [(i, r)] \<rparr>"
    by (simp_all add: insertStateRow_def split: if_splits)
  with assms(1) show ?thesis by (simp add: store_ok_def namesOf_def)
qed

definition okS :: "Store \<Rightarrow> Store \<Rightarrow> bool" where
  "okS st st' \<longleftrightarrow> (store_ok st \<longrightarrow> store_ok st')"

lemma okS_monitors: "okS st (monitorsAct h t st)"
proof -
  have "store_ok st' \<Longrightarrow> store_ok (monitorAct h t x st')" for x st'
    by (cases x) (auto simp: monitorAct_def store_ok_update store_ok_delete split: option.split)
  then have "store_ok st' \<Longrightarrow> store_ok (fold (monitorAct h t) xs st')" for xs st'
    by (induction xs arbitrary: st') auto
  then show ?thesis by (simp add: okS_def monitorsAct_def)
qed

interpretation ok: create_frame h okS "\<lambda>_ _. True" for h
  by unfold_locales
     (auto simp: okS_def store_ok_update store_ok_delete okS_monitors [unfolded okS_def] intro: store_ok_insert store_ok_insertState)

end
