(* ===== verification/Cmd_Cancel.thy ===== *)
theory Cmd_Cancel
  imports Cmd_Effects
begin

text \<open>
  A context that is done stays done: no operation of the service brings it back. So an operation that
  ends with a context that is not done was never interrupted.
\<close>

section \<open>Lasting conditions\<close>

definition lasting :: "('w \<Rightarrow> bool) \<Rightarrow> ('w \<Rightarrow> 'r \<times> 'w) \<Rightarrow> bool" where
  "lasting d f \<longleftrightarrow> (\<forall>w. d w \<longrightarrow> d (snd (f w)))"

lemma lastingI: "(\<And>w. d w \<Longrightarrow> d (snd (f w))) \<Longrightarrow> lasting d f"
  by (simp add: lasting_def)

lemma lastingD: "lasting d f \<Longrightarrow> f w = (r, w') \<Longrightarrow> d w \<Longrightarrow> d w'"
  by (metis lasting_def snd_conv)

lemma lasting_tryR: "lasting d f \<Longrightarrow> (\<And>x. lasting d (g x)) \<Longrightarrow> lasting d (tryR f g)"
  unfolding lasting_def tryR_def by (metis case_prod_beta)

lemma lasting_bindR: "lasting d f \<Longrightarrow> (\<And>x. lasting d (g x)) \<Longrightarrow> lasting d (bindR f g)"
  unfolding lasting_def bindR_def by (auto split: prod.split sum.split)

lemma lasting_wrapR: "lasting d f \<Longrightarrow> lasting d (wrapR k f)"
  by (simp add: lasting_def wrapR_def case_prod_beta)

lemma lasting_if: "(c \<Longrightarrow> lasting d f) \<Longrightarrow> (\<not> c \<Longrightarrow> lasting d g) \<Longrightarrow> lasting d (if c then f else g)"
  by simp

lemma lasting_sum: "(\<And>e. lasting d (f e)) \<Longrightarrow> (\<And>x. lasting d (g x)) \<Longrightarrow> lasting d (case r of Inl e \<Rightarrow> f e | Inr x \<Rightarrow> g x)"
  by (cases r) simp_all

lemma lasting_option: "lasting d f \<Longrightarrow> (\<And>x. lasting d (g x)) \<Longrightarrow> lasting d (case r of None \<Rightarrow> f | Some x \<Rightarrow> g x)"
  by (cases r) simp_all

lemma lasting_prod: "(\<And>a b. lasting d (f a b)) \<Longrightarrow> lasting d (case p of (a, b) \<Rightarrow> f a b)"
  by (cases p) simp

lemma lasting_let: "lasting d (f t) \<Longrightarrow> lasting d (let x = t in f x)"
  by simp

lemma lasting_Pair: "lasting d (Pair x)"
  by (simp add: lasting_def)

lemmas lasting_steps = lasting_tryR lasting_bindR lasting_wrapR lasting_if lasting_sum lasting_option lasting_prod lasting_let lasting_Pair

section \<open>The service\<close>

lemma outside_done [simp]: "wDone w \<Longrightarrow> wDone (snd (outside h w))"
  by (simp add: outside_def)

lemma removeDir_done [simp]: "wDone w \<Longrightarrow> wDone (removeDir h p w)"
  by (simp add: removeDir_def outside_def split: option.split)

lemma lasting_outside: "lasting wDone (outside h)"
  by (simp add: lasting_def)

lemma lasting_query: "lasting wDone (query h q)"
  unfolding query_def by (intro lasting_bindR lasting_outside) (auto simp: lasting_def split: sum.split)

lemma query_done [simp]: "wDone w \<Longrightarrow> wDone (snd (query h q w))"
  using lasting_query by (auto simp: lasting_def)

lemma lasting_GetCommandState: "lasting wDone (GetCommandState h i)"
  by (simp add: GetCommandState_def lasting_query)

lemma lasting_ResolveIDByName: "lasting wDone (ResolveIDByName h i)"
  by (simp add: ResolveIDByName_def lasting_query)

lemma lasting_ResolveID: "lasting wDone (ResolveID h s)"
  unfolding ResolveID_def ResolveIDByName_def ResolveIDByID_def ResolveIDByPrefix_def by (intro lasting_steps lasting_query)

lemma lasting_GetCommandConfig: "lasting wDone (GetCommandConfig h s)"
  unfolding GetCommandConfig_def by (intro lasting_steps lasting_ResolveID lasting_query)

lemma lasting_ListCommands: "lasting wDone (ListCommands h a l)"
  by (simp add: ListCommands_def lasting_query)

lemma lasting_UpdateCommandState: "lasting wDone (UpdateCommandState h i s ec js)"
  by (simp add: UpdateCommandState_def lasting_query)

lemma lasting_DeleteCommand: "lasting wDone (DeleteCommand h i)"
  by (simp add: DeleteCommand_def lasting_query)

lemma lasting_openStore: "lasting wDone (openStore h)"
  unfolding openStore_def by (intro lasting_steps lasting_outside)

lemmas lasting_reads = lasting_steps lasting_outside lasting_query lasting_GetCommandState lasting_ResolveIDByName lasting_ResolveID
  lasting_GetCommandConfig lasting_ListCommands lasting_UpdateCommandState lasting_DeleteCommand lasting_openStore

lemma lasting_pollStopped: "lasting wDone (pollStopped h i n)"
proof (induction n)
  case 0
  have "lasting wDone (\<lambda>w. case r of Inl e \<Rightarrow> (if errorsIs e ErrNoRows then Inr () else Inl e, w)
      | Inr s \<Rightarrow> (if hasEnded (srState s) then Inr () else Inl (if wDone w then ErrCanceled else ErrDeadline), w))" for r
    by (auto simp: lasting_def split: sum.split)
  then show ?case by (simp only: pollStopped.simps) (rule lasting_tryR [OF lasting_GetCommandState])
qed (simp only: pollStopped.simps, intro lasting_reads)

lemma lasting_waitForStopped: "lasting wDone (waitForStopped h i t)"
  using lasting_pollStopped by (simp add: lasting_def waitForStopped_def)

lemma lasting_recordedForceKill: "lasting wDone (recordedForceKill h i)"
  unfolding recordedForceKill_def by (intro lasting_reads)

lemma lasting_rpcStop: "lasting wDone (rpcStop h i sig t)"
  by (rule lastingI) (simp add: rpcStop_def Let_def split: option.split RPCErr.split)

lemma lasting_sendStop: "lasting wDone (sendStop h i sig t)"
  unfolding sendStop_def by (intro lasting_reads lasting_rpcStop)

lemma lasting_autoRemoveDirs: "lasting wDone (\<lambda>w. (r, autoRemoveDirs h i cfg w))"
  by (simp add: lasting_def autoRemoveDirs_def Let_def split: sum.split)

lemma lasting_MarkMonitorDied: "lasting wDone (MarkMonitorDied h i js cfg)"
  unfolding MarkMonitorDied_def by (intro lasting_reads lasting_autoRemoveDirs)

lemma lasting_settle: "lasting wDone (settleUnreachableMonitor h i cfg e)"
  unfolding settleUnreachableMonitor_def by (intro lasting_reads lasting_MarkMonitorDied)

lemma lasting_escalateStop: "lasting wDone (escalateStop h i cfg t)"
  unfolding escalateStop_def by (intro lasting_reads lasting_sendStop lasting_settle lasting_recordedForceKill lasting_waitForStopped)

lemma lasting_stopLive: "lasting wDone (stopLive h i cfg sig t)"
proof -
  have "lasting wDone (\<lambda>w. sendStop h i sig t (emitEvent EventTypeStopped i w))"
    using lasting_sendStop [of h i sig t] by (simp add: lasting_def)
  then show ?thesis
    unfolding stopLive_def by (intro lasting_reads lasting_settle lasting_recordedForceKill lasting_waitForStopped lasting_escalateStop)
qed

lemma lasting_stopReportingUnreachable: "lasting wDone (stopReportingUnreachable h i sig t)"
  unfolding stopReportingUnreachable_def by (intro lasting_reads lasting_stopLive)

lemma lasting_stop: "lasting wDone (stop h i sig t)"
  unfolding stop_def by (intro lasting_reads lasting_stopReportingUnreachable)

lemma lasting_resolveAll: "lasting wDone (resolveAll h as)"
  by (induction as) (simp_all only: resolveAll.simps, (intro lasting_reads | assumption)+)

lemma lasting_resolveTargetIDs: "lasting wDone (resolveTargetIDs h as ls)"
  unfolding resolveTargetIDs_def FindByLabels_def by (intro lasting_reads lasting_resolveAll)

lemma lasting_stopEach: "lasting wDone (stopEach h sig t is)"
  by (induction "is") (simp_all only: stopEach.simps, (intro lasting_reads lasting_stop | assumption)+)

lemma lasting_Service_Stop: "lasting wDone (Service_Stop h ts sig t)"
  unfolding Service_Stop_def by (intro lasting_reads lasting_resolveTargetIDs lasting_stopEach)

lemma lasting_stopForRemoval: "lasting wDone (stopForRemoval h i pid)"
proof -
  have "lasting wDone (\<lambda>w. if wDone w then (Inl (ErrWrap ''stop'' ErrCanceled), w) else if e = None \<and> \<not> u then (Inr (), w)
      else if pid > 0 then (Inr (), w\<lparr> wKilled := wKilled w @ [pid] \<rparr>) else (Inr (), w))" for e u
    by (simp add: lasting_def)
  then show ?thesis unfolding stopForRemoval_def by (intro lasting_tryR lasting_prod lasting_stopReportingUnreachable)
qed

lemma lasting_rmOne: "lasting wDone (rmOne h i force)"
proof -
  have "lasting wDone (\<lambda>w. let w = (if c then removeDir h p w else w)
      in case MonitorRuntimeDir (hoConfig h) i of Inl e \<Rightarrow> (Inl e, w) | Inr p \<Rightarrow> (Inr (), removeDir h p w))" for c p
    by (auto simp: lasting_def Let_def split: sum.split)
  then show ?thesis unfolding rmOne_def by (intro lasting_reads lasting_stopForRemoval)
qed

lemma lasting_rmEach: "lasting wDone (rmEach h force is)"
proof (induction "is")
  case (Cons i "is")
  then have rest: "lasting wDone (tryR (rmEach h force is) (\<lambda>rs. Pair (x # rs)))" for x by (intro lasting_steps)
  then have "lasting wDone (\<lambda>w. case r of Inl e \<Rightarrow> tryR (rmEach h force is) (\<lambda>rs. Pair ((i, Some e) # rs)) w
      | Inr _ \<Rightarrow> tryR (rmEach h force is) (\<lambda>rs. Pair ((i, None) # rs)) (emitEvent EventTypeRemoved i w))" for r :: "SvcErr + unit"
    by (cases r) (simp_all add: lasting_def)
  then show ?case by (simp only: rmEach.simps) (intro lasting_tryR lasting_rmOne)
qed (simp only: rmEach.simps lasting_Pair)

lemma lasting_Remove: "lasting wDone (Service_Remove h ts ls force)"
  unfolding Service_Remove_def by (intro lasting_reads lasting_resolveTargetIDs lasting_rmEach)

lemma lasting_SpawnMonitor: "lasting wDone (SpawnMonitor h i)"
  by (rule lastingI) (simp add: SpawnMonitor_def bindR_def outside_def split: option.split)

lemma lasting_waitState: "lasting wDone (waitState h i d s pid p n)"
  by (induction n arbitrary: p) (simp_all only: waitState.simps, (intro lasting_reads | assumption)+)

lemma lasting_Start: "lasting wDone (Start h s)"
  unfolding Start_def startCommand_def WaitForState_def by (intro lasting_reads lasting_SpawnMonitor lasting_waitState)

lemma lasting_pollCondition: "lasting wDone (pollCondition h i c n)"
proof (induction n)
  case 0
  have "lasting wDone (\<lambda>w. case r of Inl e \<Rightarrow> ((None, if errorsIs e ErrNoRows then None else Some e), w)
      | Inr s \<Rightarrow> if matchesWaitCondition (srState s) c then ((srExitCode s, None), w)
          else ((srExitCode s, Some ErrCanceled), w\<lparr> wDone := True \<rparr>))" for r
    by (simp add: lasting_def split: sum.split)
  then show ?case by (simp only: pollCondition.simps) (rule lasting_tryR [OF lasting_GetCommandState])
qed (simp only: pollCondition.simps, intro lasting_reads)

lemma lasting_waitForCondition: "lasting wDone (waitForCondition h i c t)"
  using lasting_pollCondition by (simp add: lasting_def waitForCondition_def)

lemma lasting_waitEach: "lasting wDone (waitEach h c t ig ts)"
  by (induction ts) (simp_all only: waitEach.simps, (intro lasting_reads lasting_waitForCondition | assumption)+)

lemma lasting_Wait: "lasting wDone (Wait h ts c t ig)"
  unfolding Wait_def by (intro lasting_reads lasting_waitEach)

lemma lasting_isStale: "lasting wDone (isStaleMonitor h i)"
  by (simp add: lasting_def isStaleMonitor_def)

lemma lasting_cleanEntries: "lasting wDone (cleanEntries h es)"
  unfolding cleanStaleEntry_def
  by (induction es) (simp_all only: cleanEntries.simps cleanStaleEntry_def, (intro lasting_reads lasting_isStale lasting_MarkMonitorDied | assumption)+)

lemma lasting_List: "lasting wDone (Service_List h a ls)"
  unfolding Service_List_def CleanStaleEntries_def by (intro lasting_reads lasting_cleanEntries)

lemma lasting_emit: "lasting wDone (\<lambda>w. (r, emitEvent ty i w))"
  by (simp add: lasting_def)

lemma lasting_Write: "lasting wDone (WriteCommandConfig h p cfg)"
  unfolding WriteCommandConfig_def by (intro lasting_bindR lasting_outside) (simp add: lasting_def)

lemma lasting_insertCommand: "lasting wDone (insertCommand h i name cfg)"
proof -
  have "lasting wDone (InsertCommandConfig h i name cfg)" by (simp add: lasting_def InsertCommandConfig_def)
  moreover have "lasting wDone (InsertCommandState h i s js)" for s js by (simp add: InsertCommandState_def lasting_query)
  ultimately show ?thesis unfolding insertCommand_def by (intro lasting_steps lasting_Write)
qed

lemma lasting_replaceOrInsert: "lasting wDone (replaceOrInsertCommand h i name cfg)"
proof -
  have "lasting wDone (ReplaceCommand h old i name cfg)" for old by (simp add: lasting_def ReplaceCommand_def)
  moreover have "lasting wDone (\<lambda>w. case r of
         Inl e \<Rightarrow> (Inl (ErrWrap ''replace'' e), removeDir h p w)
       | Inr _ \<Rightarrow> let w = (if c then removeDir h q w else w) in (Inr (), emitEvent EventTypeRemoved j (removeDir h rd w)))" for r :: "SvcErr + unit" and p q c j rd
    by (cases r) (auto simp: lasting_def Let_def)
  ultimately have "lasting wDone (swapCommand h old i name cfg oldCfg rd)" for old oldCfg rd
    unfolding swapCommand_def by (intro lasting_steps lasting_Write)
  then show ?thesis unfolding replaceOrInsertCommand_def by (intro lasting_reads lasting_insertCommand)
qed

lemma lasting_Create: "lasting wDone (Create h req)"
proof -
  have "lasting wDone (storeCommand h req i cfg)" for i cfg
    unfolding storeCommand_def by (intro lasting_reads lasting_replaceOrInsert lasting_insertCommand lasting_emit)
  then show ?thesis by (simp add: lasting_def Create_def Let_def split: sum.split)
qed

end
