(* ===== verification/Compose_Frame.thy ===== *)
theory Compose_Frame
  imports Compose_Walk Cmd_Cancel
begin

text \<open>
  What compose does to the world it does through the operations of the service. A relation between
  worlds that is transitive and kept by those operations is kept by every hook, teardown and walk
  (locale \<open>service_calls\<close>). It holds of the invariant of the tables and of the cancellation of the context.
\<close>

section \<open>Effects that respect a relation\<close>

definition obeys :: "(CWorld \<Rightarrow> CWorld \<Rightarrow> bool) \<Rightarrow> 'a effect \<Rightarrow> bool" where
  "obeys Q f \<longleftrightarrow> (\<forall>cw. Q cw (snd (f cw)))"

lemma obeysI: "(\<And>cw. Q cw (snd (f cw))) \<Longrightarrow> obeys Q f"
  by (simp add: obeys_def)

lemma obeysD: "obeys Q f \<Longrightarrow> f cw = (r, cw') \<Longrightarrow> Q cw cw'"
  by (metis obeys_def snd_conv)

lemma obeys_if: "(c \<Longrightarrow> obeys Q f) \<Longrightarrow> (\<not> c \<Longrightarrow> obeys Q g) \<Longrightarrow> obeys Q (if c then f else g)"
  by simp

lemma obeys_sum: "(\<And>e. obeys Q (f e)) \<Longrightarrow> (\<And>x. obeys Q (g x)) \<Longrightarrow> obeys Q (case r of Inl e \<Rightarrow> f e | Inr x \<Rightarrow> g x)"
  by (cases r) simp_all

lemma obeys_option: "obeys Q f \<Longrightarrow> (\<And>x. obeys Q (g x)) \<Longrightarrow> obeys Q (case r of None \<Rightarrow> f | Some x \<Rightarrow> g x)"
  by (cases r) simp_all

lemma obeys_prod: "(\<And>a b. obeys Q (f a b)) \<Longrightarrow> obeys Q (case p of (a, b) \<Rightarrow> f a b)"
  by (cases p) simp

lemma obeys_let: "obeys Q (f t) \<Longrightarrow> obeys Q (let x = t in f x)"
  by simp

text \<open>Reports do not touch the world.\<close>

lemma report_world [simp]: "cwWorld (report ch ev cw) = cwWorld cw"
  by (simp add: report_def)

lemma reports_world [simp]: "cwWorld (reportHook ch run p e x cw) = cwWorld cw" "cwWorld (reportHookOutput ch run s l cw) = cwWorld cw"
  "cwWorld (reportPlain ch c p e x cw) = cwWorld cw" "cwWorld (reportStopped ch c x k cw) = cwWorld cw" "cwWorld (recordFailure fr cw) = cwWorld cw"
  by (simp_all add: reportHook_def reportHookOutput_def reportPlain_def reportStopped_def recordFailure_def)

lemma fold_world: "(\<And>x cw. cwWorld (f x cw) = cwWorld cw) \<Longrightarrow> cwWorld (fold f xs cw) = cwWorld cw"
  by (induction xs arbitrary: cw) simp_all

lemma reportReplicas_world [simp]: "cwWorld (reportReplicas ch cmd ids p e x cw) = cwWorld cw"
  by (simp add: reportReplicas_def fold_world)

lemma forward_world [simp]: "cwWorld (forwardRecords ch run rs a cw) = cwWorld cw"
  by (induction ch run rs a cw rule: forwardRecords.induct) (simp_all add: fold_world case_prod_beta split: option.split)

text \<open>The service as compose calls it.\<close>

locale service_calls =
  fixes ch :: ComposeHost and Q :: "CWorld \<Rightarrow> CWorld \<Rightarrow> bool"
  assumes Q_same: "cwWorld cw' = cwWorld cw \<Longrightarrow> Q cw cw'"
    and Q_trans: "Q cw1 cw2 \<Longrightarrow> Q cw2 cw3 \<Longrightarrow> Q cw1 cw3"
    and Q_outside: "obeys Q (svc (outside (chHost ch)))"
    and Q_List: "obeys Q (svc (Service_List (chHost ch) al ls))"
    and Q_Create: "obeys Q (svc (Create (chHost ch) req))"
    and Q_Start: "obeys Q (svc (Start (chHost ch) i))"
    and Q_Stop: "obeys Q (svc (Service_Stop (chHost ch) ids sig timeout))"
    and Q_Remove: "obeys Q (svc (Service_Remove (chHost ch) ids ls force))"
    and Q_Wait: "obeys Q (svc (Wait (chHost ch) ids c interval ig))"
    and Q_detached: "obeys Q f \<Longrightarrow> obeys Q (detached (f :: unit effect))"
begin

lemma Q_tryR: "obeys Q f \<Longrightarrow> (\<And>x. obeys Q (g x)) \<Longrightarrow> obeys Q (tryR f g)"
  unfolding obeys_def tryR_def by (auto split: prod.split) (metis Q_trans snd_conv)

lemma Q_Pair: "obeys Q (Pair x)"
  by (simp add: obeys_def Q_same)

lemma Q_bindR: "obeys Q f \<Longrightarrow> (\<And>x. obeys Q (g x)) \<Longrightarrow> obeys Q (bindR f g)"
  unfolding obeys_def bindR_def by (auto split: prod.split sum.split) (metis Q_trans snd_conv)+

lemma Q_wrapR: "obeys Q f \<Longrightarrow> obeys Q (wrapR k f)"
  by (simp add: obeys_def wrapR_def case_prod_beta)

lemma Q_pre: "(\<And>cw. cwWorld (k cw) = cwWorld cw) \<Longrightarrow> obeys Q f \<Longrightarrow> obeys Q (\<lambda>cw. f (k cw))"
  unfolding obeys_def using Q_same Q_trans by blast

lemma Q_pure: "(\<And>cw. cwWorld (snd (f cw)) = cwWorld cw) \<Longrightarrow> obeys Q f"
  by (simp add: obeys_def Q_same)

lemma Q_cond: "obeys Q f \<Longrightarrow> obeys Q g \<Longrightarrow> obeys Q (\<lambda>cw. if c cw then f cw else g cw)"
  by (simp add: obeys_def)

lemmas Q_steps = Q_tryR Q_bindR Q_wrapR obeys_if obeys_sum obeys_option obeys_prod obeys_let Q_Pair
  Q_outside Q_List Q_Create Q_Start Q_Stop Q_Remove Q_Wait

section \<open>Hooks\<close>

lemma Q_findHolder: "obeys Q (findHolder ch ref)"
  unfolding findHolder_def by (intro Q_steps)

lemma Q_putHolder: "obeys Q (putHolder ch h)"
  unfolding putHolder_def by (intro Q_steps)

lemma Q_removeIntermediate: "obeys Q (removeIntermediate ch i)"
  unfolding removeIntermediate_def by (intro Q_steps)

lemma Q_dropHolder: "obeys Q (dropHolder ch ref)"
  unfolding dropHolder_def by (intro Q_steps Q_findHolder Q_removeIntermediate)

lemma Q_stopForRecreate: "obeys Q (stopForRecreate ch i t)"
  unfolding stopForRecreate_def by (intro Q_steps)

lemma Q_stopLive: "obeys Q (stopLiveIntermediate ch e)"
  unfolding stopLiveIntermediate_def by (intro Q_steps Q_stopForRecreate)

lemma Q_clearExecs: "obeys Q (clearExecs ch es)"
  by (induction es) (simp_all only: clearExecs.simps, (intro Q_steps Q_stopLive Q_removeIntermediate | assumption)+)

lemma Q_clearStale: "obeys Q (clearStaleExecs ch ls)"
  unfolding clearStaleExecs_def by (intro Q_steps Q_clearExecs)

lemma Q_time: "obeys Q (\<lambda>cw. (r cw, snd (svc (outside (chHost ch)) cw)))"
  using Q_outside by (simp add: obeys_def)

lemma Q_readValue: "obeys Q (readResourceValue ch i)"
  using Q_time unfolding readResourceValue_def Let_def .

lemma Q_record: "obeys Q (recordResource ch run h i)"
  unfolding recordResource_def by (intro Q_steps Q_dropHolder Q_readValue Q_putHolder)

lemma Q_stopMatching: "obeys Q (stopMatching ch i es)"
  by (induction es) (simp_all only: stopMatching.simps, (intro Q_steps Q_stopLive | assumption)+)

lemma Q_cancelled: "obeys Q (stopCancelledExec ch run i)"
  unfolding stopCancelledExec_def by (intro Q_detached Q_steps Q_stopMatching)

lemma Q_forward: "obeys Q f \<Longrightarrow> obeys Q (\<lambda>cw. f (if c then forwardHookOutput ch run i cw else cw))"
proof -
  assume f: "obeys Q f"
  have "Q cw (forwardHookOutput ch run i cw)" for cw
  proof -
    let ?cw = "snd (svc (outside (chHost ch)) cw)"
    have "Q cw ?cw" using Q_outside by (simp add: obeys_def)
    moreover have "Q ?cw (forwardHookOutput ch run i cw)"
      by (rule Q_same) (simp add: forwardHookOutput_def Let_def split: sum.split)
    ultimately show ?thesis by (rule Q_trans)
  qed
  with f show ?thesis by (auto simp: obeys_def intro: Q_trans)
qed

lemma Q_runExec: "obeys Q (runExec ch run i)"
proof -
  have "obeys Q (\<lambda>cw. case results of
        Inl e \<Rightarrow> ((None :: int option, Some (ErrWrap ''wait for hook command'' e)), cw) | Inr rs \<Rightarrow> (hookExit rs, cw))" for results
    by (rule Q_pure) (simp split: sum.split)
  then have w: "obeys Q (tryR (svc (Wait (chHost ch) [i] EventTypeNone 0 False)) (\<lambda>results cw.
      if ctxDone cw then tryR (stopCancelledExec ch run i) (\<lambda>_. Pair (None, Some ErrCanceled)) cw
      else case results of Inl e \<Rightarrow> ((None, Some (ErrWrap ''wait for hook command'' e)), cw) | Inr rs \<Rightarrow> (hookExit rs, cw)))"
    by (intro Q_tryR Q_Wait Q_cond Q_cancelled Q_Pair)
  have s: "obeys Q (\<lambda>cw. if ctxDone cw then tryR (stopCancelledExec ch run i) (\<lambda>_. Pair (None, Some ErrCanceled)) cw
      else ((None, Some (ErrWrap ''start hook command'' e)), cw))" for e
    by (intro Q_cond Q_tryR Q_cancelled Q_Pair)
  note f = Q_forward [OF w, of "chReporter ch" run i]
  have "obeys Q (\<lambda>cw. case r of
       Inl e \<Rightarrow> if ctxDone cw then tryR (stopCancelledExec ch run i) (\<lambda>_. Pair (None, Some ErrCanceled)) cw
         else ((None, Some (ErrWrap ''start hook command'' e)), cw)
     | Inr _ \<Rightarrow> tryR (svc (Wait (chHost ch) [i] EventTypeNone 0 False)) (\<lambda>results cw.
      if ctxDone cw then tryR (stopCancelledExec ch run i) (\<lambda>_. Pair (None, Some ErrCanceled)) cw
      else case results of Inl e \<Rightarrow> ((None, Some (ErrWrap ''wait for hook command'' e)), cw) | Inr rs \<Rightarrow> (hookExit rs, cw))
         (if chReporter ch then forwardHookOutput ch run i cw else cw))" for r :: "SvcErr + unit"
    using s f by (cases r) simp_all
  then show ?thesis unfolding runExec_def by (intro Q_tryR Q_Start)
qed

lemma Q_execRun: "obeys Q (execRun ch run h j)"
  unfolding execRun_def execDone_def by (intro Q_steps Q_runExec Q_record Q_removeIntermediate)

lemma Q_execHookValue: "obeys Q (execHookValue ch run h exec value)"
proof -
  have "obeys Q (\<lambda>cw. execRun ch run h i (reportHook ch run PhaseHookRunning None None cw))" for i
    by (rule Q_pre [OF _ Q_execRun]) (rule reports_world)
  then show ?thesis unfolding execHookValue_def by (intro Q_steps Q_clearStale)
qed

lemma Q_execHook: "obeys Q (execHook ch run h exec)"
  unfolding execHook_def Let_def by (intro Q_steps Q_execHookValue Q_findHolder)

lemma Q_ignored: "obeys Q (\<lambda>cw. if c then tryR (dropHolder ch ref) (\<lambda>_. Pair (x, y)) (reportHook ch run p er exit cw) else ((x, y), reportHook ch run p er exit cw))"
proof (cases c)
  case True
  have "obeys Q (tryR (dropHolder ch ref) (\<lambda>_. Pair (x, y)))" by (intro Q_steps Q_dropHolder)
  with True show ?thesis using Q_pre [of "reportHook ch run p er exit"] by simp
qed (simp add: Q_pure)

lemma Q_onFailure: "obeys Q (onFailure ch run h exec exit held v e)"
proof -
  let ?rel = "lhResource h \<noteq> [] \<and> \<not> acquires (ruEvent run)" and ?err = "ErrWrap ''hook'' e"
  let ?k = "\<lambda>cw. if ?rel then recordFailure (failureRecord run h exec held v ?err (ctxDone cw)) cw else cw"
  have rep: "obeys Q (\<lambda>cw. (x, reportHook ch run p er exit cw))" for x :: "SvcErr option \<times> SvcErr option" and p er by (simp add: Q_pure)
  have "obeys Q (\<lambda>cw. case oe of
           OnErrorContinue \<Rightarrow> ((Some ?err, None), reportHook ch run PhaseHookWarning (Some ?err) exit cw)
         | OnErrorIgnore \<Rightarrow> if ?rel then tryR (dropHolder ch (resourceRefOf (ruReplica run) (lhResource h))) (\<lambda>_. Pair (None, None)) (reportHook ch run PhaseHookIgnored (Some ?err) exit cw)
             else ((None, None), reportHook ch run PhaseHookIgnored (Some ?err) exit cw)
         | _ \<Rightarrow> ((None, Some ?err), reportHook ch run PhaseHookFailed (Some ?err) exit cw))" for oe
    using rep Q_ignored by (cases oe) simp_all
  then have "obeys Q (\<lambda>cw. if ctxDone cw then ((None, Some ?err), reportHook ch run PhaseHookFailed (Some ?err) exit cw)
         else case OnError_resolved (leOnError exec) of
           OnErrorContinue \<Rightarrow> ((Some ?err, None), reportHook ch run PhaseHookWarning (Some ?err) exit cw)
         | OnErrorIgnore \<Rightarrow> if ?rel then tryR (dropHolder ch (resourceRefOf (ruReplica run) (lhResource h))) (\<lambda>_. Pair (None, None)) (reportHook ch run PhaseHookIgnored (Some ?err) exit cw)
             else ((None, None), reportHook ch run PhaseHookIgnored (Some ?err) exit cw)
         | _ \<Rightarrow> ((None, Some ?err), reportHook ch run PhaseHookFailed (Some ?err) exit cw))" (is "obeys Q ?F")
    by (intro Q_cond rep)
  then have "obeys Q (\<lambda>cw. ?F (?k cw))" by (rule Q_pre [of ?k, rotated]) simp
  then show ?thesis unfolding onFailure_def Let_def .
qed

lemma Q_runHookAs: "obeys Q (runHookAs ch run h exec)"
  unfolding runHookAs_def by (intro Q_steps Q_execHook Q_onFailure) (simp add: Q_pure)

lemma Q_runHook: "obeys Q (runHook ch r h ev exec)"
  unfolding runHook_def by (rule Q_runHookAs)

lemma Q_lifecycle: "obeys Q (runLifecycleEvent ch r hs ev)"
  by (induction hs) (simp_all only: runLifecycleEvent.simps, (intro Q_steps Q_runHook | assumption)+)

lemma Q_runRelease: "obeys Q (runRelease ch h force)"
  unfolding runRelease_def Let_def by (intro Q_steps Q_runHookAs)

section \<open>Operations inside hooks\<close>

lemma Q_before: "obeys Q step \<Longrightarrow> obeys Q (beforeStep ch r hs ev failed step)"
  unfolding beforeStep_def by (intro Q_steps Q_lifecycle)

lemma Q_createWithHooks: "obeys Q (createWithHooks ch r hs req)"
  unfolding createWithHooks_def by (intro Q_before Q_steps Q_lifecycle)

lemma Q_startWithHooks: "obeys Q (startWithHooks ch r hs i)"
  unfolding startWithHooks_def by (intro Q_before Q_steps Q_lifecycle)

lemma Q_startReplica: "obeys Q (startReplica ch spec src cmd e)"
  unfolding startReplica_def by (intro Q_steps Q_startWithHooks)

lemma Q_stopWithHooks: "obeys Q (stopWithHooks ch r hs i t)"
  unfolding stopWithHooks_def by (intro Q_before Q_steps Q_lifecycle Q_stopForRecreate)

lemma Q_removeExecs: "obeys Q (removeExecs ch es)"
  by (induction es) (simp_all only: removeExecs.simps, (intro Q_steps Q_removeIntermediate | assumption)+)

lemma Q_removeWithHooks: "obeys Q (removeWithHooks ch r hs ts force)"
  unfolding removeWithHooks_def removeLeftExecs_def by (intro Q_before Q_steps Q_lifecycle Q_removeExecs)

lemma Q_releaseEach: "obeys Q (releaseEach ch es)"
  by (induction es) (simp_all only: releaseEach.simps, (intro Q_steps Q_runRelease | assumption)+)

lemma Q_releaseStop: "obeys Q (releaseStopResources ch r)"
  unfolding releaseStopResources_def by (intro Q_steps Q_releaseEach)

lemma Q_removeReplica: "obeys Q (removeReplica ch r hs ts force stopped)"
  unfolding removeReplica_def by (intro Q_steps Q_removeWithHooks Q_releaseStop)

lemma Q_acquireStop: "obeys Q (acquireStop ch)"
  by (rule Q_pure) (simp add: acquireStop_def)

lemma Q_teardownHooks: "obeys Q (teardownHooks ch e force stp)"
  unfolding teardownHooks_def by (intro Q_steps Q_pure) simp

lemma Q_stopReplica: "obeys Q (stopReplica ch e force t)"
  unfolding stopReplica_def by (intro Q_steps Q_teardownHooks Q_stopWithHooks)

lemma Q_teardownStop: "obeys Q (teardownStop ch td e)"
  unfolding teardownStop_def by (intro Q_steps Q_acquireStop Q_stopReplica)

lemma Q_teardownRemove: "obeys Q (teardownRemove ch td e)"
  unfolding teardownRemove_def by (intro Q_steps Q_teardownHooks Q_removeWithHooks)

section \<open>Goroutines\<close>

lemma Q_runTasks: "(\<And>i s. obeys Q (task i s)) \<Longrightarrow> obeys Q (runTasks task is s)"
proof (induction task "is" s rule: runTasks.induct)
  case (2 task i "is" s)
  then show ?case by (simp only: runTasks.simps) (intro Q_steps, simp_all)
qed (simp only: runTasks.simps Q_Pair)

lemma Q_concurrently: "(\<And>i s. obeys Q (task i s)) \<Longrightarrow> obeys Q (concurrently ch n task s)"
proof (rule obeysI)
  assume "\<And>i s. obeys Q (task i s)"
  then have "obeys Q (runTasks task is s)" for "is" by (rule Q_runTasks)
  then show "Q cw (snd (concurrently ch n task s cw))" for cw by (simp add: obeys_def concurrently_def)
qed

section \<open>Teardown of entries\<close>

lemma Q_reported: "obeys Q (\<lambda>cw. (x, reportPlain ch c p e y cw))" "obeys Q (\<lambda>cw. (x, reportStopped ch c y k cw))"
  by (simp_all add: Q_pure)

lemma Q_stopTask: "obeys Q (stopTask ch disp exit e td)"
proof -
  have "obeys Q (\<lambda>cw. case err of
       Some x \<Rightarrow> let w = ErrWrap ''stop command'' x in ((td, k, Some w), reportPlain ch disp PhaseError (Some w) None cw)
     | None \<Rightarrow> ((td, k, None), reportStopped ch disp exit k cw))" for td :: teardown and k err
    by (cases err) (simp_all add: Let_def Q_reported)
  then show ?thesis unfolding stopTask_def by (intro Q_steps Q_teardownStop)
qed

lemma Q_stopAll: "obeys Q (stopAllConcurrent ch es td)"
proof -
  have "obeys Q (\<lambda>cw. let e = es ! i; name = entryDisplayName e in stopTask ch name None e td (reportPlain ch name PhaseStopping None None cw))" for i td
    unfolding Let_def by (rule Q_pre [OF _ Q_stopTask]) simp
  then show ?thesis unfolding stopAllConcurrent_def by (intro Q_steps Q_concurrently)
qed

lemma Q_stopAction: "obeys Q (stopAction ch v cmd td)"
proof -
  let ?live = "activeInstances (vSnapshot v)" and ?exit = "csExitCode (vSnapshot v)"
  let ?run = "tryR (concurrently ch (length ?live) (\<lambda>i. stopTask ch (instanceDisplayName cmd (inScaleIndex (?live ! i))) ?exit (inEntry (?live ! i))) td)
           (\<lambda>(td, xs).
             let forceKilled = list_ex (\<lambda>(_, k, _). k) xs;
                 errs = map (\<lambda>(_, err). err) (byIndex (length ?live) xs)
             in case firstErr errs of
                  Inl e \<Rightarrow> Pair (td, csState (vSnapshot v), None, Some e, forceKilled)
                | Inr _ \<Rightarrow> Pair (td, EventTypeExited, ?exit, None, forceKilled))"
  have "obeys Q ?run" unfolding Let_def by (intro Q_steps Q_concurrently Q_stopTask)
  then have "obeys Q (\<lambda>cw. ?run (fold (\<lambda>i. reportPlain ch (instanceDisplayName cmd (inScaleIndex (?live ! i))) PhaseStopping None None) [0..<length ?live] cw))"
    by (rule Q_pre [rotated]) (simp add: fold_world)
  then show ?thesis by (cases "?live = []") (simp_all add: stopAction_def [abs_def] Let_def Q_pure)
qed

lemma Q_removeTask: "obeys Q (removeTask ch e td)"
proof (cases "map_of (tdKept td) (enID e)")
  case None
  have "obeys Q (\<lambda>cw. case err of
       Some x \<Rightarrow> let w = ErrWrap ''remove command'' x in ((td, \<lparr> roCommand = n, roErr = Some w \<rparr>), reportPlain ch n PhaseError (Some w) None cw)
     | None \<Rightarrow> ((td, \<lparr> roCommand = n, roErr = None \<rparr>), reportPlain ch n PhaseRemoved None None cw))" for td :: teardown and err n
    by (cases err) (simp_all add: Let_def Q_reported)
  then have "obeys Q (tryR (teardownRemove ch td e) (\<lambda>(td, err) cw. case err of
       Some x \<Rightarrow> let w = ErrWrap ''remove command'' x in ((td, \<lparr> roCommand = n, roErr = Some w \<rparr>), reportPlain ch n PhaseError (Some w) None cw)
     | None \<Rightarrow> ((td, \<lparr> roCommand = n, roErr = None \<rparr>), reportPlain ch n PhaseRemoved None None cw)))" for n
    by (intro Q_steps Q_teardownRemove)
  from Q_pre [OF _ this, of "reportPlain ch (entryDisplayName e) PhaseRemoving None None" "entryDisplayName e"] None show ?thesis
    by (simp add: removeTask_def [abs_def] Let_def)
qed (simp add: removeTask_def [abs_def] Let_def Q_reported)

lemma Q_removeAll: "obeys Q (removeAllConcurrent ch es td)"
  unfolding removeAllConcurrent_def by (intro Q_steps Q_concurrently Q_removeTask)

lemma Q_releaseStranded: "obeys Q (releaseStranded ch wd p rs td)"
proof -
  have "obeys Q (\<lambda>cw. let err = ErrWrap ''compose down: list resource holders'' e in (f err, reportPlain ch n PhaseError (Some err) None cw))" for e n and f :: "SvcErr \<Rightarrow> ReleaseOutcome list"
    unfolding Let_def by (rule Q_reported)
  then show ?thesis unfolding releaseStranded_def releaseTask_def by (intro Q_steps Q_concurrently Q_runRelease)
qed

lemma Q_withRecorder: "obeys Q f \<Longrightarrow> obeys Q (withRecorder f)"
proof (rule obeysI)
  fix cw :: CWorld
  assume f: "obeys Q f"
  let ?a = "cw\<lparr> cwFailed := Some [] \<rparr>"
  have "Q cw ?a" "Q ?a (snd (f ?a))" using f by (simp_all add: Q_same obeys_def)
  moreover have "Q (snd (f ?a)) (snd (withRecorder f cw))" by (rule Q_same) (simp add: withRecorder_def case_prod_beta)
  ultimately show "Q cw (snd (withRecorder f cw))" using Q_trans by blast
qed

lemma Q_retryFailures: "obeys Q (retryFailures ch fs wd p force)"
proof -
  have one: "obeys Q (retryOne ch force f)" for f
    unfolding retryOne_def by (intro Q_tryR Q_withRecorder Q_runRelease) (simp add: case_prod_beta Q_Pair)
  have "obeys Q (tryR (svc (Service_List (chHost ch) True (projectLabels wd p))) (\<lambda>l. case l of
        Inl _ \<Rightarrow> Pair fs
      | Inr entries \<Rightarrow>
          tryR (concurrently ch (length fs) (\<lambda>i _.
              if mayRetry entries (fs ! i) then tryR (retryOne ch force (fs ! i)) (\<lambda>f. Pair ((), f))
              else Pair ((), Some (fs ! i))) ()) (\<lambda>(_, xs).
            Pair (List.map_filter id (byIndex (length fs) xs)))))"
    by (intro Q_steps Q_concurrently one)
  then show ?thesis unfolding retryFailures_def by (auto simp: obeys_def Q_same)
qed

lemma Q_retryReleases: "obeys Q (retryReleases ch wd p force)"
proof -
  have "obeys Q (\<lambda>cw. ((), fold recordFailure left cw))" for left by (rule Q_pure) (simp add: fold_world)
  moreover have "obeys Q takeRecorded" by (rule Q_pure) (simp add: takeRecorded_def)
  ultimately show ?thesis unfolding retryReleases_def by (intro Q_tryR Q_retryFailures)
qed

lemma Q_addUnreleased: "obeys Q (addUnreleased ch os fs)"
  by (rule Q_pure) (simp add: addUnreleased_def case_prod_beta fold_world)

lemma Q_Down_finish: "obeys Q (Down_finish ch wd p whole sel es rt td)"
proof -
  have "obeys Q (\<lambda>cw. tryR (addUnreleased ch os (recorded cw)) (\<lambda>releases. Pair (x, releases)) cw)" for os and x :: "RemoveOutcome list"
  proof -
    have "obeys Q (tryR (addUnreleased ch os fs) (\<lambda>releases. Pair (x, releases)))" for fs by (intro Q_tryR Q_addUnreleased Q_Pair)
    then show ?thesis by (simp add: obeys_def)
  qed
  then show ?thesis unfolding Down_finish_def by (intro Q_steps Q_retryReleases Q_removeAll Q_releaseStranded)
qed

section \<open>Walks\<close>

lemma Q_turn: "(\<And>g v st. obeys Q (act g v st)) \<Longrightarrow> obeys Q (turn ch act dir m s st)"
proof (cases m)
  case (MoveGo k)
  assume a: "\<And>g v st. obeys Q (act g v st)"
  have p: "obeys Q (\<lambda>cw. (x cw, cw))" for x :: "CWorld \<Rightarrow> walkState \<times> 'b" by (simp add: Q_pure)
  have "obeys Q (tryR (act (wGraph s) v st) (\<lambda>(st, res) cw. ((turnComplete ch dir k v res s cw, st), cw)))" for v
    by (intro Q_tryR a obeys_prod p)
  then show ?thesis unfolding MoveGo turn_def turnGo_def by (simp add: p Q_Pair split: worker.split list.split option.split)
qed (simp_all add: turn_def Q_Pair)

lemma Q_walkLoop: "(\<And>g v st. obeys Q (act g v st)) \<Longrightarrow> obeys Q (walkLoop ch act dir n x)"
proof (induction n arbitrary: x)
  case (Suc n)
  obtain s st where x: "x = (s, st)" by (cases x)
  let ?t = "\<lambda>cw. snd (svc (outside (chHost ch)) cw)"
  have q: "obeys Q (tryR (turn ch act dir m s' st) (walkLoop ch act dir n))" for m s' by (intro Q_tryR Q_turn Suc)
  have "Q cw (snd (walkLoop ch act dir (Suc n) (s, st) cw))" for cw
  proof (cases "walkMoves s = []")
    case False
    have "Q cw (?t cw)" using Q_outside by (simp add: obeys_def)
    with q False show ?thesis by (auto simp: obeys_def Let_def intro: Q_trans)
  qed (simp add: Q_same)
  then show ?case by (simp add: x obeys_def)
qed (simp only: walkLoop.simps Q_Pair)

lemma Q_walkGraph: "(\<And>g v st. obeys Q (act g v st)) \<Longrightarrow> obeys Q (walkGraph ch act dir limit g st)"
proof -
  assume a: "\<And>g v st. obeys Q (act g v st)"
  have "obeys Q (tryR (walkLoop ch act dir n x) (\<lambda>(s, st). Pair (wGraph s, st)))" for n x
    by (intro Q_steps Q_walkLoop a)
  then show ?thesis by (simp add: obeys_def walkGraph_def Let_def Q_same)
qed

end

section \<open>Two relations that compose keeps\<close>

lemma snd_svc: "cwWorld (snd (svc f cw)) = snd (f (cwWorld cw))"
  by (simp add: svc_def case_prod_beta)

definition okC :: "CWorld \<Rightarrow> CWorld \<Rightarrow> bool" where
  "okC cw cw' \<longleftrightarrow> okS (wStore (cwWorld cw)) (wStore (cwWorld cw'))"

definition doneC :: "CWorld \<Rightarrow> CWorld \<Rightarrow> bool" where
  "doneC cw cw' \<longleftrightarrow> (ctxDone cw \<longrightarrow> ctxDone cw')"

lemma okC_svc: "keeps okS f \<Longrightarrow> obeys okC (svc f)"
  by (simp add: obeys_def okC_def keeps_def snd_svc)

lemma doneC_svc: "lasting wDone f \<Longrightarrow> obeys doneC (svc f)"
  by (simp add: obeys_def doneC_def lasting_def ctxDone_def snd_svc)

interpretation okC: service_calls ch okC for ch
proof
  show "obeys okC (detached f)" if "obeys okC f" for f :: "unit effect"
  proof (rule obeysI)
    fix cw :: CWorld
    show "okC cw (snd (detached f cw))"
      using spec [OF that [unfolded obeys_def], of "cw\<lparr> cwWorld := (cwWorld cw)\<lparr> wDone := False \<rparr> \<rparr>"]
      by (simp add: okC_def detached_def case_prod_beta)
  qed
qed (simp_all add: okC_svc ok.keeps_outside ok.keeps_List ok.keeps_Create ok.keeps_Start ok.keeps_Stop ok.keeps_Remove ok.keeps_Wait,
     auto simp: okC_def okS_def)

interpretation doneC: service_calls ch doneC for ch
proof
  show "obeys doneC (detached f)" if "obeys doneC f" for f :: "unit effect"
    by (simp add: obeys_def doneC_def detached_def case_prod_beta ctxDone_def)
qed (simp_all add: doneC_svc lasting_outside lasting_List lasting_Create lasting_Start lasting_Service_Stop lasting_Remove lasting_Wait,
     auto simp: doneC_def ctxDone_def)

end
