(* ===== verification/Compose_Reconcile.thy ===== *)
theory Compose_Reconcile
  imports Compose_Frame
begin

text \<open>
  Convergence of a project to running or stopped commands (cmdman/compose/service_reconcile.go): the
  snapshot of the stored commands, the action of a start walk, and both walks with what they report.
  The project rebuilt from stored labels (reconstruct_project.go, label_after.go).
\<close>

section \<open>Errors in the graph\<close>

text \<open>What an error prints, as abbreviated as its constructors; a vertex keeps the text of why it was
  blocked, which wraps nothing.\<close>

fun errText :: "SvcErr \<Rightarrow> string" where
  "errText (ErrText s) = s"
| "errText (ErrFault s) = s"
| "errText ErrNoRows = ''no rows''"
| "errText ErrConstraint = ''constraint failed''"
| "errText ErrCanceled = ''context canceled''"
| "errText ErrDeadline = ''context deadline exceeded''"
| "errText ErrUnavailable = ''unavailable''"
| "errText ErrReplicaKept = ''kept after a failed stop hook''"
| "errText (ErrWrap s e) = s @ '': '' @ errText e"
| "errText (ErrJoin es) = concat (map (\<lambda>e. errText e @ [CHR 0x0A]) es)"

fun goErrText :: "GoErr \<Rightarrow> string" where
  "goErrText (ActionError s) = s"
| "goErrText (WaitingToStop i) = ''waiting to stop: '' @ i"
| "goErrText DependencyMissing = ''dependency missing''"
| "goErrText (DependencyBlocked i) = ''dependency blocked: '' @ i"
| "goErrText (WaitingFor i c) = ''waiting for: '' @ i"
| "goErrText (DependencyFailed i e) = ''dependency failed: '' @ i @ '': '' @ goErrText e"
| "goErrText (WaitingToComplete i) = ''waiting to complete: '' @ i"
| "goErrText (DidNotCompleteSuccessfully i s x) = ''did not complete successfully: '' @ i"
| "goErrText (WaitingToCompleteSuccessfully i) = ''waiting to complete successfully: '' @ i"
| "goErrText (NotRunningOutside i) = ''not running: '' @ i"
| "goErrText (NotCompletedOutside i) = ''not completed: '' @ i"
| "goErrText UnsatisfiedConditions = ''unsatisfied dependency conditions''"

definition vertexErr :: "SvcErr option \<Rightarrow> GoErr option" where
  "vertexErr = map_option (\<lambda>e. ActionError (errText e))"

section \<open>Snapshot\<close>

definition snapshotOf :: "CommandEntry \<Rightarrow> instanceSnapshot" where
  "snapshotOf e = \<lparr> inID = enID e, inGenName = enName e, inScaleIndex = scaleIndexOf e, inState = enState e,
     inExitCode = enExitCode e, inEntry = e \<rparr>"

definition commandSnapshots :: "CommandEntry list \<Rightarrow> (string, commandSnapshot) gomap" where
  "commandSnapshots entries =
     map (\<lambda>name.
       let insts = sort_key inScaleIndex (map snapshotOf (filter (\<lambda>e. commandNameOf e = name) entries));
           (state, exit) = aggregateInstances insts
       in (name, \<lparr> csInstances = insts, csState = state, csExitCode = exit \<rparr>))
     (filter (\<lambda>n. n \<noteq> []) (remdups (map commandNameOf entries)))"

definition snapshotCommands :: "ComposeHost \<Rightarrow> string \<Rightarrow> string \<Rightarrow> (SvcErr + (string, commandSnapshot) gomap) effect" where
  "snapshotCommands ch workDir project =
     bindR (wrapR (ErrWrap ''list existing commands before start'') (svc (Service_List (chHost ch) True (projectLabels workDir project))))
       (\<lambda>es. Pair (Inr (commandSnapshots es)))"

section \<open>The action of a start\<close>

text \<open>The first replica that fails to start ends the action.\<close>

definition startedOr :: "ComposeHost \<Rightarrow> string \<Rightarrow> (SvcErr option) effect \<Rightarrow> (SvcErr + 'a) effect \<Rightarrow> (SvcErr + 'a) effect" where
  "startedOr ch disp start rest cw =
     tryR start (\<lambda>err. case err of
         Some e \<Rightarrow> (\<lambda>cw. let w = ErrWrap ''start command'' e in (Inl w, reportPlain ch disp PhaseError (Some w) None cw))
       | None \<Rightarrow> rest) (reportPlain ch disp PhaseStarting None None cw)"

definition startStored ::
    "ComposeHost \<Rightarrow> ComposeSpec \<Rightarrow> hookSource \<Rightarrow> Command \<Rightarrow> instanceSnapshot option \<Rightarrow> string \<Rightarrow> (SvcErr option) effect" where
  "startStored ch spec src cmd stored genName =
     (case stored of
        Some ins \<Rightarrow> startReplica ch spec src cmd (inEntry ins)
      | None \<Rightarrow> tryR (svc (Start (chHost ch) genName)) (\<lambda>r. Pair (case r of Inl e \<Rightarrow> Some e | Inr _ \<Rightarrow> None)))"

text \<open>The loop over the replicas: the first reason that holds one back, and the others.\<close>

fun startReplicas ::
    "ComposeHost \<Rightarrow> ComposeSpec \<Rightarrow> hookSource \<Rightarrow> (string, SvcErr) gomap \<Rightarrow> Command \<Rightarrow> (string \<Rightarrow> instanceSnapshot option) \<Rightarrow>
     int list \<Rightarrow> SvcErr option \<Rightarrow> int list \<Rightarrow> (SvcErr + SvcErr option \<times> int list) effect" where
  "startReplicas ch spec src held cmd stored [] heldErr started = Pair (Inr (heldErr, started))"
| "startReplicas ch spec src held cmd stored (idx # idxs) heldErr started =
     (let genName = InstanceName (cGeneratedName cmd) idx; disp = instanceDisplayName cmd idx
      in case map_of held genName of
           Some reason \<Rightarrow>
             (let w = ErrWrap ''start command: not started'' reason
              in (\<lambda>cw. startReplicas ch spec src held cmd stored idxs (case heldErr of None \<Rightarrow> Some w | Some e \<Rightarrow> Some e) started
                   (reportPlain ch disp PhaseSkipped (Some w) None cw)))
         | None \<Rightarrow>
             if (case stored genName of Some ins \<Rightarrow> isActiveState (inState ins) | None \<Rightarrow> False)
             then startReplicas ch spec src held cmd stored idxs heldErr (started @ [idx])
             else startedOr ch disp (startStored ch spec src cmd (stored genName) genName)
                    (startReplicas ch spec src held cmd stored idxs heldErr (started @ [idx])))"

text \<open>What the wait for a completed run observed of each replica.\<close>

definition zeroEntry :: CommandEntry where
  "zeroEntry = \<lparr> enID = [], enName = [], enCreatedAt = [], enState = EventTypeNone, enExitCode = None, enConfigJSON = None, enStateJSON = None \<rparr>"

definition completedState :: "WaitResult \<Rightarrow> EventType" where
  "completedState r = (if wrErr r \<noteq> None \<or> wrExitCode r = None then EventTypeFailed else EventTypeExited)"

definition completedSnapshot :: "WaitResult \<Rightarrow> instanceSnapshot" where
  "completedSnapshot r = \<lparr> inID = [], inGenName = [], inScaleIndex = 0, inState = completedState r, inExitCode = wrExitCode r, inEntry = zeroEntry \<rparr>"

definition reportCompleted :: "ComposeHost \<Rightarrow> string \<Rightarrow> WaitResult \<Rightarrow> CWorld \<Rightarrow> CWorld" where
  "reportCompleted ch disp r =
     (case wrErr r of
        Some e \<Rightarrow> reportPlain ch disp PhaseFailed (Some e) (wrExitCode r)
      | None \<Rightarrow> if wrExitCode r = None then reportPlain ch disp PhaseFailed None None else reportPlain ch disp PhaseExited None (wrExitCode r))"

definition resultOf :: "EventType \<Rightarrow> int option \<Rightarrow> SvcErr option \<Rightarrow> actionResult" where
  "resultOf state exit err = \<lparr> arState = state, arExitCode = exit, arErr = vertexErr err, arForceKilled = False \<rparr>"

definition completedResult :: "WaitResult list \<Rightarrow> actionResult" where
  "completedResult results =
     (case aggregateInstances (map completedSnapshot results) of (state, exit) \<Rightarrow>
        case firstErr (map wrErr results) of
          Inl e \<Rightarrow> resultOf EventTypeFailed exit (Some e)
        | Inr _ \<Rightarrow> resultOf (if state = EventTypeExited then EventTypeExited else EventTypeFailed) exit None)"

definition awaitCompleted :: "ComposeHost \<Rightarrow> Command \<Rightarrow> int list \<Rightarrow> actionResult effect" where
  "awaitCompleted ch cmd replicas cw =
     tryR (svc (Wait (chHost ch) (map (InstanceName (cGeneratedName cmd)) replicas) EventTypeStopped 0 False)) (\<lambda>r cw. case r of
         Inl e \<Rightarrow> (resultOf EventTypeRunning None (Some e), reportReplicas ch cmd replicas PhaseError (Some e) None cw)
       | Inr results \<Rightarrow>
           (completedResult results,
            fold (\<lambda>(idx, r). reportCompleted ch (instanceDisplayName cmd idx) r) (zip replicas results) cw))
       (reportReplicas ch cmd replicas PhaseWaiting None None cw)"

definition upStartAction ::
    "ComposeHost \<Rightarrow> ComposeSpec \<Rightarrow> hookSource \<Rightarrow> (string, SvcErr) gomap \<Rightarrow> reconcileGraph \<Rightarrow> graphVertex \<Rightarrow> Command \<Rightarrow> actionResult effect" where
  "upStartAction ch spec src held g v cmd =
     (let replicas = replicaIndices v; snap = vSnapshot v;
          stored = map_of (rev (map (\<lambda>i. (inGenName i, i)) (csInstances snap)))
      in tryR (startReplicas ch spec src held cmd stored replicas None []) (\<lambda>r cw. case r of
           Inl e \<Rightarrow> (resultOf (csState snap) None (Some e), cw)
         | Inr (Some e, started) \<Rightarrow> (resultOf (csState snap) None (Some e), reportReplicas ch cmd started PhaseRunning None None cw)
         | Inr (None, _) \<Rightarrow>
             if \<not> anyDependentNeedsCompletion g (vID v)
             then (resultOf EventTypeRunning (csExitCode snap) None, reportReplicas ch cmd replicas PhaseRunning None (csExitCode snap) cw)
             else awaitCompleted ch cmd replicas cw))"

section \<open>Walks\<close>

definition reconcileWalkLimit :: int where "reconcileWalkLimit = 8"

definition reportBlocked :: "ComposeHost \<Rightarrow> reconcileGraph \<Rightarrow> CWorld \<Rightarrow> CWorld" where
  "reportBlocked ch g cw =
     fold (\<lambda>i. case vertex g i of None \<Rightarrow> id | Some v \<Rightarrow> (case vCommand v of None \<Rightarrow> id | Some cmd \<Rightarrow>
         if \<not> vInClosure v \<or> \<not> vBlocked v then id
         else reportReplicas ch cmd (replicaIndices v) PhaseError (map_option (\<lambda>e. ErrText (goErrText e)) (vErr v)) None))
       (visitOrder ch cw (keys_of (Vertices g))) cw"

text \<open>The walk acts only on vertices of commands.\<close>

definition startAction :: "ComposeHost \<Rightarrow> ComposeSpec \<Rightarrow> hookSource \<Rightarrow> (string, SvcErr) gomap \<Rightarrow> unit graphAction" where
  "startAction ch spec src held g v st =
     (case vCommand v of
        None \<Rightarrow> Pair (st, resultOf EventTypeNone None None)
      | Some cmd \<Rightarrow> tryR (upStartAction ch spec src held g v cmd) (\<lambda>res. Pair (st, res)))"

definition stopActionOf :: "ComposeHost \<Rightarrow> teardown graphAction" where
  "stopActionOf ch g v td =
     (case vCommand v of
        None \<Rightarrow> Pair (td, resultOf EventTypeNone None None)
      | Some cmd \<Rightarrow> tryR (stopAction ch v cmd td) (\<lambda>(td, state, exit, err, forceKilled).
          Pair (td, (resultOf state exit err)\<lparr> arForceKilled := forceKilled \<rparr>)))"

definition reconcileStart ::
    "ComposeHost \<Rightarrow> ComposeSpec \<Rightarrow> targetSet \<Rightarrow> hookSource \<Rightarrow> (string, SvcErr) gomap \<Rightarrow> (SvcErr + StartOutcome list) effect" where
  "reconcileStart ch spec targets src held =
     (case ValidateDAG (sCommands spec) of
        Inl _ \<Rightarrow> Pair (Inl (ErrText ''invalid dependency graph''))
      | Inr _ \<Rightarrow>
          bindR (snapshotCommands ch (sWorkDir spec) (sProject spec)) (\<lambda>snaps.
            let closure = resolveTargetCommands spec (targetNames targets)
            in tryR (walkGraph ch (startAction ch spec src held) walkFromBegin (min (int (length closure)) reconcileWalkLimit)
                       (buildReconcileGraph spec snaps (set closure) targets) ())
                 (\<lambda>(g, _) cw. (Inr (startOutcomes g spec), reportBlocked ch g cw))))"

definition reconcileStop ::
    "ComposeHost \<Rightarrow> ComposeSpec \<Rightarrow> targetSet \<Rightarrow> teardown \<Rightarrow> (SvcErr + teardown \<times> StopOutcome list) effect" where
  "reconcileStop ch spec targets td =
     (case ValidateDAG (sCommands spec) of
        Inl _ \<Rightarrow> Pair (Inl (ErrText ''invalid dependency graph''))
      | Inr _ \<Rightarrow>
          bindR (snapshotCommands ch (sWorkDir spec) (sProject spec)) (\<lambda>snaps.
            let closure = resolveStopTargetCommands spec (targetNames targets)
            in tryR (walkGraph ch (stopActionOf ch) walkFromEnd (min (int (length closure)) reconcileWalkLimit)
                       (buildReconcileGraph spec snaps (set closure) targets) td)
                 (\<lambda>(g, td) cw. (Inr (td, stopOutcomes g spec), reportBlocked ch g cw))))"

section \<open>The project of stored commands (reconstruct_project.go, label_after.go)\<close>

text \<open>What the compose service needs beyond \<open>ComposeHost\<close>: the JSON of labels and of the hash.\<close>

record ProjectHost =
  phHash :: "Command \<Rightarrow> string option"
  phEncodeAfter :: "AfterSpec list \<Rightarrow> string"
  phDecodeAfter :: "string \<Rightarrow> AfterSpec list option"
  phEncodeHooks :: "LifecycleHook list \<Rightarrow> string"

definition decodeAfterLabel :: "ProjectHost \<Rightarrow> string \<Rightarrow> SvcErr + AfterSpec list" where
  "decodeAfterLabel ph raw =
     (if raw = [] then Inr []
      else case phDecodeAfter ph raw of
        None \<Rightarrow> Inl (ErrText ''decode after'')
      | Some after \<Rightarrow> if list_all (\<lambda>a. \<not> isl (AfterSpec_Validate a)) after then Inr after else Inl (ErrText ''decode after: invalid''))"

definition storedCommand :: "string \<Rightarrow> AfterSpec list \<Rightarrow> CommandEntry \<Rightarrow> Command" where
  "storedCommand name after e =
     (let base = stripScaleIndexSuffix (enName e) (scaleIndexOf e)
      in (bare_command name after)\<lparr> cGeneratedName := (if base = [] then enID e else base), cScale := 1 \<rparr>)"

text \<open>The loop over the entries, with the project of those before and the commands found.\<close>

fun collectCommands ::
    "ProjectHost \<Rightarrow> CommandEntry list \<Rightarrow> string option \<Rightarrow> (string, Command) gomap \<Rightarrow> SvcErr + (string \<times> Command list) option" where
  "collectCommands ph [] project cs = Inr (if cs = [] then None else Some (case project of None \<Rightarrow> [] | Some p \<Rightarrow> p, map snd cs))"
| "collectCommands ph (e # es) project cs =
     (if commandNameOf e = [] then collectCommands ph es project cs
      else
        let l = (case enConfigJSON e of None \<Rightarrow> (\<lambda>_. []) | Some cfg \<Rightarrow> label_of (ccLabels cfg)); name = commandNameOf e
        in if project \<noteq> None \<and> project \<noteq> Some (l LabelProject) then Inr None
           else case map_of cs name of
             Some c \<Rightarrow> collectCommands ph es (Some (l LabelProject)) (AList.update name (c\<lparr> cScale := cScale c + 1 \<rparr>) cs)
           | None \<Rightarrow>
               bindE (wrapE (ErrWrap ''command'') (decodeAfterLabel ph (l LabelAfter))) (\<lambda>after.
                 collectCommands ph es (Some (l LabelProject)) (cs @ [(name, storedCommand name after e)])))"

definition reconstructProjectFromMeta :: "ProjectHost \<Rightarrow> string \<Rightarrow> CommandEntry list \<Rightarrow> SvcErr + ComposeSpec option" where
  "reconstructProjectFromMeta ph workDir entries =
     bindE (collectCommands ph entries None []) (\<lambda>found. case found of
       None \<Rightarrow> Inr None
     | Some (project, commands) \<Rightarrow>
         let spec = \<lparr> sComposeFile = [], sProject = project, sWorkDir = workDir, sWorkDirDeclared = False,
                      sCommands = sort_key cName commands, sMux = None \<rparr>
         in case ValidateDAG (sCommands spec) of
              Inl _ \<Rightarrow> Inl (ErrText ''stored dependency graph'') | Inr _ \<Rightarrow> Inr (Some spec))"

end
