(* ===== verification/Compose_Service.thy ===== *)
theory Compose_Service
  imports Compose_Reconcile
begin

text \<open>
  The compose operations: create (service_create.go, service_orphan.go), up, start, stop, restart, down
  and scale (service_up.go, service_start.go, service_stop.go, service_restart.go, service_down.go,
  service_scale.go), each from its targets to its outcomes. The history of projects, which no outcome
  depends on, is left out.
\<close>

section \<open>Create\<close>

record ActionOutcome =
  aoCommand :: string
  aoAction :: string
  aoErr :: "SvcErr option"

definition buildCreateRequest ::
    "ComposeHost \<Rightarrow> ProjectHost \<Rightarrow> ComposeSpec \<Rightarrow> Command \<Rightarrow> string \<Rightarrow> string \<Rightarrow> int \<Rightarrow> CreateRequest" where
  "buildCreateRequest ch ph spec nc configHash instanceName scaleIndex =
     \<lparr> rqName = instanceName, rqDir = cDir nc, rqEnv = cEnv nc, rqImportHostEnv = Some (cImportHostEnv nc),
       rqInjectEnv = Some (cInjectEnv nc),
       rqAppendEnv = composeContextEnv ch (sProject spec) (sWorkDir spec) (cName nc) scaleIndex (cScale nc),
       rqLabels = BuildLabels (phEncodeAfter ph) (phEncodeHooks ph) spec nc configHash scaleIndex,
       rqRestartPolicy = cRestartPolicy nc, rqMaxRetries = cMaxRetries nc, rqStopSignal = cStopSignal nc,
       rqStopTimeout = cStopGracePeriod nc, rqStopCommand = cStop nc, rqAutoRemove = False, rqTty = cTty nc,
       rqScrollbackBytes = cScrollbackBytes nc, rqLogDriver = cLogDriver nc, rqLogOpts = cLogOpts nc, rqHooks = [],
       rqArgv = cArgs nc, rqReplace = False \<rparr>"

text \<open>A failed step of an action: its error goes to the trace and to the outcome.\<close>

definition failedAction :: "ComposeHost \<Rightarrow> string \<Rightarrow> string \<Rightarrow> SvcErr \<Rightarrow> ActionOutcome effect" where
  "failedAction ch disp action e cw = (\<lparr> aoCommand = disp, aoAction = action, aoErr = Some e \<rparr>, reportPlain ch disp PhaseError (Some e) None cw)"

definition doneAction :: "ComposeHost \<Rightarrow> string \<Rightarrow> string \<Rightarrow> Phase \<Rightarrow> ActionOutcome effect" where
  "doneAction ch disp action phase cw = (\<lparr> aoCommand = disp, aoAction = action, aoErr = None \<rparr>, reportPlain ch disp phase None None cw)"

definition createReplica ::
    "ComposeHost \<Rightarrow> ProjectHost \<Rightarrow> ComposeSpec \<Rightarrow> CommandAction \<Rightarrow> string \<Rightarrow> Phase \<Rightarrow> string \<Rightarrow> ActionOutcome effect" where
  "createReplica ch ph spec a action phase what =
     (let nc = aDesired a; disp = instanceDisplayName nc (aScaleIndex a)
      in tryR (createWithHooks ch (specHookReplica ch spec nc (aScaleIndex a)) (cHooks nc)
            (buildCreateRequest ch ph spec nc (aDesiredHash a) (aInstanceName a) (aScaleIndex a))) (\<lambda>err. case err of
          Some e \<Rightarrow> failedAction ch disp action (ErrWrap what e)
        | None \<Rightarrow> doneAction ch disp action phase))"

text \<open>The replica going away runs the hooks stored on it.\<close>

definition recreateReplica ::
    "ComposeHost \<Rightarrow> ProjectHost \<Rightarrow> ComposeSpec \<Rightarrow> CommandAction \<Rightarrow> CommandEntry \<Rightarrow> hookReplica \<Rightarrow> LifecycleHook list \<Rightarrow> bool \<Rightarrow> ActionOutcome effect" where
  "recreateReplica ch ph spec a e old oldHooks live cw =
     (let disp = instanceDisplayName (aDesired a) (aScaleIndex a)
      in tryR (removeReplica ch old oldHooks [enID e] False live) (\<lambda>err. case err of
          Some x \<Rightarrow> failedAction ch disp ''recreate'' (ErrWrap ''remove command for recreate'' x)
        | None \<Rightarrow> createReplica ch ph spec a ''recreate'' PhaseRecreated ''create command after remove'')
        (reportPlain ch disp PhaseRecreating None None cw))"

definition stopThenRecreate ::
    "ComposeHost \<Rightarrow> ProjectHost \<Rightarrow> ComposeSpec \<Rightarrow> CommandAction \<Rightarrow> CommandEntry \<Rightarrow> hookReplica \<Rightarrow> LifecycleHook list \<Rightarrow> ActionOutcome effect" where
  "stopThenRecreate ch ph spec a e old oldHooks cw =
     (let disp = instanceDisplayName (aDesired a) (aScaleIndex a)
      in tryR (stopWithHooks ch old oldHooks (enID e) None) (\<lambda>(_, forceKilled, err). case err of
          Some x \<Rightarrow> failedAction ch disp ''recreate'' (ErrWrap ''stop command for recreate'' x)
        | None \<Rightarrow> (\<lambda>cw. recreateReplica ch ph spec a e old oldHooks True (reportStopped ch disp None forceKilled cw)))
        (reportPlain ch disp PhaseStopping None None cw))"

definition executeAction :: "ComposeHost \<Rightarrow> ProjectHost \<Rightarrow> ComposeSpec \<Rightarrow> CommandAction \<Rightarrow> ActionOutcome effect" where
  "executeAction ch ph spec a =
     (let disp = instanceDisplayName (aDesired a) (aScaleIndex a)
      in case aKind a of
           ActionUnchanged \<Rightarrow> doneAction ch disp ''unchanged'' PhaseUnchanged
         | ActionCreate \<Rightarrow> (\<lambda>cw. createReplica ch ph spec a ''create'' PhaseCreated ''create command'' (reportPlain ch disp PhaseCreating None None cw))
         | ActionRecreate \<Rightarrow>
             (case aExisting a of
                None \<Rightarrow> (\<lambda>cw. let e = ErrText ''recreate command: missing existing entry''
                    in (\<lparr> aoCommand = disp, aoAction = ''skipped'', aoErr = Some e \<rparr>, reportPlain ch disp PhaseSkipped (Some e) None cw))
              | Some e \<Rightarrow>
                  (case storedHookReplica ch e of
                     Inl x \<Rightarrow> failedAction ch disp ''recreate'' (ErrWrap ''recreate command'' x)
                   | Inr (old, oldHooks) \<Rightarrow>
                       if isLive (enState e) then stopThenRecreate ch ph spec a e old oldHooks
                       else recreateReplica ch ph spec a e old oldHooks False)))"

section \<open>Orphans and surplus replicas\<close>

definition orphanOutcome :: "ComposeHost \<Rightarrow> CommandEntry \<Rightarrow> ActionOutcome effect" where
  "orphanOutcome ch e =
     (let name = commandNameOf e
      in if isLive (enState e) then Pair \<lparr> aoCommand = name, aoAction = ''skipped'', aoErr = Some (ErrText ''removal skipped (stop first)'') \<rparr>
         else tryR (case storedHookReplica ch e of
                Inl x \<Rightarrow> Pair (Some x)
              | Inr (r, hooks) \<Rightarrow> tryR (removeWithHooks ch r hooks [enID e] False) (\<lambda>(_, err). Pair err)) (\<lambda>err.
              Pair \<lparr> aoCommand = name, aoAction = ''remove-orphan'', aoErr = map_option (ErrWrap ''remove orphan command'') err \<rparr>))"

fun eachOutcome :: "('e \<Rightarrow> ActionOutcome effect) \<Rightarrow> 'e list \<Rightarrow> (ActionOutcome list) effect" where
  "eachOutcome f [] = Pair []"
| "eachOutcome f (e # es) = tryR (f e) (\<lambda>o'. tryR (eachOutcome f es) (\<lambda>os. Pair (o' # os)))"

definition handleOrphans :: "ComposeHost \<Rightarrow> CommandEntry list \<Rightarrow> bool \<Rightarrow> (ActionOutcome list) effect" where
  "handleOrphans ch orphans removeOrphan = (if removeOrphan then eachOutcome (orphanOutcome ch) orphans else Pair [])"

definition removeExcess :: "ComposeHost \<Rightarrow> string \<Rightarrow> CommandEntry \<Rightarrow> hookReplica \<Rightarrow> LifecycleHook list \<Rightarrow> bool \<Rightarrow> ActionOutcome effect" where
  "removeExcess ch disp e r hooks live =
     tryR (removeReplica ch r hooks [enID e] True live) (\<lambda>err. case err of
       Some x \<Rightarrow> failedAction ch disp ''remove-excess'' (ErrWrap ''remove excess replica'' x)
     | None \<Rightarrow> doneAction ch disp ''remove-excess'' PhaseRemoved)"

definition excessOutcome :: "ComposeHost \<Rightarrow> CommandEntry \<Rightarrow> ActionOutcome effect" where
  "excessOutcome ch e cw =
     (let disp = commandNameOf e @ ''-'' @ itoa (scaleIndexOf e)
      in (case storedHookReplica ch e of
            Inl x \<Rightarrow> failedAction ch disp ''remove-excess'' (ErrWrap ''remove excess replica'' x)
          | Inr (r, hooks) \<Rightarrow>
              if \<not> isLive (enState e) then removeExcess ch disp e r hooks False
              else tryR (stopWithHooks ch r hooks (enID e) None) (\<lambda>(_, _, err). case err of
                Some x \<Rightarrow> failedAction ch disp ''remove-excess'' (ErrWrap ''stop excess replica'' x)
              | None \<Rightarrow> removeExcess ch disp e r hooks True))
         (reportPlain ch disp PhaseRemoving None None cw))"

definition handleExcessReplicas :: "ComposeHost \<Rightarrow> CommandEntry list \<Rightarrow> string list \<Rightarrow> (ActionOutcome list) effect" where
  "handleExcessReplicas ch excess closure =
     eachOutcome (excessOutcome ch) (filter (\<lambda>e. enConfigJSON e \<noteq> None \<and> commandNameOf e \<in> set closure) excess)"

text \<open>The actions of the targeted replicas; a replica whose action failed is held back.\<close>

fun executeActions ::
    "ComposeHost \<Rightarrow> ProjectHost \<Rightarrow> ComposeSpec \<Rightarrow> CommandAction list \<Rightarrow> (ActionOutcome list \<times> (string, SvcErr) gomap) effect" where
  "executeActions ch ph spec [] = Pair ([], [])"
| "executeActions ch ph spec (a # as) =
     tryR (executeAction ch ph spec a) (\<lambda>o'. tryR (executeActions ch ph spec as) (\<lambda>(os, held).
       Pair (o' # os, case aoErr o' of None \<Rightarrow> held | Some e \<Rightarrow> held @ [(aInstanceName a, e)])))"

definition create ::
    "ComposeHost \<Rightarrow> ProjectHost \<Rightarrow> ComposeSpec \<Rightarrow> bool \<Rightarrow> targetSet \<Rightarrow> (SvcErr + ActionOutcome list \<times> (string, SvcErr) gomap) effect" where
  "create ch ph spec removeOrphan targets =
     bindR (wrapR (ErrWrap ''list existing commands'') (svc (Service_List (chHost ch) True
         [(LabelWorkdir, sWorkDir spec), (LabelProject, sProject spec)]))) (\<lambda>existing cw.
       case ComputePlan (phHash ph) spec existing (\<lambda>m. visitOrder ch cw (keys_of m)) of
         Inl _ \<Rightarrow> (Inl (ErrText ''compute plan''), cw)
       | Inr plan \<Rightarrow>
           let closure = resolveTargetCommands spec (targetNames targets)
           in tryR (if targets = [] then handleOrphans ch (pOrphans plan) removeOrphan else Pair []) (\<lambda>orphans.
              tryR (if replicaScoped targets then Pair [] else handleExcessReplicas ch (pExcess plan) closure) (\<lambda>excess.
              tryR (executeActions ch ph spec (filter (\<lambda>a. cName (aDesired a) \<in> set closure \<and> covers targets (cName (aDesired a)) (aScaleIndex a))
                  (pActions plan))) (\<lambda>(os, held). Pair (Inr (orphans @ excess @ os, held))))) cw)"

definition targetErr :: "TargetErr + targetSet \<Rightarrow> SvcErr + targetSet" where
  "targetErr r = (case r of Inl _ \<Rightarrow> Inl (ErrText ''invalid targets'') | Inr ts \<Rightarrow> Inr ts)"

definition Compose_Create :: "ComposeHost \<Rightarrow> ProjectHost \<Rightarrow> ComposeSpec \<Rightarrow> bool \<Rightarrow> Target list \<Rightarrow> (SvcErr + ActionOutcome list) effect" where
  "Compose_Create ch ph spec removeOrphan targets =
     bindR (Pair (targetErr (resolveTargets targets (declaredReplicas spec)))) (\<lambda>ts.
     bindR (create ch ph spec removeOrphan ts) (\<lambda>(os, _). Pair (Inr os)))"

section \<open>Up and scale\<close>

definition Up :: "ComposeHost \<Rightarrow> ProjectHost \<Rightarrow> ComposeSpec \<Rightarrow> bool \<Rightarrow> Target list \<Rightarrow> (SvcErr + ActionOutcome list \<times> StartOutcome list) effect" where
  "Up ch ph spec removeOrphan targets =
     bindR (Pair (targetErr (resolveTargets targets (declaredReplicas spec)))) (\<lambda>ts.
     bindR (create ch ph spec removeOrphan ts) (\<lambda>(os, held).
     bindR (reconcileStart ch spec ts hooksFromSpec held) (\<lambda>starts. Pair (Inr (os, starts)))))"

text \<open>The map of scales in the order \<open>scales\<close> lists it; the index of a name is its last.\<close>

fun applyScaleOverrides :: "ComposeSpec \<Rightarrow> (string \<times> int) list \<Rightarrow> SvcErr + ComposeSpec" where
  "applyScaleOverrides spec [] = Inr spec"
| "applyScaleOverrides spec ((name, num) # scales) =
     (case find (\<lambda>i. cName (sCommands spec ! i) = name) (rev [0..<length (sCommands spec)]) of
        None \<Rightarrow> Inl (ErrText ''unknown compose command'')
      | Some i \<Rightarrow>
          if num < 1 then Inl (ErrText ''invalid scale'')
          else applyScaleOverrides (spec\<lparr> sCommands := (sCommands spec)[i := (sCommands spec ! i)\<lparr> cScale := num \<rparr>] \<rparr>) scales)"

text \<open>\<^verbatim>\<open>Scale\<close> of the project that was loaded from the file.\<close>

definition Scale :: "ComposeHost \<Rightarrow> ProjectHost \<Rightarrow> (SvcErr + ComposeSpec) \<Rightarrow> (string \<times> int) list \<Rightarrow> (SvcErr + ActionOutcome list \<times> StartOutcome list) effect" where
  "Scale ch ph loaded scales =
     bindR (Pair (bindE loaded (\<lambda>spec. applyScaleOverrides spec scales))) (\<lambda>spec.
       Up ch ph spec False (TargetsOf (sort (map fst scales))))"

section \<open>Start and stop\<close>

record ProjectSelection =
  psSpec :: "ComposeSpec option"
  psWorkDir :: string
  psProject :: string

definition listProject :: "ComposeHost \<Rightarrow> ProjectSelection \<Rightarrow> (SvcErr + CommandEntry list) effect" where
  "listProject ch sel =
     wrapR (ErrWrap ''list project commands'') (svc (Service_List (chHost ch) True (projectLabels (psWorkDir sel) (psProject sel))))"

text \<open>The project of the file, or the one stored; the message says what to pass when there is none.\<close>

definition specOrStored ::
    "ProjectHost \<Rightarrow> ProjectSelection \<Rightarrow> CommandEntry list \<Rightarrow> SvcErr + ComposeSpec \<times> hookSource" where
  "specOrStored ph sel entries =
     (case psSpec sel of
        Some spec \<Rightarrow> Inr (spec, hooksFromSpec)
      | None \<Rightarrow> bindE (reconstructProjectFromMeta ph (psWorkDir sel) entries) (\<lambda>found. case found of
          None \<Rightarrow> Inl (ErrText ''stored dependency graph is ambiguous'')
        | Some spec \<Rightarrow> Inr (spec, hooksFromStored)))"

definition Compose_Start :: "ComposeHost \<Rightarrow> ProjectHost \<Rightarrow> ProjectSelection \<Rightarrow> Target list \<Rightarrow> (SvcErr + StartOutcome list) effect" where
  "Compose_Start ch ph sel targets =
     bindR (listProject ch sel) (\<lambda>entries.
     bindR (Pair (targetErr (resolveTargets targets (storedReplicas (psSpec sel) entries)))) (\<lambda>ts.
     if psSpec sel = None \<and> entries = [] then Pair (Inr [])
     else bindR (Pair (specOrStored ph sel entries)) (\<lambda>(spec, src). reconcileStart ch spec ts src [])))"

definition Compose_Stop ::
    "ComposeHost \<Rightarrow> ProjectHost \<Rightarrow> ProjectSelection \<Rightarrow> Target list \<Rightarrow> int option \<Rightarrow> (SvcErr + StopOutcome list) effect" where
  "Compose_Stop ch ph sel targets timeout =
     bindR (Pair (checkStopTimeout timeout)) (\<lambda>_.
     bindR (listProject ch sel) (\<lambda>entries.
     bindR (Pair (targetErr (resolveTargets targets (storedReplicas (psSpec sel) entries)))) (\<lambda>ts.
     if entries = [] then Pair (Inr [])
     else bindR (Pair (specOrStored ph sel entries)) (\<lambda>(spec, _).
       bindR (reconcileStop ch spec ts (newTeardown False timeout)) (\<lambda>(_, stops). Pair (Inr stops))))))"

section \<open>Restart\<close>

record RestartOutcome =
  rsCommand :: string
  rsStopErr :: "SvcErr option"
  rsStartErr :: "SvcErr option"

text \<open>The label of a replica, against the larger of the declared count and the stored indices.\<close>

definition replicaNamer :: "ComposeSpec option \<Rightarrow> CommandEntry list \<Rightarrow> CommandEntry \<Rightarrow> string" where
  "replicaNamer spec entries e =
     (let scales = (case spec of
            None \<Rightarrow> storedReplicas None entries
          | Some s \<Rightarrow> fold (\<lambda>(n, k) m. AList.update n (max (case map_of m n of Some x \<Rightarrow> x | None \<Rightarrow> 0) k) m)
              (declaredReplicas s) (storedReplicas None entries));
          name = commandNameOf e
      in instanceDisplayName ((bare_command name [])\<lparr> cScale := (case map_of scales name of Some x \<Rightarrow> x | None \<Rightarrow> 0) \<rparr>) (scaleIndexOf e))"

definition entriesOfCommand :: "CommandEntry list \<Rightarrow> string \<Rightarrow> CommandEntry list" where
  "entriesOfCommand entries name = (if name = [] then [] else sort_key scaleIndexOf (filter (\<lambda>e. commandNameOf e = name) entries))"

text \<open>Whether the replica may start again, and the error of its stop.\<close>

definition restartStop :: "ComposeHost \<Rightarrow> teardown \<Rightarrow> CommandEntry \<Rightarrow> (bool \<times> SvcErr option) effect" where
  "restartStop ch td e =
     (if \<not> isLive (enState e) then Pair (True, None)
      else tryR (acquireStop ch) (\<lambda>p. case p of
        Inl err \<Rightarrow> Pair (True, Some err)
      | Inr _ \<Rightarrow> tryR (stopReplica ch e (tdForce td) (tdTimeout td)) (\<lambda>(hookFailed, _, err). Pair (\<not> hookFailed, err))))"

text \<open>The outcomes by replica and the replicas a failed stop hook holds back.\<close>

type_synonym restartState = "(string, RestartOutcome) gomap \<times> string list"

definition stopOne :: "ComposeHost \<Rightarrow> teardown \<Rightarrow> CommandEntry \<Rightarrow> restartState \<Rightarrow> (restartState \<times> unit) effect" where
  "stopOne ch td e st =
     tryR (restartStop ch td e) (\<lambda>(startable, err).
       Pair ((amodify (enID e) (\<lambda>o'. o'\<lparr> rsStopErr := err \<rparr>) (fst st), if startable then snd st else enID e # snd st), ()))"

definition startOne ::
    "ComposeHost \<Rightarrow> ComposeSpec \<Rightarrow> hookSource \<Rightarrow> CommandEntry \<Rightarrow> restartState \<Rightarrow> (restartState \<times> unit) effect" where
  "startOne ch spec src e st =
     tryR (startReplica ch spec src (case commandByName (sCommands spec) (commandNameOf e) of Some c \<Rightarrow> c | None \<Rightarrow> bare_command [] []) e)
       (\<lambda>err. Pair ((amodify (enID e) (\<lambda>o'. o'\<lparr> rsStartErr := err \<rparr>) (fst st), snd st), ()))"

definition layerEntries :: "CommandEntry list \<Rightarrow> string list \<Rightarrow> CommandEntry list" where
  "layerEntries entries layer = concat (map (entriesOfCommand entries) layer)"

fun stopLayers :: "ComposeHost \<Rightarrow> teardown \<Rightarrow> CommandEntry list \<Rightarrow> string list list \<Rightarrow> restartState \<Rightarrow> restartState effect" where
  "stopLayers ch td entries [] st = Pair st"
| "stopLayers ch td entries (layer # ls) st =
     tryR (concurrently ch (length (layerEntries entries layer)) (\<lambda>i. stopOne ch td (layerEntries entries layer ! i)) st) (\<lambda>(st, _).
       stopLayers ch td entries ls st)"

fun startLayers ::
    "ComposeHost \<Rightarrow> ComposeSpec \<Rightarrow> hookSource \<Rightarrow> CommandEntry list \<Rightarrow> string list list \<Rightarrow> restartState \<Rightarrow> restartState effect" where
  "startLayers ch spec src entries [] st = Pair st"
| "startLayers ch spec src entries (layer # ls) st =
     (let es = filter (\<lambda>e. enID e \<notin> set (snd st)) (layerEntries entries layer)
      in tryR (concurrently ch (length es) (\<lambda>i. startOne ch spec src (es ! i)) st) (\<lambda>(st, _). startLayers ch spec src entries ls st))"

definition restartWithSpec ::
    "ComposeHost \<Rightarrow> ComposeSpec \<Rightarrow> CommandEntry list \<Rightarrow> targetSet \<Rightarrow> hookSource \<Rightarrow> teardown \<Rightarrow> (SvcErr + RestartOutcome list) effect" where
  "restartWithSpec ch spec stored targets src td =
     (case TopoLayers (sCommands spec) of
        Inl _ \<Rightarrow> Pair (Inl (ErrText ''topo layers''))
      | Inr layers \<Rightarrow>
          let entries = filterEntries targets stored;
              restarted = concat (map (layerEntries entries) layers);
              out = map (\<lambda>e. (enID e, \<lparr> rsCommand = replicaNamer (Some spec) stored e, rsStopErr = None, rsStartErr = None \<rparr>)) restarted
          in tryR (stopLayers ch td entries (rev layers) (out, [])) (\<lambda>st.
             tryR (startLayers ch spec src entries layers st) (\<lambda>(out, _).
               Pair (Inr (List.map_filter (\<lambda>e. map_of out (enID e)) restarted)))))"

definition Restart ::
    "ComposeHost \<Rightarrow> ProjectHost \<Rightarrow> ProjectSelection \<Rightarrow> Target list \<Rightarrow> int option \<Rightarrow> (SvcErr + RestartOutcome list) effect" where
  "Restart ch ph sel targets timeout =
     bindR (Pair (checkStopTimeout timeout)) (\<lambda>_.
     bindR (listProject ch sel) (\<lambda>entries.
     bindR (Pair (targetErr (resolveTargets targets (storedReplicas (psSpec sel) entries)))) (\<lambda>ts.
     if entries = [] then Pair (Inr [])
     else bindR (Pair (specOrStored ph sel entries)) (\<lambda>(spec, src).
       restartWithSpec ch spec entries ts src (newTeardown False timeout)))))"

section \<open>Down\<close>

record DownResult =
  drStops :: "StopOutcome list"
  drOrphanStops :: "StopResultOf list"
  drRemoves :: "RemoveOutcome list"
  drReleases :: "ReleaseOutcome list"

text \<open>The project to walk, if there is one.\<close>

definition downSpec :: "ProjectHost \<Rightarrow> ProjectSelection \<Rightarrow> CommandEntry list \<Rightarrow> SvcErr + ComposeSpec option" where
  "downSpec ph sel entries =
     (if psSpec sel \<noteq> None \<or> spansMultipleProjects entries then Inr (psSpec sel)
      else bindE (reconstructProjectFromMeta ph (psWorkDir sel) entries) (\<lambda>found.
        if found = None \<and> entries \<noteq> [] then Inl (ErrText ''stored dependency graph is ambiguous'') else Inr found))"

text \<open>The stops, and the entries to remove after them.\<close>

definition downStops ::
    "ComposeHost \<Rightarrow> ComposeSpec option \<Rightarrow> CommandEntry list \<Rightarrow> targetSet \<Rightarrow> teardown \<Rightarrow>
     (SvcErr + teardown \<times> StopOutcome list \<times> StopResultOf list \<times> CommandEntry list) effect" where
  "downStops ch spec entries targets td =
     (let selected = filterEntries targets entries
      in if selected = [] then Pair (Inr (td, [], [], []))
         else case spec of
           None \<Rightarrow> tryR (stopAllConcurrent ch (runningEntries selected) td) (\<lambda>(td, os). Pair (Inr (td, [], os, selected)))
         | Some s \<Rightarrow>
             bindR (reconcileStop ch s targets td) (\<lambda>(td, stops).
               if targets = [] then tryR (stopOrphans ch entries s td) (\<lambda>(td, os). Pair (Inr (td, stops, os, entries)))
               else Pair (Inr (td, stops, [], filterEntriesInClosure entries (resolveStopTargetCommands s (targetNames targets))))))"

text \<open>Down runs under a release recorder of its own.\<close>

definition Down ::
    "ComposeHost \<Rightarrow> ProjectHost \<Rightarrow> ProjectSelection \<Rightarrow> Target list \<Rightarrow> bool \<Rightarrow> int option \<Rightarrow> (SvcErr + DownResult) effect" where
  "Down ch ph sel targets force timeout =
     bindR (Pair (checkStopTimeout timeout)) (\<lambda>_.
     if list_ex (\<lambda>t. tScaleIndex t \<noteq> 0) targets then Pair (Inl (ErrText ''cannot remove a replica alone''))
     else tryR (withRecorder (
       bindR (listProject ch sel) (\<lambda>entries.
       bindR (Pair (targetErr (resolveTargets targets (storedReplicas (psSpec sel) entries)))) (\<lambda>ts.
       bindR (Pair (downSpec ph sel entries)) (\<lambda>spec.
       bindR (downStops ch spec entries ts (newTeardown force timeout)) (\<lambda>(td, stops, os, removeTargets).
       tryR (Down_finish ch (psWorkDir sel) (psProject sel) (ts = []) (filterEntries ts entries \<noteq> []) entries removeTargets td) (\<lambda>(removes, releases).
         Pair (Inr \<lparr> drStops = stops, drOrphanStops = os, drRemoves = removes, drReleases = releases \<rparr>)))))))) (\<lambda>(r, _). Pair r))"

end
