(* ===== verification/Compose_Keeps.thy ===== *)
theory Compose_Keeps
  imports Compose_Service
begin

text \<open>
  Every compose operation respects what the operations of the service respect, so the tables stay well
  formed through create, up, start, stop, restart, scale and down, and a context that ended stays ended.
\<close>

context service_calls
begin

section \<open>Convergence\<close>

lemma Q_snapshot: "obeys Q (snapshotCommands ch wd p)"
  unfolding snapshotCommands_def by (intro Q_steps)

lemma Q_startedOr: "obeys Q start \<Longrightarrow> obeys Q rest \<Longrightarrow> obeys Q (startedOr ch disp start rest)"
proof -
  assume a: "obeys Q start" "obeys Q rest"
  have "obeys Q (\<lambda>cw. let w = ErrWrap s e in (Inl w, reportPlain ch disp PhaseError (Some w) None cw))" for s e
    by (simp add: Let_def Q_reported)
  then have "obeys Q (tryR start (\<lambda>err. case err of
         Some e \<Rightarrow> (\<lambda>cw. let w = ErrWrap ''start command'' e in (Inl w, reportPlain ch disp PhaseError (Some w) None cw))
       | None \<Rightarrow> rest))" by (intro Q_tryR obeys_option a)
  from Q_pre [OF _ this, of "reportPlain ch disp PhaseStarting None None"] show ?thesis
    by (simp add: startedOr_def [abs_def])
qed

lemma Q_startStored: "obeys Q (startStored ch spec src cmd stored n)"
  unfolding startStored_def by (intro Q_steps Q_startReplica)

lemma Q_startReplicas: "obeys Q (startReplicas ch spec src held cmd stored idxs h st)"
proof (induction idxs arbitrary: h st)
  case (Cons idx idxs)
  have skip: "obeys Q (\<lambda>cw. startReplicas ch spec src held cmd stored idxs h' st (reportPlain ch d p w x cw))" for h' d p w x
    by (rule Q_pre [OF _ Cons.IH]) simp
  have one: "obeys Q (startedOr ch d (startStored ch spec src cmd s n) (startReplicas ch spec src held cmd stored idxs h (st @ [idx])))" for d s n
    by (intro Q_startedOr Q_startStored Cons.IH)
  show ?case using skip one Cons.IH by (simp add: Let_def split: option.split)
qed (simp only: startReplicas.simps Q_Pair)

lemma Q_reportsCompleted: "cwWorld (fold (\<lambda>(i, r). reportCompleted ch (d i) r) xs cw) = cwWorld cw"
  by (rule fold_world) (auto simp: reportCompleted_def split: option.split)

lemma Q_awaitCompleted: "obeys Q (awaitCompleted ch cmd idxs)"
proof -
  have "obeys Q (\<lambda>cw. case r of
         Inl e \<Rightarrow> (resultOf EventTypeRunning None (Some e), reportReplicas ch cmd idxs PhaseError (Some e) None cw)
       | Inr results \<Rightarrow> (completedResult results, fold (\<lambda>(idx, r). reportCompleted ch (instanceDisplayName cmd idx) r) (zip idxs results) cw))" for r
    by (rule Q_pure) (simp add: Q_reportsCompleted split: sum.split)
  then have "obeys Q (tryR (svc (Wait (chHost ch) (map (InstanceName (cGeneratedName cmd)) idxs) EventTypeStopped 0 False)) (\<lambda>r cw. case r of
         Inl e \<Rightarrow> (resultOf EventTypeRunning None (Some e), reportReplicas ch cmd idxs PhaseError (Some e) None cw)
       | Inr results \<Rightarrow> (completedResult results, fold (\<lambda>(idx, r). reportCompleted ch (instanceDisplayName cmd idx) r) (zip idxs results) cw)))"
    by (intro Q_tryR Q_Wait)
  from Q_pre [OF _ this, of "reportReplicas ch cmd idxs PhaseWaiting None None"] show ?thesis
    by (simp add: awaitCompleted_def [abs_def])
qed

lemma Q_upStartAction: "obeys Q (upStartAction ch spec src held g v cmd)"
proof -
  let ?snap = "vSnapshot v" and ?idxs = "replicaIndices v"
  have "obeys Q (\<lambda>cw. case r of
           Inl e \<Rightarrow> (resultOf (csState ?snap) None (Some e), cw)
         | Inr (Some e, started) \<Rightarrow> (resultOf (csState ?snap) None (Some e), reportReplicas ch cmd started PhaseRunning None None cw)
         | Inr (None, _) \<Rightarrow>
             if \<not> anyDependentNeedsCompletion g (vID v)
             then (resultOf EventTypeRunning (csExitCode ?snap) None, reportReplicas ch cmd ?idxs PhaseRunning None (csExitCode ?snap) cw)
             else awaitCompleted ch cmd ?idxs cw)" for r
    using Q_awaitCompleted [of cmd ?idxs] by (auto simp: obeys_def Q_same split: sum.split option.split)
  then show ?thesis unfolding upStartAction_def Let_def by (intro Q_tryR Q_startReplicas)
qed

lemma Q_startAction: "obeys Q (startAction ch spec src held g v st)"
  unfolding startAction_def by (intro Q_steps Q_upStartAction)

lemma Q_stopActionOf: "obeys Q (stopActionOf ch g v td)"
  unfolding stopActionOf_def by (intro Q_steps Q_stopAction)

lemma reportBlocked_world [simp]: "cwWorld (reportBlocked ch g cw) = cwWorld cw"
  unfolding reportBlocked_def by (rule fold_world) (auto split: option.split)

lemma Q_blocked: "obeys Q (\<lambda>cw. (x, reportBlocked ch g cw))"
  by (simp add: Q_pure)

lemma Q_reconcileStart: "obeys Q (reconcileStart ch spec ts src held)"
  unfolding reconcileStart_def Let_def by (intro Q_steps Q_snapshot Q_walkGraph Q_startAction Q_blocked)

lemma Q_reconcileStop: "obeys Q (reconcileStop ch spec ts td)"
  unfolding reconcileStop_def Let_def by (intro Q_steps Q_snapshot Q_walkGraph Q_stopActionOf Q_blocked)

section \<open>Create\<close>

lemma Q_failedAction: "obeys Q (failedAction ch d a e)"
  by (rule Q_pure) (simp add: failedAction_def)

lemma Q_doneAction: "obeys Q (doneAction ch d a p)"
  by (rule Q_pure) (simp add: doneAction_def)

lemma Q_createReplica: "obeys Q (createReplica ch ph spec a ac p w)"
  unfolding createReplica_def Let_def by (intro Q_steps Q_createWithHooks Q_failedAction Q_doneAction)

lemma Q_recreateReplica: "obeys Q (recreateReplica ch ph spec a e old hs live)"
proof -
  have "obeys Q (tryR (removeReplica ch old hs [enID e] False live) (\<lambda>err. case err of
          Some x \<Rightarrow> failedAction ch d ''recreate'' (ErrWrap ''remove command for recreate'' x)
        | None \<Rightarrow> createReplica ch ph spec a ''recreate'' PhaseRecreated ''create command after remove''))" for d
    by (intro Q_steps Q_removeReplica Q_failedAction Q_createReplica)
  from Q_pre [OF _ this] show ?thesis by (simp add: recreateReplica_def [abs_def] Let_def)
qed

lemma Q_stopThenRecreate: "obeys Q (stopThenRecreate ch ph spec a e old hs)"
proof -
  have "obeys Q (\<lambda>cw. recreateReplica ch ph spec a e old hs True (reportStopped ch d None k cw))" for d k
    by (rule Q_pre [OF _ Q_recreateReplica]) simp
  then have "obeys Q (tryR (stopWithHooks ch old hs (enID e) None) (\<lambda>(_, forceKilled, err). case err of
          Some x \<Rightarrow> failedAction ch d ''recreate'' (ErrWrap ''stop command for recreate'' x)
        | None \<Rightarrow> (\<lambda>cw. recreateReplica ch ph spec a e old hs True (reportStopped ch d None forceKilled cw))))" for d
    by (intro Q_steps Q_stopWithHooks Q_failedAction)
  from Q_pre [OF _ this] show ?thesis by (simp add: stopThenRecreate_def [abs_def] Let_def)
qed

lemma Q_executeAction: "obeys Q (executeAction ch ph spec a)"
proof -
  have "obeys Q (\<lambda>cw. createReplica ch ph spec a ac p w (reportPlain ch d q None None cw))" for ac p w d q
    by (rule Q_pre [OF _ Q_createReplica]) simp
  moreover have "obeys Q (\<lambda>cw. let e = x in (\<lparr> aoCommand = d, aoAction = ac, aoErr = Some e \<rparr>, reportPlain ch d p (Some e) None cw))" for d ac p x
    unfolding Let_def by (rule Q_reported)
  ultimately show ?thesis unfolding executeAction_def Let_def
    by (simp add: Q_doneAction Q_failedAction Q_stopThenRecreate Q_recreateReplica split: ActionKind.split option.split sum.split prod.split)
qed

lemma Q_eachOutcome:
  assumes f: "\<And>e. obeys Q (f e)"
  shows "obeys Q (eachOutcome f es)"
  by (induction es) (simp_all only: eachOutcome.simps, (intro Q_steps f | assumption)+)

lemma Q_orphanOutcome: "obeys Q (orphanOutcome ch e)"
  unfolding orphanOutcome_def Let_def by (intro Q_steps Q_removeWithHooks)

lemma Q_excessOutcome: "obeys Q (excessOutcome ch e)"
proof -
  have r: "obeys Q (removeExcess ch d e r hs live)" for d r hs live
    unfolding removeExcess_def by (intro Q_steps Q_removeReplica Q_failedAction Q_doneAction)
  have "obeys Q (case storedHookReplica ch e of
            Inl x \<Rightarrow> failedAction ch d ''remove-excess'' (ErrWrap ''remove excess replica'' x)
          | Inr (r, hooks) \<Rightarrow>
              if \<not> isLive (enState e) then removeExcess ch d e r hooks False
              else tryR (stopWithHooks ch r hooks (enID e) None) (\<lambda>(_, _, err). case err of
                Some x \<Rightarrow> failedAction ch d ''remove-excess'' (ErrWrap ''stop excess replica'' x)
              | None \<Rightarrow> removeExcess ch d e r hooks True))" for d
    by (intro Q_steps Q_stopWithHooks Q_failedAction r)
  from Q_pre [OF _ this] show ?thesis by (simp add: excessOutcome_def [abs_def] Let_def)
qed

lemma Q_executeActions: "obeys Q (executeActions ch ph spec as)"
  by (induction as) (simp_all only: executeActions.simps, (intro Q_steps Q_executeAction | assumption)+)

lemma Q_case_pure:
  assumes "\<And>plan. obeys Q (k plan)"
  shows "obeys Q (\<lambda>cw. case p cw of Inl _ \<Rightarrow> (x, cw) | Inr plan \<Rightarrow> k plan cw)"
  using assms by (auto simp: obeys_def Q_same split: sum.split)

lemma Q_create: "obeys Q (create ch ph spec ro ts)"
proof -
  let ?k = "\<lambda>plan. tryR (if ts = [] then handleOrphans ch (pOrphans plan) ro else Pair []) (\<lambda>orphans.
              tryR (if replicaScoped ts then Pair [] else handleExcessReplicas ch (pExcess plan) (resolveTargetCommands spec (targetNames ts))) (\<lambda>excess.
              tryR (executeActions ch ph spec (filter (\<lambda>a. cName (aDesired a) \<in> set (resolveTargetCommands spec (targetNames ts)) \<and>
                  covers ts (cName (aDesired a)) (aScaleIndex a)) (pActions plan))) (\<lambda>(os, held). Pair (Inr (orphans @ excess @ os, held) :: SvcErr + _))))"
  have "obeys Q (?k plan)" for plan
    unfolding handleOrphans_def handleExcessReplicas_def
    by (intro Q_steps Q_eachOutcome Q_orphanOutcome Q_excessOutcome Q_executeActions)
  then have "obeys Q (\<lambda>cw. case ComputePlan (phHash ph) spec existing (\<lambda>m. visitOrder ch cw (keys_of m)) of
         Inl _ \<Rightarrow> (Inl (ErrText ''compute plan''), cw) | Inr plan \<Rightarrow> ?k plan cw)" for existing
    by (rule Q_case_pure)
  then show ?thesis unfolding create_def Let_def by (intro Q_steps)
qed

section \<open>Operations\<close>

lemma Q_Compose_Create: "obeys Q (Compose_Create ch ph spec ro ts)"
  unfolding Compose_Create_def by (intro Q_steps Q_create)

lemma Q_Up: "obeys Q (Up ch ph spec ro ts)"
  unfolding Up_def by (intro Q_steps Q_create Q_reconcileStart)

lemma Q_Scale: "obeys Q (Scale ch ph loaded scales)"
  unfolding Scale_def by (intro Q_steps Q_Up)

lemma Q_listProject: "obeys Q (listProject ch sel)"
  unfolding listProject_def by (intro Q_steps)

lemma Q_Compose_Start: "obeys Q (Compose_Start ch ph sel ts)"
  unfolding Compose_Start_def by (intro Q_steps Q_listProject Q_reconcileStart)

lemma Q_Compose_Stop: "obeys Q (Compose_Stop ch ph sel ts t)"
  unfolding Compose_Stop_def by (intro Q_steps Q_listProject Q_reconcileStop)

lemma Q_stopLayers: "obeys Q (stopLayers ch td es ls st)"
proof (induction ls arbitrary: st)
  case (Cons l ls)
  have "obeys Q (stopOne ch td e st)" for e st
    unfolding stopOne_def restartStop_def by (intro Q_steps Q_acquireStop Q_stopReplica)
  with Cons show ?case by (simp only: stopLayers.simps) (intro Q_steps Q_concurrently, simp_all)
qed (simp only: stopLayers.simps Q_Pair)

lemma Q_startLayers: "obeys Q (startLayers ch spec src es ls st)"
proof (induction ls arbitrary: st)
  case (Cons l ls)
  have "obeys Q (startOne ch spec src e st)" for e st
    unfolding startOne_def by (intro Q_steps Q_startReplica)
  with Cons show ?case by (simp only: startLayers.simps Let_def) (intro Q_steps Q_concurrently, simp_all)
qed (simp only: startLayers.simps Q_Pair)

lemma Q_Restart: "obeys Q (Restart ch ph sel ts t)"
  unfolding Restart_def restartWithSpec_def Let_def by (intro Q_steps Q_listProject Q_stopLayers Q_startLayers)

lemma Q_downStops: "obeys Q (downStops ch spec es ts td)"
  unfolding downStops_def Let_def stopOrphans_def by (intro Q_steps Q_stopAll Q_reconcileStop)

lemma Q_Down: "obeys Q (Down ch ph sel ts force t)"
  unfolding Down_def by (intro Q_steps Q_withRecorder Q_listProject Q_downStops Q_Down_finish)

end

end
