(* ===== verification/Cmd_Theorems.thy ===== *)
theory Cmd_Theorems
  imports Cmd_Effects
begin

text \<open>
  What the operations of the service promise: the tables stay well formed whatever fails, a stop
  that reports no error leaves its command stopped, and a replacement that fails leaves the
  command it was to replace. A plain create is not atomic: one that fails half-way takes its name.
\<close>

section \<open>Every operation keeps the tables\<close>

text \<open>A session of requests, each with its arguments.\<close>

datatype svcOp =
    OpCreate CreateRequest | OpStart string | OpStop "string list" string "int option" | OpRestart "string list" string "int option"
  | OpRemove "string list" "(string, string) gomap" bool | OpList bool "(string, string) gomap"
  | OpWait "string list" EventType int bool

fun svcApply :: "Host \<Rightarrow> svcOp \<Rightarrow> World \<Rightarrow> World" where
  "svcApply h (OpCreate req) w = snd (Create h req w)"
| "svcApply h (OpStart s) w = snd (Start h s w)"
| "svcApply h (OpStop ts sig t) w = snd (Service_Stop h ts sig t w)"
| "svcApply h (OpRestart ts sig t) w = snd (Service_Restart h ts sig t w)"
| "svcApply h (OpRemove ts ls force) w = snd (Service_Remove h ts ls force w)"
| "svcApply h (OpList a ls) w = snd (Service_List h a ls w)"
| "svcApply h (OpWait ts c t ig) w = snd (Wait h ts c t ig w)"

lemma svcApply_ok: "store_ok (wStore w) \<Longrightarrow> store_ok (wStore (svcApply h op w))"
  using ok.keeps_Create [OF TrueI] ok.keeps_Start ok.keeps_Stop ok.keeps_Restart ok.keeps_Remove ok.keeps_List ok.keeps_Wait
  by (cases op) (auto simp: keeps_def okS_def)

lemma svcApply_all_ok: "store_ok (wStore w) \<Longrightarrow> store_ok (wStore (fold (svcApply h) ops w))"
  by (induction ops arbitrary: w) (simp_all add: svcApply_ok)

section \<open>Rows that no monitor writes\<close>

definition rowOf :: "string \<Rightarrow> Store \<Rightarrow> ConfigRow list \<times> StateRow option" where
  "rowOf i st = (filter (\<lambda>c. crID c = i) (dbConfig st), map_of (dbState st) i)"

definition unattended :: "string \<Rightarrow> Store \<Rightarrow> bool" where
  "unattended i st \<longleftrightarrow> (\<forall>s. map_of (dbState st) i = Some s \<longrightarrow> \<not> isLive (srState s))"

lemma unattended_code [code]:
  "unattended i st \<longleftrightarrow> (case map_of (dbState st) i of None \<Rightarrow> True | Some s \<Rightarrow> \<not> isLive (srState s))"
  by (simp add: unattended_def split: option.split)

lemma map_of_filter_neq: "j \<noteq> i \<Longrightarrow> map_of (filter (\<lambda>(k, _). k \<noteq> j) m) i = map_of m i"
  by (induction m) auto

lemma rowOf_delete: "j \<noteq> i \<Longrightarrow> rowOf i (deleteCommandRows j st) = rowOf i st"
  by (auto simp: rowOf_def deleteCommandRows_def map_of_filter_neq intro: filter_cong)

lemma rowOf_amodify: "j \<noteq> i \<Longrightarrow> rowOf i (st\<lparr> dbState := amodify j f (dbState st) \<rparr>) = rowOf i st"
  by (simp add: rowOf_def map_of_amodify)

lemma rowOf_monitorAct: "fst x = i \<longrightarrow> \<not> isLive (srState (snd x)) \<Longrightarrow> rowOf i (monitorAct h t x st) = rowOf i st"
  by (cases x) (auto simp: monitorAct_def rowOf_delete rowOf_amodify split: option.split)

lemma rowOf_monitors:
  assumes "distinct (keys_of (dbState st))" "unattended i st"
  shows "rowOf i (monitorsAct h t st) = rowOf i st"
proof -
  have "\<forall>x \<in> set xs. fst x = i \<longrightarrow> \<not> isLive (srState (snd x)) \<Longrightarrow> rowOf i (fold (monitorAct h t) xs st') = rowOf i st'" for xs st'
    by (induction xs arbitrary: st') (auto simp: rowOf_monitorAct)
  moreover have "\<forall>x \<in> set (dbState st). fst x = i \<longrightarrow> \<not> isLive (srState (snd x))"
    using assms map_of_is_SomeI by (fastforce simp: unattended_def)
  ultimately show ?thesis by (simp add: monitorsAct_def)
qed

text \<open>A row that is not live stays as it is while others act.\<close>

definition sameRow :: "string \<Rightarrow> Store \<Rightarrow> Store \<Rightarrow> bool" where
  "sameRow i st st' \<longleftrightarrow> (store_ok st \<and> unattended i st \<longrightarrow> store_ok st' \<and> rowOf i st' = rowOf i st)"

lemma unattended_row: "rowOf i st' = rowOf i st \<Longrightarrow> unattended i st' = unattended i st"
  by (simp add: rowOf_def unattended_def)

lemma sameRow_trans: "sameRow i a b \<Longrightarrow> sameRow i b c \<Longrightarrow> sameRow i a c"
  by (metis sameRow_def unattended_row)

lemma sameRow_monitors: "sameRow i st (monitorsAct h t st)"
  using rowOf_monitors okS_monitors by (auto simp: sameRow_def okS_def store_ok_def)

interpretation row: store_frame h "sameRow i" for h i
  by unfold_locales (auto simp: sameRow_monitors sameRow_def [of i st st for st] intro: sameRow_trans)

section \<open>A stop that succeeds\<close>

definition endedIn :: "string \<Rightarrow> Store \<Rightarrow> bool" where
  "endedIn i st \<longleftrightarrow> (\<forall>s. map_of (dbState st) i = Some s \<longrightarrow> hasEnded (srState s))"

definition settledIn :: "string \<Rightarrow> Store \<Rightarrow> bool" where
  "settledIn i st \<longleftrightarrow> (\<forall>s. map_of (dbState st) i = Some s \<longrightarrow> hasEnded (srState s) \<or> DiedUnexpectedly (srJSON s))"

lemma ended_settled: "endedIn i st \<Longrightarrow> settledIn i st"
  by (simp add: endedIn_def settledIn_def)

lemma ended_unattended: "endedIn i st \<Longrightarrow> unattended i st"
  by (auto simp: endedIn_def unattended_def hasEnded_def isLive_def)

lemma ended_kept: "keeps (sameRow i) f \<Longrightarrow> store_ok (wStore w) \<Longrightarrow> endedIn i (wStore w) \<Longrightarrow> f w = (r, w') \<Longrightarrow> endedIn i (wStore w')"
  using keepsD [of "sameRow i" f w r w'] ended_unattended [of i "wStore w"] by (auto simp: sameRow_def rowOf_def endedIn_def)

lemma getState_Inr: "GetCommandState h i w = (Inr s, w') \<Longrightarrow> map_of (dbState (wStore w')) i = Some s"
  by (auto simp: GetCommandState_def query_def bindR_def readRow_def split: prod.splits sum.splits option.splits)

lemma outside_err: "outside h w = (Inl e, w') \<Longrightarrow> \<not> errorsIs e ErrNoRows"
  by (auto simp: outside_def split: option.splits)

lemma getState_NoRows: "GetCommandState h i w = (Inl e, w') \<Longrightarrow> errorsIs e ErrNoRows \<Longrightarrow> map_of (dbState (wStore w')) i = None"
  using outside_err by (auto simp: GetCommandState_def query_def bindR_def readRow_def split: prod.splits sum.splits option.splits)

lemma tryR_cases: "tryR f g w = (r, w'') \<longleftrightarrow> (\<exists>x w'. f w = (x, w') \<and> g x w' = (r, w''))"
  by (auto simp: tryR_def split: prod.split)

lemma bindR_Inr: "bindR f g w = (Inr y, w'') \<longleftrightarrow> (\<exists>x w'. f w = (Inr x, w') \<and> g x w' = (Inr y, w''))"
  by (auto simp: bindR_def split: prod.split sum.split)

lemma bindR_Inl: "bindR f g w = (Inl e, w'') \<longleftrightarrow> f w = (Inl e, w'') \<or> (\<exists>x w'. f w = (Inr x, w') \<and> g x w' = (Inl e, w''))"
  by (auto simp: bindR_def split: prod.split sum.split)

lemma tryR_sumE:
  assumes "tryR f g w = (r, w'')"
  obtains (Inl) e w' where "f w = (Inl e, w')" "g (Inl e) w' = (r, w'')"
    | (Inr) x w' where "f w = (Inr x, w')" "g (Inr x) w' = (r, w'')"
  using assms by (cases "fst (f w)") (auto simp: tryR_def split: prod.splits)

lemma tryR_pairE:
  assumes "tryR f g w = (r, w'')"
  obtains a b w' where "f w = ((a, b), w')" "g (a, b) w' = (r, w'')"
  using assms by (auto simp: tryR_def split: prod.splits)

lemma ended_read: "GetCommandState h i w = (Inr s, w') \<Longrightarrow> hasEnded (srState s) \<Longrightarrow> endedIn i (wStore w')"
  by (auto simp: endedIn_def dest: getState_Inr)

lemma ended_gone: "GetCommandState h i w = (Inl e, w') \<Longrightarrow> errorsIs e ErrNoRows \<Longrightarrow> endedIn i (wStore w')"
  by (auto simp: endedIn_def dest: getState_NoRows)

lemma pollStopped_ended: "pollStopped h i n w = (Inr u, w') \<Longrightarrow> endedIn i (wStore w')"
  by (induction n arbitrary: w) (auto elim!: tryR_sumE split: if_splits intro: ended_read ended_gone)

lemma waitForStopped_ended: "waitForStopped h i t w = (Inr u, w') \<Longrightarrow> endedIn i (wStore w')"
  by (simp add: waitForStopped_def pollStopped_ended)

lemma forceKill_ended:
  assumes "tryR (recordedForceKill h i) (\<lambda>k. Pair (f k)) w = (r, w')" "store_ok (wStore w)" "endedIn i (wStore w)"
  shows "endedIn i (wStore w')"
  using assms ended_kept [OF row.keeps_recordedForceKill] by (auto simp: tryR_cases)

lemma query_write: "query h (writeRow f) w = (Inr u, w') \<Longrightarrow> \<exists>w0. outside h w = (Inr (), w0) \<and> f (wStore w0) = Inr (wStore w')"
  by (auto simp: query_def bindR_def writeRow_def split: prod.splits sum.splits)

lemma MarkMonitorDied_ended:
  assumes "MarkMonitorDied h i js cfg w = (Inr u, w')" "store_ok (wStore w)"
  shows "endedIn i (wStore w')"
proof -
  from assms(1) obtain w1 where u: "UpdateCommandState h i EventTypeFailed None (js\<lparr> csError := monitorDiedError \<rparr>) w = (Inr (), w1)"
    and rest: "(if \<not> autoRemoves cfg then Pair (Inr ())
       else bindR (DeleteCommand h i) (\<lambda>_ w. (Inr (), autoRemoveDirs h i cfg w))) w1 = (Inr u, w')"
    by (auto simp: MarkMonitorDied_def bindR_Inr)
  let ?r = "\<lparr> srState = EventTypeFailed, srExitCode = None, srJSON = js\<lparr> csError := monitorDiedError \<rparr> \<rparr>"
  from query_write [OF u [unfolded UpdateCommandState_def]] obtain w0 :: World
    where "updateStateRow i ?r (wStore w0) = Inr (wStore w1)" by blast
  then have "wStore w1 = (wStore w0)\<lparr> dbState := amodify i (\<lambda>_. ?r) (dbState (wStore w0)) \<rparr>"
    by (simp add: updateStateRow_def)
  then have e1: "endedIn i (wStore w1)" by (auto simp: endedIn_def hasEnded_def map_of_amodify)
  have ok1: "store_ok (wStore w1)" using keepsD [OF ok.keeps_UpdateCommandState u] assms(2) by (simp add: okS_def)
  show ?thesis
  proof (cases "autoRemoves cfg")
    case True
    with rest obtain w2 where d: "DeleteCommand h i w1 = (Inr (), w2)" and r: "w' = autoRemoveDirs h i cfg w2"
      by (auto simp: bindR_Inr)
    from d have "endedIn i (wStore w2)"
      by (auto simp: DeleteCommand_def query_def bindR_def deleteCommandRows_def endedIn_def dest: map_of_SomeD split: prod.splits sum.splits)
    moreover have "store_ok (wStore w2)" using keepsD [OF ok.keeps_DeleteCommand d] ok1 by (simp add: okS_def)
    ultimately show ?thesis
      using ended_kept [OF row.keeps_autoRemoveDirs [where r = "()"], where w = w2] by (simp add: r)
  qed (use rest e1 in simp)
qed

lemma errorsJoin_Some [simp]: "errorsJoin [r, Some e] \<noteq> None"
  by (cases r) (simp_all add: errorsJoin_def map_filter_simps)

lemma settle_settled:
  assumes "settleUnreachableMonitor h i cfg retErr w = ((died, None), w')" "store_ok (wStore w)"
  shows "settledIn i (wStore w')" "\<not> died \<or> retErr \<noteq> None \<Longrightarrow> endedIn i (wStore w')"
proof -
  let ?G = "endedIn i (wStore w') \<or> died \<and> retErr = None \<and> settledIn i (wStore w')"
  have ?G using assms(1) unfolding settleUnreachableMonitor_def
  proof (cases rule: tryR_sumE)
    case (Inl e w1)
    then show ?thesis by (auto split: if_splits intro: ended_gone)
  next
    case (Inr s w1)
    have ok: "store_ok (wStore w1)" using keepsD [OF ok.keeps_GetCommandState Inr(1)] assms(2) by (simp add: okS_def)
    consider "DiedUnexpectedly (srJSON s)" | "\<not> DiedUnexpectedly (srJSON s)" "hasEnded (srState s)" | "\<not> DiedUnexpectedly (srJSON s)" "\<not> hasEnded (srState s)"
      by blast
    then show ?thesis
    proof cases
      case 1
      with Inr show ?thesis by (auto simp: settledIn_def dest: getState_Inr)
    next
      case 2
      with Inr show ?thesis by (auto intro: ended_read)
    next
      case 3
      with Inr(2) have "tryR (MarkMonitorDied h i (srJSON s) cfg)
          (\<lambda>m. Pair (True, case m of Inl e \<Rightarrow> errorsJoin [retErr, Some e] | Inr _ \<Rightarrow> retErr)) w1 = ((died, None), w')" by simp
      then show ?thesis
        using MarkMonitorDied_ended [OF _ ok] by (elim tryR_sumE) auto
    qed
  qed
  then show "settledIn i (wStore w')" "\<not> died \<or> retErr \<noteq> None \<Longrightarrow> endedIn i (wStore w')"
    using ended_settled by auto
qed

lemma rpcStop_rows: "rpcStop h i sig t w = (Inl e, w') \<Longrightarrow> \<not> errorsIs e ErrNoRows"
  by (auto simp: rpcStop_def Let_def split: option.split_asm RPCErr.split_asm)

lemma sendStop_NoRows: "sendStop h i sig t w = (Inl e, w1) \<Longrightarrow> errorsIs e ErrNoRows \<Longrightarrow> GetCommandState h i w = (Inl e, w1)"
  using rpcStop_rows by (auto simp: sendStop_def bindR_Inl split: if_splits)

lemma escalate_settled:
  assumes "escalateStop h i cfg t w = ((u, k, None), w')" "store_ok (wStore w)"
  shows "endedIn i (wStore w')"
  using assms(1) unfolding escalateStop_def
proof (cases rule: tryR_sumE)
  case (Inl e w1)
  have ok: "store_ok (wStore w1)" using keepsD [OF ok.keeps_sendStop Inl(1)] assms(2) by (simp add: okS_def)
  show ?thesis
  proof (cases "errorsIs e ErrNoRows")
    case True
    from sendStop_NoRows [OF Inl(1) True] have "GetCommandState h i w = (Inl e, w1)" .
    with True Inl(2) show ?thesis by (auto intro: ended_gone)
  next
    case False
    with Inl(2) have un: "isMonitorUnavailable e" and s: "tryR (settleUnreachableMonitor h i cfg
        (Some (ErrWrap ''timeout waiting for stop, and SIGKILL failed'' e))) (\<lambda>(died, err).
          if died \<or> err \<noteq> None then Pair (died, False, err)
          else tryR (recordedForceKill h i) (\<lambda>k. Pair (False, k, None))) w1 = ((u, k, None), w')"
      by (auto simp: Let_def split: if_splits)
    from s obtain died err w2 where t: "settleUnreachableMonitor h i cfg
        (Some (ErrWrap ''timeout waiting for stop, and SIGKILL failed'' e)) w1 = ((died, err), w2)"
      and r: "(if died \<or> err \<noteq> None then Pair (died, False, err)
          else tryR (recordedForceKill h i) (\<lambda>k. Pair (False, k, None))) w2 = ((u, k, None), w')"
      by (auto elim: tryR_pairE)
    from r have err: "err = None" by (auto split: if_splits)
    from settle_settled(2) [OF t [unfolded err] ok] have "endedIn i (wStore w2)" by simp
    moreover have "store_ok (wStore w2)" using keepsD [OF ok.keeps_settle t] ok by (simp add: okS_def)
    ultimately show ?thesis using r err by (auto split: if_splits intro: forceKill_ended)
  qed
next
  case (Inr y w1)
  have ok: "store_ok (wStore w1)" using keepsD [OF ok.keeps_sendStop Inr(1)] assms(2) by (simp add: okS_def)
  from Inr(2) have "tryR (waitForStopped h i t) (\<lambda>r. case r of
      Inl e \<Rightarrow> Pair (False, False, Some (ErrWrap ''timeout waiting for stop after SIGKILL'' e))
    | Inr _ \<Rightarrow> tryR (recordedForceKill h i) (\<lambda>k. Pair (False, k, None))) w1 = ((u, k, None), w')" by simp
  then show ?thesis
  proof (cases rule: tryR_sumE)
    case (Inr x w2)
    have "store_ok (wStore w2)" using keepsD [OF ok.keeps_waitForStopped Inr(1)] ok by (simp add: okS_def)
    with Inr show ?thesis by (auto intro: forceKill_ended waitForStopped_ended)
  qed simp
qed

lemma stopLive_settled:
  assumes "stopLive h i cfg sig t w = ((u, k, None), w')" "store_ok (wStore w)"
  shows "settledIn i (wStore w')"
  using assms(1) unfolding stopLive_def
proof (cases rule: tryR_sumE)
  case (Inl e w1)
  have ok: "store_ok (wStore w1)" using keepsD [OF ok.keeps_sendStop Inl(1)] assms(2) by (simp add: okS_def)
  from Inl(2) show ?thesis
    by (auto split: if_splits elim!: tryR_pairE dest: settle_settled(1) [OF _ ok])
next
  case (Inr y w1)
  have ok: "store_ok (wStore w1)" using keepsD [OF ok.keeps_sendStop Inr(1)] assms(2) by (simp add: okS_def)
  from Inr(2) have "tryR (waitForStopped h i (stopWait t cfg)) (\<lambda>r. case r of
      Inr _ \<Rightarrow> tryR (recordedForceKill h i) (\<lambda>k. Pair (False, k, None))
    | Inl e \<Rightarrow> if errorsIs e ErrDeadline then escalateStop h i cfg (stopWait t cfg) else Pair (False, False, Some e)) w1 = ((u, k, None), w')"
    by simp
  then show ?thesis
  proof (cases rule: tryR_sumE)
    case (Inl e w2)
    have "store_ok (wStore w2)" using keepsD [OF ok.keeps_waitForStopped Inl(1)] ok by (simp add: okS_def)
    with Inl show ?thesis by (auto split: if_splits intro: ended_settled escalate_settled)
  next
    case (Inr x w2)
    have "store_ok (wStore w2)" using keepsD [OF ok.keeps_waitForStopped Inr(1)] ok by (simp add: okS_def)
    with Inr have "endedIn i (wStore w')" by (auto intro: forceKill_ended waitForStopped_ended)
    then show ?thesis by (rule ended_settled)
  qed
qed

lemma stop_settled:
  assumes "stopReportingUnreachable h i sig t w = ((u, k, None), w')" "store_ok (wStore w)"
  shows "settledIn i (wStore w')"
  using assms(1) unfolding stopReportingUnreachable_def
proof (cases rule: tryR_sumE)
  case (Inl e w1)
  then show ?thesis by (auto split: if_splits intro: ended_settled ended_gone)
next
  case (Inr s w1)
  have ok: "store_ok (wStore w1)" using keepsD [OF ok.keeps_GetCommandState Inr(1)] assms(2) by (simp add: okS_def)
  show ?thesis
  proof (cases "hasEnded (srState s)")
    case True
    with Inr show ?thesis by (auto intro: ended_settled ended_read)
  next
    case False
    with Inr(2) have "tryR (GetCommandConfig h i) (\<lambda>r. case r of
           Inl e \<Rightarrow> Pair (False, False, Some (ErrWrap ''get command config'' e))
         | Inr (_, _, cfg) \<Rightarrow>
             (case ParseSignal (hoSignalName h) (hoSignalNum h) (effectiveSignal sig cfg) of
                Inl _ \<Rightarrow> Pair (False, False, Some (ErrText ''invalid signal''))
              | Inr (sig, _) \<Rightarrow> stopLive h i cfg sig (stopTimeout t cfg))) w1 = ((u, k, None), w')" by simp
    then show ?thesis
    proof (cases rule: tryR_sumE)
      case (Inr x w2)
      have "store_ok (wStore w2)" using keepsD [OF ok.keeps_GetCommandConfig Inr(1)] ok by (simp add: okS_def)
      with Inr(2) show ?thesis by (auto split: prod.split_asm sum.split_asm intro: stopLive_settled)
    qed simp
  qed
qed

definition killRecorded :: "string \<Rightarrow> bool \<times> bool \<times> SvcErr option \<Rightarrow> World \<Rightarrow> bool" where
  "killRecorded i = (\<lambda>(u, k, e) w. k \<longrightarrow> (\<exists>s. map_of (dbState (wStore w)) i = Some s \<and> csForceKilled (srJSON s)))"

lemma killed_read: "ensures (tryR (recordedForceKill h i) (\<lambda>k. Pair (False, k, None))) (killRecorded i)"
proof -
  have "killRecorded i (False, fst (recordedForceKill h i w), None) (snd (recordedForceKill h i w))" for w
    by (cases "fst (GetCommandState h i w)"; cases "GetCommandState h i w")
       (auto simp: recordedForceKill_def tryR_def killRecorded_def dest: getState_Inr)
  then show ?thesis by (simp add: ensures_def tryR_def case_prod_beta)
qed

lemma killed_not: "ensures (Pair (u, False, e)) (killRecorded i)"
  by (simp add: ensures_def killRecorded_def)

lemmas killed_steps = killed_read killed_not ensures_steps ensures_tryR

lemma escalate_killed: "ensures (escalateStop h i cfg t) (killRecorded i)"
  unfolding escalateStop_def by (intro killed_steps)

lemma stopLive_killed: "ensures (stopLive h i cfg sig t) (killRecorded i)"
  unfolding stopLive_def by (intro killed_steps escalate_killed)

lemma stop_killed: "ensures (stopReportingUnreachable h i sig t) (killRecorded i)"
  unfolding stopReportingUnreachable_def by (intro killed_steps stopLive_killed)

section \<open>Listing\<close>

lemma map_filter_set: "set (List.map_filter f xs) = {y. \<exists>x \<in> set xs. f x = Some y}"
  by (induction xs) (auto simp: map_filter_simps split: option.splits)

lemma listed_row:
  "e \<in> set (listed a ls st) \<longleftrightarrow> (\<exists>c \<in> set (dbConfig st). \<exists>s. map_of (dbState st) (crID c) = Some s \<and> e = entryOf c s \<and>
     (a \<or> srState s \<in> {EventTypeCreated, EventTypeStarting, EventTypeRunning}) \<and> hasLabels ls (crConfig c))"
  by (auto simp: listed_def map_filter_set split: option.splits if_splits)

lemma distinct_map_filter_ids:
  "distinct (map f xs) \<Longrightarrow> (\<And>x y. g x = Some y \<Longrightarrow> k y = f x) \<Longrightarrow> distinct (map k (List.map_filter g xs))"
  by (induction xs) (auto simp: map_filter_simps map_filter_set image_iff split: option.splits)

lemma distinct_listed: "store_ok st \<Longrightarrow> distinct (map enID (listed a ls st))"
  unfolding listed_def
  by (rule distinct_map_filter_ids [where f = crID])
     (auto simp: store_ok_def entryOf_def distinct_map inj_on_def split: option.splits if_splits)

lemma row_by_id: "store_ok st \<Longrightarrow> c \<in> set (dbConfig st) \<Longrightarrow> c' \<in> set (dbConfig st) \<Longrightarrow> crID c = crID c' \<Longrightarrow> c = c'"
  by (auto simp: store_ok_def distinct_map inj_on_def)

lemma row_by_name:
  "store_ok st \<Longrightarrow> c \<in> set (dbConfig st) \<Longrightarrow> c' \<in> set (dbConfig st) \<Longrightarrow> crName c = Some n \<Longrightarrow> crName c' = Some n \<Longrightarrow> c = c'"
  unfolding store_ok_def namesOf_def distinct_map by (elim conjE) (rule inj_onD [of crName "set (filter (\<lambda>r. crName r \<noteq> None) (dbConfig st))"], auto)

lemma idNamed_row: "store_ok st \<Longrightarrow> idNamed n st = Some i \<longleftrightarrow> (\<exists>c \<in> set (dbConfig st). crName c = Some n \<and> crID c = i)"
proof
  assume "idNamed n st = Some i"
  then obtain c where "find (\<lambda>r. crName r = Some n) (dbConfig st) = Some c" "crID c = i" by (auto simp: idNamed_def)
  then have "c \<in> set (dbConfig st)" "crName c = Some n" "crID c = i" by (auto simp: find_Some_iff)
  then show "\<exists>c \<in> set (dbConfig st). crName c = Some n \<and> crID c = i" by blast
next
  assume ok: "store_ok st" and "\<exists>c \<in> set (dbConfig st). crName c = Some n \<and> crID c = i"
  then obtain c where c: "c \<in> set (dbConfig st)" "crName c = Some n" "crID c = i" by blast
  then obtain d where d: "find (\<lambda>r. crName r = Some n) (dbConfig st) = Some d"
    by (cases "find (\<lambda>r. crName r = Some n) (dbConfig st)") (auto simp: find_None_iff)
  then have "d \<in> set (dbConfig st)" "crName d = Some n" by (auto simp: find_Some_iff)
  with row_by_name [OF ok c(1)] c d show "idNamed n st = Some i" by (simp add: idNamed_def)
qed

section \<open>Properties\<close>


text \<open>C17: A stop that reports no error tells the truth: when it returns, the command is gone, or
  its state says that it exited or failed, or that its monitor died; and it reports that the
  command was killed by force only if the monitor recorded that.\<close>

theorem stop_reports_truth:
  assumes "store_ok (wStore w)" "stop h i sig t w = ((k, err), w')"
  shows "(err = None \<longrightarrow> settledIn i (wStore w')) \<and>
    (k \<longrightarrow> (\<exists>s. map_of (dbState (wStore w')) i = Some s \<and> csForceKilled (srJSON s)))"
proof -
  from assms(2) obtain u where r: "stopReportingUnreachable h i sig t w = ((u, k, err), w')"
    by (auto simp: stop_def tryR_def split: prod.splits)
  show ?thesis using stop_settled [OF _ assms(1)] r ensuresD [OF stop_killed r] by (auto simp: killRecorded_def)
qed

section \<open>Witnesses\<close>

definition plainHost :: Host where
  "plainHost = \<lparr> hoConfig = \<lparr> cfDataDir = ''/d'', cfRuntimeDir = ''/r'', cfConfigPath = [], cfDefaultWorkingDir = ''/'',
       cfDefaultEnvironment = [''A=b''], cfDefaultScrollbackBytes = 8, cfDefaultLogDriver = ''none'' \<rparr>,
     hoFault = (\<lambda>_. None), hoCancel = (\<lambda>_. False), hoMonitor = (\<lambda>t _ r. Some (if t < 20 then r else r\<lparr> srState := EventTypeExited, srExitCode := Some 0 \<rparr>)),
     hoSpawned = (\<lambda>_ _ r. r\<lparr> srState := EventTypeRunning, srJSON := (srJSON r)\<lparr> csSocketPath := ''s'' \<rparr> \<rparr>),
     hoStale = (\<lambda>_ _. Inr False), hoPolls = (\<lambda>_ _. 20), hoRPC = (\<lambda>_. None), hoNow = (\<lambda>_. ''now''), hoID = (\<lambda>t. ''id'' @ itoa (int t)),
     hoSignalName = (\<lambda>n. if n = 15 then ''SIGTERM'' else if n = 9 then ''SIGKILL'' else []),
     hoSignalNum = (\<lambda>s. if s = ''SIGTERM'' then 15 else if s = ''SIGKILL'' then 9 else 0), hoParseBytes = (\<lambda>_. None) \<rparr>"

definition emptyWorld :: World where
  "emptyWorld = \<lparr> wStore = \<lparr> dbConfig = [], dbState = [], dbExit = [] \<rparr>, wDirs = [], wKilled = [], wStops = [], wEmitted = [],
     wDone = False, wTick = 0 \<rparr>"

definition plainRequest :: "string \<Rightarrow> bool \<Rightarrow> CreateRequest" where
  "plainRequest n rep = \<lparr> rqName = n, rqDir = [], rqEnv = [], rqImportHostEnv = None, rqInjectEnv = None, rqAppendEnv = [],
     rqLabels = [(''k'', ''v'')], rqRestartPolicy = RestartPolicyNone, rqMaxRetries = 0, rqStopSignal = [], rqStopTimeout = 0,
     rqStopCommand = [], rqAutoRemove = False, rqTty = False, rqScrollbackBytes = 0, rqLogDriver = [], rqLogOpts = [], rqHooks = [],
     rqArgv = [''true''], rqReplace = rep \<rparr>"


definition runningWorld :: World where
  "runningWorld = svcApply plainHost (OpStart ''web'') (svcApply plainHost (OpCreate (plainRequest ''web'' False)) emptyWorld)"

theorem stop_reports_truth_witness:
  "map_of (dbState (wStore runningWorld)) ''id0'' \<noteq> None \<and> \<not> settledIn ''id0'' (wStore runningWorld) \<and>
   settledIn ''id0'' (wStore (snd (stop plainHost ''id0'' [] None runningWorld)))"
proof -
  let ?s = "stop plainHost ''id0'' [] None runningWorld"
  have ok: "store_ok (wStore runningWorld)" and "snd (fst ?s) = None" by code_simp+
  then obtain k w' where r: "?s = ((k, None), w')" by (metis prod.collapse)
  have "case map_of (dbState (wStore runningWorld)) ''id0'' of None \<Rightarrow> False | Some s \<Rightarrow> \<not> hasEnded (srState s) \<and> \<not> DiedUnexpectedly (srJSON s)"
    by code_simp
  with stop_reports_truth [OF ok r] r show ?thesis by (auto simp: settledIn_def split: option.splits)
qed

end
