(* ===== verification/Cmd_Create.thy ===== *)
theory Cmd_Create
  imports Cmd_Theorems
begin

text \<open>
  Creation of commands: a replacement happens as a whole or not at all, and a plain create does
  not. The state row of a command is inserted after its configuration and its directory, each on its
  own, so that a failure in between leaves a row without a state, which keeps its name from
  every later create and is in no listing.
\<close>

section \<open>Replacement\<close>

lemma filter_unique: "distinct (map f xs) \<Longrightarrow> d \<in> set xs \<Longrightarrow> filter (\<lambda>c. f c = f d) xs = [d]"
  by (induction xs) (auto simp: filter_empty_conv image_iff)

lemma createConfig_Inr:
  assumes "createConfig h req i = Inr cfg"
  shows "rqReplace req \<Longrightarrow> rqName req \<noteq> []" "ccLabels cfg = rqLabels req" "ccAnnotations cfg = ccAnnotations (buildCommandConfig h req)"
    "ccDir cfg = ccDir (buildCommandConfig h req)" "\<not> ccInjectEnv (buildCommandConfig h req) \<Longrightarrow> ccEnv cfg = ccEnv (buildCommandConfig h req)"
proof -
  let ?c = "buildCommandConfig h req"
  show "rqReplace req \<Longrightarrow> rqName req \<noteq> []" using assms by (auto simp: createConfig_def)
  from assms have "bindE (ValidateCreate h ?c) (\<lambda>_. bindE (CommandDir (hoConfig h) i) (\<lambda>dir.
      let cfg = ?c\<lparr> ccCommandDir := dir \<rparr>;
          cfg = (if ccInjectEnv cfg then cfg\<lparr> ccEnv := WithCommandContextEnv (ccEnv cfg) (hoConfig h) i (rqName req) dir \<rparr> else cfg)
      in bindE (CommandConfig_Validate h cfg) (\<lambda>_. Inr cfg))) = Inr cfg"
    unfolding createConfig_def by (cases "rqReplace req \<and> rqName req = []") (simp_all add: Let_def)
  then obtain dir env where cfg: "cfg = ?c\<lparr> ccCommandDir := dir \<rparr> \<or> ccInjectEnv ?c \<and> cfg = ?c\<lparr> ccCommandDir := dir, ccEnv := env \<rparr>"
    by (auto simp: bindE_Inr Let_def split: if_splits)
  have "ccLabels ?c = rqLabels req" by (simp add: buildCommandConfig_def Let_def)
  with cfg show "ccLabels cfg = rqLabels req" "ccAnnotations cfg = ccAnnotations ?c" "ccDir cfg = ccDir ?c"
    "\<not> ccInjectEnv ?c \<Longrightarrow> ccEnv cfg = ccEnv ?c" by auto
qed

lemma Create_cases:
  assumes "Create h req w = (r, w')"
  obtains (invalid) e where "createConfig h req (hoID h (wTick w)) = Inl e" "r = Inl e" "w' = w"
    | (stored) cfg where "createConfig h req (hoID h (wTick w)) = Inr cfg" "storeCommand h req (hoID h (wTick w)) cfg w = (r, w')"
  using assms by (auto simp: Create_def Let_def split: sum.splits)

lemma query_Inl: "query h q w = (Inl e, w') \<Longrightarrow> wStore w' = monitorsAct h (wTick w) (wStore w)"
  by (auto simp: query_def bindR_def outside_def split: prod.splits sum.splits option.splits)

lemma row_query_Inl: "query h q w = (Inl e, w') \<Longrightarrow> sameRow i (wStore w) (wStore w')"
  by (simp add: query_Inl sameRow_monitors)

lemma row_replace_Inl: "ReplaceCommand h old i name cfg w = (Inl e, w') \<Longrightarrow> sameRow j (wStore w) (wStore w')"
  unfolding ReplaceCommand_def by (rule row_query_Inl)

lemma swap_Inl:
  assumes "swapCommand h old i name cfg oldCfg rd w = (Inl e, w')"
  shows "sameRow j (wStore w) (wStore w')"
proof -
  from assms consider e0 where "WriteCommandConfig h (ccCommandDir cfg) cfg w = (Inl e0, w')"
    | w1 e1 w2 where "WriteCommandConfig h (ccCommandDir cfg) cfg w = (Inr (), w1)"
        "ReplaceCommand h old i name cfg w1 = (Inl e1, w2)" "w' = removeDir h (ccCommandDir cfg) w2"
    unfolding swapCommand_def bindR_Inl
    by (auto simp: wrapR_def wrapE_def Let_def elim!: tryR_sumE split: prod.splits sum.splits)
  then show ?thesis
  proof cases
    case 2
    then show ?thesis
      using keepsD [OF row.keeps_WriteCommandConfig] row_replace_Inl row.keeps_removeDir by (metis sameRow_trans)
  qed (use keepsD [OF row.keeps_WriteCommandConfig] in blast)
qed

lemma sameRow_id:
  assumes "sameRow i st st'" "store_ok st" "unattended i st" "idNamed n st = Some i"
  shows "idNamed n st' = Some i" "store_ok st'" "unattended i st'" "rowOf i st' = rowOf i st"
proof -
  from assms(1-3) have r: "rowOf i st' = rowOf i st" and ok: "store_ok st'" by (auto simp: sameRow_def)
  from assms(4) obtain c where "c \<in> set (dbConfig st)" "crName c = Some n" "crID c = i" unfolding idNamed_row [OF assms(2)] by blast
  then have "c \<in> set (fst (rowOf i st))" "crName c = Some n" "crID c = i" by (simp_all add: rowOf_def)
  then show "idNamed n st' = Some i" unfolding r [symmetric] idNamed_row [OF ok] by (auto simp: rowOf_def)
  show "store_ok st'" "rowOf i st' = rowOf i st" by fact+
  show "unattended i st'" using assms(3) unattended_row [OF r] by simp
qed

lemma resolve_named:
  assumes "ResolveIDByName h n w = (r, w')" "store_ok (wStore w)" "unattended i (wStore w)" "idNamed n (wStore w) = Some i"
  shows "r = Inr i \<or> (\<exists>e. r = Inl (ErrFault e))"
proof -
  have "idNamed n (wStore (snd (outside h w))) = Some i"
    using sameRow_id(1) [OF sameRow_monitors assms(2-4)] by simp
  with assms(1) show ?thesis
    by (auto simp: ResolveIDByName_def query_def bindR_def readRow_def outside_def split: prod.splits sum.splits option.splits)
qed

text \<open>The rows after a successful swap.\<close>

definition createdRow :: StateRow where
  "createdRow = \<lparr> srState = EventTypeCreated, srExitCode = None, srJSON = zeroState \<rparr>"

definition swapped :: "string \<Rightarrow> string \<Rightarrow> string \<Rightarrow> CommandConfig \<Rightarrow> Store \<Rightarrow> bool" where
  "swapped old i name cfg st \<longleftrightarrow> store_ok st \<and> map_of (dbState st) i = Some createdRow \<and>
     (\<exists>c \<in> set (dbConfig st). crID c = i \<and> crName c = Some name \<and> crConfig c = cfg) \<and>
     (i \<noteq> old \<longrightarrow> old \<notin> crID ` set (dbConfig st))"

lemma replace_rows:
  assumes "ReplaceCommand h old i name cfg w = (Inr u, w')" "store_ok (wStore w)" "name \<noteq> []"
  shows "swapped old i name cfg (wStore w')"
proof -
  let ?r = "\<lparr> crID = i, crName = nullableString name, crCreatedAt = hoNow h (wTick w), crConfig = cfg \<rparr>"
  from query_write [OF assms(1) [unfolded ReplaceCommand_def]] obtain w0 :: World where o: "outside h w = (Inr (), w0)"
    and q: "bindE (insertConfigRow ?r (deleteCommandRows old (wStore w0))) (insertStateRow i createdRow) = Inr (wStore w')"
    unfolding createdRow_def by blast
  from q obtain st where st: "insertConfigRow ?r (deleteCommandRows old (wStore w0)) = Inr st" "insertStateRow i createdRow st = Inr (wStore w')"
    by (auto simp: bindE_Inr)
  have "store_ok (wStore w0)" using keepsD [OF ok.keeps_outside o] assms(2) by (simp add: okS_def)
  then have "store_ok (wStore w')" using store_ok_insertState [OF store_ok_insert [OF store_ok_delete]] st by blast
  moreover from st have "dbConfig (wStore w') = filter (\<lambda>r. crID r \<noteq> old) (dbConfig (wStore w0)) @ [?r]"
    "dbState (wStore w') = dbState st @ [(i, createdRow)]" "i \<notin> set (keys_of (dbState st))"
    by (auto simp: insertConfigRow_def insertStateRow_def deleteCommandRows_def split: if_splits dest!: sym [of _ "wStore w'"])
  ultimately show ?thesis using assms(3) by (auto simp: swapped_def nullableString_def map_add_def map_of_None_iff [THEN iffD2] split: option.splits)
qed

lemma monitors_ids: "crID ` set (dbConfig (monitorsAct h t st)) \<subseteq> crID ` set (dbConfig st)"
proof -
  have "crID ` set (dbConfig (monitorAct h t x st')) \<subseteq> crID ` set (dbConfig st')" for x st'
    by (cases x) (auto simp: monitorAct_def deleteCommandRows_def split: option.split)
  then have "crID ` set (dbConfig (fold (monitorAct h t) xs st')) \<subseteq> crID ` set (dbConfig st')" for xs st'
    by (induction xs arbitrary: st') (simp, force)
  then show ?thesis by (simp add: monitorsAct_def)
qed

lemma swapped_monitors: "swapped old i name cfg st \<Longrightarrow> swapped old i name cfg (monitorsAct h t st)"
proof -
  assume s: "swapped old i name cfg st"
  then have un: "store_ok st" "unattended i st" by (auto simp: swapped_def unattended_def createdRow_def isLive_def)
  then have r: "rowOf i (monitorsAct h t st) = rowOf i st" and ok: "store_ok (monitorsAct h t st)"
    using sameRow_monitors [of i st h t] by (auto simp: sameRow_def)
  from s obtain c where c: "c \<in> set (dbConfig st)" "crID c = i" "crName c = Some name" "crConfig c = cfg" by (auto simp: swapped_def)
  then have "c \<in> set (fst (rowOf i (monitorsAct h t st)))" unfolding r by (simp add: rowOf_def)
  then have "c \<in> set (dbConfig (monitorsAct h t st))" by (simp add: rowOf_def)
  with s c r ok monitors_ids [of h t st] show ?thesis by (auto simp: swapped_def rowOf_def)
qed

lemma swapped_removeDir: "swapped old i name cfg (wStore w) \<Longrightarrow> swapped old i name cfg (wStore (removeDir h d w))"
  using swapped_monitors by (auto simp: removeDir_def outside_def split: sum.split option.split)

lemma swap_Inr:
  assumes "swapCommand h old i name cfg oldCfg rd w = (Inr u, w')" "store_ok (wStore w)" "name \<noteq> []"
  shows "swapped old i name cfg (wStore w')"
proof -
  from assms(1) obtain w1 where wr: "WriteCommandConfig h (ccCommandDir cfg) cfg w = (Inr (), w1)"
    and t: "tryR (ReplaceCommand h old i name cfg) (\<lambda>r w. case r of
         Inl e \<Rightarrow> (Inl (ErrWrap ''replace'' e), removeDir h (ccCommandDir cfg) w)
       | Inr _ \<Rightarrow>
           let w = (if ccCommandDir oldCfg \<noteq> [] then removeDir h (ccCommandDir oldCfg) w else w)
           in (Inr (), emitEvent EventTypeRemoved old (removeDir h rd w))) w1 = (Inr u, w')"
    by (auto simp: swapCommand_def bindR_Inr wrapR_def wrapE_def split: prod.splits sum.splits)
  have ok: "store_ok (wStore w1)" using keepsD [OF ok.keeps_WriteCommandConfig wr] assms(2) by (simp add: okS_def)
  from t show ?thesis
    by (cases rule: tryR_sumE) (auto simp: Let_def intro!: swapped_removeDir dest!: replace_rows [OF _ ok assms(3)] split: if_splits)
qed

text \<open>All or nothing, seen from a store.\<close>

definition allOrNothing :: "string \<Rightarrow> string \<Rightarrow> string \<Rightarrow> CommandConfig \<Rightarrow> Store \<Rightarrow> SvcErr + 'a \<Rightarrow> World \<Rightarrow> bool" where
  "allOrNothing old i name cfg st r w' \<longleftrightarrow>
     (case r of Inl e \<Rightarrow> sameRow old st (wStore w') | Inr _ \<Rightarrow> swapped old i name cfg (wStore w'))"

lemma atomic_bind:
  assumes "bindR f g w = (r, w')" "keeps (sameRow old) f" "keeps okS f" "store_ok (wStore w)"
    and "\<And>x w1. f w = (Inr x, w1) \<Longrightarrow> g x w1 = (r, w') \<Longrightarrow> store_ok (wStore w1) \<Longrightarrow> allOrNothing old i name cfg (wStore w1) r w'"
  shows "allOrNothing old i name cfg (wStore w) r w'"
proof (cases "fst (f w)")
  case (Inl e)
  with assms(1) have "f w = (Inl e, w')" "r = Inl e" by (auto simp: bindR_def split: prod.splits)
  with keepsD [OF assms(2)] show ?thesis by (auto simp: allOrNothing_def)
next
  case (Inr x)
  with assms(1) obtain w1 where w1: "f w = (Inr x, w1)" "g x w1 = (r, w')" by (auto simp: bindR_def split: prod.splits)
  have "store_ok (wStore w1)" using keepsD [OF assms(3) w1(1)] assms(4) by (simp add: okS_def)
  from assms(5) [OF w1 this] keepsD [OF assms(2) w1(1)] show ?thesis
    by (auto simp: allOrNothing_def intro: sameRow_trans split: sum.splits)
qed

lemma atomic_err: "allOrNothing old i name cfg (wStore w) (Inl e) w"
  by (simp add: allOrNothing_def row.S_refl)

lemma swap_atomic:
  "swapCommand h old i name cfg oldCfg rd w = (r, w') \<Longrightarrow> store_ok (wStore w) \<Longrightarrow> name \<noteq> [] \<Longrightarrow> allOrNothing old i name cfg (wStore w) r w'"
  by (cases r) (auto simp: allOrNothing_def intro: swap_Inl swap_Inr)

lemma replaceOrInsert_atomic:
  assumes "replaceOrInsertCommand h i name cfg w = (r, w')" "store_ok (wStore w)" "unattended old (wStore w)"
    and "idNamed name (wStore w) = Some old" "name \<noteq> []"
  shows "allOrNothing old i name cfg (wStore w) r w'"
  using assms(1) unfolding replaceOrInsertCommand_def
proof (cases rule: tryR_sumE)
  case (Inl e w1)
  have "\<not> errorsIs e ErrNoRows" using resolve_named [OF Inl(1) assms(2-4)] by auto
  with Inl keepsD [OF row.keeps_ResolveIDByName Inl(1), of old] show ?thesis by (auto simp: allOrNothing_def)
next
  case (Inr j w1)
  have j: "j = old" using resolve_named [OF Inr(1) assms(2-4)] by auto
  have ok: "store_ok (wStore w1)" using keepsD [OF ok.keeps_ResolveIDByName Inr(1)] assms(2) by (simp add: okS_def)
  from Inr(2) j have "bindR (wrapR (ErrWrap ''get state'') (GetCommandState h old)) (\<lambda>s.
      if isLive (srState s) then Pair (Inl (ErrText ''stop it before replacing''))
      else bindR (wrapR (ErrWrap ''get config'') (GetCommandConfig h old)) (\<lambda>(_, _, oldCfg).
        case MonitorRuntimeDir (hoConfig h) old of Inl e \<Rightarrow> Pair (Inl e) | Inr rd \<Rightarrow> swapCommand h old i name cfg oldCfg rd)) w1 = (r, w')"
    by simp
  then have "allOrNothing old i name cfg (wStore w1) r w'"
  proof (rule atomic_bind [OF _ row.keeps_wrapR [OF row.keeps_GetCommandState] ok.keeps_wrapR [OF ok.keeps_GetCommandState] ok])
    fix s w2
    assume k: "(if isLive (srState s) then Pair (Inl (ErrText ''stop it before replacing''))
      else bindR (wrapR (ErrWrap ''get config'') (GetCommandConfig h old)) (\<lambda>(_, _, oldCfg).
        case MonitorRuntimeDir (hoConfig h) old of Inl e \<Rightarrow> Pair (Inl e) | Inr rd \<Rightarrow> swapCommand h old i name cfg oldCfg rd)) w2 = (r, w')"
      and ok2: "store_ok (wStore w2)"
    show "allOrNothing old i name cfg (wStore w2) r w'"
    proof (cases "isLive (srState s)")
      case False
      with k have "bindR (wrapR (ErrWrap ''get config'') (GetCommandConfig h old)) (\<lambda>(_, _, oldCfg).
          case MonitorRuntimeDir (hoConfig h) old of Inl e \<Rightarrow> Pair (Inl e) | Inr rd \<Rightarrow> swapCommand h old i name cfg oldCfg rd) w2 = (r, w')"
        by simp
      then show ?thesis
      proof (rule atomic_bind [OF _ row.keeps_wrapR [OF row.keeps_GetCommandConfig] ok.keeps_wrapR [OF ok.keeps_GetCommandConfig] ok2])
        show "(case x of (_, _, oldCfg) \<Rightarrow> case MonitorRuntimeDir (hoConfig h) old of
            Inl e \<Rightarrow> Pair (Inl e) | Inr rd \<Rightarrow> swapCommand h old i name cfg oldCfg rd) w3 = (r, w') \<Longrightarrow> store_ok (wStore w3) \<Longrightarrow>
            allOrNothing old i name cfg (wStore w3) r w'" for x w3
          using swap_atomic [OF _ _ assms(5)] atomic_err by (cases x; cases "MonitorRuntimeDir (hoConfig h) old") auto
      qed
    qed (use k atomic_err in auto)
  qed
  with keepsD [OF row.keeps_ResolveIDByName Inr(1), of old] show ?thesis
    by (auto simp: allOrNothing_def intro: sameRow_trans split: sum.splits)
qed

text \<open>C18: A create that replaces an existing command that is not running does so as a whole or not
  at all: when it fails, at whatever step, the rows of the existing command are as they were; when it
  succeeds, the name belongs to the new command with the requested labels, in state created, and
  the old command is gone.\<close>

theorem replace_atomic:
  assumes "store_ok (wStore w)" "rqReplace req" "idNamed (rqName req) (wStore w) = Some old" "unattended old (wStore w)"
    and "Create h req w = (r, w')"
  shows "case r of
      Inl e \<Rightarrow> rowOf old (wStore w') = rowOf old (wStore w)
    | Inr i \<Rightarrow> i = hoID h (wTick w) \<and> idNamed (rqName req) (wStore w') = Some i \<and>
        (\<exists>c. fst (rowOf i (wStore w')) = [c] \<and> ccLabels (crConfig c) = rqLabels req) \<and>
        snd (rowOf i (wStore w')) = Some createdRow \<and> (i \<noteq> old \<longrightarrow> fst (rowOf old (wStore w')) = [])"
  using assms(5)
proof (cases rule: Create_cases)
  case (stored cfg)
  let ?i = "hoID h (wTick w)"
  note c = createConfig_Inr(2) [OF stored(1)] createConfig_Inr(1) [OF stored(1) assms(2)] stored(2)
  have atomic: "allOrNothing old ?i (rqName req) cfg (wStore w) r w'"
    using c(3) unfolding storeCommand_def
  proof (rule atomic_bind [OF _ row.keeps_openStore ok.keeps_openStore assms(1)])
    fix x w1
    assume o: "openStore h w = (Inr x, w1)" and ok1: "store_ok (wStore w1)"
      and b: "bindR (if rqReplace req then replaceOrInsertCommand h ?i (rqName req) cfg else insertCommand h ?i (rqName req) cfg)
        (\<lambda>_ w. (Inr ?i, emitEvent EventTypeCreated ?i w)) w1 = (r, w')"
    note k = sameRow_id [OF keepsD [OF row.keeps_openStore o] assms(1,4,3)]
    obtain r1 w2 where p: "replaceOrInsertCommand h ?i (rqName req) cfg w1 = (r1, w2)" by (metis surj_pair)
    from b p assms(2) have "r = (case r1 of Inl e \<Rightarrow> Inl e | Inr _ \<Rightarrow> Inr ?i)" "wStore w' = wStore w2"
      by (auto simp: bindR_def split: sum.splits)
    with replaceOrInsert_atomic [OF p ok1 k(3,1) c(2)]
    show "allOrNothing old ?i (rqName req) cfg (wStore w1) r w'" by (auto simp: allOrNothing_def split: sum.splits)
  qed
  show ?thesis
  proof (cases r)
    case (Inl e)
    with atomic assms(1,4) show ?thesis by (simp add: allOrNothing_def sameRow_def)
  next
    case (Inr j)
    then have j: "j = ?i" using c(3) by (auto simp: storeCommand_def bindR_Inr)
    from Inr atomic have s: "swapped old ?i (rqName req) cfg (wStore w')" by (simp add: allOrNothing_def)
    then obtain d where d: "d \<in> set (dbConfig (wStore w'))" "crID d = ?i" "crName d = Some (rqName req)" "crConfig d = cfg"
      and ok: "store_ok (wStore w')" by (auto simp: swapped_def)
    have "filter (\<lambda>c. crID c = ?i) (dbConfig (wStore w')) = [d]"
      using filter_unique [of crID _ d] ok d(1) unfolding store_ok_def d(2) by blast
    moreover have "idNamed (rqName req) (wStore w') = Some ?i" unfolding idNamed_row [OF ok] using d by blast
    ultimately show ?thesis using s Inr c(1) d(4) by (auto simp: j rowOf_def swapped_def filter_empty_conv)
  qed
qed simp

section \<open>A create that fails half-way\<close>

definition torn :: "string \<Rightarrow> Store \<Rightarrow> bool" where
  "torn n st \<longleftrightarrow> (\<exists>c \<in> set (dbConfig st). crName c = Some n \<and> crID c \<notin> set (keys_of (dbState st)))"

lemma torn_row:
  assumes "sameRow (crID c) st st'" "store_ok st" "c \<in> set (dbConfig st)" "crName c = Some n" "crID c \<notin> set (keys_of (dbState st))"
  shows "store_ok st' \<and> c \<in> set (dbConfig st') \<and> crID c \<notin> set (keys_of (dbState st'))"
proof -
  have none: "map_of (dbState st) (crID c) = None" using assms(5) by (simp add: map_of_None_iff)
  with assms(1,2) have r: "rowOf (crID c) st' = rowOf (crID c) st" and ok: "store_ok st'" by (auto simp: sameRow_def unattended_def)
  have "c \<in> set (fst (rowOf (crID c) st'))" unfolding r using assms(3) by (simp add: rowOf_def)
  then have "c \<in> set (dbConfig st')" by (simp add: rowOf_def)
  with r none ok show ?thesis by (auto simp: rowOf_def map_of_None_iff)
qed

definition refuses :: "string \<Rightarrow> (World \<Rightarrow> (SvcErr + 'a) \<times> World) \<Rightarrow> World \<Rightarrow> bool" where
  "refuses i f w \<longleftrightarrow> isl (fst (f w)) \<and> sameRow i (wStore w) (wStore (snd (f w)))"

lemma refuses_first: "refuses i f w \<Longrightarrow> refuses i (bindR f g) w"
  by (auto simp: refuses_def bindR_def split: prod.splits sum.splits)

lemma refuses_wrapR: "refuses i f w \<Longrightarrow> refuses i (wrapR k f) w"
  by (auto simp: refuses_def wrapR_def wrapE_def split: prod.splits sum.splits)

lemma refuses_later:
  assumes "keeps (sameRow i) f" "\<And>x w1. f w = (Inr x, w1) \<Longrightarrow> refuses i (g x) w1"
  shows "refuses i (bindR f g) w"
proof (cases "f w")
  case (Pair r w1)
  from keepsD [OF assms(1) Pair] assms(2) [of _ w1] Pair show ?thesis
    by (cases r) (auto simp: refuses_def bindR_def intro: sameRow_trans)
qed

lemma refuses_query:
  assumes "\<And>x. q (monitorsAct h (wTick w) (wStore w)) \<noteq> Inr x"
  shows "refuses i (query h q) w"
proof (cases "query h q w")
  case (Pair r w')
  with assms have "\<exists>e. r = Inl e"
    by (auto simp: query_def bindR_def outside_def split: prod.splits sum.splits option.splits)
  with Pair row_query_Inl show ?thesis by (auto simp: refuses_def)
qed

lemma insert_refused:
  assumes "store_ok (wStore w)" "unattended i (wStore w)" "idNamed n (wStore w) = Some i" "n \<noteq> []"
  shows "refuses i (insertCommand h j n cfg) w"
proof -
  let ?st = "monitorsAct h (wTick w) (wStore w)"
  note k = sameRow_id [OF sameRow_monitors assms(1-3), where h1 = h and t1 = "wTick w"]
  obtain c where "c \<in> set (dbConfig ?st)" "crName c = Some n" using k(1) unfolding idNamed_row [OF k(2)] by blast
  then have "writeRow (insertConfigRow r) ?st \<noteq> Inr x" if "crName r = Some n" for r x
    using that by (auto simp: writeRow_def insertConfigRow_def image_iff)
  then have "refuses i (query h (writeRow (insertConfigRow r))) w" if "crName r = Some n" for r
    using that by (intro refuses_query) blast
  then have "refuses i (InsertCommandConfig h j n cfg) w"
    using assms(4) by (simp add: InsertCommandConfig_def refuses_def nullableString_def)
  then show ?thesis unfolding insertCommand_def by (intro refuses_first refuses_wrapR)
qed

lemma replace_refused:
  assumes "store_ok (wStore w)" "map_of (dbState (wStore w)) i = None" "idNamed n (wStore w) = Some i"
  shows "refuses i (replaceOrInsertCommand h j n cfg) w"
proof -
  have un: "unattended i (wStore w)" using assms(2) by (simp add: unattended_def)
  obtain r w1 where r: "ResolveIDByName h n w = (r, w1)" by (metis surj_pair)
  note s1 = keepsD [OF row.keeps_ResolveIDByName r, of i]
  note k = sameRow_id [OF s1 assms(1) un assms(3)]
  from resolve_named [OF r assms(1) un assms(3)] show ?thesis
  proof
    assume j: "r = Inr i"
    have "map_of (dbState (wStore w1)) i = None" using k(4) assms(2) by (simp add: rowOf_def)
    then have "map_of (dbState (monitorsAct h (wTick w1) (wStore w1))) i = None"
      using rowOf_monitors [of "wStore w1" i h "wTick w1"] k(2,3) by (simp add: rowOf_def store_ok_def)
    then have "refuses i (GetCommandState h i) w1"
      unfolding GetCommandState_def by (intro refuses_query) (simp add: readRow_def)
    then have "refuses i (\<lambda>w. bindR (wrapR (ErrWrap ''get state'') (GetCommandState h i)) g w) w1" for g :: "StateRow \<Rightarrow> World \<Rightarrow> (SvcErr + unit) \<times> World"
      by (intro refuses_first refuses_wrapR)
    with j r s1 show ?thesis by (auto simp: refuses_def replaceOrInsertCommand_def tryR_def intro: sameRow_trans)
  next
    assume "\<exists>e. r = Inl (ErrFault e)"
    with r s1 show ?thesis by (auto simp: refuses_def replaceOrInsertCommand_def tryR_def)
  qed
qed

text \<open>C19: The failure that leaves a configuration row without its state is not undone: from then on every
  create of that name fails, with or without replacement, whatever the host does, and leaves the
  row in place, while no listing shows it.\<close>

theorem torn_create_blocks_name:
  assumes "store_ok (wStore w)" "torn n (wStore w)" "n \<noteq> []" "rqName req = n"
  shows "isl (fst (Create h req w)) \<and> torn n (wStore (snd (Create h req w))) \<and>
    (\<forall>e \<in> set (listed a ls (wStore w)). enName e \<noteq> n)"
proof -
  from assms(2) obtain c where c: "c \<in> set (dbConfig (wStore w))" "crName c = Some n" "crID c \<notin> set (keys_of (dbState (wStore w)))"
    by (auto simp: torn_def)
  have un: "unattended (crID c) (wStore w)" using c(3) by (simp add: unattended_def map_of_None_iff [THEN iffD2])
  have named: "idNamed n (wStore w) = Some (crID c)" unfolding idNamed_row [OF assms(1)] using c by blast
  have "enName e \<noteq> n" if "e \<in> set (listed a ls (wStore w))" for e
  proof
    assume "enName e = n"
    with that obtain d s where "d \<in> set (dbConfig (wStore w))" "map_of (dbState (wStore w)) (crID d) = Some s" "crName d = Some n"
      using assms(3) by (auto simp: listed_row entryOf_def split: option.splits)
    with row_by_name [OF assms(1) c(1)] c(2,3) show False by (auto simp: map_of_None_iff [THEN iffD2])
  qed
  moreover obtain r w' where r: "Create h req w = (r, w')" by (metis surj_pair)
  moreover have "isl r \<and> sameRow (crID c) (wStore w) (wStore w')"
    using r
  proof (cases rule: Create_cases)
    case (stored cfg)
    let ?i = "hoID h (wTick w)"
    have "refuses (crID c) (storeCommand h req ?i cfg) w" unfolding storeCommand_def
    proof (rule refuses_later [OF row.keeps_openStore])
      fix x w1
      assume o: "openStore h w = (Inr x, w1)"
      note k = sameRow_id [OF keepsD [OF row.keeps_openStore o] assms(1) un named]
      have "map_of (dbState (wStore w1)) (crID c) = None" using k(4) c(3) by (simp add: rowOf_def map_of_None_iff [THEN iffD2])
      then show "refuses (crID c) (bindR (if rqReplace req then replaceOrInsertCommand h ?i (rqName req) cfg
          else insertCommand h ?i (rqName req) cfg) (\<lambda>_ w. (Inr ?i, emitEvent EventTypeCreated ?i w))) w1"
        using replace_refused [OF k(2) _ k(1)] insert_refused [OF k(2,3,1) assms(3)] assms(4) by (auto intro!: refuses_first)
    qed
    with stored(2) show ?thesis by (simp add: refuses_def)
  qed (simp add: row.S_refl)
  ultimately show ?thesis using torn_row [OF _ assms(1) c(1) c(2) c(3)] c(2) by (auto simp: torn_def)
qed

section \<open>Witnesses\<close>

text \<open>The call that writes the directory of the first create fails.\<close>

definition tornWorld :: World where
  "tornWorld = snd (Create (plainHost\<lparr> hoFault := (\<lambda>t. if t = 2 then Some ''disk full'' else None) \<rparr>) (plainRequest ''web'' False) emptyWorld)"

theorem torn_create_blocks_name_witness:
  "isl (fst (Create plainHost (plainRequest ''web'' True) tornWorld)) \<and> isl (fst (Create plainHost (plainRequest ''web'' False) tornWorld))"
proof -
  have "store_ok (wStore tornWorld)" "torn ''web'' (wStore tornWorld)" by code_simp+
  then show ?thesis
    using torn_create_blocks_name [of tornWorld "''web''" "plainRequest ''web'' True" plainHost]
      torn_create_blocks_name [of tornWorld "''web''" "plainRequest ''web'' False" plainHost] by (simp add: plainRequest_def)
qed

definition webCreated :: World where
  "webCreated = snd (Create plainHost (plainRequest ''web'' False) emptyWorld)"

theorem replace_atomic_witness:
  "idNamed ''web'' (wStore (snd (Create plainHost (plainRequest ''web'' True) webCreated))) = Some ''id4'' \<and>
   fst (rowOf ''id0'' (wStore (snd (Create plainHost (plainRequest ''web'' True) webCreated)))) = []"
proof -
  have "store_ok (wStore webCreated)" "idNamed ''web'' (wStore webCreated) = Some ''id0''" "unattended ''id0'' (wStore webCreated)"
    "fst (Create plainHost (plainRequest ''web'' True) webCreated) = Inr ''id4''" "rqReplace (plainRequest ''web'' True)"
    "rqName (plainRequest ''web'' True) = ''web''"
    by code_simp+
  then show ?thesis
    using replace_atomic [of webCreated "plainRequest ''web'' True" "''id0''" plainHost "Inr ''id4''"
        "snd (Create plainHost (plainRequest ''web'' True) webCreated)"] by (auto simp: prod_eq_iff)
qed

end
