(* ===== verification/Hook_Frame.thy ===== *)
theory Hook_Frame
  imports Hook_Runner Cmd_Create
begin

text \<open>
  What operations on other commands leave of a resource holder. Ids are 32 hexadecimal digits and no
  name looks like one, so an id resolves to itself or to nothing; a holder is never started, so
  no monitor writes its rows. Both frames of the service have an instance on that relation.
\<close>

section \<open>Ids\<close>

definition hexDigits :: string where "hexDigits = ''0123456789abcdef''"

definition idLike :: "string \<Rightarrow> bool" where
  "idLike s \<longleftrightarrow> length s = 32 \<and> list_all (\<lambda>c. c \<in> set hexDigits) s"

definition idsApart :: "Store \<Rightarrow> bool" where
  "idsApart st \<longleftrightarrow> list_all (\<lambda>c. idLike (crID c) \<and> (case crName c of None \<Rightarrow> True | Some n \<Rightarrow> \<not> idLike n)) (dbConfig st)"

lemma hex_like: "p \<in> set hexDigits \<Longrightarrow> c \<in> set hexDigits \<Longrightarrow> toUpper [p] = toUpper [c] \<Longrightarrow> p = c"
proof -
  have "list_all (\<lambda>p. list_all (\<lambda>c. toUpper [p] = toUpper [c] \<longrightarrow> p = c) hexDigits) hexDigits" by code_simp
  then show "p \<in> set hexDigits \<Longrightarrow> c \<in> set hexDigits \<Longrightarrow> toUpper [p] = toUpper [c] \<Longrightarrow> p = c" by (simp add: list_all_iff)
qed

lemma hex_no_wildcard: "p \<in> set hexDigits \<Longrightarrow> p \<noteq> CHR ''%'' \<and> p \<noteq> CHR ''_''"
  by (auto simp: hexDigits_def)

lemma sqlLike_hex:
  "length s = length t \<Longrightarrow> list_all (\<lambda>c. c \<in> set hexDigits) s \<Longrightarrow> list_all (\<lambda>c. c \<in> set hexDigits) t \<Longrightarrow> sqlLike (s @ ''%'') t \<Longrightarrow> t = s"
proof (induction s t rule: list_induct2)
  case (Cons p s c t)
  then have "toUpper [p] = toUpper [c] \<and> sqlLike (s @ ''%'') t"
    using hex_no_wildcard [of p] by (auto split: if_splits)
  with Cons hex_like [of p c] show ?case by simp
qed simp

lemma sqlLike_id: "idLike s \<Longrightarrow> idLike t \<Longrightarrow> sqlLike (s @ ''%'') t \<Longrightarrow> t = s"
  by (rule sqlLike_hex) (simp_all add: idLike_def)

lemma idsApart_row: "idsApart st \<Longrightarrow> c \<in> set (dbConfig st) \<Longrightarrow> idLike (crID c) \<and> (\<forall>n. crName c = Some n \<longrightarrow> \<not> idLike n)"
  by (auto simp: idsApart_def list_all_iff split: option.splits)

lemma monitors_rows: "set (dbConfig (monitorsAct h t st)) \<subseteq> set (dbConfig st)"
proof -
  have "set (dbConfig (monitorAct h t x st')) \<subseteq> set (dbConfig st')" for x st'
    by (cases x) (auto simp: monitorAct_def deleteCommandRows_def split: option.split)
  then have "set (dbConfig (fold (monitorAct h t) xs st')) \<subseteq> set (dbConfig st')" for xs st'
    by (induction xs arbitrary: st') (simp, force)
  then show ?thesis by (simp add: monitorsAct_def)
qed

lemma idsApart_subset: "idsApart st \<Longrightarrow> set (dbConfig st') \<subseteq> set (dbConfig st) \<Longrightarrow> idsApart st'"
  by (auto simp: idsApart_def list_all_iff)

lemmas idsApart_monitors = idsApart_subset [OF _ monitors_rows]

text \<open>A read happens in some later store of the same rows.\<close>

lemma query_read:
  assumes "query h q w = (r, w')" "idsApart (wStore w)" "\<And>st x st'. q st = Inr (x, st') \<Longrightarrow> st' = st"
  shows "idsApart (wStore w')" "r = Inr x \<Longrightarrow> q (wStore w') = Inr (x, wStore w')"
proof -
  obtain r0 and w0 :: World where o: "outside h w = (r0, w0)" by (metis surj_pair)
  then have "wStore w0 = monitorsAct h (wTick w) (wStore w)" by (metis outside_fields(1) snd_conv)
  then have "idsApart (wStore w0)" using idsApart_monitors [OF assms(2)] by simp
  moreover have "(\<exists>e. r = Inl e) \<and> wStore w' = wStore w0 \<or> (\<exists>x st. r = Inr x \<and> q (wStore w0) = Inr (x, st) \<and> wStore w' = st)"
    using assms(1) o by (cases r0) (auto simp: query_def bindR_def split: sum.splits)
  ultimately show "idsApart (wStore w')" "r = Inr x \<Longrightarrow> q (wStore w') = Inr (x, wStore w')" using assms(3) by auto metis+
qed

lemma query_row:
  assumes "query h (readRow f) w = (r, w')" "idsApart (wStore w)"
  shows "idsApart (wStore w')" "r = Inr x \<Longrightarrow> f (wStore w') = Some x"
  using query_read [OF assms] readRow_store by metis+

lemma query_rows:
  assumes "query h (\<lambda>st. Inr (f st, st)) w = (r, w')" "idsApart (wStore w)"
  shows "idsApart (wStore w')" "r = Inr x \<Longrightarrow> x = f (wStore w')"
  using query_read [OF assms] by auto

lemma resolve_id:
  assumes "ResolveID h s w = (Inr j, w')" "idLike s" "idsApart (wStore w)"
  shows "j = s"
proof -
  have name: "idsApart (wStore b) \<and> (\<forall>k. r \<noteq> Inr k)" if "ResolveIDByName h s a = (r, b)" "idsApart (wStore a)" for r a b
  proof -
    note q = query_row [OF that(1) [unfolded ResolveIDByName_def] that(2)]
    have "idNamed s (wStore b) = None"
      using idsApart_row [OF q(1)] assms(2) by (auto simp: idNamed_def find_None_iff)
    with q show ?thesis by auto
  qed
  have byID: "idsApart (wStore b) \<and> (\<forall>k. r = Inr k \<longrightarrow> k = s)" if "ResolveIDByID h s a = (r, b)" "idsApart (wStore a)" for r a b
  proof -
    note q = query_row [OF that(1) [unfolded ResolveIDByID_def] that(2)]
    have "map_option crID (configRow (wStore b) s) = Some k \<Longrightarrow> k = s" for k by (auto simp: configRow_def find_Some_iff)
    with q show ?thesis by blast
  qed
  have prefix: "\<forall>k \<in> set ms. k = s" if "ResolveIDByPrefix h s a = (Inr ms, b)" "idsApart (wStore a)" for ms a b
    using query_rows [OF that(1) [unfolded ResolveIDByPrefix_def] that(2)] sqlLike_id [OF assms(2)] idsApart_row by auto
  from assms(1) show ?thesis unfolding ResolveID_def
  proof (cases rule: tryR_sumE)
    case (Inl e w1)
    then have "tryR (ResolveIDByID h s) (\<lambda>r. case r of Inr i \<Rightarrow> Pair (Inr i) | Inl _ \<Rightarrow>
       bindR (ResolveIDByPrefix h s) (\<lambda>ms. Pair (case ms of [] \<Rightarrow> Inl (ErrText ''no command found'') | [i] \<Rightarrow> Inr i
         | _ \<Rightarrow> Inl (ErrText ''ambiguous ID prefix'')))) w1 = (Inr j, w')" and ok: "idsApart (wStore w1)"
      using name [OF Inl(1) assms(3)] by simp_all
    then show ?thesis
    proof (cases rule: tryR_sumE)
      case (Inl e w2)
      then obtain ms w3 where ms: "ResolveIDByPrefix h s w2 = (Inr ms, w3)" and "(case ms of [] \<Rightarrow> Inl (ErrText ''no command found'') | [i] \<Rightarrow> Inr i
          | _ \<Rightarrow> Inl (ErrText ''ambiguous ID prefix'')) = Inr j" by (auto simp: bindR_Inr)
      then have "ms = [j]" by (auto split: list.splits)
      with prefix [OF ms] byID [OF Inl(1) ok] show ?thesis by simp
    qed (use byID ok in auto)
  qed (use name assms(3) in auto)
qed

section \<open>The relation\<close>

definition holderRow :: "ConfigRow list \<times> StateRow option \<Rightarrow> bool" where
  "holderRow = (\<lambda>(cs, s). (\<exists>c \<in> set cs. map_of (ccLabels (crConfig c)) LabelIntermediate = Some IntermediateHolder) \<and>
     (case s of None \<Rightarrow> False | Some r \<Rightarrow> \<not> isLive (srState r)))"

definition heldIn :: "string \<Rightarrow> Store \<Rightarrow> bool" where
  "heldIn i st \<longleftrightarrow> store_ok st \<and> idsApart st \<and> holderRow (rowOf i st)"

definition heldS :: "string \<Rightarrow> Store \<Rightarrow> Store \<Rightarrow> bool" where
  "heldS i st st' \<longleftrightarrow> (heldIn i st \<longrightarrow> heldIn i st' \<and> rowOf i st' = rowOf i st)"

lemma heldS_I: "(heldIn i st \<Longrightarrow> store_ok st' \<and> idsApart st' \<and> rowOf i st' = rowOf i st) \<Longrightarrow> heldS i st st'"
  by (simp add: heldS_def heldIn_def)

lemma held_unattended: "heldIn i st \<Longrightarrow> store_ok st \<and> idsApart st \<and> unattended i st"
  by (auto simp: heldIn_def holderRow_def rowOf_def unattended_def split: option.splits)

lemma held_id: "heldIn i st \<Longrightarrow> i \<in> crID ` set (dbConfig st) \<and> i \<in> set (keys_of (dbState st))"
  by (force simp: heldIn_def holderRow_def rowOf_def split: option.splits dest: map_of_SomeD)

lemma heldS_monitors: "heldS i st (monitorsAct h t st)"
  using sameRow_monitors [of i st h t] idsApart_monitors by (intro heldS_I) (auto dest!: held_unattended simp: sameRow_def)

lemma heldS_trans: "heldS i a b \<Longrightarrow> heldS i b c \<Longrightarrow> heldS i a c"
  by (auto simp: heldS_def)

interpretation held: store_frame h "heldS i" for h i
  by unfold_locales (auto simp: heldS_monitors heldS_def [of i st st for st] intro: heldS_trans)

text \<open>Operations on another command.\<close>

definition apartS :: "string \<Rightarrow> string \<Rightarrow> Store \<Rightarrow> Store \<Rightarrow> bool" where
  "apartS i j st st' \<longleftrightarrow> (j \<noteq> i \<longrightarrow> heldS i st st')"

lemma heldS_update: "j \<noteq> i \<Longrightarrow> heldS i st (st\<lparr> dbState := amodify j f (dbState st) \<rparr>)"
  by (rule heldS_I) (auto dest: held_unattended simp: rowOf_amodify store_ok_update idsApart_def)

lemma heldS_delete: "j \<noteq> i \<Longrightarrow> heldS i st (deleteCommandRows j st)"
proof (rule heldS_I)
  assume "j \<noteq> i" "heldIn i st"
  moreover have "set (dbConfig (deleteCommandRows j st)) \<subseteq> set (dbConfig st)" by (auto simp: deleteCommandRows_def)
  ultimately show "store_ok (deleteCommandRows j st) \<and> idsApart (deleteCommandRows j st) \<and> rowOf i (deleteCommandRows j st) = rowOf i st"
    using held_unattended idsApart_subset store_ok_delete rowOf_delete by blast
qed

interpretation apart: command_frame h "apartS i j" j for h i j
  by unfold_locales
     (auto simp: apartS_def heldS_update heldS_delete held.S_refl held.S_monitors intro: heldS_trans)

lemma apartD: "keeps (apartS i j) f \<Longrightarrow> j \<noteq> i \<Longrightarrow> keeps (heldS i) f"
  by (simp add: keeps_def apartS_def)

text \<open>Where the rest of an effect may assume that the holder is there.\<close>

lemma held_bindR:
  assumes "keeps (heldS i) f" "\<And>x w w'. heldIn i (wStore w) \<Longrightarrow> f w = (Inr x, w') \<Longrightarrow> keeps (heldS i) (g x)"
  shows "keeps (heldS i) (bindR f g)"
proof (rule keepsI)
  fix w
  obtain r w' where f: "f w = (r, w')" by (metis surj_pair)
  show "heldS i (wStore w) (wStore (snd (bindR f g w)))"
  proof (cases "heldIn i (wStore w)")
    case True
    have "keeps (heldS i) (g x)" if "r = Inr x" for x using assms(2) [OF True] f that by simp
    with keepsD [OF assms(1) f] f show ?thesis
      by (cases r) (auto simp: bindR_def keeps_def intro: heldS_trans)
  qed (simp add: heldS_def)
qed

lemma held_tryR:
  assumes "keeps (heldS i) f" "\<And>x w w'. heldIn i (wStore w) \<Longrightarrow> f w = (x, w') \<Longrightarrow> keeps (heldS i) (g x)"
  shows "keeps (heldS i) (tryR f g)"
proof (rule keepsI)
  fix w
  obtain r w' where f: "f w = (r, w')" by (metis surj_pair)
  show "heldS i (wStore w) (wStore (snd (tryR f g w)))"
  proof (cases "heldIn i (wStore w)")
    case True
    with keepsD [OF assms(1) f] assms(2) [OF True f] f show ?thesis by (auto simp: tryR_def keeps_def intro: heldS_trans)
  qed (simp add: heldS_def)
qed

section \<open>The tables with their ids\<close>

definition wfS :: "Store \<Rightarrow> Store \<Rightarrow> bool" where
  "wfS st st' \<longleftrightarrow> (store_ok st \<and> idsApart st \<longrightarrow> store_ok st' \<and> idsApart st')"

interpretation wf: create_frame h wfS "\<lambda>i n. idLike i \<and> \<not> idLike n" for h
proof unfold_locales
  show "wfS st (monitorsAct h t st)" for st t
    using idsApart_monitors okS_monitors by (auto simp: wfS_def okS_def)
  show "wfS st (deleteCommandRows j st)" for st j
    using idsApart_subset store_ok_delete by (auto simp: wfS_def deleteCommandRows_def [of j st, THEN arg_cong [where f = dbConfig]])
  show "wfS st st'" if "insertConfigRow r st = Inr st'" "crName r = nullableString n" "idLike (crID r) \<and> \<not> idLike n" for st st' r n
  proof -
    have "dbConfig st' = dbConfig st @ [r]" using that(1) by (auto simp: insertConfigRow_def split: if_splits dest!: sym [of _ st'])
    with that(2,3) store_ok_insert [OF _ that(1)] show ?thesis by (auto simp: wfS_def idsApart_def nullableString_def split: if_splits)
  qed
  show "wfS st st'" if "insertStateRow j s st = Inr st'" for st st' j s
  proof -
    have "dbConfig st' = dbConfig st" using that by (auto simp: insertStateRow_def split: if_splits dest!: sym [of _ st'])
    with store_ok_insertState [OF _ that] show ?thesis by (auto simp: wfS_def idsApart_def)
  qed
qed (auto simp: wfS_def store_ok_update idsApart_def)

section \<open>Operations of the service on other commands\<close>

lemma wrapR_Inr: "wrapR k f w = (Inr x, w') \<longleftrightarrow> f w = (Inr x, w')"
  by (auto simp: wrapR_def wrapE_def split: prod.split sum.splits)

lemma query_listed: "ListCommands h a ls w = (Inr es, w') \<Longrightarrow> es = listed a ls (wStore w')"
  by (auto simp: ListCommands_def query_def bindR_def split: prod.splits sum.splits)

lemma List_listed: "Service_List h a ls w = (Inr es, w') \<Longrightarrow> es = listed a ls (wStore w')"
  by (auto simp: Service_List_def bindR_Inr wrapR_Inr dest: query_listed)

lemma entry_of_holder:
  assumes "heldIn i st" "e \<in> set (listed a ls st)"
  shows "idLike (enID e)" "enID e = i \<Longrightarrow> \<not> isLive (enState e)"
    "enID e = i \<Longrightarrow> map_of ls LabelIntermediate \<in> {None, Some IntermediateHolder}"
proof -
  from assms(2) obtain c s where c: "c \<in> set (dbConfig st)" "map_of (dbState st) (crID c) = Some s" "e = entryOf c s" "hasLabels ls (crConfig c)"
    unfolding listed_row by blast
  have ok: "store_ok st" "idsApart st" "holderRow (rowOf i st)" using assms(1) by (simp_all add: heldIn_def)
  show "idLike (enID e)" using idsApart_row [OF ok(2) c(1)] c(3) by (simp add: entryOf_def)
  assume i: "enID e = i"
  then have ci: "crID c = i" using c(3) by (simp add: entryOf_def)
  then show "\<not> isLive (enState e)" using ok(3) c(2,3) by (simp add: holderRow_def rowOf_def entryOf_def)
  have "filter (\<lambda>c. crID c = i) (dbConfig st) = [c]"
    using filter_unique [of crID "dbConfig st" c] ok(1) c(1) unfolding store_ok_def ci by blast
  then have "map_of (ccLabels (crConfig c)) LabelIntermediate = Some IntermediateHolder"
    using ok(3) by (simp add: holderRow_def rowOf_def)
  then show "map_of ls LabelIntermediate \<in> {None, Some IntermediateHolder}"
    using c(4) by (cases "map_of ls LabelIntermediate") (fastforce simp: hasLabels_def list_all_iff dest: map_of_SomeD)+
qed

lemma held_cleanEntries: "\<forall>e \<in> set es. enID e = i \<longrightarrow> \<not> isLive (enState e) \<Longrightarrow> keeps (heldS i) (cleanEntries h es)"
proof (rule held.keeps_cleanEntries)
  show "keeps (heldS i) (cleanStaleEntry h (enID e) (enState e) cfg)" if "\<forall>e \<in> set es. enID e = i \<longrightarrow> \<not> isLive (enState e)" "e \<in> set es" for e cfg
    using that apartD [OF apart.keeps_cleanStaleEntry] held.keeps_Pair by (cases "enID e = i") (auto simp: cleanStaleEntry_def)
qed

lemma held_after: "keeps (heldS i) f \<Longrightarrow> heldIn i (wStore w) \<Longrightarrow> f w = (r, w') \<Longrightarrow> heldIn i (wStore w')"
  using keepsD heldS_def by metis

lemma held_Clean: "keeps (heldS i) (CleanStaleEntries h)"
  unfolding CleanStaleEntries_def
proof (rule held_bindR [OF held.keeps_ListCommands])
  fix es w w'
  assume w: "heldIn i (wStore w)" "ListCommands h True [] w = (Inr es, w')"
  have "heldIn i (wStore w')" using held_after [OF held.keeps_ListCommands w] .
  then show "keeps (heldS i) (cleanEntries h es)"
    using entry_of_holder(2) query_listed [OF w(2)] by (intro held_cleanEntries) blast
qed

lemma held_List: "keeps (heldS i) (Service_List h a ls)"
  unfolding Service_List_def by (intro held.keeps_steps held.keeps_ListCommands held_Clean)

lemma held_resolve: "heldIn i (wStore w) \<Longrightarrow> idLike s \<Longrightarrow> ResolveID h s w = (Inr j, w') \<Longrightarrow> j = s"
  using resolve_id by (auto simp: heldIn_def)

lemma held_targets: "heldIn i (wStore w) \<Longrightarrow> idLike s \<Longrightarrow> resolveTargetIDs h [s] [] w = (Inr js, w') \<Longrightarrow> js = [s]"
  by (auto simp: resolveTargetIDs_def bindR_Inr wrapR_Inr split: if_splits dest: held_resolve)

lemma held_stopEach: "i \<notin> set js \<Longrightarrow> keeps (heldS i) (stopEach h sig t js)"
  by (rule held.keeps_stopEach) (metis apartD apart.keeps_stop)

lemma held_Stop: "idLike j \<Longrightarrow> j \<noteq> i \<Longrightarrow> keeps (heldS i) (Service_Stop h [j] sig t)"
  unfolding Service_Stop_def
proof (intro keeps_sum held.keeps_Pair held.keeps_bindR [OF held.keeps_openStore])
  assume "idLike j" "j \<noteq> i"
  then show "keeps (heldS i) (bindR (resolveTargetIDs h [j] []) (\<lambda>ids. tryR (stopEach h sig t ids) (\<lambda>rs. Pair (Inr rs))))"
    by (intro held_bindR [OF held.keeps_resolveTargetIDs]) (auto dest!: held_targets intro!: held.keeps_steps held_stopEach)
qed

lemma held_rmEach: "i \<notin> set js \<Longrightarrow> keeps (heldS i) (rmEach h force js)"
  by (rule held.keeps_rmEach) (metis apartD apart.keeps_rmOne)

lemma held_Remove: "idLike j \<Longrightarrow> j \<noteq> i \<Longrightarrow> keeps (heldS i) (Service_Remove h [j] [] force)"
  unfolding Service_Remove_def
proof (rule held.keeps_bindR [OF held.keeps_openStore])
  assume "idLike j" "j \<noteq> i"
  then show "keeps (heldS i) (bindR (resolveTargetIDs h [j] []) (\<lambda>ids. tryR (rmEach h force ids) (\<lambda>rs. Pair (Inr rs))))"
    by (intro held_bindR [OF held.keeps_resolveTargetIDs]) (auto dest!: held_targets intro!: held.keeps_steps held_rmEach)
qed

lemma config_id:
  assumes "GetCommandConfig h s w = (Inr (j, n, cfg), w')" "idLike s" "idsApart (wStore w)"
  shows "j = s"
proof -
  from assms(1) obtain k w1 r w2 where k: "ResolveID h s w = (Inr k, w1)" and q: "query h (readRow (\<lambda>st. configRow st k)) w1 = (Inr r, w2)" "j = crID r"
    by (auto simp: GetCommandConfig_def bindR_Inr)
  from q(1) obtain st where "configRow st k = Some r"
    by (auto simp: query_def bindR_def readRow_def split: prod.splits sum.splits option.splits)
  with q(2) resolve_id [OF k assms(2,3)] show ?thesis by (auto simp: configRow_def find_Some_iff)
qed

lemma held_Start: "idLike j \<Longrightarrow> j \<noteq> i \<Longrightarrow> keeps (heldS i) (Start h j)"
  unfolding Start_def
proof (rule held.keeps_bindR [OF held.keeps_openStore])
  assume j: "idLike j" "j \<noteq> i"
  show "keeps (heldS i) (bindR (wrapR (ErrWrap ''get command config'') (GetCommandConfig h j)) (\<lambda>(k, _, cfg). startCommand h k cfg))"
  proof (rule held_bindR [OF held.keeps_wrapR [OF held.keeps_GetCommandConfig]])
    show "keeps (heldS i) (case x of (k, _, cfg) \<Rightarrow> startCommand h k cfg)"
      if "heldIn i (wStore w)" "wrapR (ErrWrap ''get command config'') (GetCommandConfig h j) w = (Inr x, w')" for x w w'
    proof -
      obtain k n cfg where x: "x = (k, n, cfg)" by (cases x)
      with that j config_id [of h j w k n cfg w'] have "k = j" by (simp add: wrapR_Inr heldIn_def)
      with x j apartD [OF apart.keeps_startCommand] show ?thesis by simp
    qed
  qed
qed

lemma heldS_insert:
  assumes "insertConfigRow r st = Inr st'" "idLike (crID r)" "\<And>n. crName r = Some n \<Longrightarrow> \<not> idLike n"
  shows "heldS i st st'"
proof (rule heldS_I)
  assume held: "heldIn i st"
  have st': "st' = st\<lparr> dbConfig := dbConfig st @ [r] \<rparr>" and "crID r \<noteq> i"
    using assms(1) held_id [OF held] by (auto simp: insertConfigRow_def split: if_splits)
  then show "store_ok st' \<and> idsApart st' \<and> rowOf i st' = rowOf i st"
    using held_unattended [OF held] store_ok_insert [OF _ assms(1)] assms(2,3) by (auto simp: idsApart_def rowOf_def split: option.splits)
qed

lemma heldS_insertState:
  assumes "insertStateRow j r st = Inr st'"
  shows "heldS i st st'"
proof (rule heldS_I)
  assume held: "heldIn i st"
  have st': "st' = st\<lparr> dbState := dbState st @ [(j, r)] \<rparr>" and "j \<noteq> i"
    using assms(1) conjunct2 [OF held_id [OF held]] by (metis insertStateRow_def sum.distinct(1) sum.inject(2))+
  then show "store_ok st' \<and> idsApart st' \<and> rowOf i st' = rowOf i st"
    using held_unattended [OF held] store_ok_insertState [OF _ assms(1)]
    by (auto simp: idsApart_def rowOf_def map_add_def split: option.splits)
qed

lemma held_insertCommand:
  assumes "idLike j" "\<not> idLike name"
  shows "keeps (heldS i) (insertCommand h j name cfg)"
proof -
  have "keeps (heldS i) (query h (writeRow (insertConfigRow r)))" if "crID r = j" "crName r = nullableString name" for r
    using that assms by (intro held.keeps_query) (auto simp: writeRow_def nullableString_def split: sum.splits if_splits intro: heldS_insert)
  then have "keeps (heldS i) (InsertCommandConfig h j name cfg)" by (simp add: InsertCommandConfig_def keeps_def)
  moreover have "keeps (heldS i) (InsertCommandState h j s js)" for s js
    unfolding InsertCommandState_def by (intro held.keeps_query) (auto simp: writeRow_def split: sum.splits intro: heldS_insertState)
  ultimately show ?thesis unfolding insertCommand_def by (intro held.keeps_steps)
qed

text \<open>A plain create of a command that is not named like an id.\<close>

lemma held_Create:
  assumes "\<And>t. idLike (hoID h t)" "\<not> idLike (rqName req)" "\<not> rqReplace req"
  shows "keeps (heldS i) (Create h req)"
proof (rule keepsI)
  fix w :: World
  have "keeps (heldS i) (\<lambda>w. (Inr j, emitEvent EventTypeCreated j w))" for j by (rule held.keeps_same) simp
  then have "keeps (heldS i) (storeCommand h req (hoID h (wTick w)) cfg)" for cfg
    unfolding storeCommand_def using assms by (auto intro!: held.keeps_steps held_insertCommand)
  then show "heldS i (wStore w) (wStore (snd (Create h req w)))"
    by (auto simp: Create_def Let_def keeps_def held.S_refl split: sum.split)
qed

end
