(* ===== verification/Hook_Resources.thy ===== *)
theory Hook_Resources
  imports Hook_Frame
begin

text \<open>
  What the run of a lifecycle hook does to the resources held for replicas. A run that releases
  keeps every holder unless it succeeded, and then drops the one of its resource; a run that acquires
  keeps every holder unless it succeeded, and then the holder of its resource has the value
  that was read.
\<close>

section \<open>Frames for compose\<close>

definition storeOf :: "CWorld \<Rightarrow> Store" where
  "storeOf cw = wStore (cwWorld cw)"

definition ckeeps :: "(Store \<Rightarrow> Store \<Rightarrow> bool) \<Rightarrow> 'a effect \<Rightarrow> bool" where
  "ckeeps S f \<longleftrightarrow> (\<forall>cw. S (storeOf cw) (storeOf (snd (f cw))))"

text \<open>Only a failure keeps the relation.\<close>

definition ckeepsErr :: "(Store \<Rightarrow> Store \<Rightarrow> bool) \<Rightarrow> ('e + 'a) effect \<Rightarrow> bool" where
  "ckeepsErr S f \<longleftrightarrow> (\<forall>cw. isl (fst (f cw)) \<longrightarrow> S (storeOf cw) (storeOf (snd (f cw))))"

lemma ckeepsI: "(\<And>cw. S (storeOf cw) (storeOf (snd (f cw)))) \<Longrightarrow> ckeeps S f"
  by (simp add: ckeeps_def)

lemma ckeepsD: "ckeeps S f \<Longrightarrow> f cw = (r, cw') \<Longrightarrow> S (storeOf cw) (storeOf cw')"
  by (metis ckeeps_def snd_conv)

lemma ckeepsErrD: "ckeepsErr S f \<Longrightarrow> f cw = (Inl e, cw') \<Longrightarrow> S (storeOf cw) (storeOf cw')"
  by (metis ckeepsErr_def fst_conv snd_conv sum.disc(1))

lemma ckeeps_err: "ckeeps S f \<Longrightarrow> ckeepsErr S f"
  by (simp add: ckeeps_def ckeepsErr_def)

lemma ckeeps_svc: "keeps S f \<Longrightarrow> ckeeps S (svc f)"
  by (simp add: keeps_def ckeeps_def svc_def storeOf_def case_prod_beta)

lemma ckeeps_if: "(c \<Longrightarrow> ckeeps S f) \<Longrightarrow> (\<not> c \<Longrightarrow> ckeeps S g) \<Longrightarrow> ckeeps S (if c then f else g)"
  by simp

lemma ckeeps_sum: "(\<And>e. r = Inl e \<Longrightarrow> ckeeps S (f e)) \<Longrightarrow> (\<And>x. r = Inr x \<Longrightarrow> ckeeps S (g x)) \<Longrightarrow>
    ckeeps S (case r of Inl e \<Rightarrow> f e | Inr x \<Rightarrow> g x)"
  by (cases r) simp_all

lemma ckeeps_option: "(r = None \<Longrightarrow> ckeeps S f) \<Longrightarrow> (\<And>x. r = Some x \<Longrightarrow> ckeeps S (g x)) \<Longrightarrow>
    ckeeps S (case r of None \<Rightarrow> f | Some x \<Rightarrow> g x)"
  by (cases r) simp_all

lemma ckeeps_prod: "(\<And>a b. p = (a, b) \<Longrightarrow> ckeeps S (f a b)) \<Longrightarrow> ckeeps S (case p of (a, b) \<Rightarrow> f a b)"
  by (cases p) simp

lemma storeOf_report [simp]: "storeOf (report ch ev cw) = storeOf cw" "storeOf (reportHook ch run p e x cw) = storeOf cw"
  "storeOf (reportHookOutput ch run s l cw) = storeOf cw" "storeOf (recordFailure f cw) = storeOf cw"
  by (simp_all add: report_def storeOf_def reportHook_def reportHookOutput_def recordFailure_def)

lemma storeOf_forward: "storeOf (forwardRecords ch run rs a cw) = storeOf cw"
proof -
  have "storeOf (fold (\<lambda>(s, l). reportHookOutput ch run s l) xs cw) = storeOf cw" for xs cw
    by (induction xs arbitrary: cw) auto
  then show ?thesis by (induction ch run rs a cw rule: forwardRecords.induct) (auto split: option.splits prod.splits)
qed

context store_frame
begin

lemma ckeeps_Pair: "ckeeps S (Pair x)"
  by (simp add: ckeeps_def S_refl)

lemma ckeeps_bindR: "ckeeps S f \<Longrightarrow> (\<And>x. ckeeps S (g x)) \<Longrightarrow> ckeeps S (bindR f g)"
  unfolding ckeeps_def bindR_def by (auto split: prod.split sum.split) (metis S_trans snd_conv)+

lemma ckeeps_tryR: "ckeeps S f \<Longrightarrow> (\<And>x. ckeeps S (g x)) \<Longrightarrow> ckeeps S (tryR f g)"
  unfolding ckeeps_def tryR_def by (auto split: prod.split) (metis S_trans snd_conv)

lemma ckeeps_wrapR: "ckeeps S f \<Longrightarrow> ckeeps S (wrapR k f)"
  unfolding ckeeps_def wrapR_def by (auto split: prod.split) (metis snd_conv)

lemma ckeeps_same: "(\<And>cw. storeOf (snd (f cw)) = storeOf cw) \<Longrightarrow> ckeeps S f"
  by (simp add: ckeeps_def S_refl)

lemma ckeeps_detached: "ckeeps S f \<Longrightarrow> ckeeps S (detached f)"
proof (rule ckeepsI)
  fix cw
  assume "ckeeps S f"
  then have "S (storeOf (cw\<lparr> cwWorld := (cwWorld cw)\<lparr> wDone := False \<rparr> \<rparr>)) (storeOf (snd (f (cw\<lparr> cwWorld := (cwWorld cw)\<lparr> wDone := False \<rparr> \<rparr>))))"
    by (simp add: ckeeps_def)
  then show "S (storeOf cw) (storeOf (snd (detached f cw)))" by (simp add: detached_def storeOf_def case_prod_beta)
qed

lemmas ckeeps_steps = ckeeps_bindR ckeeps_tryR ckeeps_wrapR ckeeps_if ckeeps_sum ckeeps_option ckeeps_prod ckeeps_Pair ckeeps_svc

lemma ckeepsErr_bindR: "ckeeps S f \<Longrightarrow> (\<And>x. ckeepsErr S (g x)) \<Longrightarrow> ckeepsErr S (bindR f g)"
  unfolding ckeeps_def ckeepsErr_def bindR_def by (auto split: prod.split sum.split) (metis S_trans fst_conv snd_conv)+

lemma ckeepsErr_wrapR: "ckeepsErr S f \<Longrightarrow> ckeepsErr S (wrapR k f)"
  unfolding ckeepsErr_def wrapR_def wrapE_def by (auto split: prod.split sum.splits) (metis fst_conv snd_conv sum.disc(1))

lemma ckeeps_forward: "chHost ch = h \<Longrightarrow> S (storeOf cw) (storeOf (forwardHookOutput ch run i cw))"
  by (simp add: forwardHookOutput_def Let_def storeOf_forward S_monitors svc_def storeOf_def [of "_\<lparr> cwWorld := _ \<rparr>"] case_prod_beta
      split: sum.split) (simp add: storeOf_def S_monitors)

lemma ckeeps_readValue: "chHost ch = h \<Longrightarrow> ckeeps S (readResourceValue ch i)"
  by (rule ckeepsI) (simp add: readResourceValue_def svc_def Let_def storeOf_def S_monitors case_prod_beta)

lemma ckeeps_findHolder: "chHost ch = h \<Longrightarrow> keeps S (Service_List h True (selector ref)) \<Longrightarrow> ckeeps S (findHolder ch ref)"
  unfolding findHolder_def by (auto intro!: ckeeps_steps)

lemma ckeeps_remove: "chHost ch = h \<Longrightarrow> keeps S (Service_Remove h [j] [] False) \<Longrightarrow> ckeeps S (removeIntermediate ch j)"
  unfolding removeIntermediate_def by (auto intro!: ckeeps_steps)

lemma ckeeps_stopLive: "chHost ch = h \<Longrightarrow> keeps S (Service_Stop h [enID e] [] None) \<Longrightarrow> ckeeps S (stopLiveIntermediate ch e)"
  unfolding stopLiveIntermediate_def stopForRecreate_def by (auto intro!: ckeeps_steps)

lemma ckeeps_clearExecs:
  "chHost ch = h \<Longrightarrow> (\<And>e. e \<in> set es \<Longrightarrow> keeps S (Service_Stop h [enID e] [] None) \<and> keeps S (Service_Remove h [enID e] [] False)) \<Longrightarrow>
   ckeeps S (clearExecs ch es)"
  by (induction es) (simp_all only: clearExecs.simps ckeeps_Pair, auto intro!: ckeeps_bindR ckeeps_wrapR ckeeps_stopLive ckeeps_remove)

lemma ckeeps_stopMatching:
  "chHost ch = h \<Longrightarrow> keeps S (Service_Stop h [j] [] None) \<Longrightarrow> ckeeps S (stopMatching ch j es)"
  by (induction es) (simp_all only: stopMatching.simps ckeeps_Pair, auto intro!: ckeeps_tryR ckeeps_stopLive)

lemma ckeeps_runExec:
  assumes "chHost ch = h" "keeps S (Start h j)" "keeps S (Service_Stop h [j] [] None)" "\<And>ls. keeps S (Service_List h True ls)"
  shows "ckeeps S (runExec ch run j)"
proof -
  have cancelled: "ckeeps S (stopCancelledExec ch run j)"
    unfolding stopCancelledExec_def using assms by (intro ckeeps_detached ckeeps_steps) (auto intro: ckeeps_stopMatching)
  let ?quit = "tryR (stopCancelledExec ch run j) (\<lambda>_. Pair (None :: int option, Some ErrCanceled))"
  have quit: "ckeeps S ?quit" using cancelled by (intro ckeeps_steps)
  have start: "ckeeps S (\<lambda>cw. if ctxDone cw then ?quit cw else ((None, Some e), cw))" for e
    using quit by (auto simp: ckeeps_def S_refl)
  have wait: "ckeeps S (tryR (svc (Wait h [j] EventTypeNone 0 False)) (\<lambda>results cw. if ctxDone cw then ?quit cw
      else case results of Inl e \<Rightarrow> ((None, Some (ErrWrap ''wait for hook command'' e)), cw) | Inr rs \<Rightarrow> (hookExit rs, cw)))" (is "ckeeps S ?w")
    using quit keeps_Wait by (intro ckeeps_tryR ckeeps_svc) (auto simp: ckeeps_def S_refl split: sum.split)
  have "ckeeps S (\<lambda>cw. ?w (if chReporter ch then forwardHookOutput ch run j cw else cw))"
  proof (rule ckeepsI)
    show "S (storeOf cw) (storeOf (snd (?w (if chReporter ch then forwardHookOutput ch run j cw else cw))))" for cw
      using wait ckeeps_forward [OF assms(1), of cw run j] S_trans unfolding ckeeps_def by auto
  qed
  then have "ckeeps S (\<lambda>cw. case r of
       Inl e \<Rightarrow> if ctxDone cw then ?quit cw else ((None, Some (ErrWrap ''start hook command'' e)), cw)
     | Inr _ \<Rightarrow> ?w (if chReporter ch then forwardHookOutput ch run j cw else cw))" for r :: "SvcErr + unit"
    using start by (cases r) auto
  then show ?thesis unfolding runExec_def assms(1) by (intro ckeeps_tryR ckeeps_svc assms(2))
qed

end

section \<open>Steps of a hook and the holders of resources\<close>

definition soundHost :: "ComposeHost \<Rightarrow> bool" where
  "soundHost ch \<longleftrightarrow> (\<forall>t. idLike (hoID (chHost ch) t)) \<and> cfRuntimeDir (hoConfig (chHost ch)) \<noteq> []"

lemma cheld_bindR:
  assumes "ckeeps (heldS i) f" "\<And>x cw cw'. heldIn i (storeOf cw) \<Longrightarrow> f cw = (Inr x, cw') \<Longrightarrow> ckeeps (heldS i) (g x)"
  shows "ckeeps (heldS i) (bindR f g)"
proof (rule ckeepsI)
  fix cw
  obtain r cw' where f: "f cw = (r, cw')" by (metis surj_pair)
  show "heldS i (storeOf cw) (storeOf (snd (bindR f g cw)))"
  proof (cases "heldIn i (storeOf cw)")
    case True
    have "ckeeps (heldS i) (g x)" if "r = Inr x" for x using assms(2) [OF True] f that by simp
    with ckeepsD [OF assms(1) f] f show ?thesis
      by (cases r) (auto simp: bindR_def ckeeps_def intro: heldS_trans)
  qed (simp add: heldS_def)
qed

lemma cheld_tryR:
  assumes "ckeeps (heldS i) f" "\<And>x cw cw'. heldIn i (storeOf cw) \<Longrightarrow> f cw = (x, cw') \<Longrightarrow> ckeeps (heldS i) (g x)"
  shows "ckeeps (heldS i) (tryR f g)"
proof (rule ckeepsI)
  fix cw
  obtain r cw' where f: "f cw = (r, cw')" by (metis surj_pair)
  show "heldS i (storeOf cw) (storeOf (snd (tryR f g cw)))"
  proof (cases "heldIn i (storeOf cw)")
    case True
    with ckeepsD [OF assms(1) f] assms(2) [OF True f] f show ?thesis by (auto simp: tryR_def ckeeps_def intro: heldS_trans)
  qed (simp add: heldS_def)
qed

lemma svc_result: "svc f cw = (r, cw') \<Longrightarrow> f (cwWorld cw) = (r, cwWorld cw') \<and> storeOf cw' = wStore (cwWorld cw')"
  by (auto simp: svc_def storeOf_def split: prod.splits)

lemma cheld_clear:
  assumes "map_of labels LabelIntermediate = Some IntermediateExec"
  shows "ckeeps (heldS i) (clearStaleExecs ch labels)"
  unfolding clearStaleExecs_def
proof (rule cheld_bindR [OF held.ckeeps_wrapR [OF ckeeps_svc [OF held_List]]])
  fix es cw cw'
  assume held: "heldIn i (storeOf cw)" and l: "wrapR (ErrWrap ''look up earlier hook commands'') (svc (Service_List (chHost ch) True labels)) cw = (Inr es, cw')"
  then have w: "Service_List (chHost ch) True labels (cwWorld cw) = (Inr es, cwWorld cw')"
    by (auto simp: wrapR_def wrapE_def dest: svc_result split: prod.splits sum.splits)
  have held': "heldIn i (wStore (cwWorld cw'))" using held_after [OF held_List _ w] held by (simp add: storeOf_def)
  have "IntermediateExec \<noteq> IntermediateHolder" by (simp add: IntermediateExec_def IntermediateHolder_def)
  then have "idLike (enID e) \<and> enID e \<noteq> i" if "e \<in> set es" for e
    using that entry_of_holder(1,3) [OF held'] List_listed [OF w] assms by fastforce
  then show "ckeeps (heldS i) (clearExecs ch es)"
    by (intro held.ckeeps_clearExecs) (auto intro: held_Stop held_Remove)
qed

lemma cheld_runExec: "idLike j \<Longrightarrow> j \<noteq> i \<Longrightarrow> ckeeps (heldS i) (runExec ch run j)"
  by (rule held.ckeeps_runExec) (auto intro: held_Start held_Stop held_List)

lemma query_insert_fresh:
  assumes "query h (writeRow (insertConfigRow r)) w = (Inr x, w')" "heldIn i (wStore w)"
  shows "crID r \<noteq> i"
proof -
  from assms(1) obtain w1 :: World where o: "outside h w = (Inr (), w1)" and q: "writeRow (insertConfigRow r) (wStore w1) = Inr (x, wStore w')"
    by (auto simp: query_def bindR_def split: prod.splits sum.splits)
  from held_id [OF held_after [OF held.keeps_outside assms(2) o]] q show ?thesis
    by (auto simp: writeRow_def insertConfigRow_def split: sum.splits if_splits)
qed

lemma Create_fresh:
  assumes "Create h req w = (Inr j, w')" "heldIn i (wStore w)" "\<not> rqReplace req"
  shows "j = hoID h (wTick w)" "j \<noteq> i"
proof -
  show j: "j = hoID h (wTick w)"
    using assms(1) by (cases rule: Create_cases) (auto simp: storeCommand_def bindR_Inr)
  from assms(1) show "j \<noteq> i"
  proof (cases rule: Create_cases)
    case (stored cfg)
    then obtain w1 u w2 where o: "openStore h w = (Inr u, w1)" and c: "insertCommand h (hoID h (wTick w)) (rqName req) cfg w1 = (Inr (), w2)"
      using assms(3) by (auto simp: storeCommand_def bindR_Inr)
    from c obtain w3 where "InsertCommandConfig h (hoID h (wTick w)) (rqName req) cfg w1 = (Inr (), w3)"
      by (auto simp: insertCommand_def bindR_Inr wrapR_Inr)
    from query_insert_fresh [OF this [unfolded InsertCommandConfig_def] held_after [OF held.keeps_openStore assms(2) o]]
    show ?thesis unfolding j by simp
  qed simp
qed

lemma dot_no_id: "CHR ''.'' \<in> set s \<Longrightarrow> \<not> idLike s"
proof -
  have "CHR ''.'' \<notin> set hexDigits" by (simp add: hexDigits_def)
  then show "CHR ''.'' \<in> set s \<Longrightarrow> \<not> idLike s" by (auto simp: idLike_def list_all_iff)
qed

lemma exec_name_no_id: "\<not> idLike (ExecCommandName r hk ev)"
  by (rule dot_no_id) (simp add: ExecCommandName_def)

lemma holder_name_no_id: "\<not> idLike (HolderName r key)"
  by (rule dot_no_id) (simp add: HolderName_def)

lemma exec_labels: "map_of (execLabels r hk ev) LabelIntermediate = Some IntermediateExec"
  by (simp add: execLabels_def)

lemma execHookValue_cases:
  assumes "execHookValue ch run h exec value cw = ((exit, err), cw')" "soundHost ch" "heldIn i (storeOf cw)"
    and "ruExec run = ExecCommandName nm hk ev"
  obtains (failed) e where "err = Some e" "heldS i (storeOf cw) (storeOf cw')"
    | (ran) j cw1 where "idLike j" "j \<noteq> i" "heldS i (storeOf cw) (storeOf cw1)" "execDone ch run h j exit cw1 = ((exit, err), cw')"
proof -
  let ?clear = "clearStaleExecs ch (execLabels (ruReplica run) (lhName h) (ruEvent run))"
  let ?req = "execRequest run h exec value"
  have req: "\<not> rqReplace ?req" "\<not> idLike (rqName ?req)"
    using assms(4) exec_name_no_id by (simp_all add: execRequest_def intermediateRequest_def Let_def)
  have c: "ckeeps (heldS i) ?clear" by (rule cheld_clear) (rule exec_labels)
  note cr = ckeeps_svc [OF held_Create [OF _ req(2,1)]]
  from assms(2) have ids: "\<And>t. idLike (hoID (chHost ch) t)" by (simp add: soundHost_def)
  from assms(1) show thesis unfolding execHookValue_def
  proof (cases rule: tryR_sumE)
    case (Inl e cw1)
    with failed ckeepsD [OF c Inl(1)] show ?thesis by auto
  next
    case (Inr x cw1)
    have h1: "heldIn i (storeOf cw1)" using ckeepsD [OF c Inr(1)] assms(3) by (simp add: heldS_def)
    from Inr(2) have t: "tryR (svc (Create (chHost ch) ?req)) (\<lambda>r. case r of
           Inl e \<Rightarrow> Pair (None, Some (ErrWrap ''create hook command'' e))
         | Inr j \<Rightarrow> (\<lambda>cw. execRun ch run h j (reportHook ch run PhaseHookRunning None None cw))) cw1 = ((exit, err), cw')"
      by simp
    note s1 = ckeepsD [OF c Inr(1)]
    from t show ?thesis
    proof (cases rule: tryR_sumE)
      case (Inl e cw2)
      with failed heldS_trans [OF s1 ckeepsD [OF cr [OF ids] Inl(1)]] show ?thesis by auto
    next
      case (Inr j cw2)
      note s2 = heldS_trans [OF s1 ckeepsD [OF cr [OF ids] Inr(1)]]
      have "Create (chHost ch) ?req (cwWorld cw1) = (Inr j, cwWorld cw2)" using svc_result [OF Inr(1)] by blast
      from Create_fresh [OF this _ req(1)] h1 ids have j: "idLike j" "j \<noteq> i" by (auto simp: storeOf_def)
      from Inr(2) obtain ex er cw3 where r: "runExec ch run j (reportHook ch run PhaseHookRunning None None cw2) = ((ex, er), cw3)"
        and d: "(case er of Some e \<Rightarrow> Pair (ex, Some e) | None \<Rightarrow> execDone ch run h j ex) cw3 = ((exit, err), cw')"
        by (auto simp: execRun_def tryR_def split: prod.splits)
      have s3: "heldS i (storeOf cw) (storeOf cw3)" using heldS_trans [OF s2] ckeepsD [OF cheld_runExec [OF j] r] by simp
      show ?thesis
      proof (cases er)
        case None
        have "exit = ex" using d None by (auto simp: execDone_def tryR_def split: prod.splits sum.splits if_splits)
        with d None ran [OF j s3] show ?thesis by simp
      qed (use d failed s3 in auto)
    qed
  qed
qed

section \<open>Dropping a holder\<close>

definition goneS :: "string \<Rightarrow> Store \<Rightarrow> Store \<Rightarrow> bool" where
  "goneS i st st' \<longleftrightarrow> (rowOf i st = ([], None) \<longrightarrow> rowOf i st' = ([], None))"

lemma gone_update: "goneS i st (st\<lparr> dbState := amodify j f (dbState st) \<rparr>)"
  by (auto simp: goneS_def rowOf_def map_of_amodify)

lemma gone_delete: "goneS i st (deleteCommandRows j st)"
proof -
  have "map_of m i = None \<Longrightarrow> map_of (filter (\<lambda>(k, _). k \<noteq> j) m) i = None" for m :: "(string, StateRow) gomap"
    by (induction m) (auto split: if_splits)
  then show ?thesis by (auto simp: goneS_def rowOf_def deleteCommandRows_def filter_empty_conv)
qed

lemma gone_trans: "goneS i a b \<Longrightarrow> goneS i b c \<Longrightarrow> goneS i a c"
  by (simp add: goneS_def)

lemma gone_monitors: "goneS i st (monitorsAct h t st)"
proof -
  have "goneS i st' (monitorAct h t x st')" for x st'
    using gone_update gone_delete by (cases x) (auto simp: monitorAct_def goneS_def [of i st' st' for st'] split: option.split)
  then have "goneS i st' (fold (monitorAct h t) xs st')" for xs st'
    by (induction xs arbitrary: st') (simp add: goneS_def, metis fold_simps(2) gone_trans)
  then show ?thesis by (simp add: monitorsAct_def)
qed

interpretation gone: service_frame h "goneS i" for h i
  by unfold_locales (auto simp: gone_update gone_delete gone_monitors goneS_def [of i st st for st] intro: gone_trans)

lemma delete_gone: "DeleteCommand h i w = (Inr u, w') \<Longrightarrow> rowOf i (wStore w') = ([], None)"
proof -
  have "map_of (filter (\<lambda>(k, _). k \<noteq> i) m) i = None" for m :: "(string, StateRow) gomap" by (induction m) auto
  then show "DeleteCommand h i w = (Inr u, w') \<Longrightarrow> rowOf i (wStore w') = ([], None)"
    by (auto simp: DeleteCommand_def query_def bindR_def rowOf_def deleteCommandRows_def split: prod.splits sum.splits)
qed

text \<open>The end of a removal, once nothing stops it.\<close>

definition deleteAndClean :: "Host \<Rightarrow> string \<Rightarrow> CommandConfig \<Rightarrow> World \<Rightarrow> (SvcErr + unit) \<times> World" where
  "deleteAndClean h i cfg = bindR (wrapR (ErrWrap ''delete from db'') (DeleteCommand h i)) (\<lambda>_ w.
     let w = (if ccCommandDir cfg \<noteq> [] then removeDir h (ccCommandDir cfg) w else w)
     in case MonitorRuntimeDir (hoConfig h) i of Inl e \<Rightarrow> (Inl e, w) | Inr d \<Rightarrow> (Inr (), removeDir h d w))"

lemma deleteAndClean_outcome:
  assumes "deleteAndClean h i cfg w = (r, w')" "cfRuntimeDir (hoConfig h) \<noteq> []" "i \<noteq> []"
  shows "r = Inr () \<and> rowOf i (wStore w') = ([], None) \<or> isl r \<and> heldS i (wStore w) (wStore w')"
proof -
  obtain d where d: "MonitorRuntimeDir (hoConfig h) i = Inr d" using assms(2,3) by (simp add: MonitorRuntimeDir_def)
  obtain r0 w0 where del: "DeleteCommand h i w = (r0, w0)" by (metis surj_pair)
  show ?thesis
  proof (cases r0)
    case (Inl e)
    then have "wStore w0 = monitorsAct h (wTick w) (wStore w)" using del by (auto simp: DeleteCommand_def intro: query_Inl)
    with Inl assms(1) del heldS_monitors show ?thesis by (auto simp: deleteAndClean_def bindR_def wrapR_def)
  next
    case (Inr u)
    from del Inr have "rowOf i (wStore w0) = ([], None)" by (simp add: delete_gone)
    then have "rowOf i (wStore (removeDir h d (if c then removeDir h d' w0 else w0))) = ([], None)" for c d'
      using gone.keeps_removeDir by (simp add: goneS_def)
    with Inr assms(1) del d show ?thesis by (auto simp: deleteAndClean_def bindR_def wrapR_def Let_def)
  qed
qed

lemma rmOne_outcome:
  assumes "rmOne h i False w = (r, w')" "cfRuntimeDir (hoConfig h) \<noteq> []" "idLike i"
  shows "r = Inr () \<and> rowOf i (wStore w') = ([], None) \<or> isl r \<and> heldS i (wStore w) (wStore w')"
proof -
  have ne: "i \<noteq> []" using assms(3) by (auto simp: idLike_def)
  let ?state = "tryR (GetCommandState h i) (\<lambda>r. Pair (case r of
         Inl e \<Rightarrow> if errorsIs e ErrNoRows then Inr (EventTypeCreated, zeroState) else Inl e
       | Inr s \<Rightarrow> Inr (srState s, srJSON s)))"
  let ?check = "\<lambda>state. if isLive state then Pair (Inl (ErrText ''use --force to remove'')) else Pair (Inr ())"
  have k: "keeps (heldS i) ?state" "keeps (heldS i) (GetCommandConfig h i)" "keeps (heldS i) (?check state)" for state
    by (intro held.keeps_steps held.keeps_GetCommandState held.keeps_GetCommandConfig)+
  have run: "rmOne h i False = bindR ?state (\<lambda>(state, js). bindR (GetCommandConfig h i) (\<lambda>(_, _, cfg).
      bindR (?check state) (\<lambda>_. deleteAndClean h i cfg)))"
    unfolding rmOne_def deleteAndClean_def by (simp only: simp_thms if_True)
  let ?Q = "\<lambda>r w. r = Inr () \<and> rowOf i (wStore w') = ([], None) \<or> isl r \<and> heldS i (wStore w) (wStore w')"
  have step: "?Q r v" if "bindR f g v = (r, w')" "keeps (heldS i) f" "\<And>x u. f v = (Inr x, u) \<Longrightarrow> g x u = (r, w') \<Longrightarrow> ?Q r u"
    for f :: "World \<Rightarrow> (SvcErr + 'x) \<times> World" and g v
  proof (cases "fst (f v)")
    case (Inl e)
    with that(1) have "f v = (Inl e, w')" "r = Inl e" by (auto simp: bindR_def split: prod.splits)
    with keepsD [OF that(2)] show ?thesis by auto
  next
    case (Inr x)
    with that(1) obtain u where u: "f v = (Inr x, u)" "g x u = (r, w')" by (auto simp: bindR_def split: prod.splits)
    from that(3) [OF u] keepsD [OF that(2) u(1)] show ?thesis by (auto intro: heldS_trans)
  qed
  from assms(1) [unfolded run] show ?thesis
  proof (rule step [OF _ k(1)])
    show "?Q r w1" if "(case x of (state, js) \<Rightarrow> bindR (GetCommandConfig h i) (\<lambda>(_, _, cfg).
        bindR (?check state) (\<lambda>_. deleteAndClean h i cfg))) w1 = (r, w')" for x w1
      using that
      by (cases x) (auto elim!: step [OF _ k(2)] step [OF _ k(3)] dest: deleteAndClean_outcome [OF _ assms(2) ne])
  qed
qed

text \<open>The removal of a command by its id, and what is left when it succeeds.\<close>

lemma removeOne_outcome:
  assumes "Service_Remove h [j] [] False w = (r, w')" "cfRuntimeDir (hoConfig h) \<noteq> []" "idLike j" "heldIn i (wStore w)"
  shows "(case r of Inl e \<Rightarrow> heldS j (wStore w) (wStore w')
     | Inr rs \<Rightarrow> (\<exists>e. rs = [(j, Some e)]) \<and> heldS j (wStore w) (wStore w') \<or> rs = [(j, None)] \<and> rowOf j (wStore w') = ([], None))"
proof -
  let ?f = "bindR (openStore h) (\<lambda>_. resolveTargetIDs h [j] [])"
  have run: "Service_Remove h [j] [] False w = bindR ?f (\<lambda>ids. tryR (rmEach h False ids) (\<lambda>rs. Pair (Inr rs))) w"
    by (simp add: Service_Remove_def bindR_def split: prod.split sum.split)
  have k: "keeps (heldS v) ?f" for v by (intro held.keeps_steps held.keeps_resolveTargetIDs)
  obtain r0 w0 where f: "?f w = (r0, w0)" by (metis surj_pair)
  show ?thesis
  proof (cases r0)
    case (Inl e)
    with assms(1) [unfolded run] f keepsD [OF k f] show ?thesis by (auto simp: bindR_def)
  next
    case (Inr ids)
    with f obtain u w1 where o: "openStore h w = (Inr u, w1)" and t: "resolveTargetIDs h [j] [] w1 = (Inr ids, w0)"
      by (auto simp: bindR_Inr)
    have ids: "ids = [j]" using held_targets [OF held_after [OF held.keeps_openStore assms(4) o] assms(3) t] .
    obtain r1 w2 where rm: "rmOne h j False w0 = (r1, w2)" by (metis surj_pair)
    have "r = Inr [(j, case r1 of Inl e \<Rightarrow> Some e | Inr _ \<Rightarrow> None)] \<and> wStore w' = wStore w2"
      using assms(1) [unfolded run] f Inr ids rm by (auto simp: bindR_def tryR_def split: sum.splits)
    with rmOne_outcome [OF rm assms(2,3)] keepsD [OF k f, of j] show ?thesis by (auto intro: heldS_trans split: sum.splits)
  qed
qed

lemma removeIntermediate_outcome:
  assumes "removeIntermediate ch j cw = (r, cw')" "soundHost ch" "idLike j" "heldIn i (storeOf cw)"
  shows "isl r \<and> heldS j (storeOf cw) (storeOf cw') \<or> r = Inr () \<and> rowOf j (storeOf cw') = ([], None)"
proof -
  obtain r0 w0 where s: "Service_Remove (chHost ch) [j] [] False (cwWorld cw) = (r0, w0)" by (metis surj_pair)
  with assms(1) have "cwWorld cw' = w0" "r = (case r0 of Inl e \<Rightarrow> Inl e | Inr rs \<Rightarrow> firstErr (map snd rs))"
    by (auto simp: removeIntermediate_def bindR_def svc_def split: sum.splits)
  with removeOne_outcome [OF s _ assms(3) assms(4) [unfolded storeOf_def]] assms(2) show ?thesis
    by (auto simp: storeOf_def soundHost_def firstErr_def split: sum.splits)
qed

definition ownsRow :: "resourceRef \<Rightarrow> ConfigRow list \<times> StateRow option \<Rightarrow> bool" where
  "ownsRow ref = (\<lambda>(cs, _). list_ex (\<lambda>c. hasLabels (selector ref) (crConfig c)) cs)"

lemma findHolder_entry:
  assumes "findHolder ch ref cw = (Inr e, cw')" "heldIn i (storeOf cw)"
  shows "if ownsRow ref (rowOf i (storeOf cw)) then \<exists>x. e = Some x \<and> enID x = i else \<forall>x. e = Some x \<longrightarrow> idLike (enID x) \<and> enID x \<noteq> i"
proof -
  from assms(1) obtain es cw1 where "svc (Service_List (chHost ch) True (selector ref)) cw = (Inr es, cw1)"
    and r: "((case es of [] \<Rightarrow> Inr None | [e] \<Rightarrow> Inr (Some e) | _ \<Rightarrow> Inl (ErrText ''several holders'')), cw1) = (Inr e, cw')"
    unfolding findHolder_def bindR_Inr wrapR_Inr by blast
  then have l: "Service_List (chHost ch) True (selector ref) (cwWorld cw) = (Inr es, cwWorld cw')"
    by (auto dest: svc_result)
  from r have es: "es = [] \<and> e = None \<or> (\<exists>x. es = [x] \<and> e = Some x)" by (auto split: list.splits)
  note row = keepsD [OF held_List l, of i] and listed = List_listed [OF l]
  let ?st = "wStore (cwWorld cw')"
  have held: "heldIn i ?st" and same: "rowOf i ?st = rowOf i (storeOf cw)" using row assms(2) by (auto simp: heldS_def storeOf_def)
  have ids: "x \<in> set es \<Longrightarrow> idLike (enID x)" for x using entry_of_holder(1) [OF held] listed by blast
  have own: "ownsRow ref (rowOf i (storeOf cw)) \<longleftrightarrow> (\<exists>x \<in> set es. enID x = i)"
  proof
    assume "ownsRow ref (rowOf i (storeOf cw))"
    then obtain c where c: "c \<in> set (dbConfig ?st)" "crID c = i" "hasLabels (selector ref) (crConfig c)"
      unfolding same [symmetric] by (auto simp: ownsRow_def rowOf_def list_ex_iff)
    obtain s where "map_of (dbState ?st) i = Some s" using held by (auto simp: heldIn_def holderRow_def rowOf_def split: option.splits)
    with c have "entryOf c s \<in> set es" unfolding listed listed_row by auto
    with c(2) show "\<exists>x \<in> set es. enID x = i" by (force simp: entryOf_def)
  next
    assume "\<exists>x \<in> set es. enID x = i"
    then obtain x where "x \<in> set (listed True (selector ref) ?st)" "enID x = i" unfolding listed by blast
    then obtain c where "c \<in> set (dbConfig ?st)" "crID c = i" "hasLabels (selector ref) (crConfig c)"
      unfolding listed_row by (auto simp: entryOf_def)
    then show "ownsRow ref (rowOf i (storeOf cw))" unfolding same [symmetric] by (auto simp: ownsRow_def rowOf_def list_ex_iff)
  qed
  with es ids show ?thesis by (auto split: if_splits)
qed

text \<open>A holder after the resource \<open>ref\<close> was dropped.\<close>

definition droppedRow :: "resourceRef \<Rightarrow> string \<Rightarrow> Store \<Rightarrow> Store \<Rightarrow> bool" where
  "droppedRow ref i st st' \<longleftrightarrow> (if ownsRow ref (rowOf i st) then rowOf i st' = ([], None) else heldS i st st')"

lemma held_findHolder: "ckeeps (heldS i) (findHolder ch ref)"
  by (rule held.ckeeps_findHolder [OF refl held_List])

lemma dropHolder_outcome:
  assumes "dropHolder ch ref cw = (r, cw')" "soundHost ch" "heldIn i (storeOf cw)"
  shows "isl r \<and> heldS i (storeOf cw) (storeOf cw') \<or> r = Inr () \<and> droppedRow ref i (storeOf cw) (storeOf cw')"
proof -
  obtain r0 cw0 where f: "findHolder ch ref cw = (r0, cw0)" by (metis surj_pair)
  note s0 = ckeepsD [OF held_findHolder f, of i]
  have held: "heldIn i (storeOf cw0)" "rowOf i (storeOf cw0) = rowOf i (storeOf cw)" using s0 assms(3) by (auto simp: heldS_def)
  show ?thesis
  proof (cases r0)
    case (Inl e)
    with assms(1) f s0 show ?thesis by (auto simp: dropHolder_def bindR_def)
  next
    case (Inr e)
    note entry = findHolder_entry [OF f [unfolded Inr] assms(3)]
    show ?thesis
    proof (cases e)
      case None
      with assms(1) f s0 Inr entry show ?thesis by (auto simp: dropHolder_def bindR_def droppedRow_def)
    next
      case (Some x)
      obtain r1 where rm: "removeIntermediate ch (enID x) cw0 = (r1, cw')" and r: "isl r = isl r1"
        using assms(1) f Inr Some by (auto simp: dropHolder_def bindR_def wrapR_def wrapE_def split: prod.splits sum.splits)
      have id: "idLike (enID x)"
        using entry Some idsApart_row held_unattended [OF held(1)] held_id [OF held(1)] by (fastforce split: if_splits)
      show ?thesis
      proof (cases "ownsRow ref (rowOf i (storeOf cw))")
        case True
        with entry Some have "enID x = i" by simp
        with removeIntermediate_outcome [OF rm assms(2) id held(1)] r s0 True show ?thesis
          by (cases r) (auto simp: droppedRow_def intro: heldS_trans)
      next
        case False
        with entry Some have "enID x \<noteq> i" by simp
        then have "heldS i (storeOf cw0) (storeOf cw')"
          by (intro ckeepsD [OF held.ckeeps_remove [OF refl held_Remove [OF id]] rm])
        with s0 False show ?thesis by (cases r) (auto simp: droppedRow_def intro: heldS_trans)
      qed
    qed
  qed
qed

section \<open>A run that releases\<close>

text \<open>The end of a run that releases, and the run as a whole.\<close>

definition releaseOutcome :: "resourceRef \<Rightarrow> string \<Rightarrow> Store \<Rightarrow> SvcErr option \<Rightarrow> Store \<Rightarrow> bool" where
  "releaseOutcome ref i st err st' \<longleftrightarrow> (if err = None then droppedRow ref i st st' else heldS i st st')"

lemma dropped_heldS: "heldS i a b \<Longrightarrow> heldIn i a \<Longrightarrow> droppedRow ref i b c \<Longrightarrow> droppedRow ref i a c"
  by (auto simp: droppedRow_def heldS_def split: if_splits)

lemma outcome_heldS: "heldS i a b \<Longrightarrow> heldIn i a \<Longrightarrow> releaseOutcome ref i b err c \<Longrightarrow> releaseOutcome ref i a err c"
  by (auto simp: releaseOutcome_def intro: dropped_heldS heldS_trans split: if_splits)

lemma execDone_releases:
  assumes "execDone ch run h j exit cw = ((exit', err), cw')" "soundHost ch" "heldIn i (storeOf cw)" "idLike j" "j \<noteq> i"
    and "lhResource h \<noteq> []" "\<not> acquires (ruEvent run)"
  shows "releaseOutcome (resourceRefOf (ruReplica run) (lhResource h)) i (storeOf cw) err (storeOf cw')"
proof -
  let ?ref = "resourceRefOf (ruReplica run) (lhResource h)"
  from assms(1,6,7) have "tryR (dropHolder ch ?ref) (\<lambda>r. case r of
       Inl e \<Rightarrow> Pair (exit, Some e) | Inr _ \<Rightarrow> tryR (removeIntermediate ch j) (\<lambda>_. Pair (exit, None))) cw = ((exit', err), cw')"
    by (simp add: execDone_def recordResource_def)
  then show ?thesis
  proof (cases rule: tryR_sumE)
    case (Inl e cw1)
    with dropHolder_outcome [OF Inl(1) assms(2,3)] show ?thesis by (auto simp: releaseOutcome_def)
  next
    case (Inr u cw1)
    from Inr(2) obtain r2 where rm: "removeIntermediate ch j cw1 = (r2, cw')" and err: "err = None"
      by (auto simp: tryR_def split: prod.splits)
    have d: "droppedRow ?ref i (storeOf cw) (storeOf cw1)" using dropHolder_outcome [OF Inr(1) assms(2,3)] by auto
    note s1 = ckeepsD [OF held.ckeeps_remove [OF refl held_Remove [OF assms(4,5)]] rm]
    note s2 = ckeepsD [OF gone.ckeeps_remove [OF refl gone.keeps_Remove] rm, of i]
    from d s1 s2 err show ?thesis by (auto simp: releaseOutcome_def droppedRow_def goneS_def intro: heldS_trans split: if_splits)
  qed
qed

lemma execHookValue_releases:
  assumes "execHookValue ch run h exec value cw = ((exit, err), cw')" "soundHost ch" "heldIn i (storeOf cw)"
    and "ruExec run = ExecCommandName nm hk ev" "lhResource h \<noteq> []" "\<not> acquires (ruEvent run)"
  shows "releaseOutcome (resourceRefOf (ruReplica run) (lhResource h)) i (storeOf cw) err (storeOf cw')"
  using assms(1-4)
proof (cases rule: execHookValue_cases)
  case (failed e)
  then show ?thesis by (simp add: releaseOutcome_def)
next
  case (ran j cw1)
  then have "heldIn i (storeOf cw1)" using assms(3) by (simp add: heldS_def)
  from outcome_heldS [OF ran(3) assms(3) execDone_releases [OF ran(4) assms(2) this ran(1,2) assms(5,6)]] show ?thesis .
qed

text \<open>The look-up of the holder comes before the run and leaves everything as it is.\<close>

lemma execHook_via_value:
  assumes "execHook ch run h exec cw = ((exit, held, value, err), cw')" "\<And>ref. ckeeps S (findHolder ch ref)" "S (storeOf cw) (storeOf cw)"
  obtains (lookup) e where "err = Some e" "S (storeOf cw) (storeOf cw')"
    | (run) cw1 v err' where "S (storeOf cw) (storeOf cw1)" "execHookValue ch run h exec v cw1 = ((exit, err'), cw')"
        "err = None \<longleftrightarrow> err' = None"
proof -
  let ?wrap = "\<lambda>e. if lhResource h \<noteq> [] \<and> \<not> acquires (ruEvent run) then ErrWrap ''release resource'' e else e"
  let ?go = "\<lambda>held v. tryR (execHookValue ch run h exec v) (\<lambda>(exit, err).
      Pair (exit, held :: resourceHolder option, v, case err of None \<Rightarrow> None | Some e \<Rightarrow> Some (?wrap e)))"
  have go: thesis if "?go hl v cw1 = ((exit, held, value, err), cw')" "S (storeOf cw) (storeOf cw1)" for hl v cw1
  proof -
    from that(1) obtain err' where "execHookValue ch run h exec v cw1 = ((exit, err'), cw')" "err = (case err' of None \<Rightarrow> None | Some e \<Rightarrow> Some (?wrap e))"
      by (auto simp: tryR_def split: prod.splits)
    with run [OF that(2), of v err'] show thesis by (auto split: option.splits)
  qed
  have eq: "execHook ch run h exec =
      (if lhResource h = [] then ?go None []
       else case ruHeld run of Some held \<Rightarrow> ?go (Some held) (rhValue held)
         | None \<Rightarrow> tryR (findHolder ch (resourceRefOf (ruReplica run) (lhResource h))) (\<lambda>r. case r of
             Inl e \<Rightarrow> Pair (None, None, [], Some e) | Inr None \<Rightarrow> ?go None []
           | Inr (Some e) \<Rightarrow> (case enConfigJSON e of None \<Rightarrow> ?go None []
               | Some cfg \<Rightarrow> ?go (case decodeHolder ch e of Inl _ \<Rightarrow> None | Inr held \<Rightarrow> Some held) (label_of (ccLabels cfg) LabelResourceValue))))"
    unfolding execHook_def Let_def by (rule refl)
  show thesis
  proof (cases "lhResource h = [] \<or> ruHeld run \<noteq> None")
    case True
    with assms(1,3) eq go show ?thesis by (auto split: if_splits option.splits)
  next
    case False
    with assms(1) eq have t: "tryR (findHolder ch (resourceRefOf (ruReplica run) (lhResource h))) (\<lambda>r. case r of
             Inl e \<Rightarrow> Pair (None, None, [], Some e) | Inr None \<Rightarrow> ?go None []
           | Inr (Some e) \<Rightarrow> (case enConfigJSON e of None \<Rightarrow> ?go None []
               | Some cfg \<Rightarrow> ?go (case decodeHolder ch e of Inl _ \<Rightarrow> None | Inr held \<Rightarrow> Some held) (label_of (ccLabels cfg) LabelResourceValue))) cw
        = ((exit, held, value, err), cw')" by simp
    then show ?thesis
    proof (cases rule: tryR_sumE)
      case (Inl e cw1)
      with lookup ckeepsD [OF assms(2) Inl(1)] show ?thesis by auto
    next
      case (Inr e cw1)
      note s = ckeepsD [OF assms(2) Inr(1)]
      show ?thesis
      proof (cases e)
        case None
        with Inr(2) go [OF _ s] show ?thesis by simp
      next
        case (Some x)
        with Inr(2) go [OF _ s] show ?thesis by (cases "enConfigJSON x") simp_all
      qed
    qed
  qed
qed

lemma onFailure_store:
  assumes "onFailure ch run h exec exit held value e cw = (we, cw')"
  shows "OnError_resolved (leOnError exec) \<noteq> OnErrorIgnore \<or> we \<noteq> (None, None) \<or> lhResource h = [] \<or> acquires (ruEvent run) \<Longrightarrow> storeOf cw' = storeOf cw"
    and "we = (None, None) \<Longrightarrow> OnError_resolved (leOnError exec) = OnErrorIgnore"
  using assms by (auto simp: onFailure_def Let_def tryR_def split: if_splits OnError.splits prod.splits)

lemma onFailure_drops:
  assumes "onFailure ch run h exec exit held value e cw = ((None, None), cw')" "soundHost ch" "heldIn i (storeOf cw)"
    and "lhResource h \<noteq> []" "\<not> acquires (ruEvent run)"
  shows "heldS i (storeOf cw) (storeOf cw') \<or> droppedRow (resourceRefOf (ruReplica run) (lhResource h)) i (storeOf cw) (storeOf cw')"
proof -
  let ?cw = "recordFailure (failureRecord run h exec held value (ErrWrap ''hook'' e) (ctxDone cw)) cw"
  obtain r where "dropHolder ch (resourceRefOf (ruReplica run) (lhResource h)) (reportHook ch run PhaseHookIgnored (Some (ErrWrap ''hook'' e)) exit ?cw) = (r, cw')"
    using assms(1,4,5) by (auto simp: onFailure_def Let_def tryR_def split: if_splits OnError.splits prod.splits)
  from dropHolder_outcome [OF this assms(2)] assms(3) show ?thesis by auto
qed

lemma execHook_releases:
  assumes "execHook ch run h exec cw = ((exit, held, value, err), cw')" "soundHost ch" "heldIn i (storeOf cw)"
    and "ruExec run = ExecCommandName nm hk ev" "lhResource h \<noteq> []" "\<not> acquires (ruEvent run)"
  shows "releaseOutcome (resourceRefOf (ruReplica run) (lhResource h)) i (storeOf cw) err (storeOf cw')"
  using assms(1) held_findHolder held.S_refl
proof (cases rule: execHook_via_value [where S = "heldS i"])
  case (run cw1 v err')
  then have "heldIn i (storeOf cw1)" using assms(3) by (simp add: heldS_def)
  from outcome_heldS [OF run(1) assms(3) execHookValue_releases [OF run(2) assms(2) this assms(4-6)]] run(3)
  show ?thesis by (simp add: releaseOutcome_def)
qed (simp add: releaseOutcome_def)

text \<open>C21: A lifecycle hook that releases a resource keeps the value that the holder of the resource
  stores until the release worked: whatever call to the database, the file system or a monitor fails,
  whatever the context does and whatever else monitors write, a run that ends in a failure or a
  warning leaves the rows of every holder as they were. A run that reports neither, with an on_error
  other than ignore, has removed the holder of its resource; one under ignore may have removed
  it. The holders of other resources are never touched.\<close>

theorem release_settles_holder:
  assumes "soundHost ch" "heldIn i (storeOf cw)" "ruExec run = ExecCommandName name hook ev"
    and "lhResource h \<noteq> []" "\<not> acquires (ruEvent run)"
    and "runHookAs ch run h exec cw = ((warning, err), cw')"
  shows "let own = ownsRow (resourceRefOf (ruReplica run) (lhResource h)) (rowOf i (storeOf cw))
    in if \<not> own \<or> warning \<noteq> None \<or> err \<noteq> None then rowOf i (storeOf cw') = rowOf i (storeOf cw)
       else if OnError_resolved (leOnError exec) = OnErrorIgnore then rowOf i (storeOf cw') \<in> {rowOf i (storeOf cw), ([], None)}
       else rowOf i (storeOf cw') = ([], None)"
proof -
  let ?ref = "resourceRefOf (ruReplica run) (lhResource h)"
  obtain exit held v e cw1 where x: "execHook ch run h exec cw = ((exit, held, v, e), cw1)"
    and k: "(case e of None \<Rightarrow> (\<lambda>cw. ((None, None), reportHook ch run PhaseHookSucceeded None exit cw))
      | Some e \<Rightarrow> onFailure ch run h exec exit held v e) cw1 = ((warning, err), cw')"
    using assms(6) by (auto simp: runHookAs_def tryR_def split: prod.splits)
  note o = execHook_releases [OF x assms(1-5)]
  show ?thesis
  proof (cases e)
    case None
    with k have "warning = None \<and> err = None \<and> storeOf cw' = storeOf cw1" by auto
    with o None assms(2) show ?thesis by (auto simp: releaseOutcome_def droppedRow_def heldS_def Let_def)
  next
    case (Some y)
    then have s: "heldS i (storeOf cw) (storeOf cw1)" and f: "onFailure ch run h exec exit held v y cw1 = ((warning, err), cw')"
      using o k by (simp_all add: releaseOutcome_def)
    then have h1: "heldIn i (storeOf cw1)" using assms(2) by (simp add: heldS_def)
    show ?thesis
    proof (cases "warning = None \<and> err = None")
      case True
      have "heldS i (storeOf cw) (storeOf cw') \<or> droppedRow ?ref i (storeOf cw) (storeOf cw')"
        using onFailure_drops [OF f [unfolded conjunct1 [OF True] conjunct2 [OF True]] assms(1) h1 assms(4,5)]
          dropped_heldS [OF s assms(2)] heldS_trans [OF s] by blast
      with True onFailure_store(2) [OF f] assms(2) show ?thesis by (auto simp: Let_def droppedRow_def heldS_def split: if_splits)
    next
      case False
      with onFailure_store(1) [OF f] s assms(2) show ?thesis by (auto simp: Let_def heldS_def)
    qed
  qed
qed

end
