(* ===== verification/Hook_Acquire.thy ===== *)
theory Hook_Acquire
  imports Hook_Resources
begin

text \<open>
  The run of a hook that acquires: the holder of its resource is created or replaced as a whole, and
  stores what the hook printed.
\<close>

section \<open>A create that replaces, and the holders\<close>

lemma held_Replace: "old \<noteq> i \<Longrightarrow> idLike k \<Longrightarrow> \<not> idLike name \<Longrightarrow> keeps (heldS i) (ReplaceCommand h old k name cfg)"
proof (rule keepsI)
  fix w :: World
  assume a: "old \<noteq> i" "idLike k" "\<not> idLike name"
  have "heldS i st st'" if "writeRow (\<lambda>st. bindE (insertConfigRow r (deleteCommandRows old st)) (insertStateRow k s)) st = Inr (u, st')"
    "crID r = k" "crName r = nullableString name" for r s st st' u
  proof -
    from that(1) obtain st1 where st1: "insertConfigRow r (deleteCommandRows old st) = Inr st1" "insertStateRow k s st1 = Inr st'"
      by (auto simp: writeRow_def bindE_def split: sum.splits)
    have "heldS i (deleteCommandRows old st) st1"
      using a(2,3) that(2,3) by (intro heldS_insert [OF st1(1)]) (auto simp: nullableString_def split: if_splits)
    then show ?thesis using heldS_delete [OF a(1)] heldS_insertState [OF st1(2)] by (blast intro: heldS_trans)
  qed
  then have "keeps (heldS i) (query h (writeRow (\<lambda>st. bindE (insertConfigRow r (deleteCommandRows old st)) (insertStateRow k s))))"
    if "crID r = k" "crName r = nullableString name" for r s using that by (intro held.keeps_query)
  then show "heldS i (wStore w) (wStore (snd (ReplaceCommand h old k name cfg w)))" by (simp add: ReplaceCommand_def keeps_def)
qed

text \<open>The frames of the two ways a swap can end.\<close>

lemma held_afterReplace:
  "keeps (heldS i) (\<lambda>w. case r of
       Inl e \<Rightarrow> (Inl (ErrWrap ''replace'' e), removeDir h d w)
     | Inr _ \<Rightarrow> let w = (if c then removeDir h d' w else w) in (Inr (), emitEvent EventTypeRemoved old (removeDir h rd w)))"
  for r :: "SvcErr + unit"
  using held.keeps_removeDir held.S_trans by (auto simp: keeps_def Let_def split: sum.split) blast

lemma held_swap: "old \<noteq> i \<Longrightarrow> idLike k \<Longrightarrow> \<not> idLike name \<Longrightarrow> keeps (heldS i) (swapCommand h old k name cfg oldCfg rd)"
  unfolding swapCommand_def by (intro held.keeps_steps held_Replace held_afterReplace)

lemma held_swap_Inl:
  assumes "swapCommand h old k name cfg oldCfg rd w = (Inl e, w')"
  shows "heldS i (wStore w) (wStore w')"
proof -
  from assms consider e0 where "WriteCommandConfig h (ccCommandDir cfg) cfg w = (Inl e0, w')"
    | w1 e1 w2 where "WriteCommandConfig h (ccCommandDir cfg) cfg w = (Inr (), w1)"
        "ReplaceCommand h old k name cfg w1 = (Inl e1, w2)" "w' = removeDir h (ccCommandDir cfg) w2"
    unfolding swapCommand_def bindR_Inl
    by (auto simp: wrapR_def wrapE_def Let_def elim!: tryR_sumE split: prod.splits sum.splits)
  then show ?thesis
  proof cases
    case 2
    have "wStore w2 = monitorsAct h (wTick w1) (wStore w1)" using 2(2) unfolding ReplaceCommand_def by (rule query_Inl)
    then show ?thesis
      using keepsD [OF held.keeps_WriteCommandConfig 2(1)] heldS_monitors held.keeps_removeDir 2(3) by (metis heldS_trans)
  qed (use keepsD [OF held.keeps_WriteCommandConfig] in blast)
qed

definition namedRow :: "string \<Rightarrow> ConfigRow list \<times> StateRow option \<Rightarrow> bool" where
  "namedRow n = (\<lambda>(cs, _). list_ex (\<lambda>c. crName c = Some n) cs)"

lemma resolved_row:
  assumes "ResolveIDByName h n w = (Inr old, w')" "store_ok (wStore w)"
  shows "\<exists>c \<in> set (dbConfig (wStore w')). crName c = Some n \<and> crID c = old"
proof -
  have ok: "store_ok (wStore w')" using keepsD [OF ok.keeps_ResolveIDByName assms(1)] assms(2) by (simp add: okS_def)
  have "idNamed n (wStore w') = Some old"
    using assms(1) by (auto simp: ResolveIDByName_def query_def bindR_def readRow_def split: prod.splits sum.splits option.splits)
  then show ?thesis unfolding idNamed_row [OF ok] .
qed

text \<open>Reads, whatever relation they are to keep.\<close>

definition onlyRead :: "Host \<Rightarrow> World \<Rightarrow> World \<Rightarrow> bool" where
  "onlyRead h w w' \<longleftrightarrow> (\<forall>S. store_frame h S \<longrightarrow> S (wStore w) (wStore w'))"

lemma onlyReadI: "(\<And>S. store_frame h S \<Longrightarrow> keeps S f) \<Longrightarrow> f w = (r, w') \<Longrightarrow> onlyRead h w w'"
  by (auto simp: onlyRead_def dest: keepsD)

lemma onlyRead_trans: "onlyRead h a b \<Longrightarrow> onlyRead h b c \<Longrightarrow> onlyRead h a c"
  unfolding onlyRead_def by (meson store_frame.S_trans)

lemma onlyReadD: "onlyRead h w w' \<Longrightarrow> store_frame h S \<Longrightarrow> S (wStore w) (wStore w')"
  unfolding onlyRead_def by (drule spec [of _ S]) (erule mp)

lemma replaceOrInsert_cases:
  assumes "replaceOrInsertCommand h k name cfg w = (r, w')"
  obtains (insert) e w1 where "ResolveIDByName h name w = (Inl e, w1)" "insertCommand h k name cfg w1 = (r, w')"
    | (refused) e where "r = Inl e" "onlyRead h w w'"
    | (swap) old w1 w2 oldCfg rd where "ResolveIDByName h name w = (Inr old, w1)" "swapCommand h old k name cfg oldCfg rd w2 = (r, w')"
        "onlyRead h w1 w2"
proof -
  from assms show thesis unfolding replaceOrInsertCommand_def
  proof (cases rule: tryR_sumE)
    case (Inl e w1)
    show thesis
    proof (cases "errorsIs e ErrNoRows")
      case False
      with Inl have "r = Inl (ErrWrap ''look up'' e)" "ResolveIDByName h name w = (Inl e, w')" by auto
      then show thesis using refused onlyReadI [OF store_frame.keeps_ResolveIDByName] by blast
    qed (use Inl insert in simp)
  next
    case (Inr old w1)
    have o1: "onlyRead h w w1" using onlyReadI [OF store_frame.keeps_ResolveIDByName Inr(1)] .
    obtain r2 w2 where g: "GetCommandState h old w1 = (r2, w2)" by (metis surj_pair)
    have o2: "onlyRead h w1 w2" using onlyReadI [OF store_frame.keeps_GetCommandState g] .
    show thesis
    proof (cases "\<exists>s. r2 = Inr s \<and> \<not> isLive (srState s)")
      case False
      with Inr(2) g have "\<exists>e. r = Inl e" "w2 = w'" by (auto simp: bindR_def wrapR_def wrapE_def split: sum.splits if_splits)
      with refused onlyRead_trans [OF o1 o2] show thesis by auto
    next
      case True
      obtain r3 w3 where c: "GetCommandConfig h old w2 = (r3, w3)" by (metis surj_pair)
      have o3: "onlyRead h w1 w3" using onlyRead_trans [OF o2 onlyReadI [OF store_frame.keeps_GetCommandConfig c]] .
      from Inr(2) True g c have t: "(case r3 of Inl e \<Rightarrow> (Inl (ErrWrap ''get config'' e), w3)
          | Inr (_, _, oldCfg) \<Rightarrow> (case MonitorRuntimeDir (hoConfig h) old of
              Inl e \<Rightarrow> (Inl e, w3) | Inr rd \<Rightarrow> swapCommand h old k name cfg oldCfg rd w3)) = (r, w')"
        by (auto simp: bindR_def wrapR_def wrapE_def split: sum.splits prod.splits)
      show thesis
      proof (cases "\<exists>x rd. r3 = Inr x \<and> MonitorRuntimeDir (hoConfig h) old = Inr rd")
        case True
        with t swap [OF Inr(1) _ o3] show thesis by (auto split: prod.splits)
      next
        case False
        with t have "\<exists>e. r = Inl e" "w3 = w'" by (auto split: sum.splits prod.splits)
        with refused onlyRead_trans [OF o1 o3] show thesis by auto
      qed
    qed
  qed
qed

lemma held_replaceOrInsert:
  assumes "replaceOrInsertCommand h k name cfg w = (r, w')" "heldIn i (wStore w)" "idLike k" "\<not> idLike name"
    and "isl r \<or> \<not> namedRow name (rowOf i (wStore w))"
  shows "heldS i (wStore w) (wStore w')"
  using assms(1)
proof (cases rule: replaceOrInsert_cases)
  case (insert e w1)
  show ?thesis using heldS_trans [OF keepsD [OF held.keeps_ResolveIDByName insert(1)] keepsD [OF held_insertCommand [OF assms(3,4)] insert(2)]] .
next
  case (refused e)
  show ?thesis using onlyReadD [OF refused(2)] held.store_frame_axioms .
next
  case (swap old w1 w2 oldCfg rd)
  note s1 = keepsD [OF held.keeps_ResolveIDByName swap(1), of i]
  have s2: "heldS i (wStore w) (wStore w2)" using heldS_trans [OF s1 onlyReadD [OF swap(3) held.store_frame_axioms]] .
  show ?thesis
  proof (cases "old = i")
    case False
    show ?thesis using heldS_trans [OF s2 keepsD [OF held_swap [OF False assms(3,4)] swap(2)]] .
  next
    case True
    obtain c where "c \<in> set (dbConfig (wStore w1))" "crName c = Some name" "crID c = i"
      using resolved_row [OF swap(1)] held_unattended [OF assms(2)] True by blast
    then have "namedRow name (rowOf i (wStore w1))" by (auto simp: namedRow_def rowOf_def list_ex_iff)
    moreover have "rowOf i (wStore w1) = rowOf i (wStore w)" using s1 assms(2) by (simp add: heldS_def)
    ultimately obtain e where "r = Inl e" using assms(5) by (cases r) auto
    with swap(2) show ?thesis by (blast intro: heldS_trans [OF s2] held_swap_Inl)
  qed
qed

section \<open>The row of a created command\<close>

definition createdIn :: "string \<Rightarrow> string \<Rightarrow> CommandConfig \<Rightarrow> Store \<Rightarrow> bool" where
  "createdIn k name cfg st \<longleftrightarrow> store_ok st \<and> map_of (dbState st) k = Some createdRow \<and>
     (\<exists>c \<in> set (dbConfig st). crID c = k \<and> crName c = nullableString name \<and> crConfig c = cfg)"

lemma query_created: "query h (writeRow f) w = (Inr u, w') \<Longrightarrow> \<exists>w0 :: World. outside h w = (Inr (), w0) \<and> f (wStore w0) = Inr (wStore w')"
  by (auto simp: query_def bindR_def writeRow_def split: prod.splits sum.splits)

lemma insertCommand_created:
  assumes "insertCommand h k name cfg w = (Inr u, w')" "store_ok (wStore w)"
  shows "createdIn k name cfg (wStore w')" "\<exists>w0. outside h w = (Inr (), w0) \<and> k \<notin> crID ` set (dbConfig (wStore w0))"
proof -
  from assms(1) obtain w1 w2 where ins: "InsertCommandConfig h k name cfg w = (Inr (), w1)"
    and wr: "WriteCommandConfig h (ccCommandDir cfg) cfg w1 = (Inr (), w2)"
    and st: "InsertCommandState h k EventTypeCreated zeroState w2 = (Inr (), w')"
    by (auto simp: insertCommand_def bindR_Inr wrapR_Inr)
  let ?r = "\<lparr> crID = k, crName = nullableString name, crCreatedAt = hoNow h (wTick w), crConfig = cfg \<rparr>"
  from query_created [OF ins [unfolded InsertCommandConfig_def]] obtain w0 where o: "outside h w = (Inr (), w0)"
    and q: "insertConfigRow ?r (wStore w0) = Inr (wStore w1)" by blast
  have ok0: "store_ok (wStore w0)" using keepsD [OF ok.keeps_outside o] assms(2) by (simp add: okS_def)
  have fresh: "k \<notin> crID ` set (dbConfig (wStore w0))" using q by (auto simp: insertConfigRow_def split: if_splits)
  with o show "\<exists>w0. outside h w = (Inr (), w0) \<and> k \<notin> crID ` set (dbConfig (wStore w0))" by blast
  have ok1: "store_ok (wStore w1)" using store_ok_insert [OF ok0 q] .
  have "dbState (wStore w1) = dbState (wStore w0)" "?r \<in> set (dbConfig (wStore w1))" using q by (auto simp: insertConfigRow_def split: if_splits dest!: sym [of _ "wStore w1"])
  moreover have "k \<notin> set (keys_of (dbState (wStore w0)))" using ok0 fresh unfolding store_ok_def by blast
  ultimately have r1: "map_of (dbState (wStore w1)) k = None" "?r \<in> set (fst (rowOf k (wStore w1)))"
    by (simp_all add: map_of_None_iff rowOf_def)
  from query_created [OF st [unfolded InsertCommandState_def]] obtain w3 where o3: "outside h w2 = (Inr (), w3)"
    and q3: "insertStateRow k createdRow (wStore w3) = Inr (wStore w')" unfolding createdRow_def by blast
  have "sameRow k (wStore w1) (wStore w3)"
    using sameRow_trans [OF keepsD [OF row.keeps_WriteCommandConfig wr] keepsD [OF row.keeps_outside o3]] .
  then have ok3: "store_ok (wStore w3)" and same: "rowOf k (wStore w3) = rowOf k (wStore w1)"
    using ok1 r1(1) by (simp_all add: sameRow_def unattended_def)
  have w': "dbConfig (wStore w') = dbConfig (wStore w3)" "dbState (wStore w') = dbState (wStore w3) @ [(k, createdRow)]"
    using q3 by (auto simp: insertStateRow_def split: if_splits dest!: sym [of _ "wStore w'"])
  have "?r \<in> set (dbConfig (wStore w'))" using r1(2) unfolding same [symmetric] w' by (simp add: rowOf_def)
  moreover have "map_of (dbState (wStore w')) k = Some createdRow" unfolding w' using same r1(1) by (simp add: rowOf_def map_add_def)
  ultimately show "createdIn k name cfg (wStore w')"
    unfolding createdIn_def using store_ok_insertState [OF ok3 q3] by (intro conjI bexI [of _ ?r]) simp_all
qed

text \<open>A command that is there, under its name, and that no monitor removes.\<close>

definition execIn :: "string \<Rightarrow> string \<Rightarrow> Store \<Rightarrow> bool" where
  "execIn j n st \<longleftrightarrow> store_ok st \<and> (\<exists>c \<in> set (dbConfig st). crID c = j \<and> crName c = Some n \<and> \<not> autoRemoves (crConfig c))"

lemma execIn_id: "execIn j n st \<Longrightarrow> j \<in> crID ` set (dbConfig st)"
  by (auto simp: execIn_def)

definition presentS :: "string \<Rightarrow> string \<Rightarrow> Store \<Rightarrow> Store \<Rightarrow> bool" where
  "presentS j n st st' \<longleftrightarrow> (execIn j n st \<longrightarrow> execIn j n st')"

lemma configRow_unique: "store_ok st \<Longrightarrow> c \<in> set (dbConfig st) \<Longrightarrow> configRow st (crID c) = Some c"
proof -
  assume ok: "store_ok st" and c: "c \<in> set (dbConfig st)"
  obtain d where d: "configRow st (crID c) = Some d"
    using c by (cases "configRow st (crID c)") (auto simp: configRow_def find_None_iff)
  then have "d \<in> set (dbConfig st)" "crID d = crID c" by (auto simp: configRow_def find_Some_iff)
  with row_by_id [OF ok c] d show ?thesis by metis
qed

lemma present_monitors: "presentS j n st (monitorsAct h t st)"
proof -
  have "execIn j n st' \<Longrightarrow> execIn j n (monitorAct h t x st')" for x st'
  proof -
    assume e: "execIn j n st'"
    then obtain c where c: "c \<in> set (dbConfig st')" "crID c = j" "crName c = Some n" "\<not> autoRemoves (crConfig c)" and ok: "store_ok st'"
      by (auto simp: execIn_def)
    obtain i r where x: "x = (i, r)" by (cases x)
    have "i \<noteq> j" if "configRow st' i = Some d" "autoRemoves (crConfig d)" for d using that configRow_unique [OF ok c(1)] c(2,4) by auto
    then have "c \<in> set (dbConfig (monitorAct h t x st'))"
      using c(1,2) x by (auto simp: monitorAct_def deleteCommandRows_def split: option.splits)
    moreover have "store_ok (monitorAct h t x st')"
      using ok x by (auto simp: monitorAct_def store_ok_update store_ok_delete split: option.split)
    ultimately show ?thesis using c by (auto simp: execIn_def)
  qed
  then have "execIn j n st' \<Longrightarrow> execIn j n (fold (monitorAct h t) xs st')" for xs st'
    by (induction xs arbitrary: st') auto
  then show ?thesis by (simp add: presentS_def monitorsAct_def)
qed

interpretation present: update_frame h "presentS j n" i for h j n i
  by unfold_locales (auto simp: presentS_def [of j n st st for st] present_monitors presentS_def [of j n st "st\<lparr> dbState := _ \<rparr>" for st] execIn_def store_ok_update
      | auto simp: presentS_def)+

lemma present_query: "(\<And>st x st'. q st = Inr (x, st') \<Longrightarrow> presentS j n st st') \<Longrightarrow> keeps (presentS j n) (query h q)"
  by (rule present.keeps_query)

lemma present_insertState: "keeps (presentS j n) (InsertCommandState h k s js)"
  unfolding InsertCommandState_def
proof (rule present_query)
  show "presentS j n st st'" if "writeRow (insertStateRow k \<lparr> srState = s, srExitCode = None, srJSON = js \<rparr>) st = Inr (x, st')" for st x st'
  proof -
    have i: "insertStateRow k \<lparr> srState = s, srExitCode = None, srJSON = js \<rparr> st = Inr st'" using that by (auto simp: writeRow_def split: sum.splits)
    then have "dbConfig st' = dbConfig st" by (auto simp: insertStateRow_def split: if_splits)
    with store_ok_insertState [OF _ i] show ?thesis by (auto simp: presentS_def execIn_def)
  qed
qed

lemma insertCommand_present:
  assumes "insertCommand h k name cfg w = (Inr u, w')" "store_ok (wStore w)" "\<not> autoRemoves cfg" "name \<noteq> []"
  shows "execIn k name (wStore w')"
proof -
  from insertCommand_created(1) [OF assms(1,2)] obtain c where "store_ok (wStore w')" "c \<in> set (dbConfig (wStore w'))" "crID c = k"
    "crName c = nullableString name" "crConfig c = cfg" by (auto simp: createdIn_def)
  with assms(3,4) show ?thesis by (auto simp: execIn_def nullableString_def)
qed

lemma Create_present:
  assumes "Create h req w = (Inr j, w')" "store_ok (wStore w)" "\<not> rqReplace req" "\<not> rqAutoRemove req" "rqName req \<noteq> []"
  shows "execIn j (rqName req) (wStore w')"
  using assms(1)
proof (cases rule: Create_cases)
  case (stored cfg)
  then obtain w1 u w2 where o: "openStore h w = (Inr u, w1)" and c: "insertCommand h (hoID h (wTick w)) (rqName req) cfg w1 = (Inr (), w2)"
    and e: "j = hoID h (wTick w)" "wStore w' = wStore w2"
    using assms(3) by (auto simp: storeCommand_def bindR_Inr)
  have "ccAnnotations (buildCommandConfig h req) = []" using assms(4) by (simp add: buildCommandConfig_def Let_def)
  with createConfig_Inr(3) [OF stored(1)] have "\<not> autoRemoves cfg" by (simp add: autoRemoves_def)
  with insertCommand_present [OF c _ _ assms(5)] keepsD [OF ok.keeps_openStore o] assms(2) e show ?thesis by (simp add: okS_def)
qed simp

text \<open>The holder is stored next to the exec command whose output it keeps.\<close>

lemma replaceOrInsert_creates:
  assumes "replaceOrInsertCommand h k name cfg w = (Inr u, w')" "store_ok (wStore w)" "execIn j n (wStore w)" "n \<noteq> name" "name \<noteq> []"
  shows "createdIn k name cfg (wStore w') \<and> k \<noteq> j"
  using assms(1)
proof (cases rule: replaceOrInsert_cases)
  case (insert e w1)
  have ok1: "store_ok (wStore w1)" using keepsD [OF ok.keeps_ResolveIDByName insert(1)] assms(2) by (simp add: okS_def)
  obtain w0 :: World where o: "outside h w1 = (Inr (), w0)" and k: "k \<notin> crID ` set (dbConfig (wStore w0))"
    using insertCommand_created(2) [OF insert(2) ok1] by blast
  have "presentS j n (wStore w) (wStore w0)"
    using keepsD [OF present.keeps_ResolveIDByName insert(1)] keepsD [OF present.keeps_outside o] by (rule present.S_trans)
  with assms(3) k execIn_id have "k \<noteq> j" by (auto simp only: presentS_def)
  with insertCommand_created(1) [OF insert(2) ok1] show ?thesis by simp
next
  case (swap old w1 w2 oldCfg rd)
  note res = swap(1)
  have ok1: "store_ok (wStore w1)" "execIn j n (wStore w1)"
    using keepsD [OF ok.keeps_ResolveIDByName res] keepsD [OF present.keeps_ResolveIDByName res, of j n] assms(2,3) by (simp_all add: okS_def presentS_def)
  have "old \<noteq> j" using resolved_row [OF res assms(2)] ok1 row_by_id assms(4) unfolding execIn_def by (metis option.inject)
  have ok2: "store_ok (wStore w2)" "execIn j n (wStore w2)"
    using onlyReadD [OF swap(3) ok.store_frame_axioms] onlyReadD [OF swap(3) present.store_frame_axioms, of j n] ok1 by (simp_all add: okS_def presentS_def)
  from swap(2) obtain w3 where wr: "WriteCommandConfig h (ccCommandDir cfg) cfg w2 = (Inr (), w3)"
    and t: "tryR (ReplaceCommand h old k name cfg) (\<lambda>r w. case r of
         Inl e \<Rightarrow> (Inl (ErrWrap ''replace'' e), removeDir h (ccCommandDir cfg) w)
       | Inr _ \<Rightarrow> let w = (if ccCommandDir oldCfg \<noteq> [] then removeDir h (ccCommandDir oldCfg) w else w)
           in (Inr (), emitEvent EventTypeRemoved old (removeDir h rd w))) w3 = (Inr u, w')"
    by (auto simp: swapCommand_def bindR_Inr wrapR_Inr)
  from t obtain w4 where rp: "ReplaceCommand h old k name cfg w3 = (Inr (), w4)"
    by (cases rule: tryR_sumE) auto
  from query_created [OF rp [unfolded ReplaceCommand_def]] obtain w5 where o: "outside h w3 = (Inr (), w5)"
    and q: "bindE (insertConfigRow \<lparr> crID = k, crName = nullableString name, crCreatedAt = hoNow h (wTick w3), crConfig = cfg \<rparr>
        (deleteCommandRows old (wStore w5))) (insertStateRow k \<lparr> srState = EventTypeCreated, srExitCode = None, srJSON = zeroState \<rparr>) = Inr (wStore w4)" by blast
  have "execIn j n (wStore w5)"
    using keepsD [OF present.keeps_WriteCommandConfig wr, of j n] keepsD [OF present.keeps_outside o, of j n] ok2(2) by (simp add: presentS_def)
  then have "j \<in> crID ` set (dbConfig (deleteCommandRows old (wStore w5)))" using \<open>old \<noteq> j\<close> by (auto simp: execIn_def deleteCommandRows_def)
  moreover have "k \<notin> crID ` set (dbConfig (deleteCommandRows old (wStore w5)))"
    using q by (auto simp: bindE_Inr insertConfigRow_def split: if_splits)
  ultimately have "k \<noteq> j" by blast
  with swap_Inr [OF swap(2) ok2(1) assms(5)] assms(5) show ?thesis by (auto simp: createdIn_def swapped_def nullableString_def)
qed simp

section \<open>What a put leaves\<close>

lemma replacing_Create:
  assumes "Create h req w = (r, w')" "rqReplace req" "\<not> idLike (rqName req)" "\<And>t. idLike (hoID h t)"
  shows "heldIn i (wStore w) \<Longrightarrow> isl r \<or> \<not> namedRow (rqName req) (rowOf i (wStore w)) \<Longrightarrow> heldS i (wStore w) (wStore w')"
    and "r = Inr k \<Longrightarrow> store_ok (wStore w) \<Longrightarrow> execIn j n (wStore w) \<Longrightarrow> n \<noteq> rqName req \<Longrightarrow>
      k \<noteq> j \<and> (\<exists>cfg. createConfig h req k = Inr cfg \<and> createdIn k (rqName req) cfg (wStore w'))"
proof -
  let ?k = "hoID h (wTick w)"
  have "(heldIn i (wStore w) \<longrightarrow> isl r \<or> \<not> namedRow (rqName req) (rowOf i (wStore w)) \<longrightarrow> heldS i (wStore w) (wStore w')) \<and>
    (r = Inr k \<longrightarrow> store_ok (wStore w) \<longrightarrow> execIn j n (wStore w) \<longrightarrow> n \<noteq> rqName req \<longrightarrow>
      k \<noteq> j \<and> (\<exists>cfg. createConfig h req k = Inr cfg \<and> createdIn k (rqName req) cfg (wStore w')))"
    using assms(1)
  proof (cases rule: Create_cases)
    case (stored cfg)
    obtain r1 w1 where o: "openStore h w = (r1, w1)" by (metis surj_pair)
    show ?thesis
    proof (cases r1)
      case (Inl e)
      with stored(2) o keepsD [OF held.keeps_openStore o] show ?thesis by (auto simp: storeCommand_def bindR_def)
    next
      case (Inr u)
      obtain r2 w2 where c: "replaceOrInsertCommand h ?k (rqName req) cfg w1 = (r2, w2)" by (metis surj_pair)
      have r: "isl r = isl r2" "wStore w' = wStore w2" "r = Inr x \<Longrightarrow> x = ?k \<and> r2 = Inr ()" for x
        using stored(2) o Inr assms(2) c by (auto simp: storeCommand_def bindR_def split: sum.splits)
      note s1 = keepsD [OF held.keeps_openStore o, of i] and ok1 = keepsD [OF ok.keeps_openStore o] and p1 = keepsD [OF present.keeps_openStore o, of j n]
      have ne: "rqName req \<noteq> []" using createConfig_Inr(1) [OF stored(1) assms(2)] .
      have "heldS i (wStore w) (wStore w2)" if held: "heldIn i (wStore w)" and i: "isl r \<or> \<not> namedRow (rqName req) (rowOf i (wStore w))"
      proof -
        have "heldIn i (wStore w1)" "rowOf i (wStore w1) = rowOf i (wStore w)" using s1 held by (simp_all add: heldS_def)
        with held_replaceOrInsert [OF c _ assms(4,3)] i r(1) heldS_trans [OF s1] show ?thesis by auto
      qed
      moreover have "k \<noteq> j \<and> (\<exists>cfg. createConfig h req k = Inr cfg \<and> createdIn k (rqName req) cfg (wStore w2))"
        if "r = Inr k" "store_ok (wStore w)" "execIn j n (wStore w)" "n \<noteq> rqName req"
        using replaceOrInsert_creates [of h ?k "rqName req" cfg w1 "()" w2 j n] c r(3) [OF that(1)] that ok1 p1 ne stored(1)
        by (auto simp: okS_def presentS_def)
      ultimately show ?thesis by (simp add: r(2))
    qed
  qed (auto simp: held.S_refl)
  then show "heldIn i (wStore w) \<Longrightarrow> isl r \<or> \<not> namedRow (rqName req) (rowOf i (wStore w)) \<Longrightarrow> heldS i (wStore w) (wStore w')"
    and "r = Inr k \<Longrightarrow> store_ok (wStore w) \<Longrightarrow> execIn j n (wStore w) \<Longrightarrow> n \<noteq> rqName req \<Longrightarrow>
      k \<noteq> j \<and> (\<exists>cfg. createConfig h req k = Inr cfg \<and> createdIn k (rqName req) cfg (wStore w'))" by blast+
qed

text \<open>The JSON of a release reads back; it is never empty.\<close>

definition releaseCodec :: "ComposeHost \<Rightarrow> bool" where
  "releaseCodec ch \<longleftrightarrow> (\<forall>rel s. chEncodeRelease ch rel = Some s \<longrightarrow> s \<noteq> [] \<and> chDecodeRelease ch s = Some rel)"

definition holderFits :: "resourceHolder \<Rightarrow> bool" where
  "holderFits res \<longleftrightarrow> rhDir res \<noteq> [] \<and> minInt64 \<le> rrScaleIndex (rhRef res) \<and> rrScaleIndex (rhRef res) \<le> maxInt64"

lemma holder_config:
  assumes "holder_createRequest ch res = Inr req" "createConfig h req k = Inr cfg" "rhDir res \<noteq> []"
  shows "holder_labels ch res = Inr (ccLabels cfg)" "ccDir cfg = rhDir res" "ccEnv cfg = rhEnv res" "rqName req = holder_name res" "rqReplace req"
proof -
  from assms(1) obtain ls where ls: "holder_labels ch res = Inr ls" and req: "req = (intermediateRequest (holder_name res) (rhDir res) (rhEnv res) [''true''] ''none'' ls)\<lparr> rqInjectEnv := Some False, rqReplace := True \<rparr>"
    by (auto simp: holder_createRequest_def bindE_Inr)
  note c = createConfig_Inr [OF assms(2)]
  have b: "ccDir (buildCommandConfig h req) = rhDir res" "\<not> ccInjectEnv (buildCommandConfig h req)" "ccEnv (buildCommandConfig h req) = rhEnv res"
    using assms(3) unfolding req by (simp_all add: buildCommandConfig_def intermediateRequest_def Let_def)
  show "holder_labels ch res = Inr (ccLabels cfg)" "ccDir cfg = rhDir res" "ccEnv cfg = rhEnv res" "rqName req = holder_name res" "rqReplace req"
    using c(2,4,5) b ls unfolding req by (simp_all add: intermediateRequest_def)
qed

lemma holder_labels_lookup:
  assumes "holder_labels ch res = Inr ls"
  shows "map_of ls LabelIntermediate = Some IntermediateHolder" "label_of ls LabelHooksProject = rrProject (rhRef res)" "label_of ls LabelHooksWorkdir = rrWorkDir (rhRef res)"
    "label_of ls LabelResourceCommand = rrCommand (rhRef res)" "label_of ls LabelResourceScaleIndex = itoa (rrScaleIndex (rhRef res))"
    "label_of ls LabelResourceKey = rrKey (rhRef res)" "label_of ls LabelOwner = rhOwner res" "label_of ls LabelResourceValue = rhValue res"
    "list_all (\<lambda>(k, v). map_of ls k = Some v) (selector (rhRef res))"
    "case rhRelease res of None \<Rightarrow> label_of ls LabelResourceRelease = [] | Some rel \<Rightarrow> chEncodeRelease ch rel = Some (label_of ls LabelResourceRelease)"
  using assms by (auto simp: holder_labels_def Let_def selector_def label_of_def HookLabel_defs split: option.splits)

lemma decode_created:
  assumes "holder_labels ch res = Inr (ccLabels cfg)" "ccDir cfg = rhDir res" "ccEnv cfg = rhEnv res" "releaseCodec ch" "holderFits res"
    and "crConfig c = cfg"
  shows "decodeHolder ch (entryOf c s) = Inr res"
proof -
  have bf: "ccLabels (BackfillDefaults cfg) = ccLabels cfg" "ccDir (BackfillDefaults cfg) = ccDir cfg" "ccEnv (BackfillDefaults cfg) = ccEnv cfg"
    by (simp_all add: BackfillDefaults_def)
  note l = holder_labels_lookup [OF assms(1)]
  have idx: "atoi (itoa (rrScaleIndex (rhRef res))) = Some (rrScaleIndex (rhRef res))" using assms(5) by (intro atoi_itoa) (simp_all add: holderFits_def)
  show ?thesis
  proof (cases "rhRelease res")
    case None
    then show ?thesis using l(2-8) l(10) idx assms(2,3,6) by (simp add: decodeHolder_def entryOf_def bf Let_def)
  next
    case (Some rel)
    then have "label_of (ccLabels cfg) LabelResourceRelease \<noteq> []" "chDecodeRelease ch (label_of (ccLabels cfg) LabelResourceRelease) = Some rel"
      using l(10) assms(4) by (auto simp: releaseCodec_def)
    then show ?thesis using Some l(2-8) idx assms(2,3,6) by (simp add: decodeHolder_def entryOf_def bf Let_def)
  qed
qed

section \<open>A run that acquires\<close>

lemma putHolder_Create:
  assumes "putHolder ch res cw = (r, cw')"
  obtains (invalid) e where "holder_createRequest ch res = Inl e" "r = Inl e" "cw' = cw"
    | (created) req rc where "holder_createRequest ch res = Inr req" "Create (chHost ch) req (cwWorld cw) = (rc, cwWorld cw')" "isl r = isl rc"
  using assms by (auto simp: putHolder_def bindR_def wrapR_def wrapE_def svc_def split: sum.splits prod.splits)

lemma request_name: "holder_createRequest ch res = Inr req \<Longrightarrow> rqName req = holder_name res \<and> rqReplace req"
  by (auto simp: holder_createRequest_def bindE_Inr intermediateRequest_def)

lemma soundIDs: "soundHost ch \<Longrightarrow> idLike (hoID (chHost ch) t)"
  by (simp add: soundHost_def)

lemma put_keeps:
  assumes "putHolder ch res cw = (r, cw')" "soundHost ch" "heldIn i (storeOf cw)" "isl r \<or> \<not> namedRow (holder_name res) (rowOf i (storeOf cw))"
  shows "heldS i (storeOf cw) (storeOf cw')"
  using assms(1)
proof (cases rule: putHolder_Create)
  case (created req rc)
  note n = request_name [OF created(1)]
  show ?thesis
    using replacing_Create(1) [OF created(2) _ _ soundIDs [OF assms(2)]] n holder_name_no_id assms(3,4) created(3)
    by (simp add: holder_name_def storeOf_def)
qed (simp add: held.S_refl)

text \<open>The holder as a listing shows it.\<close>

definition holds :: "ComposeHost \<Rightarrow> resourceHolder \<Rightarrow> string \<Rightarrow> Store \<Rightarrow> bool" where
  "holds ch res k st \<longleftrightarrow> heldIn k st \<and> (\<exists>e \<in> set (listed True (selector (rhRef res)) st).
     enID e = k \<and> enName e = holder_name res \<and> decodeHolder ch e = Inr res)"

lemma put_holds:
  assumes "putHolder ch res cw = (Inr u, cw')" "soundHost ch" "releaseCodec ch" "holderFits res" "store_ok (storeOf cw)" "idsApart (storeOf cw)"
    and "execIn j n (storeOf cw)" "n \<noteq> holder_name res"
  shows "\<exists>k. k \<noteq> j \<and> holds ch res k (storeOf cw')"
  using assms(1)
proof (cases rule: putHolder_Create)
  case (created req rc)
  note n = request_name [OF created(1)]
  obtain k where rc: "rc = Inr k" using created(3) by (cases rc) auto
  obtain cfg where kj: "k \<noteq> j" and cfg: "createConfig (chHost ch) req k = Inr cfg" and c: "createdIn k (holder_name res) cfg (storeOf cw')"
    using replacing_Create(2) [OF created(2) _ _ soundIDs [OF assms(2)] rc, of j n] n holder_name_no_id assms(5,7,8)
    by (auto simp: holder_name_def storeOf_def)
  have dir: "rhDir res \<noteq> []" using assms(4) by (simp add: holderFits_def)
  note hc = holder_config [OF created(1) cfg dir]
  from c obtain d where d: "d \<in> set (dbConfig (storeOf cw'))" "crID d = k" "crName d = nullableString (holder_name res)" "crConfig d = cfg"
    and s: "map_of (dbState (storeOf cw')) k = Some createdRow" by (auto simp: createdIn_def)
  have "keeps wfS (Create (chHost ch) req)"
    using soundIDs [OF assms(2)] n holder_name_no_id by (intro wf.keeps_Create) (simp add: holder_name_def)
  from keepsD [OF this created(2)] have wf: "store_ok (storeOf cw')" "idsApart (storeOf cw')"
    using assms(5,6) by (auto simp: wfS_def storeOf_def)
  have "d \<in> set (fst (rowOf k (storeOf cw')))" using d(1,2) by (simp add: rowOf_def)
  then have "heldIn k (storeOf cw')" using wf holder_labels_lookup(1) [OF hc(1)] s d(4)
    by (auto simp: heldIn_def holderRow_def createdRow_def isLive_def rowOf_def)
  moreover have "entryOf d createdRow \<in> set (listed True (selector (rhRef res)) (storeOf cw'))"
    unfolding listed_row using d s holder_labels_lookup(9) [OF hc(1)] by (auto simp: hasLabels_def)
  moreover have "decodeHolder ch (entryOf d createdRow) = Inr res" using decode_created [OF hc(1-3) assms(3,4) d(4)] .
  moreover have "enID (entryOf d createdRow) = k" "enName (entryOf d createdRow) = holder_name res"
    using d(2,3) by (simp_all add: entryOf_def nullableString_def holder_name_def HolderName_def)
  ultimately show ?thesis unfolding holds_def using kj by blast
qed simp

lemma runExec_present:
  assumes "runExec ch run j cw = ((exit, None), cw')"
  shows "presentS j n (storeOf cw) (storeOf cw')"
proof -
  let ?wait = "svc (Wait (chHost ch) [j] EventTypeNone 0 False)"
  from assms obtain u cw1 where st: "svc (Start (chHost ch) j) cw = (Inr u, cw1)"
    and w: "snd (?wait (if chReporter ch then forwardHookOutput ch run j cw1 else cw1)) = cw'"
    by (auto simp: runExec_def tryR_def split: prod.splits sum.splits if_splits)
  have "keeps (presentS j n) (Start (chHost ch) j)"
    unfolding Start_def by (intro present.keeps_steps present.keeps_GetCommandConfig present.keeps_startCommand)
  from ckeepsD [OF ckeeps_svc [OF this] st] have s1: "presentS j n (storeOf cw) (storeOf cw1)" .
  have s2: "presentS j n (storeOf cw1) (storeOf (if chReporter ch then forwardHookOutput ch run j cw1 else cw1))"
    using present.ckeeps_forward [OF refl] present.S_refl by auto
  have "presentS j n (storeOf v) (storeOf (snd (?wait v)))" for v
    using ckeeps_svc [OF present.keeps_Wait] by (simp add: ckeeps_def)
  then show ?thesis using s1 s2 w by (metis present.S_trans)
qed

lemma ckeeps_wf_clear: "ckeeps wfS (clearStaleExecs ch labels)"
  unfolding clearStaleExecs_def
  by (intro wf.ckeeps_steps wf.keeps_List wf.ckeeps_clearExecs [OF refl]) (simp add: wf.keeps_Stop wf.keeps_Remove)

lemma ckeeps_wf_runExec: "ckeeps wfS (runExec ch run j)"
  by (rule wf.ckeeps_runExec [OF refl]) (rule wf.keeps_Start wf.keeps_Stop wf.keeps_List)+

text \<open>The value that a run read and stored.\<close>

definition printed :: "ComposeHost \<Rightarrow> string \<Rightarrow> bool" where
  "printed ch v \<longleftrightarrow> (\<exists>t j. bindE (chLogs ch t j) (\<lambda>rs. bindE (stdoutLines rs []) (\<lambda>ls. Inr (resourceValue ls))) = Inr v)"

definition stored :: "ComposeHost \<Rightarrow> hookRun \<Rightarrow> LifecycleHook \<Rightarrow> Store \<Rightarrow> bool" where
  "stored ch run h st \<longleftrightarrow> (\<exists>v k. printed ch v \<and> holds ch (acquiredHolder ch run h v) k st)"

text \<open>What a run that acquires is about: its replica has a directory, its scale index is an int64, and
  its command and its holder differ in name.\<close>

definition acquireFits :: "hookRun \<Rightarrow> LifecycleHook \<Rightarrow> bool" where
  "acquireFits run h \<longleftrightarrow> hrDir (ruReplica run) \<noteq> [] \<and> minInt64 \<le> hrScaleIndex (ruReplica run) \<and> hrScaleIndex (ruReplica run) \<le> maxInt64 \<and>
     ruExec run \<noteq> HolderName (hrName (ruReplica run)) (lhResource h) \<and> ruExec run \<noteq> []"

lemma acquired_fields: "holder_name (acquiredHolder ch run h v) = HolderName (hrName (ruReplica run)) (lhResource h)"
  "acquireFits run h \<Longrightarrow> holderFits (acquiredHolder ch run h v)"
  by (simp_all add: acquiredHolder_def Let_def holder_name_def resourceRefOf_def holderFits_def acquireFits_def)

lemma readValue_result:
  assumes "readResourceValue ch j cw = (r, cw')"
  shows "r = Inr v \<Longrightarrow> printed ch v" "store_frame (chHost ch) S \<Longrightarrow> S (storeOf cw) (storeOf cw')"
proof -
  show "r = Inr v \<Longrightarrow> printed ch v" using assms unfolding readResourceValue_def Let_def printed_def by blast
  show "store_frame (chHost ch) S \<Longrightarrow> S (storeOf cw) (storeOf cw')"
    using ckeepsD [OF store_frame.ckeeps_readValue [OF _ refl] assms] by blast
qed

lemma recordResource_acquires:
  assumes "recordResource ch run h j cw = (r, cw')" "acquires (ruEvent run)"
  obtains (unread) e where "r = Inl e" "\<And>i. heldS i (storeOf cw) (storeOf cw')"
    | (put) v cw1 where "printed ch v" "\<And>i. heldS i (storeOf cw) (storeOf cw1)" "wfS (storeOf cw) (storeOf cw1)"
        "\<And>n. presentS j n (storeOf cw) (storeOf cw1)" "putHolder ch (acquiredHolder ch run h v) cw1 = (r, cw')"
proof -
  obtain rv cw1 where rd: "readResourceValue ch j cw = (rv, cw1)" by (metis surj_pair)
  note k = readValue_result(2) [OF rd]
  show thesis
  proof (cases rv)
    case (Inl e)
    with rd assms have "r = Inl (ErrWrap ''read resource'' e)" "cw' = cw1" by (auto simp: recordResource_def bindR_def wrapR_def)
    with k [OF held.store_frame_axioms] unread show thesis by blast
  next
    case (Inr v)
    with rd assms have "putHolder ch (acquiredHolder ch run h v) cw1 = (r, cw')" by (auto simp: recordResource_def bindR_def wrapR_def)
    with put [OF readValue_result(1) [OF rd Inr]] k [OF held.store_frame_axioms] k [OF wf.store_frame_axioms] k [OF present.store_frame_axioms]
    show thesis by blast
  qed
qed

text \<open>The frame of the whole run, and what it stores.\<close>

lemma holds_removed:
  assumes "holds ch res k (storeOf cw)" "removeIntermediate ch j cw = (r, cw')" "idLike j" "k \<noteq> j"
  shows "holds ch res k (storeOf cw')"
proof -
  have held: "heldIn k (storeOf cw)" using assms(1) by (simp add: holds_def)
  have "heldS k (storeOf cw) (storeOf cw')"
    by (rule ckeepsD [OF held.ckeeps_remove [OF refl held_Remove [OF assms(3) assms(4) [symmetric]]] assms(2)])
  then have held': "heldIn k (storeOf cw')" and same: "rowOf k (storeOf cw') = rowOf k (storeOf cw)" using held by (simp_all add: heldS_def)
  from assms(1) obtain c s where c: "c \<in> set (dbConfig (storeOf cw))" "map_of (dbState (storeOf cw)) k = Some s" "crID c = k"
    and e: "enName (entryOf c s) = holder_name res" "decodeHolder ch (entryOf c s) = Inr res" "hasLabels (selector (rhRef res)) (crConfig c)"
    by (auto simp: holds_def listed_row entryOf_def)
  have "c \<in> set (fst (rowOf k (storeOf cw')))" "snd (rowOf k (storeOf cw')) = Some s" unfolding same using c by (simp_all add: rowOf_def)
  then have "entryOf c s \<in> set (listed True (selector (rhRef res)) (storeOf cw'))" "enID (entryOf c s) = k"
    unfolding listed_row using e(3) by (auto simp: rowOf_def entryOf_def)
  with held' e show ?thesis unfolding holds_def by blast
qed

lemma execDone_acquires:
  assumes "execDone ch run h j exit cw = ((exit', err), cw')" "soundHost ch" "idLike j" "lhResource h \<noteq> []" "acquires (ruEvent run)"
  shows "heldIn i (storeOf cw) \<Longrightarrow> j \<noteq> i \<Longrightarrow> err \<noteq> None \<or> \<not> namedRow (HolderName (hrName (ruReplica run)) (lhResource h)) (rowOf i (storeOf cw)) \<Longrightarrow>
      heldS i (storeOf cw) (storeOf cw')"
    and "err = None \<Longrightarrow> releaseCodec ch \<Longrightarrow> acquireFits run h \<Longrightarrow> store_ok (storeOf cw) \<Longrightarrow> idsApart (storeOf cw) \<Longrightarrow>
      execIn j (ruExec run) (storeOf cw) \<Longrightarrow> stored ch run h (storeOf cw')"
proof -
  have t: "tryR (recordResource ch run h j) (\<lambda>r. case r of
       Inl e \<Rightarrow> Pair (exit, Some e) | Inr _ \<Rightarrow> tryR (removeIntermediate ch j) (\<lambda>_. Pair (exit, None))) cw = ((exit', err), cw')"
    using assms(1) unfolding execDone_def if_P [OF assms(4)] .
  obtain r cw2 where rec: "recordResource ch run h j cw = (r, cw2)" by (metis surj_pair)
  have err: "err = None \<longleftrightarrow> \<not> isl r" "isl r \<Longrightarrow> cw' = cw2" "\<not> isl r \<Longrightarrow> \<exists>r2. removeIntermediate ch j cw2 = (r2, cw')"
  proof -
    from t rec have "(case r of Inl e \<Rightarrow> Pair (exit, Some e) | Inr _ \<Rightarrow> tryR (removeIntermediate ch j) (\<lambda>_. Pair (exit, None))) cw2 = ((exit', err), cw')"
      by (simp add: tryR_def)
    then show "err = None \<longleftrightarrow> \<not> isl r" "isl r \<Longrightarrow> cw' = cw2" "\<not> isl r \<Longrightarrow> \<exists>r2. removeIntermediate ch j cw2 = (r2, cw')"
      by (cases r; cases "removeIntermediate ch j cw2"; simp add: tryR_def; blast)+
  qed
  show "heldS i (storeOf cw) (storeOf cw')"
    if i: "heldIn i (storeOf cw)" "j \<noteq> i" "err \<noteq> None \<or> \<not> namedRow (HolderName (hrName (ruReplica run)) (lhResource h)) (rowOf i (storeOf cw))"
  proof -
    have s: "heldS i (storeOf cw) (storeOf cw2)" using rec assms(5)
    proof (cases rule: recordResource_acquires)
      case (put v cw1)
      have "heldIn i (storeOf cw1)" "rowOf i (storeOf cw1) = rowOf i (storeOf cw)" using put(2) [of i] i(1) by (simp_all add: heldS_def)
      with put_keeps [OF put(5) assms(2)] i(3) err(1) show ?thesis by (auto simp: acquired_fields intro: heldS_trans [OF put(2)])
    qed
    show ?thesis
    proof (cases "isl r")
      case False
      then obtain r2 where "removeIntermediate ch j cw2 = (r2, cw')" using err(3) by blast
      from heldS_trans [OF s ckeepsD [OF held.ckeeps_remove [OF refl held_Remove [OF assms(3) i(2)]] this]] show ?thesis .
    qed (use s err(2) in simp)
  qed
  show "stored ch run h (storeOf cw')"
    if a: "err = None" "releaseCodec ch" "acquireFits run h" "store_ok (storeOf cw)" "idsApart (storeOf cw)" "execIn j (ruExec run) (storeOf cw)"
    using rec assms(5)
  proof (cases rule: recordResource_acquires)
    case (put v cw1)
    obtain u where u: "r = Inr u" using a(1) err(1) by (cases r) auto
    have w1: "store_ok (storeOf cw1)" "idsApart (storeOf cw1)" "execIn j (ruExec run) (storeOf cw1)"
      using put(3,4) a(4-6) by (auto simp: wfS_def presentS_def)
    obtain k where k: "k \<noteq> j" "holds ch (acquiredHolder ch run h v) k (storeOf cw2)"
      using put_holds [OF put(5) [unfolded u] assms(2) a(2) acquired_fields(2) [OF a(3)] w1] a(3) by (auto simp: acquired_fields acquireFits_def)
    obtain r2 where "removeIntermediate ch j cw2 = (r2, cw')" using err(3) u by auto
    from holds_removed [OF k(2) this assms(3) k(1)] put(1) show ?thesis unfolding stored_def by blast
  qed (use a(1) err(1) in auto)
qed

lemma execHookValue_success:
  assumes "execHookValue ch run h exec value cw = ((exit, None), cw')" "soundHost ch" "store_ok (storeOf cw)" "idsApart (storeOf cw)"
    and "ruExec run \<noteq> []" "\<not> idLike (ruExec run)"
  obtains j cw1 where "idLike j" "execIn j (ruExec run) (storeOf cw1)" "store_ok (storeOf cw1)" "idsApart (storeOf cw1)"
    "execDone ch run h j exit cw1 = ((exit, None), cw')"
proof -
  let ?clear = "clearStaleExecs ch (execLabels (ruReplica run) (lhName h) (ruEvent run))"
  let ?req = "execRequest run h exec value"
  have req: "\<not> rqReplace ?req" "\<not> rqAutoRemove ?req" "rqName ?req = ruExec run" by (simp_all add: execRequest_def intermediateRequest_def Let_def)
  from assms(1) obtain u cw1 where c: "?clear cw = (Inr u, cw1)" and t: "tryR (svc (Create (chHost ch) ?req)) (\<lambda>r. case r of
           Inl e \<Rightarrow> Pair (None, Some (ErrWrap ''create hook command'' e))
         | Inr j \<Rightarrow> (\<lambda>cw. execRun ch run h j (reportHook ch run PhaseHookRunning None None cw))) cw1 = ((exit, None), cw')"
    unfolding execHookValue_def by (cases rule: tryR_sumE) auto
  have w1: "store_ok (storeOf cw1)" "idsApart (storeOf cw1)" using ckeepsD [OF ckeeps_wf_clear c] assms(3,4) by (simp_all add: wfS_def)
  from t obtain j cw2 where cr: "svc (Create (chHost ch) ?req) cw1 = (Inr j, cw2)"
    and k: "execRun ch run h j (reportHook ch run PhaseHookRunning None None cw2) = ((exit, None), cw')"
    by (cases rule: tryR_sumE) auto
  note cr' = conjunct1 [OF svc_result [OF cr]]
  have "keeps wfS (Create (chHost ch) ?req)" using soundIDs [OF assms(2)] req(3) assms(6) by (intro wf.keeps_Create) simp
  from keepsD [OF this cr'] w1 have w2: "store_ok (storeOf cw2)" "idsApart (storeOf cw2)" by (simp_all add: wfS_def storeOf_def)
  have e2: "execIn j (ruExec run) (storeOf cw2)"
    using Create_present [OF cr' _ req(1,2)] w1(1) req(3) assms(5) by (simp add: storeOf_def)
  have j: "idLike j" using cr' soundIDs [OF assms(2)] by (cases rule: Create_cases) (auto simp: storeCommand_def bindR_Inr)
  from k obtain ex er cw3 where r: "runExec ch run j (reportHook ch run PhaseHookRunning None None cw2) = ((ex, er), cw3)"
    and d: "(case er of Some e \<Rightarrow> Pair (ex, Some e) | None \<Rightarrow> execDone ch run h j ex) cw3 = ((exit, None), cw')"
    by (auto simp: execRun_def tryR_def split: prod.splits)
  have er: "er = None" using d by (cases er) auto
  have d': "execDone ch run h j ex cw3 = ((exit, None), cw')" using d er by simp
  have "exit = ex" using d' by (auto simp: execDone_def tryR_def split: prod.splits sum.splits if_splits)
  moreover have "execIn j (ruExec run) (storeOf cw3)" "store_ok (storeOf cw3)" "idsApart (storeOf cw3)"
    using runExec_present [OF r [unfolded er], of "ruExec run"] ckeepsD [OF ckeeps_wf_runExec r] e2 w2 by (simp_all add: presentS_def wfS_def)
  ultimately show thesis using that [OF j] d' by simp
qed

lemma ckeeps_wf_findHolder: "ckeeps wfS (findHolder ch ref)"
  by (rule wf.ckeeps_findHolder [OF refl wf.keeps_List])

lemma execHook_stores:
  assumes "execHook ch run h exec cw = ((exit, held, value, None), cw')" "soundHost ch" "releaseCodec ch" "acquireFits run h"
    and "ruExec run = ExecCommandName name hook ev" "lhResource h \<noteq> []" "acquires (ruEvent run)" "store_ok (storeOf cw)" "idsApart (storeOf cw)"
  shows "stored ch run h (storeOf cw')"
  using assms(1) ckeeps_wf_findHolder wf.S_refl
proof (cases rule: execHook_via_value [where S = wfS])
  case (run cw1 v err')
  have w1: "store_ok (storeOf cw1)" "idsApart (storeOf cw1)" using run(1) assms(8,9) by (simp_all add: wfS_def)
  have v: "execHookValue ch run h exec v cw1 = ((exit, None), cw')" using run(2,3) by simp
  obtain j cw2 where j: "idLike j" "execIn j (ruExec run) (storeOf cw2)" "store_ok (storeOf cw2)" "idsApart (storeOf cw2)"
    "execDone ch run h j exit cw2 = ((exit, None), cw')"
    using execHookValue_success [OF v assms(2) w1] assms(4,5) exec_name_no_id by (metis acquireFits_def)
  show ?thesis using execDone_acquires(2) [OF j(5) assms(2) j(1) assms(6,7) refl assms(3,4) j(3,4,2)] .
qed simp

lemma execHook_acquire_frame:
  assumes "execHook ch run h exec cw = ((exit, held, value, err), cw')" "soundHost ch" "heldIn i (storeOf cw)"
    and "ruExec run = ExecCommandName name hook ev" "lhResource h \<noteq> []" "acquires (ruEvent run)"
    and "err \<noteq> None \<or> \<not> namedRow (HolderName (hrName (ruReplica run)) (lhResource h)) (rowOf i (storeOf cw))"
  shows "heldS i (storeOf cw) (storeOf cw')"
  using assms(1) held_findHolder held.S_refl
proof (cases rule: execHook_via_value [where S = "heldS i"])
  case (run cw1 v err')
  note via = run
  have h1: "heldIn i (storeOf cw1)" "rowOf i (storeOf cw1) = rowOf i (storeOf cw)" using run(1) assms(3) by (simp_all add: heldS_def)
  from run(2) assms(2) h1(1) assms(4) show ?thesis
  proof (cases rule: execHookValue_cases)
    case (failed e)
    from heldS_trans [OF via(1) failed(2)] show ?thesis .
  next
    case (ran j cw2)
    have h2: "heldIn i (storeOf cw2)" "rowOf i (storeOf cw2) = rowOf i (storeOf cw)" using ran(3) h1 by (simp_all add: heldS_def)
    have "heldS i (storeOf cw2) (storeOf cw')"
      using execDone_acquires(1) [OF ran(4) assms(2) ran(1) assms(5,6) h2(1) ran(2)] assms(7) via(3) h2(2) by simp
    with heldS_trans [OF via(1)] heldS_trans [OF ran(3)] show ?thesis by blast
  qed
qed

text \<open>C22: A lifecycle hook that acquires a resource records it as a whole or not at all, whatever call
  fails: a run that ends in a failure or a warning leaves every holder as it was, and no run
  touches a holder of another name. A run that reports neither, with an on_error other than ignore, leaves
  a holder that a listing by the resource finds, that reads back as what was acquired, release, directory
  and environment included, and whose value is the last line that is not blank of what a command printed.\<close>

theorem acquire_settles_holder:
  assumes "soundHost ch" "releaseCodec ch" "acquireFits run h" "ruExec run = ExecCommandName name hook ev"
    and "lhResource h \<noteq> []" "acquires (ruEvent run)" "store_ok (storeOf cw)" "idsApart (storeOf cw)"
    and "runHookAs ch run h exec cw = ((warning, err), cw')"
  shows "(heldIn i (storeOf cw) \<longrightarrow>
      warning \<noteq> None \<or> err \<noteq> None \<or> \<not> namedRow (HolderName (hrName (ruReplica run)) (lhResource h)) (rowOf i (storeOf cw)) \<longrightarrow>
      rowOf i (storeOf cw') = rowOf i (storeOf cw)) \<and>
    (warning = None \<and> err = None \<and> OnError_resolved (leOnError exec) \<noteq> OnErrorIgnore \<longrightarrow> stored ch run h (storeOf cw'))"
proof -
  obtain exit held v e cw1 where x: "execHook ch run h exec cw = ((exit, held, v, e), cw1)"
    and k: "(case e of None \<Rightarrow> (\<lambda>cw. ((None, None), reportHook ch run PhaseHookSucceeded None exit cw))
      | Some e \<Rightarrow> onFailure ch run h exec exit held v e) cw1 = ((warning, err), cw')"
    using assms(9) by (auto simp: runHookAs_def tryR_def split: prod.splits)
  have same: "storeOf cw' = storeOf cw1"
  proof (cases e)
    case (Some y)
    with k have "onFailure ch run h exec exit held v y cw1 = ((warning, err), cw')" by simp
    from onFailure_store(1) [OF this] assms(6) show ?thesis by simp
  qed (use k in auto)
  have fine: "e = None \<Longrightarrow> warning = None \<and> err = None" using k by auto
  have "heldS i (storeOf cw) (storeOf cw1)"
    if "heldIn i (storeOf cw)" "warning \<noteq> None \<or> err \<noteq> None \<or> \<not> namedRow (HolderName (hrName (ruReplica run)) (lhResource h)) (rowOf i (storeOf cw))"
    using execHook_acquire_frame [OF x assms(1) that(1) assms(4-6)] that(2) fine by blast
  moreover have "stored ch run h (storeOf cw1)" if "warning = None \<and> err = None \<and> OnError_resolved (leOnError exec) \<noteq> OnErrorIgnore"
  proof (cases e)
    case None
    show ?thesis using execHook_stores [OF x [unfolded None] assms(1-8)] .
  next
    case (Some y)
    with k onFailure_store(2) that show ?thesis by fastforce
  qed
  ultimately show ?thesis unfolding same by (auto simp: heldS_def)
qed

section \<open>Witnesses\<close>

definition hexHost :: Host where
  "hexHost = plainHost\<lparr> hoID := (\<lambda>t. replicate 30 CHR ''0'' @ [hexDigits ! (t div 16 mod 16), hexDigits ! (t mod 16)]),
     hoFault := (\<lambda>_. Some ''database is locked''),
     hoMonitor := (\<lambda>_ _ r. Some (r\<lparr> srState := EventTypeExited, srExitCode := Some 0 \<rparr>)) \<rparr>"

definition netRelease :: resourceRelease where
  "netRelease = \<lparr> rlEvent = LifecycleStopPost, rlArgs = [''rmnet''], rlOnError = OnErrorFail \<rparr>"

definition netHost :: ComposeHost where
  "netHost = \<lparr> chHost = hexHost, chReporter = True, chSha = (\<lambda>s. s), chAbs = Some,
     chEncodeRelease = (\<lambda>rel. if rel = netRelease then Some ''R'' else None), chDecodeRelease = (\<lambda>s. if s = ''R'' then Some netRelease else None),
     chDecodeHooks = (\<lambda>_. None),
     chLogs = (\<lambda>_ _. Inr [Inr \<lparr> lTime = zeroTime, lStream = StreamStdout, lPartial = False, lLine = ''net0'' \<rparr>]),
     chFollow = (\<lambda>_ _. Inr []), chParallelLimit = 0, chPermit = (\<lambda>_. True), chOrder = (\<lambda>_ n. [0..<n]) \<rparr>"

definition netHook :: LifecycleHook where
  "netHook = \<lparr> lhName = ''net'', lhResource = ''n'', lhEvents = [
     (LifecycleStartPre, \<lparr> leArgs = [''mknet''], leOnError = OnErrorFail \<rparr>), (LifecycleStopPost, \<lparr> leArgs = [''rmnet''], leOnError = OnErrorFail \<rparr>)] \<rparr>"

definition webReplica :: hookReplica where
  "webReplica = \<lparr> hrProject = ''p'', hrWorkDir = ''/w'', hrCommand = ''web'', hrScaleIndex = 1, hrScale = 1, hrName = ''web-1'',
     hrDisplay = ''web'', hrDir = ''/w'', hrEnv = [''A=b''] \<rparr>"

definition netRun :: "LifecycleEvent \<Rightarrow> hookRun" where
  "netRun ev = \<lparr> ruReplica = webReplica, ruHook = ''net'', ruEvent = ev, ruExec = ExecCommandName ''web-1'' ''net'' ev,
     ruEnv = [''A=b''], ruHeld = None \<rparr>"

text \<open>A holder of the network of \<^verbatim>\<open>web\<close>.\<close>

definition netID :: string where "netID = replicate 30 CHR ''0'' @ ''17''"

definition netHolder :: resourceHolder where
  "netHolder = \<lparr> rhRef = resourceRefOf webReplica ''n'', rhOwner = ''web-1'', rhValue = ''net0'', rhRelease = Some netRelease, rhDir = ''/w'', rhEnv = [''A=b''] \<rparr>"

definition heldCW :: CWorld where
  "heldCW = (case holder_createRequest netHost netHolder of
     Inl e \<Rightarrow> \<lparr> cwWorld = emptyWorld, cwEvents = [], cwFailed = Some [] \<rparr>
   | Inr req \<Rightarrow> \<lparr> cwWorld = emptyWorld\<lparr> wStore :=
       \<lparr> dbConfig = [\<lparr> crID = netID, crName = Some ''web-1.res.n'', crCreatedAt = ''now'', crConfig = buildCommandConfig hexHost req \<rparr>],
         dbState = [(netID, createdRow)], dbExit = [] \<rparr> \<rparr>, cwEvents = [], cwFailed = Some [] \<rparr>)"

lemma netHost_sound: "soundHost netHost" "releaseCodec netHost"
proof -
  have "n < length hexDigits \<Longrightarrow> hexDigits ! n \<in> set hexDigits" for n by (rule nth_mem)
  moreover have "length hexDigits = 16" "CHR ''0'' \<in> set hexDigits" by (simp_all add: hexDigits_def)
  ultimately have "idLike (hoID hexHost t)" for t by (simp add: hexHost_def idLike_def list_all_iff)
  then show "soundHost netHost" by (simp add: soundHost_def netHost_def hexHost_def plainHost_def)
  show "releaseCodec netHost" by (simp add: releaseCodec_def netHost_def)
qed

lemma heldCW_held: "heldIn netID (storeOf heldCW)"
  by code_simp

definition netStop :: LifecycleExec where "netStop = \<lparr> leArgs = [''rmnet''], leOnError = OnErrorFail \<rparr>"

text \<open>The database fails from the start: the release reports its failure, and the value stays.\<close>

theorem release_settles_holder_witness:
  "snd (fst (runHookAs netHost (netRun LifecycleStopPost) netHook netStop heldCW)) \<noteq> None \<and>
   ownsRow (resourceRefOf webReplica ''n'') (rowOf netID (storeOf heldCW)) \<and>
   rowOf netID (storeOf (snd (runHookAs netHost (netRun LifecycleStopPost) netHook netStop heldCW))) = rowOf netID (storeOf heldCW)"
proof -
  let ?r = "runHookAs netHost (netRun LifecycleStopPost) netHook netStop heldCW"
  have f: "snd (fst ?r) \<noteq> None" and o: "ownsRow (resourceRefOf webReplica ''n'') (rowOf netID (storeOf heldCW))" by code_simp+
  have "ruExec (netRun LifecycleStopPost) = ExecCommandName ''web-1'' ''net'' LifecycleStopPost" "lhResource netHook \<noteq> []"
    "\<not> acquires (ruEvent (netRun LifecycleStopPost))" by (simp_all add: netRun_def netHook_def acquires_def)
  from release_settles_holder [OF netHost_sound(1) heldCW_held this, of netStop "fst (fst ?r)" "snd (fst ?r)" "snd ?r"] f o
  show ?thesis by (simp add: Let_def)
qed

theorem acquire_settles_holder_witness:
  "snd (fst (runHookAs netHost (netRun LifecycleStartPre) netHook netStop heldCW)) \<noteq> None \<and>
   rowOf netID (storeOf (snd (runHookAs netHost (netRun LifecycleStartPre) netHook netStop heldCW))) = rowOf netID (storeOf heldCW)"
proof -
  let ?r = "runHookAs netHost (netRun LifecycleStartPre) netHook netStop heldCW"
  have f: "snd (fst ?r) \<noteq> None" and fits: "acquireFits (netRun LifecycleStartPre) netHook" by code_simp+
  have n: "ruExec (netRun LifecycleStartPre) = ExecCommandName ''web-1'' ''net'' LifecycleStartPre" "lhResource netHook \<noteq> []"
    "acquires (ruEvent (netRun LifecycleStartPre))" by (simp_all add: netRun_def netHook_def acquires_def)
  have wf: "store_ok (storeOf heldCW)" "idsApart (storeOf heldCW)" using heldCW_held by (simp_all add: heldIn_def)
  from acquire_settles_holder [OF netHost_sound fits n wf, of netStop "fst (fst ?r)" "snd (fst ?r)" "snd ?r"] f heldCW_held
  show ?thesis by simp
qed

end
