(* ===== verification/Hook_Events.thy ===== *)
theory Hook_Events
  imports Hook_Steps
begin

text \<open>
  What a hook reports and records: every run ends in one terminal event, the last it reports, and a
  release that fails is recorded once; and what force does to the hooks of a teardown.
\<close>

section \<open>Effects that only report\<close>

text \<open>The events an effect reports satisfy \<open>P\<close>, and it records no failed release.\<close>

definition quiet :: "(Event \<Rightarrow> bool) \<Rightarrow> 'a effect \<Rightarrow> bool" where
  "quiet P f \<longleftrightarrow> (\<forall>cw. \<exists>evs. cwEvents (snd (f cw)) = cwEvents cw @ evs \<and> (\<forall>ev \<in> set evs. P ev) \<and> cwFailed (snd (f cw)) = cwFailed cw)"

lemma quietD: "quiet P f \<Longrightarrow> f cw = (r, cw') \<Longrightarrow> \<exists>evs. cwEvents cw' = cwEvents cw @ evs \<and> (\<forall>ev \<in> set evs. P ev) \<and> cwFailed cw' = cwFailed cw"
  by (metis quiet_def snd_conv)

lemma quietI: "(\<And>cw. \<exists>evs. cwEvents (snd (f cw)) = cwEvents cw @ evs \<and> (\<forall>ev \<in> set evs. P ev) \<and> cwFailed (snd (f cw)) = cwFailed cw) \<Longrightarrow> quiet P f"
  by (simp add: quiet_def)

lemma quiet_svc: "quiet P (svc f)"
  by (simp add: quiet_def svc_def case_prod_beta)

lemma quiet_Pair: "quiet P (Pair x)"
  by (simp add: quiet_def)

lemma quiet_after:
  assumes "\<exists>evs. cwEvents cw1 = cwEvents cw @ evs \<and> (\<forall>ev \<in> set evs. P ev) \<and> cwFailed cw1 = cwFailed cw"
    and "\<exists>evs. cwEvents cw2 = cwEvents cw1 @ evs \<and> (\<forall>ev \<in> set evs. P ev) \<and> cwFailed cw2 = cwFailed cw1"
  shows "\<exists>evs. cwEvents cw2 = cwEvents cw @ evs \<and> (\<forall>ev \<in> set evs. P ev) \<and> cwFailed cw2 = cwFailed cw"
proof -
  from assms obtain a b where "cwEvents cw1 = cwEvents cw @ a" "\<forall>ev \<in> set a. P ev" "cwEvents cw2 = cwEvents cw1 @ b" "\<forall>ev \<in> set b. P ev"
    "cwFailed cw2 = cwFailed cw" by auto
  then show ?thesis by (intro exI [of _ "a @ b"]) auto
qed

lemma quiet_tryR: "quiet P f \<Longrightarrow> (\<And>x. quiet P (g x)) \<Longrightarrow> quiet P (tryR f g)"
proof (rule quietI)
  fix cw
  assume a: "quiet P f" "\<And>x. quiet P (g x)"
  obtain x cw1 where f: "f cw = (x, cw1)" by (metis surj_pair)
  obtain y cw2 where g: "g x cw1 = (y, cw2)" by (metis surj_pair)
  from quiet_after [OF quietD [OF a(1) f] quietD [OF a(2) g]] f g
  show "\<exists>evs. cwEvents (snd (tryR f g cw)) = cwEvents cw @ evs \<and> (\<forall>ev \<in> set evs. P ev) \<and> cwFailed (snd (tryR f g cw)) = cwFailed cw"
    by (simp add: tryR_def)
qed

lemma bindR_tryR: "bindR f g = tryR f (\<lambda>r. case r of Inl e \<Rightarrow> Pair (Inl e) | Inr x \<Rightarrow> g x)"
  by (auto simp: bindR_def tryR_def fun_eq_iff split: prod.split sum.split)

lemma wrapR_tryR: "wrapR k f = tryR f (\<lambda>r. Pair (wrapE k r))"
  by (auto simp: wrapR_def tryR_def fun_eq_iff split: prod.split)

lemma quiet_if: "(c \<Longrightarrow> quiet P f) \<Longrightarrow> (\<not> c \<Longrightarrow> quiet P g) \<Longrightarrow> quiet P (if c then f else g)"
  by simp

lemma quiet_sum: "(\<And>e. quiet P (f e)) \<Longrightarrow> (\<And>x. quiet P (g x)) \<Longrightarrow> quiet P (case r of Inl e \<Rightarrow> f e | Inr x \<Rightarrow> g x)"
  by (cases r) simp_all

lemma quiet_option: "quiet P f \<Longrightarrow> (\<And>x. quiet P (g x)) \<Longrightarrow> quiet P (case r of None \<Rightarrow> f | Some x \<Rightarrow> g x)"
  by (cases r) simp_all

lemma quiet_prod: "(\<And>a b. quiet P (f a b)) \<Longrightarrow> quiet P (case p of (a, b) \<Rightarrow> f a b)"
  by (cases p) simp

lemma quiet_bindR: "quiet P f \<Longrightarrow> (\<And>x. quiet P (g x)) \<Longrightarrow> quiet P (bindR f g)"
  unfolding bindR_tryR by (intro quiet_tryR quiet_sum quiet_Pair)

lemma quiet_wrapR: "quiet P f \<Longrightarrow> quiet P (wrapR k f)"
  unfolding wrapR_tryR by (intro quiet_tryR quiet_Pair)

lemmas quiet_steps = quiet_tryR quiet_bindR quiet_wrapR quiet_if quiet_sum quiet_option quiet_prod quiet_svc quiet_Pair

lemma quiet_findHolder: "quiet P (findHolder ch ref)"
  unfolding findHolder_def by (intro quiet_steps)

lemma quiet_removeIntermediate: "quiet P (removeIntermediate ch i)"
  unfolding removeIntermediate_def by (intro quiet_steps)

lemma quiet_dropHolder: "quiet P (dropHolder ch ref)"
  unfolding dropHolder_def by (intro quiet_steps quiet_findHolder quiet_removeIntermediate)

lemma quiet_putHolder: "quiet P (putHolder ch h)"
  unfolding putHolder_def by (intro quiet_steps)

lemma quiet_stopForRecreate: "quiet P (stopForRecreate ch i t)"
  unfolding stopForRecreate_def by (intro quiet_steps)

lemma quiet_stopLive: "quiet P (stopLiveIntermediate ch e)"
  unfolding stopLiveIntermediate_def by (intro quiet_steps quiet_stopForRecreate)

lemma quiet_clearExecs: "quiet P (clearExecs ch es)"
  by (induction es) (simp_all only: clearExecs.simps, (intro quiet_steps quiet_stopLive quiet_removeIntermediate | assumption)+)

lemma quiet_clearStale: "quiet P (clearStaleExecs ch ls)"
  unfolding clearStaleExecs_def by (intro quiet_steps quiet_clearExecs)

lemma quiet_readValue: "quiet P (readResourceValue ch i)"
  by (simp add: quiet_def readResourceValue_def svc_def Let_def case_prod_beta)

lemma quiet_record: "quiet P (recordResource ch run h i)"
  unfolding recordResource_def by (intro quiet_steps quiet_dropHolder quiet_readValue quiet_putHolder)

lemma quiet_stopMatching: "quiet P (stopMatching ch i es)"
  by (induction es) (simp_all only: stopMatching.simps, (intro quiet_steps quiet_stopLive | assumption)+)

lemma quiet_detached: "quiet P f \<Longrightarrow> quiet P (detached f)"
proof (rule quietI)
  fix cw
  assume "quiet P f"
  then have "\<exists>evs. cwEvents (snd (f (cw\<lparr> cwWorld := (cwWorld cw)\<lparr> wDone := False \<rparr> \<rparr>))) = cwEvents cw @ evs \<and> (\<forall>ev \<in> set evs. P ev) \<and>
      cwFailed (snd (f (cw\<lparr> cwWorld := (cwWorld cw)\<lparr> wDone := False \<rparr> \<rparr>))) = cwFailed cw"
    unfolding quiet_def by (metis CWorld.select_convs(2,3) CWorld.surjective CWorld.update_convs(1))
  then show "\<exists>evs. cwEvents (snd (detached f cw)) = cwEvents cw @ evs \<and> (\<forall>ev \<in> set evs. P ev) \<and> cwFailed (snd (detached f cw)) = cwFailed cw"
    by (simp add: detached_def case_prod_beta)
qed

lemma quiet_cancelled: "quiet P (stopCancelledExec ch run i)"
  unfolding stopCancelledExec_def by (intro quiet_detached quiet_steps quiet_stopMatching)

section \<open>Events of a run\<close>

text \<open>What a run reports before it ends.\<close>

definition midEvent :: "Event \<Rightarrow> bool" where
  "midEvent ev \<longleftrightarrow> evPhase ev = PhaseHookRunning \<or> evPhase ev = PhaseHookOutput"

lemma report_quiet: "P ev \<Longrightarrow> \<exists>evs. cwEvents (report ch ev cw) = cwEvents cw @ evs \<and> (\<forall>ev \<in> set evs. P ev) \<and> cwFailed (report ch ev cw) = cwFailed cw"
  by (auto simp: report_def)

lemma output_mid: "\<exists>evs. cwEvents (reportHookOutput ch run s l cw) = cwEvents cw @ evs \<and> (\<forall>ev \<in> set evs. midEvent ev) \<and>
    cwFailed (reportHookOutput ch run s l cw) = cwFailed cw"
  unfolding reportHookOutput_def by (rule report_quiet) (simp add: midEvent_def hookEvent_def plainEvent_def)

lemma outputs_mid: "\<exists>evs. cwEvents (fold (\<lambda>(s, l). reportHookOutput ch run s l) xs cw) = cwEvents cw @ evs \<and> (\<forall>ev \<in> set evs. midEvent ev) \<and>
    cwFailed (fold (\<lambda>(s, l). reportHookOutput ch run s l) xs cw) = cwFailed cw"
proof (induction xs arbitrary: cw)
  case (Cons x xs)
  show ?case using quiet_after [OF output_mid [of ch run "fst x" "snd x" cw] Cons.IH] by (simp add: case_prod_beta)
qed simp

lemma forward_mid: "\<exists>evs. cwEvents (forwardRecords ch run rs a cw) = cwEvents cw @ evs \<and> (\<forall>ev \<in> set evs. midEvent ev) \<and>
    cwFailed (forwardRecords ch run rs a cw) = cwFailed cw"
proof (induction rs arbitrary: a cw)
  case (Cons r rs)
  show ?case
  proof (cases r)
    case (Inr l)
    obtain line a' where as: "assembler_add l a = (line, a')" by (metis surj_pair)
    show ?thesis
    proof (cases line)
      case (Some x)
      show ?thesis using quiet_after [OF output_mid Cons.IH] Inr as Some by simp
    qed (use Cons.IH Inr as in simp)
  qed (use Cons.IH in simp)
qed (simp add: outputs_mid)

lemma quiet_runExec: "quiet midEvent (runExec ch run i)"
proof -
  let ?quit = "tryR (stopCancelledExec ch run i) (\<lambda>_. Pair (None :: int option, Some ErrCanceled))"
  have quit: "quiet midEvent ?quit" by (intro quiet_steps quiet_cancelled)
  let ?w = "tryR (svc (Wait (chHost ch) [i] EventTypeNone 0 False)) (\<lambda>results cw. if ctxDone cw then ?quit cw
      else case results of Inl e \<Rightarrow> ((None, Some (ErrWrap ''wait for hook command'' e)), cw) | Inr rs \<Rightarrow> (hookExit rs, cw))"
  have branch: "quiet midEvent (\<lambda>cw. if ctxDone cw then ?quit cw else k cw)" if "\<And>cw. snd (k cw) = cw" for k
    using quit that by (auto simp: quiet_def)
  have wait: "quiet midEvent ?w" by (intro quiet_tryR quiet_svc branch) (auto split: sum.split)
  have start: "quiet midEvent (\<lambda>cw. if ctxDone cw then ?quit cw else ((None, Some (ErrWrap ''start hook command'' e)), cw))" for e
    by (rule branch) simp
  have fwd: "\<exists>evs. cwEvents (if chReporter ch then forwardHookOutput ch run i cw else cw) = cwEvents cw @ evs \<and> (\<forall>ev \<in> set evs. midEvent ev) \<and>
      cwFailed (if chReporter ch then forwardHookOutput ch run i cw else cw) = cwFailed cw" for cw
    using forward_mid [of ch run _ "[]" "snd (svc (outside (chHost ch)) cw)"]
    by (auto simp: forwardHookOutput_def Let_def svc_def case_prod_beta split: sum.split)
  have "quiet midEvent (\<lambda>cw. ?w (if chReporter ch then forwardHookOutput ch run i cw else cw))"
    using quiet_after [OF fwd spec [OF wait [unfolded quiet_def]]] by (rule quietI)
  then have "quiet midEvent (\<lambda>cw. case r of
       Inl e \<Rightarrow> if ctxDone cw then ?quit cw else ((None, Some (ErrWrap ''start hook command'' e)), cw)
     | Inr _ \<Rightarrow> ?w (if chReporter ch then forwardHookOutput ch run i cw else cw))" for r :: "SvcErr + unit"
    using start by (cases r) auto
  then show ?thesis unfolding runExec_def by (intro quiet_tryR quiet_svc)
qed

lemma quiet_execDone: "quiet midEvent (execDone ch run h j exit)"
  unfolding execDone_def by (intro quiet_steps quiet_record quiet_removeIntermediate)

lemma quiet_execRun: "quiet midEvent (execRun ch run h j)"
  unfolding execRun_def by (intro quiet_steps quiet_runExec quiet_execDone)

lemma running_mid: "\<exists>evs. cwEvents (reportHook ch run PhaseHookRunning None None cw) = cwEvents cw @ evs \<and> (\<forall>ev \<in> set evs. midEvent ev) \<and>
    cwFailed (reportHook ch run PhaseHookRunning None None cw) = cwFailed cw"
  unfolding reportHook_def by (rule report_quiet) (simp add: midEvent_def hookEvent_def plainEvent_def)

lemma quiet_execHookValue: "quiet midEvent (execHookValue ch run h exec value)"
proof -
  have "quiet midEvent (\<lambda>cw. execRun ch run h j (reportHook ch run PhaseHookRunning None None cw))" for j
    using quiet_after [OF running_mid spec [OF quiet_execRun [unfolded quiet_def]]] by (rule quietI)
  then show ?thesis unfolding execHookValue_def by (intro quiet_steps quiet_clearStale)
qed

lemma quiet_execHook: "quiet midEvent (execHook ch run h exec)"
  unfolding execHook_def Let_def by (intro quiet_steps quiet_execHookValue quiet_findHolder)

section \<open>The end of a run\<close>

text \<open>The phase that a result stands for.\<close>

definition terminalPhase :: "OnError \<Rightarrow> SvcErr option \<times> SvcErr option \<Rightarrow> Phase \<Rightarrow> bool" where
  "terminalPhase oe = (\<lambda>(warning, err) phase.
     if err \<noteq> None then warning = None \<and> phase = PhaseHookFailed
     else if warning \<noteq> None then oe = OnErrorContinue \<and> phase = PhaseHookWarning
     else phase = PhaseHookSucceeded \<or> oe = OnErrorIgnore \<and> phase = PhaseHookIgnored)"

text \<open>The one record a failed release leaves.\<close>

definition recordedBy :: "hookRun \<Rightarrow> LifecycleHook \<Rightarrow> failedRelease list option \<Rightarrow> Phase \<Rightarrow> failedRelease list option \<Rightarrow> bool" where
  "recordedBy run h before phase after \<longleftrightarrow>
     (if lhResource h = [] \<or> acquires (ruEvent run) \<or> phase = PhaseHookSucceeded then after = before
      else \<exists>f. after = map_option (\<lambda>fs. fs @ [f]) before \<and> frDisplay f = hrDisplay (ruReplica run) \<and> \<not> frRetried f \<and>
        rhRelease (frHolder f) \<noteq> None)"

lemma failureRecord_fields: "frDisplay (failureRecord run h exec held v err c) = hrDisplay (ruReplica run)"
  "\<not> frRetried (failureRecord run h exec held v err c)" "rhRelease (frHolder (failureRecord run h exec held v err c)) \<noteq> None"
  by (auto simp: failureRecord_def Let_def split: option.split)

lemma onFailure_reports:
  assumes "onFailure ch run h exec exit held v e cw = (we, cw')"
  shows "\<exists>phase. (if chReporter ch then \<exists>x. cwEvents cw' = cwEvents cw @ [hookEvent run phase (Some (ErrWrap ''hook'' e)) x] else cwEvents cw' = cwEvents cw) \<and>
    terminalPhase (OnError_resolved (leOnError exec)) we phase \<and> phase \<noteq> PhaseHookSucceeded \<and> recordedBy run h (cwFailed cw) phase (cwFailed cw')"
proof -
  let ?err = "ErrWrap ''hook'' e"
  let ?rel = "lhResource h \<noteq> [] \<and> \<not> acquires (ruEvent run)"
  let ?f = "failureRecord run h exec held v ?err (ctxDone cw)"
  let ?cw = "if ?rel then recordFailure ?f cw else cw"
  have same: "cwEvents ?cw = cwEvents cw" "ctxDone ?cw = ctxDone cw" by (simp_all add: recordFailure_def ctxDone_def)
  have failed: "cwFailed ?cw = (if ?rel then map_option (\<lambda>fs. fs @ [?f]) (cwFailed cw) else cwFailed cw)" by (simp add: recordFailure_def)
  have ev: "if chReporter ch then cwEvents (reportHook ch run p (Some ?err) exit ?cw) = cwEvents cw @ [hookEvent run p (Some ?err) exit]
      else cwEvents (reportHook ch run p (Some ?err) exit ?cw) = cwEvents cw" "cwFailed (reportHook ch run p (Some ?err) exit ?cw) = cwFailed ?cw" for p
    using same(1) by (simp_all add: reportHook_def report_def)
  have drop: "cwEvents (snd (dropHolder ch ref c)) = cwEvents c \<and> cwFailed (snd (dropHolder ch ref c)) = cwFailed c" for ref c
    using spec [OF quiet_dropHolder [of "\<lambda>_. False" ch ref, unfolded quiet_def], of c] by auto
  obtain p where p: "cwEvents cw' = cwEvents (reportHook ch run p (Some ?err) exit ?cw)" "cwFailed cw' = cwFailed ?cw"
      "terminalPhase (OnError_resolved (leOnError exec)) we p" "p \<noteq> PhaseHookSucceeded"
  proof (cases "ctxDone cw \<or> OnError_resolved (leOnError exec) \<notin> {OnErrorContinue, OnErrorIgnore}")
    case True
    with assms same have "we = (None, Some ?err)" "cw' = reportHook ch run PhaseHookFailed (Some ?err) exit ?cw"
      unfolding onFailure_def Let_def by (auto split: OnError.splits)
    with that [of PhaseHookFailed] ev(2) show thesis by (simp add: terminalPhase_def)
  next
    case False
    show thesis
    proof (cases "OnError_resolved (leOnError exec) = OnErrorContinue")
      case True
      with False assms same have "we = (Some ?err, None)" "cw' = reportHook ch run PhaseHookWarning (Some ?err) exit ?cw"
        unfolding onFailure_def Let_def by auto
      with that [of PhaseHookWarning] ev(2) True show thesis by (simp add: terminalPhase_def)
    next
      case False2: False
      with False have i: "OnError_resolved (leOnError exec) = OnErrorIgnore" "\<not> ctxDone cw" by auto
      let ?c = "reportHook ch run PhaseHookIgnored (Some ?err) exit ?cw"
      have "(if ?rel then tryR (dropHolder ch (resourceRefOf (ruReplica run) (lhResource h))) (\<lambda>_. Pair (None, None)) ?c else ((None, None), ?c)) = (we, cw')"
        using assms i same(2) unfolding onFailure_def Let_def by simp
      then have "we = (None, None)" "cwEvents cw' = cwEvents ?c" "cwFailed cw' = cwFailed ?c"
        using drop [of "resourceRefOf (ruReplica run) (lhResource h)" ?c] by (auto simp: tryR_def split: if_splits prod.splits)
      with that [of PhaseHookIgnored] ev(2) i(1) show thesis by (simp add: terminalPhase_def)
    qed
  qed
  with ev(1) [of p] failed failureRecord_fields show ?thesis
    by (intro exI [of _ p]) (auto simp: recordedBy_def)
qed

text \<open>C23: Every run of a hook reports one terminal event, and it is the last: before it come only that its
  command runs and the lines it prints. The event says how the run ended: failed for an error,
  a warning only under on_error continue, ignored only under ignore. A release that did not
  succeed is recorded exactly once, with what to run again, and nothing else is recorded.\<close>

theorem hook_run_reports:
  "case runHookAs ch run h exec cw of (we, cw') \<Rightarrow> \<exists>phase mid.
    terminalPhase (OnError_resolved (leOnError exec)) we phase \<and> list_all midEvent mid \<and>
    recordedBy run h (cwFailed cw) phase (cwFailed cw') \<and>
    (\<exists>err x. cwEvents cw' = cwEvents cw @ mid @ (if chReporter ch then [hookEvent run phase err x] else []) \<and> (err = None \<longleftrightarrow> phase = PhaseHookSucceeded))"
proof -
  obtain we cw' where r: "runHookAs ch run h exec cw = (we, cw')" by (metis surj_pair)
  obtain exit held v e cw1 where x: "execHook ch run h exec cw = ((exit, held, v, e), cw1)"
    and k: "(case e of None \<Rightarrow> (\<lambda>cw. ((None, None), reportHook ch run PhaseHookSucceeded None exit cw))
      | Some e \<Rightarrow> onFailure ch run h exec exit held v e) cw1 = (we, cw')"
    using r by (auto simp: runHookAs_def tryR_def split: prod.splits)
  obtain mid where mid: "cwEvents cw1 = cwEvents cw @ mid" "\<forall>ev \<in> set mid. midEvent ev" "cwFailed cw1 = cwFailed cw"
    using quietD [OF quiet_execHook x] by blast
  show ?thesis unfolding r prod.case
  proof (cases e)
    case None
    with k have "we = (None, None)" "cw' = reportHook ch run PhaseHookSucceeded None exit cw1" by auto
    with mid show "\<exists>phase mid. terminalPhase (OnError_resolved (leOnError exec)) we phase \<and> list_all midEvent mid \<and>
    recordedBy run h (cwFailed cw) phase (cwFailed cw') \<and>
    (\<exists>err x. cwEvents cw' = cwEvents cw @ mid @ (if chReporter ch then [hookEvent run phase err x] else []) \<and> (err = None \<longleftrightarrow> phase = PhaseHookSucceeded))"
      by (intro exI [of _ PhaseHookSucceeded] exI [of _ mid] conjI exI [of _ None] exI [of _ exit])
         (auto simp: terminalPhase_def recordedBy_def reportHook_def report_def list_all_iff)
  next
    case (Some y)
    with k have f: "onFailure ch run h exec exit held v y cw1 = (we, cw')" by simp
    from onFailure_reports [OF this] obtain phase where p: "if chReporter ch then \<exists>x. cwEvents cw' = cwEvents cw1 @ [hookEvent run phase (Some (ErrWrap ''hook'' y)) x] else cwEvents cw' = cwEvents cw1"
      "terminalPhase (OnError_resolved (leOnError exec)) we phase" "phase \<noteq> PhaseHookSucceeded" "recordedBy run h (cwFailed cw1) phase (cwFailed cw')" by blast
    then obtain x where "cwEvents cw' = cwEvents cw @ mid @ (if chReporter ch then [hookEvent run phase (Some (ErrWrap ''hook'' y)) x] else [])"
      using mid(1) by (auto split: if_splits)
    with p mid show "\<exists>phase mid. terminalPhase (OnError_resolved (leOnError exec)) we phase \<and> list_all midEvent mid \<and>
    recordedBy run h (cwFailed cw) phase (cwFailed cw') \<and>
    (\<exists>err x. cwEvents cw' = cwEvents cw @ mid @ (if chReporter ch then [hookEvent run phase err x] else []) \<and> (err = None \<longleftrightarrow> phase = PhaseHookSucceeded))"
      by (intro exI [of _ phase] exI [of _ mid] conjI exI [of _ "Some (ErrWrap ''hook'' y)"] exI [of _ x]) (simp_all add: list_all_iff)
  qed
qed

section \<open>Force\<close>

definition tolerated :: "LifecycleExec \<Rightarrow> bool" where
  "tolerated x \<longleftrightarrow> OnError_resolved (leOnError x) \<in> {OnErrorContinue, OnErrorIgnore}"

definition allTolerated :: "LifecycleHook list \<Rightarrow> bool" where
  "allTolerated hs \<longleftrightarrow> (\<forall>h \<in> set hs. \<forall>(ev, x) \<in> set (lhEvents h). tolerated x)"

lemma onFailure_tolerated:
  assumes "onFailure ch run h exec exit held v e cw = ((w, Some err), cw')" and "tolerated exec"
  shows "ctxDone cw'"
proof (rule ccontr)
  let ?err = "ErrWrap ''hook'' e"
  let ?rel = "lhResource h \<noteq> [] \<and> \<not> acquires (ruEvent run)"
  let ?cw = "if ?rel then recordFailure (failureRecord run h exec held v ?err (ctxDone cw)) cw else cw"
  have same: "ctxDone ?cw = ctxDone cw" by (simp add: recordFailure_def ctxDone_def)
  have rep: "ctxDone (reportHook ch run p y x c) = ctxDone c" for p y x c by (simp add: reportHook_def report_def ctxDone_def)
  assume "\<not> ctxDone cw'"
  with assms same rep show False
    unfolding onFailure_def Let_def tolerated_def
    by (cases "ctxDone cw"; cases "OnError_resolved (leOnError exec)") (auto simp: tryR_def split: if_splits prod.splits)
qed

lemma runHook_tolerated:
  assumes "runHook ch r h ev exec cw = ((w, Some err), cw')" and "tolerated exec"
  shows "ctxDone cw'"
proof -
  obtain run exit held v e cw1 where "(case e of None \<Rightarrow> (\<lambda>cw. ((None, None), reportHook ch run PhaseHookSucceeded None exit cw))
      | Some e \<Rightarrow> onFailure ch run h exec exit held v e) cw1 = ((w, Some err), cw')"
    using assms(1) by (auto simp: runHook_def runHookAs_def tryR_def split: prod.splits)
  then show ?thesis by (cases e) (auto dest: onFailure_tolerated [OF _ assms(2)])
qed

lemma lifecycle_tolerated:
  assumes "runLifecycleEvent ch r hs ev cw = ((ws, Some err), cw')" and "allTolerated hs"
  shows "ctxDone cw'"
  using assms
proof (induction hs arbitrary: cw ws)
  case (Cons h hs)
  have IH: "runLifecycleEvent ch r hs ev c = ((ws', Some err), cw') \<Longrightarrow> ctxDone cw'" for c ws'
    using Cons.IH Cons.prems(2) by (simp add: allTolerated_def)
  show ?case
  proof (cases "map_of (lhEvents h) ev")
    case (Some exec)
    then have t: "tolerated exec" using Cons.prems(2) by (auto simp: allTolerated_def dest: map_of_SomeD)
    obtain w e cw1 where r: "runHook ch r h ev exec cw = ((w, e), cw1)" by (metis surj_pair)
    show ?thesis
    proof (cases e)
      case None
      with Cons.prems(1) Some r obtain ws' where "runLifecycleEvent ch r hs ev cw1 = ((ws', Some err), cw')"
        by (auto simp: tryR_def split: prod.splits)
      then show ?thesis by (rule IH)
    next
      case (Some y)
      with Cons.prems(1) \<open>map_of (lhEvents h) ev = Some exec\<close> r have "cw1 = cw'" by (simp add: tryR_def)
      with runHook_tolerated [OF r [unfolded Some] t] show ?thesis by simp
    qed
  qed (use Cons.prems(1) IH in auto)
qed simp

lemma forced_tolerated:
  assumes "storedHooks ch e = Inr hooks"
  shows "allTolerated (forcedHooks hooks)"
  unfolding allTolerated_def
proof clarify
  fix h ev x
  assume "h \<in> set (forcedHooks hooks)" "(ev, x) \<in> set (lhEvents h)"
  then obtain h0 x0 where h0: "h0 \<in> set hooks" "(ev, x0) \<in> set (lhEvents h0)"
      "x = (if OnError_resolved (leOnError x0) = OnErrorFail then x0\<lparr> leOnError := OnErrorContinue \<rparr> else x0)"
    by (auto simp: forcedHooks_def forcedHook_def)
  have "hooks = [] \<or> validateLifecycleHooks hooks = Inr ()"
    using assms(1) by (auto simp: storedHooks_def decodeHooksLabel_def wrapE_Inr split: option.splits sum.splits if_splits)
  with h0(1) have "validateHooksLoop hooks [] [] = Inr ()" by (auto simp: validateLifecycleHooks_def)
  from validateHooksLoop_Inr [OF this] h0(1) have "LifecycleHook_Validate h0 = Inr ()" by blast
  then have "OnError_Validate (leOnError x0)" using h0(2)
    by (auto simp: LifecycleHook_Validate_def first_err_Inr validateEvent_def split: sum.splits if_splits)
  then show "tolerated x" unfolding h0(3) by (cases "leOnError x0") (auto simp: tolerated_def)
qed

lemma stopWithHooks_tolerated:
  assumes "stopWithHooks ch r hs i t cw = ((True, k, err), cw')" and "allTolerated hs"
  shows "ctxDone cw'"
proof -
  obtain ws e cw1 where pre: "runLifecycleEvent ch r hs LifecycleStopPre cw = ((ws, e), cw1)" by (metis surj_pair)
  show ?thesis
  proof (cases e)
    case None
    with assms(1) pre obtain y c ws' where "runLifecycleEvent ch r hs LifecycleStopPost c = ((ws', Some y), cw')"
      by (auto simp: stopWithHooks_def beforeStep_def tryR_def split: prod.splits option.splits)
    from lifecycle_tolerated [OF this assms(2)] show ?thesis by blast
  next
    case (Some y)
    with assms(1) pre have "cw1 = cw'" by (simp add: stopWithHooks_def beforeStep_def tryR_def)
    with lifecycle_tolerated [OF pre [unfolded Some] assms(2)] show ?thesis by blast
  qed
qed


end
