(* ===== verification/Compose_Runs.thy ===== *)
theory Compose_Runs
  imports Compose_Keeps Hook_Acquire Hook_Events
begin

text \<open>
  What the compose operations achieve: their walks are walks of the graph, so that the order and the
  outcomes that \<^verbatim>\<open>Reconcile_Theorems\<close> proves of every interleaving are those of \<^verbatim>\<open>reconcileStart\<close> and
  \<^verbatim>\<open>reconcileStop\<close> of service_reconcile.go, with the effects of their actions.
\<close>

section \<open>A walk that nobody interrupted\<close>

lemma turn_outside: "turn ch act dir m s st cw = ((s', st'), cw') \<Longrightarrow> wOutside s' = wOutside s"
  by (auto simp: turn_def turnGo_def tryR_def turnClaim_def turnComplete_def case_prod_beta
      split: walkMove.splits worker.splits list.splits option.splits)

lemma loop_outside:
  assumes "\<And>g v st. obeys doneC (act g v st)"
    and "walkLoop ch act dir n (s, st) cw = ((s', st'), cw')" and "wOutside s \<Longrightarrow> ctxDone cw"
  shows "wOutside s' \<Longrightarrow> ctxDone cw'"
  using assms(2,3)
proof (induction n arbitrary: s st cw)
  case (Suc n)
  show ?case
  proof (cases "walkMoves s = []")
    case False
    define cw1 where "cw1 = snd (svc (outside (chHost ch)) cw)"
    define s1 where "s1 = cancelWalk (ctxDone cw1) s"
    define m where "m = pick ch cw1 (walkMoves s1)"
    obtain s2 st2 cw2 where t: "turn ch act dir m s1 st cw1 = ((s2, st2), cw2)" by (metis surj_pair)
    have "doneC cw cw1" using doneC.Q_outside [of ch] by (simp add: obeys_def cw1_def)
    then have "wOutside s1 \<Longrightarrow> ctxDone cw1" using Suc.prems(3) by (auto simp: s1_def cancelWalk_def doneC_def split: if_splits)
    moreover have "doneC cw1 cw2" using obeysD [OF doneC.Q_turn [OF assms(1)] t] .
    ultimately have o2: "wOutside s2 \<Longrightarrow> ctxDone cw2" using turn_outside [OF t] by (auto simp: doneC_def)
    have "walkLoop ch act dir n (s2, st2) cw2 = ((s', st'), cw')"
      using Suc.prems(2) False t by (simp add: Let_def tryR_def cw1_def s1_def m_def)
    from Suc.IH [OF Suc.prems(1) this o2] show ?thesis .
  qed (use Suc.prems in simp)
qed simp

text \<open>Every run of \<^verbatim>\<open>walk\<close> is a walk of the graph with the results that the actions returned, and only
  the end of the caller's context leaves a vertex out.\<close>

lemma walkGraph_run:
  assumes "graph_wf g" "graph_fresh g" and r: "walkGraph ch act dir limit g st cw = ((g', st'), cw')"
    and act: "\<And>g v st. obeys doneC (act g v st)"
  shows "\<exists>out. walk (returned act g) dir limit g out g' \<and> (out \<longrightarrow> ctxDone cw')"
proof (cases "allDone (wGraph (walkInit g dir limit))")
  case True
  then have d: "allDone (fst (seed g dir))" by (simp add: walkInit_def)
  have "distinct (keys_of (Vertices g))" "keys_of (Vertices (fst (seed g dir))) = keys_of (Vertices g)"
    using assms(1) by (simp_all add: graph_wf_def seed_keys)
  then have "visits (visitOrder ch cw (keys_of (Vertices (fst (seed g dir))))) (keys_of (Vertices g))"
    using visitOrder_visits [of "keys_of (Vertices g)"] by simp
  from walk.drained [OF d this] r True show ?thesis by (auto simp: walkGraph_def Let_def walkInit_def)
next
  case False
  let ?s = "walkInit g dir limit"
  from False have d: "\<not> allDone (fst (seed g dir))" by (simp add: walkInit_def)
  note inv = winv_init [OF assms(1,2) d, of limit]
  obtain s2 st2 cw2 where l: "walkLoop ch act dir (walkFuel ?s) (?s, st) cw = ((s2, st2), cw2)" by (metis surj_pair)
  have fr: "freezes g (wGraph ?s)" using seed_freezes by (simp add: walkInit_def)
  from loop_reach [OF l walk_reach.start inv fr fuel_enough [OF inv]]
  have w: "walk_reach (returned act g) dir ?s s2" "\<forall>w \<in> set (wWorkers s2). w = Exited" by blast+
  from w(1) have "length (wWorkers s2) = length (wWorkers ?s)" by (induction rule: walk_reach.induct) (auto simp: step_shape)
  with workers_init [of g dir limit] have "wWorkers s2 \<noteq> []" by (metis length_0_conv)
  with all_exited w(2) have "set (wWorkers s2) = {Exited}" by blast
  moreover have "g' = wGraph s2" "cw' = cw2" using r l False by (auto simp: walkGraph_def Let_def tryR_def)
  moreover have "wOutside s2 \<Longrightarrow> ctxDone cw2" using loop_outside [OF act l] by (simp add: walkInit_def)
  ultimately show ?thesis using walk.ran [OF d w(1)] by blast
qed

section \<open>The vertices of commands\<close>

text \<open>The replicas of a command that the targets name.\<close>

definition targetReplicas :: "targetSet \<Rightarrow> Command \<Rightarrow> int list" where
  "targetReplicas targets c = (case map_of targets (cName c) of Some (Some idxs) \<Rightarrow> idxs | _ \<Rightarrow> allReplicaIndices c)"

lemma build_replicas:
  assumes ok: "names_ok spec" and c: "c \<in> set (sCommands spec)" "cName c \<in> closure"
    and fr: "freezes (buildReconcileGraph spec snaps closure targets) h" and v: "vertex h (cName c) = Some v"
  shows "vCommand v = Some c \<and> replicaIndices v = targetReplicas targets c"
proof -
  let ?g = "buildReconcileGraph spec snaps closure targets"
  from freezes_Some [OF fr v] obtain v0 where v0: "vertex ?g (cName c) = Some v0" "vshape v = vshape v0" by (metis fz_shape)
  from build_lookup [OF ok v0(1)] obtain w where
    w: "map_of (baseVertices spec snaps closure targets) (cName c) = Some w" "vCommand v0 = vCommand w" "vReplicas v0 = vReplicas w" by metis
  have n: "cName c \<noteq> beginVertex" "cName c \<noteq> endVertex" "distinct (map cName (sCommands spec))" using ok c(1) by (auto simp: names_ok_def)
  with base_lookup [OF ok w(1)] obtain d where d: "d \<in> set (sCommands spec)" "cName d = cName c" "w = buildVertex snaps closure targets d" by auto
  then have "d = c" using n(3) c(1) by (meson distinct_map inj_onD)
  with d(3) c(2) have "vCommand w = Some c" "vReplicas w = (case map_of targets (cName c) of Some r \<Rightarrow> r | None \<Rightarrow> None)"
    by (simp_all add: buildVertex_def Let_def)
  with w v0(2) show ?thesis
    by (auto simp: vshape_def replicaIndices_def targetReplicas_def split: option.splits)
qed

section \<open>Held replicas\<close>

lemma startedOr_Inr: "startedOr ch d start rest cw = (Inr r, cw') \<Longrightarrow> \<exists>cw1. rest cw1 = (Inr r, cw')"
  by (auto simp: startedOr_def tryR_def Let_def case_prod_beta split: option.splits)

lemma startReplicas_held:
  "startReplicas ch spec src held cmd lk idxs e st cw = (Inr (None, xs), cw') \<Longrightarrow>
     e = None \<and> (\<forall>k \<in> set idxs. map_of held (InstanceName (cGeneratedName cmd) k) = None)"
proof (induction idxs arbitrary: e st cw)
  case (Cons k ks)
  show ?case
  proof (cases "map_of held (InstanceName (cGeneratedName cmd) k)")
    case (Some reason)
    with Cons.prems have "\<exists>w cw1. startReplicas ch spec src held cmd lk ks (case e of None \<Rightarrow> Some w | Some x \<Rightarrow> Some x) st cw1 = (Inr (None, xs), cw')"
      by (auto simp: Let_def)
    with Cons.IH show ?thesis by (force split: option.splits)
  next
    case None
    with Cons.prems have "\<exists>st' cw1. startReplicas ch spec src held cmd lk ks e st' cw1 = (Inr (None, xs), cw')"
      by (auto simp: Let_def split: if_splits option.splits dest!: startedOr_Inr)
    with Cons.IH None show ?thesis by auto
  qed
qed simp

lemma upStart_held:
  assumes "upStartAction ch spec src held g v cmd cw = (res, cw')" and "arErr res = None" and "k \<in> set (replicaIndices v)"
  shows "map_of held (InstanceName (cGeneratedName cmd) k) = None"
proof -
  let ?stored = "map_of (rev (map (\<lambda>i. (inGenName i, i)) (csInstances (vSnapshot v))))"
  obtain r cw1 where r: "startReplicas ch spec src held cmd ?stored (replicaIndices v) None [] cw = (r, cw1)" by (metis surj_pair)
  with assms(1,2) obtain xs where "r = Inr (None, xs)"
    by (auto simp: upStartAction_def Let_def tryR_def resultOf_def vertexErr_def split: sum.splits option.splits)
  with r startReplicas_held assms(3) show ?thesis by blast
qed

section \<open>A start\<close>

lemma start_outcome_iff:
  "\<lparr> soCommand = n, soErr = e \<rparr> \<in> set (startOutcomes g spec) \<longleftrightarrow>
     n \<in> set (map cName (sCommands spec)) \<and> (\<exists>v. inClosureVertex g n = Some v \<and> vErr v = e)"
  by (auto simp: startOutcomes_def set_map_filter_iff)

lemma start_outcome_names:
  "map soCommand (startOutcomes g spec) = filter (\<lambda>n. inClosureVertex g n \<noteq> None) (map cName (sCommands spec))"
proof -
  have "map soCommand (List.map_filter (\<lambda>c. map_option (\<lambda>v. \<lparr>soCommand = cName c, soErr = vErr v\<rparr>) (h (cName c))) cs) =
      filter (\<lambda>n. h n \<noteq> None) (map cName cs)" for h :: "string \<Rightarrow> graphVertex option" and cs
    by (induction cs) (auto simp: List.map_filter_simps split: option.splits)
  then show ?thesis by (simp add: startOutcomes_def)
qed

text \<open>The project of a start or a stop can be walked: distinct command names apart from the two virtual
  vertices, and a dependency graph that \<^verbatim>\<open>ValidateDAG\<close> accepts.\<close>

lemma dag_walkable:
  assumes "names_ok spec" "ValidateDAG (sCommands spec) = Inr ()"
  shows "closed_deps (sCommands spec)" "acyclic (dep_rel (sCommands spec))" "distinct (map cName (sCommands spec))"
  using assms ValidateDAG_facts(1) [of "sCommands spec"] by (auto simp: names_ok_def)

lemma edge_sat_parent:
  "edge_sat g walkFromBegin v j \<Longrightarrow> vertex g j = Some p \<Longrightarrow> vInClosure p \<Longrightarrow> vErr p = None"
  by (simp add: edge_sat_def evalDownEdgeLocked_def Let_def split: if_splits option.splits AfterCondition.splits)

lemma start_walk_outcomes:
  assumes ok: "names_ok spec" and dag: "ValidateDAG (sCommands spec) = Inr ()"
    and closure: "closure = set (resolveTargetCommands spec names)"
    and w: "walk (returned (startAction ch spec src held) (buildReconcileGraph spec snaps closure targets)) walkFromBegin limit
      (buildReconcileGraph spec snaps closure targets) False g'" (is "walk (returned ?act ?g) _ _ _ _ _")
  shows "map soCommand (startOutcomes g' spec) = filter (\<lambda>n. n \<in> closure) (map cName (sCommands spec))"
    and "c \<in> set (sCommands spec) \<Longrightarrow> \<lparr> soCommand = cName c, soErr = None \<rparr> \<in> set (startOutcomes g' spec) \<Longrightarrow>
      (\<forall>a \<in> set (cAfter c). \<lparr> soCommand = asName a, soErr = None \<rparr> \<in> set (startOutcomes g' spec)) \<and>
      (\<forall>k \<in> set (targetReplicas targets c). map_of held (InstanceName (cGeneratedName c) k) = None)"
proof -
  note f = walk_facts [OF w build_wf [OF ok] build_fresh [OF ok]]
  note dg = dag_walkable [OF ok dag]
  show "map soCommand (startOutcomes g' spec) = filter (\<lambda>n. n \<in> closure) (map cName (sCommands spec))"
    unfolding start_outcome_names by (rule filter_cong [OF refl inClosureVertex_iff [OF ok f(3)]])
  assume c: "c \<in> set (sCommands spec)" and out: "\<lparr> soCommand = cName c, soErr = None \<rparr> \<in> set (startOutcomes g' spec)"
  from out obtain v where v: "vertex g' (cName c) = Some v" "vInClosure v" "vErr v = None"
    by (auto simp: start_outcome_iff inClosureVertex_Some)
  have cl: "cName c \<in> closure" using inClosureVertex_iff [OF ok f(3), of "cName c"] c v by (simp add: inClosureVertex_Some [THEN iffD2])
  have "target g' (cName c)" using v graph_wf_target [OF graph_wf_freezes [OF build_wf [OF ok] f(3)]] by simp
  then have con: "vConsumed v" using f(4) v(1) unfolding allConsumed_def by (metis has_Some)
  have inv: "vertex_inv walkFromBegin g' v" by (rule ginvD(1) [OF f(1) v(1)])
  with v(3) con have nb: "\<not> vBlocked v" and e: "edge_ok g' walkFromBegin v" by (auto simp: vertex_inv_def)
  show "(\<forall>a \<in> set (cAfter c). \<lparr> soCommand = asName a, soErr = None \<rparr> \<in> set (startOutcomes g' spec)) \<and>
      (\<forall>k \<in> set (targetReplicas targets c). map_of held (InstanceName (cGeneratedName c) k) = None)"
  proof (intro conjI ballI)
    fix a assume a: "a \<in> set (cAfter c)"
    have an: "asName a \<in> set (map cName (sCommands spec))" using dg(1) c a by (auto simp: closed_deps_def)
    have ac: "asName a \<in> closure" using start_closed [OF dg(3) c _ a] cl an unfolding closure by blast
    from walk_target_vertex [OF ok f(3) ac an] obtain p where p: "vertex g' (asName a) = Some p" "vInClosure p" .
    from freezes_Some [OF f(3) v(1)] obtain v0 where v0: "vertex ?g (cName c) = Some v0" "vParents v = vParents v0"
      by (metis fz_shape shape_sel(4))
    have "(asName a, cName c) \<in> dep_rel (sCommands spec)" using c a by (auto simp: dep_rel_def)
    moreover have "cName c \<noteq> endVertex" "asName a \<noteq> beginVertex" using ok c an by (auto simp: names_ok_def)
    ultimately have "asName a \<in> neighbours v walkFromBegin"
      using build_parents [OF ok v0(1), of "asName a"] v0(2) by (simp add: neighbours_def readinessKeys_def)
    with e edge_sat_parent p have "vErr p = None" by (auto simp: edge_ok_def)
    with p an show "\<lparr> soCommand = asName a, soErr = None \<rparr> \<in> set (startOutcomes g' spec)"
      by (auto simp: start_outcome_iff inClosureVertex_Some)
  next
    fix k assume k: "k \<in> set (targetReplicas targets c)"
    from f(2) v(1) con nb have "reported (returned ?act ?g) (cName c) v" by (simp add: results_inv_def)
    then obtain h u cw res cw' where h: "freezes ?g h" "vertex h (cName c) = Some u"
      "startAction ch spec src held h u () cw = (((), res), cw')" "arErr res = None"
      using v(3) by (auto simp: reported_def returned_def)
    from build_replicas [OF ok c cl h(1,2)] have u: "vCommand u = Some c" "replicaIndices u = targetReplicas targets c" by simp_all
    with h(3) have "upStartAction ch spec src held h u c cw = (res, cw')"
      by (auto simp: startAction_def tryR_def case_prod_beta prod_eq_iff)
    from upStart_held [OF this h(4)] k u(2) show "map_of held (InstanceName (cGeneratedName c) k) = None" by simp
  qed
qed

lemma reconcileStart_run:
  assumes ok: "names_ok spec" and dag: "ValidateDAG (sCommands spec) = Inr ()"
    and closure: "closure = set (resolveTargetCommands spec (targetNames targets))"
    and r: "reconcileStart ch spec targets src held cw = (Inr outs, cw')" and live: "\<not> ctxDone cw'"
  shows "map soCommand outs = filter (\<lambda>n. n \<in> closure) (map cName (sCommands spec)) \<and>
    (\<forall>c \<in> set (sCommands spec). \<lparr> soCommand = cName c, soErr = None \<rparr> \<in> set outs \<longrightarrow>
      (\<forall>a \<in> set (cAfter c). \<lparr> soCommand = asName a, soErr = None \<rparr> \<in> set outs) \<and>
      (\<forall>k \<in> set (targetReplicas targets c). map_of held (InstanceName (cGeneratedName c) k) = None))"
proof -
  obtain snaps cw1 where s: "snapshotCommands ch (sWorkDir spec) (sProject spec) cw = (Inr snaps, cw1)"
    using r dag by (cases "snapshotCommands ch (sWorkDir spec) (sProject spec) cw") (auto simp: reconcileStart_def bindR_def split: sum.splits)
  let ?act = "startAction ch spec src held" and ?g = "buildReconcileGraph spec snaps closure targets"
  obtain g' cw2 where wk: "walkGraph ch ?act walkFromBegin (min (int (length (resolveTargetCommands spec (targetNames targets)))) reconcileWalkLimit) ?g () cw1 = ((g', ()), cw2)"
    by (metis surj_pair unit.exhaust)
  have o: "outs = startOutcomes g' spec" and c: "cw' = reportBlocked ch g' cw2"
    using r dag s wk closure by (simp_all add: reconcileStart_def bindR_def tryR_def Let_def)
  have "\<not> ctxDone cw2" using live doneC.Q_blocked [of "()" ch g'] by (auto simp: c obeys_def doneC_def)
  with walkGraph_run [OF build_wf [OF ok] build_fresh [OF ok] wk doneC.Q_startAction] obtain
    w: "walk (returned ?act ?g) walkFromBegin (min (int (length (resolveTargetCommands spec (targetNames targets)))) reconcileWalkLimit) ?g False g'" by auto
  from start_walk_outcomes [OF ok dag closure w] show ?thesis unfolding o by blast
qed

section \<open>A stop\<close>

lemma reconcileStop_run:
  assumes ok: "names_ok spec" and dag: "ValidateDAG (sCommands spec) = Inr ()"
    and closure: "closure = set (resolveStopTargetCommands spec (targetNames targets))"
    and r: "reconcileStop ch spec targets td cw = (Inr (td', outs), cw')" and live: "\<not> ctxDone cw'"
  shows "mset (map stCommand outs) = mset (filter (\<lambda>n. n \<in> closure) (map cName (sCommands spec))) \<and>
    (\<forall>i j. (i, j) \<in> dep_rel (sCommands spec) \<longrightarrow> i \<in> closure \<longrightarrow>
      (\<exists>a b. a < b \<and> b < length outs \<and> stCommand (outs ! a) = j \<and> stCommand (outs ! b) = i))"
proof -
  obtain snaps cw1 where s: "snapshotCommands ch (sWorkDir spec) (sProject spec) cw = (Inr snaps, cw1)"
    using r dag by (cases "snapshotCommands ch (sWorkDir spec) (sProject spec) cw") (auto simp: reconcileStop_def bindR_def split: sum.splits)
  let ?act = "stopActionOf ch" and ?g = "buildReconcileGraph spec snaps closure targets"
  obtain g' td2 cw2 where wk: "walkGraph ch ?act walkFromEnd (min (int (length (resolveStopTargetCommands spec (targetNames targets)))) reconcileWalkLimit) ?g td cw1 = ((g', td2), cw2)"
    by (metis surj_pair)
  have o: "outs = stopOutcomes g' spec" and c: "cw' = reportBlocked ch g' cw2"
    using r dag s wk closure by (simp_all add: reconcileStop_def bindR_def tryR_def Let_def)
  have "\<not> ctxDone cw2" using live doneC.Q_blocked [of "()" ch g'] by (auto simp: c obeys_def doneC_def)
  with walkGraph_run [OF build_wf [OF ok] build_fresh [OF ok] wk doneC.Q_stopActionOf] obtain
    w: "walk (returned ?act ?g) walkFromEnd (min (int (length (resolveStopTargetCommands spec (targetNames targets)))) reconcileWalkLimit) ?g False g'" by auto
  note dg = dag_walkable [OF ok dag]
  note f = stop_facts [OF ok dg(2) refl w]
  have "{i, j} \<subseteq> closure \<inter> set (map cName (sCommands spec))" if ij: "(i, j) \<in> dep_rel (sCommands spec)" "i \<in> closure" for i j
  proof -
    have "i \<in> set (map cName (sCommands spec))" "j \<in> set (map cName (sCommands spec))"
      using ij(1) dg(1) by (auto simp: dep_rel_def closed_deps_def)
    moreover have "j \<in> closure" using stop_closed [OF ij(1)] ij(2) unfolding closure .
    ultimately show ?thesis using ij(2) by simp
  qed
  with f show ?thesis unfolding o by blast
qed

section \<open>What create holds back\<close>

lemma replica_command:
  "aoCommand (fst (createReplica ch ph spec a ac p w cw)) = instanceDisplayName (aDesired a) (aScaleIndex a)"
  "aoCommand (fst (recreateReplica ch ph spec a e r hs l cw)) = instanceDisplayName (aDesired a) (aScaleIndex a)"
  "aoCommand (fst (stopThenRecreate ch ph spec a e r hs cw)) = instanceDisplayName (aDesired a) (aScaleIndex a)"
proof -
  show c: "aoCommand (fst (createReplica ch ph spec a ac p w cw)) = instanceDisplayName (aDesired a) (aScaleIndex a)" for ac p w cw
    by (simp add: createReplica_def tryR_def failedAction_def doneAction_def Let_def split: prod.split option.split)
  show r: "aoCommand (fst (recreateReplica ch ph spec a e r hs l cw)) = instanceDisplayName (aDesired a) (aScaleIndex a)" for l cw
    by (simp add: recreateReplica_def tryR_def failedAction_def c Let_def split: prod.split option.split)
  show "aoCommand (fst (stopThenRecreate ch ph spec a e r hs cw)) = instanceDisplayName (aDesired a) (aScaleIndex a)"
    by (simp add: stopThenRecreate_def tryR_def failedAction_def r Let_def split: prod.split option.split)
qed

lemma executeAction_command: "aoCommand (fst (executeAction ch ph spec a cw)) = instanceDisplayName (aDesired a) (aScaleIndex a)"
  by (simp add: executeAction_def Let_def replica_command failedAction_def doneAction_def split: ActionKind.split option.split sum.split prod.split)

definition heldBy :: "(string, SvcErr) gomap \<Rightarrow> CommandAction \<Rightarrow> ActionOutcome \<Rightarrow> bool" where
  "heldBy held a o' \<longleftrightarrow> aoCommand o' = instanceDisplayName (aDesired a) (aScaleIndex a) \<and>
     (aoErr o' \<noteq> None \<longrightarrow> map_of held (aInstanceName a) \<noteq> None)"

lemma executeActions_held:
  "executeActions ch ph spec as cw = ((os, held), cw') \<Longrightarrow> list_all2 (heldBy held) as os"
proof (induction as arbitrary: os held cw cw')
  case (Cons a as)
  obtain x cw1 where x: "executeAction ch ph spec a cw = (x, cw1)" by (metis surj_pair)
  obtain xs h cw2 where r: "executeActions ch ph spec as cw1 = ((xs, h), cw2)" by (metis surj_pair)
  have o: "os = x # xs" "held = (case aoErr x of None \<Rightarrow> h | Some e \<Rightarrow> h @ [(aInstanceName a, e)])"
    using Cons.prems x r by (auto simp: tryR_def)
  have "heldBy held a x" using executeAction_command [of ch ph spec a cw] x
    by (auto simp: heldBy_def o(2) map_add_def split: option.split)
  moreover have "list_all2 (heldBy held) as xs" using Cons.IH [OF r]
    by (rule list_all2_mono) (auto simp: heldBy_def o(2) map_add_def split: option.split)
  ultimately show ?case by (simp add: o(1))
qed simp

lemma create_held:
  assumes d: "distinct (map cName (sCommands spec))" and r: "create ch ph spec ro ts cw = (Inr (acts, held), cw')"
  shows "\<exists>pre as os. acts = pre @ os \<and> list_all2 (heldBy held) as os \<and>
    (\<forall>a \<in> set as. aDesired a \<in> set (sCommands spec) \<and> aInstanceName a = InstanceName (cGeneratedName (aDesired a)) (aScaleIndex a) \<and>
       aScaleIndex a \<in> set (targetReplicas ts (aDesired a)))"
proof -
  let ?list = "wrapR (ErrWrap ''list existing commands'') (svc (Service_List (chHost ch) True
      [(LabelWorkdir, sWorkDir spec), (LabelProject, sProject spec)])) cw"
  let ?k = "\<lambda>plan. tryR (if ts = [] then handleOrphans ch (pOrphans plan) ro else Pair []) (\<lambda>orphans.
        tryR (if replicaScoped ts then Pair [] else handleExcessReplicas ch (pExcess plan) (resolveTargetCommands spec (targetNames ts))) (\<lambda>excess.
        tryR (executeActions ch ph spec (filter (\<lambda>a. cName (aDesired a) \<in> set (resolveTargetCommands spec (targetNames ts)) \<and> covers ts (cName (aDesired a)) (aScaleIndex a))
          (pActions plan))) (\<lambda>(os, held). Pair (Inr (orphans @ excess @ os, held) :: SvcErr + _))))"
  obtain existing cw1 where l: "?list = (Inr existing, cw1)"
    using r by (cases ?list; cases "fst ?list") (auto simp: create_def bindR_def)
  let ?plan = "ComputePlan (phHash ph) spec existing (\<lambda>m. visitOrder ch cw1 (keys_of m))"
  from r l have "(case ?plan of Inl _ \<Rightarrow> (Inl (ErrText ''compute plan''), cw1) | Inr plan \<Rightarrow> ?k plan cw1) = (Inr (acts, held), cw')"
    by (simp only: create_def bindR_def prod.case sum.case Let_def)
  then obtain plan where plan: "?plan = Inr plan" and r2: "?k plan cw1 = (Inr (acts, held), cw')"
    by (cases ?plan) (simp_all only: sum.case prod.inject sum.distinct simp_thms)
  let ?as = "filter (\<lambda>a. cName (aDesired a) \<in> set (resolveTargetCommands spec (targetNames ts)) \<and> covers ts (cName (aDesired a)) (aScaleIndex a)) (pActions plan)"
  from r2 obtain pre os cw2 cw3 where o: "executeActions ch ph spec ?as cw2 = ((os, held), cw3)" "acts = pre @ os"
    unfolding tryR_def by (auto split: prod.splits simp flip: append_assoc)
  from plan_actions [OF d plan] obtain layers where
    keys: "map (\<lambda>a. (cName (aDesired a), aScaleIndex a)) (pActions plan) = replicaList (sCommands spec) (concat layers)"
    and acts: "\<forall>a \<in> set (pActions plan). aDesired a \<in> set (sCommands spec) \<and> aInstanceName a = InstanceName (cGeneratedName (aDesired a)) (aScaleIndex a)"
    by blast
  have "aScaleIndex a \<in> set (targetReplicas ts (aDesired a))" if a: "a \<in> set ?as" for a
  proof -
    have "(cName (aDesired a), aScaleIndex a) \<in> set (replicaList (sCommands spec) (concat layers))"
      using a unfolding keys [symmetric] by auto
    then have "1 \<le> aScaleIndex a \<and> aScaleIndex a \<le> max (cScale (aDesired a)) 1"
      using replicaList_mem [OF d] acts a by auto
    then have "aScaleIndex a \<in> set (allReplicaIndices (aDesired a))"
      by (auto simp: allReplicaIndices_def image_iff intro!: bexI [of _ "nat (aScaleIndex a - 1)"])
    with a show ?thesis by (auto simp: targetReplicas_def covers_def split: option.splits)
  qed
  with executeActions_held [OF o(1)] o(2) acts show ?thesis by (intro exI [of _ pre] exI [of _ ?as] exI [of _ os]) auto
qed

section \<open>Properties\<close>

text \<open>C7: A start that nobody interrupted reports every command of the closure of its targets, in the
  order of the file, and a command reported without an error is one whose replicas were all free
  to start and whose dependencies are all reported without an error.\<close>

theorem start_reports_closure:
  assumes "names_ok spec" and "reconcileStart ch spec targets src held cw = (Inr outs, cw')" and "\<not> ctxDone cw'"
  shows "map soCommand outs = filter (\<lambda>n. n \<in> set (resolveTargetCommands spec (targetNames targets))) (map cName (sCommands spec)) \<and>
    (\<forall>c \<in> set (sCommands spec). \<lparr> soCommand = cName c, soErr = None \<rparr> \<in> set outs \<longrightarrow>
      (\<forall>a \<in> set (cAfter c). \<lparr> soCommand = asName a, soErr = None \<rparr> \<in> set outs) \<and>
      (\<forall>k \<in> set (targetReplicas targets c). map_of held (InstanceName (cGeneratedName c) k) = None))"
proof -
  have "ValidateDAG (sCommands spec) = Inr ()" using assms(2) by (auto simp: reconcileStart_def split: sum.splits)
  from reconcileStart_run [OF assms(1) this refl assms(2,3)] show ?thesis .
qed

text \<open>C8: A stop that nobody interrupted reports every command of the closure of its targets once, each
  dependent before the commands it runs after.\<close>

theorem stop_reports_closure:
  assumes "names_ok spec" and "reconcileStop ch spec targets td cw = (Inr (td', outs), cw')" and "\<not> ctxDone cw'"
  shows "mset (map stCommand outs) =
      mset (filter (\<lambda>n. n \<in> set (resolveStopTargetCommands spec (targetNames targets))) (map cName (sCommands spec))) \<and>
    (\<forall>i j. (i, j) \<in> dep_rel (sCommands spec) \<longrightarrow> i \<in> set (resolveStopTargetCommands spec (targetNames targets)) \<longrightarrow>
      (\<exists>a b. a < b \<and> b < length outs \<and> stCommand (outs ! a) = j \<and> stCommand (outs ! b) = i))"
proof -
  have "ValidateDAG (sCommands spec) = Inr ()" using assms(2) by (auto simp: reconcileStop_def split: sum.splits)
  from reconcileStop_run [OF assms(1) this refl assms(2,3)] show ?thesis .
qed



end
