(* ===== verification/Compose_Examples.thy ===== *)
theory Compose_Examples
  imports Compose_Runs
begin

text \<open>
  The compose operations on a small project: a host without faults and without cancellation, an empty
  store, and the two commands of \<open>pairSpec\<close>, run to their end. Witnesses of the properties of
  \<^verbatim>\<open>Compose_Runs\<close> and \<^verbatim>\<open>Hook_Events\<close>.
\<close>

definition calmHost :: ComposeHost where
  "calmHost = netHost\<lparr> chHost := plainHost\<lparr> hoMonitor := (\<lambda>_ _. Some) \<rparr>, chReporter := False \<rparr>"

definition idleCW :: CWorld where
  "idleCW = \<lparr> cwWorld = emptyWorld, cwEvents = [], cwFailed = None \<rparr>"

definition plainProject :: ProjectHost where
  "plainProject = \<lparr> phHash = (\<lambda>c. Some ''h''), phEncodeAfter = (\<lambda>_. ''a''), phDecodeAfter = (\<lambda>_. None), phEncodeHooks = (\<lambda>_. []) \<rparr>"

lemma calm_start:
  "case reconcileStart calmHost pairSpec [] hooksFromSpec [(''-1'', ErrCanceled)] idleCW of (Inr outs, cw) \<Rightarrow> \<not> ctxDone cw | _ \<Rightarrow> False"
  by code_simp

lemma calm_stop:
  "case reconcileStop calmHost pairSpec [] (newTeardown False None) idleCW of (Inr (td, outs), cw) \<Rightarrow> \<not> ctxDone cw | _ \<Rightarrow> False"
  by code_simp

lemma calm_up:
  "case Up calmHost plainProject pairSpec False [] idleCW of
     (Inr (acts, starts), cw) \<Rightarrow> \<not> ctxDone cw \<and> list_all (\<lambda>x. aoErr x \<noteq> None) acts \<and> length acts = 2 | _ \<Rightarrow> False"
  by code_simp

lemma pair_names: "map cName (sCommands pairSpec) = [''api'', ''db'']"
  by (simp add: pairSpec_def)

lemma pair_start_all: "set (resolveTargetCommands pairSpec (targetNames [])) = {''api'', ''db''}"
proof -
  have "set (resolveTargetCommands pairSpec []) = set (map cName (sCommands pairSpec))" by (simp only: start_closure.resolve_all)
  then show ?thesis by (simp add: pair_names targetNames_def del: set_map)
qed

lemma pair_stop_all: "set (resolveStopTargetCommands pairSpec (targetNames [])) = {''api'', ''db''}"
proof -
  have "set (resolveStopTargetCommands pairSpec []) = set (map cName (sCommands pairSpec))" by (simp only: stop_closure.resolve_all)
  then show ?thesis by (simp add: pair_names targetNames_def del: set_map)
qed

theorem start_reports_closure_witness:
  "\<exists>outs cw'. reconcileStart calmHost pairSpec [] hooksFromSpec [(''-1'', ErrCanceled)] idleCW = (Inr outs, cw') \<and>
     map soCommand outs = [''api'', ''db''] \<and> \<lparr> soCommand = ''api'', soErr = None \<rparr> \<notin> set outs"
proof -
  obtain outs cw' where r: "reconcileStart calmHost pairSpec [] hooksFromSpec [(''-1'', ErrCanceled)] idleCW = (Inr outs, cw')" "\<not> ctxDone cw'"
    using calm_start by (auto split: prod.splits sum.splits)
  note s = start_reports_closure [OF pair_names_ok r]
  have api: "hd (sCommands pairSpec) \<in> set (sCommands pairSpec)" "cName (hd (sCommands pairSpec)) = ''api''"
    "1 \<in> set (targetReplicas [] (hd (sCommands pairSpec)))" "InstanceName (cGeneratedName (hd (sCommands pairSpec))) 1 = ''-1''"
    by (simp_all add: pairSpec_def targetReplicas_def allReplicaIndices_def) code_simp
  from s api have "\<lparr> soCommand = ''api'', soErr = None \<rparr> \<notin> set outs" by force
  with s r show ?thesis by (simp add: pair_start_all pair_names)
qed

theorem stop_reports_closure_witness:
  "\<exists>td outs cw'. reconcileStop calmHost pairSpec [] (newTeardown False None) idleCW = (Inr (td, outs), cw') \<and>
     map stCommand outs = [''api'', ''db'']"
proof -
  obtain td outs cw' where r: "reconcileStop calmHost pairSpec [] (newTeardown False None) idleCW = (Inr (td, outs), cw')" "\<not> ctxDone cw'"
    using calm_stop by (auto split: prod.splits sum.splits)
  note s = stop_reports_closure [OF pair_names_ok r]
  have "(''db'', ''api'') \<in> dep_rel (sCommands pairSpec)" by (simp add: pair_dep_rel)
  moreover have "''db'' \<in> set (resolveStopTargetCommands pairSpec (targetNames []))" unfolding pair_stop_all by simp
  ultimately obtain a b where ab: "a < b" "b < length outs" "stCommand (outs ! a) = ''api''" "stCommand (outs ! b) = ''db''"
    using conjunct2 [OF s] by blast
  from s have "length (map stCommand outs) = size {#''api'', ''db''#}" unfolding pair_stop_all pair_names
    by (metis (no_types, lifting) conjunct1 size_mset filter.simps insertCI insert_iff mset.simps add_mset_add_single)
  then have "length outs = 2" by simp
  with ab have "map stCommand outs = [''api'', ''db'']"
    by (cases outs; cases "tl outs") (auto simp: less_Suc_eq numeral_2_eq_2)
  then show ?thesis by (intro exI conjI) (rule r(1))
qed


lemma idle_ok: "store_ok (wStore (cwWorld idleCW))"
  by (simp add: idleCW_def emptyWorld_def store_ok_def namesOf_def)


text \<open>A forced teardown of a replica that was created and never ran.\<close>

definition plainEntry :: CommandEntry where
  "plainEntry = (hd planExisting)"


end
