(* ===== verification/Compose_Stored.thy ===== *)
theory Compose_Stored
  imports Compose_Reconcile
begin

text \<open>
  The project that \<^verbatim>\<open>reconstructProjectFromMeta\<close> of reconstruct_project.go reads back from the labels and
  names that a create left on the replicas of a project: its commands, dependencies, names and scales.
\<close>

section \<open>What one replica contributes\<close>

text \<open>What of a command its replicas carry, \<open>n\<close> of them.\<close>

definition storedView :: "Command \<Rightarrow> int \<Rightarrow> Command" where
  "storedView c n = (bare_command (cName c) (cAfter c))\<lparr> cGeneratedName := cGeneratedName c, cScale := n \<rparr>"

text \<open>A command whose labels can be read back: what \<^verbatim>\<open>json\<close> makes of its dependencies, and values that
  normalization lets through.\<close>

definition storable :: "ProjectHost \<Rightarrow> Command \<Rightarrow> bool" where
  "storable ph c \<longleftrightarrow> cName c \<noteq> [] \<and> cGeneratedName c \<noteq> [] \<and> cScale c \<le> maxInt64 \<and> label_of (cLabels c) LabelAfter = [] \<and>
     list_all (\<lambda>a. \<not> isl (AfterSpec_Validate a)) (cAfter c) \<and>
     (cAfter c \<noteq> [] \<longrightarrow> phEncodeAfter ph (cAfter c) \<noteq> [] \<and> phDecodeAfter ph (phEncodeAfter ph (cAfter c)) = Some (cAfter c))"

definition replicaEntry :: "ProjectHost \<Rightarrow> ComposeSpec \<Rightarrow> (Command \<Rightarrow> string option) \<Rightarrow> Command \<times> int \<Rightarrow> CommandEntry \<Rightarrow> bool" where
  "replicaEntry ph spec hash = (\<lambda>(c, k) e. Compose_Plan.recorded (phEncodeAfter ph) (phEncodeHooks ph) spec hash c k e \<and>
     enName e = InstanceName (cGeneratedName c) k)"

definition projectReplicas :: "ComposeSpec \<Rightarrow> (Command \<times> int) list" where
  "projectReplicas spec = concat (map (\<lambda>c. map (Pair c) (allReplicaIndices c)) (sCommands spec))"

definition addStored :: "Command \<Rightarrow> (string, Command) gomap \<Rightarrow> (string, Command) gomap" where
  "addStored c cs = (case map_of cs (cName c) of
     Some d \<Rightarrow> AList.update (cName c) (d\<lparr> cScale := cScale d + 1 \<rparr>) cs | None \<Rightarrow> cs @ [(cName c, storedView c 1)])"

lemma BuildLabels_after:
  "label_of (BuildLabels mA mH spec c h i) LabelAfter = (if cAfter c \<noteq> [] then mA (cAfter c) else label_of (cLabels c) LabelAfter)"
  unfolding BuildLabels_def by (simp add: Label_defs Let_def)

lemma collect_replica:
  assumes e: "replicaEntry ph spec hash (c, k) e" and s: "storable ph c" and k: "0 < k" "k \<le> maxInt64"
    and p: "p = None \<or> p = Some (sProject spec)"
  shows "collectCommands ph (e # es) p cs = collectCommands ph es (Some (sProject spec)) (addStored c cs)"
proof -
  from e obtain cfg where cfg: "enConfigJSON e = Some cfg"
    "ccLabels cfg = BuildLabels (phEncodeAfter ph) (phEncodeHooks ph) spec c (the (hash c)) k"
    and name: "enName e = InstanceName (cGeneratedName c) k" by (auto simp: replicaEntry_def Compose_Plan.recorded_def)
  have "minInt64 \<le> k" using k by (simp add: minInt64_def)
  with cfg k have r: "commandNameOf e = cName c" "scaleIndexOf e = k"
    by (simp_all add: commandNameOf_def scaleIndexOf_def ScaleOf_def scaleLabelValue_def BuildLabels_read atoi_itoa)
  have "decodeAfterLabel ph (label_of (ccLabels cfg) LabelAfter) = Inr (cAfter c)"
    using s unfolding cfg(2) BuildLabels_after by (auto simp: storable_def decodeAfterLabel_def)
  moreover have "storedCommand (cName c) (cAfter c) e = storedView c 1"
    using s k(1) by (simp add: storedCommand_def storedView_def name r strip_InstanceName storable_def Let_def)
  moreover have "cName c \<noteq> []" using s by (simp add: storable_def)
  ultimately show ?thesis using p
    by (auto simp: r cfg BuildLabels_read addStored_def Let_def bindE_def wrapE_def split: option.split)
qed

section \<open>All replicas\<close>

definition storedInv :: "ComposeSpec \<Rightarrow> Command list \<Rightarrow> (string, Command) gomap \<Rightarrow> bool" where
  "storedInv spec cs0 m \<longleftrightarrow> distinct (map fst m) \<and> fst ` set m \<subseteq> cName ` set (sCommands spec) \<and>
     (\<forall>c \<in> set (sCommands spec). map_of m (cName c) = (if c \<in> set cs0 then Some (storedView c (int (count_list cs0 c))) else None))"

lemma addStored_lookup:
  "map_of (addStored c m) k = (if k = cName c then Some (case map_of m k of Some d \<Rightarrow> d\<lparr> cScale := cScale d + 1 \<rparr> | None \<Rightarrow> storedView c 1)
     else map_of m k)"
  by (auto simp: addStored_def update_conv' map_add_def split: option.split)

lemma addStored_keys:
  "distinct (map fst m) \<Longrightarrow> distinct (map fst (addStored c m)) \<and> fst ` set (addStored c m) = insert (cName c) (fst ` set m)"
  by (auto simp: addStored_def distinct_update dom_update map_of_eq_None_iff split: option.split dest: map_of_SomeD)

lemma storedInv_add:
  assumes d: "distinct (map cName (sCommands spec))" and i: "storedInv spec cs0 m" and c: "c \<in> set (sCommands spec)"
  shows "storedInv spec (cs0 @ [c]) (addStored c m)"
  unfolding storedInv_def
proof (intro conjI ballI)
  from i have dm: "distinct (map fst m)" and sub: "fst ` set m \<subseteq> cName ` set (sCommands spec)"
    and m: "x \<in> set (sCommands spec) \<Longrightarrow> map_of m (cName x) = (if x \<in> set cs0 then Some (storedView x (int (count_list cs0 x))) else None)" for x
    by (simp_all add: storedInv_def)
  show "distinct (map fst (addStored c m))" "fst ` set (addStored c m) \<subseteq> cName ` set (sCommands spec)"
    using addStored_keys [OF dm, of c] sub c by auto
  fix x assume x: "x \<in> set (sCommands spec)"
  show "map_of (addStored c m) (cName x) =
      (if x \<in> set (cs0 @ [c]) then Some (storedView x (int (count_list (cs0 @ [c]) x))) else None)"
  proof (cases "x = c")
    case True
    then show ?thesis using m [OF c]
      by (cases "c \<in> set cs0") (simp_all add: addStored_lookup storedView_def count_list_append count_list_0_iff)
  next
    case False
    then have "cName x \<noteq> cName c" using d c x by (meson distinct_map inj_onD)
    then show ?thesis using m [OF x] False by (simp add: addStored_lookup count_list_append)
  qed
qed

lemma collect_all:
  assumes "list_all2 (replicaEntry ph spec hash) rs es" and "distinct (map cName (sCommands spec))"
    and "\<forall>(c, k) \<in> set rs. c \<in> set (sCommands spec) \<and> storable ph c \<and> 0 < k \<and> k \<le> maxInt64"
    and "storedInv spec cs0 m" "p = None \<or> p = Some (sProject spec)"
  shows "\<exists>m'. collectCommands ph es p m = collectCommands ph [] (if rs = [] then p else Some (sProject spec)) m' \<and>
     storedInv spec (cs0 @ map fst rs) m'"
  using assms
proof (induction rs es arbitrary: cs0 m p rule: list_all2_induct)
  case (Cons r rs e es)
  obtain c k where r: "r = (c, k)" by (cases r)
  from Cons.prems(2) r have c: "c \<in> set (sCommands spec)" "storable ph c" "0 < k" "k \<le> maxInt64" by auto
  have step: "collectCommands ph (e # es) p m = collectCommands ph es (Some (sProject spec)) (addStored c m)"
    using Cons.hyps(1) r c Cons.prems(4) by (intro collect_replica) auto
  have "storedInv spec (cs0 @ [c]) (addStored c m)" by (rule storedInv_add [OF Cons.prems(1,3) c(1)])
  moreover have "\<forall>(c, k) \<in> set rs. c \<in> set (sCommands spec) \<and> storable ph c \<and> 0 < k \<and> k \<le> maxInt64" using Cons.prems(2) by simp
  ultimately obtain m' where
    m: "collectCommands ph es (Some (sProject spec)) (addStored c m) =
        collectCommands ph [] (if rs = [] then Some (sProject spec) else Some (sProject spec)) m'"
    "storedInv spec ((cs0 @ [c]) @ map fst rs) m'" using Cons.IH [OF Cons.prems(1) _ _ disjI2 [OF refl]] by blast
  show ?case
  proof (intro exI conjI)
    show "collectCommands ph (e # es) p m = collectCommands ph [] (if r # rs = [] then p else Some (sProject spec)) m'"
      unfolding step m(1) by simp
    show "storedInv spec (cs0 @ map fst (r # rs)) m'" using m(2) r by simp
  qed
qed (auto simp del: collectCommands.simps)

lemma count_projectReplicas:
  assumes "distinct (map cName (sCommands spec))" and "c \<in> set (sCommands spec)"
  shows "count_list (map fst (projectReplicas spec)) c = nat (max (cScale c) 1)"
proof -
  have "count_list (map fst (concat (map (\<lambda>c. map (Pair c) (allReplicaIndices c)) cs))) c = (if c \<in> set cs then nat (max (cScale c) 1) else 0)"
    if "distinct cs" for cs
    using that
  proof (induction cs)
    case (Cons d cs)
    have "count_list (replicate n y) z = (if y = z then n else 0)" for n and y z :: Command by (induction n) auto
    with Cons show ?case by (auto simp: count_list_append comp_def allReplicaIndices_def map_replicate_const count_list_0_iff)
  qed simp
  with assms show ?thesis by (simp add: projectReplicas_def distinct_map)
qed

lemma projectReplicas_mem:
  "(c, k) \<in> set (projectReplicas spec) \<longleftrightarrow> c \<in> set (sCommands spec) \<and> 1 \<le> k \<and> k \<le> max (cScale c) 1"
proof -
  have "k \<in> set (allReplicaIndices c) \<longleftrightarrow> 1 \<le> k \<and> k \<le> max (cScale c) 1"
    by (auto simp: allReplicaIndices_def image_iff intro!: bexI [of _ "nat (k - 1)"])
  then show ?thesis by (auto simp: projectReplicas_def)
qed

lemma reconstruct_stored:
  assumes n: "distinct (map cName (sCommands spec))" "sorted (map cName (sCommands spec))" "sCommands spec \<noteq> []"
    and dag: "ValidateDAG (sCommands spec) = Inr ()" and st: "\<forall>c \<in> set (sCommands spec). storable ph c"
    and rs: "mset rs = mset (projectReplicas spec)" and es: "list_all2 (replicaEntry ph spec hash) rs entries"
  shows "reconstructProjectFromMeta ph workDir entries = Inr (Some \<lparr> sComposeFile = [], sProject = sProject spec, sWorkDir = workDir,
     sWorkDirDeclared = False, sCommands = map (\<lambda>c. storedView c (max (cScale c) 1)) (sCommands spec), sMux = None \<rparr>)"
proof -
  let ?f = "\<lambda>c. storedView c (max (cScale c) 1)" and ?ns = "map cName (sCommands spec)"
  have mem: "set rs = set (projectReplicas spec)" using rs by (rule mset_eq_setD)
  have "\<forall>(c, k) \<in> set rs. c \<in> set (sCommands spec) \<and> storable ph c \<and> 0 < k \<and> k \<le> maxInt64"
    unfolding mem
  proof clarify
    fix c k assume "(c, k) \<in> set (projectReplicas spec)"
    then have "c \<in> set (sCommands spec)" "1 \<le> k" "k \<le> max (cScale c) 1" by (simp_all add: projectReplicas_mem)
    moreover from this have "storable ph c" "max (cScale c) 1 \<le> maxInt64" using st by (auto simp: storable_def maxInt64_def)
    ultimately show "c \<in> set (sCommands spec) \<and> storable ph c \<and> 0 < k \<and> k \<le> maxInt64" by linarith
  qed
  from collect_all [OF es n(1) this, of "[]" "[]" None] obtain m where
    c: "collectCommands ph entries None [] = collectCommands ph [] (if rs = [] then None else Some (sProject spec)) m"
    and i: "storedInv spec (map fst rs) m" by (auto simp: storedInv_def simp del: collectCommands.simps)
  have "1 \<le> max (cScale c) 1" for c by simp
  then have all: "fst ` set rs = set (sCommands spec)" unfolding mem
    by (auto simp: image_iff projectReplicas_mem Bex_def) (metis \<open>\<And>c. 1 \<le> max (cScale c) 1\<close> order_refl)
  have "count_list (map fst rs) c = count_list (map fst (projectReplicas spec)) c" for c
    using rs by (metis count_mset mset_map)
  with count_projectReplicas [OF n(1)] all i have m: "map_of m (cName c) = Some (?f c)" if "c \<in> set (sCommands spec)" for c
    using that by (auto simp: storedInv_def)
  have dm: "distinct (map fst m)" and sub: "fst ` set m \<subseteq> cName ` set (sCommands spec)" using i by (simp_all add: storedInv_def)
  have set: "set m = (\<lambda>c. (cName c, ?f c)) ` set (sCommands spec)"
  proof (intro set_eqI iffI)
    fix x assume x: "x \<in> set m"
    with sub obtain c where c: "c \<in> set (sCommands spec)" "fst x = cName c" by auto
    have "map_of m (fst x) = Some (snd x)" using x dm by simp
    with m [OF c(1)] c(2) have "snd x = ?f c" by simp
    with c show "x \<in> (\<lambda>c. (cName c, ?f c)) ` set (sCommands spec)" by (auto simp: prod_eq_iff)
  qed (auto dest: m map_of_SomeD)
  then have ne: "m \<noteq> []" "rs \<noteq> []" using n(3) all by auto
  have k: "map fst m = map cName (map snd m)" using set by (auto simp: storedView_def)
  have "sort_key cName (map snd m) = map ?f (sCommands spec)"
  proof (rule map_sorted_distinct_set_unique [of cName])
    have "cName \<circ> ?f = cName" by (simp add: storedView_def comp_def)
    then show "sorted (map cName (map ?f (sCommands spec)))" "distinct (map cName (map ?f (sCommands spec)))" using n(1,2) by simp_all
    have "snd ` set m = ?f ` set (sCommands spec)" unfolding set by (simp only: image_image snd_conv)
    then show "set (sort_key cName (map snd m)) = set (map ?f (sCommands spec))" by simp
    show "distinct (map cName (sort_key cName (map snd m)))" using dm k
      by (metis distinct_map distinct_sort set_sort)
    then show "inj_on cName (set (sort_key cName (map snd m)) \<union> set (map ?f (sCommands spec)))"
      using \<open>set (sort_key cName (map snd m)) = _\<close> by (simp add: distinct_map)
  qed simp
  moreover have "ValidateDAG (map ?f (sCommands spec)) = Inr ()"
  proof -
    have sel: "cName (?f c) = cName c" "cAfter (?f c) = cAfter c" for c by (simp_all add: storedView_def)
    have "closed_deps (map ?f (sCommands spec)) = closed_deps (sCommands spec)" "map cName (map ?f (sCommands spec)) = ?ns"
      by (auto simp: closed_deps_def sel)
    moreover have "dep_rel (map ?f (sCommands spec)) = dep_rel (sCommands spec)"
      unfolding dep_rel_def by (auto simp: image_iff sel) (metis sel)+
    ultimately show ?thesis using ValidateDAG_facts(1) n(1) dag by metis
  qed
  ultimately show ?thesis using c ne by (simp add: reconstructProjectFromMeta_def bindE_def Let_def)
qed

end
