(* ===== verification/Compose_Env.thy ===== *)
theory Compose_Env
  imports Compose_Lifecycle Go_Path
begin

text \<open>
  Environment layers of a compose file (\<^verbatim>\<open>buildEnvLayer\<close> and its helpers of
  cmdman/compose/normalize.go): env files in order, then env entries, on top of a seed.
  What the code calls outside the repository or in the operating system is collected in
  \<open>Ext\<close>: the working directory and environment of the process, the file system,
  \<^verbatim>\<open>template.Substitute\<close> and \<^verbatim>\<open>dotenv.ParseWithLookup\<close> of compose-go, SHA-256, and the
  parameters of the option parsers. \<^const>\<open>None\<close> is an error.
\<close>

type_synonym lookup = "string \<Rightarrow> string option"

datatype statResult = StatOk | StatNotExist | StatError

record Ext =
  xGetwd :: "string option"
  xEnviron :: "string list"
  xSubstitute :: "string \<Rightarrow> lookup \<Rightarrow> string option"
  xStat :: "string \<Rightarrow> statResult"
  xOpen :: "string \<Rightarrow> string option"
  xDotenv :: "string \<Rightarrow> lookup \<Rightarrow> (string, string) gomap option"
  xSha :: "string \<Rightarrow> string"
  xParseDuration :: "string \<Rightarrow> int option"
  xSignalName :: "int \<Rightarrow> string"
  xSignalNum :: "string \<Rightarrow> int"
  xParseBytes :: "string \<Rightarrow> int option"

record EnvFileSpec =
  efPath :: string
  efRequired :: "bool option"

datatype EnvErr =
    EnvFileInterp nat | EnvFileStat nat string | EnvFileOpen nat string | EnvFileParse nat string | EnvInterp nat

section \<open>Maps of variables\<close>

definition osEnvMap :: "string list \<Rightarrow> (string, string) gomap" where
  "osEnvMap env = fold (\<lambda>entry m. case cut CHR ''='' entry of (k, v, _) \<Rightarrow> AList.update k v m) env []"

definition buildLookup :: "(string, string) gomap \<Rightarrow> lookup" where
  "buildLookup env key = map_of env key"

definition buildLookupFromMaps :: "(string, string) gomap \<Rightarrow> (string, string) gomap \<Rightarrow> lookup" where
  "buildLookupFromMaps base overlay key =
     (case map_of overlay key of Some v \<Rightarrow> Some v | None \<Rightarrow> map_of base key)"

definition mapToEnvSlice :: "(string, string) gomap \<Rightarrow> string list" where
  "mapToEnvSlice env = map (\<lambda>k. k @ ''='' @ label_of env k) (sort (keys_of env))"

section \<open>buildEnvLayer\<close>

fun envFileLoop ::
  "Ext \<Rightarrow> string \<Rightarrow> (string, string) gomap \<Rightarrow> nat \<Rightarrow> EnvFileSpec list \<Rightarrow> (string, string) gomap
     \<Rightarrow> EnvErr + (string, string) gomap" where
  "envFileLoop ext workDir osEnv i [] accum = Inr accum"
| "envFileLoop ext workDir osEnv i (ef # efs) accum =
     (let required = (case efRequired ef of None \<Rightarrow> True | Some r \<Rightarrow> r) in
      case xSubstitute ext (efPath ef) (buildLookupFromMaps osEnv accum) of
        None \<Rightarrow> Inl (EnvFileInterp i)
      | Some interpPath \<Rightarrow>
          (let path = resolvePath workDir interpPath in
           if \<not> required \<and> xStat ext path = StatNotExist then envFileLoop ext workDir osEnv (i + 1) efs accum
           else if \<not> required \<and> xStat ext path = StatError then Inl (EnvFileStat i path)
           else case xOpen ext path of
             None \<Rightarrow> Inl (EnvFileOpen i path)
           | Some f \<Rightarrow>
               (case xDotenv ext f (buildLookupFromMaps osEnv accum) of
                  None \<Rightarrow> Inl (EnvFileParse i path)
                | Some fileVars \<Rightarrow> envFileLoop ext workDir osEnv (i + 1) efs (copyMap accum fileVars))))"

fun envLoop ::
  "Ext \<Rightarrow> (string, string) gomap \<Rightarrow> nat \<Rightarrow> string list \<Rightarrow> (string, string) gomap
     \<Rightarrow> EnvErr + (string, string) gomap" where
  "envLoop ext merged j [] cmdEnv = Inr cmdEnv"
| "envLoop ext merged j (entry # es) cmdEnv =
     (case cut CHR ''='' entry of (k, v, hasVal) \<Rightarrow>
        if \<not> hasVal then
          (case map_of merged k of
             Some val \<Rightarrow> envLoop ext merged (j + 1) es (AList.update k val cmdEnv)
           | None \<Rightarrow> envLoop ext merged (j + 1) es cmdEnv)
        else
          (case xSubstitute ext v (buildLookup merged) of
             None \<Rightarrow> Inl (EnvInterp j)
           | Some interpolated \<Rightarrow> envLoop ext merged (j + 1) es (AList.update k interpolated cmdEnv)))"

definition buildEnvLayer ::
  "Ext \<Rightarrow> string \<Rightarrow> EnvFileSpec list \<Rightarrow> string list \<Rightarrow> (string, string) gomap \<Rightarrow> (string, string) gomap
     \<Rightarrow> EnvErr + (string, string) gomap" where
  "buildEnvLayer ext workDir envFiles env osEnv seed =
     bindE (envFileLoop ext workDir osEnv 0 envFiles seed)
       (\<lambda>envFileAccum.
          let envFileMerged = copyMap (copyMap [] osEnv) envFileAccum
          in envLoop ext envFileMerged 0 env (copyMap [] envFileAccum))"

section \<open>Which layer a variable comes from\<close>

text \<open>What one env entry sets: its interpolated value, or for a bare key the value seen
  below it.\<close>

definition envEntry :: "Ext \<Rightarrow> (string, string) gomap \<Rightarrow> string \<Rightarrow> (string \<times> string) option" where
  "envEntry ext merged entry =
     (case cut CHR ''='' entry of (k, v, hasVal) \<Rightarrow>
        map_option (Pair k) (if hasVal then xSubstitute ext v (buildLookup merged) else map_of merged k))"

lemma envLoop_entries:
  assumes "envLoop ext merged j env cmdEnv = Inr m"
  shows "m = copyMap cmdEnv (List.map_filter (envEntry ext merged) env)"
  using assms
proof (induction env arbitrary: j cmdEnv)
  case (Cons e env)
  obtain k v h where c: "cut CHR ''='' e = (k, v, h)" by (metis prod_cases3)
  let ?v = "if h then xSubstitute ext v (buildLookup merged) else map_of merged k"
  have ev: "envEntry ext merged e = map_option (Pair k) ?v" by (simp add: envEntry_def c)
  show ?case
  proof (cases ?v)
    case None
    with Cons.prems c have "envLoop ext merged (Suc j) env cmdEnv = Inr m" by (auto split: if_splits)
    from Cons.IH [OF this] None ev show ?thesis by (simp add: List.map_filter_simps)
  next
    case (Some x)
    with Cons.prems c have "envLoop ext merged (Suc j) env (AList.update k x cmdEnv) = Inr m" by (auto split: if_splits)
    from Cons.IH [OF this] Some ev show ?thesis by (simp add: List.map_filter_simps copyMap_def)
  qed
qed (simp add: List.map_filter_simps copyMap_def)

text \<open>The variables each loaded env file defined, in order.\<close>

definition parsedFrom :: "Ext \<Rightarrow> (string, string) gomap \<Rightarrow> bool" where
  "parsedFrom ext vars \<longleftrightarrow> (\<exists>path f look. xOpen ext path = Some f \<and> xDotenv ext f look = Some vars)"

lemma envFileLoop_layers:
  assumes "envFileLoop ext workDir osEnv i efs accum = Inr m"
  shows "\<exists>layers. list_all (parsedFrom ext) layers \<and> length layers \<le> length efs \<and> m = foldl copyMap accum layers"
  using assms
proof (induction efs arbitrary: i accum)
  case (Cons ef efs)
  from Cons.prems consider
      (skip) "envFileLoop ext workDir osEnv (Suc i) efs accum = Inr m"
    | (load) path f vars where "xOpen ext path = Some f"
        "xDotenv ext f (buildLookupFromMaps osEnv accum) = Some vars"
        "envFileLoop ext workDir osEnv (Suc i) efs (copyMap accum vars) = Inr m"
    by (auto simp: Let_def split: option.splits if_splits)
  then show ?case
  proof cases
    case skip
    from Cons.IH [OF this] show ?thesis using le_SucI by auto
  next
    case load
    from Cons.IH [OF load(3)] obtain layers where
      "list_all (parsedFrom ext) layers" "length layers \<le> length efs" "m = foldl copyMap (copyMap accum vars) layers" by blast
    moreover have "parsedFrom ext vars" unfolding parsedFrom_def using load(1,2) by blast
    ultimately show ?thesis by (intro exI [of _ "vars # layers"]) simp
  qed
qed (auto intro!: exI [of _ "[]"])

lemma map_of_foldl_copyMap: "map_of (foldl copyMap accum layers) = foldl (++) (map_of accum) (map (\<lambda>l. map_of (rev l)) layers)"
  by (induction layers arbitrary: accum) (simp_all add: map_of_copyMap)

lemma distinct_foldl_copyMap: "distinct (keys_of accum) \<Longrightarrow> distinct (keys_of (foldl copyMap accum layers))"
  by (induction layers arbitrary: accum) (simp_all add: distinct_copyMap)

text \<open>A layer: the seed, the variables of the env files in order and the env entries in
  order, where each later one overrides the earlier ones.\<close>

lemma env_layer:
  assumes "buildEnvLayer ext workDir envFiles env osEnv seed = Inr m" and "distinct (keys_of seed)"
  shows "\<exists>layers merged. list_all (parsedFrom ext) layers \<and> length layers \<le> length envFiles \<and>
    map_of merged = map_of (rev osEnv) ++ foldl (++) (map_of seed) (map (\<lambda>l. map_of (rev l)) layers) \<and>
    map_of m = foldl (++) (map_of seed) (map (\<lambda>l. map_of (rev l)) layers) ++
      map_of (rev (List.map_filter (envEntry ext merged) env))"
    and "distinct (keys_of m)"
proof -
  from assms(1) obtain accum where a: "envFileLoop ext workDir osEnv 0 envFiles seed = Inr accum"
    and l: "envLoop ext (copyMap (copyMap [] osEnv) accum) 0 env (copyMap [] accum) = Inr m"
    by (auto simp: buildEnvLayer_def bindE_Inr Let_def)
  from envFileLoop_layers [OF a] obtain layers where ls: "list_all (parsedFrom ext) layers"
    "length layers \<le> length envFiles" "accum = foldl copyMap seed layers" by blast
  have d: "distinct (keys_of accum)" using ls(3) assms(2) by (simp add: distinct_foldl_copyMap)
  note m = envLoop_entries [OF l]
  show "distinct (keys_of m)" unfolding m by (simp add: distinct_copyMap)
  have "map_of accum = foldl (++) (map_of seed) (map (\<lambda>l. map_of (rev l)) layers)"
    using ls(3) by (simp add: map_of_foldl_copyMap)
  with ls(1,2) m show "\<exists>layers merged. list_all (parsedFrom ext) layers \<and> length layers \<le> length envFiles \<and>
    map_of merged = map_of (rev osEnv) ++ foldl (++) (map_of seed) (map (\<lambda>l. map_of (rev l)) layers) \<and>
    map_of m = foldl (++) (map_of seed) (map (\<lambda>l. map_of (rev l)) layers) ++
      map_of (rev (List.map_filter (envEntry ext merged) env))"
    by (intro exI [of _ layers] exI [of _ "copyMap (copyMap [] osEnv) accum"])
       (simp add: map_of_copyMap map_of_rev_distinct [OF d])
qed

lemma envEntry_key: "envEntry ext merged e = Some (k, v) \<Longrightarrow> k = fst (cut CHR ''='' e)"
  by (auto simp: envEntry_def split: prod.splits)

lemma foldl_map_add_dom: "k \<in> dom (foldl (++) m ms) \<Longrightarrow> k \<in> dom m \<or> (\<exists>m' \<in> set ms. k \<in> dom m')"
  by (induction ms arbitrary: m) fastforce+


text \<open>A world where nothing is interpolated and no file exists.\<close>

definition plainExt :: Ext where
  "plainExt = \<lparr> xGetwd = Some ''/p'', xEnviron = [''HOME=/root''], xSubstitute = (\<lambda>s _. Some s), xStat = (\<lambda>_. StatNotExist),
     xOpen = (\<lambda>_. None), xDotenv = (\<lambda>_ _. None), xSha = (\<lambda>_. ''0123456789abcdef''), xParseDuration = (\<lambda>_. None),
     xSignalName = (\<lambda>_. ''SIGTERM''), xSignalNum = (\<lambda>_. 15), xParseBytes = (\<lambda>_. None) \<rparr>"


section \<open>The stored slice\<close>

lemma label_of_map_of: "k \<in> set (keys_of m) \<Longrightarrow> map_of m k = Some (label_of m k)"
  by (cases "map_of m k") (auto simp: label_of_def map_of_eq_None_iff)

lemma fold_env_entries:
  assumes "\<forall>k \<in> set ks. CHR ''='' \<notin> set k"
  shows "map_of (fold (\<lambda>entry m. case cut CHR ''='' entry of (k, v, _) \<Rightarrow> AList.update k v m) (map (\<lambda>k. k @ ''='' @ f k) ks) m0) k
    = (if k \<in> set ks then Some (f k) else map_of m0 k)"
  using assms by (induction ks arbitrary: m0) (auto simp: cut_append)

text \<open>The stored environment is sorted by variable and loses nothing: reading the
  \<^verbatim>\<open>KEY=VALUE\<close> slice back gives the same variables, when no name contains an equals sign (as
  no name before the first equals sign of an env entry does).\<close>

lemma mapToEnvSlice_roundtrip:
  assumes "\<forall>k \<in> set (keys_of m). CHR ''='' \<notin> set k"
  shows "map_of (osEnvMap (mapToEnvSlice m)) = map_of m \<and>
    sorted (map (\<lambda>e. fst (cut CHR ''='' e)) (mapToEnvSlice m))"
proof
  show "map_of (osEnvMap (mapToEnvSlice m)) = map_of m"
  proof
    fix k
    have "map_of (osEnvMap (mapToEnvSlice m)) k = (if k \<in> set (keys_of m) then Some (label_of m k) else None)"
      using fold_env_entries [of "sort (keys_of m)" "label_of m" "[]" k] assms
      unfolding osEnvMap_def mapToEnvSlice_def set_sort by (simp only: map_of.simps)
    then show "map_of (osEnvMap (mapToEnvSlice m)) k = map_of m k"
      using label_of_map_of [of k m] map_of_None_iff [of m k] by (cases "k \<in> set (keys_of m)") simp_all
  qed
  have "map (\<lambda>e. fst (cut CHR ''='' e)) (mapToEnvSlice m) = sort (keys_of m)"
    using assms by (auto simp: mapToEnvSlice_def intro!: map_idI) (metis cut_append fst_conv)
  then show "sorted (map (\<lambda>e. fst (cut CHR ''='' e)) (mapToEnvSlice m))" by simp
qed

end
