(* ===== verification/Compose_Normalize.thy ===== *)
theory Compose_Normalize
  imports Compose_Env Compose_Plan
begin

text \<open>
  From a decoded compose file to a validated project: the raw YAML structs of
  cmdman/compose/spec.go and \<^verbatim>\<open>Normalize\<close> of normalize.go with everything it calls.
  Warnings about unknown fields are not modelled. Checks that range over a Go map
  (labels, log options) report the first offending entry of the map's iteration order,
  which is the order of the association list; whether they report one does not depend on
  it.
\<close>

section \<open>Raw structs (spec.go)\<close>

record RawLifecycleExec =
  reArgs :: "string list"
  reOnError :: OnError

record RawLifecycleHook =
  rhName :: string
  rhResource :: string
  rhCreatePre :: "RawLifecycleExec option"
  rhCreatePost :: "RawLifecycleExec option"
  rhStartPre :: "RawLifecycleExec option"
  rhStartPost :: "RawLifecycleExec option"
  rhStopPre :: "RawLifecycleExec option"
  rhStopPost :: "RawLifecycleExec option"
  rhRemovePre :: "RawLifecycleExec option"
  rhRemovePost :: "RawLifecycleExec option"

definition hookEvents :: "RawLifecycleHook \<Rightarrow> (LifecycleEvent, RawLifecycleExec) gomap" where
  "hookEvents h = List.map_filter (\<lambda>(event, exec). map_option (Pair event) exec)
     [(LifecycleCreatePre, rhCreatePre h), (LifecycleCreatePost, rhCreatePost h),
      (LifecycleStartPre, rhStartPre h), (LifecycleStartPost, rhStartPost h),
      (LifecycleStopPre, rhStopPre h), (LifecycleStopPost, rhStopPost h),
      (LifecycleRemovePre, rhRemovePre h), (LifecycleRemovePost, rhRemovePost h)]"

record RawCommand =
  rcDir :: string
  rcArgs :: "string list"
  rcEnv :: "string list"
  rcEnvFile :: "EnvFileSpec list"
  rcImportHostEnv :: "bool option"
  rcInjectEnv :: "bool option"
  rcLabels :: "(string, string) gomap"
  rcRestartPolicy :: string
  rcStopSignal :: string
  rcStopGracePeriod :: string
  rcStop :: "string list option"
  rcTty :: bool
  rcScrollbackBytes :: int
  rcLogDriver :: string
  rcLogOpts :: "(string, string) gomap"
  rcAfter :: "(string, AfterSpec) gomap"
  rcScale :: "int option"
  rcHooks :: "RawLifecycleHook list"

record RawComposeSpec =
  rsName :: string
  rsWorkDir :: string
  rsEnv :: "string list"
  rsEnvFile :: "EnvFileSpec list"
  rsCommands :: "(string, RawCommand) gomap"
  rsMux :: "Spec option"

record NormalizeOpts =
  noFile :: string
  noProjectName :: string
  noWorkDir :: string

section \<open>Errors\<close>

datatype FieldErr =
    BadName NameErr | DirInterp | EnvFailed EnvErr | ArgsInterp nat | HookUnnamed nat
  | HookArgInterp string LifecycleEvent nat | HookInvalid HookErr | ReservedLabel string | LogPathInterp
  | SelfDependency | AfterInvalid SpecErr | ScaleTooSmall int | OptInvalid OptErr
  | StopArgsEmpty | StopArgInterp nat | ArgsEmpty | RestartPolicyInvalid string
  | ScrollbackNegative int | LogDriverInvalid string

datatype MuxRefErr = MuxUnknownCommand string string | MuxScaleExceeds string string int int

datatype NormErr =
    GetwdFailed | WorkDirInterp | ProjectRequired | ProjectName NameErr | TopEnv EnvErr
  | CommandErr string FieldErr | DagErr GraphErr | MuxErr MuxRefErr

section \<open>Parts of Normalize\<close>

text \<open>Interpolating an argv, with the index of the first entry that fails.\<close>

definition substituteArgs :: "Ext \<Rightarrow> lookup \<Rightarrow> string list \<Rightarrow> nat + string list" where
  "substituteArgs ext look args =
     map_err (\<lambda>(i, arg). case xSubstitute ext arg look of None \<Rightarrow> Inl i | Some v \<Rightarrow> Inr v) (enumerate 0 args)"

definition resolveLogOptPaths ::
  "Ext \<Rightarrow> string \<Rightarrow> (string, string) gomap \<Rightarrow> lookup \<Rightarrow> FieldErr + (string, string) gomap" where
  "resolveLogOptPaths ext workDir opts look =
     map_err (\<lambda>(k, v). if k = ''path'' then
          (case xSubstitute ext v look of None \<Rightarrow> Inl LogPathInterp | Some interp \<Rightarrow> Inr (k, resolvePath workDir interp))
        else Inr (k, v)) opts"

definition validateUserLabels :: "(string, string) gomap \<Rightarrow> FieldErr + unit" where
  "validateUserLabels labels =
     first_err (\<lambda>(k, v). if hasPrefix k LabelPrefix then Inl (ReservedLabel k) else Inr ()) labels"

fun validateMuxPane :: "string \<Rightarrow> PaneSpec \<Rightarrow> (string \<Rightarrow> Command option) \<Rightarrow> MuxRefErr + unit"
  and validateMuxPanes :: "string \<Rightarrow> PaneSpec list \<Rightarrow> (string \<Rightarrow> Command option) \<Rightarrow> MuxRefErr + unit" where
  "validateMuxPane layoutName (PaneSpec d sp ps c sc m co f) commandsByName =
     (if IsLeaf (PaneSpec d sp ps c sc m co f) then
        (case commandsByName c of
           None \<Rightarrow> Inl (MuxUnknownCommand layoutName c)
         | Some cmd \<Rightarrow>
             if sc > 0 \<and> sc > cScale cmd then Inl (MuxScaleExceeds layoutName c sc (cScale cmd)) else Inr ())
      else validateMuxPanes layoutName ps commandsByName)"
| "validateMuxPanes layoutName [] commandsByName = Inr ()"
| "validateMuxPanes layoutName (p # ps) commandsByName =
     (case validateMuxPane layoutName p commandsByName of Inl e \<Rightarrow> Inl e | Inr _ \<Rightarrow> validateMuxPanes layoutName ps commandsByName)"

definition validateMux :: "Spec \<Rightarrow> (string \<Rightarrow> Command option) \<Rightarrow> MuxRefErr + unit" where
  "validateMux spec commandsByName =
     first_err (\<lambda>layout. validateMuxPane (lName layout) (lRoot layout) commandsByName) (msLayouts spec)"

definition normalizeAfter :: "string \<Rightarrow> (string, AfterSpec) gomap \<Rightarrow> FieldErr + AfterSpec list" where
  "normalizeAfter cmdName after =
     map_err (\<lambda>n.
        if n = cmdName then Inl SelfDependency
        else
          let spec = (case map_of after n of Some a \<Rightarrow> a | None \<Rightarrow> \<lparr> asName = [], asCondition = ConditionNone \<rparr>);
              spec = spec\<lparr> asName := n \<rparr>;
              spec = (if asCondition spec = ConditionNone then spec\<lparr> asCondition := ConditionCompleted \<rparr> else spec)
          in bindE (wrapE AfterInvalid (AfterSpec_Validate spec)) (\<lambda>_. Inr spec))
       (sort (keys_of after))"

definition normalizeHookExec ::
  "Ext \<Rightarrow> lookup \<Rightarrow> string \<Rightarrow> LifecycleEvent \<times> RawLifecycleExec \<Rightarrow> FieldErr + LifecycleEvent \<times> LifecycleExec" where
  "normalizeHookExec ext look hook = (\<lambda>(ev, exec).
     bindE (wrapE (HookArgInterp hook ev) (substituteArgs ext look (reArgs exec)))
       (\<lambda>args. Inr (ev, \<lparr> leArgs = args, leOnError = OnError_resolved (reOnError exec) \<rparr>)))"

definition normalizeHook :: "Ext \<Rightarrow> lookup \<Rightarrow> nat \<times> RawLifecycleHook \<Rightarrow> FieldErr + LifecycleHook" where
  "normalizeHook ext look = (\<lambda>(i, rh).
     if rhName rh = [] then Inl (HookUnnamed i)
     else bindE (map_err (normalizeHookExec ext look (rhName rh)) (hookEvents rh))
       (\<lambda>events. Inr \<lparr> lhName = rhName rh, lhResource = rhResource rh, lhEvents = events \<rparr>))"

definition normalizeLifecycleHooks :: "Ext \<Rightarrow> lookup \<Rightarrow> RawLifecycleHook list \<Rightarrow> FieldErr + LifecycleHook list" where
  "normalizeLifecycleHooks ext look raw =
     (if raw = [] then Inr []
      else bindE (map_err (normalizeHook ext look) (enumerate 0 raw))
        (\<lambda>hooks. bindE (wrapE HookInvalid (validateLifecycleHooks hooks)) (\<lambda>_. Inr hooks)))"

definition normalizeStop :: "Ext \<Rightarrow> lookup \<Rightarrow> string list option \<Rightarrow> FieldErr + string list" where
  "normalizeStop ext look raw =
     (case raw of None \<Rightarrow> Inr []
      | Some args \<Rightarrow> if args = [] then Inl StopArgsEmpty else wrapE StopArgInterp (substituteArgs ext look args))"

definition validateRuntimeFields :: "Ext \<Rightarrow> Command \<Rightarrow> FieldErr + unit" where
  "validateRuntimeFields ext nc =
     (if cArgs nc = [] then Inl ArgsEmpty
      else if cRestartPolicy nc \<noteq> RestartPolicyNone \<and> \<not> IsRestartPolicy (restartPolicyString (cRestartPolicy nc))
           then Inl (RestartPolicyInvalid (restartPolicyString (cRestartPolicy nc)))
      else
        bindE (if cStopSignal nc \<noteq> [] then
                 wrapE OptInvalid (map_sum id (\<lambda>_. ()) (ParseSignal (xSignalName ext) (xSignalNum ext) (cStopSignal nc)))
               else Inr ())
        (\<lambda>_. if cScrollbackBytes nc < 0 then Inl (ScrollbackNegative (cScrollbackBytes nc))
             else if cLogDriver nc \<noteq> [] \<and> \<not> IsDriver (cLogDriver nc) then Inl (LogDriverInvalid (cLogDriver nc))
             else if cLogDriver nc \<noteq> [] then
               first_err (\<lambda>(k, v). wrapE OptInvalid (ValidateOpt (xParseBytes ext) (cLogDriver nc) k v)) (cLogOpts nc)
             else Inr ()))"

section \<open>Normalize\<close>

definition composeIndexVars :: "string \<Rightarrow> string \<Rightarrow> string \<Rightarrow> (string, string) gomap" where
  "composeIndexVars workDir wdHash project =
     [(''CMDMAN_COMPOSE_WORK_DIR'', workDir), (''CMDMAN_COMPOSE_WORK_DIR_HASH'', wdHash), (''CMDMAN_COMPOSE_PROJECT'', project)]"

text \<open>The body of the loop over the commands.\<close>

definition normalizeCommand ::
  "Ext \<Rightarrow> string \<Rightarrow> string \<Rightarrow> string \<Rightarrow> (string, string) gomap \<Rightarrow> (string, string) gomap \<Rightarrow> string \<Rightarrow> RawCommand
     \<Rightarrow> FieldErr + Command" where
  "normalizeCommand ext effectiveWorkDir wdHash project baseEnv projectEnv name cmd =
     bindE (wrapE BadName (validateName name)) (\<lambda>_.
     bindE (case xSubstitute ext (rcDir cmd) (buildLookup baseEnv) of None \<Rightarrow> Inl DirInterp | Some d \<Rightarrow> Inr d) (\<lambda>dirVal.
     let cmdDir = resolvePath effectiveWorkDir dirVal in
     bindE (wrapE EnvFailed (buildEnvLayer ext effectiveWorkDir (rcEnvFile cmd) (rcEnv cmd) baseEnv projectEnv)) (\<lambda>commandEnv.
     let finalLookup = buildLookupFromMaps baseEnv commandEnv in
     bindE (wrapE ArgsInterp (substituteArgs ext finalLookup (rcArgs cmd))) (\<lambda>interpolatedArgs.
     bindE (normalizeLifecycleHooks ext finalLookup (rcHooks cmd)) (\<lambda>hooks.
     bindE (validateUserLabels (rcLabels cmd)) (\<lambda>_.
     bindE (resolveLogOptPaths ext effectiveWorkDir (rcLogOpts cmd) (buildLookup baseEnv)) (\<lambda>resolvedLogOpts.
     bindE (normalizeAfter name (rcAfter cmd)) (\<lambda>afterList.
     bindE (case rcScale cmd of None \<Rightarrow> Inr 1 | Some s \<Rightarrow> if s < 1 then Inl (ScaleTooSmall s) else Inr s) (\<lambda>scale.
     bindE (if rcRestartPolicy cmd \<noteq> [] then wrapE OptInvalid (ParseRestartPolicy (rcRestartPolicy cmd))
            else Inr (RestartPolicyNone, 0)) (\<lambda>(restartPolicy, maxRetries).
     bindE (if rcStopGracePeriod cmd \<noteq> [] then wrapE OptInvalid (ParseTimeout (xParseDuration ext) (rcStopGracePeriod cmd))
            else Inr 0) (\<lambda>stopGracePeriod.
     bindE (normalizeStop ext finalLookup (rcStop cmd)) (\<lambda>stop.
     let nc = \<lparr> cName = name, cDir = cmdDir, cArgs = interpolatedArgs, cEnv = mapToEnvSlice commandEnv,
                cImportHostEnv = (case rcImportHostEnv cmd of None \<Rightarrow> True | Some b \<Rightarrow> b),
                cInjectEnv = (case rcInjectEnv cmd of None \<Rightarrow> True | Some b \<Rightarrow> b),
                cLabels = rcLabels cmd, cRestartPolicy = restartPolicy, cMaxRetries = maxRetries,
                cStopSignal = rcStopSignal cmd, cStopGracePeriod = stopGracePeriod, cStop = stop,
                cTty = rcTty cmd, cScrollbackBytes = rcScrollbackBytes cmd, cLogDriver = rcLogDriver cmd,
                cLogOpts = resolvedLogOpts, cAfter = afterList, cHooks = hooks, cScale = scale,
                cGeneratedName = GenerateName wdHash project name \<rparr> in
     bindE (validateRuntimeFields ext nc) (\<lambda>_. Inr nc)))))))))))))"

definition normalizeCommands ::
  "Ext \<Rightarrow> string \<Rightarrow> string \<Rightarrow> string \<Rightarrow> (string, string) gomap \<Rightarrow> (string, string) gomap \<Rightarrow> (string, RawCommand) gomap
     \<Rightarrow> NormErr + Command list" where
  "normalizeCommands ext effectiveWorkDir wdHash project baseEnv projectEnv commands =
     map_err (\<lambda>name. case map_of commands name of
          Some cmd \<Rightarrow> wrapE (CommandErr name)
            (normalizeCommand ext effectiveWorkDir wdHash project baseEnv projectEnv name cmd)
        | None \<Rightarrow> Inl (CommandErr name ArgsEmpty)) (sort (keys_of commands))"

definition checkMux :: "Spec option \<Rightarrow> Command list \<Rightarrow> NormErr + unit" where
  "checkMux rawMux normalized =
     (case rawMux of None \<Rightarrow> Inr () | Some mx \<Rightarrow> wrapE MuxErr (validateMux mx (commandByName normalized)))"

text \<open>\<^verbatim>\<open>Normalize\<close> from the point where the paths and the project name are known.\<close>

definition normalizeProject ::
  "Ext \<Rightarrow> string \<Rightarrow> string \<Rightarrow> bool \<Rightarrow> string \<Rightarrow> (string, string) gomap \<Rightarrow> RawComposeSpec \<Rightarrow> NormErr + ComposeSpec" where
  "normalizeProject ext composeFilePath effectiveWorkDir workDirDeclared project baseEnv0 raw =
     (if project = [] then Inl ProjectRequired
      else
      bindE (wrapE ProjectName (validateName project)) (\<lambda>_.
      let wdHash = workdirHash (xSha ext) effectiveWorkDir;
          baseEnv = copyMap baseEnv0 (composeIndexVars effectiveWorkDir wdHash project)
      in
      bindE (wrapE TopEnv (buildEnvLayer ext effectiveWorkDir (rsEnvFile raw) (rsEnv raw) baseEnv [])) (\<lambda>projectEnv.
      bindE (normalizeCommands ext effectiveWorkDir wdHash project baseEnv projectEnv (rsCommands raw)) (\<lambda>normalized.
      bindE (wrapE DagErr (ValidateDAG normalized)) (\<lambda>_.
      bindE (checkMux (rsMux raw) normalized) (\<lambda>_.
      Inr \<lparr> sComposeFile = composeFilePath, sProject = project, sWorkDir = effectiveWorkDir,
            sWorkDirDeclared = workDirDeclared, sCommands = normalized, sMux = rsMux raw \<rparr>))))))"

definition Normalize :: "Ext \<Rightarrow> string \<Rightarrow> RawComposeSpec \<Rightarrow> NormalizeOpts \<Rightarrow> NormErr + ComposeSpec" where
  "Normalize ext composeFilePath0 raw opts =
     (case xGetwd ext of
        None \<Rightarrow> Inl GetwdFailed
      | Some cwd \<Rightarrow>
          let composeFilePath = cleanPath (if \<not> isAbs composeFilePath0 then joinPath cwd composeFilePath0 else composeFilePath0);
              baseEnv = AList.update ''CMDMAN_COMPOSE_DIR'' (dirPath composeFilePath)
                (AList.update ''CMDMAN_COMPOSE_FILE'' composeFilePath (osEnvMap (xEnviron ext)))
          in case xSubstitute ext (if noWorkDir opts = [] then rsWorkDir raw else noWorkDir opts) (buildLookup baseEnv) of
               None \<Rightarrow> Inl WorkDirInterp
             | Some declaredWorkDir \<Rightarrow>
                 let wd = (if declaredWorkDir = [] then cwd else declaredWorkDir)
                 in normalizeProject ext composeFilePath (cleanPath (if \<not> isAbs wd then joinPath cwd wd else wd))
                      (declaredWorkDir \<noteq> []) (if noProjectName opts = [] then rsName raw else noProjectName opts) baseEnv raw)"

section \<open>What a normalized command looks like\<close>

lemma option_case_Inr: "(case x of None \<Rightarrow> Inl e | Some v \<Rightarrow> Inr v) = Inr y \<longleftrightarrow> x = Some y"
  by (cases x) simp_all

lemma normalizeCommand_Inr:
  assumes "normalizeCommand ext wd wdHash project baseEnv projectEnv name cmd = Inr c"
  obtains dirVal commandEnv args hooks logOpts after scale rpm sgp stop where
    "validateName name = Inr ()"
    "xSubstitute ext (rcDir cmd) (buildLookup baseEnv) = Some dirVal"
    "buildEnvLayer ext wd (rcEnvFile cmd) (rcEnv cmd) baseEnv projectEnv = Inr commandEnv"
    "substituteArgs ext (buildLookupFromMaps baseEnv commandEnv) (rcArgs cmd) = Inr args"
    "normalizeLifecycleHooks ext (buildLookupFromMaps baseEnv commandEnv) (rcHooks cmd) = Inr hooks"
    "validateUserLabels (rcLabels cmd) = Inr ()"
    "resolveLogOptPaths ext wd (rcLogOpts cmd) (buildLookup baseEnv) = Inr logOpts"
    "normalizeAfter name (rcAfter cmd) = Inr after"
    "(case rcScale cmd of None \<Rightarrow> Inr 1 | Some s \<Rightarrow> if s < 1 then Inl (ScaleTooSmall s) else Inr s) = Inr scale"
    "(if rcRestartPolicy cmd \<noteq> [] then wrapE OptInvalid (ParseRestartPolicy (rcRestartPolicy cmd))
      else Inr (RestartPolicyNone, 0)) = Inr rpm"
    "(if rcStopGracePeriod cmd \<noteq> [] then wrapE OptInvalid (ParseTimeout (xParseDuration ext) (rcStopGracePeriod cmd))
      else Inr 0) = Inr sgp"
    "normalizeStop ext (buildLookupFromMaps baseEnv commandEnv) (rcStop cmd) = Inr stop"
    "c = \<lparr> cName = name, cDir = resolvePath wd dirVal, cArgs = args, cEnv = mapToEnvSlice commandEnv,
          cImportHostEnv = (case rcImportHostEnv cmd of None \<Rightarrow> True | Some b \<Rightarrow> b),
          cInjectEnv = (case rcInjectEnv cmd of None \<Rightarrow> True | Some b \<Rightarrow> b),
          cLabels = rcLabels cmd, cRestartPolicy = fst rpm, cMaxRetries = snd rpm, cStopSignal = rcStopSignal cmd,
          cStopGracePeriod = sgp, cStop = stop, cTty = rcTty cmd, cScrollbackBytes = rcScrollbackBytes cmd,
          cLogDriver = rcLogDriver cmd, cLogOpts = logOpts, cAfter = after, cHooks = hooks, cScale = scale,
          cGeneratedName = GenerateName wdHash project name \<rparr>"
    "validateRuntimeFields ext c = Inr ()"
  using assms
  unfolding normalizeCommand_def Let_def case_prod_beta bindE_Inr wrapE_Inr option_case_Inr sum.inject
  by (elim exE conjE) (rule that, (assumption | simp)+)

text \<open>What the rest of the program relies on in a normalized command.\<close>

definition command_ok :: "string \<Rightarrow> string \<Rightarrow> Command \<Rightarrow> bool" where
  "command_ok wdHash project c \<longleftrightarrow>
     validateName (cName c) = Inr () \<and> cGeneratedName c = GenerateName wdHash project (cName c) \<and>
     cArgs c \<noteq> [] \<and> isAbs (cDir c) \<and> 1 \<le> cScale c \<and>
     distinct (map asName (cAfter c)) \<and> cName c \<notin> asName ` set (cAfter c) \<and>
     (\<forall>a \<in> set (cAfter c). AfterSpec_Validate a = Inr ()) \<and>
     (\<forall>k \<in> set (keys_of (cLabels c)). \<not> hasPrefix k LabelPrefix) \<and>
     validateLifecycleHooks (cHooks c) = Inr () \<and>
     0 \<le> cMaxRetries c \<and> (cMaxRetries c \<noteq> 0 \<longrightarrow> cRestartPolicy c = RestartPolicyOnFailure) \<and>
     0 \<le> cStopGracePeriod c \<and> 0 \<le> cScrollbackBytes c"

lemma ParseTimeout_pos: "ParseTimeout pd s = Inr d \<Longrightarrow> 0 < d"
  by (auto simp: ParseTimeout_def Let_def split: option.splits sum.splits if_splits)

lemma ParseRestartPolicy_count:
  "ParseRestartPolicy s = Inr pn \<Longrightarrow> 0 \<le> snd pn \<and> (snd pn \<noteq> 0 \<longrightarrow> fst pn = RestartPolicyOnFailure)"
  by (auto simp: ParseRestartPolicy_def split: prod.splits option.splits if_splits)

lemma normalizeAfter_Inr:
  assumes "normalizeAfter n after = Inr l" and "distinct (keys_of after)"
  shows "map asName l = sort (keys_of after)" "n \<notin> asName ` set l" "\<forall>a \<in> set l. AfterSpec_Validate a = Inr ()"
    "\<forall>a \<in> set l. asCondition a \<noteq> ConditionNone"
proof -
  let ?F = "\<lambda>k. let spec = (case map_of after k of Some a \<Rightarrow> a | None \<Rightarrow> \<lparr> asName = [], asCondition = ConditionNone \<rparr>);
              spec = spec\<lparr> asName := k \<rparr>
          in if asCondition spec = ConditionNone then spec\<lparr> asCondition := ConditionCompleted \<rparr> else spec"
  from assms(1) have l: "list_all2 (\<lambda>k a. k \<noteq> n \<and> a = ?F k \<and> AfterSpec_Validate a = Inr ()) (sort (keys_of after)) l"
    unfolding normalizeAfter_def map_err_Inr
    by (elim list_all2_mono) (auto simp: Let_def bindE_Inr wrapE_Inr split: if_splits)
  then have i: "length l = length (sort (keys_of after))" "\<forall>j < length l. sort (keys_of after) ! j \<noteq> n \<and>
      l ! j = ?F (sort (keys_of after) ! j) \<and> AfterSpec_Validate (l ! j) = Inr ()" by (auto simp: list_all2_conv_all_nth)
  have nm: "asName (?F k) = k" "asCondition (?F k) \<noteq> ConditionNone" for k by (simp_all add: Let_def)
  show m: "map asName l = sort (keys_of after)" using i nm by (intro nth_equalityI) auto
  show "\<forall>a \<in> set l. AfterSpec_Validate a = Inr ()" "\<forall>a \<in> set l. asCondition a \<noteq> ConditionNone"
    using i nm(2) by (auto simp: in_set_conv_nth)
  have "\<forall>k \<in> set (sort (keys_of after)). k \<noteq> n" using i by (metis in_set_conv_nth)
  then show "n \<notin> asName ` set l" using arg_cong [OF m, of set] by auto
qed

lemma normalizeLifecycleHooks_valid:
  "normalizeLifecycleHooks ext look raw = Inr hooks \<Longrightarrow> validateLifecycleHooks hooks = Inr ()"
  by (auto simp: normalizeLifecycleHooks_def bindE_Inr wrapE_Inr validateLifecycleHooks_def split: if_splits)

lemma validateUserLabels_Inr:
  "validateUserLabels labels = Inr () \<longleftrightarrow> (\<forall>k \<in> set (keys_of labels). \<not> hasPrefix k LabelPrefix)"
  by (force simp: validateUserLabels_def first_err_Inr split: prod.splits if_splits)

lemma normalizeCommand_ok:
  assumes "normalizeCommand ext wd wdHash project baseEnv projectEnv name cmd = Inr c"
    and "isAbs wd" and "distinct (keys_of (rcAfter cmd))"
  shows "command_ok wdHash project c" "cName c = name"
proof -
  from assms(1) obtain dirVal commandEnv args hooks logOpts after scale rpm sgp stop where
    e: "validateName name = Inr ()" "normalizeLifecycleHooks ext (buildLookupFromMaps baseEnv commandEnv) (rcHooks cmd) = Inr hooks"
      "validateUserLabels (rcLabels cmd) = Inr ()" "normalizeAfter name (rcAfter cmd) = Inr after"
      "(case rcScale cmd of None \<Rightarrow> Inr 1 | Some s \<Rightarrow> if s < 1 then Inl (ScaleTooSmall s) else Inr s) = Inr scale"
      "(if rcRestartPolicy cmd \<noteq> [] then wrapE OptInvalid (ParseRestartPolicy (rcRestartPolicy cmd))
        else Inr (RestartPolicyNone, 0)) = Inr rpm"
      "(if rcStopGracePeriod cmd \<noteq> [] then wrapE OptInvalid (ParseTimeout (xParseDuration ext) (rcStopGracePeriod cmd))
        else Inr 0) = Inr sgp"
      "validateRuntimeFields ext c = Inr ()"
    and sel: "cName c = name" "cDir c = resolvePath wd dirVal" "cLabels c = rcLabels cmd" "cRestartPolicy c = fst rpm"
      "cMaxRetries c = snd rpm" "cStopGracePeriod c = sgp" "cAfter c = after" "cHooks c = hooks" "cScale c = scale"
      "cGeneratedName c = GenerateName wdHash project name"
    by (rule normalizeCommand_Inr) (rule that, simp_all)
  note a = normalizeAfter_Inr [OF e(4) assms(3)]
  have "0 \<le> sgp" using e(7) ParseTimeout_pos by (fastforce simp: wrapE_Inr split: if_splits)
  moreover have "0 \<le> snd rpm \<and> (snd rpm \<noteq> 0 \<longrightarrow> fst rpm = RestartPolicyOnFailure)"
    using e(6) ParseRestartPolicy_count by (auto simp: wrapE_Inr split: if_splits)
  moreover have "1 \<le> scale" using e(5) by (auto split: option.splits if_splits)
  moreover have "cArgs c \<noteq> []" "0 \<le> cScrollbackBytes c"
    using e(8) by (auto simp: validateRuntimeFields_def bindE_Inr split: if_splits)
  moreover have "distinct (map asName after)" using a(1) assms(3) by simp
  ultimately show "command_ok wdHash project c"
    unfolding command_ok_def sel using e(1,3) a(2,3) resolvePath_abs [OF assms(2)] normalizeLifecycleHooks_valid [OF e(2)]
      validateUserLabels_Inr by blast
  show "cName c = name" by (rule sel)
qed

section \<open>What a normalized project looks like\<close>

text \<open>The keys of a Go map are distinct, and \<^verbatim>\<open>os.Getwd\<close> returns an absolute path.\<close>

definition raw_wf :: "RawComposeSpec \<Rightarrow> bool" where
  "raw_wf raw \<longleftrightarrow> distinct (keys_of (rsCommands raw)) \<and>
     (\<forall>(n, cmd) \<in> set (rsCommands raw). distinct (keys_of (rcAfter cmd)))"

definition ext_ok :: "Ext \<Rightarrow> bool" where
  "ext_ok ext \<longleftrightarrow> (case xGetwd ext of None \<Rightarrow> True | Some cwd \<Rightarrow> isAbs cwd)"

lemma joinPath_abs: "isAbs a \<Longrightarrow> isAbs (joinPath a b)"
  by (auto simp: joinPath_def cleanPath_abs) (auto simp: isAbs_def split: list.splits)

lemma option_bind_Inr: "(case x of None \<Rightarrow> Inl e | Some v \<Rightarrow> f v) = Inr y \<longleftrightarrow> (\<exists>v. x = Some v \<and> f v = Inr y)"
  by (cases x) simp_all

lemma guard_Inr: "(if b then Inl e else r) = Inr y \<longleftrightarrow> \<not> b \<and> r = Inr y"
  by simp

lemma normalizeProject_Inr:
  assumes "normalizeProject ext path wd declared project base raw = Inr spec"
  obtains baseEnv projectEnv where
    "validateName project = Inr ()"
    "normalizeCommands ext wd (workdirHash (xSha ext) wd) project baseEnv projectEnv (rsCommands raw) = Inr (sCommands spec)"
    "ValidateDAG (sCommands spec) = Inr ()" "checkMux (rsMux raw) (sCommands spec) = Inr ()"
    "spec = \<lparr> sComposeFile = path, sProject = project, sWorkDir = wd, sWorkDirDeclared = declared,
       sCommands = sCommands spec, sMux = rsMux raw \<rparr>"
  using assms unfolding normalizeProject_def Let_def guard_Inr bindE_Inr wrapE_Inr sum.inject
  by (elim exE conjE, hypsubst) (rule that, simp_all)

lemma Normalize_Inr:
  assumes "Normalize ext path raw opts = Inr spec"
  obtains cwd wd declared base where "xGetwd ext = Some cwd"
    "normalizeProject ext (cleanPath (if \<not> isAbs path then joinPath cwd path else path))
       (cleanPath (if \<not> isAbs wd then joinPath cwd wd else wd)) declared
       (if noProjectName opts = [] then rsName raw else noProjectName opts) base raw = Inr spec"
  using assms unfolding Normalize_def Let_def option_bind_Inr by (elim exE conjE) (rule that)

lemma Normalize_parts:
  assumes "Normalize ext path raw opts = Inr spec"
  obtains cwd wd baseEnv projectEnv where
    "xGetwd ext = Some cwd" "validateName (sProject spec) = Inr ()"
    "sComposeFile spec = cleanPath (if \<not> isAbs path then joinPath cwd path else path)"
    "sWorkDir spec = cleanPath (if \<not> isAbs wd then joinPath cwd wd else wd)"
    "sMux spec = rsMux raw" "ValidateDAG (sCommands spec) = Inr ()" "checkMux (rsMux raw) (sCommands spec) = Inr ()"
    "normalizeCommands ext (sWorkDir spec) (workdirHash (xSha ext) (sWorkDir spec)) (sProject spec) baseEnv projectEnv
       (rsCommands raw) = Inr (sCommands spec)"
proof -
  from assms obtain cwd wd declared base project where g: "xGetwd ext = Some cwd"
    and p: "normalizeProject ext (cleanPath (if \<not> isAbs path then joinPath cwd path else path))
       (cleanPath (if \<not> isAbs wd then joinPath cwd wd else wd)) declared project base raw = Inr spec"
    by (rule Normalize_Inr) (rule that)
  from p show thesis
  proof (rule normalizeProject_Inr)
    fix baseEnv projectEnv
    assume a: "validateName project = Inr ()"
      "normalizeCommands ext (cleanPath (if \<not> isAbs wd then joinPath cwd wd else wd))
         (workdirHash (xSha ext) (cleanPath (if \<not> isAbs wd then joinPath cwd wd else wd))) project baseEnv projectEnv (rsCommands raw)
         = Inr (sCommands spec)"
      "ValidateDAG (sCommands spec) = Inr ()" "checkMux (rsMux raw) (sCommands spec) = Inr ()"
      and spec: "spec = \<lparr> sComposeFile = cleanPath (if \<not> isAbs path then joinPath cwd path else path), sProject = project,
         sWorkDir = cleanPath (if \<not> isAbs wd then joinPath cwd wd else wd), sWorkDirDeclared = declared,
         sCommands = sCommands spec, sMux = rsMux raw \<rparr>"
    have sel: "sProject spec = project" "sComposeFile spec = cleanPath (if \<not> isAbs path then joinPath cwd path else path)"
      "sWorkDir spec = cleanPath (if \<not> isAbs wd then joinPath cwd wd else wd)" "sMux spec = rsMux raw"
      by (subst spec, simp only: ComposeSpec.select_convs)+
    from g a sel show thesis by (intro that [of cwd wd baseEnv projectEnv]) simp_all
  qed
qed

lemma normalized_commands:
  assumes "Normalize ext path raw opts = Inr spec" and "raw_wf raw" and "ext_ok ext"
  shows "isAbs (sWorkDir spec)" "isAbs (sComposeFile spec)" "map cName (sCommands spec) = sort (keys_of (rsCommands raw))"
    "c \<in> set (sCommands spec) \<Longrightarrow> command_ok (workdirHash (xSha ext) (sWorkDir spec)) (sProject spec) c"
proof -
  let ?h = "workdirHash (xSha ext) (sWorkDir spec)"
  from assms(1) obtain cwd baseEnv projectEnv wd where g: "xGetwd ext = Some cwd"
      "sComposeFile spec = cleanPath (if \<not> isAbs path then joinPath cwd path else path)"
      "sWorkDir spec = cleanPath (if \<not> isAbs wd then joinPath cwd wd else wd)"
    and cmds: "normalizeCommands ext (sWorkDir spec) ?h (sProject spec) baseEnv projectEnv (rsCommands raw) = Inr (sCommands spec)"
    by (rule Normalize_parts) (rule that)
  have cwd: "isAbs cwd" using assms(3) g(1) by (simp add: ext_ok_def)
  show wd: "isAbs (sWorkDir spec)" "isAbs (sComposeFile spec)" unfolding g(2,3) using cwd by (auto simp: cleanPath_abs joinPath_abs)
  have one: "command_ok ?h (sProject spec) c \<and> cName c = n"
    if "(case map_of (rsCommands raw) n of
        Some cmd \<Rightarrow> wrapE (CommandErr n) (normalizeCommand ext (sWorkDir spec) ?h (sProject spec) baseEnv projectEnv n cmd)
      | None \<Rightarrow> Inl (CommandErr n ArgsEmpty)) = Inr c" for n c
  proof -
    from that obtain cmd where m: "map_of (rsCommands raw) n = Some cmd"
      and c: "normalizeCommand ext (sWorkDir spec) ?h (sProject spec) baseEnv projectEnv n cmd = Inr c"
      by (auto simp: wrapE_Inr split: option.splits)
    from map_of_SomeD [OF m] assms(2) have "distinct (keys_of (rcAfter cmd))" by (auto simp: raw_wf_def)
    from normalizeCommand_ok [OF c wd(1) this] show ?thesis by simp
  qed
  have l: "list_all2 (\<lambda>n c. command_ok ?h (sProject spec) c \<and> cName c = n) (sort (keys_of (rsCommands raw))) (sCommands spec)"
    using cmds unfolding normalizeCommands_def map_err_Inr by (rule list_all2_mono) (rule one)
  show "map cName (sCommands spec) = sort (keys_of (rsCommands raw))"
    using l by (auto simp: list_all2_conv_all_nth intro!: nth_equalityI)
  show "command_ok ?h (sProject spec) c" if "c \<in> set (sCommands spec)"
    using l that by (auto simp: list_all2_conv_all_nth in_set_conv_nth)
qed

lemma validateMuxPane_leaves:
  "validateMuxPane l p by = Inr () \<longleftrightarrow> (\<forall>q \<in> set (leavesOf p). \<exists>c. by (pCommand q) = Some c \<and> pScale q \<le> max (cScale c) 0)"
  "validateMuxPanes l ps by = Inr () \<longleftrightarrow> (\<forall>p \<in> set ps. \<forall>q \<in> set (leavesOf p). \<exists>c. by (pCommand q) = Some c \<and> pScale q \<le> max (cScale c) 0)"
proof (induction l p "by" and l ps "by" rule: validateMuxPane_validateMuxPanes.induct)
  case (1 l d sp ps c sc m co f byn)
  then show ?case by (auto split: option.splits)
qed (auto split: sum.splits)

text \<open>C28: A compose file that normalizes gives a project the rest of the program can rely on.
  The commands are those of the file in the order of their names; every command has a
  valid name, the generated name of its project and directory, a command line, an absolute
  directory, at least one replica, valid dependencies on other commands with no duplicate,
  no reserved label and valid hooks; the dependencies form an acyclic graph over declared
  commands; and every leaf of a mux layout names a declared command and one of its
  replicas.\<close>

theorem Normalize_sound:
  assumes "Normalize ext path raw opts = Inr spec" and "raw_wf raw" and "ext_ok ext"
  shows "map cName (sCommands spec) = sort (keys_of (rsCommands raw)) \<and>
    validateName (sProject spec) = Inr () \<and> isAbs (sWorkDir spec) \<and> isAbs (sComposeFile spec) \<and>
    (\<forall>c \<in> set (sCommands spec). command_ok (workdirHash (xSha ext) (sWorkDir spec)) (sProject spec) c) \<and>
    closed_deps (sCommands spec) \<and> acyclic (dep_rel (sCommands spec)) \<and>
    (\<forall>mx l p. sMux spec = Some mx \<longrightarrow> l \<in> set (msLayouts mx) \<longrightarrow> p \<in> set (leavesOf (lRoot l)) \<longrightarrow>
       (\<exists>c \<in> set (sCommands spec). cName c = pCommand p \<and> pScale p \<le> cScale c))"
proof -
  note f = normalized_commands [OF assms]
  from assms(1) have v: "validateName (sProject spec) = Inr ()" "ValidateDAG (sCommands spec) = Inr ()" "sMux spec = rsMux raw"
    "checkMux (rsMux raw) (sCommands spec) = Inr ()"
    by (rule Normalize_parts, simp)+
  have d: "distinct (map cName (sCommands spec))" using f(3) assms(2) by (simp add: raw_wf_def)
  have dag: "closed_deps (sCommands spec)" "acyclic (dep_rel (sCommands spec))"
    using ValidateDAG_facts(1) [OF d] v(2) by auto
  have "\<exists>c \<in> set (sCommands spec). cName c = pCommand p \<and> pScale p \<le> cScale c"
    if "sMux spec = Some mx" "l \<in> set (msLayouts mx)" "p \<in> set (leavesOf (lRoot l))" for mx l p
  proof -
    from v(4) that(1,2) have "validateMuxPane (lName l) (lRoot l) (commandByName (sCommands spec)) = Inr ()"
      unfolding v(3) [symmetric] by (simp add: checkMux_def wrapE_Inr validateMux_def first_err_Inr)
    with that(3) obtain c where "commandByName (sCommands spec) (pCommand p) = Some c" "pScale p \<le> max (cScale c) 0"
      unfolding validateMuxPane_leaves by blast
    with commandByName_distinct [OF d] f(4) [of c] show ?thesis by (auto simp: command_ok_def)
  qed
  with f v(1) dag show ?thesis by blast
qed

definition bareRaw :: "string list \<Rightarrow> (string, AfterSpec) gomap \<Rightarrow> RawCommand" where
  "bareRaw args after = \<lparr> rcDir = [], rcArgs = args, rcEnv = [], rcEnvFile = [], rcImportHostEnv = None, rcInjectEnv = None,
     rcLabels = [], rcRestartPolicy = [], rcStopSignal = [], rcStopGracePeriod = [], rcStop = None, rcTty = False,
     rcScrollbackBytes = 0, rcLogDriver = [], rcLogOpts = [], rcAfter = after, rcScale = Some 2, rcHooks = [] \<rparr>"

definition rawPair :: RawComposeSpec where
  "rawPair = \<lparr> rsName = ''p'', rsWorkDir = [], rsEnv = [''A=1''], rsEnvFile = [],
     rsCommands = [(''web'', bareRaw [''serve''] [(''db'', \<lparr> asName = [], asCondition = ConditionNone \<rparr>)]), (''db'', bareRaw [''run''] [])],
     rsMux = None \<rparr>"

definition noOpts :: NormalizeOpts where
  "noOpts = \<lparr> noFile = [], noProjectName = [], noWorkDir = [] \<rparr>"

lemma rawPair_ok: "\<not> isl (Normalize plainExt ''compose.yaml'' rawPair noOpts)" "raw_wf rawPair" "ext_ok plainExt"
  by code_simp+

theorem Normalize_sound_witness:
  "\<exists>spec. Normalize plainExt ''compose.yaml'' rawPair noOpts = Inr spec \<and> map cName (sCommands spec) = [''db'', ''web''] \<and>
     acyclic (dep_rel (sCommands spec))"
proof -
  from rawPair_ok(1) obtain spec where n: "Normalize plainExt ''compose.yaml'' rawPair noOpts = Inr spec"
    by (cases "Normalize plainExt ''compose.yaml'' rawPair noOpts") auto
  have "sort (keys_of (rsCommands rawPair)) = [''db'', ''web'']" by code_simp
  with Normalize_sound [OF n rawPair_ok(2,3)] n show ?thesis by auto
qed

section \<open>Replica names of a project\<close>

lemma normalized_name_hd: "command_ok h p c \<Longrightarrow> cName c = [] \<or> hd (cName c) \<noteq> CHR ''-''"
  by (simp add: command_ok_def validateName_iff)

lemma InstanceNames_nth:
  "InstanceNames c = map (\<lambda>i. InstanceName (cGeneratedName c) (int i + 1)) [0..<nat (max (cScale c) 1)]"
  by (simp add: InstanceNames_def)

lemma distinct_replicas:
  assumes "no_dash h" "command_ok h p c"
  shows "distinct (InstanceNames c)"
proof -
  have g: "cGeneratedName c = GenerateName h p (cName c)" using assms(2) by (simp add: command_ok_def)
  have "inj_on (\<lambda>i. InstanceName (cGeneratedName c) (int i + 1)) A" for A
    unfolding g by (rule inj_onI) (auto simp: instance_inj [OF assms(1,1) normalized_name_hd [OF assms(2)] normalized_name_hd [OF assms(2)]])
  then show ?thesis by (simp add: InstanceNames_nth distinct_map)
qed

lemma disjoint_replicas:
  assumes "no_dash h" "command_ok h p c" "command_ok h p d" "x \<in> set (InstanceNames c)" "x \<in> set (InstanceNames d)"
  shows "cName c = cName d"
proof -
  have g: "cGeneratedName c = GenerateName h p (cName c)" "cGeneratedName d = GenerateName h p (cName d)"
    using assms(2,3) by (simp_all add: command_ok_def)
  from assms(4,5) obtain i j :: nat where "InstanceName (cGeneratedName c) (int i + 1) = InstanceName (cGeneratedName d) (int j + 1)"
    by (auto simp: InstanceNames_nth)
  then show ?thesis unfolding g
    using instance_inj [OF assms(1,1) normalized_name_hd [OF assms(2)] normalized_name_hd [OF assms(3)], of "int i + 1" "int j + 1"]
    by auto
qed

lemma distinct_all_replicas:
  assumes "no_dash h" and "distinct (map cName cs)" and "\<forall>c \<in> set cs. command_ok h p c"
  shows "distinct (concat (map InstanceNames cs))"
  using assms(2,3)
proof (induction cs)
  case (Cons c cs)
  have "set (InstanceNames c) \<inter> set (concat (map InstanceNames cs)) = {}"
  proof (rule ccontr)
    assume "set (InstanceNames c) \<inter> set (concat (map InstanceNames cs)) \<noteq> {}"
    then obtain x d where "x \<in> set (InstanceNames c)" "d \<in> set cs" "x \<in> set (InstanceNames d)" by auto
    with disjoint_replicas [OF assms(1), of p c d x] Cons.prems show False by auto
  qed
  with Cons distinct_replicas [OF assms(1), of p c] show ?case by simp
qed simp

text \<open>C29: In a normalized project no two replicas share a name: the instance names of all
  commands, every replica of each, are distinct. The hash of the work directory is only
  assumed to be a hexadecimal string, without a dash.\<close>

theorem project_instances_distinct:
  assumes "Normalize ext path raw opts = Inr spec" and "raw_wf raw" and "ext_ok ext"
    and "no_dash (workdirHash (xSha ext) (sWorkDir spec))"
  shows "distinct (concat (map InstanceNames (sCommands spec)))"
proof (rule distinct_all_replicas [OF assms(4)])
  note f = normalized_commands [OF assms(1-3)]
  show "distinct (map cName (sCommands spec))" using f(3) assms(2) by (simp add: raw_wf_def)
  show "\<forall>c \<in> set (sCommands spec). command_ok (workdirHash (xSha ext) (sWorkDir spec)) (sProject spec) c" using f(4) by blast
qed

theorem project_instances_distinct_witness:
  "\<exists>spec. Normalize plainExt ''compose.yaml'' rawPair noOpts = Inr spec \<and> distinct (concat (map InstanceNames (sCommands spec)))"
proof -
  from rawPair_ok(1) obtain spec where n: "Normalize plainExt ''compose.yaml'' rawPair noOpts = Inr spec"
    by (cases "Normalize plainExt ''compose.yaml'' rawPair noOpts") auto
  have "no_dash (workdirHash (xSha plainExt) (sWorkDir spec))"
    by (simp add: workdirHash_def plainExt_def no_dash_def)
  from project_instances_distinct [OF n rawPair_ok(2,3) this] n show ?thesis by blast
qed

end
