(* ===== verification/Ansi_Parser.thy ===== *)
theory Ansi_Parser
  imports Hook_Filter
begin


text \<open>
  The escape sequence parser of the terminal emulator in the tree
  (internal/third_party/charmbracelet-x-ansi: parser/transition_table.go and parser.go).
  It is the viewer against which the hook filter is specified. A call of one of its
  handlers is an event; a printed rune is the bytes handed to \<^verbatim>\<open>utf8.DecodeRune\<close>. Go's
  \<^verbatim>\<open>int\<close> is a 64-bit word, and the data buffer is its filled part together with its size.
\<close>

section \<open>Transition table\<close>

datatype pState =
    GroundState | CsiEntryState | CsiIntermediateState | CsiParamState | DcsEntryState | DcsIntermediateState
  | DcsParamState | DcsStringState | EscapeState | EscapeIntermediateState | OscStringState | SosStringState
  | PmStringState | ApcStringState | Utf8State

datatype pAction =
    NoneAction | ClearAction | CollectAction | PrefixAction | DispatchAction | ExecuteAction | StartAction
  | PutAction | ParamAction | PrintAction

definition within :: "byte \<Rightarrow> byte \<Rightarrow> byte \<Rightarrow> bool" where
  "within lo hi b \<longleftrightarrow> lo \<le> b \<and> b \<le> hi"

text \<open>The control bytes that the table lists as 0x00 to 0x17, 0x19 and 0x1C to 0x1F.\<close>

definition c0 :: "byte \<Rightarrow> bool" where
  "c0 b \<longleftrightarrow> within 0x00 0x17 b \<or> b = 0x19 \<or> within 0x1c 0x1f b"

definition anywhere :: "byte \<Rightarrow> pState \<times> pAction" where
  "anywhere b =
     (if b = 0x90 then (DcsEntryState, ClearAction)
      else if b = 0x18 \<or> b = 0x1a \<or> b = 0x99 \<or> b = 0x9a \<or> within 0x80 0x8f b \<or> within 0x90 0x97 b \<or> b = 0x9c
        then (GroundState, ExecuteAction)
      else if b = 0x1b then (EscapeState, ClearAction)
      else if b = 0x98 then (SosStringState, StartAction)
      else if b = 0x9e then (PmStringState, StartAction)
      else if b = 0x9f then (ApcStringState, StartAction)
      else if b = 0x9b then (CsiEntryState, ClearAction)
      else if b = 0x9d then (OscStringState, StartAction)
      else if within 0xc2 0xdf b \<or> within 0xe0 0xef b \<or> within 0xf0 0xf4 b then (Utf8State, CollectAction)
      else (GroundState, NoneAction))"

definition stringTable :: "pState \<Rightarrow> byte \<Rightarrow> pState \<times> pAction" where
  "stringTable st b =
     (if b = 0x18 \<or> b = 0x1a then (GroundState, NoneAction)
      else if b = 0x9c then (GroundState, DispatchAction)
      else if b = 0x1b then (EscapeState, DispatchAction)
      else if within 0x00 0x7f b then (st, PutAction)
      else anywhere b)"

fun transition :: "pState \<Rightarrow> byte \<Rightarrow> pState \<times> pAction" where
  "transition GroundState b =
     (if c0 b \<or> b = 0x7f then (GroundState, ExecuteAction)
      else if within 0x20 0x7e b then (GroundState, PrintAction)
      else anywhere b)"
| "transition EscapeIntermediateState b =
     (if c0 b then (EscapeIntermediateState, ExecuteAction)
      else if within 0x20 0x2f b then (EscapeIntermediateState, CollectAction)
      else if b = 0x7f then (EscapeIntermediateState, NoneAction)
      else if within 0x30 0x7e b then (GroundState, DispatchAction)
      else anywhere b)"
| "transition EscapeState b =
     (if c0 b then (EscapeState, ExecuteAction)
      else if b = 0x7f then (EscapeState, NoneAction)
      else if b = 0x58 then (SosStringState, StartAction)
      else if b = 0x5e then (PmStringState, StartAction)
      else if b = 0x5f then (ApcStringState, StartAction)
      else if b = 0x50 then (DcsEntryState, ClearAction)
      else if b = 0x5b then (CsiEntryState, ClearAction)
      else if b = 0x5d then (OscStringState, StartAction)
      else if within 0x20 0x2f b then (EscapeIntermediateState, CollectAction)
      else if within 0x30 0x4f b \<or> within 0x51 0x57 b \<or> b = 0x59 \<or> b = 0x5a \<or> b = 0x5c \<or> within 0x60 0x7e b
        then (GroundState, DispatchAction)
      else anywhere b)"
| "transition SosStringState b = stringTable SosStringState b"
| "transition PmStringState b = stringTable PmStringState b"
| "transition ApcStringState b = stringTable ApcStringState b"
| "transition DcsEntryState b =
     (if within 0x40 0x7e b then (DcsStringState, StartAction)
      else if b = 0x1b \<or> within 0x08 0x0d b then (DcsStringState, PutAction)
      else if within 0x3c 0x3f b then (DcsParamState, PrefixAction)
      else if within 0x30 0x3b b then (DcsParamState, ParamAction)
      else if within 0x20 0x2f b then (DcsIntermediateState, CollectAction)
      else if within 0x00 0x07 b \<or> within 0x0e 0x17 b \<or> b = 0x19 \<or> within 0x1c 0x1f b \<or> b = 0x7f
        then (DcsEntryState, NoneAction)
      else anywhere b)"
| "transition DcsIntermediateState b =
     (if within 0x30 0x7e b then (DcsStringState, StartAction)
      else if b = 0x7f \<or> c0 b then (DcsIntermediateState, NoneAction)
      else if within 0x20 0x2f b then (DcsIntermediateState, CollectAction)
      else anywhere b)"
| "transition DcsParamState b =
     (if within 0x40 0x7e b then (DcsStringState, StartAction)
      else if within 0x20 0x2f b then (DcsIntermediateState, CollectAction)
      else if within 0x3c 0x3f b \<or> b = 0x7f \<or> c0 b then (DcsParamState, NoneAction)
      else if within 0x30 0x3b b then (DcsParamState, ParamAction)
      else anywhere b)"
| "transition DcsStringState b =
     (if b = 0x18 \<or> b = 0x1a then (GroundState, NoneAction)
      else if b = 0x9c then (GroundState, DispatchAction)
      else if b = 0x1b then (EscapeState, DispatchAction)
      else (DcsStringState, PutAction))"
| "transition CsiParamState b =
     (if within 0x20 0x2f b then (CsiIntermediateState, CollectAction)
      else if within 0x40 0x7e b then (GroundState, DispatchAction)
      else if within 0x3c 0x3f b \<or> b = 0x7f then (CsiParamState, NoneAction)
      else if within 0x30 0x3b b then (CsiParamState, ParamAction)
      else if c0 b then (CsiParamState, ExecuteAction)
      else anywhere b)"
| "transition CsiIntermediateState b =
     (if within 0x30 0x3f b then (GroundState, NoneAction)
      else if within 0x40 0x7e b then (GroundState, DispatchAction)
      else if b = 0x7f then (CsiIntermediateState, NoneAction)
      else if within 0x20 0x2f b then (CsiIntermediateState, CollectAction)
      else if c0 b then (CsiIntermediateState, ExecuteAction)
      else anywhere b)"
| "transition CsiEntryState b =
     (if within 0x3c 0x3f b then (CsiParamState, PrefixAction)
      else if within 0x30 0x3b b then (CsiParamState, ParamAction)
      else if within 0x20 0x2f b then (CsiIntermediateState, CollectAction)
      else if within 0x40 0x7e b then (GroundState, DispatchAction)
      else if b = 0x7f then (CsiEntryState, NoneAction)
      else if c0 b then (CsiEntryState, ExecuteAction)
      else anywhere b)"
| "transition OscStringState b =
     (if b = 0x18 \<or> b = 0x1a then (GroundState, NoneAction)
      else if b = 0x9c \<or> b = 0x07 then (GroundState, DispatchAction)
      else if b = 0x1b then (EscapeState, DispatchAction)
      else if within 0x20 0xff b then (OscStringState, PutAction)
      else (OscStringState, NoneAction))"
| "transition Utf8State b = anywhere b"

section \<open>Parser\<close>

type_synonym goint = "64 word"

definition MissingParam :: goint where "MissingParam = 0x7fffffff"
definition HasMoreFlag :: goint where "HasMoreFlag = - 0x80000000"
definition MissingCommand :: goint where "MissingCommand = MissingParam"
definition MaxParamsSize :: nat where "MaxParamsSize = 32"

datatype viewerEvent =
    Printed "byte list"
  | Executed byte
  | CsiDispatched goint "goint list"
  | EscDispatched goint
  | DcsDispatched goint "goint list" "byte list"
  | OscDispatched goint "byte list"
  | SosDispatched "byte list"
  | PmDispatched "byte list"
  | ApcDispatched "byte list"
  | InvalidRune          \<comment> \<open>the panic of \<^verbatim>\<open>advanceUtf8\<close>\<close>

record Parser =
  pParams :: "goint list"
  pData :: "byte list"
  pDataSize :: nat
  pParamsLen :: nat
  pCmd :: goint
  pPhase :: pState
  pStringUtf8Rem :: nat

definition newParser :: "nat \<Rightarrow> Parser" where
  "newParser sz =
     \<lparr> pParams = replicate MaxParamsSize 0, pData = [], pDataSize = sz, pParamsLen = 0, pCmd = 0,
       pPhase = GroundState, pStringUtf8Rem = 0 \<rparr>"

definition clear :: "Parser \<Rightarrow> Parser" where
  "clear p = p\<lparr> pParams := (pParams p)[0 := MissingParam], pParamsLen := 0, pCmd := 0, pStringUtf8Rem := 0 \<rparr>"

definition utf8ByteLen :: "byte \<Rightarrow> int" where
  "utf8ByteLen b =
     (if b \<le> 0x7f then 1
      else if within 0xc0 0xdf b then 2
      else if within 0xe0 0xef b then 3
      else if within 0xf0 0xf7 b then 4 else -1)"

text \<open>Byte \<^term>\<open>n\<close> of an integer, and the integer with that byte replaced.\<close>

definition byteAt :: "nat \<Rightarrow> goint \<Rightarrow> byte" where
  "byteAt n c = ucast (drop_bit (8 * n) c)"

definition setByte :: "nat \<Rightarrow> goint \<Rightarrow> byte \<Rightarrow> goint" where
  "setByte n c b = or (and c (not (push_bit (8 * n) 0xff))) (push_bit (8 * n) (ucast b))"

definition collectRune :: "Parser \<Rightarrow> byte \<Rightarrow> Parser" where
  "collectRune p b =
     (if pParamsLen p \<ge> 4 then p
      else p\<lparr> pCmd := setByte (pParamsLen p) (pCmd p) b, pParamsLen := pParamsLen p + 1 \<rparr>)"

definition Rune :: "Parser \<Rightarrow> byte list" where
  "Rune p = map (\<lambda>n. byteAt n (pCmd p)) [0..<nat (utf8ByteLen (byteAt 0 (pCmd p)))]"

definition inStringState :: "pState \<Rightarrow> bool" where
  "inStringState st \<longleftrightarrow> st = OscStringState \<or> st = DcsStringState \<or> st = SosStringState \<or> st = PmStringState \<or> st = ApcStringState"

fun parseDigits :: "goint \<Rightarrow> byte list \<Rightarrow> goint" where
  "parseDigits c [] = c"
| "parseDigits c (d # ds) =
     (if d < 0x30 \<or> d > 0x39 then c
      else parseDigits ((if c = MissingCommand then 0 else c) * 10 + ucast (d - 0x30)) ds)"

definition parseStringCmd :: "Parser \<Rightarrow> Parser" where
  "parseStringCmd p = p\<lparr> pCmd := parseDigits (pCmd p) (pData p) \<rparr>"

definition paramAction :: "Parser \<Rightarrow> byte \<Rightarrow> Parser" where
  "paramAction p b =
     (if pParamsLen p \<ge> length (pParams p) then p
      else let n = pParamsLen p;
               v = pParams p ! n;
               v = (if 0x30 \<le> b \<and> b \<le> 0x39 then (if v = MissingParam then 0 else v) * 10 + ucast (b - 0x30) else v);
               v = (if b = 0x3a then or v HasMoreFlag else v);
               ps = (pParams p)[n := v]
           in if b = 0x3b \<or> b = 0x3a then
                (if n + 1 < length ps then p\<lparr> pParams := ps[n + 1 := MissingParam], pParamsLen := n + 1 \<rparr>
                 else p\<lparr> pParams := ps, pParamsLen := n + 1 \<rparr>)
              else p\<lparr> pParams := ps \<rparr>)"

definition startAction :: "Parser \<Rightarrow> byte \<Rightarrow> Parser" where
  "startAction p b =
     p\<lparr> pStringUtf8Rem := 0, pData := [],
        pCmd := (if pPhase p = DcsEntryState \<or> pPhase p = DcsIntermediateState \<or> pPhase p = DcsParamState \<or> pPhase p = DcsStringState
                 then or (pCmd p) (ucast b) else MissingCommand) \<rparr>"

definition putAction :: "Parser \<Rightarrow> byte \<Rightarrow> Parser" where
  "putAction p b =
     (let p = (if pPhase p = OscStringState \<and> b = 0x3b \<and> pCmd p = MissingCommand then parseStringCmd p else p)
      in if length (pData p) < pDataSize p then p\<lparr> pData := pData p @ [b] \<rparr> else p)"

text \<open>The parameters counted when a sequence is dispatched.\<close>

definition countLast :: "Parser \<Rightarrow> Parser" where
  "countLast p =
     (if (pParamsLen p > 0 \<and> pParamsLen p + 1 < length (pParams p)) \<or>
         (pParamsLen p = 0 \<and> length (pParams p) > 0 \<and> pParams p ! 0 \<noteq> MissingParam)
      then p\<lparr> pParamsLen := pParamsLen p + 1 \<rparr> else p)"

definition dispatchAction :: "Parser \<Rightarrow> byte \<Rightarrow> Parser \<times> viewerEvent list" where
  "dispatchAction p0 b =
     (let p1 = countLast p0;
          p = (if pPhase p1 = OscStringState \<and> pCmd p1 = MissingCommand then parseStringCmd p1 else p1);
          params = take (pParamsLen p) (pParams p);
          cmd = or (pCmd p) (ucast b)
      in case pPhase p of
           CsiEntryState \<Rightarrow> (p\<lparr> pCmd := cmd \<rparr>, [CsiDispatched cmd params])
         | CsiParamState \<Rightarrow> (p\<lparr> pCmd := cmd \<rparr>, [CsiDispatched cmd params])
         | CsiIntermediateState \<Rightarrow> (p\<lparr> pCmd := cmd \<rparr>, [CsiDispatched cmd params])
         | EscapeState \<Rightarrow> (p\<lparr> pCmd := cmd \<rparr>, [EscDispatched cmd])
         | EscapeIntermediateState \<Rightarrow> (p\<lparr> pCmd := cmd \<rparr>, [EscDispatched cmd])
         | DcsEntryState \<Rightarrow> (p, [DcsDispatched (pCmd p) params (pData p)])
         | DcsParamState \<Rightarrow> (p, [DcsDispatched (pCmd p) params (pData p)])
         | DcsIntermediateState \<Rightarrow> (p, [DcsDispatched (pCmd p) params (pData p)])
         | DcsStringState \<Rightarrow> (p, [DcsDispatched (pCmd p) params (pData p)])
         | OscStringState \<Rightarrow> (p, [OscDispatched (pCmd p) (pData p)])
         | SosStringState \<Rightarrow> (p, [SosDispatched (pData p)])
         | PmStringState \<Rightarrow> (p, [PmDispatched (pData p)])
         | ApcStringState \<Rightarrow> (p, [ApcDispatched (pData p)])
         | _ \<Rightarrow> (p, []))"

definition performAction :: "Parser \<Rightarrow> pAction \<Rightarrow> pState \<Rightarrow> byte \<Rightarrow> Parser \<times> viewerEvent list" where
  "performAction p action state b =
     (case action of
        NoneAction \<Rightarrow> (p, [])
      | ClearAction \<Rightarrow> (clear p, [])
      | PrintAction \<Rightarrow> (p\<lparr> pCmd := ucast b \<rparr>, [Printed [b]])
      | ExecuteAction \<Rightarrow> (p\<lparr> pCmd := ucast b \<rparr>, [Executed b])
      | PrefixAction \<Rightarrow> (p\<lparr> pCmd := setByte 1 (pCmd p) b \<rparr>, [])
      | CollectAction \<Rightarrow> (if state = Utf8State then collectRune (p\<lparr> pParamsLen := 0 \<rparr>) b
                         else p\<lparr> pCmd := setByte 2 (pCmd p) b \<rparr>, [])
      | ParamAction \<Rightarrow> (paramAction p b, [])
      | StartAction \<Rightarrow> (startAction p b, [])
      | PutAction \<Rightarrow> (putAction p b, [])
      | DispatchAction \<Rightarrow> dispatchAction p b)"

definition leaveState :: "Parser \<Rightarrow> pState \<Rightarrow> pAction \<Rightarrow> Parser" where
  "leaveState p state action =
     (if pPhase p \<noteq> state then
        (let q = (if pPhase p = EscapeState then clear p else p)
         in if action = PutAction \<and> pPhase p = DcsEntryState \<and> state = DcsStringState then startAction q 0 else q)
      else p)"

definition advanceTable :: "Parser \<Rightarrow> byte \<Rightarrow> Parser \<times> viewerEvent list" where
  "advanceTable p b =
     (case transition (pPhase p) b of (state, action) \<Rightarrow>
      case performAction (leaveState p state action)
             (if b = 0x1b \<and> pPhase p = EscapeState then ExecuteAction else action) state b of
        (q, evs) \<Rightarrow> (q\<lparr> pPhase := state \<rparr>, evs))"

definition advance :: "Parser \<Rightarrow> byte \<Rightarrow> Parser \<times> viewerEvent list" where
  "advance p b =
     (if inStringState (pPhase p) then
        (if pStringUtf8Rem p > 0 \<and> 0x80 \<le> b \<and> b \<le> 0xbf
         then performAction (p\<lparr> pStringUtf8Rem := pStringUtf8Rem p - 1 \<rparr>) PutAction (pPhase p) b
         else advanceTable (p\<lparr> pStringUtf8Rem := (if utf8ByteLen b > 1 then nat (utf8ByteLen b - 1) else 0) \<rparr>) b)
      else advanceTable p b)"

definition advanceUtf8 :: "Parser \<Rightarrow> byte \<Rightarrow> Parser \<times> viewerEvent list" where
  "advanceUtf8 p0 b =
     (let p = collectRune p0 b;
          rw = utf8ByteLen (byteAt 0 (pCmd p))
      in if rw = -1 then (p, [InvalidRune])
         else if int (pParamsLen p) < rw then (p, [])
         else (p\<lparr> pPhase := GroundState, pParamsLen := 0 \<rparr>, [Printed (Rune p)]))"

definition Advance :: "Parser \<Rightarrow> byte \<Rightarrow> Parser \<times> viewerEvent list" where
  "Advance p b = (if pPhase p = Utf8State then advanceUtf8 p b else advance p b)"

fun runParser :: "Parser \<Rightarrow> byte list \<Rightarrow> Parser \<times> viewerEvent list" where
  "runParser p [] = (p, [])"
| "runParser p (b # bs) = (case Advance p b of (p', evs) \<Rightarrow> case runParser p' bs of (p'', evs') \<Rightarrow> (p'', evs @ evs'))"

lemma runParser_append:
  "runParser p (xs @ ys) = (case runParser p xs of (p', e) \<Rightarrow> case runParser p' ys of (p'', e') \<Rightarrow> (p'', e @ e'))"
  by (induction xs arbitrary: p) (auto split: prod.splits)

end
