(* ===== verification/Broadcaster.thy ===== *)
theory Broadcaster
  imports Go_Prelude
begin

text \<open>
  The broadcaster of cmdman/monitor/broadcaster.go, which hands every value to every
  subscriber without ever waiting for one. Each operation holds its mutex and is atomic. A
  channel is the list of its buffered elements; one that is full drops what is sent to it.
\<close>

section \<open>State and operations\<close>

record 'a broadcaster =
  bSubscribers :: "(nat, 'a list) gomap"
  bNextID :: nat
  bClosed :: bool

definition newBroadcaster :: "'a broadcaster" where
  "newBroadcaster = \<lparr> bSubscribers = [], bNextID = 0, bClosed = False \<rparr>"

definition chanCap :: nat where "chanCap = 64"

text \<open>The number of the new subscriber; on a closed broadcaster its channel is closed at once.\<close>

definition Subscribe :: "'a broadcaster \<Rightarrow> 'a broadcaster \<times> nat" where
  "Subscribe f =
     (let n = bNextID f; f = f\<lparr> bNextID := n + 1 \<rparr>
      in if bClosed f then (f, n) else (f\<lparr> bSubscribers := AList.update n [] (bSubscribers f) \<rparr>, n))"

definition Unsubscribe :: "nat \<Rightarrow> 'a broadcaster \<Rightarrow> 'a broadcaster" where
  "Unsubscribe n f = f\<lparr> bSubscribers := AList.delete n (bSubscribers f) \<rparr>"

definition Send :: "'a \<Rightarrow> 'a broadcaster \<Rightarrow> 'a broadcaster" where
  "Send x f =
     (if bClosed f then f
      else f\<lparr> bSubscribers := map (\<lambda>(n, ch). (n, if length ch < chanCap then ch @ [x] else ch)) (bSubscribers f) \<rparr>)"

definition CloseAll :: "'a broadcaster \<Rightarrow> 'a broadcaster" where
  "CloseAll f = (if bClosed f then f else f\<lparr> bClosed := True, bSubscribers := [] \<rparr>)"

text \<open>A subscriber takes the oldest element of its channel.\<close>

definition Receive :: "nat \<Rightarrow> 'a broadcaster \<Rightarrow> 'a broadcaster \<times> 'a option" where
  "Receive n f =
     (case map_of (bSubscribers f) n of
        Some (x # ch) \<Rightarrow> (f\<lparr> bSubscribers := amodify n (\<lambda>_. ch) (bSubscribers f) \<rparr>, Some x)
      | _ \<Rightarrow> (f, None))"

lemma map_of_Send:
  "\<not> bClosed f \<Longrightarrow> map_of (bSubscribers (Send x f)) n = map_option (\<lambda>ch. if length ch < chanCap then ch @ [x] else ch) (map_of (bSubscribers f) n)"
  by (simp add: Send_def map_of_map)

lemma Send_frame [simp]: "bClosed (Send x f) = bClosed f" "bNextID (Send x f) = bNextID f"
  by (simp_all add: Send_def)

text \<open>A subscriber that has room for everything gets everything.\<close>

lemma send_all:
  assumes "\<not> bClosed f" "map_of (bSubscribers f) n = Some ch" "length ch + length xs \<le> chanCap"
  shows "map_of (bSubscribers (fold Send xs f)) n = Some (ch @ xs) \<and> \<not> bClosed (fold Send xs f) \<and> bNextID (fold Send xs f) = bNextID f"
  using assms
proof (induction xs arbitrary: f ch)
  case (Cons x xs)
  then show ?case using Cons.IH [of "Send x f" "ch @ [x]"] by (simp add: map_of_Send)
qed simp

end
