(* ===== verification/Go_Utf8.thy ===== *)
theory Go_Utf8
  imports Go_Prelude
begin

text \<open>
  UTF-8 the way Go's \<^verbatim>\<open>unicode/utf8\<close> and \<^verbatim>\<open>strings\<close> packages read it: the length of the rune
  a string starts with, the validity of a string, and \<^verbatim>\<open>strings.ToValidUTF8\<close>, which replaces
  every maximal run of bytes that are no part of a rune. The output is always valid, and a
  valid string is left alone.
\<close>

section \<open>Runes\<close>

definition cont :: "nat \<Rightarrow> bool" where
  "cont b \<longleftrightarrow> 0x80 \<le> b \<and> b \<le> 0xBF"

text \<open>The range of the second byte of a rune, by its first byte (the \<^verbatim>\<open>acceptRanges\<close> table).\<close>

definition secondRange :: "nat \<Rightarrow> nat \<times> nat" where
  "secondRange b =
     (if b = 0xE0 then (0xA0, 0xBF) else if b = 0xED then (0x80, 0x9F)
      else if b = 0xF0 then (0x90, 0xBF) else if b = 0xF4 then (0x80, 0x8F) else (0x80, 0xBF))"

definition secondOk :: "nat \<Rightarrow> nat \<Rightarrow> bool" where
  "secondOk b0 b1 \<longleftrightarrow> fst (secondRange b0) \<le> b1 \<and> b1 \<le> snd (secondRange b0)"

text \<open>The length of a multi-byte rune by its first byte, 0 for a byte that starts none.\<close>

definition leadLen :: "nat \<Rightarrow> nat" where
  "leadLen b =
     (if b < 0x80 then 1 else if 0xC2 \<le> b \<and> b \<le> 0xDF then 2 else if 0xE0 \<le> b \<and> b \<le> 0xEF then 3
      else if 0xF0 \<le> b \<and> b \<le> 0xF4 then 4 else 0)"

text \<open>The length of the rune at the head of a string, 0 when there is none
  (\<^verbatim>\<open>DecodeRuneInString\<close> answers \<^verbatim>\<open>RuneError\<close> with width 1).\<close>

definition runeLen :: "string \<Rightarrow> nat" where
  "runeLen s =
     (case map of_char s of
        [] \<Rightarrow> 0
      | b0 # bs \<Rightarrow>
          let n = leadLen b0
          in if n \<le> 1 then n
             else case bs of
               [] \<Rightarrow> 0
             | b1 # bs' \<Rightarrow> if secondOk b0 b1 \<and> n - 2 \<le> length bs' \<and> list_all cont (take (n - 2) bs') then n else 0)"

lemma runeLen_le: "runeLen s \<le> length s"
  by (auto simp: runeLen_def leadLen_def Let_def map_eq_Cons_conv split: list.split if_splits)

lemma runeLen_Nil [simp]: "runeLen [] = 0"
  by (simp add: runeLen_def)

lemma runeLen_append:
  assumes "0 < runeLen s"
  shows "runeLen (s @ t) = runeLen s"
proof (cases s)
  case (Cons c cs)
  then show ?thesis using assms
    by (cases cs) (auto simp: runeLen_def Let_def take_map split: if_splits)
qed (use assms in simp)

text \<open>Whether a string is a sequence of runes (\<^verbatim>\<open>utf8.ValidString\<close>).\<close>

function ValidString :: "string \<Rightarrow> bool" where
  "ValidString s = (if s = [] then True else if runeLen s = 0 then False else ValidString (drop (runeLen s) s))"
  by auto
termination by (relation "measure length") (auto simp: runeLen_le)

declare ValidString.simps [simp del]

lemma ValidString_Nil [simp]: "ValidString []"
  by (simp add: ValidString.simps)

lemma ValidString_rune:
  assumes "0 < runeLen s" "length s = runeLen s"
  shows "ValidString (s @ t) \<longleftrightarrow> ValidString t"
  using assms runeLen_append [OF assms(1), of t] by (subst ValidString.simps) (auto simp: runeLen_def)

lemma runeLen_take:
  assumes "0 < runeLen s"
  shows "runeLen (take (runeLen s) s) = runeLen s"
proof (cases s)
  case (Cons c cs)
  then show ?thesis using assms
    by (cases cs) (auto simp: runeLen_def Let_def leadLen_def take_map take_Cons' split: if_splits)
qed (use assms in simp)

section \<open>Repair\<close>

text \<open>\<^verbatim>\<open>strings.ToValidUTF8(s, replacement)\<close>; \<open>bad\<close> tells that the last byte was replaced.\<close>

function toValid :: "string \<Rightarrow> bool \<Rightarrow> string \<Rightarrow> string" where
  "toValid r bad s =
     (if s = [] then []
      else if runeLen s = 0 then (if bad then [] else r) @ toValid r True (tl s)
      else take (runeLen s) s @ toValid r False (drop (runeLen s) s))"
  by auto
termination by (relation "measure (\<lambda>(r, bad, s). length s)") (auto simp: runeLen_le)

declare toValid.simps [simp del]

definition ToValidUTF8 :: "string \<Rightarrow> string \<Rightarrow> string" where
  "ToValidUTF8 s r = toValid r False s"

lemma ValidString_append: "ValidString s \<Longrightarrow> ValidString (s @ t) = ValidString t"
proof (induction s rule: ValidString.induct)
  case (1 s)
  show ?case
  proof (cases "s = []")
    case False
    then have ne: "runeLen s \<noteq> 0" and v: "ValidString (drop (runeLen s) s)"
      using "1.prems" by (auto simp: ValidString.simps [of s] split: if_splits)
    have "ValidString (s @ t) = ValidString (take (runeLen s) s @ (drop (runeLen s) s @ t))"
      by (simp flip: append_assoc)
    also have "\<dots> = ValidString (drop (runeLen s) s @ t)"
      using ne runeLen_take [of s] runeLen_le [of s] by (intro ValidString_rune) auto
    finally show ?thesis using "1.IH" [OF False ne v] by simp
  qed simp
qed

lemma toValid_valid: "ValidString r \<Longrightarrow> ValidString (toValid r bad s)"
proof (induction r bad s rule: toValid.induct)
  case (1 r bad s)
  show ?case
  proof (cases "s = [] \<or> runeLen s = 0")
    case True
    then show ?thesis using 1 by (subst toValid.simps) (auto simp: ValidString_append)
  next
    case False
    then have "ValidString (take (runeLen s) s @ toValid r False (drop (runeLen s) s))
        = ValidString (toValid r False (drop (runeLen s) s))"
      using runeLen_take [of s] runeLen_le [of s] by (intro ValidString_rune) auto
    then show ?thesis using 1 False by (subst toValid.simps) auto
  qed
qed

lemma toValid_id: "ValidString s \<Longrightarrow> toValid r bad s = s"
proof (induction s arbitrary: bad rule: ValidString.induct)
  case (1 s)
  show ?case
  proof (cases "s = []")
    case False
    then have ne: "runeLen s \<noteq> 0" and v: "ValidString (drop (runeLen s) s)"
      using "1.prems" by (auto simp: ValidString.simps [of s] split: if_splits)
    then show ?thesis using "1.IH" [OF False ne v] False by (subst toValid.simps) simp
  qed (simp add: toValid.simps)
qed

end
