(* ===== verification/Runtime_State.thy ===== *)
theory Runtime_State
  imports Ansi_Parser Broadcaster Hook_Dispatch Go_Utf8 Go_Path
begin

text \<open>
  What a command reports about itself (cmdman/monitor/runtime_state.go): its window title,
  working directory, unread bell, latest notification and reported status, latched out of
  its output by the handlers the monitor registers on the terminal emulator, or set by the
  status calls. The emulator's own handlers of titles and directories are those of
  internal/third_party/charmbracelet-x-vt/osc.go, behind the parser of \<^verbatim>\<open>Ansi_Parser\<close>;
  \<^verbatim>\<open>feed\<close> of terminal_screen.go runs output through both. \<^verbatim>\<open>url.Parse\<close> is the argument
  \<open>urlParse\<close> (scheme and path of what parses); a change under the state's mutex and the wake
  sent after it is released are separate operations, since others may come in between.
\<close>

section \<open>State\<close>

record notificationEvent =
  neTitle :: string
  neBody :: string
  neAt :: int

record runtimeSnapshot =
  rsGen :: "64 word"
  rsTitle :: string
  rsTitleSet :: bool
  rsCwd :: string
  rsCwdSet :: bool
  rsStatus :: string
  rsDetail :: string
  rsBellUnread :: bool
  rsNotification :: "notificationEvent option"

record runtimeView =
  rvTitle :: string
  rvCwd :: string
  rvStatus :: string
  rvDetail :: string
  rvBellUnread :: bool

record commandRuntimeState =
  crGen :: "64 word"
  crTitle :: string
  crTitleSet :: bool
  crCwd :: string
  crCwdSet :: bool
  crStatus :: string
  crDetail :: string
  crBellUnread :: bool
  crNotif :: "notificationEvent option"
  crAttached :: int
  crChanges :: "unit broadcaster"
  crHooks :: "hookDispatcher option"

definition newCommandRuntimeState :: commandRuntimeState where
  "newCommandRuntimeState =
     \<lparr> crGen = 0, crTitle = [], crTitleSet = False, crCwd = [], crCwdSet = False, crStatus = [], crDetail = [],
       crBellUnread = False, crNotif = None, crAttached = 0, crChanges = newBroadcaster, crHooks = None \<rparr>"

definition setHookSink :: "hookDispatcher \<Rightarrow> commandRuntimeState \<Rightarrow> commandRuntimeState" where
  "setHookSink d s = s\<lparr> crHooks := Some d \<rparr>"

definition emitHook :: "hookEvent \<Rightarrow> commandRuntimeState \<Rightarrow> commandRuntimeState" where
  "emitHook ev s = (case crHooks s of None \<Rightarrow> s | Some d \<Rightarrow> s\<lparr> crHooks := Some (dispatch ev d) \<rparr>)"

definition snapshot :: "commandRuntimeState \<Rightarrow> runtimeSnapshot" where
  "snapshot s =
     \<lparr> rsGen = crGen s, rsTitle = crTitle s, rsTitleSet = crTitleSet s, rsCwd = crCwd s, rsCwdSet = crCwdSet s,
       rsStatus = crStatus s, rsDetail = crDetail s, rsBellUnread = crBellUnread s, rsNotification = crNotif s \<rparr>"

definition cwdPath :: "(string \<Rightarrow> (string \<times> string) option) \<Rightarrow> string \<Rightarrow> string" where
  "cwdPath urlParse payload =
     (case urlParse payload of
        None \<Rightarrow> []
      | Some (scheme, path) \<Rightarrow> if scheme \<noteq> ''file'' then [] else if \<not> ValidString path then [] else path)"

definition view :: "(string \<Rightarrow> (string \<times> string) option) \<Rightarrow> runtimeSnapshot \<Rightarrow> runtimeView" where
  "view urlParse s =
     \<lparr> rvTitle = rsTitle s, rvCwd = cwdPath urlParse (rsCwd s), rvStatus = rsStatus s, rvDetail = rsDetail s,
       rvBellUnread = rsBellUnread s \<rparr>"

section \<open>Changes\<close>

text \<open>The critical section of \<^verbatim>\<open>mutate\<close>: apply the closure and bump the generation when it
  changed something. The wake follows outside.\<close>

type_synonym change = "commandRuntimeState \<Rightarrow> commandRuntimeState \<times> bool"

definition locked :: "change \<Rightarrow> change" where
  "locked fn s = (case fn s of (s', changed) \<Rightarrow> (if changed then s'\<lparr> crGen := crGen s' + 1 \<rparr> else s', changed))"

definition wake :: "commandRuntimeState \<Rightarrow> commandRuntimeState" where
  "wake s = s\<lparr> crChanges := Send () (crChanges s) \<rparr>"

definition mutate :: "change \<Rightarrow> change" where
  "mutate fn s = (case locked fn s of (s', changed) \<Rightarrow> (if changed then wake s' else s', changed))"

text \<open>U+FFFD, the replacement rune.\<close>

definition replacementRune :: string where
  "replacementRune = [CHR 0xEF, CHR 0xBF, CHR 0xBD]"

definition sanitizeTermString :: "string \<Rightarrow> string" where
  "sanitizeTermString s = ToValidUTF8 s replacementRune"

text \<open>The closures of the latches.\<close>

definition titleFn :: "string \<Rightarrow> change" where
  "titleFn title s = (if crTitleSet s \<and> crTitle s = title then (s, False) else (s\<lparr> crTitleSet := True, crTitle := title \<rparr>, True))"

definition cwdFn :: "string \<Rightarrow> change" where
  "cwdFn payload s = (if crCwdSet s \<and> crCwd s = payload then (s, False) else (s\<lparr> crCwdSet := True, crCwd := payload \<rparr>, True))"

definition bellFn :: change where
  "bellFn s = (if crBellUnread s then (s, False) else (s\<lparr> crBellUnread := True \<rparr>, True))"

definition notifFn :: "notificationEvent \<Rightarrow> change" where
  "notifFn n s = (s\<lparr> crNotif := Some n \<rparr>, True)"

definition clearBellLocked :: change where
  "clearBellLocked s = (if \<not> crBellUnread s then (s, False) else (s\<lparr> crBellUnread := False \<rparr>, True))"

definition attachBeginFn :: change where
  "attachBeginFn s = clearBellLocked (s\<lparr> crAttached := crAttached s + 1 \<rparr>)"

definition attachEndFn :: change where
  "attachEndFn s = (if crAttached s > 0 then s\<lparr> crAttached := crAttached s - 1 \<rparr> else s, False)"

definition reportFn :: "string \<Rightarrow> string \<Rightarrow> change" where
  "reportFn status detail s =
     (if crStatus s = status \<and> crDetail s = detail then (s, False) else (s\<lparr> crStatus := status, crDetail := detail \<rparr>, True))"

definition resetFn :: change where
  "resetFn s =
     (if \<not> crTitleSet s \<and> \<not> crCwdSet s \<and> crStatus s = [] \<and> crDetail s = [] \<and> \<not> crBellUnread s \<and> crNotif s = None
      then (s, False)
      else (s\<lparr> crTitle := [], crStatus := [], crDetail := [], crBellUnread := False, crNotif := None, crTitleSet := False,
               crCwd := [], crCwdSet := False \<rparr>, True))"

text \<open>The latches themselves: a title hook fires on a change only, a bell and a notification
  hook every time.\<close>

definition latchTitle :: "string \<Rightarrow> commandRuntimeState \<Rightarrow> commandRuntimeState" where
  "latchTitle raw s =
     (let title = sanitizeTermString raw
      in case mutate (titleFn title) s of (s', changed) \<Rightarrow>
           if changed then emitHook \<lparr> heKind = HookEventTitle, heTitle = title, heBody = [] \<rparr> s' else s')"

definition latchCwd :: "string \<Rightarrow> commandRuntimeState \<Rightarrow> commandRuntimeState" where
  "latchCwd raw s = fst (mutate (cwdFn (sanitizeTermString raw)) s)"

definition seedCwd :: "(string \<Rightarrow> string) \<Rightarrow> string \<Rightarrow> commandRuntimeState \<Rightarrow> commandRuntimeState" where
  "seedCwd cwdURL dir s = (if dir = [] then s else latchCwd (cwdURL dir) s)"

definition latchBell :: "commandRuntimeState \<Rightarrow> commandRuntimeState" where
  "latchBell s = emitHook \<lparr> heKind = HookEventBell, heTitle = [], heBody = [] \<rparr> (fst (mutate bellFn s))"

definition latchNotification :: "int \<Rightarrow> string \<Rightarrow> string \<Rightarrow> commandRuntimeState \<Rightarrow> commandRuntimeState" where
  "latchNotification now rawTitle rawBody s =
     (let title = sanitizeTermString rawTitle; body = sanitizeTermString rawBody
      in emitHook \<lparr> heKind = HookEventNotification, heTitle = title, heBody = body \<rparr>
           (fst (mutate (notifFn \<lparr> neTitle = title, neBody = body, neAt = now \<rparr>) s)))"

definition attachBegin :: "commandRuntimeState \<Rightarrow> commandRuntimeState" where
  "attachBegin s = fst (mutate attachBeginFn s)"

definition attachEnd :: "commandRuntimeState \<Rightarrow> commandRuntimeState" where
  "attachEnd s = fst (mutate attachEndFn s)"

definition setReport :: "string \<Rightarrow> string \<Rightarrow> commandRuntimeState \<Rightarrow> commandRuntimeState" where
  "setReport status detail s = fst (mutate (reportFn status detail) s)"

definition clearReport :: "commandRuntimeState \<Rightarrow> commandRuntimeState" where
  "clearReport s = setReport [] [] s"

definition resetRuntime :: "commandRuntimeState \<Rightarrow> commandRuntimeState" where
  "resetRuntime s = fst (mutate resetFn s)"

section \<open>Notifications in the output\<close>

definition parseOsc9Notification :: "string \<Rightarrow> string option" where
  "parseOsc9Notification data =
     (if \<not> hasPrefix data ''9;'' then None
      else let rest = drop 2 data
           in if rest = [] then None
              else if hd rest = CHR ''4'' \<and> (length rest = 1 \<or> rest ! 1 = CHR '';'') then None
              else Some rest)"

text \<open>\<^verbatim>\<open>bytes.SplitN(data, sep, n)\<close> for a positive \<open>n\<close>: the last part is the unsplit remainder.\<close>

fun splitN :: "char \<Rightarrow> nat \<Rightarrow> string \<Rightarrow> string list" where
  "splitN c (Suc (Suc n)) s =
     (if c \<in> set s then takeWhile (\<lambda>x. x \<noteq> c) s # splitN c (Suc n) (tl (dropWhile (\<lambda>x. x \<noteq> c) s)) else [s])"
| "splitN c n s = [s]"

definition parseOsc777Notification :: "string \<Rightarrow> (string \<times> string) option" where
  "parseOsc777Notification data =
     (let parts = splitN CHR '';'' 4 data
      in if length parts < 3 \<or> parts ! 1 \<noteq> ''notify'' then None
         else Some (parts ! 2, if length parts = 4 then parts ! 3 else []))"

section \<open>The emulator's events\<close>

definition bytesToString :: "byte list \<Rightarrow> string" where
  "bytesToString bs = map (\<lambda>b. char_of (unat b)) bs"

definition stringToBytes :: "string \<Rightarrow> byte list" where
  "stringToBytes s = map (\<lambda>c. of_nat (of_char c)) s"

text \<open>Title and directory of an OSC string, which has exactly one parameter
  (\<^verbatim>\<open>handleTitle\<close> and \<^verbatim>\<open>handleWorkingDirectory\<close> of the emulator).\<close>

definition handleTitle :: "goint \<Rightarrow> string \<Rightarrow> string option" where
  "handleTitle cmd data =
     (let parts = splitOn CHR '';'' data
      in if length parts \<noteq> 2 then None else if cmd = 0 \<or> cmd = 2 then Some (parts ! 1) else None)"

definition handleWorkingDirectory :: "string \<Rightarrow> string option" where
  "handleWorkingDirectory data =
     (let parts = splitOn CHR '';'' data in if length parts \<noteq> 2 then None else Some (parts ! 1))"

definition optionally :: "('a \<Rightarrow> 's \<Rightarrow> 's) \<Rightarrow> 'a option \<Rightarrow> 's \<Rightarrow> 's" where
  "optionally f x s = (case x of None \<Rightarrow> s | Some a \<Rightarrow> f a s)"

definition observeEvent :: "int \<Rightarrow> viewerEvent \<Rightarrow> commandRuntimeState \<Rightarrow> commandRuntimeState" where
  "observeEvent now ev s =
     (case ev of
        Executed b \<Rightarrow> if b = 7 then latchBell s else s
      | OscDispatched cmd bs \<Rightarrow>
          (let data = bytesToString bs
           in if cmd = 0 \<or> cmd = 1 \<or> cmd = 2 then optionally latchTitle (handleTitle cmd data) s
              else if cmd = 7 then optionally latchCwd (handleWorkingDirectory data) s
              else if cmd = 9 then optionally (latchNotification now []) (parseOsc9Notification data) s
              else if cmd = 777 then optionally (\<lambda>(title, body). latchNotification now title body) (parseOsc777Notification data) s
              else s)
      | _ \<Rightarrow> s)"

text \<open>\<^verbatim>\<open>feed\<close>: the emulator parses the chunk byte by byte; a panic of its parser disables the
  tracker for good.\<close>

record screenTracker =
  stParser :: Parser
  stHealthy :: bool

fun feedBytes :: "int \<Rightarrow> byte list \<Rightarrow> screenTracker \<Rightarrow> commandRuntimeState \<Rightarrow> screenTracker \<times> commandRuntimeState" where
  "feedBytes now [] t s = (t, s)"
| "feedBytes now (b # bs) t s =
     (case Advance (stParser t) b of (p, evs) \<Rightarrow>
        if InvalidRune \<in> set evs then (t\<lparr> stParser := p, stHealthy := False \<rparr>, s)
        else feedBytes now bs (t\<lparr> stParser := p \<rparr>) (fold (observeEvent now) evs s))"

definition feed :: "int \<Rightarrow> string \<Rightarrow> screenTracker \<Rightarrow> commandRuntimeState \<Rightarrow> screenTracker \<times> commandRuntimeState" where
  "feed now data t s = (if \<not> stHealthy t then (t, s) else feedBytes now (stringToBytes data) t s)"

section \<open>Properties of the latches\<close>

text \<open>The changes, as the values the operations pass to \<^verbatim>\<open>mutate\<close>.\<close>

datatype runtimeOp =
    OpTitle string | OpCwd string | OpBell | OpNotification int string string
  | OpAttachBegin | OpAttachEnd | OpReport string string | OpReset

fun opFn :: "runtimeOp \<Rightarrow> change" where
  "opFn (OpTitle t) = titleFn (sanitizeTermString t)"
| "opFn (OpCwd d) = cwdFn (sanitizeTermString d)"
| "opFn OpBell = bellFn"
| "opFn (OpNotification now t b) = notifFn \<lparr> neTitle = sanitizeTermString t, neBody = sanitizeTermString b, neAt = now \<rparr>"
| "opFn OpAttachBegin = attachBeginFn"
| "opFn OpAttachEnd = attachEndFn"
| "opFn (OpReport st d) = reportFn st d"
| "opFn OpReset = resetFn"

lemmas change_defs = titleFn_def cwdFn_def bellFn_def notifFn_def clearBellLocked_def attachBeginFn_def
  attachEndFn_def reportFn_def resetFn_def

text \<open>A change that is reported bumps the generation, one that is not leaves what a reader sees.\<close>

lemma locked_gen:
  assumes "locked (opFn op) s = (s', changed)"
  shows "(changed \<longrightarrow> crGen s' = crGen s + 1) \<and> (\<not> changed \<longrightarrow> snapshot s' = snapshot s) \<and>
    crChanges s' = crChanges s \<and> crHooks s' = crHooks s"
  using assms by (cases op) (auto simp: locked_def change_defs snapshot_def split: if_splits)

section \<open>Valid strings\<close>

definition runtime_ok :: "commandRuntimeState \<Rightarrow> bool" where
  "runtime_ok s \<longleftrightarrow> ValidString (crTitle s) \<and> ValidString (crCwd s) \<and> ValidString (crStatus s) \<and> ValidString (crDetail s) \<and>
     (\<forall>n. crNotif s = Some n \<longrightarrow> ValidString (neTitle n) \<and> ValidString (neBody n))"

definition op_ok :: "runtimeOp \<Rightarrow> bool" where
  "op_ok op \<longleftrightarrow> (case op of OpReport st d \<Rightarrow> ValidString st \<and> ValidString d | _ \<Rightarrow> True)"

lemma replacementRune_valid: "ValidString replacementRune"
  by code_simp

lemma sanitize_valid [simp]: "ValidString (sanitizeTermString s)"
  by (simp add: sanitizeTermString_def ToValidUTF8_def toValid_valid replacementRune_valid)

lemma sanitize_id: "ValidString s \<Longrightarrow> sanitizeTermString s = s"
  by (simp add: sanitizeTermString_def ToValidUTF8_def toValid_id)

lemma locked_ok:
  assumes "runtime_ok s" "op_ok op"
  shows "runtime_ok (fst (locked (opFn op) s))"
  using assms by (cases op) (auto simp: locked_def change_defs runtime_ok_def op_ok_def)

lemma mutate_ok:
  assumes "runtime_ok s" "op_ok op"
  shows "runtime_ok (fst (mutate (opFn op) s))"
  using locked_ok [OF assms] by (simp add: mutate_def wake_def runtime_ok_def case_prod_beta)

lemma emitHook_ok [simp]: "runtime_ok (emitHook ev s) = runtime_ok s"
  by (simp add: emitHook_def runtime_ok_def split: option.split)

lemma latch_ok:
  assumes "runtime_ok s"
  shows "runtime_ok (latchTitle t s)" "runtime_ok (latchCwd t s)" "runtime_ok (latchBell s)"
    "runtime_ok (latchNotification now t b s)"
  using mutate_ok [OF assms, of "OpTitle t"] mutate_ok [OF assms, of "OpCwd t"] mutate_ok [OF assms, of OpBell]
    mutate_ok [OF assms, of "OpNotification now t b"]
  by (simp_all add: latchTitle_def latchCwd_def latchBell_def latchNotification_def op_ok_def Let_def case_prod_beta)

lemma observeEvent_ok: "runtime_ok s \<Longrightarrow> runtime_ok (observeEvent now ev s)"
  by (auto simp: observeEvent_def optionally_def Let_def latch_ok split: viewerEvent.split option.split)

lemma fold_observeEvent_ok: "runtime_ok s \<Longrightarrow> runtime_ok (fold (observeEvent now) evs s)"
  by (induction evs arbitrary: s) (simp_all add: observeEvent_ok)

lemma feedBytes_ok: "runtime_ok s \<Longrightarrow> runtime_ok (snd (feedBytes now bs t s))"
  by (induction now bs t s rule: feedBytes.induct) (auto simp: fold_observeEvent_ok split: prod.split)

lemma feed_ok: "runtime_ok s \<Longrightarrow> runtime_ok (snd (feed now data t s))"
  by (simp add: feed_def feedBytes_ok)

lemma view_valid:
  assumes "runtime_ok s"
  shows "ValidString (rvTitle (view u (snapshot s))) \<and> ValidString (rvCwd (view u (snapshot s))) \<and>
    ValidString (rvStatus (view u (snapshot s))) \<and> ValidString (rvDetail (view u (snapshot s)))"
  using assms by (auto simp: view_def snapshot_def cwdPath_def runtime_ok_def split: option.split)

section \<open>Histories\<close>

text \<open>What happens to the state of a monitor: output, the status calls, attaches and restarts
  (which reset the state and seed the directory).\<close>

datatype runtimeCall =
    CallFeed int string | CallSeedCwd string | CallSetReport string string | CallClearReport
  | CallAttachBegin | CallAttachEnd | CallReset

fun runtimeStep :: "(string \<Rightarrow> string) \<Rightarrow> runtimeCall \<Rightarrow> screenTracker \<times> commandRuntimeState \<Rightarrow> screenTracker \<times> commandRuntimeState" where
  "runtimeStep cwdURL (CallFeed now data) (t, s) = feed now data t s"
| "runtimeStep cwdURL (CallSeedCwd dir) (t, s) = (t, seedCwd cwdURL dir s)"
| "runtimeStep cwdURL (CallSetReport st d) (t, s) = (t, setReport st d s)"
| "runtimeStep cwdURL CallClearReport (t, s) = (t, clearReport s)"
| "runtimeStep cwdURL CallAttachBegin (t, s) = (t, attachBegin s)"
| "runtimeStep cwdURL CallAttachEnd (t, s) = (t, attachEnd s)"
| "runtimeStep cwdURL CallReset (t, s) = (t, resetRuntime s)"

definition runtimeRun :: "(string \<Rightarrow> string) \<Rightarrow> runtimeCall list \<Rightarrow> screenTracker \<Rightarrow> screenTracker \<times> commandRuntimeState" where
  "runtimeRun cwdURL cs t = fold (runtimeStep cwdURL) cs (t, newCommandRuntimeState)"

fun reportValid :: "runtimeCall \<Rightarrow> bool" where
  "reportValid (CallSetReport st d) \<longleftrightarrow> ValidString st \<and> ValidString d"
| "reportValid _ \<longleftrightarrow> True"

lemma runtimeStep_ok:
  assumes "runtime_ok (snd ts)" "reportValid c"
  shows "runtime_ok (snd (runtimeStep cwdURL c ts))"
proof (cases ts)
  case (Pair t s)
  then have s: "runtime_ok s" using assms(1) by simp
  show ?thesis using assms(2) Pair s latch_ok [OF s] feed_ok [OF s] mutate_ok [OF s, of OpAttachBegin] mutate_ok [OF s, of OpAttachEnd]
      mutate_ok [OF s, of OpReset] mutate_ok [OF s, of "OpReport a b" for a b]
    by (cases c) (simp_all add: seedCwd_def setReport_def clearReport_def attachBegin_def attachEnd_def resetRuntime_def op_ok_def)
qed

lemma runtimeFold_ok:
  "list_all reportValid cs \<Longrightarrow> runtime_ok (snd ts) \<Longrightarrow> runtime_ok (snd (fold (runtimeStep cwdURL) cs ts))"
proof (induction cs arbitrary: ts)
  case (Cons c cs)
  then show ?case using Cons.IH [OF _ runtimeStep_ok] by simp
qed simp

lemma new_ok: "runtime_ok newCommandRuntimeState"
  by (simp add: runtime_ok_def newCommandRuntimeState_def)

lemma runtimeRun_ok: "list_all reportValid cs \<Longrightarrow> runtime_ok (snd (runtimeRun cwdURL cs t))"
  unfolding runtimeRun_def by (rule runtimeFold_ok) (simp_all add: new_ok)

text \<open>C40: Everything a monitor reports about a command is valid UTF-8, whatever bytes the command
  wrote, in whatever chunks, and whatever a working directory decodes to: a runtime state can
  always be put into a response. The reported status and detail come from a status call,
  whose strings are valid.\<close>

theorem runtime_view_valid:
  assumes "list_all reportValid cs" "s = snd (runtimeRun cwdURL cs t)"
  shows "ValidString (rvTitle (view u (snapshot s))) \<and> ValidString (rvCwd (view u (snapshot s))) \<and>
    ValidString (rvStatus (view u (snapshot s))) \<and> ValidString (rvDetail (view u (snapshot s)))"
  using view_valid [of s u] runtimeRun_ok [OF assms(1)] assms(2) by simp

text \<open>A title cut in the middle of a rune, by a string terminator.\<close>

definition cutTitle :: "runtimeCall list" where
  "cutTitle = [CallFeed 0 ([CHR 0x1B] @ '']2;a'' @ [CHR 0xE2, CHR 0x07]), CallSetReport ''working'' ''x'']"

theorem runtime_view_valid_witness:
  "let s = snd (runtimeRun id cutTitle \<lparr> stParser = newParser 64, stHealthy = True \<rparr>)
   in crTitle s = ''a'' @ replacementRune \<and> ValidString (rvTitle (view (\<lambda>_. None) (snapshot s)))"
proof -
  have "list_all reportValid cutTitle" by code_simp
  note v = runtime_view_valid [OF this refl, where u = "\<lambda>_. None" and cwdURL = id and t = "\<lparr> stParser = newParser 64, stHealthy = True \<rparr>"]
  have "crTitle (snd (runtimeRun id cutTitle \<lparr> stParser = newParser 64, stHealthy = True \<rparr>)) = ''a'' @ replacementRune"
    by code_simp
  then show ?thesis using v by (simp add: Let_def)
qed

end
