(* ===== verification/Log_Tail.thy ===== *)
theory Log_Tail
  imports Log_Writer
begin

text \<open>
  Moving by lines in a log file (cmdman/logdriver/k8sfile/tail.go): the file is read
  backwards or forwards in chunks of a few pages. The file is its contents; the page size
  is a parameter. Each routine is proved equal to a scan byte by byte, and on a file of
  complete lines to the offset of the line it is asked for.
\<close>

datatype LogErr =
    ErrNegativeSize int
  | ErrMalformed string
  | ErrTimestamp string
  | ErrTag string string
  | ErrNotExist nat
  | ErrOffsetType

definition tailChunkSize :: "nat \<Rightarrow> nat" where
  "tailChunkSize pageSize = (let sz = pageSize * 4 in if sz = 0 then 16 * 1024 else sz)"

lemma chunk_pos [simp]: "0 < tailChunkSize ps" "tailChunkSize ps \<noteq> 0"
  by (simp_all add: tailChunkSize_def Let_def)

definition readAt :: "string \<Rightarrow> nat \<Rightarrow> nat \<Rightarrow> string" where
  "readAt r n start = take n (drop start r)"

lemma readAt_nth: "i < n \<Longrightarrow> start + i < length r \<Longrightarrow> readAt r n start ! i = r ! (start + i)"
  by (simp add: readAt_def)

section \<open>The last line\<close>

fun findInner :: "string \<Rightarrow> nat \<Rightarrow> bool \<Rightarrow> nat option \<times> bool" where
  "findInner buf 0 saw = (None, saw)"
| "findInner buf (Suc i) saw =
     (if buf ! i \<noteq> NL then findInner buf i saw
      else if \<not> saw then findInner buf i True
      else (Some i, saw))"

function findLoop :: "nat \<Rightarrow> string \<Rightarrow> nat \<Rightarrow> bool \<Rightarrow> nat" where
  "findLoop ps r pos saw =
     (if pos = 0 then 0
      else let start = pos - tailChunkSize ps; n = pos - start
           in case findInner (readAt r n start) n saw of
                (Some i, _) \<Rightarrow> start + i + 1
              | (None, saw') \<Rightarrow> findLoop ps r start saw')"
  by pat_completeness auto
termination by (relation "measure (\<lambda>(ps, r, pos, saw). pos)") auto

declare findLoop.simps [simp del]

definition FindLastLine :: "nat \<Rightarrow> string \<Rightarrow> int \<Rightarrow> LogErr + nat" where
  "FindLastLine ps r sz =
     (if sz < 0 then Inl (ErrNegativeSize sz)
      else if sz = 0 then Inr 0
      else Inr (findLoop ps r (nat sz) False))"

section \<open>Skipping lines\<close>

fun lastIndexByte :: "string \<Rightarrow> nat \<Rightarrow> nat option" where
  "lastIndexByte buf 0 = None"
| "lastIndexByte buf (Suc i) = (if buf ! i = NL then Some i else lastIndexByte buf i)"

function snapLoop :: "nat \<Rightarrow> string \<Rightarrow> nat \<Rightarrow> nat" where
  "snapLoop ps r pos =
     (if pos = 0 then 0
      else let start = pos - tailChunkSize ps; n = pos - start
           in case lastIndexByte (readAt r n start) n of
                Some i \<Rightarrow> start + i + 1
              | None \<Rightarrow> snapLoop ps r start)"
  by pat_completeness auto
termination by (relation "measure (\<lambda>(ps, r, pos). pos)") auto

declare snapLoop.simps [simp del]

definition snapLineStart :: "nat \<Rightarrow> string \<Rightarrow> nat \<Rightarrow> nat" where
  "snapLineStart ps r offset = (if offset = 0 then 0 else snapLoop ps r offset)"

text \<open>The scans of one chunk: the index found, or the number of lines still to skip.\<close>

fun backInner :: "string \<Rightarrow> nat \<Rightarrow> int \<Rightarrow> nat option \<times> int" where
  "backInner buf 0 lines = (None, lines)"
| "backInner buf (Suc i) lines =
     (if buf ! i \<noteq> NL then backInner buf i lines
      else if lines - 1 = 0 then (Some i, 0)
      else backInner buf i (lines - 1))"

function backLoop :: "nat \<Rightarrow> string \<Rightarrow> nat \<Rightarrow> int \<Rightarrow> nat" where
  "backLoop ps r pos lines =
     (if pos = 0 then 0
      else let start = pos - tailChunkSize ps; n = pos - start
           in case backInner (readAt r n start) n lines of
                (Some i, _) \<Rightarrow> start + i + 1
              | (None, lines') \<Rightarrow> backLoop ps r start lines')"
  by pat_completeness auto
termination by (relation "measure (\<lambda>(ps, r, pos, lines). pos)") auto

declare backLoop.simps [simp del]

definition skipLinesBackward :: "nat \<Rightarrow> string \<Rightarrow> nat \<Rightarrow> int \<Rightarrow> nat" where
  "skipLinesBackward ps r offset lines = (if offset = 0 then 0 else backLoop ps r (offset - 1) lines)"

fun forwardInner :: "string \<Rightarrow> int \<Rightarrow> nat option \<times> int" where
  "forwardInner [] lines = (None, lines)"
| "forwardInner (b # bs) lines =
     (if b \<noteq> NL then (case forwardInner bs lines of (x, l) \<Rightarrow> (map_option Suc x, l))
      else if lines - 1 = 0 then (Some 0, 0)
      else (case forwardInner bs (lines - 1) of (x, l) \<Rightarrow> (map_option Suc x, l)))"

function forwardLoop :: "nat \<Rightarrow> string \<Rightarrow> nat \<Rightarrow> nat \<Rightarrow> int \<Rightarrow> nat" where
  "forwardLoop ps r sz pos lines =
     (if pos \<ge> sz then sz
      else let n = min (tailChunkSize ps) (sz - pos)
           in case forwardInner (readAt r n pos) lines of
                (Some i, _) \<Rightarrow> pos + i + 1
              | (None, lines') \<Rightarrow> forwardLoop ps r sz (pos + n) lines')"
  by pat_completeness auto
termination
proof (relation "measure (\<lambda>(ps, r, sz, pos, lines). sz - pos)")
  fix ps and sz pos :: nat
  assume "\<not> sz \<le> pos"
  then have "sz - (pos + min (tailChunkSize ps) (sz - pos)) < sz - pos" using chunk_pos(1) [of ps] by linarith
  then show "((ps, r, sz, pos + x, y'), ps, r, sz, pos, lines) \<in> measure (\<lambda>(ps, r, sz, pos, lines). sz - pos)"
    if "x = min (tailChunkSize ps) (sz - pos)" for r :: string and x and y' lines :: int using that by simp
qed simp_all

declare forwardLoop.simps [simp del]

definition SkipLines :: "nat \<Rightarrow> string \<Rightarrow> int \<Rightarrow> int \<Rightarrow> int \<Rightarrow> LogErr + nat" where
  "SkipLines ps r sz startOffset lines =
     (if sz < 0 then Inl (ErrNegativeSize sz)
      else let so = nat (min (max startOffset 0) sz);
               offset = snapLineStart ps r so
           in if lines = 0 then Inr offset
              else if lines > 0 then Inr (forwardLoop ps r (nat sz) offset lines)
              else Inr (skipLinesBackward ps r offset (- lines)))"

section \<open>Reference scans\<close>

text \<open>The position behind the \<open>n\<close>-th newline before \<open>pos\<close>, or the start of the file.\<close>

fun backTo :: "string \<Rightarrow> nat \<Rightarrow> int \<Rightarrow> nat" where
  "backTo r 0 n = 0"
| "backTo r (Suc p) n = (if r ! p = NL then (if n - 1 = 0 then Suc p else backTo r p (n - 1)) else backTo r p n)"

lemma backTo_le: "backTo r pos n \<le> pos"
  by (induction r pos n rule: backTo.induct) auto

lemma backInner_ref:
  assumes "\<And>j. j < i \<Longrightarrow> buf ! j = r ! (start + j)"
  shows "backTo r (start + i) n = (case backInner buf i n of (Some j, _) \<Rightarrow> start + j + 1 | (None, n') \<Rightarrow> backTo r start n')"
  using assms by (induction buf i n rule: backInner.induct) auto

lemma backLoop_ref: "pos \<le> length r \<Longrightarrow> backLoop ps r pos n = backTo r pos n"
proof (induction ps r pos n rule: backLoop.induct)
  case (1 ps r pos n)
  show ?case
  proof (cases "pos = 0")
    case False
    let ?start = "pos - tailChunkSize ps" and ?n = "pos - (pos - tailChunkSize ps)"
    have "backTo r (?start + ?n) n = (case backInner (readAt r ?n ?start) ?n n of (Some j, _) \<Rightarrow> ?start + j + 1 | (None, n') \<Rightarrow> backTo r ?start n')"
      using "1.prems" by (intro backInner_ref readAt_nth) auto
    moreover have "?start + ?n = pos" by simp
    ultimately show ?thesis using "1.IH" [OF False refl refl] "1.prems" False
      by (subst backLoop.simps) (auto simp: Let_def split: prod.splits option.splits)
  qed (simp add: backLoop.simps)
qed

lemma findInner_ref: "findInner buf i saw = (case backInner buf i (if saw then 1 else 2) of (x, n) \<Rightarrow> (x, n \<le> 1))"
  by (induction buf i saw rule: findInner.induct) (auto split: prod.splits)

lemma backInner_range: "1 \<le> n \<Longrightarrow> backInner buf i n = (None, n') \<Longrightarrow> 1 \<le> n' \<and> n' \<le> n"
  by (induction buf i n rule: backInner.induct) (auto split: if_splits)

lemma findLoop_ref: "findLoop ps r pos saw = backLoop ps r pos (if saw then 1 else 2)"
proof (induction ps r pos saw rule: findLoop.induct)
  case (1 ps r pos saw)
  show ?case
  proof (cases "pos = 0")
    case False
    let ?start = "pos - tailChunkSize ps" and ?n = "pos - (pos - tailChunkSize ps)" and ?k = "if saw then 1 else 2 :: int"
    obtain x k' where b: "backInner (readAt r ?n ?start) ?n ?k = (x, k')" by fastforce
    then have f: "findInner (readAt r ?n ?start) ?n saw = (x, k' \<le> 1)" by (simp add: findInner_ref)
    show ?thesis
    proof (cases x)
      case None
      then have "k' = (if k' \<le> 1 then 1 else 2)" using backInner_range [of ?k "readAt r ?n ?start" ?n k'] b by (auto split: if_splits)
      then show ?thesis using "1.IH" [OF False refl refl, of x "k' \<le> 1"] f b None False
        by (subst findLoop.simps, subst backLoop.simps) (simp add: Let_def)
    next
      case (Some i)
      then show ?thesis using f b False by (subst findLoop.simps, subst backLoop.simps) (simp add: Let_def)
    qed
  qed (simp add: findLoop.simps backLoop.simps)
qed

lemma lastIndexByte_ref: "lastIndexByte buf i = fst (backInner buf i 1)" "snd (backInner buf i 1) \<noteq> 1 \<Longrightarrow> lastIndexByte buf i \<noteq> None"
  by (induction buf i rule: lastIndexByte.induct) auto

lemma snapLoop_ref: "snapLoop ps r pos = backLoop ps r pos 1"
proof (induction ps r pos rule: snapLoop.induct)
  case (1 ps r pos)
  show ?case
  proof (cases "pos = 0")
    case False
    let ?start = "pos - tailChunkSize ps" and ?n = "pos - (pos - tailChunkSize ps)"
    obtain x k' where b: "backInner (readAt r ?n ?start) ?n 1 = (x, k')" by fastforce
    have l: "lastIndexByte (readAt r ?n ?start) ?n = x" "x = None \<Longrightarrow> k' = 1"
      using lastIndexByte_ref [of "readAt r ?n ?start" ?n] b by auto
    show ?thesis using "1.IH" [OF False refl refl] l b False
      by (subst snapLoop.simps, subst backLoop.simps) (auto simp: Let_def split: option.splits)
  qed (simp add: snapLoop.simps backLoop.simps)
qed

section \<open>Files of complete lines\<close>

definition terminated :: "string \<Rightarrow> bool" where
  "terminated e \<longleftrightarrow> (\<exists>body. e = body @ [NL] \<and> NL \<notin> set body)"

text \<open>The offset of line \<open>i\<close>.\<close>

definition lineStart :: "string list \<Rightarrow> nat \<Rightarrow> nat" where
  "lineStart es i = length (concat (take i es))"

lemma lineStart_0 [simp]: "lineStart es 0 = 0"
  by (simp add: lineStart_def)

lemma lineStart_le: "lineStart es i \<le> length (concat es)"
proof -
  have "length (concat es) = length (concat (take i es)) + length (concat (drop i es))"
    by (metis append_take_drop_id concat_append length_append)
  then show ?thesis by (simp add: lineStart_def)
qed

lemma lineStart_Suc: "i < length es \<Longrightarrow> lineStart es (Suc i) = lineStart es i + length (es ! i)"
  by (simp add: lineStart_def take_Suc_conv_app_nth)

lemma concat_at: "i < length es \<Longrightarrow> drop (lineStart es i) (concat es) = es ! i @ concat (drop (Suc i) es)"
proof -
  assume i: "i < length es"
  have "concat es = concat (take i es) @ concat (drop i es)" by (metis append_take_drop_id concat_append)
  then show ?thesis using i by (simp add: lineStart_def Cons_nth_drop_Suc [symmetric])
qed

lemma backTo_body:
  assumes "\<And>j. j < k \<Longrightarrow> r ! (p + j) \<noteq> NL"
  shows "backTo r (p + k) n = backTo r p n"
  using assms by (induction k) auto

text \<open>One line back.\<close>

lemma backTo_line:
  assumes "i < length es" "list_all terminated es"
  shows "backTo (concat es) (lineStart es (Suc i)) n = (if n - 1 = 0 then lineStart es (Suc i) else backTo (concat es) (lineStart es i) (n - 1))"
proof -
  have "terminated (es ! i)" using assms by (simp add: list_all_length)
  then obtain body where b: "es ! i = body @ [NL]" "NL \<notin> set body" by (auto simp: terminated_def)
  let ?r = "concat es" and ?p = "lineStart es i"
  have d: "drop ?p ?r = body @ NL # concat (drop (Suc i) es)" using concat_at [OF assms(1)] b by simp
  have nth: "?r ! (?p + j) = (body @ NL # concat (drop (Suc i) es)) ! j" for j
    unfolding d [symmetric] using lineStart_le [of es i] by simp
  have "?r ! (?p + length body) = NL" unfolding nth by simp
  moreover have "backTo ?r (?p + length body) m = backTo ?r ?p m" for m
    using b(2) by (intro backTo_body) (simp add: nth nth_append, metis nth_mem)
  ultimately show ?thesis using b(1) assms(1) by (simp add: lineStart_Suc)
qed

lemma backTo_lines:
  assumes "list_all terminated es" "i \<le> length es" "1 \<le> n"
  shows "backTo (concat es) (lineStart es i) n = lineStart es (i + 1 - nat n)"
  using assms(2,3)
proof (induction i arbitrary: n)
  case (Suc i)
  show ?case
  proof (cases "n = 1")
    case False
    then have "backTo (concat es) (lineStart es (Suc i)) n = lineStart es (i + 1 - nat (n - 1))"
      using Suc.prems Suc.IH [of "n - 1"] backTo_line [OF _ assms(1), of i n] by simp
    then show ?thesis using False Suc.prems by (simp add: nat_diff_distrib)
  qed (use Suc.prems backTo_line [OF _ assms(1), of i 1] in simp)
qed simp

text \<open>Forwards: the bytes up to and including the \<open>n\<close>-th newline.\<close>

fun forwardTo :: "string \<Rightarrow> int \<Rightarrow> nat" where
  "forwardTo [] n = 0"
| "forwardTo (b # bs) n = (if b \<noteq> NL then Suc (forwardTo bs n) else if n - 1 = 0 then 1 else Suc (forwardTo bs (n - 1)))"

lemma forwardInner_ref:
  "forwardTo (xs @ ys) n = (case forwardInner xs n of (Some i, _) \<Rightarrow> i + 1 | (None, n') \<Rightarrow> length xs + forwardTo ys n')"
  by (induction xs n rule: forwardInner.induct) (auto split: prod.splits option.splits)

lemma forwardLoop_ref:
  "sz \<le> length r \<Longrightarrow> pos \<le> sz \<Longrightarrow> forwardLoop ps r sz pos n = pos + forwardTo (take (sz - pos) (drop pos r)) n"
proof (induction ps r sz pos n rule: forwardLoop.induct)
  case (1 ps r sz pos n)
  show ?case
  proof (cases "pos \<ge> sz")
    case False
    let ?n = "min (tailChunkSize ps) (sz - pos)"
    have tk: "take (sz - pos) (drop pos r) = readAt r ?n pos @ take (sz - (pos + ?n)) (drop (pos + ?n) r)"
    proof -
      have "take (?n + (sz - pos - ?n)) (drop pos r) = take ?n (drop pos r) @ take (sz - pos - ?n) (drop ?n (drop pos r))" by (rule take_add)
      moreover have "?n + (sz - pos - ?n) = sz - pos" by simp
      ultimately show ?thesis by (simp add: readAt_def add.commute)
    qed
    have len: "length (readAt r ?n pos) = ?n" using "1.prems" by (simp add: readAt_def)
    obtain x n' where f: "forwardInner (readAt r ?n pos) n = (x, n')" by fastforce
    have fr: "forwardTo (take (sz - pos) (drop pos r)) n =
        (case x of Some i \<Rightarrow> i + 1 | None \<Rightarrow> ?n + forwardTo (take (sz - (pos + ?n)) (drop (pos + ?n) r)) n')"
      unfolding tk forwardInner_ref f len by simp
    show ?thesis
    proof (cases x)
      case None
      have "forwardLoop ps r sz (pos + ?n) n' = pos + ?n + forwardTo (take (sz - (pos + ?n)) (drop (pos + ?n) r)) n'"
        using "1.IH" [OF False refl f [symmetric] None] "1.prems" False by simp
      moreover have "forwardLoop ps r sz pos n = forwardLoop ps r sz (pos + ?n) n'"
        using f None False by (subst forwardLoop.simps) (simp add: Let_def)
      ultimately show ?thesis unfolding fr None by simp
    next
      case (Some i)
      then show ?thesis unfolding fr using f False by (subst forwardLoop.simps) (simp add: Let_def)
    qed
  qed (use "1.prems" in \<open>simp add: forwardLoop.simps\<close>)
qed

lemma forwardTo_line:
  assumes "terminated e"
  shows "forwardTo (e @ s) n = (if n - 1 = 0 then length e else length e + forwardTo s (n - 1))"
proof -
  obtain body where b: "e = body @ [NL]" "NL \<notin> set body" using assms by (auto simp: terminated_def)
  have "forwardTo (body @ NL # s) n = length body + forwardTo (NL # s) n" using b(2) by (induction body) auto
  then show ?thesis unfolding b(1) by simp
qed

lemma forwardTo_lines: "list_all terminated es \<Longrightarrow> 1 \<le> n \<Longrightarrow> forwardTo (concat es) n = lineStart es (nat n)"
proof (induction es arbitrary: n)
  case (Cons e es)
  have "nat n = Suc (nat (n - 1))" using Cons.prems by simp
  then have l: "lineStart (e # es) (nat n) = length e + lineStart es (nat (n - 1))" by (simp add: lineStart_def del: nat_diff_distrib')
  show ?case
  proof (cases "n = 1")
    case False
    then show ?thesis using Cons.IH [of "n - 1"] Cons.prems l by (simp add: forwardTo_line)
  qed (use Cons.prems l in \<open>simp add: forwardTo_line lineStart_def\<close>)
qed (simp add: lineStart_def)

section \<open>Exactness\<close>

lemma FindLastLine_exact:
  assumes "list_all terminated es"
  shows "FindLastLine ps (concat es) (int (length (concat es))) = Inr (lineStart es (length es - 1))"
proof -
  have "lineStart es (length es) = length (concat es)" by (simp add: lineStart_def)
  then have "backTo (concat es) (length (concat es)) 2 = lineStart es (length es - 1)"
    using backTo_lines [OF assms, of "length es" 2] by (simp add: numeral_2_eq_2)
  moreover have "lineStart es (length es - 1) = 0" if "length (concat es) = 0"
    using that lineStart_le [of es "length es - 1"] by linarith
  ultimately show ?thesis by (simp add: FindLastLine_def findLoop_ref backLoop_ref)
qed

lemma snap_exact:
  assumes "list_all terminated es" "i \<le> length es"
  shows "snapLineStart ps (concat es) (lineStart es i) = lineStart es i"
  using backTo_lines [OF assms, of 1] lineStart_le [of es i] by (simp add: snapLineStart_def snapLoop_ref backLoop_ref)

lemma backward_exact:
  assumes "list_all terminated es" "i \<le> length es" "1 \<le> n"
  shows "skipLinesBackward ps (concat es) (lineStart es i) n = lineStart es (i - nat n)"
proof (cases i)
  case (Suc k)
  have "terminated (es ! k)" using assms(1,2) Suc by (simp add: list_all_length)
  then obtain body where b: "es ! k = body @ [NL]" by (auto simp: terminated_def)
  have d: "drop (lineStart es k) (concat es) = body @ NL # concat (drop (Suc k) es)" using concat_at [of k es] b assms(2) Suc by simp
  have s: "lineStart es i = Suc (lineStart es k + length body)" using Suc assms(2) b by (simp add: lineStart_Suc)
  have "concat es ! (lineStart es k + length body) = drop (lineStart es k) (concat es) ! length body" using lineStart_le [of es k] by simp
  then have nl: "concat es ! (lineStart es k + length body) = NL" unfolding d by simp
  have "backTo (concat es) (lineStart es i) (n + 1) = backTo (concat es) (lineStart es k + length body) n"
    unfolding s using nl assms(3) by simp
  then have "backTo (concat es) (lineStart es k + length body) n = lineStart es (i - nat n)"
    using backTo_lines [OF assms(1,2), of "n + 1"] assms(3) by (simp add: nat_add_distrib)
  moreover have "lineStart es k + length body \<le> length (concat es)" using lineStart_le [of es i] s by simp
  ultimately show ?thesis unfolding skipLinesBackward_def s by (simp add: backLoop_ref)
qed (simp add: skipLinesBackward_def)

lemma forward_exact:
  assumes "list_all terminated es" "i \<le> length es" "1 \<le> n"
  shows "forwardLoop ps (concat es) (length (concat es)) (lineStart es i) n = lineStart es (i + nat n)"
proof -
  have "concat es = concat (take i es) @ concat (drop i es)" by (metis append_take_drop_id concat_append)
  then have d: "drop (lineStart es i) (concat es) = concat (drop i es)" by (simp add: lineStart_def)
  have t: "list_all terminated (drop i es)" using assms(1) by (metis append_take_drop_id list_all_append)
  have "lineStart es (i + nat n) = lineStart es i + lineStart (drop i es) (nat n)" by (simp add: lineStart_def take_add)
  moreover have "take (length (concat es) - lineStart es i) (concat (drop i es)) = concat (drop i es)" unfolding d [symmetric] by simp
  ultimately show ?thesis using forwardTo_lines [OF t assms(3)] lineStart_le [of es i] d by (simp add: forwardLoop_ref)
qed

text \<open>C36: In a file of complete lines, whatever the page size, moving by \<open>n\<close> lines from the
  start of line \<open>i\<close> gives the start of line \<open>i + n\<close>, clamped to the file, and the last line
  found is the last line of the file.\<close>

theorem SkipLines_exact:
  assumes "list_all terminated es" "i \<le> length es"
  shows "SkipLines ps (concat es) (int (length (concat es))) (int (lineStart es i)) n = Inr (lineStart es (nat (int i + n)))
    \<and> FindLastLine ps (concat es) (int (length (concat es))) = Inr (lineStart es (length es - 1))"
proof -
  have so: "nat (min (max (int (lineStart es i)) 0) (int (length (concat es)))) = lineStart es i"
    using lineStart_le [of es i] by simp
  consider "n = 0" | "1 \<le> n" | "1 \<le> - n" by linarith
  then have "SkipLines ps (concat es) (int (length (concat es))) (int (lineStart es i)) n = Inr (lineStart es (nat (int i + n)))"
  proof cases
    case 2
    then have "nat (int i + n) = i + nat n" by simp
    with 2 show ?thesis using forward_exact [OF assms 2] snap_exact [OF assms] so by (simp add: SkipLines_def Let_def)
  next
    case 3
    then have "nat (int i + n) = i - nat (- n)" by simp
    with 3 show ?thesis using backward_exact [OF assms 3] snap_exact [OF assms] so by (simp add: SkipLines_def Let_def)
  qed (use snap_exact [OF assms] so in \<open>simp add: SkipLines_def Let_def\<close>)
  then show ?thesis using FindLastLine_exact [OF assms(1)] by blast
qed

text \<open>Three lines read with pages of one byte.\<close>

theorem SkipLines_exact_witness:
  "SkipLines 1 (concat [''ab'' @ [NL], [NL], ''c'' @ [NL]]) 6 4 (- 1) = Inr 3 \<and>
   FindLastLine 1 (concat [''ab'' @ [NL], [NL], ''c'' @ [NL]]) 6 = Inr 4"
proof -
  have t: "list_all terminated [''ab'' @ [NL], [NL], ''c'' @ [NL]]" by (auto simp: terminated_def)
  show ?thesis using SkipLines_exact [OF t, of 2 1 "- 1"] by (simp add: lineStart_def numeral_2_eq_2)
qed

end
