(* ===== verification/Log_Reader.thy ===== *)
theory Log_Reader
  imports Log_Tail
begin

text \<open>
  The reading side of the k8s-file log driver (cmdman/logdriver/k8sfile/parse.go,
  discover.go and reader.go, and the options of cmdman/logdriver/options.go): an entry is
  parsed, the files of a log are opened oldest first, the part of each to read is selected,
  and the records are sent in order. A reader works on the contents the files have when it
  opens them; it is not cancelled, and following a growing file is not modelled.
\<close>

section \<open>Entries\<close>

definition zeroLine :: LogLine where
  "zeroLine = \<lparr> lTime = zeroTime, lStream = [], lPartial = False, lLine = [] \<rparr>"

definition trimRightNL :: "string \<Rightarrow> string" where
  "trimRightNL s = rev (dropWhile (\<lambda>c. c = NL) (rev s))"

definition parseEntry :: "string \<Rightarrow> LogErr + LogLine \<times> bool" where
  "parseEntry entry =
     (case indexByte SP entry of None \<Rightarrow> Inl (ErrMalformed entry)
      | Some sp1 \<Rightarrow> case indexByte SP (drop (sp1 + 1) entry) of None \<Rightarrow> Inl (ErrMalformed entry)
      | Some sp2' \<Rightarrow> let sp2 = sp2' + sp1 + 1
      in case indexByte SP (drop (sp2 + 1) entry) of None \<Rightarrow> Inl (ErrMalformed entry)
      | Some sp3' \<Rightarrow> let sp3 = sp3' + sp2 + 1
      in case Parse (take sp1 entry) of None \<Rightarrow> Inl (ErrTimestamp (take sp1 entry))
      | Some ts \<Rightarrow>
          let stream = drop (sp1 + 1) (take sp2 entry);
              tag = drop (sp2 + 1) (take sp3 entry);
              content = drop (sp3 + 1) entry;
              partial = (tag = tagPartial)
          in if partial then Inr (\<lparr> lTime = ts, lStream = stream, lPartial = partial, lLine = trimRightNL content \<rparr>, False)
             else if tag = tagFull then Inr (\<lparr> lTime = ts, lStream = stream, lPartial = partial, lLine = content \<rparr>, False)
             else if tag = tagRotation then Inr (zeroLine, True)
             else Inl (ErrTag entry tag))"

text \<open>\<^verbatim>\<open>bufio.Reader.ReadBytes\<close> of newlines, repeated to the end of the file; the last entry may
  lack its newline.\<close>

fun splitEntries :: "string \<Rightarrow> string list" where
  "splitEntries [] = []"
| "splitEntries (c # s) =
     (if c = NL then [c] # splitEntries s
      else case splitEntries s of [] \<Rightarrow> [[c]] | e # es \<Rightarrow> (c # e) # es)"

definition readEntryAt :: "string \<Rightarrow> nat \<Rightarrow> string" where
  "readEntryAt r offset =
     (case indexByte NL (drop offset r) of None \<Rightarrow> [] | Some n \<Rightarrow> take (n + 1) (drop offset r))"

section \<open>Spans\<close>

record fileSpan =
  fPath :: nat
  fFile :: string
  fHeadTime :: Time
  fTailTime :: Time
  fEmpty :: bool

definition openSpan :: "logFiles \<Rightarrow> nat \<Rightarrow> LogErr + fileSpan" where
  "openSpan fs i =
     (case fs i of None \<Rightarrow> Inl (ErrNotExist i)
      | Some c \<Rightarrow> Inr \<lparr> fPath = i, fFile = c, fHeadTime = zeroTime, fTailTime = zeroTime, fEmpty = False \<rparr>)"

fun firstUserLine :: "string list \<Rightarrow> LogErr + Time option" where
  "firstUserLine [] = Inr None"
| "firstUserLine (e # es) =
     (case parseEntry e of
        Inl err \<Rightarrow> Inl err
      | Inr (l, isRotation) \<Rightarrow> if isRotation then firstUserLine es else Inr (Some (lTime l)))"

definition readFirstUserLine :: "string \<Rightarrow> LogErr + Time option" where
  "readFirstUserLine r = firstUserLine (splitEntries r)"

lemma backInner_index: "backInner buf i n = (Some j, k) \<Longrightarrow> j < i"
  by (induction buf i n rule: backInner.induct) (auto split: if_splits)

lemma backLoop_le: "backLoop ps r pos n \<le> pos"
proof (induction ps r pos n rule: backLoop.induct)
  case (1 ps r pos n)
  let ?start = "pos - tailChunkSize ps" and ?n = "pos - (pos - tailChunkSize ps)"
  show ?case
  proof (cases "pos = 0")
    case False
    obtain x k where b: "backInner (readAt r ?n ?start) ?n n = (x, k)" by fastforce
    show ?thesis
    proof (cases x)
      case None
      have "backLoop ps r ?start k \<le> ?start" using "1.IH" [OF False refl refl b [symmetric] None] .
      then show ?thesis using b None False by (subst backLoop.simps) (simp add: Let_def)
    next
      case (Some i)
      have "i < ?n" using backInner_index b Some by metis
      then show ?thesis using b Some False by (subst backLoop.simps) (simp add: Let_def)
    qed
  qed (simp add: backLoop.simps)
qed

lemma skip_back_le: "SkipLines ps r sz (int offset) (- 1) = Inr n \<Longrightarrow> n \<le> offset"
proof -
  assume s: "SkipLines ps r sz (int offset) (- 1) = Inr n"
  let ?so = "nat (min (int offset) sz)"
  have snap: "snapLineStart ps r ?so \<le> ?so" using backLoop_le [of ps r ?so 1] by (simp add: snapLineStart_def snapLoop_ref)
  have "n = skipLinesBackward ps r (snapLineStart ps r ?so) 1" using s by (auto simp: SkipLines_def Let_def split: if_splits)
  moreover have "skipLinesBackward ps r k 1 \<le> k" for k
    using le_trans [OF backLoop_le [of ps r "k - 1" 1] diff_le_self] by (simp add: skipLinesBackward_def)
  ultimately have "n \<le> snapLineStart ps r ?so" by simp
  with snap show "n \<le> offset" by linarith
qed

text \<open>Both loops that look for the last line of the user walk backwards over rotation
  markers: \<^verbatim>\<open>readLastUserLine\<close> returns its time, \<^verbatim>\<open>lastUserLineOffset\<close> its offset.\<close>

function lastUserLoop :: "nat \<Rightarrow> string \<Rightarrow> int \<Rightarrow> nat \<Rightarrow> LogErr + (nat \<times> LogLine) option" where
  "lastUserLoop ps r sz offset =
     (let entry = readEntryAt r offset
      in if entry = [] then Inr None
         else case parseEntry entry of
                Inl err \<Rightarrow> Inl err
              | Inr (l, isRotation) \<Rightarrow>
                  if \<not> isRotation then Inr (Some (offset, l))
                  else if offset = 0 then Inr None
                  else case SkipLines ps r sz (int offset) (- 1) of
                         Inl err \<Rightarrow> Inl err
                       | Inr next_off \<Rightarrow> if next_off = offset then Inr None else lastUserLoop ps r sz next_off)"
  by pat_completeness auto
termination
  by (relation "measure (\<lambda>(ps, r, sz, offset). offset)") (auto dest!: skip_back_le)

declare lastUserLoop.simps [simp del]

definition readLastUserLine :: "nat \<Rightarrow> string \<Rightarrow> LogErr + Time option" where
  "readLastUserLine ps r =
     bindE (FindLastLine ps r (int (length r))) (\<lambda>offset.
     bindE (lastUserLoop ps r (int (length r)) offset) (\<lambda>x. Inr (map_option (\<lambda>(_, l). lTime l) x)))"

definition lastUserLineOffset :: "nat \<Rightarrow> string \<Rightarrow> LogErr + nat option" where
  "lastUserLineOffset ps r =
     bindE (FindLastLine ps r (int (length r))) (\<lambda>offset.
     bindE (lastUserLoop ps r (int (length r)) offset) (\<lambda>x. Inr (map_option fst x)))"

definition fillSpanTimes :: "nat \<Rightarrow> fileSpan \<Rightarrow> LogErr + fileSpan" where
  "fillSpanTimes ps span =
     (if fFile span = [] then Inr (span\<lparr> fEmpty := True \<rparr>)
      else bindE (readFirstUserLine (fFile span)) (\<lambda>head.
        case head of None \<Rightarrow> Inr (span\<lparr> fEmpty := True \<rparr>)
        | Some h \<Rightarrow> bindE (readLastUserLine ps (fFile span)) (\<lambda>tail.
            case tail of None \<Rightarrow> Inr (span\<lparr> fEmpty := True \<rparr>)
            | Some t \<Rightarrow> Inr (span\<lparr> fHeadTime := h, fTailTime := t \<rparr>))))"

text \<open>The archives from \<open>i\<close> on, at most \<open>n\<close> of them, up to the first that is missing.\<close>

fun openArchives :: "logFiles \<Rightarrow> nat \<Rightarrow> nat \<Rightarrow> fileSpan list" where
  "openArchives fs i 0 = []"
| "openArchives fs i (Suc n) = (case openSpan fs i of Inl _ \<Rightarrow> [] | Inr span \<Rightarrow> span # openArchives fs (Suc i) n)"

definition discoverFiles :: "nat \<Rightarrow> logFiles \<Rightarrow> int \<Rightarrow> LogErr + fileSpan list" where
  "discoverFiles ps fs maxFile =
     bindE (openSpan fs 0) (\<lambda>active.
     bindE (map_err (fillSpanTimes ps) (active # openArchives fs 1 (nat (maxFile - 1)))) (\<lambda>spans. Inr (rev spans)))"

section \<open>Selecting what to read\<close>

text \<open>An offset of this driver, with the number of its file, or of another one.\<close>

datatype startOff = NoOffset | Offset "nat option" int | ForeignOffset

record ReaderOption =
  roFollow :: bool
  roSince :: Time
  roUntil :: Time
  roHead :: int
  roTail :: int
  roStartOffset :: startOff

datatype OptionErr = ErrHeadAndTail | ErrFollowUntil | ErrSinceAfterUntil

definition ReaderOption_Validate :: "ReaderOption \<Rightarrow> OptionErr + unit" where
  "ReaderOption_Validate ro =
     (if roHead ro > 0 \<and> roTail ro > 0 then Inl ErrHeadAndTail
      else if roFollow ro \<and> \<not> IsZero (roUntil ro) then Inl ErrFollowUntil
      else if \<not> IsZero (roSince ro) \<and> \<not> IsZero (roUntil ro) \<and> After (roSince ro) (roUntil ro) then Inl ErrSinceAfterUntil
      else Inr ())"

record readSpan =
  rSpan :: fileSpan
  rStart :: nat
  rEnd :: nat

definition wholeSpan :: "fileSpan \<Rightarrow> readSpan" where
  "wholeSpan s = \<lparr> rSpan = s, rStart = 0, rEnd = 0 \<rparr>"

definition startOffset :: "ReaderOption \<Rightarrow> LogErr + (nat \<times> nat) option" where
  "startOffset ro =
     (case roStartOffset ro of
        NoOffset \<Rightarrow> Inr None
      | ForeignOffset \<Rightarrow> Inl ErrOffsetType
      | Offset path bytes \<Rightarrow> (case path of None \<Rightarrow> Inr None | Some p \<Rightarrow> if bytes \<le> 0 then Inr None else Inr (Some (p, nat bytes))))"

fun selectSpansFrom :: "fileSpan list \<Rightarrow> nat \<times> nat \<Rightarrow> readSpan list option" where
  "selectSpansFrom [] off = None"
| "selectSpansFrom (span # spans) off =
     (if fPath span \<noteq> fst off then selectSpansFrom spans off
      else if length (fFile span) < snd off then None
      else Some ((wholeSpan span)\<lparr> rStart := snd off \<rparr> # map wholeSpan spans))"

fun countEntries :: "string list \<Rightarrow> LogErr + int" where
  "countEntries [] = Inr 0"
| "countEntries (e # es) =
     (case parseEntry e of
        Inl err \<Rightarrow> Inl err
      | Inr (_, isRotation) \<Rightarrow> if isRotation then Inr 0 else bindE (countEntries es) (\<lambda>n. Inr (n + 1)))"

definition countUserLines :: "string \<Rightarrow> nat \<Rightarrow> LogErr + int" where
  "countUserLines r offset = countEntries (splitEntries (drop offset r))"

text \<open>The loop of \<^verbatim>\<open>selectTailSpans\<close>, over the spans newest first; the result is oldest first.\<close>

fun tailSpans :: "nat \<Rightarrow> fileSpan list \<Rightarrow> int \<Rightarrow> readSpan list \<Rightarrow> LogErr + readSpan list" where
  "tailSpans ps [] remaining selected = Inr selected"
| "tailSpans ps (span # spans) remaining selected =
     (if remaining \<le> 0 then Inr selected
      else if fEmpty span then tailSpans ps spans remaining selected
      else bindE (lastUserLineOffset ps (fFile span)) (\<lambda>lastOffset.
        case lastOffset of None \<Rightarrow> tailSpans ps spans remaining selected
        | Some lo \<Rightarrow>
            bindE (if remaining > 1 then SkipLines ps (fFile span) (int (length (fFile span))) (int lo) (- (remaining - 1)) else Inr lo) (\<lambda>start.
            bindE (countUserLines (fFile span) start) (\<lambda>n.
              if n = 0 then tailSpans ps spans remaining selected
              else tailSpans ps spans (remaining - min n remaining) ((wholeSpan span)\<lparr> rStart := start \<rparr> # selected)))))"

definition selectTailSpans :: "nat \<Rightarrow> fileSpan list \<Rightarrow> int \<Rightarrow> LogErr + readSpan list" where
  "selectTailSpans ps spans tail = (if tail \<le> 0 then Inr [] else tailSpans ps (rev spans) tail [])"

definition selectReadSpans :: "nat \<Rightarrow> fileSpan list \<Rightarrow> ReaderOption \<Rightarrow> LogErr + readSpan list" where
  "selectReadSpans ps spans ro =
     bindE (startOffset ro) (\<lambda>from.
     case (case from of None \<Rightarrow> None | Some off \<Rightarrow> selectSpansFrom spans off) of
       Some selected \<Rightarrow> Inr selected
     | None \<Rightarrow>
         if roTail ro > 0 then selectTailSpans ps spans (roTail ro)
         else let rest = (if IsZero (roSince ro) then spans
                          else dropWhile (\<lambda>s. fEmpty s \<or> Before (fTailTime s) (roSince ro)) spans)
              in if rest = [] then
                   (if roFollow ro \<and> spans \<noteq> [] then Inr [(wholeSpan (last spans))\<lparr> rStart := length (fFile (last spans)) \<rparr>] else Inr [])
                 else Inr (map wholeSpan rest))"

section \<open>Reading\<close>

datatype Record = RecErr LogErr | RecLine LogLine "nat \<times> nat"

definition skipLine :: "ReaderOption \<Rightarrow> LogLine \<Rightarrow> bool" where
  "skipLine ro l \<longleftrightarrow> \<not> IsZero (roSince ro) \<and> Before (lTime l) (roSince ro)"

definition afterUntil :: "ReaderOption \<Rightarrow> LogLine \<Rightarrow> bool" where
  "afterUntil ro l \<longleftrightarrow> \<not> IsZero (roUntil ro) \<and> After (lTime l) (roUntil ro)"

text \<open>The records of a span, the number sent so far, and the two results of \<^verbatim>\<open>scanSpan\<close>:
  whether the read is done and whether it is still sound.\<close>

fun scanEntries :: "ReaderOption \<Rightarrow> nat \<Rightarrow> nat \<Rightarrow> string list \<Rightarrow> nat \<Rightarrow> int \<Rightarrow> Record list \<times> int \<times> bool \<times> bool" where
  "scanEntries ro path end_off [] offset sent = ([], sent, False, True)"
| "scanEntries ro path end_off (e # es) offset sent =
     (let offset' = offset + length e
      in if end_off > 0 \<and> offset' > end_off then ([], sent, True, True)
         else case parseEntry e of
                Inl err \<Rightarrow> ([RecErr err], sent, False, False)
              | Inr (l, isRotation) \<Rightarrow>
                  if isRotation then ([], sent, False, True)
                  else if skipLine ro l then scanEntries ro path end_off es offset' sent
                  else if afterUntil ro l then ([], sent, True, True)
                  else if roHead ro > 0 \<and> sent + 1 \<ge> roHead ro then ([RecLine l (path, offset')], sent + 1, True, True)
                  else case scanEntries ro path end_off es offset' (sent + 1) of
                         (recs, r) \<Rightarrow> (RecLine l (path, offset') # recs, r))"

definition scanSpan :: "ReaderOption \<Rightarrow> readSpan \<Rightarrow> int \<Rightarrow> Record list \<times> int \<times> bool \<times> bool" where
  "scanSpan ro span sent =
     scanEntries ro (fPath (rSpan span)) (rEnd span) (splitEntries (drop (rStart span) (fFile (rSpan span)))) (rStart span) sent"

fun runSpans :: "ReaderOption \<Rightarrow> readSpan list \<Rightarrow> int \<Rightarrow> Record list" where
  "runSpans ro [] sent = []"
| "runSpans ro (span # spans) sent =
     (case scanSpan ro span sent of (recs, sent', isdone, ok) \<Rightarrow>
        if \<not> ok \<or> isdone then recs else recs @ runSpans ro spans sent')"

text \<open>\<^verbatim>\<open>newReader\<close> and its goroutine, on the files of one log.\<close>

definition readLog :: "nat \<Rightarrow> logFiles \<Rightarrow> int \<Rightarrow> ReaderOption \<Rightarrow> LogErr + Record list" where
  "readLog ps fs maxFile ro =
     bindE (discoverFiles ps fs maxFile) (\<lambda>spans.
     bindE (selectReadSpans ps spans ro) (\<lambda>rs. Inr (runSpans ro rs 0)))"

section \<open>Reading what was written\<close>

definition line_ok :: "LogLine \<Rightarrow> bool" where
  "line_ok l \<longleftrightarrow> time_ok (lTime l) \<and> SP \<notin> set (lStream l) \<and> NL \<notin> set (lStream l) \<and>
     (if lPartial l then NL \<notin> set (lLine l) else terminated (lLine l))"

lemma parse_split:
  assumes "SP \<notin> set a" "SP \<notin> set b" "SP \<notin> set tg"
  shows "parseEntry (a @ SP # b @ SP # tg @ SP # c) =
    (case Parse a of None \<Rightarrow> Inl (ErrTimestamp a)
     | Some ts \<Rightarrow>
         if tg = tagPartial then Inr (\<lparr> lTime = ts, lStream = b, lPartial = True, lLine = trimRightNL c \<rparr>, False)
         else if tg = tagFull then Inr (\<lparr> lTime = ts, lStream = b, lPartial = False, lLine = c \<rparr>, False)
         else if tg = tagRotation then Inr (zeroLine, True)
         else Inl (ErrTag (a @ SP # b @ SP # tg @ SP # c) tg))"
proof -
  let ?e = "a @ SP # b @ SP # tg @ SP # c"
  have 1: "indexByte SP ?e = Some (length a)" using assms(1) by (rule indexByte_append)
  have 2: "indexByte SP (drop (length a + 1) ?e) = Some (length b)" using indexByte_append [OF assms(2)] by simp
  have 3: "indexByte SP (drop (length b + length a + 1 + 1) ?e) = Some (length tg)" using indexByte_append [OF assms(3)] by simp
  have 4: "drop (3 + (length tg + length b)) (SP # b @ SP # tg @ SP # c) = c" for tg by (simp add: numeral_3_eq_3)
  show ?thesis unfolding parseEntry_def using 4 by (cases "Parse a") (simp_all add: 1 2 [simplified] 3 [simplified] Let_def)
qed

lemma trimRight_partial: "NL \<notin> set s \<Longrightarrow> trimRightNL (s @ [NL]) = s"
  by (cases s rule: rev_cases) (auto simp: trimRightNL_def)

lemma parse_entryText:
  assumes "line_ok l"
  shows "parseEntry (entryText l) = Inr (l, False)"
proof -
  have tm: "SP \<notin> set (Format (lTime l))" "Parse (Format (lTime l)) = Some (lTime l)" "SP \<notin> set (lStream l)"
    using assms Format_plain [of SP] Parse_Format by (auto simp: line_ok_def)
  show ?thesis
  proof (cases "lPartial l")
    case True
    then have t: "trimRightNL (lLine l @ [NL]) = lLine l" using assms trimRight_partial by (simp add: line_ok_def)
    have e: "entryText l = Format (lTime l) @ SP # lStream l @ SP # tagPartial @ SP # (lLine l @ [NL])" using True by (simp add: entryText_def)
    show ?thesis unfolding e using parse_split [OF tm(1,3), of tagPartial "lLine l @ [NL]"] tm(2) t True by (simp add: tagPartial_def)
  next
    case False
    have e: "entryText l = Format (lTime l) @ SP # lStream l @ SP # tagFull @ SP # lLine l" using False by (simp add: entryText_def)
    show ?thesis unfolding e using parse_split [OF tm(1,3), of tagFull "lLine l"] tm(2) False by (simp add: tagFull_def tagPartial_def)
  qed
qed

lemma parse_marker:
  assumes "time_ok t"
  shows "parseEntry (markerText t) = Inr (zeroLine, True)"
proof -
  have e: "markerText t = Format t @ SP # ''stdout'' @ SP # tagRotation @ SP # (CHR ''-'' # [NL])" by (simp add: markerText_def tagRotation_def)
  show ?thesis unfolding e using parse_split [of "Format t" "''stdout''" tagRotation "CHR ''-'' # [NL]"] Format_plain [of SP t] Parse_Format [OF assms]
    by (auto simp: tagRotation_def tagPartial_def tagFull_def)
qed

lemma terminated_append: "NL \<notin> set a \<Longrightarrow> terminated b \<Longrightarrow> terminated (a @ b)"
  unfolding terminated_def by (metis append_assoc in_set_conv_decomp_first set_append Un_iff)

lemma Format_line: "NL \<notin> set (Format t)"
  using Format_plain by blast

lemma entry_terminated: "line_ok l \<Longrightarrow> terminated (entryText l)"
proof -
  assume l: "line_ok l"
  let ?h = "Format (lTime l) @ SP # lStream l @ SP # (if lPartial l then tagPartial else tagFull) @ [SP]"
  have h: "NL \<notin> set ?h" using l Format_line by (auto simp: line_ok_def tagPartial_def tagFull_def)
  have "terminated (lLine l @ (if lPartial l then [NL] else []))" using l by (auto simp: line_ok_def terminated_def)
  then have "terminated (?h @ lLine l @ (if lPartial l then [NL] else []))" by (rule terminated_append [OF h])
  then show ?thesis by (simp add: entryText_def)
qed

lemma marker_terminated: "terminated (markerText t)"
proof -
  have "NL \<notin> set (Format t @ '' stdout '' @ tagRotation @ '' -'')" using Format_line by (auto simp: tagRotation_def)
  then have "terminated ((Format t @ '' stdout '' @ tagRotation @ '' -'') @ [NL])" unfolding terminated_def by blast
  then show ?thesis by (simp add: markerText_def)
qed

lemma splitEntries_line: "terminated e \<Longrightarrow> splitEntries (e @ s) = e # splitEntries s"
proof -
  assume "terminated e"
  then obtain body where b: "e = body @ [NL]" "NL \<notin> set body" by (auto simp: terminated_def)
  have "splitEntries (body @ NL # s) = (body @ [NL]) # splitEntries s" using b(2) by (induction body) auto
  then show ?thesis using b(1) by simp
qed

lemma splitEntries_concat: "list_all terminated es \<Longrightarrow> splitEntries (concat es) = es"
  by (induction es) (simp_all add: splitEntries_line)

end
