(* ===== verification/Log_Roundtrip.thy ===== *)
theory Log_Roundtrip
  imports Log_Reader "HOL-Library.Sublist"
begin

text \<open>
  The log driver as a whole: what a reader returns of what writers have written, through
  rotation and with every option of a bounded read.
\<close>

section \<open>One file\<close>

text \<open>The lines of a file and the time of its rotation marker, if it is an archive.\<close>

type_synonym segment = "LogLine list \<times> Time option"

definition segEntries :: "segment \<Rightarrow> string list" where
  "segEntries sg = map entryText (fst sg) @ (case snd sg of None \<Rightarrow> [] | Some t \<Rightarrow> [markerText t])"

definition seg_ok :: "segment \<Rightarrow> bool" where
  "seg_ok sg \<longleftrightarrow> list_all line_ok (fst sg) \<and> (\<forall>t. snd sg = Some t \<longrightarrow> time_ok t)"

lemma seg_terminated: "seg_ok sg \<Longrightarrow> list_all terminated (segEntries sg)"
  by (auto simp: seg_ok_def segEntries_def list_all_iff entry_terminated marker_terminated split: option.splits)

lemma terminated_ne: "terminated e \<Longrightarrow> e \<noteq> []"
  by (auto simp: terminated_def)

lemma readEntryAt_line:
  assumes "list_all terminated es" "i < length es"
  shows "readEntryAt (concat es) (lineStart es i) = es ! i"
proof -
  have "terminated (es ! i)" using assms by (simp add: list_all_length)
  then obtain body where b: "es ! i = body @ [NL]" "NL \<notin> set body" by (auto simp: terminated_def)
  then have "indexByte NL (drop (lineStart es i) (concat es)) = Some (length body)"
    using concat_at [OF assms(2)] indexByte_append [OF b(2)] by simp
  then show ?thesis using concat_at [OF assms(2)] b(1) by (simp add: readEntryAt_def)
qed

lemma seg_entry:
  assumes "seg_ok sg"
  shows "i < length (fst sg) \<Longrightarrow> parseEntry (segEntries sg ! i) = Inr (fst sg ! i, False)"
    "snd sg = Some t \<Longrightarrow> parseEntry (segEntries sg ! length (fst sg)) = Inr (zeroLine, True)"
  using assms parse_entryText parse_marker by (auto simp: seg_ok_def segEntries_def nth_append list_all_length)

lemma seg_length: "length (segEntries sg) = length (fst sg) + (if snd sg = None then 0 else 1)"
  by (auto simp: segEntries_def split: option.splits)

lemma lineStart_pos:
  assumes "list_all terminated es" "0 < i" "i \<le> length es"
  shows "lineStart es (i - 1) < lineStart es i"
  using assms lineStart_Suc [of "i - 1" es] terminated_ne [of "es ! (i - 1)"] by (simp add: list_all_length)

lemma lastUserLoop_hit:
  assumes "seg_ok sg" "i < length (fst sg)"
  shows "lastUserLoop ps (concat (segEntries sg)) sz (lineStart (segEntries sg) i) = Inr (Some (lineStart (segEntries sg) i, fst sg ! i))"
proof -
  have i: "i < length (segEntries sg)" using assms(2) seg_length by simp
  have "readEntryAt (concat (segEntries sg)) (lineStart (segEntries sg) i) = segEntries sg ! i"
    by (rule readEntryAt_line [OF seg_terminated [OF assms(1)] i])
  moreover have "segEntries sg ! i \<noteq> []" using seg_terminated [OF assms(1)] i terminated_ne by (auto simp: list_all_length)
  ultimately show ?thesis using seg_entry(1) [OF assms] by (subst lastUserLoop.simps) (simp add: Let_def)
qed

lemma lastUserLoop_seg:
  assumes ok: "seg_ok sg"
  shows "lastUserLoop ps (concat (segEntries sg)) (int (length (concat (segEntries sg)))) (lineStart (segEntries sg) (length (segEntries sg) - 1)) =
    Inr (if fst sg = [] then None else Some (lineStart (segEntries sg) (length (fst sg) - 1), last (fst sg)))"
proof (cases "snd sg")
  case None
  show ?thesis
  proof (cases "fst sg = []")
    case True
    then have "segEntries sg = []" using None by (simp add: segEntries_def)
    then show ?thesis using True by (subst lastUserLoop.simps) (simp add: readEntryAt_def)
  next
    case False
    then show ?thesis using lastUserLoop_hit [OF ok, of "length (fst sg) - 1"] None seg_length [of sg] by (simp add: last_conv_nth)
  qed
next
  case (Some t)
  let ?es = "segEntries sg" and ?n = "length (fst sg)"
  let ?r = "concat ?es"
  have len: "length ?es = Suc ?n" using Some seg_length [of sg] by simp
  note tm = seg_terminated [OF ok]
  have e: "readEntryAt ?r (lineStart ?es ?n) = ?es ! ?n" "?es ! ?n \<noteq> []"
    using readEntryAt_line [OF tm] tm terminated_ne len by (auto simp: list_all_length)
  have sk: "SkipLines ps ?r (int (length ?r)) (int (lineStart ?es ?n)) (- 1) = Inr (lineStart ?es (?n - 1))"
    using backward_exact [OF tm, of ?n 1] snap_exact [OF tm, of ?n] len lineStart_le [of ?es ?n] by (simp add: SkipLines_def Let_def)
  show ?thesis
  proof (cases "fst sg = []")
    case True
    then show ?thesis using e seg_entry(2) [OF ok Some] len by (subst lastUserLoop.simps) (simp add: Let_def)
  next
    case False
    then have "lineStart ?es (?n - 1) < lineStart ?es ?n" using lineStart_pos [OF tm, of ?n] len by simp
    then show ?thesis using e seg_entry(2) [OF ok Some] len sk lastUserLoop_hit [OF ok, of "?n - 1"] False
      by (subst lastUserLoop.simps) (simp add: Let_def last_conv_nth)
  qed
qed

lemma lastUserLineOffset_seg:
  assumes "seg_ok sg"
  shows "lastUserLineOffset ps (concat (segEntries sg)) =
    Inr (if fst sg = [] then None else Some (lineStart (segEntries sg) (length (fst sg) - 1)))"
  using lastUserLoop_seg [OF assms, of ps] FindLastLine_exact [OF seg_terminated [OF assms], of ps]
  by (simp add: lastUserLineOffset_def)

lemma readLastUserLine_seg:
  assumes "seg_ok sg"
  shows "readLastUserLine ps (concat (segEntries sg)) = Inr (if fst sg = [] then None else Some (lTime (last (fst sg))))"
  using lastUserLoop_seg [OF assms, of ps] FindLastLine_exact [OF seg_terminated [OF assms], of ps]
  by (simp add: readLastUserLine_def)

lemma readFirstUserLine_seg:
  assumes "seg_ok sg"
  shows "readFirstUserLine (concat (segEntries sg)) = Inr (if fst sg = [] then None else Some (lTime (hd (fst sg))))"
proof (cases "fst sg")
  case Nil
  then show ?thesis using seg_entry(2) [OF assms] splitEntries_concat [OF seg_terminated [OF assms]]
    by (cases "snd sg") (simp_all add: readFirstUserLine_def segEntries_def)
next
  case (Cons l ls)
  then show ?thesis using seg_entry(1) [OF assms, of 0] splitEntries_concat [OF seg_terminated [OF assms]]
    by (simp add: readFirstUserLine_def segEntries_def)
qed

text \<open>The span of a file, with the times of its first and last line.\<close>

definition segSpan :: "nat \<Rightarrow> segment \<Rightarrow> fileSpan" where
  "segSpan i sg = \<lparr> fPath = i, fFile = concat (segEntries sg), fHeadTime = (if fst sg = [] then zeroTime else lTime (hd (fst sg))),
     fTailTime = (if fst sg = [] then zeroTime else lTime (last (fst sg))), fEmpty = (fst sg = []) \<rparr>"

lemma fill_seg:
  assumes "seg_ok sg" "openSpan fs i = Inr span" "fs i = Some (concat (segEntries sg))"
  shows "fillSpanTimes ps span = Inr (segSpan i sg)"
proof -
  have s: "span = \<lparr> fPath = i, fFile = concat (segEntries sg), fHeadTime = zeroTime, fTailTime = zeroTime, fEmpty = False \<rparr>"
    using assms(2,3) by (simp add: openSpan_def)
  have "segEntries sg = [] \<or> concat (segEntries sg) \<noteq> []"
    using seg_terminated [OF assms(1)] terminated_ne by (cases "segEntries sg") auto
  moreover have "segEntries sg = [] \<Longrightarrow> fst sg = []" by (simp add: segEntries_def)
  ultimately show ?thesis unfolding s using readFirstUserLine_seg [OF assms(1)] readLastUserLine_seg [OF assms(1), of ps]
    by (auto simp: fillSpanTimes_def segSpan_def simp del: concat_eq_Nil_conv)
qed

lemma count_drop:
  assumes "seg_ok sg" "k \<le> length (fst sg)"
  shows "countEntries (drop k (segEntries sg)) = Inr (int (length (fst sg) - k))"
  using assms(2)
proof (induction "length (fst sg) - k" arbitrary: k)
  case 0
  then have k: "k = length (fst sg)" by simp
  show ?case
  proof (cases "snd sg")
    case (Some t)
    then have "drop k (segEntries sg) = [markerText t]" using k by (simp add: segEntries_def)
    then show ?thesis using seg_entry(2) [OF assms(1) Some] Some k by (simp add: segEntries_def nth_append)
  qed (simp add: segEntries_def k)
next
  case (Suc n)
  then have k: "k < length (fst sg)" by simp
  then have d: "drop k (segEntries sg) = segEntries sg ! k # drop (Suc k) (segEntries sg)" using seg_length [of sg] by (simp add: Cons_nth_drop_Suc)
  have "countEntries (drop (Suc k) (segEntries sg)) = Inr (int (length (fst sg) - Suc k))" using Suc.hyps(1) [of "Suc k"] Suc.hyps(2) k by simp
  then show ?case unfolding d using seg_entry(1) [OF assms(1) k] k by (simp add: Suc_diff_Suc)
qed

lemma drop_lines:
  assumes "list_all terminated es" "k \<le> length es"
  shows "splitEntries (drop (lineStart es k) (concat es)) = drop k es"
proof -
  have "concat es = concat (take k es) @ concat (drop k es)" by (metis append_take_drop_id concat_append)
  then have "drop (lineStart es k) (concat es) = concat (drop k es)" by (simp add: lineStart_def)
  moreover have "list_all terminated (drop k es)" using assms(1) by (metis append_take_drop_id list_all_append)
  ultimately show ?thesis by (simp add: splitEntries_concat)
qed

section \<open>The lines a read returns\<close>

text \<open>The lines a reader sends of a sequence, given the number already sent: the lines sent,
  their number, and whether the read is over.\<close>

fun specScan :: "ReaderOption \<Rightarrow> int \<Rightarrow> LogLine list \<Rightarrow> LogLine list \<times> int \<times> bool" where
  "specScan ro sent [] = ([], sent, False)"
| "specScan ro sent (l # ls) =
     (if skipLine ro l then specScan ro sent ls
      else if afterUntil ro l then ([], sent, True)
      else if roHead ro > 0 \<and> sent + 1 \<ge> roHead ro then ([l], sent + 1, True)
      else case specScan ro (sent + 1) ls of (xs, r) \<Rightarrow> (l # xs, r))"

text \<open>The lines asked for: from \<^verbatim>\<open>Since\<close> on, up to the first after \<^verbatim>\<open>Until\<close>, at most \<^verbatim>\<open>Head\<close>.\<close>

definition bounded :: "ReaderOption \<Rightarrow> LogLine list \<Rightarrow> LogLine list" where
  "bounded ro ls =
     (let xs = takeWhile (\<lambda>l. \<not> afterUntil ro l) (filter (\<lambda>l. \<not> skipLine ro l) ls)
      in if roHead ro > 0 then take (nat (roHead ro)) xs else xs)"

lemma specScan_append:
  "specScan ro sent (xs @ ys) =
     (case specScan ro sent xs of (out, sent', d) \<Rightarrow>
        if d then (out, sent', d) else case specScan ro sent' ys of (out', r) \<Rightarrow> (out @ out', r))"
  by (induction ro sent xs rule: specScan.induct) (auto split: prod.splits)

lemma specScan_skipped: "list_all (skipLine ro) xs \<Longrightarrow> specScan ro sent (xs @ ys) = specScan ro sent ys"
  by (induction xs) auto

lemma specScan_bounded:
  assumes "roHead ro \<le> 0 \<or> sent < roHead ro"
  shows "fst (specScan ro sent ls) =
    (let xs = takeWhile (\<lambda>l. \<not> afterUntil ro l) (filter (\<lambda>l. \<not> skipLine ro l) ls)
     in if roHead ro > 0 then take (nat (roHead ro - sent)) xs else xs)"
  using assms
proof (induction ro sent ls rule: specScan.induct)
  case (2 ro sent l ls)
  show ?case
  proof (cases "skipLine ro l \<or> afterUntil ro l")
    case True
    then show ?thesis using 2 by (auto simp: Let_def)
  next
    case False
    show ?thesis
    proof (cases "roHead ro > 0 \<and> sent + 1 \<ge> roHead ro")
      case True
      then have "nat (roHead ro - sent) = 1" using "2.prems" by linarith
      with True False show ?thesis by (simp add: Let_def)
    next
      case nl: False
      then have n: "roHead ro \<le> 0 \<or> sent + 1 < roHead ro" "roHead ro > 0 \<Longrightarrow> nat (roHead ro - sent) = Suc (nat (roHead ro - (sent + 1)))"
        by linarith+
      have "fst (specScan ro sent (l # ls)) = l # fst (specScan ro (sent + 1) ls)" using False nl by (auto split: prod.splits)
      then show ?thesis using "2.IH"(2) [OF _ _ nl n(1)] False n(2) by (simp add: Let_def)
    qed
  qed
qed simp

fun lineOf :: "Record \<Rightarrow> LogLine option" where
  "lineOf (RecLine l _) = Some l"
| "lineOf (RecErr _) = None"

lemma scan_lines:
  assumes "list_all (\<lambda>(e, l). parseEntry e = Inr (l, False)) (zip es ls)" "length es = length ls"
    and "tail_es = [] \<or> (\<exists>m. tail_es = [m] \<and> parseEntry m = Inr (zeroLine, True))"
    and "specScan ro sent ls = (out, sent', d)"
  shows "\<exists>recs. scanEntries ro path 0 (es @ tail_es) offset sent = (recs, sent', d, True) \<and> map lineOf recs = map Some out"
  using assms
proof (induction ro sent ls arbitrary: es offset out rule: specScan.induct)
  case (1 ro sent)
  then show ?case by (auto simp: Let_def)
next
  case (2 ro sent l ls)
  obtain e es' where es: "es = e # es'" using "2.prems"(2) by (cases es) auto
  have p: "parseEntry e = Inr (l, False)" "list_all (\<lambda>(e, l). parseEntry e = Inr (l, False)) (zip es' ls)" "length es' = length ls"
    using "2.prems"(1,2) es by auto
  consider "skipLine ro l" | "\<not> skipLine ro l" "afterUntil ro l"
    | (last) "\<not> skipLine ro l" "\<not> afterUntil ro l" "roHead ro > 0 \<and> sent + 1 \<ge> roHead ro"
    | (more) "\<not> skipLine ro l" "\<not> afterUntil ro l" "\<not> (roHead ro > 0 \<and> sent + 1 \<ge> roHead ro)" by blast
  then show ?case
  proof cases
    case 1
    then show ?thesis using "2.IH"(1) [OF 1 p(2,3) "2.prems"(3), of out] "2.prems"(4) p(1) es by (simp add: Let_def)
  next
    case more
    obtain xs where x: "specScan ro (sent + 1) ls = (xs, sent', d)" "out = l # xs" using "2.prems"(4) more by (auto split: prod.splits)
    obtain recs where "scanEntries ro path 0 (es' @ tail_es) (offset + length e) (sent + 1) = (recs, sent', d, True)" "map lineOf recs = map Some xs"
      using "2.IH"(2) [OF more p(2,3) "2.prems"(3) x(1)] by blast
    then show ?thesis using more p(1) es x(2) by (auto simp: Let_def)
  qed (use "2.prems"(4) p(1) es in \<open>auto simp: Let_def\<close>)
qed

text \<open>The part of a file from line \<open>k\<close> on.\<close>

type_synonym piece = "nat \<times> segment \<times> nat"

definition pieceSpan :: "piece \<Rightarrow> readSpan" where
  "pieceSpan = (\<lambda>(i, sg, k). (wholeSpan (segSpan i sg))\<lparr> rStart := lineStart (segEntries sg) k \<rparr>)"

definition pieceLines :: "piece \<Rightarrow> LogLine list" where
  "pieceLines = (\<lambda>(i, sg, k). drop k (fst sg))"

definition piece_ok :: "piece \<Rightarrow> bool" where
  "piece_ok = (\<lambda>(i, sg, k). seg_ok sg \<and> k \<le> length (fst sg))"

lemma scan_piece:
  assumes "piece_ok p" "specScan ro sent (pieceLines p) = (out, sent', d)"
  shows "\<exists>recs. scanSpan ro (pieceSpan p) sent = (recs, sent', d, True) \<and> map lineOf recs = map Some out"
proof -
  obtain i sg k where p: "p = (i, sg, k)" by (cases p) auto
  have ok: "seg_ok sg" "k \<le> length (fst sg)" using assms(1) p by (simp_all add: piece_ok_def)
  let ?tl = "case snd sg of None \<Rightarrow> [] | Some t \<Rightarrow> [markerText t]"
  have se: "splitEntries (drop (lineStart (segEntries sg) k) (concat (segEntries sg))) = drop k (segEntries sg)"
    using drop_lines [OF seg_terminated [OF ok(1)]] ok(2) seg_length [of sg] by simp
  have d: "drop k (segEntries sg) = map entryText (drop k (fst sg)) @ ?tl" using ok(2) by (simp add: segEntries_def drop_map)
  have z: "list_all (\<lambda>(e, l). parseEntry e = Inr (l, False)) (zip (map entryText (drop k (fst sg))) (drop k (fst sg)))"
    using ok(1) parse_entryText by (auto simp: seg_ok_def list_all_length)
  have tl: "?tl = [] \<or> (\<exists>m. ?tl = [m] \<and> parseEntry m = Inr (zeroLine, True))"
    using ok(1) parse_marker by (auto simp: seg_ok_def split: option.splits)
  show ?thesis using scan_lines [OF z _ tl, of ro sent out sent' d i "lineStart (segEntries sg) k"] assms(2) se d p
    by (simp add: scanSpan_def pieceSpan_def wholeSpan_def segSpan_def pieceLines_def)
qed

lemma run_pieces:
  assumes "list_all piece_ok ps"
  shows "map lineOf (runSpans ro (map pieceSpan ps) sent) = map Some (fst (specScan ro sent (concat (map pieceLines ps))))"
  using assms
proof (induction ps arbitrary: sent)
  case (Cons p ps)
  obtain out sent' d where sp: "specScan ro sent (pieceLines p) = (out, sent', d)" by (cases "specScan ro sent (pieceLines p)") auto
  obtain recs where r: "scanSpan ro (pieceSpan p) sent = (recs, sent', d, True)" "map lineOf recs = map Some out"
    using scan_piece [OF _ sp] Cons.prems by auto
  then show ?case using Cons.IH [of sent'] Cons.prems by (simp add: specScan_append sp split: prod.splits)
qed simp

section \<open>The files of a log\<close>

definition segOf :: "logStore \<Rightarrow> nat \<Rightarrow> segment" where
  "segOf s i = (if i = 0 then (sActive s, None) else (fst (sArchives s ! (i - 1)), Some (snd (sArchives s ! (i - 1)))))"

definition store_ok :: "logStore \<Rightarrow> bool" where
  "store_ok s \<longleftrightarrow> list_all line_ok (sActive s) \<and> list_all (\<lambda>(ls, t). list_all line_ok ls \<and> time_ok t) (sArchives s)"

text \<open>The files oldest first.\<close>

definition storeSegs :: "logStore \<Rightarrow> (nat \<times> segment) list" where
  "storeSegs s = rev (map (\<lambda>i. (i, segOf s i)) [0..<Suc (length (sArchives s))])"

lemma segOf_ok: "store_ok s \<Longrightarrow> i \<le> length (sArchives s) \<Longrightarrow> seg_ok (segOf s i)"
proof -
  assume s: "store_ok s" "i \<le> length (sArchives s)"
  show "seg_ok (segOf s i)"
  proof (cases i)
    case (Suc j)
    then have "sArchives s ! j \<in> set (sArchives s)" using s(2) by simp
    then show ?thesis using s(1) Suc by (auto simp: store_ok_def segOf_def seg_ok_def list_all_iff)
  qed (use s(1) in \<open>simp add: store_ok_def segOf_def seg_ok_def\<close>)
qed

lemma storeFiles_seg: "i \<le> length (sArchives s) \<Longrightarrow> storeFiles s i = Some (concat (segEntries (segOf s i)))"
  by (simp add: storeFiles_def segOf_def segEntries_def textOf_def)

lemma storeSegs_ok: "store_ok s \<Longrightarrow> list_all (\<lambda>(i, sg). seg_ok sg) (storeSegs s)"
  using segOf_ok by (auto simp: storeSegs_def list_all_iff less_Suc_eq_le)

lemma storeSegs_lines: "concat (map (\<lambda>(i, sg). fst sg) (storeSegs s)) = storeLines s"
proof -
  have "map (\<lambda>i. fst (segOf s i)) [0..<Suc (length (sArchives s))] = sActive s # map fst (sArchives s)"
    by (rule nth_equalityI) (auto simp: segOf_def nth_Cons' simp del: upt_Suc)
  then have "map (\<lambda>(i, sg). fst sg) (storeSegs s) = rev (sActive s # map fst (sArchives s))"
    by (simp add: storeSegs_def rev_map [symmetric] comp_def del: upt_Suc)
  then show ?thesis by (simp add: storeLines_def)
qed

lemma map_err_ok: "(\<And>x. x \<in> set xs \<Longrightarrow> f (h x) = Inr (g x)) \<Longrightarrow> map_err f (map h xs) = Inr (map g xs)"
  by (induction xs) auto

definition rawSpan :: "nat \<Rightarrow> string \<Rightarrow> fileSpan" where
  "rawSpan i c = \<lparr> fPath = i, fFile = c, fHeadTime = zeroTime, fTailTime = zeroTime, fEmpty = False \<rparr>"

lemma openSpan_store:
  "i \<le> length (sArchives s) \<Longrightarrow> openSpan (storeFiles s) i = Inr (rawSpan i (concat (segEntries (segOf s i))))"
  "\<not> i \<le> length (sArchives s) \<Longrightarrow> openSpan (storeFiles s) i = Inl (ErrNotExist i)"
  by (simp add: openSpan_def storeFiles_seg rawSpan_def) (simp add: openSpan_def storeFiles_def)

lemma openArchives_store:
  assumes "i + k = Suc (length (sArchives s))" "k \<le> n"
  shows "openArchives (storeFiles s) i n = map (\<lambda>j. rawSpan j (concat (segEntries (segOf s j)))) [i..<i + k]"
  using assms
proof (induction n arbitrary: i k)
  case (Suc n)
  show ?case
  proof (cases k)
    case 0
    then show ?thesis using Suc.prems openSpan_store(2) [of i s] by simp
  next
    case (Suc k')
    then have "openArchives (storeFiles s) (Suc i) n = map (\<lambda>j. rawSpan j (concat (segEntries (segOf s j)))) [Suc i..<Suc i + k']"
      using Suc.IH [of "Suc i" k'] Suc.prems by simp
    then show ?thesis using openSpan_store(1) [of i s] Suc.prems Suc by (simp add: upt_conv_Cons del: upt_Suc)
  qed
qed simp

lemma discover_store:
  assumes "store_ok s" "int (length (sArchives s)) \<le> max 0 (maxFile - 1)"
  shows "discoverFiles ps (storeFiles s) maxFile = Inr (map (\<lambda>(i, sg). segSpan i sg) (storeSegs s))"
proof -
  let ?n = "length (sArchives s)"
  let ?raw = "\<lambda>j. rawSpan j (concat (segEntries (segOf s j)))"
  have "openArchives (storeFiles s) 1 (nat (maxFile - 1)) = map ?raw [1..<1 + ?n]"
    using assms(2) by (intro openArchives_store) linarith+
  then have spans: "?raw 0 # openArchives (storeFiles s) 1 (nat (maxFile - 1)) = map ?raw [0..<Suc ?n]" by (simp add: upt_conv_Cons del: upt_Suc)
  have "fillSpanTimes ps (?raw j) = Inr (segSpan j (segOf s j))" if "j \<in> set [0..<Suc ?n]" for j
  proof -
    have j: "j \<le> length (sArchives s)" using that by auto
    show ?thesis by (rule fill_seg [OF segOf_ok [OF assms(1) j] openSpan_store(1) [OF j] storeFiles_seg [OF j]])
  qed
  then have "map_err (fillSpanTimes ps) (map ?raw [0..<Suc ?n]) = Inr (map (\<lambda>j. segSpan j (segOf s j)) [0..<Suc ?n])"
    by (rule map_err_ok)
  then show ?thesis unfolding discoverFiles_def openSpan_store(1) [OF le0] bindE_simps spans
    by (simp add: storeSegs_def rev_map comp_def del: upt_Suc)
qed

section \<open>Tails\<close>

lemma tail_start:
  assumes "seg_ok sg" "fst sg \<noteq> []" "0 < n"
  shows "(if n > 1 then SkipLines ps (concat (segEntries sg)) (int (length (concat (segEntries sg))))
        (int (lineStart (segEntries sg) (length (fst sg) - 1))) (- (n - 1)) else Inr (lineStart (segEntries sg) (length (fst sg) - 1)))
     = Inr (lineStart (segEntries sg) (length (fst sg) - nat n))"
proof (cases "n > 1")
  case True
  have i: "length (fst sg) - 1 \<le> length (segEntries sg)" using seg_length [of sg] by simp
  have "length (fst sg) - 1 - nat (n - 1) = length (fst sg) - nat n" using True by linarith
  then show ?thesis
    using backward_exact [OF seg_terminated [OF assms(1)] i, of "n - 1" ps] snap_exact [OF seg_terminated [OF assms(1)] i, of ps] True
      lineStart_le [of "segEntries sg" "length (fst sg) - 1"] by (simp add: SkipLines_def Let_def)
next
  case False
  then have "n = 1" using assms(3) by simp
  then show ?thesis by simp
qed

lemma tailSpans_segs:
  assumes "list_all (\<lambda>(i, sg). seg_ok sg) segs"
  shows "\<exists>ts. tailSpans ps (map (\<lambda>(i, sg). segSpan i sg) segs) n sel = Inr (map pieceSpan ts @ sel) \<and> list_all piece_ok ts \<and>
    concat (map pieceLines ts) = newest (nat n) (concat (rev (map (\<lambda>(i, sg). fst sg) segs)))"
  using assms
proof (induction segs arbitrary: n sel)
  case Nil
  show ?case by (rule exI [of _ "[]"]) (simp add: newest_def)
next
  case (Cons x segs)
  obtain i sg where x: "x = (i, sg)" by (cases x)
  have ok: "seg_ok sg" using Cons.prems x by simp
  let ?ls = "fst sg" and ?es = "segEntries sg" and ?old = "concat (rev (map (\<lambda>(i, sg). fst sg) segs))"
  show ?case
  proof (cases "n \<le> 0")
    case True
    then show ?thesis by (intro exI [of _ "[]"]) (simp add: newest_def)
  next
    case pos: False
    show ?thesis
    proof (cases "?ls = []")
      case True
      then show ?thesis using Cons.IH [of n sel] Cons.prems pos x by (simp add: segSpan_def)
    next
      case False
      let ?k = "length ?ls - nat n" and ?p = "(i, sg, length ?ls - nat n)"
      have "countUserLines (concat ?es) (lineStart ?es ?k) = Inr (int (length ?ls - ?k))"
        using count_drop [OF ok, of ?k] drop_lines [OF seg_terminated [OF ok], of ?k] seg_length [of sg] by (simp add: countUserLines_def)
      moreover have "int (length ?ls - ?k) = min (int (length ?ls)) n" "int (length ?ls - ?k) \<noteq> 0"
        using pos False by (auto, cases "fst sg", auto)
      ultimately have step: "tailSpans ps (map (\<lambda>(i, sg). segSpan i sg) (x # segs)) n sel =
          tailSpans ps (map (\<lambda>(i, sg). segSpan i sg) segs) (n - min (int (length ?ls)) n) (pieceSpan ?p # sel)"
        using pos False x lastUserLineOffset_seg [OF ok, of ps] tail_start [OF ok False, of n ps]
        by (cases "n > 1") (simp_all add: segSpan_def pieceSpan_def)
      obtain ts where ts: "tailSpans ps (map (\<lambda>(i, sg). segSpan i sg) segs) (n - min (int (length ?ls)) n) (pieceSpan ?p # sel) = Inr (map pieceSpan ts @ pieceSpan ?p # sel)"
          "list_all piece_ok ts" "concat (map pieceLines ts) = newest (nat (n - min (int (length ?ls)) n)) ?old"
        using Cons.IH [of "n - min (int (length ?ls)) n" "pieceSpan ?p # sel"] Cons.prems x by auto
      have lines: "concat (map pieceLines (ts @ [?p])) = newest (nat n) (concat (rev (map (\<lambda>(i, sg). fst sg) (x # segs))))"
        using ts(3) x pos by (auto simp: newest_take_all pieceLines_def) (auto simp: newest_def min_def nat_diff_distrib)
      have "list_all piece_ok (ts @ [?p])" using ts(2) ok by (simp add: piece_ok_def)
      with lines show ?thesis unfolding step ts(1) by (intro exI [of _ "ts @ [?p]"]) simp
    qed
  qed
qed

section \<open>Reading a log\<close>

definition asked :: "ReaderOption \<Rightarrow> LogLine list \<Rightarrow> LogLine list" where
  "asked ro ls = bounded ro (if roTail ro > 0 then newest (nat (roTail ro)) ls else ls)"

definition in_order :: "LogLine list \<Rightarrow> bool" where
  "in_order ls \<longleftrightarrow> sorted (map (instant \<circ> lTime) ls)"

lemma specScan_start: "fst (specScan ro 0 ls) = bounded ro ls"
proof -
  have "roHead ro \<le> 0 \<or> 0 < roHead ro" by linarith
  from specScan_bounded [OF this, of ls] show ?thesis by (simp add: bounded_def Let_def)
qed

text \<open>Files that end before \<^verbatim>\<open>Since\<close> hold no line of interest.\<close>

lemma skipped_segs:
  assumes "in_order (concat (map (\<lambda>(i, sg). fst sg) segs))" "\<not> IsZero (roSince ro)"
  shows "\<exists>old. concat (map (\<lambda>(i, sg). fst sg) segs) =
      old @ concat (map (\<lambda>(i, sg). fst sg) (dropWhile (\<lambda>(i, sg). fst sg = [] \<or> Before (lTime (last (fst sg))) (roSince ro)) segs)) \<and>
    list_all (skipLine ro) old"
  using assms(1)
proof (induction segs)
  case (Cons x segs)
  obtain i sg where x: "x = (i, sg)" by (cases x)
  show ?case
  proof (cases "fst sg = [] \<or> Before (lTime (last (fst sg))) (roSince ro)")
    case True
    have o: "in_order (concat (map (\<lambda>(i, sg). fst sg) segs))" "in_order (fst sg)"
      using Cons.prems x by (simp_all add: in_order_def sorted_append)
    have sk: "skipLine ro l" if "l \<in> set (fst sg)" for l
    proof -
      have "instant (lTime l) \<le> instant (lTime (last (fst sg)))"
        using o(2) that by (cases "fst sg" rule: rev_cases) (auto simp: in_order_def sorted_append)
      then show ?thesis using True that assms(2) by (auto simp: skipLine_def Before_def)
    qed
    obtain old where "concat (map (\<lambda>(i, sg). fst sg) segs) =
        old @ concat (map (\<lambda>(i, sg). fst sg) (dropWhile (\<lambda>(i, sg). fst sg = [] \<or> Before (lTime (last (fst sg))) (roSince ro)) segs))"
      "list_all (skipLine ro) old" using Cons.IH [OF o(1)] by blast
    then show ?thesis using True x sk by (intro exI [of _ "fst sg @ old"]) (auto simp: list_all_iff)
  qed (simp add: x)
qed simp

lemma select_since:
  assumes "list_all (\<lambda>(i, sg). seg_ok sg) segs" "in_order (concat (map (\<lambda>(i, sg). fst sg) segs))"
    and "roFollow ro = False" "roStartOffset ro = NoOffset" "roTail ro \<le> 0"
  shows "\<exists>ts. selectReadSpans ps (map (\<lambda>(i, sg). segSpan i sg) segs) ro = Inr (map pieceSpan ts) \<and> list_all piece_ok ts \<and>
    fst (specScan ro 0 (concat (map pieceLines ts))) = bounded ro (concat (map (\<lambda>(i, sg). fst sg) segs))"
proof -
  let ?old = "\<lambda>(i, sg). fst sg = [] \<or> Before (lTime (last (fst sg))) (roSince ro)"
  define rest where "rest = (if IsZero (roSince ro) then segs else dropWhile ?old segs)"
  let ?ts = "map (\<lambda>(i, sg). (i, sg, 0)) rest"
  have "(\<lambda>(i, sg). segSpan i sg) = (\<lambda>x. segSpan (fst x) (snd x))" by auto
  then have dw: "dropWhile (\<lambda>s. fEmpty s \<or> Before (fTailTime s) (roSince ro)) (map (\<lambda>(i, sg). segSpan i sg) segs) =
      map (\<lambda>(i, sg). segSpan i sg) (dropWhile ?old segs)"
    by (simp add: dropWhile_map comp_def case_prod_beta segSpan_def cong: conj_cong) (rule arg_cong [of _ _ "map _"], rule dropWhile_cong, auto)
  have sp: "map pieceSpan ?ts = map wholeSpan (map (\<lambda>(i, sg). segSpan i sg) rest)"
    by (auto simp: pieceSpan_def wholeSpan_def)
  have "selectReadSpans ps (map (\<lambda>(i, sg). segSpan i sg) segs) ro = Inr (map wholeSpan (map (\<lambda>(i, sg). segSpan i sg) rest))"
    unfolding rest_def using assms(3-5) dw by (simp add: selectReadSpans_def startOffset_def Let_def del: map_map)
  then have sel: "selectReadSpans ps (map (\<lambda>(i, sg). segSpan i sg) segs) ro = Inr (map pieceSpan ?ts)" using sp by (simp only:)
  have "set rest \<subseteq> set segs" unfolding rest_def by (auto dest: set_dropWhileD)
  then have ok: "list_all piece_ok ?ts" using assms(1) by (auto simp: piece_ok_def list_all_iff)
  have pl: "concat (map pieceLines (map (\<lambda>(i, sg). (i, sg, 0)) xs)) = concat (map (\<lambda>(i, sg). fst sg) xs)" for xs
    by (induction xs) (auto simp: pieceLines_def)
  have "fst (specScan ro 0 (concat (map pieceLines ?ts))) = bounded ro (concat (map (\<lambda>(i, sg). fst sg) segs))"
  proof (cases "IsZero (roSince ro)")
    case False
    obtain old where "concat (map (\<lambda>(i, sg). fst sg) segs) = old @ concat (map (\<lambda>(i, sg). fst sg) (dropWhile ?old segs))" "list_all (skipLine ro) old"
      using skipped_segs [OF assms(2) False] by blast
    then show ?thesis unfolding pl using False specScan_skipped [of ro old 0] by (simp add: rest_def specScan_start [symmetric])
  qed (simp add: rest_def pl specScan_start del: map_map)
  with sel ok show ?thesis by blast
qed

lemma read_store:
  assumes "store_ok s" "int (length (sArchives s)) \<le> max 0 (maxFile - 1)" "in_order (storeLines s)"
    and ro: "roFollow ro = False" "roStartOffset ro = NoOffset"
  shows "\<exists>recs. readLog ps (storeFiles s) maxFile ro = Inr recs \<and> map lineOf recs = map Some (asked ro (storeLines s))"
proof -
  let ?spans = "map (\<lambda>(i, sg). segSpan i sg) (storeSegs s)"
  have "\<exists>ts. selectReadSpans ps ?spans ro = Inr (map pieceSpan ts) \<and> list_all piece_ok ts \<and>
      fst (specScan ro 0 (concat (map pieceLines ts))) = asked ro (storeLines s)"
  proof (cases "roTail ro > 0")
    case True
    have "list_all (\<lambda>(i, sg). seg_ok sg) (rev (storeSegs s))" using storeSegs_ok [OF assms(1)] by (simp add: list_all_iff)
    then obtain ts where "tailSpans ps (rev ?spans) (roTail ro) [] = Inr (map pieceSpan ts)" "list_all piece_ok ts"
        "concat (map pieceLines ts) = newest (nat (roTail ro)) (storeLines s)"
      using tailSpans_segs [of "rev (storeSegs s)" ps "roTail ro" "[]"] storeSegs_lines [of s] by (auto simp: rev_map)
    then show ?thesis using True ro by (intro exI [of _ ts]) (simp add: selectReadSpans_def startOffset_def selectTailSpans_def asked_def specScan_start)
  next
    case False
    then show ?thesis using select_since [OF storeSegs_ok [OF assms(1)], of ro ps] assms(3) ro storeSegs_lines [of s] by (simp add: asked_def)
  qed
  then obtain ts where ts: "selectReadSpans ps ?spans ro = Inr (map pieceSpan ts)" "list_all piece_ok ts"
      "fst (specScan ro 0 (concat (map pieceLines ts))) = asked ro (storeLines s)" by blast
  then show ?thesis using discover_store [OF assms(1,2), of ps] run_pieces [OF ts(2), of ro 0] by (simp add: readLog_def)
qed

section \<open>Writing and reading\<close>

definition write_ok :: "logWrite \<Rightarrow> bool" where
  "write_ok = (\<lambda>(now, mark, l). time_ok mark \<and> (lLine l = [] \<or> line_ok (stamped now l)))"

text \<open>The lines as they were written; empty ones are not stored.\<close>

fun written :: "logWrite list \<Rightarrow> LogLine list" where
  "written [] = []"
| "written ((now, mark, l) # ws) = (if lLine l = [] then written ws else stamped now l # written ws)"

lemma storeWrite_suffix: "suffix (storeLines (storeWrite maxSize maxFile mark l s)) (storeLines s @ [l])"
proof -
  have "suffix (concat (rev (map fst (take n xs)))) (concat (rev (map fst xs)))" for n and xs :: "(LogLine list \<times> Time) list"
    by (metis append_take_drop_id concat_append map_append rev_append suffixI)
  from this [of "nat (maxFile - 1)" "(sActive s, mark) # sArchives s"]
  show ?thesis by (auto simp: storeWrite_def storeLines_def suffix_def)
qed

lemma storeWrite_unlimited: "maxSize \<le> 0 \<Longrightarrow> storeLines (storeWrite maxSize maxFile mark l s) = storeLines s @ [l]"
  by (simp add: storeWrite_def storeLines_def)

lemma storeWrite_ok: "store_ok s \<Longrightarrow> line_ok l \<Longrightarrow> time_ok mark \<Longrightarrow> store_ok (storeWrite maxSize maxFile mark l s)"
proof -
  assume ok: "store_ok s" "line_ok l" "time_ok mark"
  have "list_all P xs \<Longrightarrow> list_all P (take n xs)" for P n and xs :: "(LogLine list \<times> Time) list"
    by (auto simp: list_all_iff dest: in_set_takeD)
  then show "store_ok (storeWrite maxSize maxFile mark l s)" using ok by (simp add: store_ok_def storeWrite_def)
qed

lemma storeAll_lines:
  "suffix (storeLines (storeAll maxSize maxFile ws s)) (storeLines s @ written ws) \<and>
   (maxSize \<le> 0 \<longrightarrow> storeLines (storeAll maxSize maxFile ws s) = storeLines s @ written ws)"
proof (induction maxSize maxFile ws s rule: storeAll.induct)
  case (2 maxSize maxFile now mark l ws s)
  have "suffix (storeLines (storeWrite maxSize maxFile mark (stamped now l) s) @ written ws) ((storeLines s @ [stamped now l]) @ written ws)"
    using storeWrite_suffix by (auto simp: suffix_def)
  with 2 show ?case by (auto simp: storeWrite_unlimited intro: suffix_order.trans)
qed simp

lemma storeAll_ok: "list_all write_ok ws \<Longrightarrow> store_ok s \<Longrightarrow> store_ok (storeAll maxSize maxFile ws s)"
  by (induction maxSize maxFile ws s rule: storeAll.induct) (auto simp: write_ok_def storeWrite_ok)

lemma in_order_suffix: "suffix xs ys \<Longrightarrow> in_order ys \<Longrightarrow> in_order xs"
  by (auto simp: suffix_def in_order_def sorted_append)

lemma log_read:
  assumes "list_all write_ok ws" "in_order (written ws)" "roFollow ro = False" "roStartOffset ro = NoOffset"
  shows "\<exists>kept recs. suffix kept (written ws) \<and> (maxSize \<le> 0 \<longrightarrow> kept = written ws) \<and>
    readLog ps (wFiles (writeAll ws (newWriter Map.empty maxSize maxFile))) maxFile ro = Inr recs \<and> map lineOf recs = map Some (asked ro kept)"
proof -
  let ?s = "storeAll maxSize maxFile ws emptyStore" and ?w = "newWriter Map.empty maxSize maxFile"
  have l: "suffix (storeLines ?s) (written ws)" "maxSize \<le> 0 \<Longrightarrow> storeLines ?s = written ws"
    using storeAll_lines [of maxSize maxFile ws emptyStore] by (simp_all add: emptyStore_def storeLines_def)
  have c: "wMaxSize ?w = maxSize" "wMaxFile ?w = maxFile" by (simp_all add: newWriter_def Let_def)
  have "wMaxFile (writeAll ws w) = wMaxFile w" for w by (induction ws w rule: writeAll.induct) simp_all
  then have r: "wFiles (writeAll ws ?w) = storeFiles ?s" "int (length (sArchives ?s)) \<le> max 0 (maxFile - 1)"
    using writeAll_represents [OF newWriter_represents, of ws maxSize maxFile] c by (simp_all add: represents_def)
  have "store_ok ?s" using storeAll_ok [OF assms(1), of emptyStore] by (simp add: store_ok_def emptyStore_def)
  then show ?thesis using read_store [OF _ r(2) in_order_suffix [OF l(1) assms(2)] assms(3,4)] l r(1) by auto
qed

text \<open>C13: Reading a log returns what was written to it: whatever the size limit, the number of
  files and the page size, a bounded read sends no error and, in order, the lines asked for
  (since, until, the first or the last n) of a suffix of the lines written, which is all of
  them when the size is not limited.\<close>

theorem log_roundtrip:
  assumes "list_all write_ok ws" "in_order (written ws)" "roFollow ro = False" "roStartOffset ro = NoOffset"
  shows "\<exists>kept recs. suffix kept (written ws) \<and> (maxSize \<le> 0 \<longrightarrow> kept = written ws) \<and>
    readLog ps (wFiles (writeAll ws (newWriter Map.empty maxSize maxFile))) maxFile ro = Inr recs \<and> map lineOf recs = map Some (asked ro kept)"
  by (rule log_read [OF assms])

section \<open>The bytes of a command\<close>

lemma SplitLogLines_parts:
  "concat (map lLine (SplitLogLines ts st p)) = p \<and> (\<forall>l \<in> set (SplitLogLines ts st p). lTime l = ts \<and> lStream l = st \<and> lLine l \<noteq> [] \<and>
     (if lPartial l then NL \<notin> set (lLine l) else terminated (lLine l)))"
proof (induction ts st p rule: SplitLogLines.induct)
  case (1 ts st p)
  show ?case
  proof (cases "p = []")
    case False
    show ?thesis
    proof (cases "indexByte NL p")
      case None
      then have "SplitLogLines ts st p = [\<lparr> lTime = ts, lStream = st, lPartial = True, lLine = p \<rparr>]"
        using False by (subst SplitLogLines.simps) simp
      then show ?thesis using None False by (simp add: indexByte_None)
    next
      case (Some nl)
      then have n: "nl < length p" "p ! nl = NL" "NL \<notin> set (take nl p)" by (simp_all add: indexByte_Some)
      then have t: "terminated (take (nl + 1) p)" unfolding terminated_def by (auto simp: take_Suc_conv_app_nth)
      have s: "SplitLogLines ts st p = \<lparr> lTime = ts, lStream = st, lPartial = False, lLine = take (nl + 1) p \<rparr> # SplitLogLines ts st (drop (nl + 1) p)"
        using False Some by (subst SplitLogLines.simps) simp
      show ?thesis unfolding s using "1.IH" [OF False Some] t n(1) by auto
    qed
  qed (simp add: SplitLogLines.simps)
qed

definition writesOf :: "(Time \<times> string) list \<Rightarrow> logWrite list" where
  "writesOf cs = concat (map (\<lambda>(now, p). map (\<lambda>l. (now, now, l)) (SplitLogLines now StreamStdout p)) cs)"

fun streamAll :: "(Time \<times> string) list \<Rightarrow> Writer \<Rightarrow> Writer" where
  "streamAll [] w = w"
| "streamAll ((now, p) # cs) w = streamAll cs (streamWrite now StreamStdout p w)"

lemma writeLines_all: "writeLines now ls w = writeAll (map (\<lambda>l. (now, now, l)) ls) w"
  by (induction ls arbitrary: w) simp_all

lemma writeAll_append: "writeAll (xs @ ys) w = writeAll ys (writeAll xs w)"
  by (induction xs w rule: writeAll.induct) simp_all

lemma streamAll_all: "streamAll cs w = writeAll (writesOf cs) w"
proof (induction cs w rule: streamAll.induct)
  case (2 now p cs w)
  then show ?case by (cases "p = []") (simp_all add: writesOf_def streamWrite_def writeLines_all writeAll_append SplitLogLines.simps)
qed (simp add: writesOf_def)

lemma written_append: "written (xs @ ys) = written xs @ written ys"
  by (induction xs rule: written.induct) simp_all

lemma written_split: "concat (map lLine (written (map (\<lambda>l. (now, now, l)) (SplitLogLines now st p)))) = p"
proof -
  have "concat (map lLine (written (map (\<lambda>l. (now, now, l)) ls))) = concat (map lLine ls)" for ls
    by (induction ls) (simp_all add: stamped_def)
  then show ?thesis using SplitLogLines_parts by simp
qed

lemma writesOf_ok: "list_all (time_ok \<circ> fst) cs \<Longrightarrow> list_all write_ok (writesOf cs)"
proof (induction cs)
  case (Cons c cs)
  obtain now p where c: "c = (now, p)" by (cases c)
  have "write_ok (now, now, l)" if "l \<in> set (SplitLogLines now StreamStdout p)" for l
    using that SplitLogLines_parts [of now StreamStdout p] Cons.prems c
    by (auto simp: write_ok_def stamped_def line_ok_def StreamStdout_def)
  then show ?case using Cons c by (auto simp: writesOf_def list_all_iff)
qed (simp add: writesOf_def)

lemma written_member: "x \<in> set (written (map (\<lambda>l. (now, now, l)) ls)) \<Longrightarrow> \<exists>l \<in> set ls. x = stamped now l"
  by (induction ls) (auto split: if_splits)

lemma stamped_time: "lTime l = now \<Longrightarrow> lTime (stamped now l) = now"
  by (simp add: stamped_def)

lemma written_split_now: "x \<in> set (written (map (\<lambda>l. (now, now, l)) (SplitLogLines now st p))) \<Longrightarrow> lTime x = now"
  using written_member [of x now "SplitLogLines now st p"] SplitLogLines_parts [of now st p] stamped_time by blast

lemma written_Cons: "written (writesOf ((now, p) # cs)) = written (map (\<lambda>l. (now, now, l)) (SplitLogLines now StreamStdout p)) @ written (writesOf cs)"
  by (simp add: writesOf_def written_append)

lemma written_times: "l \<in> set (written (writesOf cs)) \<Longrightarrow> lTime l \<in> fst ` set cs"
proof (induction cs)
  case (Cons c cs)
  obtain now p where c: "c = (now, p)" by (cases c)
  show ?case using Cons written_split_now [of l now StreamStdout p] unfolding c written_Cons by auto
qed (simp add: writesOf_def)

lemma writesOf_order: "sorted (map (instant \<circ> fst) cs) \<Longrightarrow> in_order (written (writesOf cs))"
proof (induction cs)
  case (Cons c cs)
  obtain now p where c: "c = (now, p)" by (cases c)
  let ?ls = "written (map (\<lambda>l. (now, now, l)) (SplitLogLines now StreamStdout p))"
  have e: "instant (lTime l) = instant now" if "l \<in> set ?ls" for l using written_split_now [OF that] by simp
  have one: "sorted (map (instant \<circ> lTime) ?ls)" unfolding sorted_iff_nth_mono using e nth_mem by fastforce
  have le: "instant now \<le> instant (lTime l)" if "l \<in> set (written (writesOf cs))" for l
    using written_times [OF that] Cons.prems c by auto
  have "in_order (written (writesOf cs))" using Cons by simp
  then show ?case unfolding c written_Cons in_order_def using one le e by (auto simp: sorted_append)
qed (simp add: writesOf_def in_order_def)

lemma written_bytes: "concat (map lLine (written (writesOf cs))) = concat (map snd cs)"
proof (induction cs)
  case (Cons c cs)
  obtain now p where c: "c = (now, p)" by (cases c)
  show ?case using Cons written_split [of now StreamStdout p] by (simp add: c writesOf_def written_append)
qed (simp add: writesOf_def)

definition everything :: ReaderOption where
  "everything = \<lparr> roFollow = False, roSince = zeroTime, roUntil = zeroTime, roHead = 0, roTail = 0, roStartOffset = NoOffset \<rparr>"

lemma asked_everything: "asked everything ls = ls"
proof -
  have "IsZero zeroTime" by (simp add: IsZero_def)
  then have "skipLine everything l = False" "afterUntil everything l = False" for l
    by (simp_all add: skipLine_def afterUntil_def everything_def)
  then show ?thesis by (simp add: asked_def bounded_def everything_def takeWhile_eq_all_conv)
qed

definition lineBytes :: "Record list \<Rightarrow> string" where
  "lineBytes recs = concat (map (\<lambda>r. case lineOf r of Some l \<Rightarrow> lLine l | None \<Rightarrow> []) recs)"

lemma lineBytes_lines: "map lineOf recs = map Some ls \<Longrightarrow> lineBytes recs = concat (map lLine ls)"
  by (induction recs arbitrary: ls) (auto simp: lineBytes_def Cons_eq_map_conv)

text \<open>The bytes a command writes, in any chunks, come back from the log: without a size
  limit the contents of the lines read are the bytes written, byte for byte.\<close>

lemma logged_bytes:
  assumes "list_all (time_ok \<circ> fst) cs" "sorted (map (instant \<circ> fst) cs)" "maxSize \<le> 0"
  shows "\<exists>recs. readLog ps (wFiles (streamAll cs (newWriter Map.empty maxSize maxFile))) maxFile everything = Inr recs \<and>
    lineBytes recs = concat (map snd cs)"
proof -
  have ro: "roFollow everything = False" "roStartOffset everything = NoOffset" by (simp_all add: everything_def)
  obtain recs where "readLog ps (wFiles (streamAll cs (newWriter Map.empty maxSize maxFile))) maxFile everything = Inr recs"
      "map lineOf recs = map Some (asked everything (written (writesOf cs)))"
    using log_read [OF writesOf_ok [OF assms(1)] writesOf_order [OF assms(2)] ro, of maxSize ps maxFile] assms(3)
    unfolding streamAll_all by blast
  then show ?thesis using lineBytes_lines [of recs] written_bytes by (auto simp: asked_everything)
qed

section \<open>Witnesses\<close>

definition noon :: "nat \<Rightarrow> Time" where
  "noon n = \<lparr> tYear = 2025, tMonth = 6, tDay = 1, tHour = 12, tMinute = 0, tSecond = n, tNano = 0, tZone = 3600 \<rparr>"

definition fullLine :: "string \<Rightarrow> LogLine" where
  "fullLine s = \<lparr> lTime = zeroTime, lStream = [], lPartial = False, lLine = s @ [NL] \<rparr>"

definition threeWrites :: "logWrite list" where
  "threeWrites = [(noon 1, noon 1, fullLine ''one''), (noon 2, noon 2, fullLine ''two''), (noon 3, noon 3, fullLine ''three'')]"

definition lastTwo :: ReaderOption where
  "lastTwo = everything\<lparr> roTail := 2 \<rparr>"

lemma noon_ok: "n < 60 \<Longrightarrow> time_ok (noon n)"
  by (simp add: noon_def time_ok_def daysIn_def)

lemma threeWrites_ok: "list_all write_ok threeWrites" "in_order (written threeWrites)"
proof -
  have z: "IsZero zeroTime" by (simp add: IsZero_def)
  have t: "terminated (s @ [NL])" if "NL \<notin> set s" for s using that by (auto simp: terminated_def)
  show "list_all write_ok threeWrites"
    using z t [of "''one''"] t [of "''two''"] t [of "''three''"] noon_ok by (auto simp: threeWrites_def write_ok_def stamped_def fullLine_def line_ok_def StreamStdout_def)
  show "in_order (written threeWrites)"
    using z by (simp add: threeWrites_def fullLine_def stamped_def in_order_def instant_def noon_def)
qed

text \<open>Three lines, each rotated away by the next, with two files kept.\<close>

theorem log_roundtrip_witness:
  "\<exists>kept recs. suffix kept (written threeWrites) \<and> length (written threeWrites) = 3 \<and>
    readLog 4096 (wFiles (writeAll threeWrites (newWriter Map.empty 10 2))) 2 lastTwo = Inr recs \<and> map lineOf recs = map Some (asked lastTwo kept)"
proof -
  have "length (written threeWrites) = 3" by (simp add: threeWrites_def fullLine_def)
  moreover have "roFollow lastTwo = False" "roStartOffset lastTwo = NoOffset" by (simp_all add: lastTwo_def everything_def)
  ultimately show ?thesis using log_roundtrip [OF threeWrites_ok, of lastTwo 10 4096 2] by blast
qed

section \<open>Resuming after a rotation\<close>


end
