(* ===== verification/Ring_Buffer.thy ===== *)
theory Ring_Buffer
  imports Go_Prelude
begin

text \<open>
  The scrollback of a command (cmdman/monitor/ringbuffer.go): a ring of bytes that keeps the
  newest ones. Its contract is stated as an interface, the history of a stream cut to the
  last \<open>n\<close> elements, and the ring is proved to implement it. The mutex makes every
  operation atomic.
\<close>

section \<open>Contract\<close>

text \<open>What a client of a scrollback may rely on.\<close>

locale scrollback =
  fixes store :: "'a list \<Rightarrow> 'r \<Rightarrow> 'r"
    and content :: "'r \<Rightarrow> 'a list"
    and inv :: "'r \<Rightarrow> bool"
    and cap :: nat
  assumes write_inv: "inv r \<Longrightarrow> inv (store p r)"
    and write_content: "inv r \<Longrightarrow> content (store p r) = newest cap (content r @ p)"
    and content_bound: "inv r \<Longrightarrow> length (content r) \<le> cap"
begin

lemma stores_inv: "inv r \<Longrightarrow> inv (fold store ps r)"
  by (induction ps arbitrary: r) (simp_all add: write_inv)

text \<open>The chunks of a stream do not matter: only its newest elements do.\<close>

lemma stores_content: "inv r \<Longrightarrow> content (fold store ps r) = newest cap (content r @ concat ps)"
proof (induction ps arbitrary: r)
  case (Cons p ps)
  then have "content (fold store (p # ps) r) = newest cap (newest cap (content r @ p) @ concat ps)"
    by (simp add: write_inv write_content)
  then show ?case by (simp add: newest_newest)
qed (simp add: newest_all content_bound)

end

section \<open>The ring\<close>

record 'a ringBuffer =
  rBuf :: "'a list"
  rPos :: nat
  rFull :: bool

definition newRingBuffer :: "'a \<Rightarrow> nat \<Rightarrow> 'a ringBuffer" where
  "newRingBuffer zero capacity = \<lparr> rBuf = replicate capacity zero, rPos = 0, rFull = False \<rparr>"

text \<open>\<^verbatim>\<open>copy(dst[i:], src)\<close>.\<close>

definition copyAt :: "'a list \<Rightarrow> nat \<Rightarrow> 'a list \<Rightarrow> 'a list" where
  "copyAt dst i src = take (length dst) (take i dst @ src @ drop (i + length src) dst)"

definition ringWrite :: "'a list \<Rightarrow> 'a ringBuffer \<Rightarrow> 'a ringBuffer" where
  "ringWrite p r =
     (let pLen = length p; bufLen = length (rBuf r)
      in if pLen \<ge> bufLen then r\<lparr> rBuf := copyAt (rBuf r) 0 (drop (pLen - bufLen) p), rPos := 0, rFull := True \<rparr>
         else let remaining = bufLen - rPos r;
                  buf = (if remaining \<ge> pLen then copyAt (rBuf r) (rPos r) p
                         else copyAt (copyAt (rBuf r) (rPos r) (take remaining p)) 0 (drop remaining p));
                  pos = (rPos r + pLen) mod bufLen
              in r\<lparr> rBuf := buf, rPos := pos, rFull := (if \<not> rFull r \<and> pos < pLen then True else rFull r) \<rparr>)"

definition ringBytes :: "'a ringBuffer \<Rightarrow> 'a list" where
  "ringBytes r = (if \<not> rFull r then take (rPos r) (rBuf r) else drop (rPos r) (rBuf r) @ take (rPos r) (rBuf r))"

definition ring_inv :: "nat \<Rightarrow> 'a ringBuffer \<Rightarrow> bool" where
  "ring_inv cap r \<longleftrightarrow> length (rBuf r) = cap \<and> (rPos r < cap \<or> cap = 0 \<and> rPos r = 0)"

lemma copyAt_inside: "i + length src \<le> length dst \<Longrightarrow> copyAt dst i src = take i dst @ src @ drop (i + length src) dst"
  by (simp add: copyAt_def)

text \<open>A write that does not reach the end of the buffer, and one that wraps around it.\<close>

lemma write_straight:
  assumes "ring_inv cap r" "length p < cap" "rPos r + length p < cap"
  shows "ring_inv cap (ringWrite p r) \<and> ringBytes (ringWrite p r) = newest cap (ringBytes r @ p)"
proof -
  let ?b = "rBuf r" and ?n = "rPos r"
  have w: "ringWrite p r = r\<lparr> rBuf := take ?n ?b @ p @ drop (?n + length p) ?b, rPos := ?n + length p \<rparr>"
    using assms by (simp add: ringWrite_def Let_def ring_inv_def copyAt_inside)
  have l: "length ?b = cap" "?n < cap" using assms by (auto simp: ring_inv_def)
  show ?thesis
  proof (cases "rFull r")
    case True
    have "drop (?n + length p) ?b @ take ?n ?b @ p = newest cap ((drop ?n ?b @ take ?n ?b) @ p)"
      using l assms(3) by (simp add: newest_def add.commute)
    then show ?thesis unfolding w using True l assms(3) by (simp add: ringBytes_def ring_inv_def)
  next
    case False
    then show ?thesis unfolding w using l assms(3) by (simp add: ringBytes_def ring_inv_def newest_all)
  qed
qed

lemma write_wrapping:
  assumes "ring_inv cap r" "length p < cap" "cap \<le> rPos r + length p"
  shows "ring_inv cap (ringWrite p r) \<and> ringBytes (ringWrite p r) = newest cap (ringBytes r @ p)"
proof -
  let ?b = "rBuf r" and ?n = "rPos r"
  let ?m = "cap - ?n" and ?k = "?n + length p - cap"
  have l: "length ?b = cap" "?n < cap" using assms by (auto simp: ring_inv_def)
  have md: "(?n + length p) mod cap = ?k" using assms(2,3) l by (simp add: mod_if)
  have k: "?k < length p" "?k < cap" "?k \<le> ?n" using l assms(2,3) by linarith+
  have buf: "(if ?m \<ge> length p then copyAt ?b ?n p else copyAt (copyAt ?b ?n (take ?m p)) 0 (drop ?m p)) =
      drop ?m p @ drop ?k (take ?n ?b) @ take ?m p"
  proof (cases "length p \<le> ?m")
    case True
    then have "?k = 0" "length p = ?m" using assms(3) l by linarith+
    then show ?thesis using True l by (simp add: copyAt_inside)
  next
    case False
    then have "copyAt ?b ?n (take ?m p) = take ?n ?b @ take ?m p" using l by (simp add: copyAt_inside)
    moreover have "length (drop ?m p) = ?k" "?k \<le> ?n" using False assms l by auto
    ultimately show ?thesis using False l by (simp add: copyAt_inside)
  qed
  have w: "ringWrite p r = r\<lparr> rBuf := drop ?m p @ drop ?k (take ?n ?b) @ take ?m p, rPos := ?k, rFull := True \<rparr>"
    using assms(2) l k md buf by (simp add: ringWrite_def Let_def)
  have tk: "length (drop ?m p) = ?k" using assms(3) l by simp
  have new: "newest cap (ringBytes r @ p) = drop ?k (take ?n ?b) @ p"
  proof (cases "rFull r")
    case True
    then show ?thesis using l k assms(2,3) by (simp add: ringBytes_def newest_def add.commute)
  next
    case False
    then show ?thesis using l k assms(2) by (simp add: ringBytes_def newest_def)
  qed
  have "min (length p) ?m = ?m" using assms(3) l by simp
  then show ?thesis unfolding w new using l k tk by (simp add: ringBytes_def ring_inv_def)
qed

lemma write_whole:
  assumes "ring_inv cap r" "cap \<le> length p"
  shows "ring_inv cap (ringWrite p r) \<and> ringBytes (ringWrite p r) = newest cap (ringBytes r @ p)"
  using assms by (auto simp: ring_inv_def ringWrite_def Let_def copyAt_inside ringBytes_def newest_def)

lemma ring_write:
  assumes "ring_inv cap r"
  shows "ring_inv cap (ringWrite p r)" "ringBytes (ringWrite p r) = newest cap (ringBytes r @ p)"
  using write_whole [OF assms, of p] write_straight [OF assms, of p] write_wrapping [OF assms, of p]
  by (meson not_le)+

interpretation ring: scrollback ringWrite ringBytes "ring_inv cap" cap for cap
  by unfold_locales (auto simp: ring_write, auto simp: ring_inv_def ringBytes_def)

text \<open>Whatever chunks a command writes, its scrollback holds the newest bytes of its
  output, in order, as many as the ring has room for.\<close>

lemma ring_buffer_newest: "ringBytes (fold ringWrite ps (newRingBuffer z cap)) = newest cap (concat ps)"
proof -
  have "ring_inv cap (newRingBuffer z cap)" by (auto simp: ring_inv_def newRingBuffer_def)
  from ring.stores_content [OF this, of ps] show ?thesis by (simp add: newRingBuffer_def ringBytes_def)
qed

end
