(* ===== verification/Terminal_State.thy ===== *)
theory Terminal_State
  imports Go_Path
begin

text \<open>
  The terminal modes a monitor remembers for a later attach (cmdman/monitor/terminal_state.go).
  Bytes are characters. The map of modes is an association list; its order never shows,
  because a replay sorts the modes.
\<close>

section \<open>Model\<close>

definition replayableModes :: "int list" where
  "replayableModes = [1, 9, 1000, 1001, 1002, 1003, 1004, 1005, 1006, 1015, 1016, 2004]"

datatype parseState = terminalParseNormal | terminalParseEsc | terminalParseCSI

record terminalPaneState =
  tpState :: parseState
  tpCsi :: string
  tpDecPrivate :: "(int, bool) gomap"
  tpAppKeypad :: bool

definition newTerminalPaneState :: terminalPaneState where
  "newTerminalPaneState = \<lparr> tpState = terminalParseNormal, tpCsi = [], tpDecPrivate = [], tpAppKeypad = False \<rparr>"

definition paneReset :: "terminalPaneState \<Rightarrow> terminalPaneState" where
  "paneReset s = s\<lparr> tpDecPrivate := [], tpAppKeypad := False, tpState := terminalParseNormal, tpCsi := [] \<rparr>"

definition setMode :: "bool \<Rightarrow> string \<Rightarrow> (int, bool) gomap \<Rightarrow> (int, bool) gomap" where
  "setMode enabled raw m =
     (if raw = [] then m else case atoi raw of None \<Rightarrow> m | Some mode \<Rightarrow> AList.update mode enabled m)"

definition applyCSI :: "terminalPaneState \<Rightarrow> terminalPaneState" where
  "applyCSI s =
     (if tpCsi s = [] then s
      else let final = last (tpCsi s); params = butlast (tpCsi s)
           in if final = CHR ''p'' \<and> params = ''!'' then paneReset s
              else if final \<noteq> CHR ''h'' \<and> final \<noteq> CHR ''l'' then s
              else case params of
                     [] \<Rightarrow> s
                   | q # ps \<Rightarrow>
                       if q \<noteq> CHR ''?'' then s
                       else s\<lparr> tpDecPrivate := fold (setMode (final = CHR ''h'')) (splitOn CHR '';'' ps) (tpDecPrivate s) \<rparr>)"

definition finalByte :: "char \<Rightarrow> bool" where
  "finalByte c \<longleftrightarrow> 0x40 \<le> (of_char c :: nat) \<and> (of_char c :: nat) \<le> 0x7e"

definition observeByte :: "char \<Rightarrow> terminalPaneState \<Rightarrow> terminalPaneState" where
  "observeByte b s =
     (case tpState s of
        terminalParseNormal \<Rightarrow> if b = CHR 0x1B then s\<lparr> tpState := terminalParseEsc \<rparr> else s
      | terminalParseEsc \<Rightarrow>
          if b = CHR ''['' then s\<lparr> tpCsi := [], tpState := terminalParseCSI \<rparr>
          else if b = CHR ''='' then s\<lparr> tpAppKeypad := True, tpState := terminalParseNormal \<rparr>
          else if b = CHR ''>'' then s\<lparr> tpAppKeypad := False, tpState := terminalParseNormal \<rparr>
          else if b = CHR ''c'' then (paneReset s)\<lparr> tpState := terminalParseNormal \<rparr>
          else if b = CHR 0x1B then s\<lparr> tpState := terminalParseEsc \<rparr>
          else s\<lparr> tpState := terminalParseNormal \<rparr>
      | terminalParseCSI \<Rightarrow>
          let s1 = s\<lparr> tpCsi := tpCsi s @ [b] \<rparr>
          in if length (tpCsi s1) > 128 then s1\<lparr> tpState := terminalParseNormal, tpCsi := [] \<rparr>
             else if finalByte b then (applyCSI s1)\<lparr> tpState := terminalParseNormal, tpCsi := [] \<rparr>
             else s1)"

definition Observe :: "string \<Rightarrow> terminalPaneState \<Rightarrow> terminalPaneState" where
  "Observe p s = fold observeByte p s"

definition activeModes :: "terminalPaneState \<Rightarrow> int list" where
  "activeModes s = sort (map fst (filter (\<lambda>(mode, enabled). enabled \<and> mode \<in> set replayableModes) (tpDecPrivate s)))"

definition Replay :: "terminalPaneState \<Rightarrow> string" where
  "Replay s =
     (let modes = activeModes s
      in (if modes \<noteq> [] then CHR 0x1B # ''[?'' @ joinWith CHR '';'' (map itoa modes) @ ''h'' else []) @
         (if tpAppKeypad s then CHR 0x1B # ''='' else []))"

section \<open>Modes are a map\<close>

definition pane_ok :: "terminalPaneState \<Rightarrow> bool" where
  "pane_ok s \<longleftrightarrow> distinct (keys_of (tpDecPrivate s))"

lemma setMode_distinct: "distinct (keys_of m) \<Longrightarrow> distinct (keys_of (setMode e raw m))"
  by (simp add: setMode_def distinct_keys_update split: option.split)

lemma fold_setMode_distinct: "distinct (keys_of m) \<Longrightarrow> distinct (keys_of (fold (setMode e) rs m))"
  by (induction rs arbitrary: m) (simp_all add: setMode_distinct)

lemma applyCSI_ok: "pane_ok s \<Longrightarrow> pane_ok (applyCSI s)"
  by (auto simp: applyCSI_def pane_ok_def paneReset_def Let_def fold_setMode_distinct split: list.split)

lemma observeByte_ok: "pane_ok s \<Longrightarrow> pane_ok (observeByte b s)"
  using applyCSI_ok [of "s\<lparr> tpCsi := tpCsi s @ [b] \<rparr>"]
  by (auto simp: observeByte_def pane_ok_def paneReset_def Let_def split: parseState.split)

lemma Observe_ok: "pane_ok s \<Longrightarrow> pane_ok (Observe p s)"
  unfolding Observe_def by (induction p arbitrary: s) (simp_all add: observeByte_ok)

lemma activeModes_set:
  assumes "pane_ok s"
  shows "set (activeModes s) = {m \<in> set replayableModes. map_of (tpDecPrivate s) m = Some True}" "distinct (activeModes s)"
proof -
  have "(m, True) \<in> set (tpDecPrivate s) \<longleftrightarrow> map_of (tpDecPrivate s) m = Some True" for m
    using assms by (simp add: pane_ok_def)
  then show "set (activeModes s) = {m \<in> set replayableModes. map_of (tpDecPrivate s) m = Some True}"
    by (force simp: activeModes_def)
  show "distinct (activeModes s)" using assms distinct_map_filter by (auto simp: activeModes_def pane_ok_def)
qed

lemma activeModes_unique:
  assumes "pane_ok s" "pane_ok t"
    and "\<And>m. m \<in> set replayableModes \<Longrightarrow> map_of (tpDecPrivate s) m = Some True \<longleftrightarrow> map_of (tpDecPrivate t) m = Some True"
  shows "activeModes s = activeModes t"
proof (rule sorted_distinct_set_unique)
  show "set (activeModes s) = set (activeModes t)" using assms by (auto simp: activeModes_set)
qed (use assms in \<open>simp_all add: activeModes_set(2)\<close>, simp_all add: activeModes_def)

section \<open>Replaying\<close>

lemma observe_csi:
  assumes "tpState s = terminalParseCSI" "\<forall>c \<in> set body. \<not> finalByte c" "length (tpCsi s) + length body \<le> 128"
  shows "Observe body s = s\<lparr> tpCsi := tpCsi s @ body \<rparr>"
  using assms
proof (induction body arbitrary: s)
  case (Cons b body)
  then have "observeByte b s = s\<lparr> tpCsi := tpCsi s @ [b] \<rparr>" by (simp add: observeByte_def)
  then show ?case using Cons.IH [of "s\<lparr> tpCsi := tpCsi s @ [b] \<rparr>"] Cons.prems by (simp add: Observe_def)
qed (simp add: Observe_def)

lemma fold_setMode:
  assumes "\<forall>m \<in> set ms. minInt64 \<le> m \<and> m \<le> maxInt64"
  shows "map_of (fold (setMode e) (map itoa ms) d) = (\<lambda>m. if m \<in> set ms then Some e else map_of d m)"
  using assms
proof (induction ms arbitrary: d)
  case (Cons m ms)
  have "setMode e (itoa m) d = AList.update m e d" using Cons.prems atoi_itoa [of m] by (cases "itoa m") (auto simp: setMode_def atoi_def)
  then show ?case using Cons by (auto simp: fun_eq_iff)
qed simp

text \<open>The modes that are replayed fit the parser's buffer.\<close>

lemma joinWith_length: "(\<forall>x \<in> set xs. length x \<le> k) \<Longrightarrow> length (joinWith sep xs) \<le> (k + 1) * length xs"
  by (induction sep xs rule: joinWith.induct) auto

lemma itoa_mode: "m \<in> set replayableModes \<Longrightarrow> length (itoa m) \<le> 4 \<and> 0 \<le> m \<and> minInt64 \<le> m \<and> m \<le> maxInt64"
  by (auto simp: replayableModes_def itoa_def digitsOf.simps minInt64_def maxInt64_def)

lemma digit_not_final: "isDigit c \<Longrightarrow> \<not> finalByte c \<and> c \<noteq> CHR '';''"
  by (auto simp: isDigit_def finalByte_def)

lemma set_joinWith: "set (joinWith sep xs) \<subseteq> insert sep (\<Union> (set ` set xs))"
  by (induction sep xs rule: joinWith.induct) auto

lemma observe_modes:
  assumes "set ms \<subseteq> set replayableModes" "distinct ms" "ms \<noteq> []" "tpState s = terminalParseNormal"
  shows "Observe (CHR 0x1B # ''[?'' @ joinWith CHR '';'' (map itoa ms) @ ''h'') s =
    s\<lparr> tpDecPrivate := fold (setMode True) (map itoa ms) (tpDecPrivate s), tpCsi := [] \<rparr>"
proof -
  let ?j = "joinWith CHR '';'' (map itoa ms)" and ?c = "s\<lparr> tpState := terminalParseCSI, tpCsi := [] \<rparr>"
  have dg: "\<forall>x \<in> set (map itoa ms). \<forall>c \<in> set x. isDigit c" using assms(1) itoa_mode itoa_nat_digits by auto
  have "length ms \<le> length replayableModes" using assms(1,2) by (rule distinct_subset_length [rotated])
  moreover have "length ?j \<le> 5 * length ms" using joinWith_length [of "map itoa ms" 4 "CHR '';''"] assms(1) itoa_mode by auto
  ultimately have len: "length ?j \<le> 60" by (simp add: replayableModes_def)
  have "\<forall>c \<in> set (CHR ''?'' # ?j). \<not> finalByte c"
    using set_joinWith [of "CHR '';''" "map itoa ms"] dg digit_not_final by (auto simp: finalByte_def)
  then have o: "Observe (CHR ''?'' # ?j) ?c = ?c\<lparr> tpCsi := CHR ''?'' # ?j \<rparr>" using len by (subst observe_csi) simp_all
  have sp: "splitOn CHR '';'' ?j = map itoa ms" using assms(3) dg digit_not_final by (intro splitOn_joinWith) auto
  have "Observe (CHR 0x1B # CHR ''['' # (CHR ''?'' # ?j) @ ''h'') s = observeByte CHR ''h'' (Observe (CHR ''?'' # ?j) ?c)"
    using assms(4) by (simp add: Observe_def observeByte_def)
  also have "\<dots> = s\<lparr> tpDecPrivate := fold (setMode True) (map itoa ms) (tpDecPrivate s), tpCsi := [] \<rparr>"
    unfolding o using len sp assms(4) by (simp add: observeByte_def applyCSI_def finalByte_def Let_def)
  finally show ?thesis by simp
qed

lemma replay_observed:
  assumes "pane_ok s"
  shows "activeModes (Observe (Replay s) newTerminalPaneState) = activeModes s \<and>
    tpAppKeypad (Observe (Replay s) newTerminalPaneState) = tpAppKeypad s"
proof -
  let ?ms = "activeModes s" and ?new = newTerminalPaneState
  define t where "t = (if ?ms \<noteq> [] then Observe (CHR 0x1B # ''[?'' @ joinWith CHR '';'' (map itoa ?ms) @ ''h'') ?new else ?new)"
  have ms: "set ?ms \<subseteq> set replayableModes" "distinct ?ms" using activeModes_set [OF assms] by auto
  have dec: "tpDecPrivate t = fold (setMode True) (map itoa ?ms) []" and st: "tpState t = terminalParseNormal" "\<not> tpAppKeypad t"
    using observe_modes [OF ms, of ?new] by (auto simp: t_def newTerminalPaneState_def)
  have o: "Observe (Replay s) ?new = (if tpAppKeypad s then t\<lparr> tpAppKeypad := True \<rparr> else t)"
  proof -
    have app: "Observe (xs @ ys) u = Observe ys (Observe xs u)" for xs ys u by (simp add: Observe_def)
    have "Observe (if ?ms \<noteq> [] then CHR 0x1B # ''[?'' @ joinWith CHR '';'' (map itoa ?ms) @ ''h'' else []) ?new = t"
      by (simp only: t_def Observe_def fold.simps id_apply split: if_split) simp
    moreover have "Observe (CHR 0x1B # ''='') t = t\<lparr> tpAppKeypad := True \<rparr>" using st(1) by (simp add: Observe_def observeByte_def)
    moreover have "Observe [] t = t" by (simp add: Observe_def)
    ultimately show ?thesis unfolding Replay_def Let_def app by (cases "tpAppKeypad s") (simp_all only: if_True if_False)
  qed
  have "pane_ok t" unfolding t_def using Observe_ok [of ?new] by (simp add: pane_ok_def newTerminalPaneState_def)
  moreover have "map_of (tpDecPrivate t) m = (if m \<in> set ?ms then Some True else None)" for m
    unfolding dec using ms(1) itoa_mode by (subst fold_setMode) auto
  ultimately have "activeModes t = activeModes s" using activeModes_set(1) [OF assms] assms by (intro activeModes_unique) auto
  then show ?thesis unfolding o using st by (simp add: activeModes_def)
qed


end
