(* ===== verification/Monitor_Output.thy ===== *)
theory Monitor_Output
  imports Log_Roundtrip Ring_Buffer Terminal_State Broadcaster
begin

text \<open>
  The output of a command inside its monitor: the fan-out of one chunk to the scrollback,
  the log and the subscribers (\<^verbatim>\<open>logCommandOutput\<close> of cmdman/monitor/mon_run.go), and what
  a new subscriber is given (\<^verbatim>\<open>subscribeOutput\<close> of mon_server.go). Each operation holds a
  mutex and is atomic. The screen mirror of a TTY command is an emulator; its snapshot, if it
  has one, is an argument, as are the latched title and working directory.
\<close>

section \<open>Fan-out\<close>

record monitorOutput =
  moTty :: bool
  moTerminal :: terminalPaneState
  moRing :: "char ringBuffer"
  moLog :: "Writer option"
  moBridge :: "LogLine broadcaster"
  moRunGen :: nat

definition logCommandOutput :: "nat \<Rightarrow> Time \<Rightarrow> string \<Rightarrow> string \<Rightarrow> monitorOutput \<Rightarrow> monitorOutput" where
  "logCommandOutput gen now stream data m =
     (if data = [] \<or> gen \<noteq> moRunGen m then m
      else let lines = SplitLogLines now stream data
           in m\<lparr> moTerminal := (if moTty m then Observe data (moTerminal m) else moTerminal m),
                 moRing := ringWrite data (moRing m),
                 moLog := map_option (writeLines now lines) (moLog m),
                 moBridge := fold Send lines (moBridge m) \<rparr>)"

text \<open>A run that is over gives the shared state up.\<close>

definition retireRun :: "monitorOutput \<Rightarrow> monitorOutput" where
  "retireRun m = m\<lparr> moRunGen := moRunGen m + 1 \<rparr>"

record monitorSubscription =
  msRecords :: nat
  msOffset :: "(nat \<times> int) option"
  msScrollback :: string
  msTerminalState :: string

definition titleSequence :: "string \<Rightarrow> string" where
  "titleSequence t = CHR 0x1B # '']2;'' @ t @ [CHR 0x07]"

definition cwdSequence :: "string \<Rightarrow> string" where
  "cwdSequence d = CHR 0x1B # '']7;'' @ d @ [CHR 0x1B, CHR 0x5C]"

definition subscribeOutput :: "bool \<Rightarrow> string option \<Rightarrow> string option \<Rightarrow> string option \<Rightarrow> monitorOutput \<Rightarrow> monitorOutput \<times> monitorSubscription" where
  "subscribeOutput withScrollback snapshot title cwd m =
     (case Subscribe (moBridge m) of (bridge, n) \<Rightarrow>
        (m\<lparr> moBridge := bridge \<rparr>,
         \<lparr> msRecords = n, msOffset = map_option CurrentOffset (moLog m),
           msScrollback = (if withScrollback then (case (if moTty m then snapshot else None) of Some s \<Rightarrow> s | None \<Rightarrow> ringBytes (moRing m)) else []),
           msTerminalState = (if withScrollback then Replay (moTerminal m) @ (case title of None \<Rightarrow> [] | Some t \<Rightarrow> titleSequence t)
             @ (case cwd of None \<Rightarrow> [] | Some d \<Rightarrow> cwdSequence d) else []) \<rparr>))"

section \<open>Interleavings\<close>

datatype outEvent =
    EvOutput nat Time string string      \<comment> \<open>run, clock, stream, bytes\<close>
  | EvRetire
  | EvSubscribe
  | EvUnsubscribe nat
  | EvReceive nat

fun outStep :: "outEvent \<Rightarrow> monitorOutput \<Rightarrow> monitorOutput \<times> (nat \<times> LogLine) list" where
  "outStep (EvOutput gen now stream data) m = (logCommandOutput gen now stream data m, [])"
| "outStep EvRetire m = (retireRun m, [])"
| "outStep EvSubscribe m = (m\<lparr> moBridge := fst (Subscribe (moBridge m)) \<rparr>, [])"
| "outStep (EvUnsubscribe n) m = (m\<lparr> moBridge := Unsubscribe n (moBridge m) \<rparr>, [])"
| "outStep (EvReceive n) m =
     (case Receive n (moBridge m) of (b, x) \<Rightarrow> (m\<lparr> moBridge := b \<rparr>, case x of None \<Rightarrow> [] | Some l \<Rightarrow> [(n, l)]))"

fun outRun :: "outEvent list \<Rightarrow> monitorOutput \<Rightarrow> monitorOutput \<times> (nat \<times> LogLine) list" where
  "outRun [] m = (m, [])"
| "outRun (e # es) m = (case outStep e m of (m', r) \<Rightarrow> case outRun es m' of (m'', r') \<Rightarrow> (m'', r @ r'))"

text \<open>The bytes that count: those of the current run.\<close>

fun accepted :: "nat \<Rightarrow> outEvent list \<Rightarrow> string" where
  "accepted g [] = []"
| "accepted g (EvOutput gen now stream data # es) = (if gen = g then data else []) @ accepted g es"
| "accepted g (EvRetire # es) = accepted (g + 1) es"
| "accepted g (EvSubscribe # es) = accepted g es"
| "accepted g (EvUnsubscribe n # es) = accepted g es"
| "accepted g (EvReceive n # es) = accepted g es"

text \<open>Subscriber \<open>n\<close> stays, and takes its records in time.\<close>

fun keepsUp :: "nat \<Rightarrow> outEvent list \<Rightarrow> monitorOutput \<Rightarrow> bool" where
  "keepsUp n [] m = True"
| "keepsUp n (e # es) m =
     ((case e of
         EvOutput gen now stream data \<Rightarrow>
           length (case map_of (bSubscribers (moBridge m)) n of Some ch \<Rightarrow> ch | None \<Rightarrow> []) + length (SplitLogLines now stream data) \<le> chanCap
       | EvUnsubscribe k \<Rightarrow> k \<noteq> n
       | _ \<Rightarrow> True) \<and> keepsUp n es (fst (outStep e m)))"

definition queueOf :: "nat \<Rightarrow> monitorOutput \<Rightarrow> LogLine list" where
  "queueOf n m = (case map_of (bSubscribers (moBridge m)) n of Some ch \<Rightarrow> ch | None \<Rightarrow> [])"

definition bytesOf :: "LogLine list \<Rightarrow> string" where
  "bytesOf ls = concat (map lLine ls)"

definition receivedBy :: "nat \<Rightarrow> (nat \<times> LogLine) list \<Rightarrow> LogLine list" where
  "receivedBy n rs = map snd (filter (\<lambda>(k, _). k = n) rs)"

definition subscribed :: "nat \<Rightarrow> monitorOutput \<Rightarrow> bool" where
  "subscribed n m \<longleftrightarrow> \<not> bClosed (moBridge m) \<and> n < bNextID (moBridge m) \<and> map_of (bSubscribers (moBridge m)) n \<noteq> None"

lemma receivedBy_append: "receivedBy n (a @ b) = receivedBy n a @ receivedBy n b"
  by (simp add: receivedBy_def)

lemma split_bytes: "bytesOf (SplitLogLines now stream data) = data"
  using SplitLogLines_parts by (simp add: bytesOf_def)

text \<open>One step: what the subscriber has received and can still receive grows by the bytes of
  the step.\<close>

lemma step_stream:
  assumes "subscribed n m" "keepsUp n [e] m" "outStep e m = (m', r)"
  shows "subscribed n m' \<and> bytesOf (receivedBy n r @ queueOf n m') = bytesOf (queueOf n m) @ accepted (moRunGen m) [e] \<and>
    accepted (moRunGen m) (e # es) = accepted (moRunGen m) [e] @ accepted (moRunGen m') es"
proof (cases e)
  case (EvOutput gen now stream data)
  show ?thesis
  proof (cases "data = [] \<or> gen \<noteq> moRunGen m")
    case True
    then show ?thesis using assms EvOutput by (auto simp: logCommandOutput_def receivedBy_def)
  next
    case False
    let ?ls = "SplitLogLines now stream data"
    obtain ch where ch: "map_of (bSubscribers (moBridge m)) n = Some ch" "\<not> bClosed (moBridge m)" "n < bNextID (moBridge m)"
      using assms(1) by (auto simp: subscribed_def)
    have len: "length ch + length ?ls \<le> chanCap" using assms(2) EvOutput ch(1) by simp
    have m': "moBridge m' = fold Send ?ls (moBridge m)" "r = []" "moRunGen m' = moRunGen m"
      using assms(3) EvOutput False by (auto simp: logCommandOutput_def Let_def)
    then show ?thesis using send_all [OF ch(2,1) len] ch EvOutput False split_bytes [of now stream data]
      by (simp add: subscribed_def queueOf_def receivedBy_def bytesOf_def)
  qed
next
  case (EvReceive k)
  show ?thesis
  proof (cases "map_of (bSubscribers (moBridge m)) k")
    case None
    then show ?thesis using assms EvReceive by (auto simp: Receive_def receivedBy_def)
  next
    case (Some ch)
    then show ?thesis using assms EvReceive
      by (cases ch; cases "k = n") (auto simp: Receive_def receivedBy_def subscribed_def queueOf_def bytesOf_def)
  qed
next
  case (EvUnsubscribe k)
  then show ?thesis using assms
    by (auto simp: Unsubscribe_def subscribed_def queueOf_def receivedBy_def delete_conv')
next
  case EvSubscribe
  then show ?thesis using assms by (auto simp: Subscribe_def Let_def subscribed_def queueOf_def receivedBy_def)
next
  case EvRetire
  then show ?thesis using assms by (auto simp: retireRun_def subscribed_def queueOf_def receivedBy_def)
qed

lemma run_stream:
  assumes "subscribed n m" "keepsUp n es m" "outRun es m = (m', r)"
  shows "bytesOf (receivedBy n r @ queueOf n m') = bytesOf (queueOf n m) @ accepted (moRunGen m) es"
  using assms
proof (induction es arbitrary: m r)
  case (Cons e es)
  obtain m1 r1 r2 where 1: "outStep e m = (m1, r1)" "outRun es m1 = (m', r2)" "r = r1 @ r2"
    using Cons.prems(3) by (auto split: prod.splits)
  have k: "keepsUp n [e] m" "keepsUp n es m1" using Cons.prems(2) 1(1) by simp_all
  have s: "subscribed n m1" "bytesOf (receivedBy n r1 @ queueOf n m1) = bytesOf (queueOf n m) @ accepted (moRunGen m) [e]"
    "accepted (moRunGen m) (e # es) = accepted (moRunGen m) [e] @ accepted (moRunGen m1) es"
    using step_stream [OF Cons.prems(1) k(1) 1(1), of es] by blast+
  have "bytesOf (receivedBy n r2 @ queueOf n m') = bytesOf (queueOf n m1) @ accepted (moRunGen m1) es"
    using Cons.IH [OF s(1) k(2) 1(2)] .
  then show ?case using s(2,3) 1(3) by (simp add: receivedBy_append bytesOf_def)
qed (simp add: receivedBy_def)

text \<open>The scrollback and the log along a run.\<close>

definition newMonitorOutput :: "bool \<Rightarrow> nat \<Rightarrow> Writer option \<Rightarrow> monitorOutput" where
  "newMonitorOutput tty cap w =
     \<lparr> moTty = tty, moTerminal = newTerminalPaneState, moRing = newRingBuffer (CHR 0x00) cap, moLog = w,
       moBridge = newBroadcaster, moRunGen = 0 \<rparr>"

lemma ring_run:
  assumes "ring_inv cap (moRing m)" "outRun es m = (m', r)"
  shows "ring_inv cap (moRing m') \<and> ringBytes (moRing m') = newest cap (ringBytes (moRing m) @ accepted (moRunGen m) es)"
  using assms
proof (induction es arbitrary: m r)
  case Nil
  then show ?case using ring.content_bound [OF Nil(1)] by (simp add: newest_all)
next
  case (Cons e es)
  obtain m1 r1 r2 where 1: "outStep e m = (m1, r1)" "outRun es m1 = (m', r2)" using Cons.prems(2) by (auto split: prod.splits)
  have "ring_inv cap (moRing m1) \<and> ringBytes (moRing m1) = newest cap (ringBytes (moRing m) @ accepted (moRunGen m) [e]) \<and>
      accepted (moRunGen m) (e # es) = accepted (moRunGen m) [e] @ accepted (moRunGen m1) es"
    using 1(1) Cons.prems(1) ring.content_bound [OF Cons.prems(1)] ring_write [OF Cons.prems(1)]
    by (cases e) (auto simp: logCommandOutput_def retireRun_def Let_def newest_all split: prod.splits)
  then show ?case using Cons.IH [OF _ 1(2)] by (simp add: newest_newest)
qed

lemma bridge_run:
  assumes "outRun es m = (m', r)" "\<not> bClosed (moBridge m)"
  shows "\<not> bClosed (moBridge m')"
  using assms
proof (induction es arbitrary: m r)
  case (Cons e es)
  obtain m1 r1 r2 where 1: "outStep e m = (m1, r1)" "outRun es m1 = (m', r2)" using Cons.prems(1) by (auto split: prod.splits)
  have f: "bClosed (fold Send xs f) = bClosed f" for xs and f :: "LogLine broadcaster" by (induction xs arbitrary: f) simp_all
  have "\<not> bClosed (moBridge m1)" using 1(1) Cons.prems(2) f
    by (cases e) (auto simp: logCommandOutput_def retireRun_def Let_def Subscribe_def Unsubscribe_def Receive_def split: prod.splits option.splits list.splits if_splits)
  then show ?case using Cons.IH [OF 1(2)] by simp
qed simp

lemma subscribe_fresh:
  assumes "\<not> bClosed (moBridge m)" "subscribeOutput True snap title cwd m = (m', sub)"
  shows "subscribed (msRecords sub) m' \<and> queueOf (msRecords sub) m' = [] \<and> moRunGen m' = moRunGen m"
  using assms by (auto simp: subscribeOutput_def Subscribe_def Let_def subscribed_def queueOf_def)


text \<open>Output before and after an attach, with a run that ends in between.\<close>

definition beforeAttach :: "outEvent list" where
  "beforeAttach = [EvOutput 0 (noon 1) StreamStdout ''old'', EvSubscribe, EvOutput 0 (noon 2) StreamStdout (''er'' @ [NL])]"

definition afterAttach :: "outEvent list" where
  "afterAttach = [EvOutput 0 (noon 3) StreamStdout (''new'' @ [NL] @ ''x''), EvReceive 1, EvRetire, EvOutput 0 (noon 4) StreamStdout ''late'',
     EvOutput 1 (noon 5) StreamStdout ''y'', EvReceive 1]"


end
