(* ===== verification/Viewer_State.thy ===== *)
theory Viewer_State
  imports Ansi_Parser
begin

text \<open>
  What a state of the escape sequence parser (Ansi_Parser) still remembers: outside
  a sequence the parameters, the command and the string data of the last one are dead, and
  two parsers that agree on the rest behave alike on every further byte.
\<close>

section \<open>Bytes of an integer\<close>

lemma bit_ff: "bit (0xff :: int) n \<longleftrightarrow> n < 8"
proof -
  have "(0xff :: int) = mask 8" by (simp add: mask_eq_exp_minus_1)
  then show ?thesis by (simp only: bit_mask_iff) simp
qed

lemma byteAt_mask: "n < m \<Longrightarrow> byteAt n (and c (mask (8 * m))) = byteAt n c"
  by (rule bit_word_eqI) (auto simp: byteAt_def bit_simps dest: bit_imp_le_length)

lemma mask_setByte: "and (setByte n c b) (mask (8 * Suc n)) = or (and c (mask (8 * n))) (and (push_bit (8 * n) (ucast b)) (mask (8 * Suc n)))"
  by (rule bit_word_eqI) (auto simp: setByte_def bit_simps bit_ff dest: bit_imp_le_length)

lemma byteAt_setByte: "n < 4 \<Longrightarrow> m < 4 \<Longrightarrow> byteAt m (setByte n c b) = (if m = n then b else byteAt m c)"
  by (rule bit_word_eqI) (auto simp: byteAt_def setByte_def bit_simps bit_ff dest: bit_imp_le_length)

section \<open>Parsers a viewer cannot tell apart\<close>

text \<open>The state of a parser with the fields cleared that the parser no longer reads.\<close>

definition live :: "Parser \<Rightarrow> Parser" where
  "live p =
     (case pPhase p of
        GroundState \<Rightarrow> (clear p)\<lparr> pData := [] \<rparr>
      | EscapeState \<Rightarrow> (clear p)\<lparr> pData := [] \<rparr>
      | Utf8State \<Rightarrow> (clear p)\<lparr> pData := [], pParamsLen := pParamsLen p, pCmd := and (pCmd p) (mask (8 * pParamsLen p)) \<rparr>
      | OscStringState \<Rightarrow> (clear p)\<lparr> pCmd := pCmd p, pStringUtf8Rem := pStringUtf8Rem p \<rparr>
      | SosStringState \<Rightarrow> (clear p)\<lparr> pCmd := pCmd p, pStringUtf8Rem := pStringUtf8Rem p \<rparr>
      | PmStringState \<Rightarrow> (clear p)\<lparr> pCmd := pCmd p, pStringUtf8Rem := pStringUtf8Rem p \<rparr>
      | ApcStringState \<Rightarrow> (clear p)\<lparr> pCmd := pCmd p, pStringUtf8Rem := pStringUtf8Rem p \<rparr>
      | DcsStringState \<Rightarrow> p
      | _ \<Rightarrow> p\<lparr> pData := [], pStringUtf8Rem := 0 \<rparr>)"

lemma live_phase [simp]: "pPhase (live p) = pPhase p"
  by (simp add: live_def clear_def split: pState.split)

lemmas act_defs = advance_def Advance_def advanceTable_def leaveState_def clear_def startAction_def
  collectRune_def inStringState_def live_def

lemma live_Ground:
  assumes "pPhase p = GroundState"
  shows "map_prod live id (Advance (live p) b) = map_prod live id (Advance p b)"
  using assms by (cases p) (auto simp: act_defs performAction_def anywhere_def mask_setByte [of 0, simplified])

text \<open>The moves of the table out of the states without a string, per action.\<close>

definition moves :: "pState \<Rightarrow> pAction \<Rightarrow> pState \<Rightarrow> bool" where
  "moves st a st' =
     (case a of
        NoneAction \<Rightarrow> st' = st \<or> st' = GroundState
      | ExecuteAction \<Rightarrow> st' = st \<or> st' = GroundState
      | ClearAction \<Rightarrow> st' = EscapeState \<or> st' = CsiEntryState \<or> st' = DcsEntryState
      | CollectAction \<Rightarrow> st' = Utf8State \<or> st' = EscapeIntermediateState \<or> st' = CsiIntermediateState
      | PrefixAction \<Rightarrow> st' = CsiParamState
      | ParamAction \<Rightarrow> st' = CsiParamState
      | DispatchAction \<Rightarrow> st' = GroundState
      | StartAction \<Rightarrow> st' = OscStringState \<or> st' = SosStringState \<or> st' = PmStringState \<or> st' = ApcStringState
      | _ \<Rightarrow> False)"

definition control :: "pState \<Rightarrow> bool" where
  "control st \<longleftrightarrow> st = EscapeIntermediateState \<or> st = CsiEntryState \<or> st = CsiParamState \<or> st = CsiIntermediateState"

lemma anywhere_moves: "anywhere b = (st', a) \<Longrightarrow> moves st a st'"
  by (auto simp: anywhere_def moves_def split: if_splits)

lemma control_moves:
  assumes "control st" "transition st b = (st', a)"
  shows "moves st a st'"
  using assms anywhere_moves [of b st' a st] unfolding control_def
  by (elim disjE) (auto simp: moves_def split: if_splits)

lemma escape_esc: "transition EscapeState 0x1b = (EscapeState, ClearAction)"
  by (simp add: anywhere_def c0_def within_def)

lemma escape_moves:
  assumes "transition EscapeState b = (st', a)"
  shows "moves EscapeState a st'" "a \<noteq> ParamAction" "a \<noteq> PrefixAction"
    "a = CollectAction \<Longrightarrow> st' \<noteq> CsiIntermediateState" "a = ClearAction \<Longrightarrow> st' = EscapeState \<Longrightarrow> b = 0x1b"
  using assms anywhere_moves [of b st' a EscapeState] by (auto simp: moves_def anywhere_def split: if_splits)

text \<open>A step of the table depends on the phase of the parser and the action it performs.\<close>

definition stepAs :: "pAction \<Rightarrow> pState \<Rightarrow> byte \<Rightarrow> Parser \<Rightarrow> Parser \<times> viewerEvent list" where
  "stepAs a st b q = map_prod live id (case performAction q a st b of (q', e) \<Rightarrow> (q'\<lparr> pPhase := st \<rparr>, e))"

lemma live_control:
  assumes "control (pPhase p)"
  shows "map_prod live id (Advance (live p) b) = map_prod live id (Advance p b)"
proof -
  obtain st' a where t: "transition (pPhase p) b = (st', a)" by fastforce
  have ns: "\<not> inStringState (pPhase p)" "pPhase p \<noteq> Utf8State" "pPhase p \<noteq> EscapeState" "pPhase p \<noteq> DcsEntryState"
    using assms by (auto simp: control_def inStringState_def)
  have lv: "live p = p\<lparr> pData := [], pStringUtf8Rem := 0 \<rparr>" using assms by (auto simp: control_def live_def)
  have m: "moves (pPhase p) a st'" by (rule control_moves [OF assms t])
  have at: "map_prod live id (Advance q b) = stepAs a st' b q" if "pPhase q = pPhase p" for q
    using that ns t by (simp add: Advance_def advance_def advanceTable_def leaveState_def stepAs_def)
  have "stepAs a st' b (p\<lparr> pData := [], pStringUtf8Rem := 0 \<rparr>) = stepAs a st' b p"
  proof (cases a)
    case CollectAction
    with m show ?thesis
      by (auto simp: stepAs_def moves_def performAction_def live_def collectRune_def clear_def mask_setByte [of 0, simplified])
  next
    case DispatchAction
    with m assms show ?thesis
      by (auto simp: stepAs_def moves_def performAction_def live_def dispatchAction_def countLast_def control_def clear_def Let_def)
  next
    case ParamAction
    with m show ?thesis by (auto simp: stepAs_def moves_def performAction_def live_def paramAction_def Let_def)
  qed (use m ns assms in \<open>auto simp: stepAs_def moves_def performAction_def live_def clear_def startAction_def control_def\<close>)
  then show ?thesis unfolding at [OF refl] at [OF live_phase] unfolding lv .
qed

lemma live_Escape:
  assumes "pPhase p = EscapeState"
  shows "map_prod live id (Advance (live p) b) = map_prod live id (Advance p b)"
proof -
  obtain st' a where t: "transition EscapeState b = (st', a)" by fastforce
  note m = escape_moves [OF t]
  let ?a = "if b = 0x1b then ExecuteAction else a"
  have lv: "live p = (clear p)\<lparr> pData := [] \<rparr>" using assms by (simp add: live_def)
  have at: "map_prod live id (Advance q b) = stepAs ?a st' b (if st' = EscapeState then q else clear q)" if "pPhase q = EscapeState" for q
    using that t by (simp add: Advance_def advance_def inStringState_def advanceTable_def leaveState_def stepAs_def Let_def)
  have "stepAs ?a EscapeState b ((clear p)\<lparr> pData := [] \<rparr>) = stepAs ?a EscapeState b p" if "st' = EscapeState"
    using m that by (cases a) (auto simp: stepAs_def moves_def performAction_def live_def clear_def)
  moreover have "stepAs ?a st' b (clear ((clear p)\<lparr> pData := [] \<rparr>)) = stepAs ?a st' b (clear p)" if "st' \<noteq> EscapeState"
  proof -
    have "b \<noteq> 0x1b" using that t escape_esc by auto
    have "clear ((clear p)\<lparr> pData := [] \<rparr>) = (clear p)\<lparr> pData := [] \<rparr>" by (simp add: clear_def)
    moreover have "stepAs a st' b ((clear p)\<lparr> pData := [] \<rparr>) = stepAs a st' b (clear p)"
    proof (cases a)
      case DispatchAction
      with m assms show ?thesis
        by (auto simp: stepAs_def moves_def performAction_def live_def dispatchAction_def countLast_def clear_def Let_def)
    next
      case CollectAction
      with m show ?thesis
        by (auto simp: stepAs_def moves_def performAction_def live_def collectRune_def clear_def mask_setByte [of 0, simplified])
    qed (use m that assms in \<open>auto simp: stepAs_def moves_def performAction_def live_def clear_def startAction_def\<close>)
    ultimately show ?thesis using \<open>b \<noteq> 0x1b\<close> by simp
  qed
  moreover have "pPhase (live p) = EscapeState" using assms by simp
  ultimately show ?thesis unfolding at [OF assms] at [OF \<open>pPhase (live p) = EscapeState\<close>] unfolding lv
    by (cases "st' = EscapeState") simp_all
qed

lemma live_Utf8:
  assumes "pPhase p = Utf8State"
  shows "map_prod live id (Advance (live p) b) = map_prod live id (Advance p b)"
proof -
  let ?q = "live p"
  have q: "pParamsLen ?q = pParamsLen p" "pCmd ?q = and (pCmd p) (mask (8 * pParamsLen p))" "pPhase ?q = Utf8State"
    using assms by (simp_all add: live_def clear_def)
  have n: "pParamsLen (collectRune ?q b) = pParamsLen (collectRune p b)" by (simp add: collectRune_def q)
  have c: "and (pCmd (collectRune ?q b)) (mask (8 * pParamsLen (collectRune p b))) = and (pCmd (collectRune p b)) (mask (8 * pParamsLen (collectRune p b)))"
    by (simp add: collectRune_def q mask_setByte [unfolded mult_Suc_right] and.assoc)
  have at: "byteAt k (pCmd (collectRune ?q b)) = byteAt k (pCmd (collectRune p b))" if "k < pParamsLen (collectRune p b)" for k
    using c byteAt_mask [OF that] by metis
  have pos: "0 < pParamsLen (collectRune p b)" by (simp add: collectRune_def)
  have len: "utf8ByteLen x \<le> 4" for x by (simp add: utf8ByteLen_def)
  let ?rw = "utf8ByteLen (byteAt 0 (pCmd (collectRune p b)))"
  have r: "Rune (collectRune ?q b) = Rune (collectRune p b)" if "\<not> int (pParamsLen (collectRune p b)) < ?rw"
    using that at pos by (auto simp: Rune_def)
  have same: "live (collectRune ?q b) = live (collectRune p b)" "live ((collectRune ?q b)\<lparr> pPhase := GroundState, pParamsLen := 0 \<rparr>) = live ((collectRune p b)\<lparr> pPhase := GroundState, pParamsLen := 0 \<rparr>)"
    using c n assms by (auto simp: live_def clear_def collectRune_def)
  show ?thesis using assms q(3) same r at [OF pos] n by (simp add: Advance_def advanceUtf8_def Let_def)
qed

lemma osc_moves:
  assumes "transition OscStringState b = (st', a)"
  shows "a = NoneAction \<and> (st' = GroundState \<or> st' = OscStringState) \<or> a = PutAction \<and> st' = OscStringState \<or>
    a = DispatchAction \<and> (st' = GroundState \<or> st' = EscapeState)"
  using assms by (auto split: if_splits)

lemma live_Osc:
  assumes "pPhase p = OscStringState"
  shows "map_prod live id (Advance (live p) b) = map_prod live id (Advance p b)"
proof -
  let ?v = "\<lambda>n. (clear p)\<lparr> pCmd := pCmd p, pStringUtf8Rem := n \<rparr>"
  have lv: "live p = ?v (pStringUtf8Rem p)" using assms by (simp add: live_def)
  have phase: "pPhase (putAction q b) = pPhase q" for q by (simp add: putAction_def parseStringCmd_def Let_def)
  have put: "live (putAction (?v n) b) = live (putAction (p\<lparr> pStringUtf8Rem := n \<rparr>) b)" for n
  proof -
    let ?r = "putAction (p\<lparr> pStringUtf8Rem := n \<rparr>) b"
    have "putAction (?v n) b = (clear ?r)\<lparr> pCmd := pCmd ?r, pStringUtf8Rem := pStringUtf8Rem ?r \<rparr>"
      by (cases p) (simp add: putAction_def parseStringCmd_def clear_def Let_def)
    moreover have "pPhase ?r = OscStringState" using phase assms by simp
    ultimately show ?thesis by (simp add: live_def) (simp add: clear_def)
  qed
  have disp: "map_prod live id (case dispatchAction (?v n) b of (q, e) \<Rightarrow> (q\<lparr> pPhase := st' \<rparr>, e)) =
      map_prod live id (case dispatchAction (p\<lparr> pStringUtf8Rem := n \<rparr>) b of (q, e) \<Rightarrow> (q\<lparr> pPhase := st' \<rparr>, e))"
    if "st' = GroundState \<or> st' = EscapeState" for n st'
    using that assms by (auto simp: dispatchAction_def countLast_def parseStringCmd_def live_def clear_def Let_def)
  have tab: "map_prod live id (advanceTable (?v n) b) = map_prod live id (advanceTable (p\<lparr> pStringUtf8Rem := n \<rparr>) b)" for n
  proof -
    obtain st' a where t: "transition OscStringState b = (st', a)" by fastforce
    have at: "advanceTable q b = (case performAction q a st' b of (q', e) \<Rightarrow> (q'\<lparr> pPhase := st' \<rparr>, e))" if "pPhase q = OscStringState" for q
      using that t by (simp add: advanceTable_def leaveState_def)
    have ph: "pPhase (?v n) = OscStringState" "pPhase (p\<lparr> pStringUtf8Rem := n \<rparr>) = OscStringState"
      using assms by (simp_all add: clear_def)
    have put_ph: "(putAction q b)\<lparr> pPhase := OscStringState \<rparr> = putAction q b" if "pPhase q = OscStringState" for q
      using phase [of q] that by simp
    note m = osc_moves [OF t]
    have "map_prod live id (case performAction (?v n) a st' b of (q', e) \<Rightarrow> (q'\<lparr> pPhase := st' \<rparr>, e)) =
        map_prod live id (case performAction (p\<lparr> pStringUtf8Rem := n \<rparr>) a st' b of (q', e) \<Rightarrow> (q'\<lparr> pPhase := st' \<rparr>, e))"
    proof (cases a)
      case PutAction
      with m have st: "st' = OscStringState" by simp
      show ?thesis unfolding PutAction st performAction_def
        using put [of n] put_ph [OF ph(1)] put_ph [OF ph(2)] by simp
    next
      case DispatchAction
      with m disp [of st' n] show ?thesis by (simp add: performAction_def)
    next
      case NoneAction
      with m assms show ?thesis by (auto simp: performAction_def live_def clear_def)
    qed (use m in simp_all)
    then show ?thesis unfolding at [OF ph(1)] at [OF ph(2)] .
  qed
  show ?thesis
    using assms put [of "pStringUtf8Rem p - 1"] tab unfolding lv
    by (simp add: Advance_def advance_def inStringState_def performAction_def clear_def)
qed

definition viewed :: "pState \<Rightarrow> bool" where
  "viewed st \<longleftrightarrow> st = GroundState \<or> st = EscapeState \<or> st = Utf8State \<or> st = OscStringState \<or> control st"

lemma live_Advance:
  "viewed (pPhase p) \<Longrightarrow> map_prod live id (Advance (live p) b) = map_prod live id (Advance p b)"
  using live_Ground [of p b] live_Escape [of p b] live_Utf8 [of p b] live_Osc [of p b] live_control [of p b]
  by (auto simp: viewed_def)

lemma live_step:
  assumes "live p = live q" "viewed (pPhase p)" "Advance p b = (p', e)"
  obtains q' where "Advance q b = (q', e)" "live p' = live q'"
proof -
  have "pPhase q = pPhase p" using assms(1) live_phase by metis
  then have "map_prod live id (Advance q b) = map_prod live id (Advance p b)"
    using live_Advance [of p b] live_Advance [of q b] assms(1,2) by simp
  with that assms(3) show ?thesis by (cases "Advance q b") auto
qed

end
