(* ===== verification/Hook_Refinement.thy ===== *)
theory Hook_Refinement
  imports Viewer_State
begin

declare transition.simps [simp del]

text \<open>
  The contract of the hook filter (cmdman/monitor/hook_filter.go) towards a viewer: on a
  stream of complete sequences, the viewer of the filtered stream sees the events of the
  unfiltered one without the blocked ones.
\<close>

section \<open>Events\<close>

text \<open>What the table does on the bytes of a sequence.\<close>

lemma ground_esc: "pPhase p = GroundState \<Longrightarrow> Advance p 0x1b = ((clear p)\<lparr> pPhase := EscapeState \<rparr>, [])"
  by (simp add: Advance_def advance_def inStringState_def advanceTable_def leaveState_def performAction_def
      transition.simps anywhere_def c0_def within_def)

lemma ground_osc: "pPhase p = GroundState \<Longrightarrow> Advance p 0x9d = ((startAction p 0x9d)\<lparr> pPhase := OscStringState \<rparr>, [])"
  by (simp add: Advance_def advance_def inStringState_def advanceTable_def leaveState_def performAction_def
      transition.simps anywhere_def c0_def within_def)

lemma transition_escape:
  "transition EscapeState 0x5d = (OscStringState, StartAction)" "transition EscapeState 0x9d = (OscStringState, StartAction)"
  "transition EscapeState 0x5c = (GroundState, DispatchAction)"
  by (simp_all add: transition.simps anywhere_def c0_def within_def)

lemma escape_osc:
  "pPhase p = EscapeState \<Longrightarrow> b = 0x5d \<or> b = 0x9d \<Longrightarrow> Advance p b = ((startAction (clear p) b)\<lparr> pPhase := OscStringState \<rparr>, [])"
  by (elim disjE) (simp_all add: Advance_def advance_def inStringState_def advanceTable_def leaveState_def performAction_def
      transition_escape Let_def)

lemma escape_again: "pPhase p = EscapeState \<Longrightarrow> Advance p 0x1b = (p\<lparr> pCmd := 0x1b \<rparr>, [Executed 0x1b])"
  by (simp add: Advance_def advance_def inStringState_def advanceTable_def leaveState_def performAction_def
      escape_esc)

lemma countLast_clear: "countLast (clear p) = clear p"
  by (cases "pParams p") (simp_all add: countLast_def clear_def)

lemma escape_st: "pPhase p = EscapeState \<Longrightarrow> Advance p 0x5c = ((clear p)\<lparr> pPhase := GroundState, pCmd := 0x5c \<rparr>, [EscDispatched 0x5c])"
  by (simp add: Advance_def advance_def inStringState_def advanceTable_def leaveState_def performAction_def
      dispatchAction_def countLast_clear Let_def transition_escape) (simp add: clear_def)

lemma dispatchAction_phase [simp]: "pPhase (countLast p) = pPhase p" "pPhase (parseStringCmd p) = pPhase p"
  by (simp_all add: countLast_def parseStringCmd_def)

lemma dispatchAction_events:
  "snd (dispatchAction p b) = [] \<or> (\<exists>x. snd (dispatchAction p b) = [x] \<and> (\<forall>k. x \<noteq> Executed k) \<and> (\<forall>c d. x = OscDispatched c d \<longrightarrow> pPhase p = OscStringState))"
  by (cases "pPhase p") (simp_all add: dispatchAction_def Let_def)

definition plainEvents :: "Parser \<Rightarrow> byte \<Rightarrow> viewerEvent list \<Rightarrow> bool" where
  "plainEvents p b e \<longleftrightarrow> (\<forall>c d. OscDispatched c d \<in> set e \<longrightarrow> pPhase p = OscStringState) \<and> (\<forall>k. Executed k \<in> set e \<longrightarrow> k = b)"

lemma performAction_events: "plainEvents p b (snd (performAction p a st b))"
  using dispatchAction_events [of p b] by (cases a) (auto simp: performAction_def plainEvents_def)

lemma leaveState_phase [simp]: "pPhase (leaveState p st a) = pPhase p"
  by (simp add: leaveState_def clear_def startAction_def Let_def)

lemma advanceTable_events: "plainEvents p b (snd (advanceTable p b))"
proof -
  obtain st a where t: "transition (pPhase p) b = (st, a)" by fastforce
  let ?a = "if b = 0x1b \<and> pPhase p = EscapeState then ExecuteAction else a"
  obtain q e where q: "performAction (leaveState p st a) ?a st b = (q, e)" by fastforce
  have "advanceTable p b = (q\<lparr> pPhase := st \<rparr>, e)" unfolding advanceTable_def using t q by simp
  then show ?thesis using performAction_events [of "leaveState p st a" b ?a st] q by (simp add: plainEvents_def)
qed

lemma Advance_events: "plainEvents p b (snd (Advance p b))"
proof -
  have u: "plainEvents p b (snd (advanceUtf8 p b))" by (simp add: advanceUtf8_def plainEvents_def Let_def)
  have t: "plainEvents p b (snd (advanceTable (p\<lparr> pStringUtf8Rem := n \<rparr>) b))" for n
    using advanceTable_events [of "p\<lparr> pStringUtf8Rem := n \<rparr>" b] by (simp add: plainEvents_def)
  have "plainEvents p b (snd (performAction (p\<lparr> pStringUtf8Rem := n \<rparr>) PutAction st b))" for n st
    by (simp add: performAction_def plainEvents_def)
  with u t advanceTable_events [of p b] show ?thesis by (simp add: Advance_def advance_def)
qed

text \<open>The phase after a byte that opens no string.\<close>

definition opensOther :: "byte \<Rightarrow> bool" where
  "opensOther b \<longleftrightarrow> b = 0x90 \<or> b = 0x98 \<or> b = 0x9e \<or> b = 0x9f"

definition resting :: "pState \<Rightarrow> bool" where
  "resting st \<longleftrightarrow> st = GroundState \<or> control st"

lemma advanceTable_phase: "pPhase (fst (advanceTable p b)) = fst (transition (pPhase p) b)"
  by (simp add: advanceTable_def split: prod.split)

lemma Advance_phase:
  "pPhase p \<noteq> Utf8State \<Longrightarrow> \<not> inStringState (pPhase p) \<Longrightarrow> pPhase (fst (Advance p b)) = fst (transition (pPhase p) b)"
  by (simp add: Advance_def advance_def advanceTable_phase)

lemma rune_lead: "utf8RuneLen b > 1 \<longleftrightarrow> 0xc2 \<le> unat b \<and> unat b \<le> 0xf4"
  by (auto simp: utf8RuneLen_def word_le_nat_alt)

lemma within_nat: "within lo hi b \<longleftrightarrow> unat lo \<le> unat b \<and> unat b \<le> unat hi"
  by (simp add: within_def word_le_nat_alt)

lemma resting_anywhere:
  assumes "\<not> opensOther b" "b \<noteq> 0x1b" "b \<noteq> 0x9d" "\<not> utf8RuneLen b > 1"
  shows "resting (fst (anywhere b))"
proof -
  have "\<not> (0xc2 \<le> unat b \<and> unat b \<le> 0xf4)" using assms(4) rune_lead by blast
  then have "\<not> (within 0xc2 0xdf b \<or> within 0xe0 0xef b \<or> within 0xf0 0xf4 b)" by (auto simp: within_nat)
  then show ?thesis using assms(1-3) by (simp add: anywhere_def opensOther_def resting_def control_def)
qed

lemma transition_resting:
  assumes "resting st" "resting (fst (anywhere b))"
  shows "resting (fst (transition st b))"
  using assms unfolding resting_def [of st] control_def
  by (elim disjE) (simp_all add: transition.simps, simp_all add: resting_def control_def)

lemma resting_next:
  assumes "resting (pPhase p)" "\<not> opensOther b" "b \<noteq> 0x1b" "b \<noteq> 0x9d" "\<not> utf8RuneLen b > 1"
  shows "resting (pPhase (fst (Advance p b)))"
proof -
  have "pPhase p \<noteq> Utf8State" "\<not> inStringState (pPhase p)" using assms(1) by (auto simp: resting_def control_def inStringState_def)
  then show ?thesis using transition_resting [OF assms(1) resting_anywhere [OF assms(2-5)]] by (simp add: Advance_phase)
qed

lemma resting_escape:
  assumes "pPhase p = EscapeState" "\<not> opensOther b" "b \<noteq> 0x1b" "b \<noteq> 0x9d" "\<not> utf8RuneLen b > 1"
    "\<not> c0 b" "b \<noteq> 0x7f" "b \<noteq> 0x50" "b \<noteq> 0x58" "b \<noteq> 0x5d" "b \<noteq> 0x5e" "b \<noteq> 0x5f"
  shows "resting (pPhase (fst (Advance p b)))"
proof -
  have "resting (fst (transition EscapeState b))"
    using assms resting_anywhere [OF assms(2-5)] by (simp add: transition.simps) (simp add: resting_def control_def)
  then show ?thesis using assms(1) by (simp add: Advance_phase inStringState_def)
qed

lemma transition_rune:
  assumes "utf8RuneLen b > 1" "resting st"
  shows "transition st b = (Utf8State, CollectAction)"
proof -
  have n: "0xc2 \<le> unat b" "unat b \<le> 0xf4" using assms(1) rune_lead by blast+
  have w: "within lo hi b \<longleftrightarrow> False" if "unat hi < 0xc2" for lo hi using that n by (auto simp: within_nat)
  have e: "b = k \<longleftrightarrow> False" if "unat k < 0xc2" for k using that n by auto
  have c: "\<not> c0 b" by (simp add: c0_def w e)
  have "within 0xc2 0xdf b \<or> within 0xe0 0xef b \<or> within 0xf0 0xf4 b" using n by (auto simp: within_nat)
  then have aw: "anywhere b = (Utf8State, CollectAction)" by (simp add: anywhere_def w e)
  show ?thesis using assms(2) unfolding resting_def control_def
    by (elim disjE) (simp_all add: transition.simps w e c aw)
qed

lemma rune_next:
  assumes "resting (pPhase p)" "utf8RuneLen b > 1"
  shows "Advance p b = ((collectRune (p\<lparr> pParamsLen := 0 \<rparr>) b)\<lparr> pPhase := Utf8State \<rparr>, [])"
proof -
  have ns: "pPhase p \<noteq> Utf8State" "\<not> inStringState (pPhase p)" "pPhase p \<noteq> EscapeState"
    using assms(1) by (auto simp: resting_def control_def inStringState_def)
  show ?thesis using ns transition_rune [OF assms(2,1)]
    by (simp add: Advance_def advance_def advanceTable_def leaveState_def performAction_def)
qed

lemma rune_len: "utf8RuneLen b > 1 \<Longrightarrow> utf8ByteLen b = utf8RuneLen b"
  using rune_lead [of b] by (auto simp: utf8RuneLen_def utf8ByteLen_def within_nat word_le_nat_alt)

section \<open>Inside an OSC string\<close>

text \<open>What a parser keeps of the time before the sequence it is in.\<close>

definition rest :: "Parser \<Rightarrow> Parser" where
  "rest p = (clear p)\<lparr> pData := [], pPhase := GroundState \<rparr>"

lemma rest_ground: "pPhase p = GroundState \<Longrightarrow> live p = rest p"
  by (simp add: rest_def live_def clear_def)

lemma rest_escape: "pPhase p = EscapeState \<Longrightarrow> live p = (rest p)\<lparr> pPhase := EscapeState \<rparr>"
  by (simp add: rest_def live_def clear_def)

lemma rest_dispatch: "rest (fst (dispatchAction p b)) = rest p"
  by (simp add: dispatchAction_def Let_def rest_def clear_def countLast_def parseStringCmd_def split: pState.split)

lemma rest_put: "rest (putAction p b) = rest p"
  by (simp add: putAction_def Let_def rest_def clear_def parseStringCmd_def)

lemma rest_phase: "rest (p\<lparr> pPhase := st \<rparr>) = rest p" "rest (p\<lparr> pStringUtf8Rem := n \<rparr>) = rest p"
  "rest (p\<lparr> pCmd := c \<rparr>) = rest p" "rest (clear p) = rest p" "rest (startAction p b) = rest p" "rest (p\<lparr> pData := d \<rparr>) = rest p"
  by (simp_all add: rest_def clear_def startAction_def)

lemma rest_osc:
  assumes "pPhase p = OscStringState"
  shows "rest (fst (Advance p b)) = rest p"
proof -
  have t: "rest (fst (advanceTable q b)) = rest q" if q: "pPhase q = OscStringState" for q
  proof -
    obtain st' a where t: "transition OscStringState b = (st', a)" by fastforce
    have "leaveState q st' a = q" using q by (simp add: leaveState_def)
    then show ?thesis using osc_moves [OF t] q t
      by (auto simp: advanceTable_def performAction_def rest_phase rest_put rest_dispatch split: prod.split
          dest: arg_cong [of _ _ "\<lambda>x. rest (fst x)"]) (metis fst_conv rest_dispatch)+
  qed
  show ?thesis using assms t by (simp add: Advance_def advance_def inStringState_def performAction_def rest_put rest_phase)
qed

lemma osc_data:
  assumes "pPhase p = OscStringState" "classifyOscByte b = oscByteData" "0x20 \<le> b"
  shows "snd (Advance p b) = []" "pPhase (fst (Advance p b)) = OscStringState"
    "pData (fst (Advance p b)) = (if length (pData p) < pDataSize p then pData p @ [b] else pData p)"
proof -
  have k: "b \<noteq> 0x07" "b \<noteq> 0x9c" "b \<noteq> 0x1b" "b \<noteq> 0x18" "b \<noteq> 0x1a" using assms(2) by (auto simp: classifyOscByte_def)
  have "unat b < 2 ^ LENGTH(8)" by (rule unsigned_less)
  then have "b \<le> 0xff" by (simp add: word_le_nat_alt)
  with k assms(3) have t: "transition OscStringState b = (OscStringState, PutAction)" by (simp add: transition.simps within_def)
  have put: "pPhase (putAction q b) = pPhase q" "pData (putAction q b) = (if length (pData q) < pDataSize q then pData q @ [b] else pData q)" for q
    by (simp_all add: putAction_def parseStringCmd_def Let_def)
  show "snd (Advance p b) = []" "pPhase (fst (Advance p b)) = OscStringState"
    "pData (fst (Advance p b)) = (if length (pData p) < pDataSize p then pData p @ [b] else pData p)"
    using assms(1) t by (simp_all add: Advance_def advance_def inStringState_def advanceTable_def leaveState_def performAction_def put)
qed

lemma osc_stop:
  assumes "pPhase p = OscStringState" "classifyOscByte b \<noteq> oscByteData" "b = 0x9c \<Longrightarrow> pStringUtf8Rem p = 0"
  shows "pPhase (fst (Advance p b)) = (if b = 0x1b then EscapeState else GroundState)"
    "classifyOscByte b = oscByteAbort \<Longrightarrow> snd (Advance p b) = []"
    "classifyOscByte b \<noteq> oscByteAbort \<Longrightarrow> \<exists>c. snd (Advance p b) = [OscDispatched c (pData p)]"
proof -
  have b: "b = 0x07 \<or> b = 0x9c \<or> b = 0x1b \<or> b = 0x18 \<or> b = 0x1a" using assms(2) by (auto simp: classifyOscByte_def split: if_splits)
  obtain n where tab: "Advance p b = advanceTable (p\<lparr> pStringUtf8Rem := n \<rparr>) b"
    using assms(1,3) b by (auto simp: Advance_def advance_def inStringState_def)
  have t: "transition OscStringState b = (if b = 0x1b then EscapeState else GroundState, if classifyOscByte b = oscByteAbort then NoneAction else DispatchAction)"
    using b by (auto simp: transition.simps classifyOscByte_def)
  have d: "\<exists>c. snd (dispatchAction (p\<lparr> pStringUtf8Rem := n \<rparr>) b) = [OscDispatched c (pData p)]"
    using assms(1) by (simp add: dispatchAction_def Let_def countLast_def parseStringCmd_def)
  show "pPhase (fst (Advance p b)) = (if b = 0x1b then EscapeState else GroundState)"
    unfolding tab advanceTable_phase using assms(1) t by simp
  show "classifyOscByte b = oscByteAbort \<Longrightarrow> snd (Advance p b) = []"
    unfolding tab using assms(1) t by (simp add: advanceTable_def performAction_def)
  show "classifyOscByte b \<noteq> oscByteAbort \<Longrightarrow> \<exists>c. snd (Advance p b) = [OscDispatched c (pData p)]"
    unfolding tab using assms(1) t d
    by (cases "dispatchAction (p\<lparr> pStringUtf8Rem := n \<rparr>) b") (auto simp: advanceTable_def performAction_def leaveState_def)
qed

section \<open>Deciding a sequence\<close>

lemma bytesCut_append:
  "snd (snd (bytesCut sep xs)) \<Longrightarrow> bytesCut sep (xs @ ys) = (fst (bytesCut sep xs), fst (snd (bytesCut sep xs)) @ ys, True)"
  by (induction xs) (auto split: prod.splits)

lemma bytesCut_none: "\<not> snd (snd (bytesCut sep xs)) \<Longrightarrow> bytesCut sep xs = (xs, [], False) \<and> sep \<notin> set xs"
  by (induction xs) (auto split: prod.splits if_splits)

lemma bytesCut_extend: "sep \<notin> set xs \<Longrightarrow> bytesCut sep (xs @ ys) = (case bytesCut sep ys of (a, b, f) \<Rightarrow> (xs @ a, b, f))"
  by (induction xs) (auto split: prod.splits)

lemma decideOsc9_stable: "decideOsc9 bl xs False = (blk, True) \<Longrightarrow> decideOsc9 bl (xs @ ys) t = (blk, True)"
  by (auto simp: decideOsc9_def split: list.splits if_splits)

lemma decideOsc777_stable:
  assumes "decideOsc777 bl xs False = (blk, True)"
  shows "decideOsc777 bl (xs @ ys) t = (blk, True)"
proof (cases "snd (snd (bytesCut 0x3b xs))")
  case True
  then show ?thesis using assms bytesCut_append [OF True, of ys] by (auto simp: decideOsc777_def split: prod.splits if_splits)
next
  case False
  note n = bytesCut_none [OF False]
  have b: "blk = False" "length xs > length notifyBytes \<or> \<not> prefix xs notifyBytes" using assms n by (auto simp: decideOsc777_def split: if_splits)
  then have np: "\<not> prefix (xs @ zs) notifyBytes" for zs
    using prefix_length_le [of "xs @ zs" notifyBytes] append_prefixD by fastforce
  obtain a r f where c: "bytesCut 0x3b ys = (a, r, f)" by (cases "bytesCut 0x3b ys") auto
  have "xs @ a \<noteq> notifyBytes" using np [of a] by auto
  then show ?thesis using n c b(1) np [of a] by (simp add: decideOsc777_def bytesCut_extend)
qed

lemma isDigits_append: "isDigits (xs @ ys) \<longleftrightarrow> isDigits xs \<and> isDigits ys"
  by (simp add: isDigits_def)

text \<open>Once the prefix of a sequence is decided, the rest of it and its end do not change the
  decision.\<close>

lemma decideOsc_stable:
  assumes "decideOsc bl xs False = (blk, True)" "xs \<noteq> []"
  shows "decideOsc bl (xs @ ys) t = (blk, True)"
proof (cases "snd (snd (bytesCut 0x3b xs))")
  case True
  then show ?thesis using assms(1) bytesCut_append [OF True, of ys]
    by (auto simp: decideOsc_def decideOsc9_stable decideOsc777_stable split: prod.splits if_splits)
next
  case False
  note n = bytesCut_none [OF False]
  have b: "blk = False" "\<not> isDigits xs \<or> length xs > 3" using assms n by (auto simp: decideOsc_def split: if_splits)
  obtain a r f where c: "bytesCut 0x3b ys = (a, r, f)" by (cases "bytesCut 0x3b ys") auto
  have "length (xs @ a) > 3 \<or> \<not> isDigits (xs @ a)" using b(2) by (auto simp: isDigits_append)
  then have "xs @ a \<notin> {[0x30], [0x32], [0x39], [0x37, 0x37, 0x37]}" if "isDigits (xs @ a)"
    using that by (auto dest: arg_cong [where f = length])
  then show ?thesis using n c b assms(2) by (auto simp: decideOsc_def bytesCut_extend isDigits_append)
qed

lemma bytesCut_length:
  "length xs = length (fst (bytesCut sep xs)) + length (fst (snd (bytesCut sep xs))) + (if snd (snd (bytesCut sep xs)) then 1 else 0)"
  by (induction xs) (auto split: prod.splits)

lemma undecided9_short: "\<not> snd (decideOsc9 bl xs False) \<Longrightarrow> length xs \<le> 1"
  by (auto simp: decideOsc9_def split: list.splits if_splits)

lemma undecided777_short: "\<not> snd (decideOsc777 bl xs False) \<Longrightarrow> length xs \<le> 6"
  using bytesCut_none [of "0x3b" xs] by (auto simp: decideOsc777_def notifyBytes_def split: prod.splits if_splits)

lemma undecided_short:
  assumes "\<not> snd (decideOsc bl xs False)"
  shows "length xs < oscDecideLimit"
proof -
  obtain num r f where c: "bytesCut 0x3b xs = (num, r, f)" by (cases "bytesCut 0x3b xs") auto
  have len: "length xs = length num + length r + (if f then 1 else 0)" using bytesCut_length [of xs "0x3b"] c by simp
  show ?thesis
  proof (cases f)
    case True
    then have "num = [0x39] \<and> \<not> snd (decideOsc9 bl r False) \<or> num = [0x37, 0x37, 0x37] \<and> \<not> snd (decideOsc777 bl r False)"
      using assms c by (auto simp: decideOsc_def split: if_splits)
    then show ?thesis using len undecided9_short [of bl r] undecided777_short [of bl r] by (auto simp: oscDecideLimit_def)
  next
    case False
    then have "xs = num" "length num \<le> 3" using assms c bytesCut_none [of "0x3b" xs] by (auto simp: decideOsc_def split: if_splits)
    then show ?thesis by (simp add: oscDecideLimit_def)
  qed
qed

section \<open>Complete sequences\<close>

text \<open>Events without effect on a viewer: the ST that follows a string already dispatched by
  its ESC, and an ESC that another one supersedes, have no handler.\<close>

definition silent :: "viewerEvent \<Rightarrow> bool" where
  "silent e \<longleftrightarrow> e = EscDispatched 0x5c \<or> e = Executed 0x1b"

definition blockedEvent :: "hookBlocks \<Rightarrow> viewerEvent \<Rightarrow> bool" where
  "blockedEvent bl e =
     (case e of
        Executed b \<Rightarrow> b = 0x07 \<and> hbBell bl
      | OscDispatched _ payload \<Rightarrow> fst (decideOsc bl payload True)
      | _ \<Rightarrow> False)"

definition shown :: "viewerEvent list \<Rightarrow> viewerEvent list" where
  "shown es = filter (\<lambda>e. \<not> silent e) es"

definition unblocked :: "hookBlocks \<Rightarrow> viewerEvent list \<Rightarrow> viewerEvent list" where
  "unblocked bl es = filter (\<lambda>e. \<not> blockedEvent bl e) (shown es)"

text \<open>A stream of complete sequences, read by a parser: no DCS, SOS, PM or APC string, no
  control byte inside an escape or control sequence, none but a terminator inside an OSC
  string, no new sequence inside a control sequence, no OSC right after an OSC that ended
  with a bare ESC, and no byte 0x9C inside a rune of an OSC string. The flag says that the
  last byte was an ESC that ended an OSC string.\<close>

definition tameByte :: "bool \<Rightarrow> Parser \<Rightarrow> byte \<Rightarrow> bool" where
  "tameByte st p b =
     (if pPhase p = GroundState then \<not> opensOther b
      else if pPhase p = EscapeState then
        \<not> c0 b \<and> b \<noteq> 0x7f \<and> \<not> utf8RuneLen b > 1 \<and> \<not> opensOther b \<and> b \<noteq> 0x50 \<and> b \<noteq> 0x58 \<and> b \<noteq> 0x5e \<and> b \<noteq> 0x5f \<and>
        (st \<longrightarrow> b \<noteq> 0x5d \<and> b \<noteq> 0x9d \<and> b \<noteq> 0x1b)
      else if pPhase p = OscStringState then
        (0x20 \<le> b \<or> classifyOscByte b \<noteq> oscByteData) \<and> (b = 0x9c \<longrightarrow> pStringUtf8Rem p = 0)
      else if pPhase p = Utf8State then True
      else control (pPhase p) \<and> \<not> opensOther b \<and> b \<noteq> 0x1b \<and> b \<noteq> 0x9d \<and> b \<noteq> 0x07)"

fun tame :: "bool \<Rightarrow> Parser \<Rightarrow> byte list \<Rightarrow> bool" where
  "tame st p [] = True"
| "tame st p (b # bs) = (tameByte st p b \<and> tame (pPhase p = OscStringState \<and> b = 0x1b) (fst (Advance p b)) bs)"

section \<open>Simulation\<close>

text \<open>The viewer of the filtered stream has not seen the bytes the filter holds; fed with
  them, it is where the viewer of the unfiltered stream is, except inside a sequence that is
  being dropped, where it waits in its ground state.\<close>

definition aside :: "Parser \<Rightarrow> Parser \<Rightarrow> bool" where
  "aside pin pout \<longleftrightarrow> pPhase pout = GroundState \<and> rest pin = rest pout"

definition sim :: "hookBlocks \<Rightarrow> bool \<Rightarrow> hookFilter \<Rightarrow> Parser \<Rightarrow> Parser \<Rightarrow> bool" where
  "sim bl st f pin pout \<longleftrightarrow>
     hfBlocks f = bl \<and> filter_inv f \<and> oscDecideLimit \<le> pDataSize pin \<and>
     (let v = fst (runParser pout (heldOf f)); owed = shown (snd (runParser pout (heldOf f)))
      in case hfState f of
           hookFilterGround \<Rightarrow> live v = live pin \<and> resting (pPhase pin)
         | hookFilterUtf8 \<Rightarrow> live v = live pin \<and> pPhase pin = Utf8State \<and> 0 < pParamsLen pin \<and> 0 < hfUtf8Rest f \<and>
             utf8ByteLen (byteAt 0 (pCmd pin)) = int (pParamsLen pin) + hfUtf8Rest f
         | hookFilterEsc \<Rightarrow> live v = live pin \<and> pPhase pin = EscapeState \<and> (\<not> st \<longrightarrow> aside pin pout \<and> owed = [])
         | hookFilterOscID \<Rightarrow> live v = live pin \<and> pPhase pin = OscStringState \<and> aside pin pout \<and> owed = [] \<and>
             pData pin = drop (hfPrefixLen f) (hfPending f) \<and> (pData pin = [] \<or> \<not> snd (decideOsc bl (pData pin) False))
         | hookFilterOscPass \<Rightarrow> live v = live pin \<and> pPhase pin = OscStringState \<and>
             pData pin \<noteq> [] \<and> decideOsc bl (pData pin) False = (False, True)
         | hookFilterOscDrop \<Rightarrow> pPhase pin = OscStringState \<and> aside pin pout \<and>
             pData pin \<noteq> [] \<and> decideOsc bl (pData pin) False = (True, True)
         | hookFilterOscDropEsc \<Rightarrow> pPhase pin = EscapeState \<and> aside pin pout \<and> st)"

definition owedTo :: "hookFilter \<Rightarrow> Parser \<Rightarrow> viewerEvent list" where
  "owedTo f pout = shown (snd (runParser pout (heldOf f)))"

text \<open>One step: what the viewer is shown and still owed is what it was owed and the
  unblocked part of the events.\<close>

definition sim_next :: "hookBlocks \<Rightarrow> bool \<Rightarrow> hookFilter \<Rightarrow> Parser \<Rightarrow> Parser \<Rightarrow> byte \<Rightarrow> bool" where
  "sim_next bl st f pin pout b \<longleftrightarrow>
     (case filterStep f b of (f', out) \<Rightarrow> case Advance pin b of (pin', e) \<Rightarrow> case runParser pout out of (pout', e') \<Rightarrow>
        sim bl (pPhase pin = OscStringState \<and> b = 0x1b) f' pin' pout' \<and>
        shown e' @ owedTo f' pout' = owedTo f pout @ unblocked bl e)"

lemma shown_append [simp]: "shown (a @ b) = shown a @ shown b" "shown [] = []"
  by (simp_all add: shown_def)

lemma unblocked_append [simp]: "unblocked bl (a @ b) = unblocked bl a @ unblocked bl b" "unblocked bl [] = []"
  by (simp_all add: unblocked_def)

lemma performAction_size: "pDataSize (fst (performAction p a st b)) = pDataSize p"
  by (cases a) (auto simp: performAction_def clear_def collectRune_def paramAction_def startAction_def putAction_def
      parseStringCmd_def dispatchAction_def countLast_def Let_def split: pState.split)

lemma Advance_size: "pDataSize (fst (Advance p b)) = pDataSize p"
proof -
  have "pDataSize (leaveState q st a) = pDataSize q" for q st a
    by (simp add: leaveState_def clear_def startAction_def Let_def)
  then have t: "pDataSize (fst (advanceTable q b)) = pDataSize q" for q
    using performAction_size by (simp add: advanceTable_def split: prod.split) (metis fst_conv)
  have "pDataSize (fst (advanceUtf8 p b)) = pDataSize p" by (simp add: advanceUtf8_def Let_def collectRune_def)
  then show ?thesis using t performAction_size by (simp add: Advance_def advance_def)
qed

text \<open>A step that drops nothing.\<close>

lemma conserve:
  assumes "live (fst (runParser pout held)) = live pin" "viewed (pPhase pin)" "Advance pin b = (pin', e)"
    and "out @ held' = held @ [b]" "runParser pout out = (pout', e')"
  shows "live (fst (runParser pout' held')) = live pin'" "e' @ snd (runParser pout' held') = snd (runParser pout held) @ e"
proof -
  obtain v w where v: "runParser pout held = (v, w)" by fastforce
  have "pPhase v = pPhase pin" using assms(1) v live_phase by (metis fst_conv)
  obtain v' where v': "Advance v b = (v', e)" "live pin' = live v'"
    using live_step [OF _ assms(2,3), of v] assms(1) v by auto
  have "runParser pout (out @ held') = (v', w @ e)" unfolding assms(4) by (simp add: runParser_append v v'(1))
  then show "live (fst (runParser pout' held')) = live pin'" "e' @ snd (runParser pout' held') = snd (runParser pout held) @ e"
    using assms(5) v v'(2) by (auto simp: runParser_append split: prod.splits)
qed

lemma nothing_blocked:
  assumes "pPhase p \<noteq> OscStringState" "b = 0x07 \<Longrightarrow> \<not> hbBell bl"
  shows "unblocked bl (snd (Advance p b)) = shown (snd (Advance p b))"
proof -
  have "\<not> blockedEvent bl x" if "x \<in> set (snd (Advance p b))" for x
    using Advance_events [of p b] assms that by (cases x) (auto simp: blockedEvent_def plainEvents_def)
  then show ?thesis unfolding unblocked_def shown_def filter_filter by (intro filter_cong) auto
qed

text \<open>The bytes a conserving step of the filter leaves held, and the state it enters.\<close>

lemma keep:
  assumes s: "sim bl st f pin pout" and "live (fst (runParser pout (heldOf f))) = live pin" "viewed (pPhase pin)"
    and f: "filterStep f b = (f', out)" "out @ heldOf f' = heldOf f @ [b]" "hfBlocks f' = hfBlocks f"
    and u: "unblocked bl (snd (Advance pin b)) = shown (snd (Advance pin b))"
    and next_state: "\<And>pin' pout' e'. pin' = fst (Advance pin b) \<Longrightarrow> runParser pout out = (pout', e') \<Longrightarrow>
      live (fst (runParser pout' (heldOf f'))) = live pin' \<Longrightarrow>
      shown e' @ owedTo f' pout' = owedTo f pout @ shown (snd (Advance pin b)) \<Longrightarrow>
      filter_inv f' \<Longrightarrow> hfBlocks f' = bl \<Longrightarrow> oscDecideLimit \<le> pDataSize pin' \<Longrightarrow>
      sim bl (pPhase pin = OscStringState \<and> b = 0x1b) f' pin' pout'"
  shows "sim_next bl st f pin pout b"
proof -
  obtain pin' e where a: "Advance pin b = (pin', e)" by fastforce
  obtain pout' e' where r: "runParser pout out = (pout', e')" by fastforce
  note c = conserve [OF assms(2,3) a f(2) r]
  have sh: "shown e' @ owedTo f' pout' = owedTo f pout @ shown e" unfolding owedTo_def by (simp only: shown_append [symmetric] c(2))
  have "filter_inv f'" using s step_conserve(1) [OF _ f(1)] by (simp add: sim_def)
  moreover have "oscDecideLimit \<le> pDataSize pin'" using s a Advance_size [of pin b] by (simp add: sim_def)
  ultimately have "sim bl (pPhase pin = OscStringState \<and> b = 0x1b) f' pin' pout'"
    using next_state [of pin' pout' e'] a r c(1) sh f(3) s by (simp add: sim_def)
  then show ?thesis using f(1) a r sh u by (simp add: sim_next_def)
qed

lemma sim_ground:
  assumes s: "sim bl st f pin pout" and g: "hfState f = hookFilterGround" and t: "tameByte st pin b"
  shows "sim_next bl st f pin pout b"
proof -
  have i: "live pout = live pin" "resting (pPhase pin)" "hfEscCarry f = 0" "hfBlocks f = bl" "filter_inv f" "oscDecideLimit \<le> pDataSize pin"
    using s g by (simp_all add: sim_def filter_inv_def)
  have po: "pPhase pout = pPhase pin" using i(1) live_phase by metis
  have lv: "live (fst (runParser pout (heldOf f))) = live pin" using i(1) g by simp
  have vw: "viewed (pPhase pin)" using i(2) by (auto simp: resting_def viewed_def)
  have gr: "pPhase pin = GroundState \<and> aside pin pout" if "b = 0x1b \<or> b = 0x9d \<or> b = 0x07"
    using that t i(1,2) po rest_ground by (auto simp: tameByte_def resting_def control_def aside_def split: if_splits)
  have no: "\<not> opensOther b" using t i(2) by (auto simp: tameByte_def resting_def control_def split: if_splits)
  have nosc: "pPhase pin \<noteq> OscStringState" using i(2) by (auto simp: resting_def control_def)
  consider (esc) "b = 0x1b" | (osc) "b = 0x9d" | (bell) "b = 0x07" "hbBell bl"
    | (rune) "utf8RuneLen b > 1" | (other) "b \<noteq> 0x1b" "b \<noteq> 0x9d" "b = 0x07 \<Longrightarrow> \<not> hbBell bl" "\<not> utf8RuneLen b > 1" by blast
  then show ?thesis
  proof cases
    case esc
    then have f: "filterStep f b = (f\<lparr> hfState := hookFilterEsc \<rparr>, [])" using g by (simp add: filterStep_def stepGround_def)
    show ?thesis
    proof (rule keep [OF s lv vw f])
      show "unblocked bl (snd (Advance pin b)) = shown (snd (Advance pin b))" using ground_esc [of pin] gr esc by simp
    qed (use esc gr i g ground_esc [of pin] ground_esc [of pout] po in \<open>auto simp: sim_def owedTo_def aside_def rest_phase\<close>)
  next
    case osc
    then have f: "filterStep f b = (beginOsc f [0x9d], [])" using g by (simp add: filterStep_def stepGround_def)
    show ?thesis
    proof (rule keep [OF s lv vw f])
      show "unblocked bl (snd (Advance pin b)) = shown (snd (Advance pin b))" using ground_osc [of pin] gr osc by simp
    qed (use osc gr i g ground_osc [of pin] ground_osc [of pout] po in
        \<open>auto simp: sim_def owedTo_def aside_def rest_phase beginOsc_def startAction_def\<close>)
  next
    case bell
    then have f: "filterStep f b = (f, [])" using g i(4) by (simp add: filterStep_def stepGround_def)
    have a: "Advance pin b = (pin\<lparr> pCmd := 7 \<rparr>, [Executed 7])" using gr bell
      by (simp add: Advance_def advance_def inStringState_def advanceTable_def leaveState_def performAction_def
        transition.simps anywhere_def c0_def within_def)
    have "live (pin\<lparr> pCmd := 7 \<rparr>) = live pin" using gr bell by (simp add: live_def clear_def)
    then show ?thesis using f a i g gr bell
      by (simp add: sim_next_def sim_def owedTo_def unblocked_def shown_def silent_def blockedEvent_def)
  next
    case rune
    have ne: "b \<noteq> 0x1b" "b \<noteq> 0x9d" "b \<noteq> 0x07" using rune rune_lead [of b] by auto
    with rune have f: "filterStep f b = (f\<lparr> hfState := hookFilterUtf8, hfUtf8Rest := utf8RuneLen b - 1 \<rparr>, [b])"
      using g by (simp add: filterStep_def stepGround_def)
    note n = rune_next [OF i(2) rune] rune_len [OF rune]
    show ?thesis
    proof (rule keep [OF s lv vw f])
      show "unblocked bl (snd (Advance pin b)) = shown (snd (Advance pin b))" using n by simp
    qed (use i g n ne rune nosc in \<open>auto simp: sim_def owedTo_def collectRune_def byteAt_setByte\<close>)
  next
    case other
    then have f: "filterStep f b = (f, [b])" using g i(4) by (auto simp: filterStep_def stepGround_def)
    have "resting (pPhase (fst (Advance pin b)))" by (rule resting_next [OF i(2) no other(1,2,4)])
    moreover have "unblocked bl (snd (Advance pin b)) = shown (snd (Advance pin b))"
      by (rule nothing_blocked [OF nosc other(3)])
    ultimately show ?thesis by (intro keep [OF s lv vw f]) (use g i in \<open>auto simp: sim_def\<close>)
  qed
qed

lemma sim_utf8:
  assumes s: "sim bl st f pin pout" and g: "hfState f = hookFilterUtf8"
  shows "sim_next bl st f pin pout b"
proof -
  have i: "live pout = live pin" "pPhase pin = Utf8State" "0 < pParamsLen pin" "0 < hfUtf8Rest f"
      "utf8ByteLen (byteAt 0 (pCmd pin)) = int (pParamsLen pin) + hfUtf8Rest f" "hfEscCarry f = 0"
    using s g by (simp_all add: sim_def filter_inv_def)
  have "utf8ByteLen (byteAt 0 (pCmd pin)) \<le> 4" by (simp add: utf8ByteLen_def)
  then have n: "pParamsLen pin < 4" using i(4,5) by simp
  have lv: "live (fst (runParser pout (heldOf f))) = live pin" and vw: "viewed (pPhase pin)" using i(1,2) g by (simp_all add: viewed_def)
  have b0: "byteAt 0 (setByte (pParamsLen pin) (pCmd pin) b) = byteAt 0 (pCmd pin)" using n i(3) by (simp add: byteAt_setByte)
  let ?q = "pin\<lparr> pCmd := setByte (pParamsLen pin) (pCmd pin) b, pParamsLen := pParamsLen pin + 1 \<rparr>"
  show ?thesis
  proof (cases "hfUtf8Rest f = 1")
    case True
    then have f: "filterStep f b = (f\<lparr> hfUtf8Rest := 0, hfState := hookFilterGround \<rparr>, [b])"
      using g by (simp add: filterStep_def stepUtf8_def)
    have a: "Advance pin b = (?q\<lparr> pPhase := GroundState, pParamsLen := 0 \<rparr>, [Printed (Rune ?q)])"
      using i n b0 True by (simp add: Advance_def advanceUtf8_def collectRune_def Let_def)
    show ?thesis by (rule keep [OF s lv vw f]) (use a g i in \<open>auto simp: sim_def resting_def unblocked_def shown_def blockedEvent_def\<close>)
  next
    case False
    then have f: "filterStep f b = (f\<lparr> hfUtf8Rest := hfUtf8Rest f - 1 \<rparr>, [b])"
      using g i(4) by (simp add: filterStep_def stepUtf8_def)
    have a: "Advance pin b = (?q, [])"
      using i n b0 False by (simp add: Advance_def advanceUtf8_def collectRune_def Let_def)
    show ?thesis by (rule keep [OF s lv vw f]) (use a g i b0 False in \<open>auto simp: sim_def\<close>)
  qed
qed

lemma sim_esc:
  assumes s: "sim bl st f pin pout" and g: "hfState f = hookFilterEsc" and t: "tameByte st pin b"
  shows "sim_next bl st f pin pout b"
proof -
  have i: "live (fst (runParser pout (heldOf f))) = live pin" "pPhase pin = EscapeState"
    "\<not> st \<Longrightarrow> aside pin pout \<and> owedTo f pout = []"
    using s g by (simp_all add: sim_def owedTo_def Let_def)
  have vw: "viewed (pPhase pin)" using i(2) by (simp add: viewed_def)
  have t': "\<not> c0 b" "b \<noteq> 0x7f" "\<not> utf8RuneLen b > 1" "\<not> opensOther b" "b \<noteq> 0x50" "b \<noteq> 0x58" "b \<noteq> 0x5e" "b \<noteq> 0x5f"
    "b = 0x5d \<or> b = 0x9d \<or> b = 0x1b \<Longrightarrow> \<not> st" using t i(2) by (auto simp: tameByte_def)
  have "b \<noteq> 0x07" using t'(1) by (auto simp: c0_def within_def)
  then have u: "unblocked bl (snd (Advance pin b)) = shown (snd (Advance pin b))" using i(2) by (intro nothing_blocked) simp_all
  consider (osc) "b = 0x5d \<or> b = 0x9d" | (esc) "b = 0x1b" | (other) "b \<noteq> 0x5d" "b \<noteq> 0x9d" "b \<noteq> 0x1b" by blast
  then show ?thesis
  proof cases
    case osc
    then have f: "filterStep f b = (beginOsc f [0x1b, b], [])" using g by (auto simp: filterStep_def stepEsc_def)
    show ?thesis by (rule keep [OF s i(1) vw f _ _ u])
        (use osc g t'(9) i(2,3) escape_osc [OF i(2) osc] in
          \<open>auto simp: sim_def owedTo_def beginOsc_def Let_def aside_def rest_phase startAction_def replicate_app_Cons_same\<close>)
  next
    case esc
    then have f: "filterStep f b = (f\<lparr> hfEscCarry := hfEscCarry f + 1 \<rparr>, [])" using g by (simp add: filterStep_def stepEsc_def)
    show ?thesis by (rule keep [OF s i(1) vw f _ _ u])
        (use esc g t'(9) i(2,3) escape_again [OF i(2)] in
          \<open>auto simp: sim_def owedTo_def Let_def aside_def rest_phase shown_def silent_def replicate_append_same simp del: runParser.simps(2)\<close>)
  next
    case other
    then have f: "filterStep f b = (f\<lparr> hfState := hookFilterGround, hfEscCarry := 0 \<rparr>, replicate (hfEscCarry f) 0x1b @ [0x1b, b])"
      using g by (simp add: filterStep_def stepEsc_def flushEscCarry_def)
    have "resting (pPhase (fst (Advance pin b)))" using other t' by (intro resting_escape [OF i(2)]) simp_all
    then show ?thesis by (intro keep [OF s i(1) vw f _ _ u]) (use g in \<open>auto simp: sim_def replicate_app_Cons_same\<close>)
  qed
qed

text \<open>A step that drops what was held: the viewer stays in its ground state.\<close>

lemma drop_step:
  assumes s: "sim bl st f pin pout" and f: "filterStep f b = (f', [])" "hfBlocks f' = bl"
    and a: "aside pin pout" "rest (fst (Advance pin b)) = rest pin" "owedTo f pout = []" "unblocked bl (snd (Advance pin b)) = []"
    and n: "hfState f' = hookFilterGround \<and> pPhase (fst (Advance pin b)) = GroundState \<or>
      hfState f' = hookFilterOscDropEsc \<and> pPhase (fst (Advance pin b)) = EscapeState \<and> pPhase pin = OscStringState \<and> b = 0x1b \<or>
      hfState f' = hookFilterOscDrop \<and> pPhase (fst (Advance pin b)) = OscStringState \<and>
        pData (fst (Advance pin b)) \<noteq> [] \<and> decideOsc bl (pData (fst (Advance pin b))) False = (True, True)"
  shows "sim_next bl st f pin pout b"
proof -
  obtain pin' e where p: "Advance pin b = (pin', e)" by fastforce
  have g: "pPhase pout = GroundState" and r: "rest pin' = rest pout" using a(1,2) p by (simp_all add: aside_def)
  have "filter_inv f'" using s step_conserve(1) [OF _ f(1)] by (simp add: sim_def)
  moreover have "oscDecideLimit \<le> pDataSize pin'" using s p Advance_size [of pin b] by (simp add: sim_def)
  moreover have "owedTo f' pout = []" using n ground_esc [OF g] by (auto simp: owedTo_def)
  moreover have "live pout = live pin'" if "pPhase pin' = GroundState" using that g r by (simp add: rest_ground)
  ultimately show ?thesis using f a p n g r by (auto simp: sim_next_def sim_def aside_def resting_def Let_def)
qed

lemma osc_unblocked:
  "unblocked bl [OscDispatched c d] = (if fst (decideOsc bl d True) then [] else shown [OscDispatched c d])"
  by (simp add: unblocked_def shown_def silent_def blockedEvent_def)

lemma stop_unblocked:
  assumes "pPhase p = OscStringState" "classifyOscByte b \<noteq> oscByteData" "b = 0x9c \<Longrightarrow> pStringUtf8Rem p = 0"
  shows "unblocked bl (snd (Advance p b)) = (if fst (decideOsc bl (pData p) True) then [] else shown (snd (Advance p b)))"
  using osc_stop(2,3) [OF assms] osc_unblocked by (cases "classifyOscByte b = oscByteAbort") auto

text \<open>The rest of a dropped sequence.\<close>

lemma sim_oscDrop:
  assumes s: "sim bl st f pin pout" and g: "hfState f = hookFilterOscDrop" and t: "tameByte st pin b"
  shows "sim_next bl st f pin pout b"
proof -
  have i: "hfBlocks f = bl" "pPhase pin = OscStringState" "aside pin pout" "pData pin \<noteq> []" "decideOsc bl (pData pin) False = (True, True)"
    using s g by (simp_all add: sim_def)
  have t': "0x20 \<le> b \<or> classifyOscByte b \<noteq> oscByteData" "b = 0x9c \<Longrightarrow> pStringUtf8Rem pin = 0" using t i(2) by (auto simp: tameByte_def)
  have ow: "owedTo f pout = []" using g by (simp add: owedTo_def)
  have blk: "fst (decideOsc bl (pData pin) True)" using decideOsc_stable [OF i(5,4), of "[]" True] by simp
  note drop = drop_step [OF s _ _ i(3) rest_osc [OF i(2)] ow]
  show ?thesis
  proof (cases "classifyOscByte b = oscByteData")
    case True
    then have f: "filterStep f b = (f, [])" using g by (simp add: filterStep_def stepOscDrop_def)
    have b: "0x20 \<le> b" using t'(1) True by simp
    have "decideOsc bl (pData pin @ [b]) False = (True, True)" by (rule decideOsc_stable [OF i(5,4)])
    then show ?thesis using osc_data [OF i(2) True b] i g by (intro drop [OF f]) auto
  next
    case False
    then have f: "filterStep f b = (f\<lparr> hfState := (if b = 0x1b then hookFilterOscDropEsc else hookFilterGround) \<rparr>, [])"
      using g by (auto simp: filterStep_def stepOscDrop_def classifyOscByte_def split: oscByte.split)
    show ?thesis using osc_stop(1) [OF i(2) False t'(2)] stop_unblocked [OF i(2) False t'(2)] blk i
      by (intro drop [OF f]) auto
  qed
qed

lemma sim_oscDropEsc:
  assumes s: "sim bl st f pin pout" and g: "hfState f = hookFilterOscDropEsc" and t: "tameByte st pin b"
  shows "sim_next bl st f pin pout b"
proof -
  have i: "hfBlocks f = bl" "pPhase pin = EscapeState" "aside pin pout" st "hfEscCarry f = 0"
    using s g by (simp_all add: sim_def filter_inv_def)
  have ow: "owedTo f pout = []" using g i(3) ground_esc [of pout] by (simp add: owedTo_def aside_def)
  show ?thesis
  proof (cases "b = 0x5c")
    case True
    then have f: "filterStep f b = (f\<lparr> hfState := hookFilterGround \<rparr>, [])" using g by (simp add: filterStep_def stepOscDropEsc_def)
    note a = escape_st [OF i(2)]
    show ?thesis by (rule drop_step [OF s f _ i(3) _ ow]) (use i a True in \<open>simp_all add: rest_phase unblocked_def shown_def silent_def\<close>)
  next
    case False
    have t': "\<not> c0 b" "b \<noteq> 0x7f" "\<not> utf8RuneLen b > 1" "\<not> opensOther b" "b \<noteq> 0x50" "b \<noteq> 0x58" "b \<noteq> 0x5e" "b \<noteq> 0x5f"
      "b \<noteq> 0x5d" "b \<noteq> 0x9d" "b \<noteq> 0x1b" using t i(2,4) by (auto simp: tameByte_def)
    then have f: "filterStep f b = (f\<lparr> hfState := hookFilterGround, hfEscCarry := 0 \<rparr>, [0x1b, b])"
      using g i(5) False by (simp add: filterStep_def stepOscDropEsc_def stepEsc_def flushEscCarry_def)
    have lv: "live (fst (runParser pout (heldOf f))) = live pin" and vw: "viewed (pPhase pin)"
      using g i(2,3) ground_esc [of pout] by (auto simp: aside_def rest_escape rest_phase viewed_def)
    have "b \<noteq> 0x07" using t'(1) by (auto simp: c0_def within_def)
    then have u: "unblocked bl (snd (Advance pin b)) = shown (snd (Advance pin b))" using i(2) by (intro nothing_blocked) simp_all
    have "resting (pPhase (fst (Advance pin b)))" using t' by (intro resting_escape [OF i(2)]) simp_all
    then show ?thesis by (intro keep [OF s lv vw f _ _ u]) (use g in \<open>auto simp: sim_def\<close>)
  qed
qed

lemma sim_oscPass:
  assumes s: "sim bl st f pin pout" and g: "hfState f = hookFilterOscPass" and t: "tameByte st pin b"
  shows "sim_next bl st f pin pout b"
proof -
  have i: "live (fst (runParser pout (heldOf f))) = live pin" "pPhase pin = OscStringState" "pData pin \<noteq> []"
      "decideOsc bl (pData pin) False = (False, True)" "hfEscCarry f = 0"
    using s g by (simp_all add: sim_def filter_inv_def)
  have vw: "viewed (pPhase pin)" using i(2) by (simp add: viewed_def)
  have t': "0x20 \<le> b \<or> classifyOscByte b \<noteq> oscByteData" "b = 0x9c \<Longrightarrow> pStringUtf8Rem pin = 0" using t i(2) by (auto simp: tameByte_def)
  have blk: "\<not> fst (decideOsc bl (pData pin) True)" using decideOsc_stable [OF i(4,3), of "[]" True] by simp
  show ?thesis
  proof (cases "classifyOscByte b = oscByteData")
    case True
    then have f: "filterStep f b = (f, [b])" using g by (simp add: filterStep_def stepOscPass_def)
    have b: "0x20 \<le> b" using t'(1) True by simp
    have "decideOsc bl (pData pin @ [b]) False = (False, True)" by (rule decideOsc_stable [OF i(4,3)])
    then show ?thesis using osc_data [OF i(2) True b] i g by (intro keep [OF s i(1) vw f]) (auto simp: sim_def)
  next
    case False
    then have f: "filterStep f b = (f\<lparr> hfState := (if b = 0x1b then hookFilterEsc else hookFilterGround) \<rparr>, if b = 0x1b then [] else [b])"
      using g by (auto simp: filterStep_def stepOscPass_def classifyOscByte_def split: oscByte.split)
    show ?thesis using osc_stop(1) [OF i(2) False t'(2)] stop_unblocked [OF i(2) False t'(2)] blk i g
      by (intro keep [OF s i(1) vw f]) (auto simp: sim_def resting_def)
  qed
qed

text \<open>The step of a held sequence, in terms of its payload so far.\<close>

lemma oscID_data:
  assumes "hfState f = hookFilterOscID" "classifyOscByte b = oscByteData" "hfPrefixLen f \<le> length (hfPending f)"
    "decideOsc (hfBlocks f) (drop (hfPrefixLen f) (hfPending f) @ [b]) False = (block, decided)"
    "\<not> decided \<Longrightarrow> length (drop (hfPrefixLen f) (hfPending f) @ [b]) < oscDecideLimit"
  shows "filterStep f b =
    (if \<not> decided then (f\<lparr> hfPending := hfPending f @ [b] \<rparr>, [])
     else (f\<lparr> hfPending := [], hfState := (if block then hookFilterOscDrop else hookFilterOscPass) \<rparr>, if block then [] else hfPending f @ [b]))"
  using assms by (auto simp: filterStep_def stepOscID_def Let_def Suc_diff_le)

lemma oscID_stop:
  assumes "hfState f = hookFilterOscID" "classifyOscByte b \<noteq> oscByteData" "hfPrefixLen f \<le> length (hfPending f)"
    "fst (decideOsc (hfBlocks f) (drop (hfPrefixLen f) (hfPending f)) True) = block"
  shows "filterStep f b =
    (f\<lparr> hfPending := [], hfState := (if b = 0x1b then (if block then hookFilterOscDropEsc else hookFilterEsc) else hookFilterGround) \<rparr>,
     if block then [] else if b = 0x1b then hfPending f else hfPending f @ [b])"
proof -
  have "decideOsc (hfBlocks f) (drop (hfPrefixLen f) (hfPending f)) True = (block, True)"
    using assms(4) decided_terminated by (metis prod.collapse)
  moreover have "classifyOscByte b = oscByteEsc \<and> b = 0x1b \<or> (classifyOscByte b = oscByteEnd \<or> classifyOscByte b = oscByteAbort) \<and> b \<noteq> 0x1b"
    using assms(2) by (auto simp: classifyOscByte_def split: if_splits)
  ultimately show ?thesis using assms(1,3) by (auto simp: filterStep_def stepOscID_def Let_def)
qed

lemma sim_oscID:
  assumes s: "sim bl st f pin pout" and g: "hfState f = hookFilterOscID" and t: "tameByte st pin b"
  shows "sim_next bl st f pin pout b"
proof -
  have i: "live (fst (runParser pout (heldOf f))) = live pin" "pPhase pin = OscStringState" "aside pin pout" "owedTo f pout = []"
      "hfEscCarry f = 0" "hfBlocks f = bl" "hfPrefixLen f \<le> length (hfPending f)" "oscDecideLimit \<le> pDataSize pin"
    and d: "drop (hfPrefixLen f) (hfPending f) = pData pin" "pData pin = [] \<or> \<not> snd (decideOsc bl (pData pin) False)"
    using s g by (auto simp: sim_def filter_inv_def owedTo_def Let_def)
  have vw: "viewed (pPhase pin)" using i(2) by (simp add: viewed_def)
  have t': "0x20 \<le> b \<or> classifyOscByte b \<noteq> oscByteData" "b = 0x9c \<Longrightarrow> pStringUtf8Rem pin = 0" using t i(2) by (auto simp: tameByte_def)
  have len: "length (pData pin) < oscDecideLimit" using d(2) undecided_short by (auto simp: oscDecideLimit_def)
  note drop = drop_step [OF s _ _ i(3) rest_osc [OF i(2)] i(4)] and keep' = keep [OF s i(1) vw]
  show ?thesis
  proof (cases "classifyOscByte b = oscByteData")
    case True
    have b: "0x20 \<le> b" using t'(1) True by simp
    have p: "snd (Advance pin b) = []" "pPhase (fst (Advance pin b)) = OscStringState" "pData (fst (Advance pin b)) = pData pin @ [b]"
      using osc_data [OF i(2) True b] len i(8) by simp_all
    obtain block decided where dec: "decideOsc bl (pData pin @ [b]) False = (block, decided)" by fastforce
    then have sh: "\<not> decided \<Longrightarrow> length (pData pin @ [b]) < oscDecideLimit" using undecided_short [of bl "pData pin @ [b]"] by simp
    note f = oscID_data [OF g True i(7), unfolded d(1) i(6), OF dec sh]
    have ra: "aside (fst (Advance pin b)) pout" using i(3) rest_osc [OF i(2), of b] by (simp add: aside_def)
    consider "\<not> decided" | (pass) decided "\<not> block" | (block) decided block by blast
    then show ?thesis
    proof cases
      case 1
      then have f': "filterStep f b = (f\<lparr> hfPending := hfPending f @ [b] \<rparr>, [])" using f by simp
      show ?thesis by (rule keep' [OF f']) (use 1 g i p d(1) dec ra in \<open>auto simp: sim_def owedTo_def Let_def\<close>)
    next
      case pass
      then have f': "filterStep f b = (f\<lparr> hfPending := [], hfState := hookFilterOscPass \<rparr>, hfPending f @ [b])" using f by simp
      show ?thesis by (rule keep' [OF f']) (use pass g i p dec in \<open>auto simp: sim_def\<close>)
    next
      case block
      then have f': "filterStep f b = (f\<lparr> hfPending := [], hfState := hookFilterOscDrop \<rparr>, [])" using f by simp
      show ?thesis by (rule drop [OF f']) (use block i p dec in auto)
    qed
  next
    case False
    note e = osc_stop(1) [OF i(2) False t'(2)] and u = stop_unblocked [OF i(2) False t'(2), of bl]
    note f = oscID_stop [OF g False i(7), unfolded d(1) i(6), OF refl]
    show ?thesis
    proof (cases "fst (decideOsc bl (pData pin) True)")
      case True
      show ?thesis by (rule drop [OF f [unfolded if_P [OF True]]]) (use True e u i in auto)
    next
      case nb: False
      show ?thesis by (rule keep' [OF f [unfolded if_not_P [OF nb]]]) (use nb e u i g in \<open>auto simp: sim_def resting_def\<close>)
    qed
  qed
qed

lemma sim_step:
  assumes "sim bl st f pin pout" "tameByte st pin b"
  shows "sim_next bl st f pin pout b"
  using sim_ground [OF assms(1) _ assms(2)] sim_utf8 [OF assms(1)] sim_esc [OF assms(1) _ assms(2)] sim_oscID [OF assms(1) _ assms(2)]
    sim_oscPass [OF assms(1) _ assms(2)] sim_oscDrop [OF assms(1) _ assms(2)] sim_oscDropEsc [OF assms(1) _ assms(2)]
  by (cases "hfState f")

lemma sim_run:
  assumes "sim bl st f pin pout" "tame st pin data" "filterBytes f data = (f', out)"
  shows "shown (snd (runParser pout (out @ heldOf f'))) = owedTo f pout @ unblocked bl (snd (runParser pin data))"
  using assms
proof (induction data arbitrary: st f pin pout out)
  case Nil
  then show ?case by (simp add: owedTo_def)
next
  case (Cons b data)
  obtain f1 o1 o2 where 1: "filterStep f b = (f1, o1)" "filterBytes f1 data = (f', o2)" "out = o1 @ o2"
    using Cons.prems(3) by (auto split: prod.splits)
  obtain pin1 e where 2: "Advance pin b = (pin1, e)" by fastforce
  obtain pout1 e' where 3: "runParser pout o1 = (pout1, e')" by fastforce
  have n: "sim bl (pPhase pin = OscStringState \<and> b = 0x1b) f1 pin1 pout1" "shown e' @ owedTo f1 pout1 = owedTo f pout @ unblocked bl e"
    using sim_step [OF Cons.prems(1), of b] Cons.prems(2) 1 2 3 by (simp_all add: sim_next_def)
  have "shown (snd (runParser pout1 (o2 @ heldOf f'))) = owedTo f1 pout1 @ unblocked bl (snd (runParser pin1 data))"
    using Cons.prems(2) 2 by (intro Cons.IH [OF n(1) _ 1(2)]) simp
  then have "shown (snd (runParser pout (out @ heldOf f'))) = shown e' @ owedTo f1 pout1 @ unblocked bl (snd (runParser pin1 data))"
    unfolding 1(3) append_assoc by (subst runParser_append) (cases "runParser pout1 (o2 @ heldOf f')", simp add: 3 del: heldOf.simps)
  also have "\<dots> = owedTo f pout @ unblocked bl (snd (runParser pin (b # data)))"
    using n(2) 2 by (cases "runParser pin1 data") simp
  finally show ?case .
qed


text \<open>A bell, a title cut between two chunks, an iTerm2 progress report and text.\<close>

definition noisyBlocks :: hookBlocks where
  "noisyBlocks = \<lparr> hbBell = True, hbTitle = True, hbNotification = True \<rparr>"

definition noisyChunks :: "byte list list" where
  "noisyChunks = [[0x61, 0x07, 0x1b, 0x5d, 0x30], [0x3b, 0x74, 0x1b], [0x5c, 0x1b, 0x5d, 0x39, 0x3b, 0x34, 0x3b, 0x31, 0x07, 0x62]]"

definition freshFilter :: "hookBlocks \<Rightarrow> hookFilter" where
  "freshFilter bl = \<lparr> hfBlocks = bl, hfState = hookFilterGround, hfPending = [], hfPrefixLen = 0, hfUtf8Rest = 0, hfEscCarry = 0 \<rparr>"


section \<open>Streams on which the filter and the viewer part\<close>

definition titleBlocks :: hookBlocks where
  "titleBlocks = \<lparr> hbBell = False, hbTitle = True, hbNotification = False \<rparr>"


text \<open>A control byte between ESC and \<^verbatim>\<open>]\<close> is executed by the emulator and does not end the
  escape; for the filter it does, and the blocked title passes.\<close>

lemma title_after_control_passes:
  "snd (filterBytes (freshFilter titleBlocks) [0x1b, 0x00, 0x5d, 0x30, 0x3b, 0x78, 0x07]) = [0x1b, 0x00, 0x5d, 0x30, 0x3b, 0x78, 0x07] \<and>
   snd (runParser (newParser 64) [0x1b, 0x00, 0x5d, 0x30, 0x3b, 0x78, 0x07]) = [Executed 0x00, OscDispatched 0 [0x30, 0x3b, 0x78]] \<and>
   blockedEvent titleBlocks (OscDispatched 0 [0x30, 0x3b, 0x78])"
  by (intro conjI; code_simp)

text \<open>A blocked title right after an OSC that its ESC ends takes that ESC with it, and the
  viewer stays inside the first string, which swallows the text behind.\<close>

lemma title_takes_terminator:
  "snd (filterBytes (freshFilter titleBlocks) [0x1b, 0x5d, 0x37, 0x3b, 0x78, 0x1b, 0x5d, 0x30, 0x3b, 0x74, 0x07, 0x61]) =
     [0x1b, 0x5d, 0x37, 0x3b, 0x78, 0x61] \<and>
   snd (runParser (newParser 64) [0x1b, 0x5d, 0x37, 0x3b, 0x78, 0x61]) = [] \<and>
   unblocked titleBlocks (snd (runParser (newParser 64) [0x1b, 0x5d, 0x37, 0x3b, 0x78, 0x1b, 0x5d, 0x30, 0x3b, 0x74, 0x07, 0x61])) =
     [OscDispatched 7 [0x37, 0x3b, 0x78], Printed [0x61]]"
  by (intro conjI; code_simp)

end
