(* ===== verification/Attach_Replay.thy ===== *)
theory Attach_Replay
  imports Runtime_State Monitor_Output Hook_Refinement
begin

text \<open>
  What a viewer is shown of the title and the working directory when it attaches
  (\<^verbatim>\<open>subscribeOutput\<close> of cmdman/monitor/mon_server.go with the state of runtime_state.go): the
  latched values go out as OSC sequences behind the replayed modes. A viewer whose terminal is
  the emulator in the tree reads them back exactly, because what is latched was itself cut out
  of an OSC string and made valid UTF-8.
\<close>

section \<open>Latched strings\<close>

definition clean :: "string \<Rightarrow> bool" where
  "clean s \<longleftrightarrow> ValidString s \<and> (\<forall>c \<in> set s. 0x20 \<le> (of_char c :: nat) \<and> c \<noteq> CHR '';'')"

definition runtime_clean :: "commandRuntimeState \<Rightarrow> bool" where
  "runtime_clean s \<longleftrightarrow> clean (crTitle s) \<and> clean (crCwd s)"

lemma clean_Nil [simp]: "clean []"
  by (simp add: clean_def)

lemma toValid_set: "set (toValid r bad s) \<subseteq> set s \<union> set r"
proof (induction r bad s rule: toValid.induct)
  case (1 r bad s)
  have "set (tl s) \<subseteq> set s" by (cases s) auto
  then show ?case using 1 set_take_subset [of "runeLen s" s] set_drop_subset [of "runeLen s" s]
    by (subst toValid.simps) (auto, blast+)
qed

lemma sanitize_clean:
  assumes "\<forall>c \<in> set s. 0x20 \<le> (of_char c :: nat) \<and> c \<noteq> CHR '';''"
  shows "clean (sanitizeTermString s)"
proof -
  have "\<forall>c \<in> set replacementRune. 0x20 \<le> (of_char c :: nat) \<and> c \<noteq> CHR '';''" by code_simp
  then have "\<forall>c \<in> set (sanitizeTermString s). 0x20 \<le> (of_char c :: nat) \<and> c \<noteq> CHR '';''"
    using assms toValid_set [of replacementRune False s] unfolding sanitizeTermString_def ToValidUTF8_def by blast
  then show ?thesis by (simp add: clean_def)
qed

lemma mutate_clean:
  "runtime_clean s \<Longrightarrow> clean t \<Longrightarrow> runtime_clean (fst (mutate (titleFn t) s))"
  "runtime_clean s \<Longrightarrow> clean t \<Longrightarrow> runtime_clean (fst (mutate (cwdFn t) s))"
  "runtime_clean s \<Longrightarrow> runtime_clean (fst (mutate bellFn s))"
  "runtime_clean s \<Longrightarrow> runtime_clean (fst (mutate (notifFn n) s))"
  "runtime_clean s \<Longrightarrow> runtime_clean (fst (mutate attachBeginFn s))"
  "runtime_clean s \<Longrightarrow> runtime_clean (fst (mutate attachEndFn s))"
  "runtime_clean s \<Longrightarrow> runtime_clean (fst (mutate (reportFn st d) s))"
  "runtime_clean s \<Longrightarrow> runtime_clean (fst (mutate resetFn s))"
  by (simp_all add: mutate_def locked_def wake_def runtime_clean_def change_defs)

lemma emitHook_clean [simp]: "runtime_clean (emitHook ev s) = runtime_clean s"
  by (simp add: emitHook_def runtime_clean_def split: option.split)

definition printable :: "byte list \<Rightarrow> bool" where
  "printable d \<longleftrightarrow> (\<forall>b \<in> set d. 0x20 \<le> b)"

lemma bytesToString_printable: "printable d \<Longrightarrow> c \<in> set (bytesToString d) \<Longrightarrow> 0x20 \<le> (of_char c :: nat)"
proof -
  assume p: "printable d" "c \<in> set (bytesToString d)"
  then obtain b where b: "b \<in> set d" "c = char_of (unat b)" by (auto simp: bytesToString_def)
  have "unat b < 2 ^ LENGTH(8)" by (rule unsigned_less)
  then have "of_char c = unat b" using b(2) by simp
  then show ?thesis using p(1) b(1) by (simp add: printable_def word_le_nat_alt)
qed

lemma splitOn_set: "x \<in> set (splitOn sep s) \<Longrightarrow> set x \<subseteq> set s"
  by (induction s arbitrary: x) (auto split: if_splits list.splits, force+)

lemma part_clean:
  assumes "printable d" "length (splitOn CHR '';'' (bytesToString d)) = 2"
  shows "\<forall>c \<in> set (splitOn CHR '';'' (bytesToString d) ! 1). 0x20 \<le> (of_char c :: nat) \<and> c \<noteq> CHR '';''"
proof -
  let ?x = "splitOn CHR '';'' (bytesToString d) ! 1"
  have m: "?x \<in> set (splitOn CHR '';'' (bytesToString d))" using assms(2) by simp
  then show ?thesis using splitOn_no_sep [OF m] splitOn_set [OF m] bytesToString_printable [OF assms(1)] by blast
qed

lemma observeEvent_clean:
  assumes "runtime_clean s" "\<And>c d. ev = OscDispatched c d \<Longrightarrow> printable d"
  shows "runtime_clean (observeEvent now ev s)"
proof (cases ev)
  case (OscDispatched cmd d)
  note c = part_clean [OF assms(2) [OF OscDispatched], THEN sanitize_clean]
  have "handleTitle cmd (bytesToString d) = Some t \<Longrightarrow> runtime_clean (latchTitle t s)" for t
    using c mutate_clean(1) [OF assms(1)]
    by (auto simp: handleTitle_def latchTitle_def Let_def case_prod_beta split: if_splits)
  moreover have "handleWorkingDirectory (bytesToString d) = Some t \<Longrightarrow> runtime_clean (latchCwd t s)" for t
    using c mutate_clean(2) [OF assms(1)] by (auto simp: handleWorkingDirectory_def latchCwd_def Let_def split: if_splits)
  moreover have "runtime_clean (latchNotification now t b s)" for t b
    using mutate_clean(4) [OF assms(1)] by (simp add: latchNotification_def Let_def)
  ultimately show ?thesis using OscDispatched assms(1)
    by (auto simp: observeEvent_def Let_def optionally_def split: option.split)
qed (use assms mutate_clean(3) [OF assms(1)] in \<open>auto simp: observeEvent_def latchBell_def\<close>)

section \<open>Data of an OSC string\<close>

definition oscClean :: "Parser \<Rightarrow> bool" where
  "oscClean p \<longleftrightarrow> (pPhase p = OscStringState \<longrightarrow> printable (pData p))"

lemma into_osc:
  assumes "transition st b = (OscStringState, a)" "st \<noteq> OscStringState"
  shows "a = StartAction"
  using assms by (cases st) (auto simp: transition.simps stringTable_def anywhere_def split: if_splits)

lemma printable_put:
  assumes "printable (pData p)" "0x20 \<le> b"
  shows "printable (pData (putAction p b))"
  using assms by (auto simp: putAction_def parseStringCmd_def printable_def Let_def)

lemma osc_put_byte: "transition OscStringState b = (st, PutAction) \<Longrightarrow> 0x20 \<le> b"
  by (auto simp: transition.simps within_def split: if_splits)

lemma dispatched_data: "OscDispatched c d \<in> set (snd (dispatchAction p b)) \<Longrightarrow> d = pData p"
  by (auto simp: dispatchAction_def countLast_def parseStringCmd_def Let_def split: pState.splits if_splits)

lemma oscClean_table:
  assumes "oscClean p"
  shows "oscClean (fst (advanceTable p b)) \<and> (\<forall>c d. OscDispatched c d \<in> set (snd (advanceTable p b)) \<longrightarrow> printable d)"
proof (cases "pPhase p = OscStringState")
  case True
  obtain st a where t: "transition OscStringState b = (st, a)" by fastforce
  have l: "leaveState p st a = p" using True by (simp add: leaveState_def)
  from osc_moves [OF t] show ?thesis
    using True t l assms printable_put [of p b] osc_put_byte [of b st] dispatched_data [of _ _ p b]
    by (auto simp: advanceTable_def performAction_def oscClean_def split: prod.split)
next
  case False
  have ev: "OscDispatched c d \<notin> set (snd (advanceTable p b))" for c d
    using advanceTable_events [of p b] False by (auto simp: plainEvents_def)
  obtain st a where t: "transition (pPhase p) b = (st, a)" by fastforce
  have "oscClean (fst (advanceTable p b))"
  proof (cases "st = OscStringState")
    case True
    then have a: "a = StartAction" using into_osc [of "pPhase p" b a] t False by simp
    have "\<not> (b = 0x1b \<and> pPhase p = EscapeState)" using t True escape_esc by auto
    then show ?thesis using t a True by (auto simp: advanceTable_def performAction_def startAction_def oscClean_def printable_def)
  qed (use t in \<open>simp add: oscClean_def advanceTable_phase\<close>)
  then show ?thesis using ev by blast
qed

lemma oscClean_Advance:
  assumes "oscClean p"
  shows "oscClean (fst (Advance p b)) \<and> (\<forall>c d. OscDispatched c d \<in> set (snd (Advance p b)) \<longrightarrow> printable d)"
proof -
  have cont: "oscClean (putAction (p\<lparr> pStringUtf8Rem := n \<rparr>) b)" if "0x80 \<le> b" for n
  proof -
    have "0x20 \<le> b" using that by (simp add: word_le_nat_alt)
    then show ?thesis using assms printable_put [of "p\<lparr> pStringUtf8Rem := n \<rparr>" b]
      by (auto simp: oscClean_def putAction_def parseStringCmd_def Let_def printable_def split: if_splits)
  qed
  have u: "oscClean (fst (advanceUtf8 p b))" "OscDispatched c d \<notin> set (snd (advanceUtf8 p b))" if "pPhase p = Utf8State" for c d
    using that by (simp_all add: advanceUtf8_def oscClean_def Let_def collectRune_def)
  have "oscClean (p\<lparr> pStringUtf8Rem := n \<rparr>)" for n using assms by (simp add: oscClean_def)
  then show ?thesis using oscClean_table [OF assms] oscClean_table [of "p\<lparr> pStringUtf8Rem := n \<rparr>" b for n] cont u
    by (auto simp: Advance_def advance_def performAction_def)
qed

lemma feedBytes_clean:
  assumes "runtime_clean s" "oscClean (stParser t)"
  shows "runtime_clean (snd (feedBytes now bs t s)) \<and> oscClean (stParser (fst (feedBytes now bs t s)))"
  using assms
proof (induction now bs t s rule: feedBytes.induct)
  case (2 now b bs t s)
  obtain p evs where a: "Advance (stParser t) b = (p, evs)" by fastforce
  have p: "oscClean p" "\<And>c d. OscDispatched c d \<in> set evs \<Longrightarrow> printable d" using oscClean_Advance [OF "2.prems"(2), of b] a by auto
  have "runtime_clean (fold (observeEvent now) evs s)"
    using "2.prems"(1) p(2)
  proof (induction evs arbitrary: s)
    case (Cons ev evs)
    have "runtime_clean (observeEvent now ev s)" by (rule observeEvent_clean) (use Cons.prems in auto)
    from Cons.IH [OF this] show ?case using Cons.prems(2) by auto
  qed simp
  then show ?case using "2.IH" [OF a [symmetric]] "2.prems"(1) p(1) a by simp
qed simp

text \<open>A working directory the monitor seeds is percent-encoded.\<close>

fun seedClean :: "(string \<Rightarrow> string) \<Rightarrow> runtimeCall \<Rightarrow> bool" where
  "seedClean cwdURL (CallSeedCwd dir) \<longleftrightarrow> clean (cwdURL dir)"
| "seedClean cwdURL _ \<longleftrightarrow> True"

definition tracked :: "screenTracker \<times> commandRuntimeState \<Rightarrow> bool" where
  "tracked ts \<longleftrightarrow> oscClean (stParser (fst ts)) \<and> runtime_clean (snd ts)"

lemma runtimeStep_clean:
  assumes "tracked ts" "seedClean cwdURL c"
  shows "tracked (runtimeStep cwdURL c ts)"
proof (cases ts)
  case (Pair t s)
  then have s: "runtime_clean s" "oscClean (stParser t)" using assms(1) by (simp_all add: tracked_def)
  have "runtime_clean (seedCwd cwdURL dir s)" if "clean (cwdURL dir)" for dir
    using that mutate_clean(2) [OF s(1)] s(1) sanitize_id [of "cwdURL dir"] by (simp add: seedCwd_def latchCwd_def clean_def)
  then show ?thesis using Pair s assms(2) mutate_clean(5-8) [OF s(1)] feedBytes_clean [OF s]
    by (cases c) (simp_all add: tracked_def feed_def setReport_def clearReport_def attachBegin_def attachEnd_def resetRuntime_def)
qed

lemma runtimeRun_clean:
  assumes "list_all (seedClean cwdURL) cs" "oscClean (stParser t)" "runtimeRun cwdURL cs t = (t', s)"
  shows "clean (crTitle s) \<and> clean (crCwd s)"
proof -
  have "tracked (fold (runtimeStep cwdURL) cs ts)" if "tracked ts" for ts
    using assms(1) that
  proof (induction cs arbitrary: ts)
    case (Cons c cs)
    then show ?case using Cons.IH [OF _ runtimeStep_clean] by simp
  qed simp
  from this [of "(t, newCommandRuntimeState)"] show ?thesis
    using assms(2,3) by (simp add: runtimeRun_def tracked_def runtime_clean_def newCommandRuntimeState_def)
qed

section \<open>A viewer reads the replay\<close>

lemma feedBytes_events:
  assumes "runParser (stParser t) bs = (p, evs)" "InvalidRune \<notin> set evs"
  shows "feedBytes now bs t s = (t\<lparr> stParser := p \<rparr>, fold (observeEvent now) evs s)"
  using assms
proof (induction bs arbitrary: t s evs)
  case (Cons b bs)
  obtain q e f where q: "Advance (stParser t) b = (q, e)" "runParser q bs = (p, f)" "evs = e @ f"
    using Cons.prems(1) by (auto split: prod.splits)
  then show ?case using Cons.IH [of "t\<lparr> stParser := q \<rparr>" f] Cons.prems(2) by simp
qed simp

lemma stringToBytes_simps [simp]:
  "stringToBytes [] = []" "stringToBytes (c # s) = of_nat (of_char c) # stringToBytes s"
  "stringToBytes (s @ t) = stringToBytes s @ stringToBytes t" "length (stringToBytes s) = length s"
  by (simp_all add: stringToBytes_def)

lemma byte_of_char: "unat (of_nat (of_char c) :: byte) = of_char c"
  using of_char_mod_256 [of c, where ?'a = nat] by (simp add: unat_of_nat)

lemma bytes_roundtrip [simp]: "bytesToString (stringToBytes s) = s"
  by (simp add: bytesToString_def stringToBytes_def byte_of_char comp_def)

lemma osc_lead:
  assumes "pPhase p = OscStringState" "pStringUtf8Rem p = 0" "0x20 \<le> b" "b \<noteq> 0x9c" "b \<noteq> 0x3b" "length (pData p) < pDataSize p"
  shows "Advance p b = (p\<lparr> pData := pData p @ [b], pStringUtf8Rem := nat (utf8ByteLen b - 1) \<rparr>, [])"
proof -
  have "unat b < 2 ^ LENGTH(8)" by (rule unsigned_less)
  then have w: "within 0x20 0xff b" using assms(3) by (simp add: within_def word_le_nat_alt)
  have k: "b \<noteq> 0x07" "b \<noteq> 0x18" "b \<noteq> 0x1a" "b \<noteq> 0x1b" using assms(3) by (auto simp: word_le_nat_alt)
  have t: "transition OscStringState b = (OscStringState, PutAction)" using k assms(4) w by simp
  have n: "(if utf8ByteLen b > 1 then nat (utf8ByteLen b - 1) else 0) = nat (utf8ByteLen b - 1)" by simp
  show ?thesis using assms t n
    by (simp add: Advance_def advance_def inStringState_def advanceTable_def leaveState_def performAction_def putAction_def)
qed

lemma osc_cont:
  assumes "pPhase p = OscStringState" "pStringUtf8Rem p = Suc n" "within 0x80 0xbf b" "length (pData p) < pDataSize p"
  shows "Advance p b = (p\<lparr> pData := pData p @ [b], pStringUtf8Rem := n \<rparr>, [])"
proof -
  have "b \<noteq> 0x3b" using assms(3) by (auto simp: within_def word_le_nat_alt)
  then show ?thesis using assms
    by (simp add: Advance_def advance_def inStringState_def performAction_def putAction_def within_def)
qed

lemma osc_conts:
  assumes "pPhase p = OscStringState" "pStringUtf8Rem p = length cs" "list_all (within 0x80 0xbf) cs"
    "length (pData p) + length cs \<le> pDataSize p"
  shows "runParser p cs = (p\<lparr> pData := pData p @ cs, pStringUtf8Rem := 0 \<rparr>, [])"
  using assms
proof (induction cs arbitrary: p)
  case (Cons c cs)
  then show ?case using osc_cont [of p "length cs" c] Cons.IH [of "p\<lparr> pData := pData p @ [c], pStringUtf8Rem := length cs \<rparr>"] by simp
qed simp

lemma runeLen_parts:
  assumes "0 < runeLen (c # s)"
  shows "leadLen (of_char c) = runeLen (c # s)" "list_all cont (map of_char (take (runeLen (c # s) - 1) s))" "runeLen (c # s) - 1 \<le> length s"
proof -
  let ?n = "leadLen (of_char c)"
  consider "?n = 1" "runeLen (c # s) = 1"
    | d s' where "s = d # s'" "2 \<le> ?n" "runeLen (c # s) = ?n" "secondOk (of_char c) (of_char d)" "list_all cont (take (?n - 2) (map of_char s'))" "?n - 2 \<le> length s'"
    using assms by (cases s) (auto simp: runeLen_def Let_def split: if_splits)
  then have "leadLen (of_char c) = runeLen (c # s) \<and> list_all cont (map of_char (take (runeLen (c # s) - 1) s)) \<and> runeLen (c # s) - 1 \<le> length s"
  proof cases
    case (2 d s')
    have "cont (of_char d)" using 2(4) by (auto simp: secondOk_def secondRange_def cont_def split: if_splits)
    moreover have "take (?n - 1) s = d # take (?n - 2) s'" using 2(1,2)
      by (simp add: take_Cons' numeral_2_eq_2)
    ultimately show ?thesis using 2 by (simp add: take_map)
  qed simp
  then show "leadLen (of_char c) = runeLen (c # s)" "list_all cont (map of_char (take (runeLen (c # s) - 1) s))" "runeLen (c # s) - 1 \<le> length s"
    by blast+
qed

lemma within_cont: "within 0x80 0xbf (of_nat (of_char x)) \<longleftrightarrow> cont (of_char x)"
  by (simp add: within_nat byte_of_char cont_def)

lemma lead_byte:
  assumes "0 < leadLen (of_char c)"
  shows "nat (utf8ByteLen (of_nat (of_char c)) - 1) = leadLen (of_char c) - 1" "of_nat (of_char c) \<noteq> (0x9c :: byte)"
proof -
  have u: "unat (of_nat (of_char c) :: byte) = of_char c" by (rule byte_of_char)
  then show "nat (utf8ByteLen (of_nat (of_char c)) - 1) = leadLen (of_char c) - 1" using assms
    by (simp add: utf8ByteLen_def within_nat word_le_nat_alt leadLen_def split: if_splits)
  show "of_nat (of_char c) \<noteq> (0x9c :: byte)"
  proof
    assume "of_nat (of_char c) = (0x9c :: byte)"
    then have "of_char c = (0x9c :: nat)" using u by simp
    then show False using assms by (simp add: leadLen_def)
  qed
qed

lemma rune_bytes:
  assumes "0 < runeLen s"
  obtains b cs where "stringToBytes (take (runeLen s) s) = b # cs" "list_all (within 0x80 0xbf) cs"
    "nat (utf8ByteLen b - 1) = length cs" "b \<noteq> 0x9c" "s \<noteq> []" "b = of_nat (of_char (hd s))"
proof -
  obtain c s' where s: "s = c # s'" using assms by (cases s) auto
  have n: "0 < runeLen (c # s')" using assms unfolding s .
  note r = runeLen_parts [OF n]
  let ?b = "of_nat (of_char c) :: byte"
  let ?cs = "stringToBytes (take (runeLen (c # s') - 1) s')"
  obtain k where k: "runeLen (c # s') = Suc k" using n by (cases "runeLen (c # s')") auto
  have 1: "stringToBytes (take (runeLen s) s) = ?b # ?cs" unfolding s k by simp
  have 2: "list_all (within 0x80 0xbf) ?cs"
    using r(2) by (simp only: stringToBytes_def list.pred_map comp_def within_cont)
  have 3: "length ?cs = leadLen (of_char c) - 1" using r(1,3) by simp
  have l: "0 < leadLen (of_char c)" using n r(1) by simp
  show thesis by (rule that [OF 1 2 _ lead_byte(2) [OF l]]) (simp_all only: 3 lead_byte(1) [OF l] s list.sel list.simps not_False_eq_True)
qed

lemma osc_string:
  assumes "pPhase p = OscStringState" "pStringUtf8Rem p = 0" "clean s" "length (pData p) + length s \<le> pDataSize p"
  shows "runParser p (stringToBytes s) = (p\<lparr> pData := pData p @ stringToBytes s \<rparr>, [])"
  using assms
proof (induction s arbitrary: p rule: ValidString.induct)
  case (1 s)
  show ?case
  proof (cases "s = []")
    case False
    then have n: "runeLen s \<noteq> 0" "ValidString (drop (runeLen s) s)"
      using "1.prems"(3) by (auto simp: clean_def ValidString.simps [of s] split: if_splits)
    have c: "clean (drop (runeLen s) s)" using n(2) "1.prems"(3) by (auto simp: clean_def dest: in_set_dropD)
    obtain b cs where r: "stringToBytes (take (runeLen s) s) = b # cs" "list_all (within 0x80 0xbf) cs"
        "nat (utf8ByteLen b - 1) = length cs" "b \<noteq> 0x9c" "b = of_nat (of_char (hd s))"
      using rune_bytes n(1) by blast
    have h: "0x20 \<le> (of_char (hd s) :: nat)" "hd s \<noteq> CHR '';''" using "1.prems"(3) False by (auto simp: clean_def)
    have b: "0x20 \<le> b" using h(1) r(5) by (simp add: word_le_nat_alt byte_of_char)
    have "b \<noteq> 0x3b"
    proof
      assume "b = 0x3b"
      then have "of_char (hd s) = (of_char CHR '';'' :: nat)" using r(5) byte_of_char [of "hd s"] by simp
      then show False using h(2) by (simp only: of_char_eq_iff)
    qed
    have len: "length cs + 1 = runeLen s" using arg_cong [OF r(1), of length] runeLen_le [of s] by simp
    let ?q = "p\<lparr> pData := pData p @ [b], pStringUtf8Rem := length cs \<rparr>"
    let ?r = "p\<lparr> pData := pData p @ b # cs, pStringUtf8Rem := 0 \<rparr>"
    have "Advance p b = (?q, [])" using osc_lead [OF "1.prems"(1,2) b r(4) \<open>b \<noteq> 0x3b\<close>] "1.prems"(4) r(3) False by (cases s) auto
    moreover have "runParser ?q cs = (?r, [])" using osc_conts [of ?q cs] "1.prems"(1,4) r(2) len runeLen_le [of s] by simp
    moreover have "runParser ?r (stringToBytes (drop (runeLen s) s)) = (?r\<lparr> pData := pData ?r @ stringToBytes (drop (runeLen s) s) \<rparr>, [])"
      using "1.IH" [OF False n(1), of ?r] c "1.prems"(1,4) len runeLen_le [of s] by simp
    moreover have "stringToBytes s = b # cs @ stringToBytes (drop (runeLen s) s)"
      using r(1) by (metis append_Cons append_take_drop_id stringToBytes_simps(3))
    ultimately show ?thesis using "1.prems"(2) by (simp add: runParser_append)
  qed simp
qed

text \<open>An OSC sequence up to its terminator.\<close>

lemma parse_digit: "0x30 \<le> k \<Longrightarrow> k \<le> 0x39 \<Longrightarrow> parseDigits MissingCommand [k] = ucast (k - 0x30)"
  by (simp add: word_le_nat_alt word_less_nat_alt)

lemma osc_opened:
  assumes "pPhase p = GroundState" "clean s" "length s + 2 \<le> pDataSize p" "0x30 \<le> k" "k \<le> 0x39"
  obtains q where "runParser p (0x1b # 0x5d # k # 0x3b # stringToBytes s) = (q, [])" "pPhase q = OscStringState" "pStringUtf8Rem q = 0"
    "pCmd q = ucast (k - 0x30)" "pData q = k # 0x3b # stringToBytes s" "pDataSize q = pDataSize p"
proof -
  let ?e = "(clear p)\<lparr> pPhase := EscapeState \<rparr>"
  let ?o = "(startAction (clear ?e) 0x5d)\<lparr> pPhase := OscStringState \<rparr>"
  let ?k = "?o\<lparr> pData := [k] \<rparr>"
  let ?c = "?k\<lparr> pCmd := ucast (k - 0x30), pData := [k, 0x3b] \<rparr>"
  have k: "0x20 \<le> k" "k \<noteq> 0x9c" "k \<noteq> 0x3b" "utf8ByteLen k = 1"
    using assms(4,5) by (auto simp: word_le_nat_alt utf8ByteLen_def)
  have o: "pPhase ?o = OscStringState" "pStringUtf8Rem ?o = 0" "pData ?o = []" "pDataSize ?o = pDataSize p" "pCmd ?o = MissingCommand"
    by (simp_all add: startAction_def clear_def)
  have 1: "Advance p 0x1b = (?e, [])" using ground_esc [OF assms(1)] .
  have 2: "Advance ?e 0x5d = (?o, [])" by (rule escape_osc) simp_all
  have len: "length (pData ?o) < pDataSize ?o" using o assms(3) by simp
  have 3: "Advance ?o k = (?k, [])" using osc_lead [OF o(1,2) k(1-3) len] o k(4) by simp
  have t: "transition OscStringState 0x3b = (OscStringState, PutAction)" by (simp add: within_def word_le_nat_alt)
  have u: "utf8ByteLen 0x3b = 1" by (simp add: utf8ByteLen_def word_le_nat_alt)
  have 4: "Advance ?k 0x3b = (?c, [])"
    using o t u assms(3) parse_digit [OF assms(4,5)]
    by (simp add: Advance_def advance_def inStringState_def advanceTable_def leaveState_def performAction_def putAction_def parseStringCmd_def
        del: parseDigits.simps)
  have 5: "runParser ?c (stringToBytes s) = (?c\<lparr> pData := pData ?c @ stringToBytes s \<rparr>, [])"
    using osc_string [of ?c s] o assms(2,3) by simp
  show thesis by (rule that [of "?c\<lparr> pData := pData ?c @ stringToBytes s \<rparr>"]) (use 1 2 3 4 5 o in simp_all)
qed

lemma countLast_keeps [simp]:
  "pCmd (countLast q) = pCmd q" "pData (countLast q) = pData q" "pDataSize (countLast q) = pDataSize q"
  by (simp_all add: countLast_def)

lemma dispatch_osc:
  assumes "pPhase q = OscStringState" "pCmd q \<noteq> MissingCommand"
  shows "dispatchAction q b = (countLast q, [OscDispatched (pCmd q) (pData q)])"
  using assms by (simp add: dispatchAction_def Let_def)

lemma osc_closed:
  assumes "pPhase q = OscStringState" "pStringUtf8Rem q = 0" "pCmd q \<noteq> MissingCommand" "b = 0x07 \<or> b = 0x1b"
  obtains r where "Advance q b = (r, [OscDispatched (pCmd q) (pData q)])" "pPhase r = (if b = 0x07 then GroundState else EscapeState)"
    "pDataSize r = pDataSize q"
proof -
  have t: "transition OscStringState b = (if b = 0x07 then GroundState else EscapeState, DispatchAction)" using assms(4) by auto
  let ?q = "q\<lparr> pStringUtf8Rem := (if utf8ByteLen b > 1 then nat (utf8ByteLen b - 1) else 0) \<rparr>"
  have "Advance q b = ((countLast ?q)\<lparr> pPhase := (if b = 0x07 then GroundState else EscapeState) \<rparr>, [OscDispatched (pCmd q) (pData q)])"
    using assms(1,2) t dispatch_osc [of ?q b] assms(3)
    by (simp add: Advance_def advance_def inStringState_def advanceTable_def leaveState_def performAction_def)
  then show thesis using that by simp
qed

lemma title_events:
  assumes "pPhase p = GroundState" "clean s" "length s + 2 \<le> pDataSize p"
  obtains q where "runParser p (stringToBytes (titleSequence s)) = (q, [OscDispatched 2 (stringToBytes (''2;'' @ s))])"
    "pPhase q = GroundState" "pDataSize q = pDataSize p"
proof -
  have b: "stringToBytes (titleSequence s) = (0x1b # 0x5d # 0x32 # 0x3b # stringToBytes s) @ [0x07]" by (simp add: titleSequence_def)
  obtain q where q: "runParser p (0x1b # 0x5d # 0x32 # 0x3b # stringToBytes s) = (q, [])" "pPhase q = OscStringState" "pStringUtf8Rem q = 0"
    "pCmd q = ucast (0x32 - 0x30 :: byte)" "pData q = 0x32 # 0x3b # stringToBytes s" "pDataSize q = pDataSize p"
    by (rule osc_opened [OF assms, where k = "0x32"]) simp_all
  have c: "pCmd q = 2" "pCmd q \<noteq> MissingCommand" using q(4) by (simp_all add: MissingCommand_def MissingParam_def)
  obtain r where "Advance q 0x07 = (r, [OscDispatched (pCmd q) (pData q)])" "pPhase r = GroundState" "pDataSize r = pDataSize q"
    by (rule osc_closed [OF q(2,3) c(2), of "0x07"]) simp_all
  then show thesis using that [of r] b q(1,5,6) c(1) by (simp only: b runParser_append q(1)) (simp add: c(1) q(5))
qed

lemma cwd_events:
  assumes "pPhase p = GroundState" "clean s" "length s + 2 \<le> pDataSize p"
  obtains q where "runParser p (stringToBytes (cwdSequence s)) = (q, [OscDispatched 7 (stringToBytes (''7;'' @ s)), EscDispatched 0x5c])"
    "pPhase q = GroundState" "pDataSize q = pDataSize p"
proof -
  have b: "stringToBytes (cwdSequence s) = (0x1b # 0x5d # 0x37 # 0x3b # stringToBytes s) @ [0x1b, 0x5c]" by (simp add: cwdSequence_def)
  obtain q where q: "runParser p (0x1b # 0x5d # 0x37 # 0x3b # stringToBytes s) = (q, [])" "pPhase q = OscStringState" "pStringUtf8Rem q = 0"
    "pCmd q = ucast (0x37 - 0x30 :: byte)" "pData q = 0x37 # 0x3b # stringToBytes s" "pDataSize q = pDataSize p"
    by (rule osc_opened [OF assms, where k = "0x37"]) simp_all
  have c: "pCmd q = 7" "pCmd q \<noteq> MissingCommand" using q(4) by (simp_all add: MissingCommand_def MissingParam_def)
  obtain r where r: "Advance q 0x1b = (r, [OscDispatched (pCmd q) (pData q)])" "pPhase r = EscapeState" "pDataSize r = pDataSize q"
    by (rule osc_closed [OF q(2,3) c(2), of "0x1b"]) simp_all
  let ?g = "(clear r)\<lparr> pPhase := GroundState, pCmd := 0x5c \<rparr>"
  have "runParser q [0x1b, 0x5c] = (?g, [OscDispatched 7 (stringToBytes (''7;'' @ s)), EscDispatched 0x5c])"
    using r(1) escape_st [OF r(2)] c(1) q(5) by simp
  then show thesis using that [of ?g] r(3) q(6) by (simp only: b runParser_append q(1)) (simp add: clear_def)
qed

section \<open>Modes\<close>

text \<open>Replayed modes leave the parser at ground and latch nothing.\<close>

definition quiet :: "viewerEvent \<Rightarrow> bool" where
  "quiet ev \<longleftrightarrow> (\<exists>c ps. ev = CsiDispatched c ps) \<or> (\<exists>c. ev = EscDispatched c)"

lemma quiet_fold: "list_all quiet evs \<Longrightarrow> fold (observeEvent now) evs s = s"
  by (induction evs) (auto simp: quiet_def observeEvent_def)

lemma csi_params:
  assumes "pPhase p = CsiParamState" "\<forall>b \<in> set bs. within 0x30 0x3b b"
  obtains q where "runParser p bs = (q, [])" "pPhase q = CsiParamState" "pDataSize q = pDataSize p"
  using assms
proof (induction bs arbitrary: p thesis)
  case (Cons b bs)
  have w: "\<not> within 0x20 0x2f b" "\<not> within 0x40 0x7e b" "\<not> within 0x3c 0x3f b" "b \<noteq> 0x7f" "within 0x30 0x3b b"
    using Cons.prems(3) by (auto simp: within_nat)
  have t: "transition CsiParamState b = (CsiParamState, ParamAction)" using w by simp
  have f: "pPhase (paramAction p b) = pPhase p" "pDataSize (paramAction p b) = pDataSize p" by (simp_all add: paramAction_def Let_def)
  have a: "Advance p b = ((paramAction p b)\<lparr> pPhase := CsiParamState \<rparr>, [])" using Cons.prems(2) t
    by (simp add: Advance_def advance_def inStringState_def advanceTable_def leaveState_def performAction_def)
  obtain q where "runParser ((paramAction p b)\<lparr> pPhase := CsiParamState \<rparr>) bs = (q, [])" "pPhase q = CsiParamState" "pDataSize q = pDataSize p"
    by (rule Cons.IH [of "(paramAction p b)\<lparr> pPhase := CsiParamState \<rparr>"]) (use Cons.prems(3) f in auto)
  then show ?case using Cons.prems(1) a by simp
qed simp

lemma csi_modes:
  assumes "pPhase p = GroundState" "\<forall>b \<in> set bs. within 0x30 0x3b b"
  obtains q c ps where "runParser p ([0x1b, 0x5b, 0x3f] @ bs @ [0x68]) = (q, [CsiDispatched c ps])" "pPhase q = GroundState" "pDataSize q = pDataSize p"
proof -
  let ?e = "(clear p)\<lparr> pPhase := EscapeState \<rparr>"
  let ?c = "(clear (clear ?e))\<lparr> pPhase := CsiEntryState \<rparr>"
  let ?p = "?c\<lparr> pCmd := setByte 1 (pCmd ?c) 0x3f, pPhase := CsiParamState \<rparr>"
  have t: "transition EscapeState 0x5b = (CsiEntryState, ClearAction)" "transition CsiEntryState 0x3f = (CsiParamState, PrefixAction)"
    "transition CsiParamState 0x68 = (GroundState, DispatchAction)" by (simp_all add: within_nat c0_def)
  have 1: "Advance p 0x1b = (?e, [])" by (rule ground_esc [OF assms(1)])
  have 2: "Advance ?e 0x5b = (?c, [])" using t(1)
    by (simp add: Advance_def advance_def inStringState_def advanceTable_def leaveState_def performAction_def)
  have 3: "Advance ?c 0x3f = (?p, [])" using t(2)
    by (simp add: Advance_def advance_def inStringState_def advanceTable_def leaveState_def performAction_def)
  obtain q where q: "runParser ?p bs = (q, [])" "pPhase q = CsiParamState" "pDataSize q = pDataSize ?p"
    by (rule csi_params [of ?p bs]) (use assms(2) in simp_all)
  have "\<exists>r c ps. Advance q 0x68 = (r, [CsiDispatched c ps]) \<and> pPhase r = GroundState \<and> pDataSize r = pDataSize q"
    using q(2) t(3) by (simp add: Advance_def advance_def inStringState_def advanceTable_def leaveState_def performAction_def dispatchAction_def Let_def)
  then obtain r c ps where "Advance q 0x68 = (r, [CsiDispatched c ps])" "pPhase r = GroundState" "pDataSize r = pDataSize q" by blast
  then show thesis using that [of r c ps] 1 2 3 q by (simp add: runParser_append clear_def)
qed

lemma keypad_events:
  assumes "pPhase p = GroundState"
  obtains q c where "runParser p [0x1b, 0x3d] = (q, [EscDispatched c])" "pPhase q = GroundState" "pDataSize q = pDataSize p"
proof -
  let ?e = "(clear p)\<lparr> pPhase := EscapeState \<rparr>"
  have t: "transition EscapeState 0x3d = (GroundState, DispatchAction)" by (simp add: within_nat c0_def)
  have 1: "Advance p 0x1b = (?e, [])" by (rule ground_esc [OF assms(1)])
  have "\<exists>r c. Advance ?e 0x3d = (r, [EscDispatched c]) \<and> pPhase r = GroundState \<and> pDataSize r = pDataSize p"
    using t by (simp add: Advance_def advance_def inStringState_def advanceTable_def leaveState_def performAction_def dispatchAction_def Let_def)
      (simp add: clear_def)
  then show thesis using that 1 by auto
qed

lemma modes_bytes:
  assumes "set ms \<subseteq> set replayableModes" "b \<in> set (stringToBytes (joinWith CHR '';'' (map itoa ms)))"
  shows "within 0x30 0x3b b"
proof -
  obtain c where c: "b = of_nat (of_char c)" "c \<in> set (joinWith CHR '';'' (map itoa ms))" using assms(2) by (auto simp: stringToBytes_def)
  have "c = CHR '';'' \<or> (\<exists>m \<in> set ms. c \<in> set (itoa m))" using c(2) set_joinWith [of "CHR '';''" "map itoa ms"] by auto
  moreover have "isDigit c" if "m \<in> set ms" "c \<in> set (itoa m)" for m
    using that assms(1) itoa_mode [of m] itoa_nat_digits [of m c] by blast
  ultimately have "0x30 \<le> (of_char c :: nat) \<and> (of_char c :: nat) \<le> 0x3b"
    by (fastforce simp: isDigit_def)
  then show ?thesis using c(1) byte_of_char [of c] by (simp add: within_nat del: of_nat_of_char)
qed

lemma modes_events:
  assumes "pPhase p = GroundState"
  obtains q evs where "runParser p (stringToBytes (Replay m)) = (q, evs)" "list_all quiet evs" "pPhase q = GroundState" "pDataSize q = pDataSize p"
proof -
  let ?ms = "activeModes m"
  have sub: "set ?ms \<subseteq> set replayableModes" by (auto simp: activeModes_def)
  let ?csi = "if ?ms = [] then [] else [CHR 0x1B] @ ''[?'' @ joinWith CHR '';'' (map itoa ?ms) @ ''h''"
  let ?kp = "if tpAppKeypad m then [CHR 0x1B] @ ''='' else []"
  have R: "Replay m = ?csi @ ?kp" by (simp add: Replay_def Let_def)
  obtain q e where q: "runParser p (stringToBytes ?csi) = (q, e)" "list_all quiet e" "pPhase q = GroundState" "pDataSize q = pDataSize p"
  proof (cases "?ms = []")
    case False
    obtain q c ps where "runParser p ([0x1b, 0x5b, 0x3f] @ stringToBytes (joinWith CHR '';'' (map itoa ?ms)) @ [0x68]) = (q, [CsiDispatched c ps])"
        "pPhase q = GroundState" "pDataSize q = pDataSize p"
      by (rule csi_modes [OF assms]) (use modes_bytes [OF sub] in blast)
    then show thesis using that False by (simp add: quiet_def)
  qed (use that assms in simp)
  obtain r f where "runParser q (stringToBytes ?kp) = (r, f)" "list_all quiet f" "pPhase r = GroundState" "pDataSize r = pDataSize q"
  proof (cases "tpAppKeypad m")
    case True
    obtain r c where "runParser q [0x1b, 0x3d] = (r, [EscDispatched c])" "pPhase r = GroundState" "pDataSize r = pDataSize q"
      by (rule keypad_events [OF q(3)])
    then show thesis using that True by (simp add: quiet_def)
  qed (use that q in simp)
  then show thesis using that [of r "e @ f"] q R by (simp only: stringToBytes_simps runParser_append) simp
qed

section \<open>Attaching\<close>

text \<open>The subscription of \<^verbatim>\<open>Attach\<close>: the latched title and directory of the command, when set.\<close>

definition attachOutput :: "string option \<Rightarrow> commandRuntimeState \<Rightarrow> monitorOutput \<Rightarrow> monitorOutput \<times> monitorSubscription" where
  "attachOutput snap s m =
     (let r = Runtime_State.snapshot s
      in subscribeOutput True snap (if rsTitleSet r then Some (rsTitle r) else None) (if rsCwdSet r then Some (rsCwd r) else None) m)"

lemma latched_title:
  assumes "clean t"
  shows "observeEvent now (OscDispatched 2 (stringToBytes (''2;'' @ t))) v = latchTitle t v"
proof -
  have "splitOn CHR '';'' (''2'' @ CHR '';'' # t) = ''2'' # splitOn CHR '';'' t" by (rule splitOn_append_sep) simp
  moreover have "CHR '';'' \<notin> set t" using assms by (auto simp: clean_def)
  ultimately have "splitOn CHR '';'' (''2;'' @ t) = [''2'', t]" using splitOn_plain by simp
  then have "handleTitle 2 (''2;'' @ t) = Some t" unfolding handleTitle_def Let_def by simp
  then show ?thesis by (simp only: observeEvent_def viewerEvent.case bytes_roundtrip Let_def) (simp add: optionally_def)
qed

lemma latched_cwd:
  assumes "clean t"
  shows "observeEvent now (OscDispatched 7 (stringToBytes (''7;'' @ t))) v = latchCwd t v"
proof -
  have "splitOn CHR '';'' (''7'' @ CHR '';'' # t) = ''7'' # splitOn CHR '';'' t" by (rule splitOn_append_sep) simp
  moreover have "CHR '';'' \<notin> set t" using assms by (auto simp: clean_def)
  ultimately have "splitOn CHR '';'' (''7;'' @ t) = [''7'', t]" using splitOn_plain by simp
  then have "handleWorkingDirectory (''7;'' @ t) = Some t" unfolding handleWorkingDirectory_def Let_def by simp
  then show ?thesis by (simp only: observeEvent_def viewerEvent.case bytes_roundtrip Let_def) (simp add: optionally_def)
qed

lemma latchTitle_fields:
  assumes "clean t"
  shows "crTitle (latchTitle t v) = t" "crTitleSet (latchTitle t v)" "crCwd (latchTitle t v) = crCwd v" "crCwdSet (latchTitle t v) = crCwdSet v"
    "crBellUnread (latchTitle t v) = crBellUnread v"
  using assms by (simp_all add: latchTitle_def sanitize_id clean_def mutate_def locked_def titleFn_def wake_def emitHook_def Let_def split: option.split)

lemma latchCwd_fields:
  assumes "clean t"
  shows "crCwd (latchCwd t v) = t" "crCwdSet (latchCwd t v)" "crTitle (latchCwd t v) = crTitle v" "crTitleSet (latchCwd t v) = crTitleSet v"
    "crBellUnread (latchCwd t v) = crBellUnread v"
  using assms by (simp_all add: latchCwd_def sanitize_id clean_def mutate_def locked_def cwdFn_def wake_def)

text \<open>What the viewer has latched after reading the replay.\<close>

definition replayed :: "commandRuntimeState \<Rightarrow> commandRuntimeState \<Rightarrow> commandRuntimeState" where
  "replayed s v =
     (let v = (if crTitleSet s then latchTitle (crTitle s) v else v) in if crCwdSet s then latchCwd (crCwd s) v else v)"

lemma feed_replay:
  assumes "clean (crTitle s)" "clean (crCwd s)" "stHealthy tv" "pPhase (stParser tv) = GroundState"
    "length (crTitle s) + 2 \<le> pDataSize (stParser tv)" "length (crCwd s) + 2 \<le> pDataSize (stParser tv)"
  shows "snd (feed now (msTerminalState (snd (attachOutput snap s m))) tv v) = replayed s v"
proof -
  let ?t = "if crTitleSet s then titleSequence (crTitle s) else []" and ?d = "if crCwdSet s then cwdSequence (crCwd s) else []"
  have bytes: "msTerminalState (snd (attachOutput snap s m)) = Replay (moTerminal m) @ ?t @ ?d"
    by (simp add: attachOutput_def subscribeOutput_def Runtime_State.snapshot_def Let_def split: prod.split)
  obtain p e where p: "runParser (stParser tv) (stringToBytes (Replay (moTerminal m))) = (p, e)" "list_all quiet e"
      "pPhase p = GroundState" "pDataSize p = pDataSize (stParser tv)"
    by (rule modes_events [OF assms(4)])
  obtain q f where q: "runParser p (stringToBytes ?t) = (q, f)" "pPhase q = GroundState" "pDataSize q = pDataSize p" "InvalidRune \<notin> set f"
      "fold (observeEvent now) f v = (if crTitleSet s then latchTitle (crTitle s) v else v)"
  proof (cases "crTitleSet s")
    case True
    obtain q where "runParser p (stringToBytes (titleSequence (crTitle s))) = (q, [OscDispatched 2 (stringToBytes (''2;'' @ crTitle s))])"
        "pPhase q = GroundState" "pDataSize q = pDataSize p"
      using title_events [OF p(3) assms(1)] assms(5) p(4) by metis
    then show thesis using that True latched_title [OF assms(1), of now v] by (simp del: stringToBytes_simps)
  qed (use that p in simp)
  obtain r g where r: "runParser q (stringToBytes ?d) = (r, g)" "InvalidRune \<notin> set g"
      "\<forall>w. fold (observeEvent now) g w = (if crCwdSet s then latchCwd (crCwd s) w else w)"
  proof (cases "crCwdSet s")
    case True
    obtain r where "runParser q (stringToBytes (cwdSequence (crCwd s))) = (r, [OscDispatched 7 (stringToBytes (''7;'' @ crCwd s)), EscDispatched 0x5c])"
      using cwd_events [OF q(2) assms(2)] assms(6) p(4) q(3) by metis
    moreover have "observeEvent now (EscDispatched 0x5c) w = w" for w by (simp add: observeEvent_def)
    ultimately show thesis using that True latched_cwd [OF assms(2), of now] by (simp del: stringToBytes_simps)
  qed (use that in simp)
  have "InvalidRune \<notin> set (e @ f @ g)" using p(2) q(4) r(2) by (auto simp: quiet_def list_all_iff)
  moreover have "runParser (stParser tv) (stringToBytes (Replay (moTerminal m) @ ?t @ ?d)) = (r, e @ f @ g)"
    using p(1) q(1) r(1) by (simp only: stringToBytes_simps(3) runParser_append prod.case append_assoc)
  ultimately have "feedBytes now (stringToBytes (msTerminalState (snd (attachOutput snap s m)))) tv v
      = (tv\<lparr> stParser := r \<rparr>, fold (observeEvent now) (e @ f @ g) v)"
    unfolding bytes by (rule feedBytes_events [rotated])
  then show ?thesis using assms(3) p(2) q(5) r(3) by (simp add: feed_def quiet_fold replayed_def Let_def)
qed


text \<open>A title in UTF-8, written in two chunks.\<close>

definition starTitle :: "runtimeCall list" where
  "starTitle = [CallFeed 0 ([CHR 0x1B] @ '']2;'' @ [CHR 0xE2, CHR 0x9C]), CallFeed 1 ([CHR 0xB3] @ '' go'' @ [CHR 0x07])]"

definition tracker64 :: screenTracker where
  "tracker64 = \<lparr> stParser = newParser 64, stHealthy = True \<rparr>"


end
