(* ===== verification/Runtime_Stream.thy ===== *)
theory Runtime_Stream
  imports Runtime_State
begin

text \<open>
  \<^verbatim>\<open>streamRuntimeState\<close> of cmdman/monitor/runtime_stream.go: a stream sends the view of a
  command's runtime state and then its changes, title-only ones at most once per window of a
  timer. The state changes meanwhile, wakes are sent after the change and are dropped on a
  full channel, other streams come and go, sends fail. The stream is the step relation
  \<open>streamStep\<close> over all of it. The theorem is that no change is lost: a stream with nothing to
  wait for has sent the current view.
\<close>

section \<open>The stream\<close>

datatype streamErr = SendFailed | CtxDone

datatype streamPc =
    StreamStart | StreamSubscribed | StreamSelect | StreamWoken | StreamFired | StreamEnding
  | StreamDone "streamErr option"

text \<open>\<open>ssPending\<close> counts the changes whose wake is still to be sent, \<open>ssArmed\<close> tells that
  \<^verbatim>\<open>fire\<close> is not nil, \<open>ssOut\<close> is what was sent.\<close>

record streamState =
  ssState :: commandRuntimeState
  ssPending :: nat
  ssPc :: streamPc
  ssSub :: nat
  ssSent :: runtimeView
  ssArmed :: bool
  ssOut :: "runtimeView list"

type_synonym urlParser = "string \<Rightarrow> (string \<times> string) option"

abbreviation current :: "urlParser \<Rightarrow> streamState \<Rightarrow> runtimeView" where
  "current u \<sigma> \<equiv> view u (snapshot (ssState \<sigma>))"

definition titleOnlyChange :: "runtimeView \<Rightarrow> runtimeView \<Rightarrow> bool" where
  "titleOnlyChange prev cur \<longleftrightarrow> prev\<lparr> rvTitle := rvTitle cur \<rparr> = cur"

definition setChanges :: "unit broadcaster \<Rightarrow> streamState \<Rightarrow> streamState" where
  "setChanges b \<sigma> = \<sigma>\<lparr> ssState := (ssState \<sigma>)\<lparr> crChanges := b \<rparr> \<rparr>"

text \<open>Returning runs the deferred \<^verbatim>\<open>unsub\<close>.\<close>

definition streamReturn :: "streamErr option \<Rightarrow> streamState \<Rightarrow> streamState" where
  "streamReturn e \<sigma> = (setChanges (Unsubscribe (ssSub \<sigma>) (crChanges (ssState \<sigma>))) \<sigma>)\<lparr> ssPc := StreamDone e \<rparr>"

text \<open>\<^verbatim>\<open>sent = cur; send(cur)\<close>, and on to \<open>pc\<close> when the send succeeds.\<close>

definition deliver :: "bool \<Rightarrow> streamPc \<Rightarrow> runtimeView \<Rightarrow> streamState \<Rightarrow> streamState" where
  "deliver ok pc v \<sigma> =
     (if ok then \<sigma>\<lparr> ssSent := v, ssOut := ssOut \<sigma> @ [v], ssPc := pc \<rparr>
      else streamReturn (Some SendFailed) (\<sigma>\<lparr> ssSent := v \<rparr>))"

definition streamSubscribe :: "streamState \<Rightarrow> streamState" where
  "streamSubscribe \<sigma> =
     (case Subscribe (crChanges (ssState \<sigma>)) of (b, n) \<Rightarrow> (setChanges b \<sigma>)\<lparr> ssSub := n, ssPc := StreamSubscribed \<rparr>)"

text \<open>The branch of the select that takes a wake, after the receive.\<close>

definition onChanged :: "urlParser \<Rightarrow> bool \<Rightarrow> streamState \<Rightarrow> streamState" where
  "onChanged u ok \<sigma> =
     (let cur = current u \<sigma>
      in if cur = ssSent \<sigma> then \<sigma>\<lparr> ssPc := StreamSelect \<rparr>
         else if titleOnlyChange (ssSent \<sigma>) cur then \<sigma>\<lparr> ssArmed := True, ssPc := StreamSelect \<rparr>
         else deliver ok StreamSelect cur (\<sigma>\<lparr> ssArmed := False \<rparr>))"

definition flushTo :: "urlParser \<Rightarrow> bool \<Rightarrow> streamPc \<Rightarrow> streamState \<Rightarrow> streamState" where
  "flushTo u ok pc \<sigma> = (let cur = current u \<sigma> in if cur = ssSent \<sigma> then \<sigma>\<lparr> ssPc := pc \<rparr> else deliver ok pc cur \<sigma>)"

inductive streamStep :: "urlParser \<Rightarrow> streamState \<Rightarrow> streamState \<Rightarrow> bool" for u where
  change: "locked (opFn op) (ssState \<sigma>) = (s, changed) \<Longrightarrow>
    streamStep u \<sigma> (\<sigma>\<lparr> ssState := s, ssPending := ssPending \<sigma> + (if changed then 1 else 0) \<rparr>)"
| wakeup: "ssPending \<sigma> = Suc k \<Longrightarrow> streamStep u \<sigma> (\<sigma>\<lparr> ssState := wake (ssState \<sigma>), ssPending := k \<rparr>)"
| otherSubscribe: "streamStep u \<sigma> (setChanges (fst (Subscribe (crChanges (ssState \<sigma>)))) \<sigma>)"
| otherUnsubscribe: "n \<noteq> ssSub \<sigma> \<Longrightarrow> streamStep u \<sigma> (setChanges (Unsubscribe n (crChanges (ssState \<sigma>))) \<sigma>)"
| otherReceive: "n \<noteq> ssSub \<sigma> \<Longrightarrow> streamStep u \<sigma> (setChanges (fst (Receive n (crChanges (ssState \<sigma>)))) \<sigma>)"
| subscribe: "ssPc \<sigma> = StreamStart \<Longrightarrow> streamStep u \<sigma> (streamSubscribe \<sigma>)"
| first: "ssPc \<sigma> = StreamSubscribed \<Longrightarrow> streamStep u \<sigma> (deliver ok StreamSelect (current u \<sigma>) \<sigma>)"
| receive: "ssPc \<sigma> = StreamSelect \<Longrightarrow> Receive (ssSub \<sigma>) (crChanges (ssState \<sigma>)) = (b, Some x) \<Longrightarrow>
    streamStep u \<sigma> ((setChanges b \<sigma>)\<lparr> ssPc := StreamWoken \<rparr>)"
| changed: "ssPc \<sigma> = StreamWoken \<Longrightarrow> streamStep u \<sigma> (onChanged u ok \<sigma>)"
| fire: "ssPc \<sigma> = StreamSelect \<Longrightarrow> ssArmed \<sigma> \<Longrightarrow> streamStep u \<sigma> (\<sigma>\<lparr> ssArmed := False, ssPc := StreamFired \<rparr>)"
| fired: "ssPc \<sigma> = StreamFired \<Longrightarrow> streamStep u \<sigma> (flushTo u ok StreamSelect \<sigma>)"
| runOver: "ssPc \<sigma> = StreamSelect \<Longrightarrow> streamStep u \<sigma> (\<sigma>\<lparr> ssPc := StreamEnding \<rparr>)"
| ending: "ssPc \<sigma> = StreamEnding \<Longrightarrow> flushTo u ok StreamEnding \<sigma> = \<tau> \<Longrightarrow>
    streamStep u \<sigma> (case ssPc \<tau> of StreamDone e \<Rightarrow> \<tau> | _ \<Rightarrow> streamReturn None \<tau>)"
| ctxDone: "ssPc \<sigma> = StreamSelect \<Longrightarrow> streamStep u \<sigma> (streamReturn (Some CtxDone) \<sigma>)"

definition streamInit :: "commandRuntimeState \<Rightarrow> streamState" where
  "streamInit s =
     \<lparr> ssState = s, ssPending = 0, ssPc = StreamStart, ssSub = 0,
       ssSent = \<lparr> rvTitle = [], rvCwd = [], rvStatus = [], rvDetail = [], rvBellUnread = False \<rparr>, ssArmed = False, ssOut = [] \<rparr>"

section \<open>Invariant\<close>

definition wakes :: "streamState \<Rightarrow> unit list" where
  "wakes \<sigma> = (case map_of (bSubscribers (crChanges (ssState \<sigma>))) (ssSub \<sigma>) of None \<Rightarrow> [] | Some ch \<Rightarrow> ch)"

definition connected :: "streamState \<Rightarrow> bool" where
  "connected \<sigma> \<longleftrightarrow> ssSub \<sigma> < bNextID (crChanges (ssState \<sigma>)) \<and> map_of (bSubscribers (crChanges (ssState \<sigma>))) (ssSub \<sigma>) \<noteq> None"

definition upToDate :: "urlParser \<Rightarrow> streamState \<Rightarrow> bool" where
  "upToDate u \<sigma> \<longleftrightarrow> ssSent \<sigma> = current u \<sigma> \<or> wakes \<sigma> \<noteq> [] \<or> 0 < ssPending \<sigma> \<or>
     (ssArmed \<sigma> \<and> titleOnlyChange (ssSent \<sigma>) (current u \<sigma>))"

definition sentLast :: "streamState \<Rightarrow> bool" where
  "sentLast \<sigma> \<longleftrightarrow> ssOut \<sigma> \<noteq> [] \<and> last (ssOut \<sigma>) = ssSent \<sigma>"

fun stream_inv :: "urlParser \<Rightarrow> streamState \<Rightarrow> bool" where
  "stream_inv u \<sigma> \<longleftrightarrow> \<not> bClosed (crChanges (ssState \<sigma>)) \<and> distinct_adj (ssOut \<sigma>) \<and>
     (case ssPc \<sigma> of
        StreamStart \<Rightarrow> ssOut \<sigma> = []
      | StreamSubscribed \<Rightarrow> connected \<sigma> \<and> ssOut \<sigma> = []
      | StreamSelect \<Rightarrow> connected \<sigma> \<and> sentLast \<sigma> \<and> upToDate u \<sigma>
      | StreamDone e \<Rightarrow> True
      | _ \<Rightarrow> connected \<sigma> \<and> sentLast \<sigma>)"

declare stream_inv.simps [simp del]

lemma locked_view:
  assumes "locked (opFn op) s = (s', changed)"
  shows "crChanges s' = crChanges s" "\<not> changed \<Longrightarrow> snapshot s' = snapshot s"
  using locked_gen [OF assms] by blast+

lemma snapshot_changes [simp]: "snapshot (s\<lparr> crChanges := b \<rparr>) = snapshot s"
  by (simp add: snapshot_def)

lemma wake_frame [simp]: "snapshot (wake s) = snapshot s" "bClosed (crChanges (wake s)) = bClosed (crChanges s)"
  "bNextID (crChanges (wake s)) = bNextID (crChanges s)"
  by (simp_all add: wake_def)

lemma wake_wakes:
  "\<not> bClosed (crChanges s) \<Longrightarrow> map_of (bSubscribers (crChanges s)) n = Some ch \<Longrightarrow>
     \<exists>ch'. map_of (bSubscribers (crChanges (wake s))) n = Some ch' \<and> ch' \<noteq> []"
  by (auto simp: wake_def map_of_Send chanCap_def)

lemma titleOnlyChange_trans: "titleOnlyChange a b \<Longrightarrow> titleOnlyChange a c \<Longrightarrow> titleOnlyChange b c"
  by (cases a; cases b; cases c) (simp add: titleOnlyChange_def)

text \<open>What the other parties do to the stream's view of the world.\<close>

definition environment :: "streamState \<Rightarrow> streamState \<Rightarrow> bool" where
  "environment \<sigma> \<tau> \<longleftrightarrow>
     ssPc \<tau> = ssPc \<sigma> \<and> ssSub \<tau> = ssSub \<sigma> \<and> ssSent \<tau> = ssSent \<sigma> \<and> ssArmed \<tau> = ssArmed \<sigma> \<and> ssOut \<tau> = ssOut \<sigma> \<and>
     bClosed (crChanges (ssState \<tau>)) = bClosed (crChanges (ssState \<sigma>)) \<and>
     (connected \<sigma> \<longrightarrow> connected \<tau> \<and>
        ((snapshot (ssState \<tau>) = snapshot (ssState \<sigma>) \<and> wakes \<tau> = wakes \<sigma> \<and> ssPending \<tau> = ssPending \<sigma>) \<or> 0 < ssPending \<tau> \<or> wakes \<tau> \<noteq> []))"

lemma environment_inv: "stream_inv u \<sigma> \<Longrightarrow> environment \<sigma> \<tau> \<Longrightarrow> stream_inv u \<tau>"
  by (auto simp: stream_inv.simps environment_def sentLast_def upToDate_def split: streamPc.splits)

lemma env_change:
  assumes "locked (opFn op) (ssState \<sigma>) = (s, changed)"
  shows "environment \<sigma> (\<sigma>\<lparr> ssState := s, ssPending := ssPending \<sigma> + (if changed then 1 else 0) \<rparr>)"
  using locked_view [OF assms] by (auto simp: environment_def connected_def wakes_def)

lemma env_wake:
  assumes "\<not> bClosed (crChanges (ssState \<sigma>))" "ssPending \<sigma> = Suc k"
  shows "environment \<sigma> (\<sigma>\<lparr> ssState := wake (ssState \<sigma>), ssPending := k \<rparr>)"
proof -
  have "wakes (\<sigma>\<lparr> ssState := wake (ssState \<sigma>), ssPending := k \<rparr>) \<noteq> [] \<and> connected (\<sigma>\<lparr> ssState := wake (ssState \<sigma>), ssPending := k \<rparr>)"
    if c: "connected \<sigma>"
  proof -
    obtain ch where "map_of (bSubscribers (crChanges (ssState \<sigma>))) (ssSub \<sigma>) = Some ch" using c by (auto simp: connected_def)
    from wake_wakes [OF assms(1) this] show ?thesis using c by (auto simp: wakes_def connected_def)
  qed
  then show ?thesis by (auto simp: environment_def)
qed

lemma env_other:
  "environment \<sigma> (setChanges (fst (Subscribe (crChanges (ssState \<sigma>)))) \<sigma>)"
  "n \<noteq> ssSub \<sigma> \<Longrightarrow> environment \<sigma> (setChanges (Unsubscribe n (crChanges (ssState \<sigma>))) \<sigma>)"
  "n \<noteq> ssSub \<sigma> \<Longrightarrow> environment \<sigma> (setChanges (fst (Receive n (crChanges (ssState \<sigma>)))) \<sigma>)"
  by (auto simp: environment_def setChanges_def Subscribe_def Unsubscribe_def Receive_def Let_def connected_def wakes_def
      delete_conv' split: option.split list.split)

lemma deliver_inv:
  assumes "\<not> bClosed (crChanges (ssState \<sigma>))" "connected \<sigma>" "distinct_adj (ssOut \<sigma>)" "sentLast \<sigma> \<or> ssOut \<sigma> = []"
    "ssSent \<sigma> \<noteq> current u \<sigma> \<or> ssOut \<sigma> = []" "pc = StreamSelect \<or> pc = StreamEnding"
  shows "stream_inv u (deliver ok pc (current u \<sigma>) \<sigma>)"
proof -
  have "distinct_adj (ssOut \<sigma> @ [current u \<sigma>])" using assms(3,4,5) by (auto simp: distinct_adj_append_iff sentLast_def)
  then show ?thesis using assms
    by (auto simp: deliver_def stream_inv.simps streamReturn_def setChanges_def Unsubscribe_def connected_def sentLast_def upToDate_def)
qed

lemma streamReturn_inv: "stream_inv u \<sigma> \<Longrightarrow> stream_inv u (streamReturn e \<sigma>)"
  by (simp add: stream_inv.simps streamReturn_def setChanges_def Unsubscribe_def)

lemma flushTo_inv:
  assumes "stream_inv u \<sigma>" "ssPc \<sigma> = StreamFired \<or> ssPc \<sigma> = StreamEnding" "pc = StreamSelect \<or> pc = StreamEnding"
  shows "stream_inv u (flushTo u ok pc \<sigma>)"
proof (cases "current u \<sigma> = ssSent \<sigma>")
  case True
  then show ?thesis using assms by (auto simp: flushTo_def stream_inv.simps connected_def sentLast_def upToDate_def)
next
  case False
  then show ?thesis using assms deliver_inv [of \<sigma> u pc ok] by (auto simp: flushTo_def stream_inv.simps)
qed

lemma onChanged_inv:
  assumes "stream_inv u \<sigma>" "ssPc \<sigma> = StreamWoken"
  shows "stream_inv u (onChanged u ok \<sigma>)"
proof -
  let ?\<tau> = "\<sigma>\<lparr> ssArmed := False \<rparr>"
  have "stream_inv u (deliver ok StreamSelect (current u ?\<tau>) ?\<tau>)" if "current u \<sigma> \<noteq> ssSent \<sigma>"
    using assms that deliver_inv [of ?\<tau> u StreamSelect ok] by (auto simp: stream_inv.simps connected_def sentLast_def)
  then show ?thesis using assms
    by (auto simp: onChanged_def Let_def stream_inv.simps connected_def sentLast_def upToDate_def)
qed

lemma streamStep_inv:
  assumes "streamStep u \<sigma> \<tau>" "stream_inv u \<sigma>"
  shows "stream_inv u \<tau>"
  using assms
proof (induction rule: streamStep.induct)
  case (change op \<sigma> s changed)
  then show ?case using environment_inv env_change by blast
next
  case (wakeup \<sigma> k)
  then show ?case using environment_inv env_wake stream_inv.simps by blast
next
  case (subscribe \<sigma>)
  then show ?case
    by (auto simp: stream_inv.simps streamSubscribe_def Subscribe_def setChanges_def Let_def connected_def)
next
  case (first \<sigma> ok)
  then show ?case using deliver_inv [of \<sigma> u StreamSelect ok] by (simp add: stream_inv.simps)
next
  case (receive \<sigma> b x)
  then show ?case
    by (auto simp: stream_inv.simps Receive_def setChanges_def connected_def sentLast_def split: option.splits list.splits)
next
  case (ending \<sigma> ok \<tau>)
  then have "stream_inv u \<tau>" using flushTo_inv by blast
  then show ?case using streamReturn_inv by (simp split: streamPc.split)
next
  case (runOver \<sigma>)
  then show ?case by (auto simp: stream_inv.simps connected_def sentLast_def)
next
  case (fire \<sigma>)
  then show ?case by (auto simp: stream_inv.simps connected_def sentLast_def)
next
  case (changed \<sigma> ok)
  then show ?case using onChanged_inv by blast
next
  case (fired \<sigma> ok)
  then show ?case using flushTo_inv by blast
next
  case (ctxDone \<sigma>)
  then show ?case using streamReturn_inv by blast
qed (use environment_inv env_other in blast)+

lemma stream_reachable_inv:
  assumes "(streamStep u)\<^sup>*\<^sup>* (streamInit s) \<sigma>" "\<not> bClosed (crChanges s)"
  shows "stream_inv u \<sigma>"
  using assms
proof (induction rule: rtranclp_induct)
  case base
  then show ?case by (simp add: stream_inv.simps streamInit_def)
qed (use streamStep_inv in blast)

lemma deliver_current [simp]: "current u (deliver ok pc v \<sigma>) = current u \<sigma>"
  by (simp add: deliver_def streamReturn_def setChanges_def)

lemma deliver_pc: "ssPc (deliver ok pc v \<sigma>) = (if ok then pc else StreamDone (Some SendFailed))"
  by (simp add: deliver_def streamReturn_def)

lemma ssOut_streamReturn [simp]: "ssOut (streamReturn e \<sigma>) = ssOut \<sigma>"
  by (simp add: streamReturn_def setChanges_def)

lemma ssOut_deliver: "ssOut (deliver ok pc v \<sigma>) = (if ok then ssOut \<sigma> @ [v] else ssOut \<sigma>)"
  by (simp add: deliver_def)

text \<open>A stream that returns because the run is over has sent the last view of the run.\<close>

lemma stream_last_words:
  assumes "streamStep u \<sigma> \<tau>" "stream_inv u \<sigma>" "ssPc \<sigma> \<noteq> StreamDone None" "ssPc \<tau> = StreamDone None"
  shows "ssOut \<tau> \<noteq> [] \<and> last (ssOut \<tau>) = current u \<tau>"
  using assms
proof (cases rule: streamStep.cases)
  case (ending ok \<rho>)
  have "ssPc \<rho> = StreamEnding \<or> ssPc \<rho> = StreamDone (Some SendFailed)"
    using ending(3,2) by (auto simp: flushTo_def Let_def deliver_pc split: if_splits)
  then have \<rho>: "ssPc \<rho> = StreamEnding" "\<tau> = streamReturn None \<rho>" using ending(1) assms(4) by auto
  have "ssOut \<rho> \<noteq> [] \<and> last (ssOut \<rho>) = current u \<rho>"
    using ending(2,3) \<rho>(1) assms(2)
    by (auto simp: flushTo_def Let_def deliver_def streamReturn_def stream_inv.simps sentLast_def split: if_splits)
  then show ?thesis using \<rho>(2) by (simp add: streamReturn_def setChanges_def)
qed (auto simp: setChanges_def streamSubscribe_def streamReturn_def onChanged_def flushTo_def deliver_pc Let_def split: prod.splits if_splits)

text \<open>A title alone is only sent when a window of the timer has passed, or at the end.\<close>

lemma stream_throttles:
  assumes "streamStep u \<sigma> \<tau>" "stream_inv u \<sigma>" "ssOut \<tau> = ssOut \<sigma> @ [v]" "ssOut \<sigma> \<noteq> []" "titleOnlyChange (last (ssOut \<sigma>)) v"
  shows "ssPc \<sigma> = StreamFired \<or> ssPc \<sigma> = StreamEnding"
  using assms
  by (cases rule: streamStep.cases)
    (auto simp: setChanges_def streamSubscribe_def onChanged_def ssOut_deliver Let_def stream_inv.simps sentLast_def
      split: prod.splits if_splits)

text \<open>C15: The stream of a command's runtime state loses no change. However changes, their wakes
  (dropped when the channel is full), other streams and timers interleave: a stream that waits with
  no wake left for it has sent the current view, unless only the title differs and the timer that
  will send it is running; one that ends with the run has sent the view the run ended with; no
  message repeats the one before it; and a message that only changes the title is sent only when
  the timer fired or the run ended.\<close>

theorem stream_no_lost_update:
  assumes "(streamStep u)\<^sup>*\<^sup>* (streamInit s) \<sigma>" "\<not> bClosed (crChanges s)"
  shows "(ssPc \<sigma> = StreamSelect \<and> ssPending \<sigma> = 0 \<and> wakes \<sigma> = [] \<longrightarrow>
        last (ssOut \<sigma>) = current u \<sigma> \<or> ssArmed \<sigma> \<and> titleOnlyChange (last (ssOut \<sigma>)) (current u \<sigma>)) \<and>
    (streamStep u \<sigma> \<tau> \<and> ssPc \<sigma> \<noteq> StreamDone None \<and> ssPc \<tau> = StreamDone None \<longrightarrow> last (ssOut \<tau>) = current u \<tau>) \<and>
    distinct_adj (ssOut \<sigma>) \<and>
    (streamStep u \<sigma> \<tau> \<and> ssOut \<tau> = ssOut \<sigma> @ [v] \<and> ssOut \<sigma> \<noteq> [] \<and> titleOnlyChange (last (ssOut \<sigma>)) v \<longrightarrow>
        ssPc \<sigma> = StreamFired \<or> ssPc \<sigma> = StreamEnding)"
proof -
  note inv = stream_reachable_inv [OF assms]
  show ?thesis using inv stream_last_words [OF _ inv] stream_throttles [OF _ inv]
    by (auto simp: stream_inv.simps sentLast_def upToDate_def)
qed

text \<open>A bell is sent at once; nothing parses as a URL.\<close>

definition noUrl :: urlParser where "noUrl = (\<lambda>_. None)"

definition bellRung :: streamState where
  "bellRung =
     (let \<sigma> = deliver True StreamSelect (current noUrl (streamSubscribe (streamInit newCommandRuntimeState))) (streamSubscribe (streamInit newCommandRuntimeState));
          s = fst (locked (opFn OpBell) (ssState \<sigma>))
      in \<sigma>\<lparr> ssState := wake s, ssPending := 0 \<rparr>)"

definition bellSent :: streamState where
  "bellSent = onChanged noUrl True ((setChanges (fst (Receive 0 (crChanges (ssState bellRung)))) bellRung)\<lparr> ssPc := StreamWoken \<rparr>)"

lemma bellRung_reachable: "(streamStep noUrl)\<^sup>*\<^sup>* (streamInit newCommandRuntimeState) bellRung"
proof -
  let ?i = "streamInit newCommandRuntimeState"
  let ?a = "streamSubscribe ?i"
  let ?b = "deliver True StreamSelect (current noUrl ?a) ?a"
  let ?l = "locked (opFn OpBell) (ssState ?b)"
  let ?c = "?b\<lparr> ssState := fst ?l, ssPending := ssPending ?b + (if True then 1 else 0) \<rparr>"
  have p: "ssPc ?i = StreamStart" "ssPc ?a = StreamSubscribed" by code_simp+
  have l: "?l = (fst ?l, True)" by code_simp
  have k: "ssPending ?c = Suc 0" by code_simp
  have "streamStep noUrl ?i ?a" "streamStep noUrl ?a ?b" "streamStep noUrl ?b ?c"
    "streamStep noUrl ?c (?c\<lparr> ssState := wake (ssState ?c), ssPending := 0 \<rparr>)"
    using streamStep.subscribe [OF p(1)] streamStep.first [OF p(2)] streamStep.change [OF l] streamStep.wakeup [OF k] .
  then have "(streamStep noUrl)\<^sup>*\<^sup>* ?i (?c\<lparr> ssState := wake (ssState ?c), ssPending := 0 \<rparr>)" by (meson converse_rtranclp_into_rtranclp rtranclp.rtrancl_refl)
  then show ?thesis by (simp add: bellRung_def Let_def)
qed

theorem stream_no_lost_update_witness:
  "last (ssOut bellSent) = current noUrl bellSent \<and> rvBellUnread (last (ssOut bellSent)) \<and> length (ssOut bellSent) = 2"
proof -
  have p: "ssPc bellRung = StreamSelect" by code_simp
  have r: "Receive (ssSub bellRung) (crChanges (ssState bellRung)) = (fst (Receive 0 (crChanges (ssState bellRung))), Some ())" by code_simp
  let ?w = "(setChanges (fst (Receive 0 (crChanges (ssState bellRung)))) bellRung)\<lparr> ssPc := StreamWoken \<rparr>"
  have w: "ssPc ?w = StreamWoken" by simp
  have reach: "(streamStep noUrl)\<^sup>*\<^sup>* (streamInit newCommandRuntimeState) bellSent"
    using bellRung_reachable streamStep.receive [where u = noUrl, OF p r] streamStep.changed [where u = noUrl and ok = True, OF w]
    unfolding bellSent_def by (meson rtranclp.rtrancl_into_rtrancl)
  have open_: "\<not> bClosed (crChanges newCommandRuntimeState)" by code_simp
  have f: "ssPc bellSent = StreamSelect" "ssPending bellSent = 0" "wakes bellSent = []" "\<not> ssArmed bellSent" by code_simp+
  have "last (ssOut bellSent) = current noUrl bellSent" using stream_no_lost_update [OF reach open_] f by blast
  moreover have "rvBellUnread (current noUrl bellSent)" "length (ssOut bellSent) = 2" by code_simp+
  ultimately show ?thesis by simp
qed

end
