(* ===== verification/Mux_Scale.thy ===== *)
theory Mux_Scale
  imports Mux_Spec Go_Utf8
begin

text \<open>
  The replica a dashboard pane shows: the positions kept in a window's state and their wire
  format (cmdman/mux/scale_codec.go), and the arithmetic of moving to the next replica
  (\<^verbatim>\<open>computeTargetPosition\<close> of cycle_scale.go). The codec is the provider and the cycling the
  client of the interface \<open>position_store\<close>.
\<close>

section \<open>Fields of a string\<close>

text \<open>The UTF-8 encodings of the white space runes beyond one byte: U+0085, U+00A0, U+1680,
  U+2000 to U+200A, U+2028, U+2029, U+202F, U+205F and U+3000 (\<^verbatim>\<open>unicode.IsSpace\<close>). None of
  their first bytes occurs inside a rune, so they are found by their bytes.\<close>

definition wideSpaces :: "string list" where
  "wideSpaces =
     [[CHR 0xC2, CHR 0x85], [CHR 0xC2, CHR 0xA0], [CHR 0xE1, CHR 0x9A, CHR 0x80]] @
     map (\<lambda>c. [CHR 0xE2, CHR 0x80, c])
       [CHR 0x80, CHR 0x81, CHR 0x82, CHR 0x83, CHR 0x84, CHR 0x85, CHR 0x86, CHR 0x87, CHR 0x88, CHR 0x89, CHR 0x8A,
        CHR 0xA8, CHR 0xA9, CHR 0xAF] @
     [[CHR 0xE2, CHR 0x81, CHR 0x9F], [CHR 0xE3, CHR 0x80, CHR 0x80]]"

definition asciiSpace :: "char \<Rightarrow> bool" where
  "asciiSpace c \<longleftrightarrow> c \<in> set [CHR 0x09, CHR 0x0A, CHR 0x0B, CHR 0x0C, CHR 0x0D, CHR 0x20]"

text \<open>The length of the white space rune a string starts with, 0 when it starts with none.\<close>

definition spaceLen :: "string \<Rightarrow> nat" where
  "spaceLen s =
     (case s of [] \<Rightarrow> 0
      | c # _ \<Rightarrow> if asciiSpace c then 1
                else case filter (\<lambda>w. take (length w) s = w) wideSpaces of [] \<Rightarrow> 0 | w # _ \<Rightarrow> length w)"

text \<open>\<^verbatim>\<open>strings.Fields\<close>: the maximal runs without white space, in order.\<close>

function fieldsLoop :: "string \<Rightarrow> string \<Rightarrow> string list" where
  "fieldsLoop cur s =
     (if s = [] then (if cur = [] then [] else [cur])
      else if spaceLen s > 0 then (if cur = [] then [] else [cur]) @ fieldsLoop [] (drop (spaceLen s) s)
      else fieldsLoop (cur @ [hd s]) (tl s))"
  by auto
termination by (relation "measure (\<lambda>(cur, s). length s)") auto

declare fieldsLoop.simps [simp del]

definition fieldsOf :: "string \<Rightarrow> string list" where
  "fieldsOf s = fieldsLoop [] s"

text \<open>A word is a field that stays whole: no white space starts inside it.\<close>

definition plainChar :: "char \<Rightarrow> bool" where
  "plainChar c \<longleftrightarrow> \<not> asciiSpace c \<and> c \<notin> set [CHR 0xC2, CHR 0xE1, CHR 0xE2, CHR 0xE3]"

lemma spaceLen_plain:
  assumes "plainChar c"
  shows "spaceLen (c # s) = 0"
proof -
  have "\<forall>w \<in> set wideSpaces. w \<noteq> [] \<and> hd w \<in> set [CHR 0xC2, CHR 0xE1, CHR 0xE2, CHR 0xE3]" by code_simp
  then have "\<forall>w \<in> set wideSpaces. take (length w) (c # s) \<noteq> w"
    using assms by (metis hd_conv_nth length_greater_0_conv list.sel(1) nth_Cons_0 nth_take plainChar_def)
  then have "filter (\<lambda>w. take (length w) (c # s) = w) wideSpaces = []" by (simp add: filter_empty_conv)
  then show ?thesis using assms by (simp add: spaceLen_def plainChar_def)
qed

lemma spaceLen_blank [simp]: "spaceLen (CHR '' '' # s) = 1"
  by (simp add: spaceLen_def asciiSpace_def)

lemma fieldsLoop_word:
  assumes "\<forall>c \<in> set w. plainChar c"
  shows "fieldsLoop cur (w @ s) = fieldsLoop (cur @ w) s"
  using assms
proof (induction w arbitrary: cur)
  case (Cons c w)
  then show ?case using spaceLen_plain [of c "w @ s"] by (subst fieldsLoop.simps) simp
qed simp

text \<open>Words joined by blanks are the fields again.\<close>

fun joinBlank :: "string list \<Rightarrow> string" where
  "joinBlank [] = []"
| "joinBlank [x] = x"
| "joinBlank (x # y # ys) = x @ CHR '' '' # joinBlank (y # ys)"

lemma fields_joinBlank:
  assumes "\<forall>w \<in> set ws. w \<noteq> [] \<and> (\<forall>c \<in> set w. plainChar c)"
  shows "fieldsOf (joinBlank ws) = ws"
  unfolding fieldsOf_def using assms
proof (induction ws rule: joinBlank.induct)
  case (2 x)
  then show ?case using fieldsLoop_word [of x "[]" "[]"] by (simp add: fieldsLoop.simps [of x "[]"])
next
  case (3 x y ys)
  then show ?case using fieldsLoop_word [of x "[]" "CHR '' '' # joinBlank (y # ys)"]
    by (simp add: fieldsLoop.simps [of x "CHR '' '' # joinBlank (y # ys)"])
qed (simp add: fieldsLoop.simps)

section \<open>Codec (scale_codec.go)\<close>

text \<open>\<^verbatim>\<open>strings.Cut(s, sep)\<close>.\<close>

definition cutAt :: "char \<Rightarrow> string \<Rightarrow> (string \<times> string) option" where
  "cutAt c s = (if c \<in> set s then Some (takeWhile (\<lambda>x. x \<noteq> c) s, tl (dropWhile (\<lambda>x. x \<noteq> c) s)) else None)"

definition scalePair :: "string \<Rightarrow> (string \<times> int) option" where
  "scalePair pair =
     (case cutAt CHR ''='' pair of
        None \<Rightarrow> None
      | Some (name, posStr) \<Rightarrow>
          if name = [] \<or> posStr = [] then None
          else case atoi posStr of None \<Rightarrow> None | Some pos \<Rightarrow> if pos \<le> 0 then None else Some (name, pos))"

fun decodeLoop :: "string list \<Rightarrow> (string, int) gomap \<Rightarrow> (string, int) gomap" where
  "decodeLoop [] m = m"
| "decodeLoop (p # ps) m = decodeLoop ps (case scalePair p of None \<Rightarrow> m | Some (name, pos) \<Rightarrow> AList.update name pos m)"

text \<open>A nil map is \<^const>\<open>None\<close>. The \<^verbatim>\<open>TrimSpace\<close> in front changes no field.\<close>

definition decodeScalePositions :: "string \<Rightarrow> (string, int) gomap option" where
  "decodeScalePositions raw = (let m = decodeLoop (fieldsOf raw) [] in if m = [] then None else Some m)"

definition encodePair :: "(string, int) gomap \<Rightarrow> string \<Rightarrow> string" where
  "encodePair m k = k @ CHR ''='' # itoa (the (map_of m k))"

definition encodeScalePositions :: "(string, int) gomap \<Rightarrow> string" where
  "encodeScalePositions m = joinBlank (map (encodePair m) (filter (\<lambda>k. the (map_of m k) > 0) (sort (keys_of m))))"

section \<open>Positions\<close>

definition scaleName :: "string \<Rightarrow> bool" where
  "scaleName k \<longleftrightarrow> k \<noteq> [] \<and> (\<forall>c \<in> set k. plainChar c \<and> c \<noteq> CHR ''='')"

lemma atoi_bound: "atoi s = Some n \<Longrightarrow> n \<le> maxInt64"
  using atoi_bounds by blast

lemma digit_plain: "isDigit c \<Longrightarrow> plainChar c \<and> c \<noteq> CHR ''=''"
  by (auto simp: isDigit_def plainChar_def asciiSpace_def)

lemma scalePair_encode:
  assumes "scaleName k" "map_of m k = Some v" "0 < v" "v \<le> maxInt64"
  shows "scalePair (encodePair m k) = Some (k, v)" "\<forall>c \<in> set (encodePair m k). plainChar c" "encodePair m k \<noteq> []"
proof -
  have k: "CHR ''='' \<notin> set k" "k \<noteq> []" "\<forall>c \<in> set k. plainChar c" using assms(1) by (auto simp: scaleName_def)
  have cut: "cutAt CHR ''='' (encodePair m k) = Some (k, itoa v)"
    using k(1) assms(2) by (auto simp: cutAt_def encodePair_def takeWhile_append dropWhile_append)
  have "atoi (itoa v) = Some v" using assms(3,4) by (intro atoi_itoa) (simp_all add: minInt64_def)
  then show "scalePair (encodePair m k) = Some (k, v)" using cut k(2) assms(3) by (simp add: scalePair_def)
  have "\<forall>c \<in> set (itoa v). plainChar c" using itoa_nat_digits [of v] assms(3) digit_plain by auto
  moreover have "plainChar CHR ''=''" by code_simp
  ultimately show "\<forall>c \<in> set (encodePair m k). plainChar c" using k(3) assms(2) by (auto simp: encodePair_def)
  show "encodePair m k \<noteq> []" by (simp add: encodePair_def)
qed

lemma decodeLoop_map:
  assumes "\<forall>k \<in> set ks. scalePair (f k) = Some (k, g k)"
  shows "map_of (decodeLoop (map f ks) m) = (\<lambda>k. if k \<in> set ks then Some (g k) else map_of m k)"
  using assms by (induction ks arbitrary: m) (auto simp: fun_eq_iff)

lemma decode_encode:
  assumes "distinct (keys_of m)" "\<forall>(k, v) \<in> set m. scaleName k \<and> v \<le> maxInt64"
  shows "(case decodeScalePositions (encodeScalePositions m) of None \<Rightarrow> Map.empty | Some m' \<Rightarrow> map_of m') k =
    (case map_of m k of Some v \<Rightarrow> if 0 < v then Some v else None | None \<Rightarrow> None)"
proof -
  let ?ks = "filter (\<lambda>k. the (map_of m k) > 0) (sort (keys_of m))"
  have val: "scaleName x \<and> map_of m x = Some (the (map_of m x)) \<and> 0 < the (map_of m x) \<and> the (map_of m x) \<le> maxInt64"
    if x: "x \<in> set ?ks" for x
  proof -
    have pos: "0 < the (map_of m x)" and "x \<in> set (keys_of m)" using x by auto
    then have "map_of m x \<noteq> None" using map_of_None_iff [of m x] by blast
    then obtain v where v: "map_of m x = Some v" by blast
    have "scaleName x \<and> v \<le> maxInt64" using bspec [OF assms(2) map_of_SomeD [OF v]] by simp
    then show ?thesis using v pos by simp
  qed
  then have pair: "\<forall>x \<in> set ?ks. scalePair (encodePair m x) = Some (x, the (map_of m x))" using scalePair_encode(1) by blast
  have "\<forall>x \<in> set ?ks. encodePair m x \<noteq> [] \<and> (\<forall>c \<in> set (encodePair m x). plainChar c)"
    using val scalePair_encode(2,3) by blast
  then have "\<forall>w \<in> set (map (encodePair m) ?ks). w \<noteq> [] \<and> (\<forall>c \<in> set w. plainChar c)"
    by (simp only: list.set_map ball_simps)
  then have f: "fieldsOf (encodeScalePositions m) = map (encodePair m) ?ks"
    unfolding encodeScalePositions_def by (rule fields_joinBlank)
  have "map_of (decodeLoop (map (encodePair m) ?ks) []) k = (if k \<in> set ?ks then Some (the (map_of m k)) else None)"
    using decodeLoop_map [OF pair, of "[]"] by (simp add: fun_eq_iff)
  moreover have "k \<in> set ?ks \<longleftrightarrow> (\<exists>v. map_of m k = Some v \<and> 0 < v)"
    using map_of_None_iff [of m k] by (cases "map_of m k") auto
  ultimately show ?thesis unfolding decodeScalePositions_def Let_def f by (cases "map_of m k") (auto split: if_splits)
qed

section \<open>Read, modify, write\<close>

text \<open>The position of a command in a window's raw state, and \<^verbatim>\<open>writeScalePosition\<close> on that
  state.\<close>

definition positionOf :: "string \<Rightarrow> string \<Rightarrow> int option" where
  "positionOf raw cmd = (case decodeScalePositions raw of None \<Rightarrow> None | Some m \<Rightarrow> map_of m cmd)"

definition writeScalePosition :: "string \<Rightarrow> string \<Rightarrow> int \<Rightarrow> string" where
  "writeScalePosition raw cmd pos =
     (let m = (case decodeScalePositions raw of None \<Rightarrow> [] | Some m \<Rightarrow> m)
      in encodeScalePositions (if pos \<le> 0 then AList.delete cmd m else AList.update cmd pos m))"

definition scaleState :: "string \<Rightarrow> bool" where
  "scaleState raw \<longleftrightarrow>
     (case decodeScalePositions raw of None \<Rightarrow> True
      | Some m \<Rightarrow> distinct (keys_of m) \<and> (\<forall>(k, v) \<in> set m. scaleName k \<and> 0 < v \<and> v \<le> maxInt64))"

lemma decodeLoop_distinct: "distinct (keys_of m) \<Longrightarrow> distinct (keys_of (decodeLoop ps m))"
proof (induction ps m rule: decodeLoop.induct)
  case (2 p ps m)
  show ?case using "2.IH" "2.prems" by (cases "scalePair p") (auto simp: distinct_keys_update)
qed simp

lemma set_update_cases: "x \<in> set (AList.update k v m) \<Longrightarrow> x = (k, v) \<or> x \<in> set m"
  by (induction m) (auto split: if_splits)

lemma set_delete_subset: "x \<in> set (AList.delete k m) \<Longrightarrow> x \<in> set m"
  by (induction m) (auto split: if_splits)

lemma distinct_keys_delete: "distinct (keys_of m) \<Longrightarrow> distinct (keys_of (AList.delete k m))"
  by (metis distinct_delete)

lemma write_map:
  assumes "scaleState raw" "scaleName cmd" "pos \<le> maxInt64"
  shows "positionOf (writeScalePosition raw cmd pos) c = (if c = cmd then (if 0 < pos then Some pos else None) else positionOf raw c) \<and>
    scaleState (writeScalePosition raw cmd pos)"
proof -
  define m where "m = (case decodeScalePositions raw of None \<Rightarrow> [] | Some m \<Rightarrow> m)"
  define m' where "m' = (if pos \<le> 0 then AList.delete cmd m else AList.update cmd pos m)"
  have m: "distinct (keys_of m)" "\<forall>(k, v) \<in> set m. scaleName k \<and> 0 < v \<and> v \<le> maxInt64" "\<forall>c. positionOf raw c = map_of m c"
    using assms(1) by (auto simp: m_def scaleState_def positionOf_def split: option.splits)
  have d: "distinct (keys_of m')" using m(1) by (simp add: m'_def distinct_keys_update distinct_keys_delete)
  have v: "\<forall>(k, v) \<in> set m'. scaleName k \<and> 0 < v \<and> v \<le> maxInt64"
    using m(2) assms(2,3) by (auto simp: m'_def dest!: set_update_cases set_delete_subset split: if_splits)
  have w: "writeScalePosition raw cmd pos = encodeScalePositions m'" by (simp add: writeScalePosition_def m_def m'_def Let_def)
  have ne: "\<forall>(k, v) \<in> set m'. scaleName k \<and> v \<le> maxInt64" using v by auto
  have pos: "positionOf (encodeScalePositions m') c = map_of m' c" for c
  proof -
    have "0 < x" if "map_of m' c = Some x" for x using bspec [OF v map_of_SomeD [OF that]] by simp
    then show ?thesis using decode_encode [OF d ne, of c] by (auto simp: positionOf_def split: option.splits if_splits)
  qed
  have "map_of m' c = (if c = cmd then (if 0 < pos then Some pos else None) else map_of m c)"
    by (auto simp: m'_def delete_conv')
  moreover have "scaleState (encodeScalePositions m')"
  proof (cases "decodeScalePositions (encodeScalePositions m')")
    case (Some n)
    have dn: "distinct (keys_of n)" using Some decodeLoop_distinct [of "[]"] by (auto simp: decodeScalePositions_def Let_def split: if_splits)
    have "scaleName k \<and> 0 < x \<and> x \<le> maxInt64" if "(k, x) \<in> set n" for k x
    proof -
      have "map_of n k = Some x" using that dn by simp
      then have "map_of m' k = Some x" using pos [of k] Some by (simp add: positionOf_def)
      then show ?thesis using v by (auto dest: map_of_SomeD)
    qed
    then show ?thesis using Some dn by (auto simp: scaleState_def)
  qed (simp add: scaleState_def)
  ultimately show ?thesis using w pos m(3) by simp
qed

section \<open>The next position (cycle_scale.go)\<close>

text \<open>Go's \<^verbatim>\<open>%\<close> for a positive divisor.\<close>

definition goRem :: "int \<Rightarrow> int \<Rightarrow> int" where
  "goRem a n = (if a < 0 then - ((- a) mod n) else a mod n)"

text \<open>\<^verbatim>\<open>((pos - 1) % n) + 1\<close>: a stored position wrapped into the live replicas.\<close>

definition wrapPosition :: "int \<Rightarrow> int \<Rightarrow> int" where
  "wrapPosition pos n = goRem (pos - 1) n + 1"

datatype ScaleErr = PositionOutOfRange int int | PositionPinned int | AllPinned

definition computeTargetPosition :: "int \<Rightarrow> int \<Rightarrow> int \<Rightarrow> int list \<Rightarrow> ScaleErr + int" where
  "computeTargetPosition curPos explicitPos n pinned =
     (if explicitPos \<noteq> 0 then
        (if explicitPos < 1 \<or> explicitPos > n then Inl (PositionOutOfRange explicitPos n)
         else if explicitPos \<in> set pinned then Inl (PositionPinned explicitPos)
         else Inr explicitPos)
      else
        let start = goRem curPos n + 1;
            candidates = map (\<lambda>i. goRem (start - 1 + int i) n + 1) [0..<nat n]
        in case find (\<lambda>c. c \<notin> set pinned) candidates of Some c \<Rightarrow> Inr c | None \<Rightarrow> Inl AllPinned)"

text \<open>The position \<open>i\<close> steps ahead.\<close>

definition ahead :: "int \<Rightarrow> int \<Rightarrow> nat \<Rightarrow> int" where
  "ahead n cur i = (cur - 1 + int i) mod n + 1"

lemma ahead_range: "0 < n \<Longrightarrow> 1 \<le> ahead n cur i \<and> ahead n cur i \<le> n"
  using pos_mod_bound [of n] pos_mod_sign [of n] by (simp add: ahead_def add1_zle_eq)

lemma ahead_ahead: "ahead n (ahead n cur i) j = ahead n cur (i + j)"
  by (simp add: ahead_def mod_add_left_eq) (simp add: algebra_simps)

lemma candidate_ahead:
  assumes "1 \<le> cur" "0 < n"
  shows "goRem (goRem cur n + 1 - 1 + int i) n + 1 = ahead n cur (Suc i)"
proof -
  have c: "goRem cur n = cur mod n" using assms(1) by (simp add: goRem_def)
  have "0 \<le> cur mod n + int i" using assms(2) by simp
  then have "goRem (cur mod n + int i) n = (cur + int i) mod n" by (simp add: goRem_def mod_add_left_eq)
  then show ?thesis by (simp add: c ahead_def algebra_simps)
qed

lemma ahead_reaches:
  assumes "1 \<le> cur" "cur \<le> n" "1 \<le> u" "u \<le> n"
  obtains d where "d < nat n" "ahead n cur (Suc d) = u"
proof -
  let ?d = "nat ((u - cur - 1) mod n)"
  have n: "0 < n" using assms by linarith
  have m: "0 \<le> (u - cur - 1) mod n" "(u - cur - 1) mod n < n" using n by simp_all
  have "(cur - 1 + (1 + (u - cur - 1) mod n)) mod n = (cur + (u - cur - 1)) mod n"
    by (simp add: mod_add_right_eq)
  also have "\<dots> = u - 1" using assms by simp
  finally have "ahead n cur (Suc ?d) = u" using m(1) by (simp add: ahead_def)
  moreover have "?d < nat n" using m by linarith
  ultimately show thesis using that by blast
qed

text \<open>Advancing goes to the first position ahead that no other leaf pins.\<close>

lemma target_next:
  assumes "1 \<le> cur" "cur \<le> n" "ahead n cur (Suc d) \<notin> set pinned" "d < nat n"
  obtains j where "j \<le> d" "computeTargetPosition cur 0 n pinned = Inr (ahead n cur (Suc j))" "ahead n cur (Suc j) \<notin> set pinned"
    "\<forall>i < j. ahead n cur (Suc i) \<in> set pinned"
proof -
  have n: "0 < n" using assms by linarith
  let ?P = "\<lambda>i. ahead n cur (Suc i) \<notin> set pinned"
  define j where "j = (LEAST i. ?P i)"
  have j: "?P j" "j \<le> d" unfolding j_def using LeastI [of ?P d] Least_le [of ?P d] assms(3) by blast+
  have l: "\<forall>i < j. \<not> ?P i" unfolding j_def using not_less_Least by blast
  have c: "map (\<lambda>i. goRem (goRem cur n + 1 - 1 + int i) n + 1) [0..<nat n] = map (\<lambda>i. ahead n cur (Suc i)) [0..<nat n]"
    using candidate_ahead [OF assms(1) n] by simp
  have "find (\<lambda>c. c \<notin> set pinned) (map (\<lambda>i. ahead n cur (Suc i)) [0..<nat n]) = Some (ahead n cur (Suc j))"
    unfolding find_Some_iff using j l assms(4) by (intro exI [of _ j]) simp
  then have "computeTargetPosition cur 0 n pinned = Inr (ahead n cur (Suc j))"
    unfolding computeTargetPosition_def Let_def c by simp
  then show thesis using that [OF j(2) _ j(1)] l by blast
qed

lemma target_range:
  assumes "computeTargetPosition cur e n pinned = Inr p" "1 \<le> cur" "0 < n"
  shows "1 \<le> p \<and> p \<le> n \<and> p \<notin> set pinned"
proof (cases "e = 0")
  case True
  let ?cs = "map (\<lambda>i. goRem (goRem cur n + 1 - 1 + int i) n + 1) [0..<nat n]"
  have "?cs = map (\<lambda>i. ahead n cur (Suc i)) [0..<nat n]" using candidate_ahead [OF assms(2,3)] by simp
  moreover have "find (\<lambda>c. c \<notin> set pinned) ?cs = Some p"
    using assms(1) True by (simp add: computeTargetPosition_def Let_def split: option.splits)
  ultimately show ?thesis using ahead_range [OF assms(3)] by (auto simp: find_Some_iff)
qed (use assms(1) in \<open>auto simp: computeTargetPosition_def split: if_splits\<close>)

section \<open>Stored positions\<close>

text \<open>The position a command is at, in a store of positions read with \<open>lookup\<close>, and one
  advance of it, written with \<open>put\<close>.\<close>

definition currentPosition :: "('s \<Rightarrow> string \<Rightarrow> int option) \<Rightarrow> int \<Rightarrow> string \<Rightarrow> 's \<Rightarrow> int" where
  "currentPosition lookup n cmd s = wrapPosition (case lookup s cmd of Some p \<Rightarrow> p | None \<Rightarrow> 1) n"

definition advanceStored ::
    "('s \<Rightarrow> string \<Rightarrow> int option) \<Rightarrow> ('s \<Rightarrow> string \<Rightarrow> int \<Rightarrow> 's) \<Rightarrow> int \<Rightarrow> int list \<Rightarrow> string \<Rightarrow> 's \<Rightarrow> 's" where
  "advanceStored lookup put n pinned cmd s =
     (case computeTargetPosition (currentPosition lookup n cmd s) 0 n pinned of Inl e \<Rightarrow> s | Inr p \<Rightarrow> put s cmd p)"

locale position_store =
  fixes lookup :: "'s \<Rightarrow> string \<Rightarrow> int option"
    and put :: "'s \<Rightarrow> string \<Rightarrow> int \<Rightarrow> 's"
    and valid :: "'s \<Rightarrow> bool"
    and named :: "string \<Rightarrow> bool"
  assumes lookup_put: "valid s \<Longrightarrow> named c \<Longrightarrow> 0 < p \<Longrightarrow> p \<le> maxInt64 \<Longrightarrow> lookup (put s c p) c' = (if c' = c then Some p else lookup s c')"
    and valid_put: "valid s \<Longrightarrow> named c \<Longrightarrow> 0 < p \<Longrightarrow> p \<le> maxInt64 \<Longrightarrow> valid (put s c p)"
    and lookup_pos: "valid s \<Longrightarrow> lookup s c = Some p \<Longrightarrow> 0 < p"
begin

lemma current_range:
  assumes "valid s" "0 < n"
  shows "1 \<le> currentPosition lookup n cmd s \<and> currentPosition lookup n cmd s \<le> n"
proof -
  have "1 \<le> (case lookup s cmd of Some p \<Rightarrow> p | None \<Rightarrow> 1)" using lookup_pos [OF assms(1)] by (fastforce split: option.split)
  then show ?thesis using assms(2) pos_mod_bound [OF assms(2)] by (simp add: currentPosition_def wrapPosition_def goRem_def add1_zle_eq)
qed

lemma current_put:
  assumes "valid s" "named cmd" "1 \<le> p" "p \<le> n" "n \<le> maxInt64"
  shows "currentPosition lookup n cmd (put s cmd p) = p"
proof -
  have "lookup (put s cmd p) cmd = Some p" using assms lookup_put [of s cmd p cmd] by simp
  then show ?thesis using assms(3,4) by (simp add: currentPosition_def wrapPosition_def goRem_def)
qed

lemma advance_step:
  assumes "valid s" "named cmd" "0 < n" "n \<le> maxInt64" "d < nat n" "ahead n (currentPosition lookup n cmd s) (Suc d) \<notin> set pinned"
  obtains j where "j \<le> d" "valid (advanceStored lookup put n pinned cmd s)"
    "currentPosition lookup n cmd (advanceStored lookup put n pinned cmd s) = ahead n (currentPosition lookup n cmd s) (Suc j)"
    "\<forall>c. lookup (advanceStored lookup put n pinned cmd s) c =
       (if c = cmd then Some (ahead n (currentPosition lookup n cmd s) (Suc j)) else lookup s c)"
proof -
  let ?c = "currentPosition lookup n cmd s"
  note r = current_range [OF assms(1,3), of cmd]
  obtain j where j: "j \<le> d" "computeTargetPosition ?c 0 n pinned = Inr (ahead n ?c (Suc j))"
    using target_next [OF conjunct1 [OF r] conjunct2 [OF r] assms(6,5)] by metis
  let ?p = "ahead n ?c (Suc j)"
  have p: "1 \<le> ?p" "?p \<le> n" using ahead_range [OF assms(3), of ?c "Suc j"] by auto
  then have p': "0 < ?p" "?p \<le> maxInt64" using assms(4) by linarith+
  have f: "advanceStored lookup put n pinned cmd s = put s cmd ?p" using j(2) by (simp add: advanceStored_def)
  show thesis
    by (rule that [OF j(1)])
      (simp_all add: f valid_put [OF assms(1,2) p'] lookup_put [OF assms(1,2) p'] current_put [OF assms(1,2) p assms(4)])
qed

lemma advance_keeps:
  assumes "valid s" "named cmd" "0 < n" "n \<le> maxInt64"
  shows "valid (advanceStored lookup put n pinned cmd s)"
    "computeTargetPosition (currentPosition lookup n cmd s) 0 n pinned = Inr p \<Longrightarrow> lookup (advanceStored lookup put n pinned cmd s) cmd = Some p"
proof -
  note r = current_range [OF assms(1,3), of cmd]
  have p: "0 < p \<and> p \<le> maxInt64" if "computeTargetPosition (currentPosition lookup n cmd s) 0 n pinned = Inr p" for p
    using target_range [OF that conjunct1 [OF r] assms(3)] assms(4) by linarith
  then show "valid (advanceStored lookup put n pinned cmd s)"
    using assms(1) valid_put [OF assms(1,2)] by (simp add: advanceStored_def split: sum.split)
  show "computeTargetPosition (currentPosition lookup n cmd s) 0 n pinned = Inr p \<Longrightarrow> lookup (advanceStored lookup put n pinned cmd s) cmd = Some p"
    using p lookup_put [OF assms(1,2)] by (simp add: advanceStored_def)
qed

lemma target_exists:
  assumes "valid s" "0 < n" "1 \<le> u" "u \<le> n" "u \<notin> set pinned"
  obtains p where "computeTargetPosition (currentPosition lookup n cmd s) 0 n pinned = Inr p"
proof -
  note r = current_range [OF assms(1,2), of cmd]
  obtain d where d: "d < nat n" "ahead n (currentPosition lookup n cmd s) (Suc d) = u"
    using ahead_reaches [OF conjunct1 [OF r] conjunct2 [OF r] assms(3,4)] by metis
  have "ahead n (currentPosition lookup n cmd s) (Suc d) \<notin> set pinned" using d(2) assms(5) by simp
  from target_next [OF conjunct1 [OF r] conjunct2 [OF r] this d(1)] that show thesis by metis
qed

lemma advances_valid:
  assumes "valid s" "named cmd" "0 < n" "n \<le> maxInt64"
  shows "valid ((advanceStored lookup put n pinned cmd ^^ k) s)"
  by (induction k) (simp_all add: assms advance_keeps(1))

text \<open>However the pins lie, repeated advances show every replica that is not pinned, and move
  no other command.\<close>

lemma visits_within:
  assumes "named cmd" "0 < n" "n \<le> maxInt64" "u \<notin> set pinned"
    and "valid s" "d < nat n" "ahead n (currentPosition lookup n cmd s) (Suc d) = u"
  shows "\<exists>k. 0 < k \<and> k \<le> Suc d \<and> valid ((advanceStored lookup put n pinned cmd ^^ k) s) \<and>
    lookup ((advanceStored lookup put n pinned cmd ^^ k) s) cmd = Some u \<and>
    (\<forall>c. c \<noteq> cmd \<longrightarrow> lookup ((advanceStored lookup put n pinned cmd ^^ k) s) c = lookup s c)"
  using assms(5-7)
proof (induction d arbitrary: s rule: less_induct)
  case (less d)
  let ?f = "advanceStored lookup put n pinned cmd" and ?c = "currentPosition lookup n cmd s"
  have u: "ahead n ?c (Suc d) \<notin> set pinned" using assms(4) less.prems(3) by simp
  obtain j where j: "j \<le> d" "valid (?f s)" "currentPosition lookup n cmd (?f s) = ahead n ?c (Suc j)"
      "\<forall>c. lookup (?f s) c = (if c = cmd then Some (ahead n ?c (Suc j)) else lookup s c)"
    using advance_step [OF less.prems(1) assms(1-3) less.prems(2) u] by blast
  show ?case
  proof (cases "j = d")
    case True
    then show ?thesis using j(2,4) less.prems(3) by (intro exI [of _ 1]) simp
  next
    case False
    then have lt: "d - Suc j < d" "d - Suc j < nat n" using j(1) less.prems(2) by linarith+
    have "ahead n (currentPosition lookup n cmd (?f s)) (Suc (d - Suc j)) = u"
      unfolding j(3) using less.prems(3) False j(1) by (simp add: ahead_ahead)
    from less.IH [OF lt(1) j(2) lt(2) this] obtain k where k: "0 < k" "k \<le> Suc (d - Suc j)" "valid ((?f ^^ k) (?f s))"
        "lookup ((?f ^^ k) (?f s)) cmd = Some u" "\<forall>c. c \<noteq> cmd \<longrightarrow> lookup ((?f ^^ k) (?f s)) c = lookup (?f s) c"
      by blast
    have "(?f ^^ Suc k) s = (?f ^^ k) (?f s)" by (simp add: funpow_swap1)
    moreover have "Suc k \<le> Suc d" using k(2) False j(1) by linarith
    ultimately show ?thesis using k j(4) by (intro exI [of _ "Suc k"]) simp
  qed
qed

lemma visits_all:
  assumes "valid s" "named cmd" "0 < n" "n \<le> maxInt64" "1 \<le> u" "u \<le> n" "u \<notin> set pinned"
  shows "\<exists>k. 0 < k \<and> k \<le> nat n \<and> valid ((advanceStored lookup put n pinned cmd ^^ k) s) \<and>
    lookup ((advanceStored lookup put n pinned cmd ^^ k) s) cmd = Some u \<and>
    (\<forall>c. c \<noteq> cmd \<longrightarrow> lookup ((advanceStored lookup put n pinned cmd ^^ k) s) c = lookup s c)"
proof -
  note r = current_range [OF assms(1,3), of cmd]
  obtain d where d: "d < nat n" "ahead n (currentPosition lookup n cmd s) (Suc d) = u"
    using ahead_reaches [OF conjunct1 [OF r] conjunct2 [OF r] assms(5,6)] by metis
  show ?thesis using visits_within [OF assms(2-4,7,1) d] d(1) by (meson Suc_leI order_trans)
qed

end

text \<open>The raw state of a window is such a store.\<close>

lemma positionOf_pos: "scaleState raw \<Longrightarrow> positionOf raw c = Some p \<Longrightarrow> 0 < p"
  by (auto simp: scaleState_def positionOf_def split: option.splits dest: map_of_SomeD)

interpretation scale_codec: position_store positionOf writeScalePosition scaleState scaleName
  by unfold_locales (use write_map positionOf_pos in auto)

end
