(* ===== verification/Mux_Build.thy ===== *)
theory Mux_Build
  imports Mux_Scale
begin

text \<open>
  From the layouts a user writes to the layouts a multiplexer driver realizes
  (cmdman/mux/build.go, targets.go): every leaf is resolved to a command, the replica it shows
  is its pin or the command's current position, and it gets the argv of its viewer. The
  resolver and the replica counter are the caller's and are arguments; their errors are
  strings.
\<close>

section \<open>Leaves\<close>

record PaneArgvOpts =
  poExecutable :: string
  poDataDir :: string
  poRuntimeDir :: string

definition paneArgv :: "PaneArgvOpts \<Rightarrow> string \<Rightarrow> string \<Rightarrow> string list" where
  "paneArgv opts mode cid =
     [poExecutable opts] @ (if poDataDir opts \<noteq> [] then [''--data-dir'', poDataDir opts] else []) @
     (if poRuntimeDir opts \<noteq> [] then [''--runtime-dir'', poRuntimeDir opts] else []) @
     (if mode = ''logs'' then [''logs'', ''--sticky'', cid] else [''attach'', cid])"

type_synonym Resolver = "string \<Rightarrow> int \<Rightarrow> string + string"
type_synonym ReplicaCounter = "string \<Rightarrow> string + int"

record BuildOptions =
  boSpec :: Spec
  boResolver :: "Resolver option"
  boReplicas :: "ReplicaCounter option"
  boOpts :: PaneArgvOpts
  boScalePositions :: "(string, int) gomap"

datatype BuildErr =
    ExecutableRequired | ResolverRequired | CountReplicas string string | ResolveLeaf string string
  | DuplicateCommand string int | PaneNeither | InPane nat BuildErr | InLayout nat string BuildErr | Invalid MuxErr

definition replicaName :: "string \<Rightarrow> int \<Rightarrow> string" where
  "replicaName cmd idx = cmd @ CHR ''-'' # itoa idx"

text \<open>The replica a leaf shows, its cycle key and the name of its pane.\<close>

definition leafTarget :: "BuildOptions \<Rightarrow> PaneSpec \<Rightarrow> BuildErr + int \<times> string \<times> string" where
  "leafTarget o' p =
     (if pScale p > 0 then Inr (pScale p, [], replicaName (pCommand p) (pScale p))
      else case boReplicas o' of
        Some replicas \<Rightarrow>
          (case replicas (pCommand p) of
             Inl e \<Rightarrow> Inl (CountReplicas (pCommand p) e)
           | Inr n0 \<Rightarrow>
               let n = max n0 1;
                   storedPos = (case map_of (boScalePositions o') (pCommand p) of Some sp \<Rightarrow> sp | None \<Rightarrow> 1);
                   idx = wrapPosition storedPos n
               in Inr (idx, pCommand p, replicaName (pCommand p) idx))
      | None \<Rightarrow> Inr (0, [], pCommand p))"

definition builtLeaf :: "BuildOptions \<Rightarrow> PaneSpec \<Rightarrow> string \<Rightarrow> string \<Rightarrow> string \<Rightarrow> MPane" where
  "builtLeaf o' p name key cid =
     MPane [] [] [] name (paneArgv (boOpts o') (pMode p) cid) (pCmdOpt p) (pFocus p) key"

section \<open>Build\<close>

text \<open>\<open>seen\<close> holds the ids of the layout so far; the resolver is not nil here.\<close>

fun buildPane :: "BuildOptions \<Rightarrow> Resolver \<Rightarrow> PaneSpec \<Rightarrow> string list \<Rightarrow> BuildErr + MPane \<times> string list"
and buildPanes :: "BuildOptions \<Rightarrow> Resolver \<Rightarrow> nat \<Rightarrow> PaneSpec list \<Rightarrow> string list \<Rightarrow> BuildErr + MPane list \<times> string list" where
  "buildPane o' resolver (PaneSpec d sp ps c sc m co f) seen =
     (let p = PaneSpec d sp ps c sc m co f in
      if IsLeaf p then
        (case leafTarget o' p of
           Inl e \<Rightarrow> Inl e
         | Inr (idx, key, name) \<Rightarrow>
             (case resolver c idx of
                Inl e \<Rightarrow> Inl (ResolveLeaf c e)
              | Inr cid \<Rightarrow> if cid \<in> set seen then Inl (DuplicateCommand c idx) else Inr (builtLeaf o' p name key cid, cid # seen)))
      else if IsContainer p then
        (case buildPanes o' resolver 0 ps seen of
           Inl e \<Rightarrow> Inl e
         | Inr (children, seen') \<Rightarrow> Inr (MPane d sp children [] [] [] False [], seen'))
      else Inl PaneNeither)"
| "buildPanes o' resolver i [] seen = Inr ([], seen)"
| "buildPanes o' resolver i (p # ps) seen =
     (case buildPane o' resolver p seen of
        Inl e \<Rightarrow> Inl (InPane i e)
      | Inr (q, seen') \<Rightarrow>
          (case buildPanes o' resolver (i + 1) ps seen' of
             Inl e \<Rightarrow> Inl e
           | Inr (qs, seen'') \<Rightarrow> Inr (q # qs, seen'')))"

definition buildLayout :: "BuildOptions \<Rightarrow> Resolver \<Rightarrow> Layout \<Rightarrow> BuildErr + MLayout" where
  "buildLayout o' resolver l =
     (case buildPane o' resolver (lRoot l) [] of
        Inl e \<Rightarrow> Inl e
      | Inr (root, _) \<Rightarrow> Inr \<lparr> mlName = lName l, mlRoot = root \<rparr>)"

fun buildLayouts :: "BuildOptions \<Rightarrow> Resolver \<Rightarrow> nat \<Rightarrow> Layout list \<Rightarrow> BuildErr + MLayout list" where
  "buildLayouts o' resolver i [] = Inr []"
| "buildLayouts o' resolver i (l # ls) =
     (case buildLayout o' resolver l of
        Inl e \<Rightarrow> Inl (InLayout i (lName l) e)
      | Inr l' \<Rightarrow> (case buildLayouts o' resolver (i + 1) ls of Inl e \<Rightarrow> Inl e | Inr ls' \<Rightarrow> Inr (l' # ls')))"

definition Build :: "BuildOptions \<Rightarrow> BuildErr + MuxSpec" where
  "Build o' =
     (if poExecutable (boOpts o') = [] then Inl ExecutableRequired
      else case boResolver o' of
        None \<Rightarrow> Inl ResolverRequired
      | Some resolver \<Rightarrow>
          (case buildLayouts o' resolver 0 (msLayouts (boSpec o')) of
             Inl e \<Rightarrow> Inl e
           | Inr ls \<Rightarrow>
               let out = \<lparr> mxDriver = msDriver (boSpec o'), mxLayouts = ls \<rparr>
               in (case MuxSpec_Validate out of Inl e \<Rightarrow> Inl (Invalid e) | Inr _ \<Rightarrow> Inr out)))"

section \<open>Cycle targets (targets.go)\<close>

fun collectUnpinnedLeafCommands :: "PaneSpec \<Rightarrow> string list \<Rightarrow> string list"
and collectUnpinnedList :: "PaneSpec list \<Rightarrow> string list \<Rightarrow> string list" where
  "collectUnpinnedLeafCommands (PaneSpec d sp ps c sc m co f) seen =
     (if IsLeaf (PaneSpec d sp ps c sc m co f) then (if sc = 0 then List.insert c seen else seen)
      else collectUnpinnedList ps seen)"
| "collectUnpinnedList [] seen = seen"
| "collectUnpinnedList (p # ps) seen = collectUnpinnedList ps (collectUnpinnedLeafCommands p seen)"

definition CollectCycleTargets :: "Spec \<Rightarrow> string list" where
  "CollectCycleTargets spec = sort (fold (\<lambda>l. collectUnpinnedLeafCommands (lRoot l)) (msLayouts spec) [])"

lemma collect_leaves:
  "set (collectUnpinnedLeafCommands p seen) = set seen \<union> {pCommand q |q. q \<in> set (leavesOf p) \<and> pScale q = 0}"
  "set (collectUnpinnedList ps seen) = set seen \<union> {pCommand q |q. \<exists>p \<in> set ps. q \<in> set (leavesOf p) \<and> pScale q = 0}"
  by (induction p seen and ps seen rule: collectUnpinnedLeafCommands_collectUnpinnedList.induct) auto

lemma CollectCycleTargets_set:
  "set (CollectCycleTargets spec) = {pCommand q |q. \<exists>l \<in> set (msLayouts spec). q \<in> set (leavesOf (lRoot l)) \<and> pScale q = 0}"
proof -
  have "set (fold (\<lambda>l. collectUnpinnedLeafCommands (lRoot l)) ls seen) =
      set seen \<union> {pCommand q |q. \<exists>l \<in> set ls. q \<in> set (leavesOf (lRoot l)) \<and> pScale q = 0}" for ls :: "Layout list" and seen
    by (induction ls arbitrary: seen) (auto simp: collect_leaves)
  then show ?thesis by (simp add: CollectCycleTargets_def)
qed

section \<open>What is built\<close>

text \<open>A built pane for a leaf shows the replica of the leaf.\<close>

definition shows_leaf :: "BuildOptions \<Rightarrow> Resolver \<Rightarrow> PaneSpec \<Rightarrow> string \<Rightarrow> MPane \<Rightarrow> bool" where
  "shows_leaf o' resolver p cid q \<longleftrightarrow>
     (\<exists>idx key name. leafTarget o' p = Inr (idx, key, name) \<and> resolver (pCommand p) idx = Inr cid \<and> q = builtLeaf o' p name key cid)"

lemma builtLeaf_leaves [simp]: "mLeaves (builtLeaf o' p name key cid) = [builtLeaf o' p name key cid]"
  by (simp add: builtLeaf_def M_IsLeaf_def paneArgv_def)

lemma container_leaves: "mLeaves (MPane d sp qs [] [] [] False []) = concat (map mLeaves qs)"
  by (simp add: M_IsLeaf_def)

text \<open>The same tree with containers kept as they are.\<close>

fun same_shape :: "PaneSpec \<Rightarrow> MPane \<Rightarrow> bool" where
  "same_shape (PaneSpec d sp ps c sc m co f) (MPane d' sp' qs n cm co' f' ck) \<longleftrightarrow>
     d = d' \<and> sp = sp' \<and> list_all2 same_shape ps qs"

lemma build_panes:
  "buildPane o' resolver p seen = Inr (q, seen') \<Longrightarrow>
     same_shape p q \<and> (\<exists>ids. list_all2 (\<lambda>(p, cid) q. shows_leaf o' resolver p cid q) (zip (leavesOf p) ids) (mLeaves q) \<and>
       length ids = length (leavesOf p) \<and> seen' = rev ids @ seen \<and> (distinct seen \<longrightarrow> distinct seen'))"
  "buildPanes o' resolver i ps seen = Inr (qs, seen') \<Longrightarrow>
     list_all2 same_shape ps qs \<and> (\<exists>ids. list_all2 (\<lambda>(p, cid) q. shows_leaf o' resolver p cid q) (zip (concat (map leavesOf ps)) ids) (concat (map mLeaves qs)) \<and>
       length ids = length (concat (map leavesOf ps)) \<and> seen' = rev ids @ seen \<and> (distinct seen \<longrightarrow> distinct seen'))"
proof (induction p seen and i ps seen arbitrary: q seen' and qs seen' rule: buildPane_buildPanes.induct)
  case (1 o' resolver d sp ps c sc m co f seen)
  let ?p = "PaneSpec d sp ps c sc m co f"
  show ?case
  proof (cases "IsLeaf ?p")
    case True
    then obtain idx key name cid where l: "leafTarget o' ?p = Inr (idx, key, name)" "resolver c idx = Inr cid" "cid \<notin> set seen"
        "q = builtLeaf o' ?p name key cid" "seen' = cid # seen"
      using "1.prems" by (auto simp: Let_def split: sum.splits if_splits)
    have "same_shape ?p q" using True l(4) by (simp add: builtLeaf_def IsLeaf_def)
    then show ?thesis using True l by (intro conjI exI [of _ "[cid]"]) (auto simp: shows_leaf_def)
  next
    case False
    then obtain qs where qs: "IsContainer ?p" "buildPanes o' resolver 0 ps seen = Inr (qs, seen')" "q = MPane d sp qs [] [] [] False []"
      using "1.prems" by (auto simp: Let_def split: sum.splits if_splits)
    show ?thesis using "1.IH" [OF refl False qs(1,2)] False qs(3) by (simp add: container_leaves del: mLeaves.simps)
  qed
next
  case (3 o' resolver i p ps seen)
  obtain q qs' s1 where q: "buildPane o' resolver p seen = Inr (q, s1)" "buildPanes o' resolver (i + 1) ps s1 = Inr (qs', seen')" "qs = q # qs'"
    using "3.prems" by (auto split: sum.splits)
  obtain ids where i1: "same_shape p q" "list_all2 (\<lambda>(p, cid) q. shows_leaf o' resolver p cid q) (zip (leavesOf p) ids) (mLeaves q)"
      "length ids = length (leavesOf p)" "s1 = rev ids @ seen" "distinct seen \<longrightarrow> distinct s1"
    using "3.IH"(1) [OF q(1)] by blast
  obtain ids' where i2: "list_all2 same_shape ps qs'"
      "list_all2 (\<lambda>(p, cid) q. shows_leaf o' resolver p cid q) (zip (concat (map leavesOf ps)) ids') (concat (map mLeaves qs'))"
      "length ids' = length (concat (map leavesOf ps))" "seen' = rev ids' @ s1" "distinct s1 \<longrightarrow> distinct seen'"
    using "3.IH"(2) [OF q(1) refl q(2)] by blast
  show ?case using i1 i2 q(3) by (intro conjI exI [of _ "ids @ ids'"]) (auto simp: zip_append list_all2_appendI)
qed simp

definition shows_layout :: "BuildOptions \<Rightarrow> Resolver \<Rightarrow> Layout \<Rightarrow> MLayout \<Rightarrow> bool" where
  "shows_layout o' resolver l l' \<longleftrightarrow>
     mlName l' = lName l \<and> same_shape (lRoot l) (mlRoot l') \<and>
     (\<exists>ids. distinct ids \<and> length ids = length (leavesOf (lRoot l)) \<and>
        list_all2 (\<lambda>(p, cid) q. shows_leaf o' resolver p cid q) (zip (leavesOf (lRoot l)) ids) (mLeaves (mlRoot l')))"

lemma build_layout:
  assumes "buildLayout o' resolver l = Inr l'"
  shows "shows_layout o' resolver l l'"
proof -
  obtain root seen where r: "buildPane o' resolver (lRoot l) [] = Inr (root, seen)" "l' = \<lparr> mlName = lName l, mlRoot = root \<rparr>"
    using assms by (auto simp: buildLayout_def split: sum.splits)
  then show ?thesis using build_panes(1) [OF r(1)] by (auto simp: shows_layout_def)
qed

lemma build_layouts: "buildLayouts o' resolver i ls = Inr ls' \<Longrightarrow> list_all2 (shows_layout o' resolver) ls ls'"
  by (induction i ls arbitrary: ls' rule: buildLayouts.induct) (auto dest: build_layout split: sum.splits)


text \<open>Two replicas of one command side by side, one of them pinned.\<close>

definition twoPanes :: BuildOptions where
  "twoPanes =
     \<lparr> boSpec = \<lparr> msDriver = \<lparr> dsName = [], dsPath = [], dsSocket = [], dsOpts = [] \<rparr>,
         msLayouts = [\<lparr> lName = ''main'',
           lRoot = PaneSpec ''h'' [\<lparr> szN = 1, szAbsolute = False, szPercent = False \<rparr>, \<lparr> szN = 1, szAbsolute = False, szPercent = False \<rparr>]
             [PaneSpec [] [] [] ''web'' 1 [] [] True, PaneSpec [] [] [] ''web'' 0 ''logs'' [] False] [] 0 [] [] False \<rparr>] \<rparr>,
       boResolver = Some (\<lambda>c i. Inr (c @ itoa i)), boReplicas = Some (\<lambda>_. Inr 3),
       boOpts = \<lparr> poExecutable = ''cmdman'', poDataDir = [], poRuntimeDir = [] \<rparr>, boScalePositions = [(''web'', 5)] \<rparr>"


end
