(* ===== verification/Mux_Cycle.thy ===== *)
theory Mux_Cycle
  imports Mux_Build
begin

text \<open>
  \<^verbatim>\<open>CycleScale\<close> of cmdman/mux/cycle_scale.go: advance the replica a command shows in every
  window of a dashboard. What the multiplexer answers is the argument \<open>srv\<close>; what the call
  changes is the state \<open>muxWorld\<close>, the raw scale state of each window and the panes respawned.
\<close>

section \<open>Searching a layout\<close>

fun findUnpinnedLeafInPane :: "PaneSpec \<Rightarrow> string \<Rightarrow> PaneSpec option"
and findUnpinnedList :: "PaneSpec list \<Rightarrow> string \<Rightarrow> PaneSpec option" where
  "findUnpinnedLeafInPane (PaneSpec d sp ps c sc m co f) cmd =
     (if IsLeaf (PaneSpec d sp ps c sc m co f) then (if c = cmd \<and> sc = 0 then Some (PaneSpec d sp ps c sc m co f) else None)
      else findUnpinnedList ps cmd)"
| "findUnpinnedList [] cmd = None"
| "findUnpinnedList (p # ps) cmd = (case findUnpinnedLeafInPane p cmd of Some q \<Rightarrow> Some q | None \<Rightarrow> findUnpinnedList ps cmd)"

definition findUnpinnedLeaf :: "Layout \<Rightarrow> string \<Rightarrow> PaneSpec option" where
  "findUnpinnedLeaf l cmd = findUnpinnedLeafInPane (lRoot l) cmd"

fun collectPinnedIndices :: "PaneSpec \<Rightarrow> string \<Rightarrow> int list \<Rightarrow> int list"
and collectPinnedList :: "PaneSpec list \<Rightarrow> string \<Rightarrow> int list \<Rightarrow> int list" where
  "collectPinnedIndices (PaneSpec d sp ps c sc m co f) cmd is =
     (if IsLeaf (PaneSpec d sp ps c sc m co f) then (if c = cmd \<and> sc > 0 then List.insert sc is else is)
      else collectPinnedList ps cmd is)"
| "collectPinnedList [] cmd is = is"
| "collectPinnedList (p # ps) cmd is = collectPinnedList ps cmd (collectPinnedIndices p cmd is)"

definition pinnedScaleIndices :: "Layout \<Rightarrow> string \<Rightarrow> int list" where
  "pinnedScaleIndices l cmd = collectPinnedIndices (lRoot l) cmd []"

definition isCycleScaleTarget :: "Spec \<Rightarrow> string \<Rightarrow> ReplicaCounter option \<Rightarrow> bool" where
  "isCycleScaleTarget spec cmd replicas \<longleftrightarrow> replicas \<noteq> None \<and> list_ex (\<lambda>l. findUnpinnedLeaf l cmd \<noteq> None) (msLayouts spec)"

section \<open>The multiplexer\<close>

record Window =
  wnSession :: string
  wnName :: string
  wnID :: string
  wnMarker :: int
  wnScale :: string

text \<open>The answers of the server: errors are strings, a window that is gone is \<^const>\<open>False\<close>, a
  pane that is not shown \<^const>\<open>None\<close>.\<close>

record muxServer =
  svList :: "string + Window list"
  svOpen :: "string \<Rightarrow> string + bool"
  svFindPane :: "string \<Rightarrow> string \<Rightarrow> string + string option"
  svRespawn :: "string \<Rightarrow> string \<Rightarrow> string option"
  svRead :: "string \<Rightarrow> string option"
  svWrite :: "string \<Rightarrow> string option"

record muxWorld =
  mwScale :: "string \<Rightarrow> string"
  mwRespawned :: "(string \<times> string \<times> MPane) list"

datatype CycleErr =
    NotCycleTarget string | ListFailed string | NoDashboard
  | MarkerOutOfRange string int nat | CountFailed string string | TargetFailed string ScaleErr
  | ResolveFailed string int string | OpenFailed string string | FindFailed string string
  | LeafDisappeared string string | RespawnFailed string string string | WriteFailed string string

record CycleScaleOptions =
  csSpec :: Spec
  csResolver :: Resolver
  csReplicas :: "ReplicaCounter option"
  csOpts :: PaneArgvOpts
  csCommand :: string
  csPosition :: int

record CycleScaleWindowResult =
  crSession :: string
  crWindowName :: string
  crWindowID :: string
  crCommand :: string
  crOldPosition :: int
  crNewPosition :: int
  crResolvedName :: string
  crVisible :: bool
  crLayoutName :: string

section \<open>Cycling one window\<close>

text \<open>The read-modify-write of the window's state.\<close>

definition storePosition :: "muxServer \<Rightarrow> string \<Rightarrow> string \<Rightarrow> int \<Rightarrow> muxWorld \<Rightarrow> string option \<times> muxWorld" where
  "storePosition srv w cmd pos world =
     (case svRead srv w of
        Some e \<Rightarrow> (Some e, world)
      | None \<Rightarrow> (case svWrite srv w of
            Some e \<Rightarrow> (Some e, world)
          | None \<Rightarrow> (None, world\<lparr> mwScale := (mwScale world)(w := writeScalePosition (mwScale world w) cmd pos) \<rparr>)))"

text \<open>The respawn of the visible pane, and the new position once it has succeeded.\<close>

definition showPosition ::
    "muxServer \<Rightarrow> CycleScaleOptions \<Rightarrow> Window \<Rightarrow> Layout \<Rightarrow> int \<Rightarrow> string \<Rightarrow> CycleScaleWindowResult \<Rightarrow> muxWorld \<Rightarrow>
     CycleErr option \<times> CycleScaleWindowResult \<times> muxWorld" where
  "showPosition srv opts w layout pos cid base world =
     (let wid = wnID w; cmd = csCommand opts;
          store = (\<lambda>world. case storePosition srv wid cmd pos world of
             (Some e, world') \<Rightarrow> (Some (WriteFailed wid e), world') | (None, world') \<Rightarrow> (None, world'))
      in case svFindPane srv wid cmd of
           Inl e \<Rightarrow> (Some (FindFailed wid e), base, world)
         | Inr None \<Rightarrow> (case store world of (e, world') \<Rightarrow> (e, base\<lparr> crVisible := False \<rparr>, world'))
         | Inr (Some pane) \<Rightarrow>
             let base = base\<lparr> crVisible := True \<rparr>
             in (case findUnpinnedLeaf layout cmd of
                   None \<Rightarrow> (Some (LeafDisappeared wid (lName layout)), base, world)
                 | Some leaf \<Rightarrow>
                     let built = MPane [] [] [] (replicaName cmd pos) (paneArgv (csOpts opts) (pMode leaf) cid) (pCmdOpt leaf) False cmd
                     in (case svRespawn srv wid pane of
                           Some e \<Rightarrow> (Some (RespawnFailed wid pane e), base, world)
                         | None \<Rightarrow>
                             (case store (world\<lparr> mwRespawned := mwRespawned world @ [(wid, pane, built)] \<rparr>) of
                                (e, world') \<Rightarrow> (e, base, world')))))"

definition cycleScaleWindow ::
    "muxServer \<Rightarrow> CycleScaleOptions \<Rightarrow> Window \<Rightarrow> muxWorld \<Rightarrow> CycleErr option \<times> CycleScaleWindowResult \<times> muxWorld" where
  "cycleScaleWindow srv opts w world =
     (let wid = wnID w; cmd = csCommand opts; layouts = msLayouts (csSpec opts);
          base = \<lparr> crSession = wnSession w, crWindowName = wnName w, crWindowID = wid, crCommand = cmd, crOldPosition = 0,
                   crNewPosition = 0, crResolvedName = [], crVisible = False, crLayoutName = [] \<rparr>
      in if wnMarker w < 0 \<or> wnMarker w \<ge> int (length layouts) then (Some (MarkerOutOfRange wid (wnMarker w) (length layouts)), base, world)
         else let layout = layouts ! nat (wnMarker w); base = base\<lparr> crLayoutName := lName layout \<rparr>
         in case (case csReplicas opts of Some r \<Rightarrow> r cmd | None \<Rightarrow> Inl []) of
              Inl e \<Rightarrow> (Some (CountFailed wid e), base, world)
            | Inr n0 \<Rightarrow>
                let n = max n0 1;
                    cur = wrapPosition (case positionOf (wnScale w) cmd of Some p \<Rightarrow> p | None \<Rightarrow> 1) n;
                    base = base\<lparr> crOldPosition := cur \<rparr>
                in case computeTargetPosition cur (csPosition opts) n (pinnedScaleIndices layout cmd) of
                     Inl e \<Rightarrow> (Some (TargetFailed wid e), base, world)
                   | Inr pos \<Rightarrow>
                       let base = base\<lparr> crNewPosition := pos \<rparr>
                       in case csResolver opts cmd pos of
                            Inl e \<Rightarrow> (Some (ResolveFailed wid pos e), base, world)
                          | Inr cid \<Rightarrow>
                              let base = base\<lparr> crResolvedName := replicaName cmd pos \<rparr>
                              in case svOpen srv wid of
                                   Inl e \<Rightarrow> (Some (OpenFailed wid e), base, world)
                                 | Inr False \<Rightarrow> (None, base, world)
                                 | Inr True \<Rightarrow> showPosition srv opts w layout pos cid base world)"

section \<open>Cycling a dashboard\<close>

fun cycleWindows ::
    "muxServer \<Rightarrow> CycleScaleOptions \<Rightarrow> Window list \<Rightarrow> muxWorld \<Rightarrow> CycleErr list \<times> CycleScaleWindowResult list \<times> muxWorld" where
  "cycleWindows srv opts [] world = ([], [], world)"
| "cycleWindows srv opts (w # ws) world =
     (case cycleScaleWindow srv opts w world of (e, res, world') \<Rightarrow>
      case cycleWindows srv opts ws world' of (es, rs, world'') \<Rightarrow>
        ((case e of None \<Rightarrow> es | Some e \<Rightarrow> e # es), (if e \<noteq> None \<and> crWindowID res = [] then rs else res # rs), world''))"

definition CycleScale ::
    "muxServer \<Rightarrow> CycleScaleOptions \<Rightarrow> muxWorld \<Rightarrow> CycleErr list \<times> CycleScaleWindowResult list \<times> muxWorld" where
  "CycleScale srv opts world =
     (if \<not> isCycleScaleTarget (csSpec opts) (csCommand opts) (csReplicas opts) then ([NotCycleTarget (csCommand opts)], [], world)
      else case svList srv of
        Inl e \<Rightarrow> ([ListFailed e], [], world)
      | Inr rows \<Rightarrow> if rows = [] then ([NoDashboard], [], world) else cycleWindows srv opts rows world)"

section \<open>Every replica in turn\<close>

text \<open>One call on a window, which reads the window's state afresh.\<close>

definition cycleOnce :: "muxServer \<Rightarrow> CycleScaleOptions \<Rightarrow> Window \<Rightarrow> muxWorld \<Rightarrow> muxWorld" where
  "cycleOnce srv opts w world = snd (snd (cycleScaleWindow srv opts (w\<lparr> wnScale := mwScale world (wnID w) \<rparr>) world))"

text \<open>A window that is there, shows the command or not, and a server that does what it is asked.\<close>

definition responsive :: "muxServer \<Rightarrow> CycleScaleOptions \<Rightarrow> Window \<Rightarrow> bool" where
  "responsive srv opts w \<longleftrightarrow>
     0 \<le> wnMarker w \<and> wnMarker w < int (length (msLayouts (csSpec opts))) \<and> csPosition opts = 0 \<and>
     svOpen srv (wnID w) = Inr True \<and> svRead srv (wnID w) = None \<and> svWrite srv (wnID w) = None \<and>
     (case svFindPane srv (wnID w) (csCommand opts) of
        Inl e \<Rightarrow> False
      | Inr None \<Rightarrow> True
      | Inr (Some pane) \<Rightarrow> svRespawn srv (wnID w) pane = None \<and>
          findUnpinnedLeaf (msLayouts (csSpec opts) ! nat (wnMarker w)) (csCommand opts) \<noteq> None)"

definition pinsOf :: "CycleScaleOptions \<Rightarrow> Window \<Rightarrow> int list" where
  "pinsOf opts w = pinnedScaleIndices (msLayouts (csSpec opts) ! nat (wnMarker w)) (csCommand opts)"

definition visibleLeaf :: "muxServer \<Rightarrow> CycleScaleOptions \<Rightarrow> Window \<Rightarrow> bool" where
  "visibleLeaf srv opts w \<longleftrightarrow> (\<exists>pane. svFindPane srv (wnID w) (csCommand opts) = Inr (Some pane))"

definition advanceRaw :: "CycleScaleOptions \<Rightarrow> Window \<Rightarrow> int \<Rightarrow> string \<Rightarrow> string" where
  "advanceRaw opts w n = advanceStored positionOf writeScalePosition n (pinsOf opts w) (csCommand opts)"

lemma cycle_step:
  assumes "responsive srv opts w" "csReplicas opts = Some reps" "reps (csCommand opts) = Inr n" "0 < n"
    and "\<forall>i. \<exists>cid. csResolver opts (csCommand opts) i = Inr cid"
  shows "mwScale (cycleOnce srv opts w world) = (mwScale world)(wnID w := advanceRaw opts w n (mwScale world (wnID w)))"
    "visibleLeaf srv opts w \<Longrightarrow>
       computeTargetPosition (currentPosition positionOf n (csCommand opts) (mwScale world (wnID w))) 0 n (pinsOf opts w) = Inr p \<Longrightarrow>
       \<exists>pane cid leaf. csResolver opts (csCommand opts) p = Inr cid \<and> pMode leaf = pMode (the (findUnpinnedLeaf (msLayouts (csSpec opts) ! nat (wnMarker w)) (csCommand opts))) \<and>
         mwRespawned (cycleOnce srv opts w world) = mwRespawned world @
           [(wnID w, pane, MPane [] [] [] (replicaName (csCommand opts) p) (paneArgv (csOpts opts) (pMode leaf) cid) (pCmdOpt leaf) False (csCommand opts))]"
proof -
  have n: "max n 1 = n" using assms(4) by simp
  let ?raw = "mwScale world (wnID w)"
  let ?t = "computeTargetPosition (currentPosition positionOf n (csCommand opts) ?raw) 0 n (pinsOf opts w)"
  note defs = cycleOnce_def cycleScaleWindow_def showPosition_def storePosition_def advanceRaw_def advanceStored_def currentPosition_def
    pinsOf_def responsive_def visibleLeaf_def
  show "mwScale (cycleOnce srv opts w world) = (mwScale world)(wnID w := advanceRaw opts w n ?raw)"
  proof (cases ?t)
    case (Inl e)
    then show ?thesis using assms(1-3) n by (simp add: defs Let_def fun_eq_iff)
  next
    case (Inr p)
    obtain cid where "csResolver opts (csCommand opts) p = Inr cid" using assms(5) by blast
    then show ?thesis using assms(1-3) n Inr by (auto simp: defs Let_def split: sum.splits option.splits)
  qed
  assume v: "visibleLeaf srv opts w" and t: "?t = Inr p"
  obtain cid where "csResolver opts (csCommand opts) p = Inr cid" using assms(5) by blast
  then show "\<exists>pane cid leaf. csResolver opts (csCommand opts) p = Inr cid \<and> pMode leaf = pMode (the (findUnpinnedLeaf (msLayouts (csSpec opts) ! nat (wnMarker w)) (csCommand opts))) \<and>
      mwRespawned (cycleOnce srv opts w world) = mwRespawned world @
        [(wnID w, pane, MPane [] [] [] (replicaName (csCommand opts) p) (paneArgv (csOpts opts) (pMode leaf) cid) (pCmdOpt leaf) False (csCommand opts))]"
    using assms(1-3) n t v by (auto simp: defs Let_def split: sum.splits option.splits)
qed

lemma cycle_steps:
  assumes "responsive srv opts w" "csReplicas opts = Some reps" "reps (csCommand opts) = Inr n" "0 < n"
    and "\<forall>i. \<exists>cid. csResolver opts (csCommand opts) i = Inr cid"
  shows "mwScale ((cycleOnce srv opts w ^^ k) world) = (mwScale world)(wnID w := (advanceRaw opts w n ^^ k) (mwScale world (wnID w)))"
  by (induction k) (simp_all add: cycle_step(1) [OF assms] fun_eq_iff)

text \<open>C31: Cycling shows every replica of a command. Whatever position is stored and whichever
  replicas other panes of the layout pin, calling cycle-scale again and again reaches every
  replica that is not pinned, within as many calls as there are replicas; at that call the
  visible pane is respawned as that replica, the position is stored, and neither the
  positions of other commands nor other windows have changed.\<close>

theorem cycle_visits_all:
  assumes "responsive srv opts w" "csReplicas opts = Some reps" "reps (csCommand opts) = Inr n" "0 < n" "n \<le> maxInt64"
    and "\<forall>i. \<exists>cid. csResolver opts (csCommand opts) i = Inr cid"
    and "scaleState (mwScale world (wnID w))" "scaleName (csCommand opts)" "1 \<le> u" "u \<le> n" "u \<notin> set (pinsOf opts w)"
  shows "\<exists>k world'. 0 < k \<and> k \<le> nat n \<and> world' = (cycleOnce srv opts w ^^ k) world \<and>
    positionOf (mwScale world' (wnID w)) (csCommand opts) = Some u \<and>
    (\<forall>c. c \<noteq> csCommand opts \<longrightarrow> positionOf (mwScale world' (wnID w)) c = positionOf (mwScale world (wnID w)) c) \<and>
    (\<forall>v. v \<noteq> wnID w \<longrightarrow> mwScale world' v = mwScale world v) \<and>
    (visibleLeaf srv opts w \<longrightarrow> (\<exists>pane q cid mode. last (mwRespawned world') = (wnID w, pane, q) \<and>
       mpName q = replicaName (csCommand opts) u \<and> csResolver opts (csCommand opts) u = Inr cid \<and> mpCmd q = paneArgv (csOpts opts) mode cid))"
proof -
  let ?raw = "mwScale world (wnID w)" and ?cmd = "csCommand opts"
  note steps = cycle_steps [OF assms(1-4,6)]
  obtain k where k: "0 < k" "k \<le> nat n" "positionOf ((advanceRaw opts w n ^^ k) ?raw) ?cmd = Some u"
      "\<forall>c. c \<noteq> ?cmd \<longrightarrow> positionOf ((advanceRaw opts w n ^^ k) ?raw) c = positionOf ?raw c"
    using scale_codec.visits_all [OF assms(7,8,4,5,9,10,11)] unfolding advanceRaw_def by blast
  obtain j where j: "k = Suc j" using k(1) by (cases k) auto
  let ?before = "(cycleOnce srv opts w ^^ j) world"
  let ?b = "mwScale ?before (wnID w)"
  have b: "?b = (advanceRaw opts w n ^^ j) ?raw" using steps [of j] by simp
  have valid: "scaleState ?b" unfolding b advanceRaw_def by (rule scale_codec.advances_valid [OF assms(7,8,4,5)])
  obtain p where p: "computeTargetPosition (currentPosition positionOf n ?cmd ?b) 0 n (pinsOf opts w) = Inr p"
    using scale_codec.target_exists [OF valid assms(4,9-11)] by blast
  have "(advanceRaw opts w n ^^ k) ?raw = advanceRaw opts w n ?b" using b j by simp
  then have "p = u" using scale_codec.advance_keeps(2) [OF valid assms(8,4,5) p] k(3) by (simp add: advanceRaw_def)
  then have "visibleLeaf srv opts w \<longrightarrow> (\<exists>pane q cid mode. last (mwRespawned (cycleOnce srv opts w ?before)) = (wnID w, pane, q) \<and>
       mpName q = replicaName ?cmd u \<and> csResolver opts ?cmd u = Inr cid \<and> mpCmd q = paneArgv (csOpts opts) mode cid)"
    using cycle_step(2) [OF assms(1-4,6) _ p] by fastforce
  then show ?thesis using k steps [of k] j by (intro exI [of _ k] exI [of _ "(cycleOnce srv opts w ^^ k) world"]) simp
qed

text \<open>Three replicas, the second pinned in the same layout.\<close>

definition webWindow :: Window where
  "webWindow = \<lparr> wnSession = ''s'', wnName = ''dash'', wnID = ''@1'', wnMarker = 0, wnScale = [] \<rparr>"

definition webServer :: muxServer where
  "webServer = \<lparr> svList = Inr [webWindow], svOpen = (\<lambda>_. Inr True), svFindPane = (\<lambda>_ _. Inr (Some ''%1'')),
     svRespawn = (\<lambda>_ _. None), svRead = (\<lambda>_. None), svWrite = (\<lambda>_. None) \<rparr>"

definition webOpts :: CycleScaleOptions where
  "webOpts = \<lparr> csSpec = \<lparr> msDriver = \<lparr> dsName = [], dsPath = [], dsSocket = [], dsOpts = [] \<rparr>,
       msLayouts = [\<lparr> lName = ''main'', lRoot = PaneSpec ''h'' []
         [PaneSpec [] [] [] ''web'' 2 [] [] True, PaneSpec [] [] [] ''web'' 0 [] [] False] [] 0 [] [] False \<rparr>] \<rparr>,
     csResolver = (\<lambda>c i. Inr (c @ itoa i)), csReplicas = Some (\<lambda>_. Inr 3),
     csOpts = \<lparr> poExecutable = ''cmdman'', poDataDir = [], poRuntimeDir = [] \<rparr>, csCommand = ''web'', csPosition = 0 \<rparr>"

definition webWorld :: muxWorld where
  "webWorld = \<lparr> mwScale = (\<lambda>_. ''web=1 db=4''), mwRespawned = [] \<rparr>"

theorem cycle_visits_all_witness:
  "\<exists>k world'. 0 < k \<and> k \<le> nat 3 \<and> world' = (cycleOnce webServer webOpts webWindow ^^ k) webWorld \<and>
     positionOf (mwScale world' ''@1'') ''web'' = Some 3 \<and> positionOf (mwScale world' ''@1'') ''db'' = Some 4"
proof -
  have r: "responsive webServer webOpts webWindow" by code_simp
  have o: "csReplicas webOpts = Some (\<lambda>_. Inr 3)" "csCommand webOpts = ''web''" "wnID webWindow = ''@1''"
    "\<forall>i. \<exists>cid. csResolver webOpts (csCommand webOpts) i = Inr cid" by (simp_all add: webOpts_def webWindow_def)
  have s: "scaleState (mwScale webWorld (wnID webWindow))" "scaleName (csCommand webOpts)" "3 \<notin> set (pinsOf webOpts webWindow)"
    "positionOf (mwScale webWorld ''@1'') ''db'' = Some 4" by code_simp+
  have m: "(3 :: int) \<le> maxInt64" "(0 :: int) < 3" "(1 :: int) \<le> 3" "(3 :: int) \<le> 3" by (simp_all add: maxInt64_def)
  from cycle_visits_all [OF r o(1) refl m(2,1) o(4) s(1,2) m(3,4) s(3)]
  obtain k world' where k: "0 < k" "k \<le> nat 3" "world' = (cycleOnce webServer webOpts webWindow ^^ k) webWorld"
      "positionOf (mwScale world' (wnID webWindow)) (csCommand webOpts) = Some 3"
      "\<forall>c. c \<noteq> csCommand webOpts \<longrightarrow> positionOf (mwScale world' (wnID webWindow)) c = positionOf (mwScale webWorld (wnID webWindow)) c"
    by blast
  have "''db'' \<noteq> csCommand webOpts" by (simp add: o(2))
  then have "positionOf (mwScale world' ''@1'') ''db'' = Some 4" using k(5) s(4) unfolding o(3) by metis
  then show ?thesis using k(1-4) unfolding o(2,3) by blast
qed

end
