(* ===== verification/Spec2Isabelle.thy ===== *)
theory Spec2Isabelle
  imports Compose_Examples Compose_Stored Compose_Normalize Attach_Replay Runtime_Stream Mux_Cycle
begin

text \<open>
  \<^bold>\<open>cmdman\<close> runs commands under monitors and projects of commands from compose files.

  \<^bold>\<open>The program.\<close> A compose file is decoded, normalized against the environment into a project
  (cmdman/compose/normalize.go), checked for dependency cycles (graph.go), compared with the
  stored commands into a plan (plan.go, hash.go), and brought up or down by a pool of workers
  that walk the dependency graph (reconcile.go). Each command runs under a monitor process
  (cmdman/monitor), which keeps the newest output in a ring buffer, writes all of it to a log
  (cmdman/logdriver), forwards it to attached viewers with the blocked sequences taken out
  (hook_filter.go), mirrors the terminal modes, title, directory, bell and notifications of the
  command (terminal_state.go, runtime_state.go) and reports them (runtime_stream.go, hooks.go).
  A dashboard shows commands in the panes of a terminal multiplexer (cmdman/mux, pkg/muxctl).

  \<^bold>\<open>Theories.\<close>

  \<^item> \<^verbatim>\<open>Go_Prelude\<close>, \<^verbatim>\<open>Go_Strconv\<close>, \<^verbatim>\<open>Go_Path\<close>, \<^verbatim>\<open>Go_Time\<close>, \<^verbatim>\<open>Go_Utf8\<close>: the parts of Go and its
    standard library the sources use, and the lemmas and collections all components share.

  \<^item> \<^verbatim>\<open>Compose_Spec\<close> (records and enums of spec.go, lifecycle.go, cmdman/model), \<^verbatim>\<open>Parse_Options\<close>
    (restart policies, timeouts, signals, log options), \<^verbatim>\<open>Compose_Lifecycle\<close> (lifecycle hooks),
    \<^verbatim>\<open>Compose_Env\<close> and \<^verbatim>\<open>Compose_Normalize\<close> (\<^verbatim>\<open>Normalize\<close> with everything it calls): what normalizes
    is well formed, its instance names are distinct, and environment layers override each other
    in the documented order.

  \<^item> \<^verbatim>\<open>Compose_Graph\<close> (graph.go): the cycle check accepts exactly the acyclic projects with known
    dependencies, and the layers are a topological order. \<^verbatim>\<open>Compose_Naming\<close>, \<^verbatim>\<open>Compose_Plan\<close>
    (hash.go, plan.go): names are unique, labels round-trip, a plan accounts for every stored
    command and is empty after it has been carried out. \<^verbatim>\<open>Compose_Target\<close> (target.go): start and
    stop closures are the least closed sets.

  \<^item> \<^verbatim>\<open>Reconcile_Graph\<close>, \<^verbatim>\<open>Reconcile_Ops\<close>, \<^verbatim>\<open>Reconcile_Walk\<close>, \<^verbatim>\<open>Reconcile_Run\<close>, \<^verbatim>\<open>Reconcile_Outcome\<close>,
    \<^verbatim>\<open>Reconcile_Build\<close>, \<^verbatim>\<open>Reconcile_Theorems\<close> (reconcile.go): the locked operations of the graph, and
    the pool of workers with its bounded channel as a step relation. Every interleaving
    terminates without deadlock, acts on each command at most once and in dependency order, and
    reports an outcome for every command.

  \<^item> \<^verbatim>\<open>Compose_Walk\<close> (reconcile.go): the walk with the effects of its actions. The host picks which
    worker goes next and in which order a map is visited; every such run is a run of the step
    relation, and ends within \<open>walkFuel\<close> turns.

  \<^item> \<^verbatim>\<open>Cmd_Store\<close> (cmdman/store): the tables of configurations, states and exit codes, their constraints
    and queries, any of which may fail. \<^verbatim>\<open>Cmd_Service\<close> (cmdman_*.go, mon_clean.go, mon_spawn.go): create,
    replace, remove, list, start, stop, restart and wait. \<^verbatim>\<open>Cmd_Effects\<close> states what an operation may do
    to the store as locales (\<open>store_frame\<close> and the ones that extend it up to \<open>service_frame\<close> and
    \<open>create_frame\<close>), interpreted on the model for each relation it keeps; \<^verbatim>\<open>Cmd_Theorems\<close>, \<^verbatim>\<open>Cmd_Create\<close>:
    the store stays consistent, a reported stop is a stop, replacing is atomic and creating is not.
    \<^verbatim>\<open>Cmd_Cancel\<close>: a context that is done stays done.

  \<^item> \<^verbatim>\<open>Hook_Holder\<close>, \<^verbatim>\<open>Hook_Runner\<close>, \<^verbatim>\<open>Hook_Steps\<close> (intermediate.go, lifecycle_runner.go,
    lifecycle_output.go, lifecycle_replica.go, lifecycle_steps.go, release_recorder.go, event.go): the
    commands that hold resources and run hooks, one run of a hook, and the operations inside their
    hooks. \<^verbatim>\<open>Hook_Frame\<close>, \<^verbatim>\<open>Hook_Resources\<close>, \<^verbatim>\<open>Hook_Acquire\<close>: after a run the holder of a resource is
    the one that the run acquired, or gone when the run released it, or the one from before.
    \<^verbatim>\<open>Hook_Events\<close>: what a run reports, and that force keeps no replica.

  \<^item> \<^verbatim>\<open>Compose_Teardown\<close>, \<^verbatim>\<open>Compose_Reconcile\<close>, \<^verbatim>\<open>Compose_Service\<close> (service_reconcile.go, service_create.go,
    service_orphan.go, service_up.go, service_start.go, service_stop.go, service_restart.go,
    service_down.go, service_scale.go, reconstruct_project.go, label_after.go, selection.go): the compose
    operations from their targets to their outcomes. \<^verbatim>\<open>Compose_Frame\<close> is the interface between them and
    the service: the locale \<open>service_calls\<close> asks of a relation on worlds that the calls to the service
    keep it, and \<^verbatim>\<open>Compose_Keeps\<close> proves that then every compose operation does; it is interpreted on
    the consistency of the store and on a context that is done. \<^verbatim>\<open>Compose_Runs\<close>: what start, stop and up
    report of the closure of their targets. \<^verbatim>\<open>Compose_Stored\<close>: the project that is read back from stored
    labels is the one they were written for. \<^verbatim>\<open>Compose_Examples\<close>: a small project run to its end.

  \<^item> \<^verbatim>\<open>Log_Writer\<close>, \<^verbatim>\<open>Log_Tail\<close>, \<^verbatim>\<open>Log_Reader\<close>, \<^verbatim>\<open>Log_Roundtrip\<close> (cmdman/logdriver, k8sfile): what is
    written is read back through rotation, for every bounded selection.

  \<^item> \<^verbatim>\<open>Ring_Buffer\<close>, \<^verbatim>\<open>Terminal_State\<close>, \<^verbatim>\<open>Broadcaster\<close>, \<^verbatim>\<open>Monitor_Output\<close> (ringbuffer.go,
    terminal_state.go, broadcaster.go, and the output path of mon_run.go and mon_server.go): the
    ring implements the interface \<open>scrollback\<close>; modes survive a replay; scrollback and records of
    a subscriber meet without gap or overlap.

  \<^item> \<^verbatim>\<open>Hook_Filter\<close>, \<^verbatim>\<open>Ansi_Parser\<close>, \<^verbatim>\<open>Viewer_State\<close>, \<^verbatim>\<open>Hook_Refinement\<close> (hook_filter.go against the
    emulator's parser under internal/third_party): the filtered stream is, for the viewer, the
    stream without the blocked events, on streams of complete sequences; outside of them the
    theorems named after the leak show what passes.

  \<^item> \<^verbatim>\<open>Hook_Dispatch\<close> (cmdman/model/hook.go, hooks.go), \<^verbatim>\<open>Runtime_State\<close>, \<^verbatim>\<open>Runtime_Stream\<close>,
    \<^verbatim>\<open>Attach_Replay\<close> (runtime_state.go, runtime_stream.go): hooks run with the configuration they
    were captured under; everything reported is valid UTF-8; the stream of changes loses none; a
    viewer that attaches is shown the title and directory of the command.

  \<^item> \<^verbatim>\<open>Mux_Spec\<close>, \<^verbatim>\<open>Mux_Scale\<close>, \<^verbatim>\<open>Mux_Build\<close>, \<^verbatim>\<open>Mux_Cycle\<close> (pkg/muxctl and cmdman/mux): layout trees and
    their validation, the stored scale positions as an implementation of the interface
    \<open>position_store\<close>, the realization of layouts and the cycling of a pane through replicas. A
    built layout shows each replica at most once, with the argv of its viewer, and cycling visits every replica that is not pinned.

  \<^bold>\<open>Conventions.\<close> A method that locks a mutex is one atomic operation; code that releases it in
  between is several. Goroutines, timers and channels are step relations over explicit states,
  and their theorems hold for every interleaving. Go's randomized map order is an argument where
  a result depends on it. Errors are values of a sum with one constructor per message of the
  source; the compose services wrap and join them, with the texts they print abbreviated. The service
  and compose run on an explicit world: the store, the directories, what was signalled and reported,
  and a tick that every call to the store or the system advances. At each tick the host (\<open>Host\<close>,
  \<open>ComposeHost\<close>) decides what happens outside: whether the call fails, what monitors write into the
  store, whether the caller's context ends. A wait polls as often as the host says. The goroutines of
  one errgroup run one after the other in an order of the host's choice, workers of a walk a turn at a
  time, and the output of a hook is forwarded before the wait for it. Machine integers are words, or integers with the bounds of \<^verbatim>\<open>int64\<close> written out where
  overflow can happen.

  \<^bold>\<open>Parameters, bounds and fuel.\<close> Code outside the tree and the operating system are arguments: the
  file system, interpolation, dotenv parsing, JSON and SHA-256, \<^verbatim>\<open>url.Parse\<close>, the actions of a
  walk, the screen mirror's rendering. The theorems that need something of them say so in a
  hypothesis, and their witnesses instantiate it. The chunk size of the log reader and the data
  size of the parser are arguments (the parser's must hold the 32 bytes the filter decides on).
  One definition uses fuel: \<open>walkLoop\<close> gets the turns \<open>walkFuel\<close> of the walk's first state, the
  vertices left times a bound of the work between two of them; \<open>fuel_enough\<close> and \<open>loop_reach\<close> prove
  that every worker has returned when it is spent. All other loops are structural or have a termination
  proof, and the termination of the walk and of Kahn's algorithm are theorems about the model of the code.

  \<^bold>\<open>Not modelled.\<close> Processes, signals and ptys (the rest of mon.go, mon_run.go, stop_command.go,
  orphans_linux.go), gRPC and generated code, the opening and migration of the database and its
  SQL below the level of tables, tmux commands, the interactive terminal UI and command-line output:
  they are effects on other systems with little logic of their own, or rendering. The history of
  projects that create, start and down record has no reader among the operations modelled. The reports
  and streams of the services (logs, attach, inspect, signal, send-keys, events, status), following a
  growing log, the event log and frames are outside of the model too.
\<close>

section \<open>From a compose file to its commands\<close>

lemma validateName_no_nul: "validateName n = Inr () \<Longrightarrow> n \<noteq> beginVertex \<and> n \<noteq> endVertex"
  using nameChar_plain [of "CHR 0x00"] by (auto simp: validateName_iff beginVertex_def endVertex_def)

lemma normalized_walkable:
  assumes "Normalize ext path raw opts = Inr spec" and "raw_wf raw" and "ext_ok ext"
  shows "names_ok spec" "after_distinct spec" "ValidateDAG (sCommands spec) = Inr ()"
    "closed_deps (sCommands spec)" "acyclic (dep_rel (sCommands spec))"
proof -
  note f = normalized_commands [OF assms]
  have d: "distinct (map cName (sCommands spec))" using f(3) assms(2) by (simp add: raw_wf_def)
  show "names_ok spec" unfolding names_ok_def using d f(4) validateName_no_nul by (auto simp: command_ok_def)
  show "after_distinct spec" unfolding after_distinct_def using f(4) by (auto simp: command_ok_def)
  show v: "ValidateDAG (sCommands spec) = Inr ()" using assms(1) by (rule Normalize_parts) simp
  show "closed_deps (sCommands spec)" "acyclic (dep_rel (sCommands spec))" using ValidateDAG_facts(1) [OF d] v by auto
qed

lemma start_closure_closed:
  assumes "closed_deps (sCommands spec)" and "distinct (map cName (sCommands spec))"
    and "c \<in> set (sCommands spec)" "cName c \<in> set (resolveTargetCommands spec names)" "a \<in> set (cAfter c)"
  shows "asName a \<in> set (resolveTargetCommands spec names)"
  using start_closed [OF assms(2-5)] assms(1,3,5) by (auto simp: closed_deps_def)

text \<open>From the file to the running commands. For a compose file that normalizes, a start
  of any set of command names walks the closure of those names: when the action of each
  dependency reports no error and reaches the state its dependents wait for, the walk
  that returns lists every command of the closure in the file's order, each with the
  outcome of its own action and none of them blocked.\<close>

lemma compose_start:
  assumes "Normalize ext path raw opts = Inr spec" and "raw_wf raw" and "ext_ok ext"
    and "\<And>c a res. c \<in> set (sCommands spec) \<Longrightarrow> cName c \<in> set (resolveTargetCommands spec names) \<Longrightarrow> a \<in> set (cAfter c) \<Longrightarrow>
        act (asName a) res \<Longrightarrow> arErr res = None \<and> condition_met (asCondition a) (arState res) (arExitCode res)"
    and "walk act walkFromBegin limit
      (buildReconcileGraph spec snaps (set (resolveTargetCommands spec names)) targets) False g'"
  shows "list_all2 (\<lambda>c out. soCommand out = cName c \<and> (\<exists>res. act (cName c) res \<and> soErr out = arErr res))
    (filter (\<lambda>c. cName c \<in> set (resolveTargetCommands spec names)) (sCommands spec)) (startOutcomes g' spec)"
proof -
  note n = normalized_walkable [OF assms(1-3)]
  have d: "distinct (map cName (sCommands spec))" using n(1) by (simp add: names_ok_def)
  show ?thesis
    by (rule start_all [OF n(1-3) start_closure_closed [OF n(4) d] assms(4,5)])
qed

text \<open>From the file to the stopped commands. For a compose file that normalizes, a stop of
  any set of names walks the names and everything that depends on them; the walk that
  returns has acted on each of them and reports them in teardown order, dependents
  first.\<close>

lemma compose_stop:
  assumes "Normalize ext path raw opts = Inr spec" and "raw_wf raw" and "ext_ok ext"
    and "closure = set (resolveStopTargetCommands spec names)"
    and "walk act walkFromEnd limit (buildReconcileGraph spec snaps closure targets) False g'"
  shows "mset (map stCommand (stopOutcomes g' spec)) = mset (filter (\<lambda>n. n \<in> closure) (map cName (sCommands spec))) \<and>
    (\<forall>i j. (i, j) \<in> dep_rel (sCommands spec) \<longrightarrow> i \<in> closure \<longrightarrow>
       (\<exists>a b. a < b \<and> b < length (stopOutcomes g' spec) \<and>
          stCommand (stopOutcomes g' spec ! a) = j \<and> stCommand (stopOutcomes g' spec ! b) = i))"
proof -
  note n = normalized_walkable [OF assms(1-3)]
  have d: "distinct (map cName (sCommands spec))" using n(1) by (simp add: names_ok_def)
  note s = stop_facts [OF n(1,5) refl assms(5)]
  have "{i, j} \<subseteq> closure \<inter> set (map cName (sCommands spec))" if ij: "(i, j) \<in> dep_rel (sCommands spec)" "i \<in> closure" for i j
  proof -
    have "i \<in> set (map cName (sCommands spec))" "j \<in> set (map cName (sCommands spec))"
      using ij(1) n(4) by (auto simp: dep_rel_def closed_deps_def)
    moreover have "j \<in> closure" using stop_closed [OF ij(1)] ij(2) unfolding assms(4) .
    ultimately show ?thesis using ij(2) by simp
  qed
  with s show ?thesis by blast
qed

section \<open>The project read back from its labels\<close>

lemma normalized_storable:
  assumes "command_ok h p c" and "cScale c \<le> maxInt64"
    and "cAfter c \<noteq> [] \<Longrightarrow> phEncodeAfter ph (cAfter c) \<noteq> [] \<and> phDecodeAfter ph (phEncodeAfter ph (cAfter c)) = Some (cAfter c)"
  shows "storable ph c"
proof -
  have "hasPrefix LabelAfter LabelPrefix" by code_simp
  with assms(1) have "LabelAfter \<notin> set (keys_of (cLabels c))" by (auto simp: command_ok_def)
  then have "map_of (cLabels c) LabelAfter = None" by (simp add: map_of_eq_None_iff)
  then have "label_of (cLabels c) LabelAfter = []" by (simp add: label_of_def)
  moreover have "list_all (\<lambda>a. \<not> isl (AfterSpec_Validate a)) (cAfter c)" using assms(1) by (auto simp: command_ok_def list_all_iff)
  moreover have "cName c \<noteq> []" "cGeneratedName c \<noteq> []" using assms(1) by (auto simp: command_ok_def validateName_iff GenerateName_def)
  ultimately show ?thesis using assms(2,3) by (simp add: storable_def)
qed

text \<open>C11: The stored project is the project. When the replicas of a compose file that normalizes are all
  stored, in any order, with the labels and names that create gives them, \<^verbatim>\<open>reconstructProjectFromMeta\<close>
  rebuilds its commands in the order of the file, each with its dependencies, its generated name and
  its number of replicas, so that a stop or a down without the file walks the same graph. \<^verbatim>\<open>json\<close> is
  assumed to read back the dependencies that it wrote.\<close>

theorem stored_project_roundtrip:
  assumes "Normalize ext path raw opts = Inr spec" and "raw_wf raw" and "ext_ok ext" and "sCommands spec \<noteq> []"
    and "\<forall>c \<in> set (sCommands spec). cScale c \<le> maxInt64"
    and "\<forall>c \<in> set (sCommands spec). cAfter c \<noteq> [] \<longrightarrow>
      phEncodeAfter ph (cAfter c) \<noteq> [] \<and> phDecodeAfter ph (phEncodeAfter ph (cAfter c)) = Some (cAfter c)"
    and "mset rs = mset (projectReplicas spec)" and "list_all2 (replicaEntry ph spec hash) rs entries"
  shows "reconstructProjectFromMeta ph workDir entries = Inr (Some \<lparr> sComposeFile = [], sProject = sProject spec, sWorkDir = workDir,
     sWorkDirDeclared = False, sCommands = map (\<lambda>c. storedView c (max (cScale c) 1)) (sCommands spec), sMux = None \<rparr>)"
proof -
  note f = normalized_commands [OF assms(1-3)] and n = normalized_walkable [OF assms(1-3)]
  have "distinct (map cName (sCommands spec))" using n(1) by (simp add: names_ok_def)
  moreover have "sorted (map cName (sCommands spec))" by (simp add: f(3))
  moreover have "\<forall>c \<in> set (sCommands spec). storable ph c" using f(4) assms(5,6) by (blast intro: normalized_storable)
  ultimately show ?thesis by (rule reconstruct_stored [OF _ _ assms(4) n(3) _ assms(7,8)])
qed

definition pairEntry :: "ComposeSpec \<Rightarrow> Command \<times> int \<Rightarrow> CommandEntry" where
  "pairEntry spec = (\<lambda>(c, k). zeroEntry\<lparr> enName := InstanceName (cGeneratedName c) k, enConfigJSON := Some
     \<lparr> ccArgv = [], ccDir = [], ccEnv = [], ccInjectEnv = True, ccRestartPolicy = RestartPolicyNone, ccMaxRetries = 0,
       ccStopSignal = [], ccStopTimeout = None, ccStopCommand = None, ccTty = False, ccScrollbackBytes = 0, ccLogDriver = [],
       ccLogOpts = [], ccLabels = BuildLabels (\<lambda>_. ''[db]'') (\<lambda>_. ''[]'') spec c ''h'' k, ccAnnotations = [], ccHooks = [],
       ccCommandDir = [] \<rparr> \<rparr>)"

lemma pair_normalized:
  "case Normalize plainExt ''compose.yaml'' rawPair noOpts of Inl e \<Rightarrow> False
   | Inr s \<Rightarrow> map cName (sCommands s) = [''db'', ''web''] \<and> map cScale (sCommands s) = [2, 2] \<and>
       map cAfter (sCommands s) = [[], [\<lparr> asName = ''db'', asCondition = ConditionCompleted \<rparr>]]"
  by code_simp

theorem stored_project_roundtrip_witness:
  "\<exists>spec ph. Normalize plainExt ''compose.yaml'' rawPair noOpts = Inr spec \<and>
     reconstructProjectFromMeta ph ''/p'' (map (pairEntry spec) (rev (projectReplicas spec))) = Inr (Some \<lparr> sComposeFile = [],
       sProject = sProject spec, sWorkDir = ''/p'', sWorkDirDeclared = False,
       sCommands = map (\<lambda>c. storedView c (max (cScale c) 1)) (sCommands spec), sMux = None \<rparr>)"
proof -
  let ?ph = "\<lparr> phHash = (\<lambda>_. Some ''h''), phEncodeAfter = (\<lambda>_. ''[db]''),
    phDecodeAfter = (\<lambda>_. Some [\<lparr> asName = ''db'', asCondition = ConditionCompleted \<rparr>]), phEncodeHooks = (\<lambda>_. ''[]'') \<rparr>"
  from pair_normalized obtain spec where n: "Normalize plainExt ''compose.yaml'' rawPair noOpts = Inr spec"
    and s: "map cScale (sCommands spec) = [2, 2]" "map cName (sCommands spec) = [''db'', ''web'']"
      "map cAfter (sCommands spec) = [[], [\<lparr> asName = ''db'', asCondition = ConditionCompleted \<rparr>]]"
    by (auto split: sum.splits)
  have a: "\<forall>c \<in> set (sCommands spec). cScale c \<le> maxInt64"
  proof
    fix c assume "c \<in> set (sCommands spec)"
    then have "cScale c \<in> set (map cScale (sCommands spec))" by simp
    then show "cScale c \<le> maxInt64" unfolding s(1) by (simp add: maxInt64_def)
  qed
  have b: "\<forall>c \<in> set (sCommands spec). cAfter c \<noteq> [] \<longrightarrow>
      phEncodeAfter ?ph (cAfter c) \<noteq> [] \<and> phDecodeAfter ?ph (phEncodeAfter ?ph (cAfter c)) = Some (cAfter c)"
  proof (intro ballI impI)
    fix c assume c: "c \<in> set (sCommands spec)" "cAfter c \<noteq> []"
    then have "cAfter c \<in> set (map cAfter (sCommands spec))" by simp
    then show "phEncodeAfter ?ph (cAfter c) \<noteq> [] \<and> phDecodeAfter ?ph (phEncodeAfter ?ph (cAfter c)) = Some (cAfter c)"
      unfolding s(3) using c(2) by auto
  qed
  have c: "sCommands spec \<noteq> []" using s(2) by auto
  have "replicaEntry ?ph spec (phHash ?ph) r (pairEntry spec r)" for r
    by (cases r) (simp add: replicaEntry_def Compose_Plan.recorded_def pairEntry_def zeroEntry_def)
  then have d: "list_all2 (replicaEntry ?ph spec (phHash ?ph)) (rev (projectReplicas spec)) (map (pairEntry spec) (rev (projectReplicas spec)))"
    by (simp add: list_all2_conv_all_nth)
  from stored_project_roundtrip [OF n rawPair_ok(2,3) c a b _ d] n show ?thesis by (intro exI conjI) simp_all
qed

end
